(* ===== verification/Whim_Prelude.thy ===== *)
theory Whim_Prelude
  imports Main "HOL-Library.Word"
begin

text \<open>
  What every theory of the development shares: the widths of the machine integers, byte strings
  and 64-bit floats, Rust's \<open>Result\<close> as a sum type with its early return, panics as error
  values, and the list lemmas the components use.
\<close>

named_theorems whim_defs \<open>definitions of small operations, unfolded on request\<close>

section \<open>Machine types\<close>

type_synonym u8 = "8 word"
type_synonym u16 = "16 word"
type_synonym u32 = "32 word"
type_synonym u64 = "64 word"

text \<open>
  An atom is an interned byte string. Interning makes two atoms of one heap equal exactly when
  their bytes are equal, so the model identifies an atom with its bytes.
\<close>

type_synonym atom = string

text \<open>
  A float is its IEEE 754 bit pattern; \<open>f64_eq\<close> is the comparison \<open>==\<close> of two floats, which is
  false on a NaN and identifies the two zeros.
\<close>

type_synonym f64 = u64

definition f64_is_nan :: "f64 \<Rightarrow> bool" where
  "f64_is_nan x \<longleftrightarrow> unat (take_bit 63 x) > 0x7FF0000000000000"

definition f64_is_zero :: "f64 \<Rightarrow> bool" where
  "f64_is_zero x \<longleftrightarrow> take_bit 63 x = 0"

definition f64_eq :: "f64 \<Rightarrow> f64 \<Rightarrow> bool" where
  "f64_eq x y \<longleftrightarrow>
     \<not> f64_is_nan x \<and> \<not> f64_is_nan y \<and> (x = y \<or> (f64_is_zero x \<and> f64_is_zero y))"

section \<open>Results and early returns\<close>

text \<open>
  \<open>Result<T, E>\<close> is \<open>'e + 'a\<close>, with \<open>Inl\<close> the error. \<open>result_bind\<close> is the operator \<open>?\<close>;
  \<open>run_checks\<close> is a sequence of checks each followed by \<open>?\<close>, which stops at the first error.
\<close>

fun result_bind :: "'e + 'a \<Rightarrow> ('a \<Rightarrow> 'e + 'b) \<Rightarrow> 'e + 'b" where
  "result_bind (Inl e) f = Inl e"
| "result_bind (Inr x) f = f x"

fun result_map :: "('a \<Rightarrow> 'b) \<Rightarrow> 'e + 'a \<Rightarrow> 'e + 'b" where
  "result_map f (Inl e) = Inl e"
| "result_map f (Inr x) = Inr (f x)"

fun ok_or :: "'e \<Rightarrow> 'a option \<Rightarrow> 'e + 'a" where
  "ok_or e None = Inl e"
| "ok_or e (Some x) = Inr x"

fun run_checks :: "('e + unit) list \<Rightarrow> 'e + unit" where
  "run_checks [] = Inr ()"
| "run_checks (c # cs) = result_bind c (\<lambda>_. run_checks cs)"

fun traverse :: "('a \<Rightarrow> 'e + 'b) \<Rightarrow> 'a list \<Rightarrow> 'e + 'b list" where
  "traverse f [] = Inr []"
| "traverse f (x # xs) = result_bind (f x) (\<lambda>y. result_map ((#) y) (traverse f xs))"

lemma result_bind_Inr [simp]:
  "result_bind r f = Inr y \<longleftrightarrow> (\<exists>x. r = Inr x \<and> f x = Inr y)"
  by (cases r) auto

lemma result_map_Inr [simp]: "result_map f r = Inr y \<longleftrightarrow> (\<exists>x. r = Inr x \<and> y = f x)"
  by (cases r) auto

lemma ok_or_Inr [simp]: "ok_or e r = Inr x \<longleftrightarrow> r = Some x"
  by (cases r) auto

lemma run_checks_Inr: "run_checks cs = Inr () \<longleftrightarrow> (\<forall>c\<in>set cs. c = Inr ())"
  by (induction cs) auto

lemma run_checks_append: "run_checks (xs @ ys) = result_bind (run_checks xs) (\<lambda>_. run_checks ys)"
proof (induction xs)
  case (Cons x xs)
  then show ?case by (cases x) auto
qed simp

lemma traverse_Inr:
  "traverse f xs = Inr ys \<longleftrightarrow> list_all2 (\<lambda>x y. f x = Inr y) xs ys"
proof (induction xs arbitrary: ys)
  case (Cons x xs)
  then show ?case by (cases ys) auto
qed auto

lemma traverse_total:
  assumes "\<And>x. x \<in> set xs \<Longrightarrow> f x = Inr (g x)"
  shows "traverse f xs = Inr (map g xs)"
  using assms by (induction xs) auto

section \<open>Indexing\<close>

text \<open>
  \<open>list_get\<close> is \<open>slice.get(i)\<close>, which is \<open>None\<close> out of range. A panic is a value of its own type,
  named after the message of the \<open>expect\<close> that raises it.
\<close>

definition list_get :: "'a list \<Rightarrow> nat \<Rightarrow> 'a option" where
  "list_get xs i = (if i < length xs then Some (xs ! i) else None)"

datatype panic =
    IndexOutOfBounds
  | IndexMustFitU32
  | TargetNegative
  | OffsetMustFitI32
  | OffsetMustFitI16
  | CoalescingOffsetMustFit
  | OnlyAJumpCanBePatched
  | ConstantIndexMustFit
  | ShiftOverflow
  | RankedBlockWithoutDominator
  | DebugAssertion

lemma list_get_Some [simp]: "list_get xs i = Some x \<longleftrightarrow> i < length xs \<and> xs ! i = x"
  by (auto simp: list_get_def)

lemma list_get_None [simp]: "list_get xs i = None \<longleftrightarrow> length xs \<le> i"
  by (auto simp: list_get_def)

text \<open>\<open>u32_index\<close> of the base crate panics where the index does not fit.\<close>

definition u32_index :: "nat \<Rightarrow> panic + u32" where
  "u32_index value = (if value < 2 ^ 32 then Inr (of_nat value) else Inl IndexMustFitU32)"

lemma u32_index_Inr [simp]:
  "u32_index n = Inr w \<longleftrightarrow> n < 2 ^ 32 \<and> w = of_nat n"
  by (auto simp: u32_index_def)

lemma unat_of_nat_u32 [simp]: "n < 2 ^ 32 \<Longrightarrow> unat (of_nat n :: u32) = n"
  by (simp add: unat_of_nat)

lemma unat_of_nat_u16 [simp]: "n < 2 ^ 16 \<Longrightarrow> unat (of_nat n :: u16) = n"
  by (simp add: unat_of_nat)

section \<open>Lists\<close>

text \<open>\<open>find_position\<close> is \<open>iter().position(p)\<close>; \<open>remove_at\<close> is \<open>Vec::remove\<close> without its result.\<close>

fun find_position :: "('a \<Rightarrow> bool) \<Rightarrow> 'a list \<Rightarrow> nat option" where
  "find_position P [] = None"
| "find_position P (x # xs) = (if P x then Some 0 else map_option Suc (find_position P xs))"

definition remove_at :: "nat \<Rightarrow> 'a list \<Rightarrow> 'a list" where
  "remove_at i xs = take i xs @ drop (Suc i) xs"

lemma find_position_Some:
  "find_position P xs = Some i \<longleftrightarrow> i < length xs \<and> P (xs ! i) \<and> (\<forall>j<i. \<not> P (xs ! j))"
proof (induction xs arbitrary: i)
  case (Cons x xs)
  show ?case
  proof (cases i)
    case 0
    then show ?thesis by auto
  next
    case (Suc k)
    have "(\<forall>j<Suc k. \<not> P ((x # xs) ! j)) \<longleftrightarrow> \<not> P x \<and> (\<forall>j<k. \<not> P (xs ! j))"
      by (auto simp: less_Suc_eq_0_disj)
    with Suc Cons show ?thesis by auto
  qed
qed simp

lemma find_position_None: "find_position P xs = None \<longleftrightarrow> (\<forall>x\<in>set xs. \<not> P x)"
  by (induction xs) auto

lemma set_remove_at:
  assumes "i < length xs"
  shows "set xs = insert (xs ! i) (set (remove_at i xs))"
proof -
  have "xs = take i xs @ xs ! i # drop (Suc i) xs"
    using assms by (rule id_take_nth_drop)
  then have "set xs = set (take i xs @ xs ! i # drop (Suc i) xs)" by simp
  then show ?thesis by (auto simp: remove_at_def)
qed

lemma nth_remove_at:
  assumes "i < length xs" "j < i"
  shows "remove_at i xs ! j = xs ! j" "j < length (remove_at i xs)"
  using assms by (auto simp: remove_at_def nth_append)

text \<open>A worklist that marks an entry has fewer entries left to mark.\<close>

lemma filter_update_less:
  assumes "i < length xs" "P (xs ! i)" "\<not> P x"
  shows "length (filter P (xs[i := x])) < length (filter P xs)"
proof -
  have "xs = take i xs @ xs ! i # drop (Suc i) xs" using assms(1) by (rule id_take_nth_drop)
  then have "filter P xs = filter P (take i xs) @ xs ! i # filter P (drop (Suc i) xs)"
    using assms(2) by (metis filter.simps(2) filter_append)
  then show ?thesis using assms by (simp add: upd_conv_take_nth_drop)
qed

fun enumerate_from :: "nat \<Rightarrow> 'a list \<Rightarrow> (nat \<times> 'a) list" where
  "enumerate_from n [] = []"
| "enumerate_from n (x # xs) = (n, x) # enumerate_from (Suc n) xs"

lemma enumerate_from_zip: "enumerate_from n xs = zip [n..<n + length xs] xs"
proof (induction xs arbitrary: n)
  case (Cons x xs)
  have "[n..<n + length (x # xs)] = n # [Suc n..<Suc n + length xs]"
    by (simp add: upt_rec)
  with Cons show ?case by simp
qed simp

lemma length_enumerate_from [simp]: "length (enumerate_from n xs) = length xs"
  by (simp add: enumerate_from_zip)

lemma nth_enumerate_from [simp]:
  "i < length xs \<Longrightarrow> enumerate_from n xs ! i = (n + i, xs ! i)"
  by (simp add: enumerate_from_zip)

lemma set_enumerate_from:
  "set (enumerate_from n xs) = {(n + i, xs ! i) |i. i < length xs}"
  by (force simp: set_conv_nth)

end
