(* ===== verification/Whim_Operands.thy ===== *)
theory Whim_Operands
  imports Whim_Prelude
begin

text \<open>
  The operand encodings of \<^verbatim>\<open>crates/bytecode/src/instruction/operands.rs\<close>: the little-endian byte
  encoding of the integer operands, the comparison operators and the small mode enumerations.
  An operand type declared by \<^verbatim>\<open>integer_operand!\<close> is a word of its width; a signed operand is
  read with \<^term>\<open>sint\<close>.
\<close>

section \<open>Integer operands\<close>

type_synonym register = u16
type_synonym constant_index = u16
type_synonym descriptor_index = u16
type_synonym call_descriptor_index = u16
type_synonym switch_table_index = u16
type_synonym ic_slot = u16
type_synonym property_slot = u16
type_synonym preset_descriptor_index = u16
type_synonym prepared_int_loop_descriptor_index = u16
type_synonym int_step_loop_descriptor_index = u16
type_synonym float_squares_sum_branch_descriptor_index = u16
type_synonym float_pair_update_descriptor_index = u16
type_synonym property_initialization_descriptor_index = u16
type_synonym jump_offset = u32
type_synonym short_jump_offset = u16
type_synonym near_jump_offset = u8
type_synonym immediate_int = u16
type_synonym immediate_uint = u16
type_synonym immediate_integer = u16
type_synonym count = u8

text \<open>
  \<^verbatim>\<open>integer_operand!\<close> stores \<^verbatim>\<open>value.to_le_bytes()\<close> and reads it back with
  \<^verbatim>\<open>from_le_bytes\<close>. \<open>operand_new n\<close> is the encoding in \<open>n\<close> bytes, \<open>operand_value\<close> the accessor.
\<close>

fun operand_new :: "nat \<Rightarrow> 'a::len word \<Rightarrow> u8 list" where
  "operand_new 0 value = []"
| "operand_new (Suc n) value = ucast value # operand_new n (drop_bit 8 value)"

fun operand_value :: "u8 list \<Rightarrow> 'a::len word" where
  "operand_value [] = 0"
| "operand_value (b # bs) = ucast b + push_bit 8 (operand_value bs)"

text \<open>\<^verbatim>\<open>Register::NONE\<close> marks a missing operand.\<close>

definition register_NONE :: register where
  "register_NONE = 0xFFFF"

text \<open>\<^verbatim>\<open>ImmediateInteger\<close> holds the bits of a signed or an unsigned 16-bit immediate.\<close>

definition immediate_integer_signed :: "int \<Rightarrow> immediate_integer" where
  "immediate_integer_signed value = word_of_int value"

definition immediate_integer_unsigned :: "u16 \<Rightarrow> immediate_integer" where
  "immediate_integer_unsigned value = value"

definition as_int :: "immediate_integer \<Rightarrow> int" where
  "as_int immediate = sint immediate"

definition as_uint :: "immediate_integer \<Rightarrow> u16" where
  "as_uint immediate = immediate"

section \<open>Enumerations\<close>

datatype comparison =
    CmpEqual
  | CmpNotEqual
  | CmpLessThan
  | CmpLessThanOrEqual
  | CmpGreaterThan
  | CmpGreaterThanOrEqual

fun comparison_operator :: "comparison \<Rightarrow> string" where
  "comparison_operator CmpEqual = ''==''"
| "comparison_operator CmpNotEqual = ''!=''"
| "comparison_operator CmpLessThan = ''<''"
| "comparison_operator CmpLessThanOrEqual = ''<=''"
| "comparison_operator CmpGreaterThan = ''>''"
| "comparison_operator CmpGreaterThanOrEqual = ''>=''"

fun reversed :: "comparison \<Rightarrow> comparison" where
  "reversed CmpEqual = CmpEqual"
| "reversed CmpNotEqual = CmpNotEqual"
| "reversed CmpLessThan = CmpGreaterThan"
| "reversed CmpLessThanOrEqual = CmpGreaterThanOrEqual"
| "reversed CmpGreaterThan = CmpLessThan"
| "reversed CmpGreaterThanOrEqual = CmpLessThanOrEqual"

fun negated :: "comparison \<Rightarrow> comparison" where
  "negated CmpEqual = CmpNotEqual"
| "negated CmpNotEqual = CmpEqual"
| "negated CmpLessThan = CmpGreaterThanOrEqual"
| "negated CmpLessThanOrEqual = CmpGreaterThan"
| "negated CmpGreaterThan = CmpLessThanOrEqual"
| "negated CmpGreaterThanOrEqual = CmpLessThan"

datatype index_add_mode =
    GenericAdd
  | DictAnyKeyIntValue
  | DictStringKeyIntValue

datatype index_update_operation =
    AddUpdate | SubtractUpdate | MultiplyUpdate | DivideUpdate | ModuloUpdate | PowerUpdate
  | BitwiseAndUpdate | BitwiseOrUpdate | BitwiseXorUpdate | ShiftLeftUpdate | ShiftRightUpdate

fun index_update_symbol :: "index_update_operation \<Rightarrow> string" where
  "index_update_symbol AddUpdate = ''+''"
| "index_update_symbol SubtractUpdate = ''-''"
| "index_update_symbol MultiplyUpdate = ''*''"
| "index_update_symbol DivideUpdate = ''/''"
| "index_update_symbol ModuloUpdate = ''%''"
| "index_update_symbol PowerUpdate = ''**''"
| "index_update_symbol BitwiseAndUpdate = ''&''"
| "index_update_symbol BitwiseOrUpdate = ''|''"
| "index_update_symbol BitwiseXorUpdate = ''^''"
| "index_update_symbol ShiftLeftUpdate = ''<<''"
| "index_update_symbol ShiftRightUpdate = ''>>''"

datatype array_kind = VecKind | DictKind | TupleKind

fun array_kind_name :: "array_kind \<Rightarrow> string" where
  "array_kind_name VecKind = ''vec''"
| "array_kind_name DictKind = ''dict''"
| "array_kind_name TupleKind = ''tuple''"

text \<open>The count is widened to 16 bits before the doubling, so the product cannot wrap.\<close>

definition array_register_count :: "array_kind \<Rightarrow> count \<Rightarrow> u16" where
  "array_register_count kind c = ucast c * (if kind = DictKind then 2 else 1)"

datatype as_mode = Boundary | Cast

datatype integer_kind = I64 | U64

fun integer_kind_name :: "integer_kind \<Rightarrow> string" where
  "integer_kind_name I64 = ''i64''"
| "integer_kind_name U64 = ''u64''"

datatype array_value_mode = GenericValue | IntValue | UintValue | FloatValue

datatype property_read_mode = CloneRead | TakeRead

datatype property_index_update_mode = IncrementIndex | RemoveIndex | AppendIndex

datatype property_step_mode = IncrementStep | AddStep

datatype property_remove_mode = KeyRemove | FirstRemove | LastRemove | SwapRemoveMode

definition uses_operand :: "property_remove_mode \<Rightarrow> bool" where
  "uses_operand mode \<longleftrightarrow> mode = KeyRemove \<or> mode = SwapRemoveMode"

datatype property_value_mode =
    CloneValue | MoveValue | MoveAndClear | FreshClone | FreshMove | FreshMoveAndClear

definition moves :: "property_value_mode \<Rightarrow> bool" where
  "moves mode \<longleftrightarrow> mode \<in> {MoveValue, MoveAndClear, FreshMove, FreshMoveAndClear}"

definition clears_reference_mask :: "property_value_mode \<Rightarrow> bool" where
  "clears_reference_mask mode \<longleftrightarrow> mode \<in> {MoveAndClear, FreshMoveAndClear}"

definition fresh_receiver :: "property_value_mode \<Rightarrow> bool" where
  "fresh_receiver mode \<longleftrightarrow> mode \<in> {FreshClone, FreshMove, FreshMoveAndClear}"

section \<open>What the comparison operators mean\<close>

text \<open>The meaning of an operator on a linearly ordered type, such as the integers of one kind.\<close>

fun compare_values :: "comparison \<Rightarrow> 'a::linorder \<Rightarrow> 'a \<Rightarrow> bool" where
  "compare_values CmpEqual a b \<longleftrightarrow> a = b"
| "compare_values CmpNotEqual a b \<longleftrightarrow> a \<noteq> b"
| "compare_values CmpLessThan a b \<longleftrightarrow> a < b"
| "compare_values CmpLessThanOrEqual a b \<longleftrightarrow> a \<le> b"
| "compare_values CmpGreaterThan a b \<longleftrightarrow> b < a"
| "compare_values CmpGreaterThanOrEqual a b \<longleftrightarrow> b \<le> a"

lemma compare_reversed: "compare_values (reversed c) a b = compare_values c b a"
  by (cases c) auto

lemma compare_negated: "compare_values (negated c) a b \<longleftrightarrow> \<not> compare_values c a b"
  by (cases c) auto

lemma reversed_reversed: "reversed (reversed c) = c"
  by (cases c) auto

lemma negated_negated: "negated (negated c) = c"
  by (cases c) auto

lemma clears_reference_mask_moves: "clears_reference_mask m \<Longrightarrow> moves m"
  by (auto simp: clears_reference_mask_def moves_def)

section \<open>Encoding round trips\<close>

lemma length_operand_new [simp]: "length (operand_new n w) = n"
  by (induction n arbitrary: w) auto

lemma operand_value_new_take:
  "operand_value (operand_new n (w :: 'a::len word)) = take_bit (8 * n) w"
proof (induction n arbitrary: w)
  case 0
  then show ?case by simp
next
  case (Suc n)
  have "(ucast (ucast w :: u8) :: 'a word) = take_bit 8 w"
    by (rule bit_word_eqI) (auto simp: bit_simps)
  moreover have "take_bit 8 w + push_bit 8 (take_bit (8 * n) (drop_bit 8 w))
      = or (take_bit 8 w) (push_bit 8 (take_bit (8 * n) (drop_bit 8 w)))"
    by (rule disjunctive_add) (auto simp: bit_simps)
  moreover have "or (take_bit 8 w) (push_bit 8 (take_bit (8 * n) (drop_bit 8 w)))
      = take_bit (8 * Suc n) w"
    by (rule bit_word_eqI) (auto simp: bit_simps)
  ultimately show ?case using Suc by simp
qed

lemma operand_round_trip:
  assumes "LENGTH('a::len) \<le> 8 * n"
  shows "operand_value (operand_new n (w :: 'a word)) = w"
  using assms by (simp add: operand_value_new_take take_bit_word_eq_self)

lemma immediate_integer_round_trip:
  "- (2 ^ 15) \<le> v \<Longrightarrow> v < 2 ^ 15 \<Longrightarrow> as_int (immediate_integer_signed v) = v"
  by (simp add: as_int_def immediate_integer_signed_def signed_of_int
      signed_take_bit_int_eq_self)

lemma array_register_count_value:
  "unat (array_register_count kind c) = unat c * (if kind = DictKind then 2 else 1)"
proof -
  have "unat c < 256"
    using unsigned_less [of c] by simp
  then show ?thesis
    by (simp add: array_register_count_def unat_word_ariths unsigned_ucast_eq take_bit_nat_eq_self)
qed

section \<open>Properties\<close>

text \<open>An integer operand reads back what was stored: the little-endian bytes of a word, as many
  as its width, decode to the same word.\<close>

theorem operand_encoding_round_trip:
  assumes "LENGTH('a::len) = 8 * n"
  shows "length (operand_new n (w :: 'a word)) = n \<and> operand_value (operand_new n w) = w"
  using assms by (simp add: operand_round_trip)

theorem operand_encoding_round_trip_witness:
  "length (operand_new 2 (0x1234 :: u16)) = 2 \<and>
   operand_value (operand_new 2 (0x1234 :: u16)) = (0x1234 :: u16)"
  by (rule operand_encoding_round_trip) simp

text \<open>Rewriting a comparison by swapping its operands or by branching on its negation preserves
  it, and both rewrites undo themselves.\<close>

theorem comparison_rewrites:
  "compare_values (reversed cmp) a b = compare_values cmp b a \<and>
   (compare_values (negated cmp) a b \<longleftrightarrow> \<not> compare_values cmp a b) \<and>
   reversed (reversed cmp) = cmp \<and> negated (negated cmp) = cmp"
  by (simp add: compare_reversed compare_negated reversed_reversed negated_negated)

end
