(* ===== verification/Whim_Instruction.thy ===== *)
theory Whim_Instruction
  imports Whim_Operands
begin

text \<open>
  The instruction set of \<^verbatim>\<open>crates/bytecode/src/instruction/mod.rs\<close>. The source declares its 213
  instructions in one table (\<^verbatim>\<open>instruction_set!\<close>); here the table is split, in its own order, into
  fourteen families, one \<^theory_text>\<open>datatype\<close> each, and \<open>instruction\<close> is their sum. The fields of
  an instruction keep the order of the table, which is also the order in which
  \<^verbatim>\<open>try_visit_operands\<close> visits them. \<open>NotOp\<close> is the instruction \<^verbatim>\<open>Not\<close>.
\<close>

section \<open>The instruction table\<close>

text \<open>Loads and moves.\<close>

datatype (plugins only: code size) load_instruction =
    Move register register \<comment> \<open>destination, source\<close>
  | MoveOwned register register \<comment> \<open>destination, source\<close>
  | Clear register \<comment> \<open>target\<close>
  | LoadConstant register constant_index \<comment> \<open>destination, constant\<close>
  | LoadNull register \<comment> \<open>destination\<close>
  | LoadTrue register \<comment> \<open>destination\<close>
  | LoadFalse register \<comment> \<open>destination\<close>
  | LoadInteger register immediate_integer integer_kind \<comment> \<open>destination, immediate, kind\<close>
  | ConstantGet register ic_slot \<comment> \<open>destination, cache\<close>
  | ClassConstantGet register ic_slot \<comment> \<open>destination, cache\<close>

text \<open>Arithmetic.\<close>

datatype (plugins only: code size) arithmetic_instruction =
    Add register register register "integer_kind option" \<comment> \<open>destination, left, right, kind\<close>
  | AddImmediate register register immediate_integer "integer_kind option" \<comment> \<open>destination, source, immediate, kind\<close>
  | IntegerAddAssign register register integer_kind \<comment> \<open>target, source, kind\<close>
  | Subtract register register register "integer_kind option" \<comment> \<open>destination, left, right, kind\<close>
  | SubtractImmediate register register immediate_integer "integer_kind option" \<comment> \<open>destination, source, immediate, kind\<close>
  | Multiply register register register "integer_kind option" \<comment> \<open>destination, left, right, kind\<close>
  | IntegerMultiplyImmediate register register immediate_integer integer_kind \<comment> \<open>destination, source, immediate, kind\<close>
  | Divide register register register \<comment> \<open>destination, left, right\<close>
  | Modulo register register register "integer_kind option" \<comment> \<open>destination, left, right, kind\<close>
  | IntegerModuloImmediate register register immediate_integer integer_kind \<comment> \<open>destination, source, immediate, kind\<close>
  | Power register register register \<comment> \<open>destination, left, right\<close>
  | Negate register register \<comment> \<open>destination, source\<close>
  | UnaryPlus register register \<comment> \<open>destination, source\<close>
  | Step register register immediate_int "integer_kind option" \<comment> \<open>destination, source, immediate, kind\<close>
  | BitwiseAnd register register register "integer_kind option" \<comment> \<open>destination, left, right, kind\<close>
  | BitwiseOr register register register "integer_kind option" \<comment> \<open>destination, left, right, kind\<close>
  | BitwiseXor register register register "integer_kind option" \<comment> \<open>destination, left, right, kind\<close>
  | BitwiseNot register register "integer_kind option" \<comment> \<open>destination, source, kind\<close>
  | ShiftLeft register register register "integer_kind option" \<comment> \<open>destination, left, right, kind\<close>
  | ShiftRight register register register "integer_kind option" \<comment> \<open>destination, left, right, kind\<close>

text \<open>Float and fused float operations.\<close>

datatype (plugins only: code size) float_instruction =
    FloatAdd register register register \<comment> \<open>destination, left, right\<close>
  | FloatSubtract register register register \<comment> \<open>destination, left, right\<close>
  | FloatMultiply register register register \<comment> \<open>destination, left, right\<close>
  | FloatMultiplyConstant register register constant_index \<comment> \<open>destination, source, constant\<close>
  | Squares register register register \<comment> \<open>first_destination, first_source, second_source\<close>
  | FloatSquares register register register \<comment> \<open>first_destination, first_source, second_source\<close>
  | FloatSquaresSum register register register \<comment> \<open>first_destination, first_source, second_source\<close>
  | FloatSquaresSumBranch float_squares_sum_branch_descriptor_index jump_offset \<comment> \<open>descriptor, offset\<close>
  | FloatDifferenceAdd register register register \<comment> \<open>destination, first_operand, addend\<close>
  | FloatScaleProductAdd register register constant_index \<comment> \<open>destination, first_operand, constant\<close>
  | FloatPairUpdate float_pair_update_descriptor_index \<comment> \<open>descriptor\<close>

text \<open>Comparison and concatenation.\<close>

datatype (plugins only: code size) compare_instruction =
    Equal register register register \<comment> \<open>destination, left, right\<close>
  | NotEqual register register register \<comment> \<open>destination, left, right\<close>
  | LessThan register register register \<comment> \<open>destination, left, right\<close>
  | LessThanOrEqual register register register \<comment> \<open>destination, left, right\<close>
  | GreaterThan register register register \<comment> \<open>destination, left, right\<close>
  | GreaterThanOrEqual register register register \<comment> \<open>destination, left, right\<close>
  | Compare register register register \<comment> \<open>destination, left, right\<close>
  | NotOp register register \<comment> \<open>destination, source\<close>
  | Concatenate register register register \<comment> \<open>destination, left, right\<close>
  | ConcatenateLeftConstant register register constant_index \<comment> \<open>destination, source, constant\<close>
  | ConcatenateRightConstant register register constant_index \<comment> \<open>destination, source, constant\<close>

text \<open>Strings.\<close>

datatype (plugins only: code size) string_instruction =
    StringLength register register \<comment> \<open>destination, source\<close>
  | StringIndexGet register register register \<comment> \<open>destination, container, index\<close>
  | StringIndexGetOrNull register register register \<comment> \<open>destination, container, index\<close>
  | StringIndexCoalesce register register register near_jump_offset \<comment> \<open>destination, container, index, offset\<close>
  | StringByteEqual register register register u8 \<comment> \<open>destination, container, index, byte\<close>
  | StringByteNotEqual register register register u8 \<comment> \<open>destination, container, index, byte\<close>
  | StringByteLessThan register register register u8 \<comment> \<open>destination, container, index, byte\<close>
  | StringByteLessThanOrEqual register register register u8 \<comment> \<open>destination, container, index, byte\<close>
  | StringByteGreaterThan register register register u8 \<comment> \<open>destination, container, index, byte\<close>
  | StringByteGreaterThanOrEqual register register register u8 \<comment> \<open>destination, container, index, byte\<close>
  | StringByteJumpUnlessEqual register register u8 short_jump_offset \<comment> \<open>container, index, byte, offset\<close>
  | StringByteJumpUnlessNotEqual register register u8 short_jump_offset \<comment> \<open>container, index, byte, offset\<close>

text \<open>Branches.\<close>

datatype (plugins only: code size) jump_instruction =
    Jump jump_offset \<comment> \<open>offset\<close>
  | JumpIfFalse register jump_offset \<comment> \<open>condition, offset\<close>
  | JumpIfTrue register jump_offset \<comment> \<open>condition, offset\<close>
  | JumpIfNull register jump_offset \<comment> \<open>subject, offset\<close>
  | JumpIfNotNull register jump_offset \<comment> \<open>subject, offset\<close>
  | JumpUnless comparison register register short_jump_offset \<comment> \<open>comparison, left, right, offset\<close>
  | IntJumpUnless comparison register register short_jump_offset \<comment> \<open>comparison, left, right, offset\<close>
  | UintJumpUnless comparison register register short_jump_offset \<comment> \<open>comparison, left, right, offset\<close>
  | StringJumpUnless comparison register register short_jump_offset \<comment> \<open>comparison, left, right, offset\<close>
  | JumpUnlessConstant comparison register constant_index short_jump_offset \<comment> \<open>comparison, source, constant, offset\<close>
  | IntJumpUnlessImmediate comparison register immediate_int short_jump_offset \<comment> \<open>comparison, source, immediate, offset\<close>
  | UintJumpUnlessImmediate comparison register immediate_uint short_jump_offset \<comment> \<open>comparison, source, immediate, offset\<close>
  | Coalesce register register short_jump_offset \<comment> \<open>destination, source, offset\<close>
  | FillDefault register jump_offset \<comment> \<open>target, offset\<close>

text \<open>Switches and pattern branches.\<close>

datatype (plugins only: code size) switch_instruction =
    SwitchBool register switch_table_index \<comment> \<open>subject, table\<close>
  | SwitchInt register switch_table_index \<comment> \<open>subject, table\<close>
  | SwitchFloat register switch_table_index \<comment> \<open>subject, table\<close>
  | SwitchString register switch_table_index \<comment> \<open>subject, table\<close>
  | SwitchPattern register switch_table_index \<comment> \<open>subject, table\<close>
  | SwitchTuplePattern register count switch_table_index \<comment> \<open>first_element, element_count, table\<close>
  | BoolPatternBranch register short_jump_offset short_jump_offset \<comment> \<open>subject, false_offset, default_offset\<close>
  | IntegerRangeJumpIf register descriptor_index short_jump_offset integer_kind \<comment> \<open>subject, descriptor, offset, kind\<close>
  | IntegerRangeJumpUnless register descriptor_index short_jump_offset integer_kind \<comment> \<open>subject, descriptor, offset, kind\<close>

text \<open>Loops.\<close>

datatype (plugins only: code size) loop_instruction =
    IncrementJump register immediate_int short_jump_offset \<comment> \<open>target, immediate, offset\<close>
  | CounterLoop comparison register register short_jump_offset \<comment> \<open>comparison, counter, limit, offset\<close>
  | IntCounterLoop comparison register register short_jump_offset \<comment> \<open>comparison, counter, limit, offset\<close>
  | UintCounterLoop comparison register register short_jump_offset \<comment> \<open>comparison, counter, limit, offset\<close>
  | NumericLoop comparison register register short_jump_offset \<comment> \<open>comparison, left, right, offset\<close>
  | IntNumericLoop comparison register register short_jump_offset \<comment> \<open>comparison, left, right, offset\<close>
  | PreparedIntNumericLoop prepared_int_loop_descriptor_index short_jump_offset \<comment> \<open>descriptor, offset\<close>
  | IntStepLoop int_step_loop_descriptor_index short_jump_offset \<comment> \<open>descriptor, offset\<close>
  | NumericRegionJump jump_offset \<comment> \<open>offset\<close>

text \<open>Array construction and reads.\<close>

datatype (plugins only: code size) array_instruction =
    NewArray count register register array_kind \<comment> \<open>count, destination, first_element, kind\<close>
  | NewFilledVec register register register \<comment> \<open>destination, value, size\<close>
  | ReserveArray register register \<comment> \<open>container, additional\<close>
  | Length register register \<comment> \<open>destination, source\<close>
  | ElementGet register register immediate_int \<comment> \<open>destination, subject, index\<close>
  | IndexGet register register register \<comment> \<open>destination, container, index\<close>
  | IndexGetPath count register register register \<comment> \<open>index_count, destination, container, first_index\<close>
  | VecIndexGet register register register array_value_mode \<comment> \<open>destination, container, index, value_mode\<close>
  | DictIndexGetIntKey register register register array_value_mode \<comment> \<open>destination, container, index, value_mode\<close>
  | DictIndexGetUintKey register register register array_value_mode \<comment> \<open>destination, container, index, value_mode\<close>
  | DictIndexGetStringKey register register register array_value_mode \<comment> \<open>destination, container, index, value_mode\<close>
  | IndexGetOrNull register register register \<comment> \<open>destination, container, index\<close>
  | VecIndexGetOrNull register register register \<comment> \<open>destination, container, index\<close>
  | DictIndexGetIntegerKeyOrNull register register register integer_kind \<comment> \<open>destination, container, index, kind\<close>
  | DictIndexGetStringKeyOrNull register register register \<comment> \<open>destination, container, index\<close>
  | IndexCoalesce register register register near_jump_offset \<comment> \<open>destination, container, index, offset\<close>
  | VecIndexCoalesce register register register near_jump_offset \<comment> \<open>destination, container, index, offset\<close>
  | DictIndexCoalesceIntKey register register register near_jump_offset \<comment> \<open>destination, container, index, offset\<close>
  | DictIndexCoalesceUintKey register register register near_jump_offset \<comment> \<open>destination, container, index, offset\<close>
  | DictIndexCoalesceStringKey register register register near_jump_offset \<comment> \<open>destination, container, index, offset\<close>

text \<open>Array updates and iteration.\<close>

datatype (plugins only: code size) update_instruction =
    IndexSet register register register \<comment> \<open>container, index, value\<close>
  | IndexSetPath count register register register \<comment> \<open>index_count, container, first_index, value\<close>
  | IndexUpdatePath count index_update_operation register register \<comment> \<open>index_count, operation, container, operand\<close>
  | VecIndexSet register register register \<comment> \<open>container, index, value\<close>
  | DictIndexSet register register register \<comment> \<open>container, index, value\<close>
  | DictIndexSetIntegerKey register register register integer_kind \<comment> \<open>container, index, value, kind\<close>
  | DictIndexSetStringKey register register register \<comment> \<open>container, index, value\<close>
  | IndexAddAssign register register register index_add_mode \<comment> \<open>container, index, value, mode\<close>
  | Append register register \<comment> \<open>container, value\<close>
  | VecAppend register register \<comment> \<open>container, value\<close>
  | Spread register register \<comment> \<open>container, value\<close>
  | Rest register register immediate_int \<comment> \<open>destination, subject, from\<close>
  | Contains register register register \<comment> \<open>destination, array, value\<close>
  | ContainsKey register register register \<comment> \<open>destination, array, key\<close>
  | Remove register register register \<comment> \<open>destination, container, key\<close>
  | RemoveFirst register register \<comment> \<open>destination, container\<close>
  | RemoveLast register register \<comment> \<open>destination, container\<close>
  | SwapRemove register register register \<comment> \<open>destination, container, index\<close>
  | CheckDestructure register immediate_int immediate_int bool \<comment> \<open>subject, required, arity, rest\<close>
  | ForeachInit register register register \<comment> \<open>iterator, subject, reserve\<close>
  | ForeachNext register register register \<comment> \<open>iterator, key_destination, value_destination\<close>
  | VecForeachNext register register register array_value_mode \<comment> \<open>iterator, key_destination, value_destination, value_mode\<close>
  | DictForeachNext register register register array_value_mode \<comment> \<open>iterator, key_destination, value_destination, value_mode\<close>

text \<open>Objects and properties.\<close>

datatype (plugins only: code size) object_instruction =
    NewStatic register ic_slot \<comment> \<open>destination, cache\<close>
  | NewDynamic register register \<comment> \<open>destination, class_name\<close>
  | NewTyped register descriptor_index \<comment> \<open>destination, descriptor\<close>
  | CloneObject register register \<comment> \<open>destination, source\<close>
  | InitializeProperties register ic_slot property_initialization_descriptor_index \<comment> \<open>object, cache, descriptor\<close>
  | PropertyGet register register ic_slot \<comment> \<open>destination, object, cache\<close>
  | PropertyGetUnchecked register register property_slot property_read_mode \<comment> \<open>destination, object, slot, value_mode\<close>
  | PropertyGetOrNull register register ic_slot \<comment> \<open>destination, object, cache\<close>
  | PropertyGetOrNullUnchecked register register property_slot \<comment> \<open>destination, object, slot\<close>
  | PropertyCoalesce register register ic_slot near_jump_offset \<comment> \<open>destination, object, cache, offset\<close>
  | PropertyCoalesceUnchecked register register property_slot near_jump_offset \<comment> \<open>destination, object, slot, offset\<close>
  | PropertySet register register ic_slot \<comment> \<open>object, value, cache\<close>
  | PropertySetUnchecked register register property_slot property_value_mode \<comment> \<open>object, value, slot, value_mode\<close>
  | PropertyInitRaw register register ic_slot \<comment> \<open>object, value, cache\<close>
  | PropertyIndexSet register register ic_slot \<comment> \<open>object, first_operand, cache\<close>
  | PropertyIndexSetUnchecked register register property_slot \<comment> \<open>object, first_operand, slot\<close>
  | PropertyIndexUpdate register register ic_slot property_index_update_mode \<comment> \<open>object, operand, cache, mode\<close>
  | PropertyIndexUpdateUnchecked register register property_slot property_index_update_mode \<comment> \<open>object, operand, slot, mode\<close>
  | PropertyStep register ic_slot immediate_int property_step_mode \<comment> \<open>object, cache, immediate, mode\<close>
  | PropertyStepUnchecked register property_slot immediate_int property_step_mode \<comment> \<open>object, slot, immediate, mode\<close>
  | PropertyAdd register register ic_slot \<comment> \<open>object, source, cache\<close>
  | PropertyAddUnchecked register register property_slot \<comment> \<open>object, source, slot\<close>
  | PropertyFillIntRange register register ic_slot \<comment> \<open>object, first_operand, cache\<close>
  | PropertyRemove register register ic_slot property_remove_mode \<comment> \<open>object, destination, cache, mode\<close>
  | PropertyRemoveUnchecked register register property_slot property_remove_mode \<comment> \<open>object, destination, slot, mode\<close>
  | StaticPropertyGet register ic_slot \<comment> \<open>destination, cache\<close>
  | StaticPropertyGetOrNull register ic_slot \<comment> \<open>destination, cache\<close>
  | StaticPropertyCoalesce register ic_slot short_jump_offset \<comment> \<open>destination, cache, offset\<close>
  | StaticPropertySet ic_slot register \<comment> \<open>cache, value\<close>

text \<open>Closures and calls.\<close>

datatype (plugins only: code size) call_instruction =
    MakeClosure count register constant_index register \<comment> \<open>capture_count, destination, prototype, first_capture\<close>
  | MakeBound register register preset_descriptor_index \<comment> \<open>destination, callee, descriptor\<close>
  | CallValue count register register register \<comment> \<open>argument_count, destination, callee, first_argument\<close>
  | CallValueUnchecked count register register register \<comment> \<open>argument_count, destination, callee, first_argument\<close>
  | CallValueDiscarded count register register register \<comment> \<open>argument_count, destination, callee, first_argument\<close>
  | CallNamed count register register ic_slot \<comment> \<open>argument_count, destination, first_argument, cache\<close>
  | CallNamedUnchecked count register register ic_slot \<comment> \<open>argument_count, destination, first_argument, cache\<close>
  | CallNamedDirect count register register ic_slot \<comment> \<open>argument_count, destination, first_argument, cache\<close>
  | CallNamedConstantUnchecked register constant_index ic_slot bool \<comment> \<open>destination, constant, cache, borrowed\<close>
  | CallNamedDiscarded count register register ic_slot \<comment> \<open>argument_count, destination, first_argument, cache\<close>
  | CallMethod count register register ic_slot \<comment> \<open>argument_count, destination, first_argument, cache\<close>
  | CallMethodUnchecked count register register ic_slot \<comment> \<open>argument_count, destination, first_argument, cache\<close>
  | CallMethodDirect count register register ic_slot \<comment> \<open>argument_count, destination, first_argument, cache\<close>
  | CallMethodDiscarded count register register ic_slot \<comment> \<open>argument_count, destination, first_argument, cache\<close>
  | CallStatic count register register ic_slot \<comment> \<open>argument_count, destination, first_argument, cache\<close>
  | CallStaticDiscarded count register register ic_slot \<comment> \<open>argument_count, destination, first_argument, cache\<close>
  | CallSelfUnchecked count register register \<comment> \<open>argument_count, destination, first_argument\<close>
  | CallWithNames register register call_descriptor_index \<comment> \<open>destination, callee, descriptor\<close>
  | CallWithNamesDiscarded register register call_descriptor_index \<comment> \<open>destination, callee, descriptor\<close>
  | CheckDiscardedResult register \<comment> \<open>source\<close>

text \<open>Returns.\<close>

datatype (plugins only: code size) return_instruction =
    Return register \<comment> \<open>source\<close>
  | ReturnUnchecked register \<comment> \<open>source\<close>
  | ReturnReferenceUnchecked register \<comment> \<open>source\<close>
  | ReturnScalarUnchecked register \<comment> \<open>source\<close>
  | ReturnIntegerUnchecked immediate_integer integer_kind \<comment> \<open>immediate, kind\<close>
  | ReturnPairUnchecked register register \<comment> \<open>first, second\<close>
  | ReturnNull
  | ReturnNullUnchecked

text \<open>Type checks, errors and the rest.\<close>

datatype (plugins only: code size) check_instruction =
    Is register register descriptor_index \<comment> \<open>destination, source, descriptor\<close>
  | AsCheck register register descriptor_index as_mode \<comment> \<open>destination, source, descriptor, mode\<close>
  | AsOrNull register register descriptor_index \<comment> \<open>destination, source, descriptor\<close>
  | CheckDefined register constant_index \<comment> \<open>subject, name\<close>
  | CheckSoleReference register constant_index bool \<comment> \<open>source, message, chain_previous\<close>
  | CheckWhereConstraints
  | Throw register \<comment> \<open>source\<close>
  | Rethrow
  | ThrowUnhandledMatch register \<comment> \<open>subject\<close>
  | Panic register \<comment> \<open>message\<close>
  | Assert count register register constant_index \<comment> \<open>operand_count, first_value, message, text\<close>
  | Exit register \<comment> \<open>code\<close>
  | Write count register bool bool \<comment> \<open>count, register, new_line, stderr\<close>
  | Debug count register \<comment> \<open>value_count, first_value\<close>
  | Require bool register register \<comment> \<open>once, destination, path\<close>
  | DrainFinalizers
  | Fresh register \<comment> \<open>destination\<close>

text \<open>The instruction enumeration.\<close>

datatype (plugins only: code size) instruction =
    Load load_instruction
  | Arithmetic arithmetic_instruction
  | FloatOp float_instruction
  | CompareOp compare_instruction
  | StringOp string_instruction
  | Branch jump_instruction
  | Switch switch_instruction
  | LoopOp loop_instruction
  | ArrayOp array_instruction
  | ArrayUpdate update_instruction
  | ObjectOp object_instruction
  | CallOp call_instruction
  | ReturnOp return_instruction
  | CheckOp check_instruction

section \<open>Operands that refer outside the instruction\<close>

datatype instruction_operand =
    RegisterOperand register
  | OptionalRegisterOperand register
  | ConstantOperand constant_index
  | FloatConstantOperand constant_index
  | CacheOperand ic_slot
  | JumpOperand jump_offset
  | RelativeTargetOperand short_jump_offset
  | SwitchTableOperand switch_table_index
  | TypeDescriptorOperand descriptor_index
  | CallDescriptorOperand call_descriptor_index
  | PresetDescriptorOperand preset_descriptor_index
  | FloatPairUpdateDescriptorOperand float_pair_update_descriptor_index
  | FloatSquaresSumBranchDescriptorOperand float_squares_sum_branch_descriptor_index
  | IntStepLoopDescriptorOperand int_step_loop_descriptor_index
  | PreparedIntLoopDescriptorOperand prepared_int_loop_descriptor_index
  | PropertyInitializationDescriptorOperand property_initialization_descriptor_index

text \<open>
  The operands \<^verbatim>\<open>visit_instruction_operand!\<close> visits, in visiting order. The first register of a
  window is not visited; an 8-bit jump offset is visited as the 32-bit offset of the same value.
\<close>

primrec load_operands :: "load_instruction \<Rightarrow> instruction_operand list" where
  "load_operands (Move destination source) =
     [RegisterOperand destination, RegisterOperand source]"
| "load_operands (MoveOwned destination source) =
     [RegisterOperand destination, RegisterOperand source]"
| "load_operands (Clear target) = [RegisterOperand target]"
| "load_operands (LoadConstant destination constant) =
     [RegisterOperand destination, ConstantOperand constant]"
| "load_operands (LoadNull destination) = [RegisterOperand destination]"
| "load_operands (LoadTrue destination) = [RegisterOperand destination]"
| "load_operands (LoadFalse destination) = [RegisterOperand destination]"
| "load_operands (LoadInteger destination immediate kind) = [RegisterOperand destination]"
| "load_operands (ConstantGet destination cache) =
     [RegisterOperand destination, CacheOperand cache]"
| "load_operands (ClassConstantGet destination cache) =
     [RegisterOperand destination, CacheOperand cache]"

primrec arithmetic_operands :: "arithmetic_instruction \<Rightarrow> instruction_operand list" where
  "arithmetic_operands (Add destination left right kind) =
     [RegisterOperand destination, RegisterOperand left, RegisterOperand right]"
| "arithmetic_operands (AddImmediate destination source immediate kind) =
     [RegisterOperand destination, RegisterOperand source]"
| "arithmetic_operands (IntegerAddAssign target source kind) =
     [RegisterOperand target, RegisterOperand source]"
| "arithmetic_operands (Subtract destination left right kind) =
     [RegisterOperand destination, RegisterOperand left, RegisterOperand right]"
| "arithmetic_operands (SubtractImmediate destination source immediate kind) =
     [RegisterOperand destination, RegisterOperand source]"
| "arithmetic_operands (Multiply destination left right kind) =
     [RegisterOperand destination, RegisterOperand left, RegisterOperand right]"
| "arithmetic_operands (IntegerMultiplyImmediate destination source immediate kind) =
     [RegisterOperand destination, RegisterOperand source]"
| "arithmetic_operands (Divide destination left right) =
     [RegisterOperand destination, RegisterOperand left, RegisterOperand right]"
| "arithmetic_operands (Modulo destination left right kind) =
     [RegisterOperand destination, RegisterOperand left, RegisterOperand right]"
| "arithmetic_operands (IntegerModuloImmediate destination source immediate kind) =
     [RegisterOperand destination, RegisterOperand source]"
| "arithmetic_operands (Power destination left right) =
     [RegisterOperand destination, RegisterOperand left, RegisterOperand right]"
| "arithmetic_operands (Negate destination source) =
     [RegisterOperand destination, RegisterOperand source]"
| "arithmetic_operands (UnaryPlus destination source) =
     [RegisterOperand destination, RegisterOperand source]"
| "arithmetic_operands (Step destination source immediate kind) =
     [RegisterOperand destination, RegisterOperand source]"
| "arithmetic_operands (BitwiseAnd destination left right kind) =
     [RegisterOperand destination, RegisterOperand left, RegisterOperand right]"
| "arithmetic_operands (BitwiseOr destination left right kind) =
     [RegisterOperand destination, RegisterOperand left, RegisterOperand right]"
| "arithmetic_operands (BitwiseXor destination left right kind) =
     [RegisterOperand destination, RegisterOperand left, RegisterOperand right]"
| "arithmetic_operands (BitwiseNot destination source kind) =
     [RegisterOperand destination, RegisterOperand source]"
| "arithmetic_operands (ShiftLeft destination left right kind) =
     [RegisterOperand destination, RegisterOperand left, RegisterOperand right]"
| "arithmetic_operands (ShiftRight destination left right kind) =
     [RegisterOperand destination, RegisterOperand left, RegisterOperand right]"

primrec float_operands :: "float_instruction \<Rightarrow> instruction_operand list" where
  "float_operands (FloatAdd destination left right) =
     [RegisterOperand destination, RegisterOperand left, RegisterOperand right]"
| "float_operands (FloatSubtract destination left right) =
     [RegisterOperand destination, RegisterOperand left, RegisterOperand right]"
| "float_operands (FloatMultiply destination left right) =
     [RegisterOperand destination, RegisterOperand left, RegisterOperand right]"
| "float_operands (FloatMultiplyConstant destination source constant) =
     [RegisterOperand destination, RegisterOperand source, FloatConstantOperand constant]"
| "float_operands (Squares first_destination first_source second_source) =
     [RegisterOperand first_source, RegisterOperand second_source]"
| "float_operands (FloatSquares first_destination first_source second_source) =
     [RegisterOperand first_source, RegisterOperand second_source]"
| "float_operands (FloatSquaresSum first_destination first_source second_source) =
     [RegisterOperand first_source, RegisterOperand second_source]"
| "float_operands (FloatSquaresSumBranch descriptor offset) =
     [FloatSquaresSumBranchDescriptorOperand descriptor, JumpOperand offset]"
| "float_operands (FloatDifferenceAdd destination first_operand addend) =
     [RegisterOperand destination, RegisterOperand addend]"
| "float_operands (FloatScaleProductAdd destination first_operand constant) =
     [RegisterOperand destination, FloatConstantOperand constant]"
| "float_operands (FloatPairUpdate descriptor) = [FloatPairUpdateDescriptorOperand descriptor]"

primrec compare_operands :: "compare_instruction \<Rightarrow> instruction_operand list" where
  "compare_operands (Equal destination left right) =
     [RegisterOperand destination, RegisterOperand left, RegisterOperand right]"
| "compare_operands (NotEqual destination left right) =
     [RegisterOperand destination, RegisterOperand left, RegisterOperand right]"
| "compare_operands (LessThan destination left right) =
     [RegisterOperand destination, RegisterOperand left, RegisterOperand right]"
| "compare_operands (LessThanOrEqual destination left right) =
     [RegisterOperand destination, RegisterOperand left, RegisterOperand right]"
| "compare_operands (GreaterThan destination left right) =
     [RegisterOperand destination, RegisterOperand left, RegisterOperand right]"
| "compare_operands (GreaterThanOrEqual destination left right) =
     [RegisterOperand destination, RegisterOperand left, RegisterOperand right]"
| "compare_operands (Compare destination left right) =
     [RegisterOperand destination, RegisterOperand left, RegisterOperand right]"
| "compare_operands (NotOp destination source) =
     [RegisterOperand destination, RegisterOperand source]"
| "compare_operands (Concatenate destination left right) =
     [RegisterOperand destination, RegisterOperand left, RegisterOperand right]"
| "compare_operands (ConcatenateLeftConstant destination source constant) =
     [RegisterOperand destination, RegisterOperand source, ConstantOperand constant]"
| "compare_operands (ConcatenateRightConstant destination source constant) =
     [RegisterOperand destination, RegisterOperand source, ConstantOperand constant]"

primrec string_operands :: "string_instruction \<Rightarrow> instruction_operand list" where
  "string_operands (StringLength destination source) =
     [RegisterOperand destination, RegisterOperand source]"
| "string_operands (StringIndexGet destination container index) =
     [RegisterOperand destination, RegisterOperand container, RegisterOperand index]"
| "string_operands (StringIndexGetOrNull destination container index) =
     [RegisterOperand destination, RegisterOperand container, RegisterOperand index]"
| "string_operands (StringIndexCoalesce destination container index offset) =
     [RegisterOperand destination, RegisterOperand container, RegisterOperand index, JumpOperand (scast offset)]"
| "string_operands (StringByteEqual destination container index byte) =
     [RegisterOperand destination, RegisterOperand container, RegisterOperand index]"
| "string_operands (StringByteNotEqual destination container index byte) =
     [RegisterOperand destination, RegisterOperand container, RegisterOperand index]"
| "string_operands (StringByteLessThan destination container index byte) =
     [RegisterOperand destination, RegisterOperand container, RegisterOperand index]"
| "string_operands (StringByteLessThanOrEqual destination container index byte) =
     [RegisterOperand destination, RegisterOperand container, RegisterOperand index]"
| "string_operands (StringByteGreaterThan destination container index byte) =
     [RegisterOperand destination, RegisterOperand container, RegisterOperand index]"
| "string_operands (StringByteGreaterThanOrEqual destination container index byte) =
     [RegisterOperand destination, RegisterOperand container, RegisterOperand index]"
| "string_operands (StringByteJumpUnlessEqual container index byte offset) =
     [RegisterOperand container, RegisterOperand index, RelativeTargetOperand offset]"
| "string_operands (StringByteJumpUnlessNotEqual container index byte offset) =
     [RegisterOperand container, RegisterOperand index, RelativeTargetOperand offset]"

primrec jump_operands :: "jump_instruction \<Rightarrow> instruction_operand list" where
  "jump_operands (Jump offset) = [JumpOperand offset]"
| "jump_operands (JumpIfFalse condition offset) = [RegisterOperand condition, JumpOperand offset]"
| "jump_operands (JumpIfTrue condition offset) = [RegisterOperand condition, JumpOperand offset]"
| "jump_operands (JumpIfNull subject offset) = [RegisterOperand subject, JumpOperand offset]"
| "jump_operands (JumpIfNotNull subject offset) = [RegisterOperand subject, JumpOperand offset]"
| "jump_operands (JumpUnless comparison left right offset) =
     [RegisterOperand left, RegisterOperand right, RelativeTargetOperand offset]"
| "jump_operands (IntJumpUnless comparison left right offset) =
     [RegisterOperand left, RegisterOperand right, RelativeTargetOperand offset]"
| "jump_operands (UintJumpUnless comparison left right offset) =
     [RegisterOperand left, RegisterOperand right, RelativeTargetOperand offset]"
| "jump_operands (StringJumpUnless comparison left right offset) =
     [RegisterOperand left, RegisterOperand right, RelativeTargetOperand offset]"
| "jump_operands (JumpUnlessConstant comparison source constant offset) =
     [RegisterOperand source, ConstantOperand constant, RelativeTargetOperand offset]"
| "jump_operands (IntJumpUnlessImmediate comparison source immediate offset) =
     [RegisterOperand source, RelativeTargetOperand offset]"
| "jump_operands (UintJumpUnlessImmediate comparison source immediate offset) =
     [RegisterOperand source, RelativeTargetOperand offset]"
| "jump_operands (Coalesce destination source offset) =
     [RegisterOperand destination, RegisterOperand source, RelativeTargetOperand offset]"
| "jump_operands (FillDefault target offset) = [RegisterOperand target, JumpOperand offset]"

primrec switch_operands :: "switch_instruction \<Rightarrow> instruction_operand list" where
  "switch_operands (SwitchBool subject table) =
     [RegisterOperand subject, SwitchTableOperand table]"
| "switch_operands (SwitchInt subject table) =
     [RegisterOperand subject, SwitchTableOperand table]"
| "switch_operands (SwitchFloat subject table) =
     [RegisterOperand subject, SwitchTableOperand table]"
| "switch_operands (SwitchString subject table) =
     [RegisterOperand subject, SwitchTableOperand table]"
| "switch_operands (SwitchPattern subject table) =
     [RegisterOperand subject, SwitchTableOperand table]"
| "switch_operands (SwitchTuplePattern first_element element_count table) =
     [SwitchTableOperand table]"
| "switch_operands (BoolPatternBranch subject false_offset default_offset) =
     [RegisterOperand subject, RelativeTargetOperand false_offset, RelativeTargetOperand default_offset]"
| "switch_operands (IntegerRangeJumpIf subject descriptor offset kind) =
     [RegisterOperand subject, TypeDescriptorOperand descriptor, RelativeTargetOperand offset]"
| "switch_operands (IntegerRangeJumpUnless subject descriptor offset kind) =
     [RegisterOperand subject, TypeDescriptorOperand descriptor, RelativeTargetOperand offset]"

primrec loop_operands :: "loop_instruction \<Rightarrow> instruction_operand list" where
  "loop_operands (IncrementJump target immediate offset) =
     [RegisterOperand target, RelativeTargetOperand offset]"
| "loop_operands (CounterLoop comparison counter limit offset) =
     [RegisterOperand counter, RegisterOperand limit, RelativeTargetOperand offset]"
| "loop_operands (IntCounterLoop comparison counter limit offset) =
     [RegisterOperand counter, RegisterOperand limit, RelativeTargetOperand offset]"
| "loop_operands (UintCounterLoop comparison counter limit offset) =
     [RegisterOperand counter, RegisterOperand limit, RelativeTargetOperand offset]"
| "loop_operands (NumericLoop comparison left right offset) =
     [RegisterOperand left, RegisterOperand right, RelativeTargetOperand offset]"
| "loop_operands (IntNumericLoop comparison left right offset) =
     [RegisterOperand left, RegisterOperand right, RelativeTargetOperand offset]"
| "loop_operands (PreparedIntNumericLoop descriptor offset) =
     [PreparedIntLoopDescriptorOperand descriptor, RelativeTargetOperand offset]"
| "loop_operands (IntStepLoop descriptor offset) =
     [IntStepLoopDescriptorOperand descriptor, RelativeTargetOperand offset]"
| "loop_operands (NumericRegionJump offset) = [JumpOperand offset]"

primrec array_operands :: "array_instruction \<Rightarrow> instruction_operand list" where
  "array_operands (NewArray count destination first_element kind) = [RegisterOperand destination]"
| "array_operands (NewFilledVec destination value size_register) =
     [RegisterOperand destination, RegisterOperand value, RegisterOperand size_register]"
| "array_operands (ReserveArray container additional) =
     [RegisterOperand container, RegisterOperand additional]"
| "array_operands (Length destination source) =
     [RegisterOperand destination, RegisterOperand source]"
| "array_operands (ElementGet destination subject index) =
     [RegisterOperand destination, RegisterOperand subject]"
| "array_operands (IndexGet destination container index) =
     [RegisterOperand destination, RegisterOperand container, RegisterOperand index]"
| "array_operands (IndexGetPath index_count destination container first_index) =
     [RegisterOperand destination, RegisterOperand container, RegisterOperand first_index]"
| "array_operands (VecIndexGet destination container index value_mode) =
     [RegisterOperand destination, RegisterOperand container, RegisterOperand index]"
| "array_operands (DictIndexGetIntKey destination container index value_mode) =
     [RegisterOperand destination, RegisterOperand container, RegisterOperand index]"
| "array_operands (DictIndexGetUintKey destination container index value_mode) =
     [RegisterOperand destination, RegisterOperand container, RegisterOperand index]"
| "array_operands (DictIndexGetStringKey destination container index value_mode) =
     [RegisterOperand destination, RegisterOperand container, RegisterOperand index]"
| "array_operands (IndexGetOrNull destination container index) =
     [RegisterOperand destination, RegisterOperand container, RegisterOperand index]"
| "array_operands (VecIndexGetOrNull destination container index) =
     [RegisterOperand destination, RegisterOperand container, RegisterOperand index]"
| "array_operands (DictIndexGetIntegerKeyOrNull destination container index kind) =
     [RegisterOperand destination, RegisterOperand container, RegisterOperand index]"
| "array_operands (DictIndexGetStringKeyOrNull destination container index) =
     [RegisterOperand destination, RegisterOperand container, RegisterOperand index]"
| "array_operands (IndexCoalesce destination container index offset) =
     [RegisterOperand destination, RegisterOperand container, RegisterOperand index, JumpOperand (scast offset)]"
| "array_operands (VecIndexCoalesce destination container index offset) =
     [RegisterOperand destination, RegisterOperand container, RegisterOperand index, JumpOperand (scast offset)]"
| "array_operands (DictIndexCoalesceIntKey destination container index offset) =
     [RegisterOperand destination, RegisterOperand container, RegisterOperand index, JumpOperand (scast offset)]"
| "array_operands (DictIndexCoalesceUintKey destination container index offset) =
     [RegisterOperand destination, RegisterOperand container, RegisterOperand index, JumpOperand (scast offset)]"
| "array_operands (DictIndexCoalesceStringKey destination container index offset) =
     [RegisterOperand destination, RegisterOperand container, RegisterOperand index, JumpOperand (scast offset)]"

primrec update_operands :: "update_instruction \<Rightarrow> instruction_operand list" where
  "update_operands (IndexSet container index value) =
     [RegisterOperand container, RegisterOperand index, RegisterOperand value]"
| "update_operands (IndexSetPath index_count container first_index value) =
     [RegisterOperand container, RegisterOperand first_index, RegisterOperand value]"
| "update_operands (IndexUpdatePath index_count operation container operand) =
     [RegisterOperand container, RegisterOperand operand]"
| "update_operands (VecIndexSet container index value) =
     [RegisterOperand container, RegisterOperand index, RegisterOperand value]"
| "update_operands (DictIndexSet container index value) =
     [RegisterOperand container, RegisterOperand index, RegisterOperand value]"
| "update_operands (DictIndexSetIntegerKey container index value kind) =
     [RegisterOperand container, RegisterOperand index, RegisterOperand value]"
| "update_operands (DictIndexSetStringKey container index value) =
     [RegisterOperand container, RegisterOperand index, RegisterOperand value]"
| "update_operands (IndexAddAssign container index value mode) =
     [RegisterOperand container, RegisterOperand index, RegisterOperand value]"
| "update_operands (Append container value) = [RegisterOperand container, RegisterOperand value]"
| "update_operands (VecAppend container value) =
     [RegisterOperand container, RegisterOperand value]"
| "update_operands (Spread container value) = [RegisterOperand container, RegisterOperand value]"
| "update_operands (Rest destination subject start) =
     [RegisterOperand destination, RegisterOperand subject]"
| "update_operands (Contains destination array value) =
     [RegisterOperand destination, RegisterOperand array, RegisterOperand value]"
| "update_operands (ContainsKey destination array key) =
     [RegisterOperand destination, RegisterOperand array, RegisterOperand key]"
| "update_operands (Remove destination container key) =
     [RegisterOperand destination, RegisterOperand container, RegisterOperand key]"
| "update_operands (RemoveFirst destination container) =
     [RegisterOperand destination, RegisterOperand container]"
| "update_operands (RemoveLast destination container) =
     [RegisterOperand destination, RegisterOperand container]"
| "update_operands (SwapRemove destination container index) =
     [RegisterOperand destination, RegisterOperand container, RegisterOperand index]"
| "update_operands (CheckDestructure subject required arity has_rest) = [RegisterOperand subject]"
| "update_operands (ForeachInit iterator subject reserve) =
     [RegisterOperand iterator, RegisterOperand subject, OptionalRegisterOperand reserve]"
| "update_operands (ForeachNext iterator key_destination value_destination) =
     [RegisterOperand iterator, OptionalRegisterOperand key_destination, RegisterOperand value_destination]"
| "update_operands (VecForeachNext iterator key_destination value_destination value_mode) =
     [RegisterOperand iterator, OptionalRegisterOperand key_destination, RegisterOperand value_destination]"
| "update_operands (DictForeachNext iterator key_destination value_destination value_mode) =
     [RegisterOperand iterator, OptionalRegisterOperand key_destination, RegisterOperand value_destination]"

primrec object_operands :: "object_instruction \<Rightarrow> instruction_operand list" where
  "object_operands (NewStatic destination cache) =
     [RegisterOperand destination, CacheOperand cache]"
| "object_operands (NewDynamic destination class_name) =
     [RegisterOperand destination, RegisterOperand class_name]"
| "object_operands (NewTyped destination descriptor) =
     [RegisterOperand destination, TypeDescriptorOperand descriptor]"
| "object_operands (CloneObject destination source) =
     [RegisterOperand destination, RegisterOperand source]"
| "object_operands (InitializeProperties object cache descriptor) =
     [RegisterOperand object, CacheOperand cache, PropertyInitializationDescriptorOperand descriptor]"
| "object_operands (PropertyGet destination object cache) =
     [RegisterOperand destination, RegisterOperand object, CacheOperand cache]"
| "object_operands (PropertyGetUnchecked destination object slot value_mode) =
     [RegisterOperand destination, RegisterOperand object]"
| "object_operands (PropertyGetOrNull destination object cache) =
     [RegisterOperand destination, RegisterOperand object, CacheOperand cache]"
| "object_operands (PropertyGetOrNullUnchecked destination object slot) =
     [RegisterOperand destination, RegisterOperand object]"
| "object_operands (PropertyCoalesce destination object cache offset) =
     [RegisterOperand destination, RegisterOperand object, CacheOperand cache, JumpOperand (scast offset)]"
| "object_operands (PropertyCoalesceUnchecked destination object slot offset) =
     [RegisterOperand destination, RegisterOperand object, JumpOperand (scast offset)]"
| "object_operands (PropertySet object value cache) =
     [RegisterOperand object, RegisterOperand value, CacheOperand cache]"
| "object_operands (PropertySetUnchecked object value slot value_mode) =
     [RegisterOperand object, RegisterOperand value]"
| "object_operands (PropertyInitRaw object value cache) =
     [RegisterOperand object, RegisterOperand value, CacheOperand cache]"
| "object_operands (PropertyIndexSet object first_operand cache) =
     [RegisterOperand object, CacheOperand cache]"
| "object_operands (PropertyIndexSetUnchecked object first_operand slot) =
     [RegisterOperand object]"
| "object_operands (PropertyIndexUpdate object operand cache mode) =
     [RegisterOperand object, RegisterOperand operand, CacheOperand cache]"
| "object_operands (PropertyIndexUpdateUnchecked object operand slot mode) =
     [RegisterOperand object, RegisterOperand operand]"
| "object_operands (PropertyStep object cache immediate mode) =
     [RegisterOperand object, CacheOperand cache]"
| "object_operands (PropertyStepUnchecked object slot immediate mode) = [RegisterOperand object]"
| "object_operands (PropertyAdd object source cache) =
     [RegisterOperand object, RegisterOperand source, CacheOperand cache]"
| "object_operands (PropertyAddUnchecked object source slot) =
     [RegisterOperand object, RegisterOperand source]"
| "object_operands (PropertyFillIntRange object first_operand cache) =
     [RegisterOperand object, CacheOperand cache]"
| "object_operands (PropertyRemove object destination cache mode) =
     [RegisterOperand object, RegisterOperand destination, CacheOperand cache]"
| "object_operands (PropertyRemoveUnchecked object destination slot mode) =
     [RegisterOperand object, RegisterOperand destination]"
| "object_operands (StaticPropertyGet destination cache) =
     [RegisterOperand destination, CacheOperand cache]"
| "object_operands (StaticPropertyGetOrNull destination cache) =
     [RegisterOperand destination, CacheOperand cache]"
| "object_operands (StaticPropertyCoalesce destination cache offset) =
     [RegisterOperand destination, CacheOperand cache, RelativeTargetOperand offset]"
| "object_operands (StaticPropertySet cache value) = [CacheOperand cache, RegisterOperand value]"

primrec call_operands :: "call_instruction \<Rightarrow> instruction_operand list" where
  "call_operands (MakeClosure capture_count destination prototype first_capture) =
     [RegisterOperand destination, ConstantOperand prototype]"
| "call_operands (MakeBound destination callee descriptor) =
     [RegisterOperand destination, RegisterOperand callee, PresetDescriptorOperand descriptor]"
| "call_operands (CallValue argument_count destination callee first_argument) =
     [RegisterOperand destination, RegisterOperand callee]"
| "call_operands (CallValueUnchecked argument_count destination callee first_argument) =
     [RegisterOperand destination, RegisterOperand callee]"
| "call_operands (CallValueDiscarded argument_count destination callee first_argument) =
     [RegisterOperand destination, RegisterOperand callee]"
| "call_operands (CallNamed argument_count destination first_argument cache) =
     [RegisterOperand destination, CacheOperand cache]"
| "call_operands (CallNamedUnchecked argument_count destination first_argument cache) =
     [RegisterOperand destination, CacheOperand cache]"
| "call_operands (CallNamedDirect argument_count destination first_argument cache) =
     [RegisterOperand destination, CacheOperand cache]"
| "call_operands (CallNamedConstantUnchecked destination constant cache borrowed) =
     [RegisterOperand destination, ConstantOperand constant, CacheOperand cache]"
| "call_operands (CallNamedDiscarded argument_count destination first_argument cache) =
     [RegisterOperand destination, CacheOperand cache]"
| "call_operands (CallMethod argument_count destination first_argument cache) =
     [RegisterOperand destination, CacheOperand cache]"
| "call_operands (CallMethodUnchecked argument_count destination first_argument cache) =
     [RegisterOperand destination, CacheOperand cache]"
| "call_operands (CallMethodDirect argument_count destination first_argument cache) =
     [RegisterOperand destination, CacheOperand cache]"
| "call_operands (CallMethodDiscarded argument_count destination first_argument cache) =
     [RegisterOperand destination, CacheOperand cache]"
| "call_operands (CallStatic argument_count destination first_argument cache) =
     [RegisterOperand destination, CacheOperand cache]"
| "call_operands (CallStaticDiscarded argument_count destination first_argument cache) =
     [RegisterOperand destination, CacheOperand cache]"
| "call_operands (CallSelfUnchecked argument_count destination first_argument) =
     [RegisterOperand destination]"
| "call_operands (CallWithNames destination callee descriptor) =
     [RegisterOperand destination, RegisterOperand callee, CallDescriptorOperand descriptor]"
| "call_operands (CallWithNamesDiscarded destination callee descriptor) =
     [RegisterOperand destination, RegisterOperand callee, CallDescriptorOperand descriptor]"
| "call_operands (CheckDiscardedResult source) = [RegisterOperand source]"

primrec return_operands :: "return_instruction \<Rightarrow> instruction_operand list" where
  "return_operands (Return source) = [RegisterOperand source]"
| "return_operands (ReturnUnchecked source) = [RegisterOperand source]"
| "return_operands (ReturnReferenceUnchecked source) = [RegisterOperand source]"
| "return_operands (ReturnScalarUnchecked source) = [RegisterOperand source]"
| "return_operands (ReturnIntegerUnchecked immediate kind) = []"
| "return_operands (ReturnPairUnchecked first second) =
     [RegisterOperand first, RegisterOperand second]"
| "return_operands ReturnNull = []"
| "return_operands ReturnNullUnchecked = []"

primrec check_operands :: "check_instruction \<Rightarrow> instruction_operand list" where
  "check_operands (Is destination source descriptor) =
     [RegisterOperand destination, RegisterOperand source, TypeDescriptorOperand descriptor]"
| "check_operands (AsCheck destination source descriptor mode) =
     [RegisterOperand destination, RegisterOperand source, TypeDescriptorOperand descriptor]"
| "check_operands (AsOrNull destination source descriptor) =
     [RegisterOperand destination, RegisterOperand source, TypeDescriptorOperand descriptor]"
| "check_operands (CheckDefined subject name) = [RegisterOperand subject, ConstantOperand name]"
| "check_operands (CheckSoleReference source message chain_previous) =
     [RegisterOperand source, ConstantOperand message]"
| "check_operands CheckWhereConstraints = []"
| "check_operands (Throw source) = [RegisterOperand source]"
| "check_operands Rethrow = []"
| "check_operands (ThrowUnhandledMatch subject) = [RegisterOperand subject]"
| "check_operands (Panic message) = [RegisterOperand message]"
| "check_operands (Assert operand_count first_value message text_index) =
     [OptionalRegisterOperand message, ConstantOperand text_index]"
| "check_operands (Exit code) = [OptionalRegisterOperand code]"
| "check_operands (Write count register new_line stderr) = []"
| "check_operands (Debug value_count first_value) = []"
| "check_operands (Require once destination path) =
     [RegisterOperand destination, RegisterOperand path]"
| "check_operands DrainFinalizers = []"
| "check_operands (Fresh destination) = [RegisterOperand destination]"

primrec instruction_operands :: "instruction \<Rightarrow> instruction_operand list" where
  "instruction_operands (Load i) = load_operands i"
| "instruction_operands (Arithmetic i) = arithmetic_operands i"
| "instruction_operands (FloatOp i) = float_operands i"
| "instruction_operands (CompareOp i) = compare_operands i"
| "instruction_operands (StringOp i) = string_operands i"
| "instruction_operands (Branch i) = jump_operands i"
| "instruction_operands (Switch i) = switch_operands i"
| "instruction_operands (LoopOp i) = loop_operands i"
| "instruction_operands (ArrayOp i) = array_operands i"
| "instruction_operands (ArrayUpdate i) = update_operands i"
| "instruction_operands (ObjectOp i) = object_operands i"
| "instruction_operands (CallOp i) = call_operands i"
| "instruction_operands (ReturnOp i) = return_operands i"
| "instruction_operands (CheckOp i) = check_operands i"

text \<open>The visitor stops at the first operand it rejects.\<close>

definition try_visit_operands ::
  "instruction \<Rightarrow> (instruction_operand \<Rightarrow> 'e + unit) \<Rightarrow> 'e + unit" where
  "try_visit_operands ins visit = run_checks (map visit (instruction_operands ins))"

lemma try_visit_operands_Inr:
  "try_visit_operands ins visit = Inr () \<longleftrightarrow>
     (\<forall>operand \<in> set (instruction_operands ins). visit operand = Inr ())"
  by (auto simp: try_visit_operands_def run_checks_Inr)

section \<open>Tags\<close>

text \<open>The tag byte of the packed instruction, as the table assigns it.\<close>

primrec load_tag :: "load_instruction \<Rightarrow> u8" where
  "load_tag (Move _ _) = 0"
| "load_tag (MoveOwned _ _) = 1"
| "load_tag (Clear _) = 2"
| "load_tag (LoadConstant _ _) = 3"
| "load_tag (LoadNull _) = 4"
| "load_tag (LoadTrue _) = 5"
| "load_tag (LoadFalse _) = 6"
| "load_tag (LoadInteger _ _ _) = 7"
| "load_tag (ConstantGet _ _) = 8"
| "load_tag (ClassConstantGet _ _) = 9"

primrec arithmetic_tag :: "arithmetic_instruction \<Rightarrow> u8" where
  "arithmetic_tag (Add _ _ _ _) = 10"
| "arithmetic_tag (AddImmediate _ _ _ _) = 11"
| "arithmetic_tag (IntegerAddAssign _ _ _) = 12"
| "arithmetic_tag (Subtract _ _ _ _) = 13"
| "arithmetic_tag (SubtractImmediate _ _ _ _) = 14"
| "arithmetic_tag (Multiply _ _ _ _) = 15"
| "arithmetic_tag (IntegerMultiplyImmediate _ _ _ _) = 16"
| "arithmetic_tag (Divide _ _ _) = 17"
| "arithmetic_tag (Modulo _ _ _ _) = 18"
| "arithmetic_tag (IntegerModuloImmediate _ _ _ _) = 19"
| "arithmetic_tag (Power _ _ _) = 20"
| "arithmetic_tag (Negate _ _) = 21"
| "arithmetic_tag (UnaryPlus _ _) = 22"
| "arithmetic_tag (Step _ _ _ _) = 23"
| "arithmetic_tag (BitwiseAnd _ _ _ _) = 24"
| "arithmetic_tag (BitwiseOr _ _ _ _) = 25"
| "arithmetic_tag (BitwiseXor _ _ _ _) = 26"
| "arithmetic_tag (BitwiseNot _ _ _) = 27"
| "arithmetic_tag (ShiftLeft _ _ _ _) = 28"
| "arithmetic_tag (ShiftRight _ _ _ _) = 29"

primrec float_tag :: "float_instruction \<Rightarrow> u8" where
  "float_tag (FloatAdd _ _ _) = 30"
| "float_tag (FloatSubtract _ _ _) = 31"
| "float_tag (FloatMultiply _ _ _) = 32"
| "float_tag (FloatMultiplyConstant _ _ _) = 33"
| "float_tag (Squares _ _ _) = 34"
| "float_tag (FloatSquares _ _ _) = 35"
| "float_tag (FloatSquaresSum _ _ _) = 36"
| "float_tag (FloatSquaresSumBranch _ _) = 37"
| "float_tag (FloatDifferenceAdd _ _ _) = 38"
| "float_tag (FloatScaleProductAdd _ _ _) = 39"
| "float_tag (FloatPairUpdate _) = 40"

primrec compare_tag :: "compare_instruction \<Rightarrow> u8" where
  "compare_tag (Equal _ _ _) = 41"
| "compare_tag (NotEqual _ _ _) = 42"
| "compare_tag (LessThan _ _ _) = 43"
| "compare_tag (LessThanOrEqual _ _ _) = 44"
| "compare_tag (GreaterThan _ _ _) = 45"
| "compare_tag (GreaterThanOrEqual _ _ _) = 46"
| "compare_tag (Compare _ _ _) = 47"
| "compare_tag (NotOp _ _) = 48"
| "compare_tag (Concatenate _ _ _) = 49"
| "compare_tag (ConcatenateLeftConstant _ _ _) = 50"
| "compare_tag (ConcatenateRightConstant _ _ _) = 51"

primrec string_tag :: "string_instruction \<Rightarrow> u8" where
  "string_tag (StringLength _ _) = 52"
| "string_tag (StringIndexGet _ _ _) = 53"
| "string_tag (StringIndexGetOrNull _ _ _) = 54"
| "string_tag (StringIndexCoalesce _ _ _ _) = 55"
| "string_tag (StringByteEqual _ _ _ _) = 56"
| "string_tag (StringByteNotEqual _ _ _ _) = 57"
| "string_tag (StringByteLessThan _ _ _ _) = 58"
| "string_tag (StringByteLessThanOrEqual _ _ _ _) = 59"
| "string_tag (StringByteGreaterThan _ _ _ _) = 60"
| "string_tag (StringByteGreaterThanOrEqual _ _ _ _) = 61"
| "string_tag (StringByteJumpUnlessEqual _ _ _ _) = 62"
| "string_tag (StringByteJumpUnlessNotEqual _ _ _ _) = 63"

primrec jump_tag :: "jump_instruction \<Rightarrow> u8" where
  "jump_tag (Jump _) = 64"
| "jump_tag (JumpIfFalse _ _) = 65"
| "jump_tag (JumpIfTrue _ _) = 66"
| "jump_tag (JumpIfNull _ _) = 67"
| "jump_tag (JumpIfNotNull _ _) = 68"
| "jump_tag (JumpUnless _ _ _ _) = 69"
| "jump_tag (IntJumpUnless _ _ _ _) = 70"
| "jump_tag (UintJumpUnless _ _ _ _) = 71"
| "jump_tag (StringJumpUnless _ _ _ _) = 72"
| "jump_tag (JumpUnlessConstant _ _ _ _) = 73"
| "jump_tag (IntJumpUnlessImmediate _ _ _ _) = 74"
| "jump_tag (UintJumpUnlessImmediate _ _ _ _) = 75"
| "jump_tag (Coalesce _ _ _) = 76"
| "jump_tag (FillDefault _ _) = 77"

primrec switch_tag :: "switch_instruction \<Rightarrow> u8" where
  "switch_tag (SwitchBool _ _) = 78"
| "switch_tag (SwitchInt _ _) = 79"
| "switch_tag (SwitchFloat _ _) = 80"
| "switch_tag (SwitchString _ _) = 81"
| "switch_tag (SwitchPattern _ _) = 82"
| "switch_tag (SwitchTuplePattern _ _ _) = 83"
| "switch_tag (BoolPatternBranch _ _ _) = 84"
| "switch_tag (IntegerRangeJumpIf _ _ _ _) = 85"
| "switch_tag (IntegerRangeJumpUnless _ _ _ _) = 86"

primrec loop_tag :: "loop_instruction \<Rightarrow> u8" where
  "loop_tag (IncrementJump _ _ _) = 87"
| "loop_tag (CounterLoop _ _ _ _) = 88"
| "loop_tag (IntCounterLoop _ _ _ _) = 89"
| "loop_tag (UintCounterLoop _ _ _ _) = 90"
| "loop_tag (NumericLoop _ _ _ _) = 91"
| "loop_tag (IntNumericLoop _ _ _ _) = 92"
| "loop_tag (PreparedIntNumericLoop _ _) = 93"
| "loop_tag (IntStepLoop _ _) = 94"
| "loop_tag (NumericRegionJump _) = 95"

primrec array_tag :: "array_instruction \<Rightarrow> u8" where
  "array_tag (NewArray _ _ _ _) = 96"
| "array_tag (NewFilledVec _ _ _) = 97"
| "array_tag (ReserveArray _ _) = 98"
| "array_tag (Length _ _) = 99"
| "array_tag (ElementGet _ _ _) = 100"
| "array_tag (IndexGet _ _ _) = 101"
| "array_tag (IndexGetPath _ _ _ _) = 210"
| "array_tag (VecIndexGet _ _ _ _) = 102"
| "array_tag (DictIndexGetIntKey _ _ _ _) = 103"
| "array_tag (DictIndexGetUintKey _ _ _ _) = 104"
| "array_tag (DictIndexGetStringKey _ _ _ _) = 105"
| "array_tag (IndexGetOrNull _ _ _) = 106"
| "array_tag (VecIndexGetOrNull _ _ _) = 107"
| "array_tag (DictIndexGetIntegerKeyOrNull _ _ _ _) = 108"
| "array_tag (DictIndexGetStringKeyOrNull _ _ _) = 109"
| "array_tag (IndexCoalesce _ _ _ _) = 110"
| "array_tag (VecIndexCoalesce _ _ _ _) = 111"
| "array_tag (DictIndexCoalesceIntKey _ _ _ _) = 112"
| "array_tag (DictIndexCoalesceUintKey _ _ _ _) = 113"
| "array_tag (DictIndexCoalesceStringKey _ _ _ _) = 114"

primrec update_tag :: "update_instruction \<Rightarrow> u8" where
  "update_tag (IndexSet _ _ _) = 115"
| "update_tag (IndexSetPath _ _ _ _) = 209"
| "update_tag (IndexUpdatePath _ _ _ _) = 211"
| "update_tag (VecIndexSet _ _ _) = 116"
| "update_tag (DictIndexSet _ _ _) = 117"
| "update_tag (DictIndexSetIntegerKey _ _ _ _) = 118"
| "update_tag (DictIndexSetStringKey _ _ _) = 119"
| "update_tag (IndexAddAssign _ _ _ _) = 120"
| "update_tag (Append _ _) = 121"
| "update_tag (VecAppend _ _) = 122"
| "update_tag (Spread _ _) = 123"
| "update_tag (Rest _ _ _) = 124"
| "update_tag (Contains _ _ _) = 125"
| "update_tag (ContainsKey _ _ _) = 126"
| "update_tag (Remove _ _ _) = 127"
| "update_tag (RemoveFirst _ _) = 128"
| "update_tag (RemoveLast _ _) = 129"
| "update_tag (SwapRemove _ _ _) = 130"
| "update_tag (CheckDestructure _ _ _ _) = 131"
| "update_tag (ForeachInit _ _ _) = 132"
| "update_tag (ForeachNext _ _ _) = 133"
| "update_tag (VecForeachNext _ _ _ _) = 134"
| "update_tag (DictForeachNext _ _ _ _) = 135"

primrec object_tag :: "object_instruction \<Rightarrow> u8" where
  "object_tag (NewStatic _ _) = 136"
| "object_tag (NewDynamic _ _) = 137"
| "object_tag (NewTyped _ _) = 138"
| "object_tag (CloneObject _ _) = 139"
| "object_tag (InitializeProperties _ _ _) = 140"
| "object_tag (PropertyGet _ _ _) = 141"
| "object_tag (PropertyGetUnchecked _ _ _ _) = 142"
| "object_tag (PropertyGetOrNull _ _ _) = 143"
| "object_tag (PropertyGetOrNullUnchecked _ _ _) = 144"
| "object_tag (PropertyCoalesce _ _ _ _) = 145"
| "object_tag (PropertyCoalesceUnchecked _ _ _ _) = 146"
| "object_tag (PropertySet _ _ _) = 147"
| "object_tag (PropertySetUnchecked _ _ _ _) = 148"
| "object_tag (PropertyInitRaw _ _ _) = 149"
| "object_tag (PropertyIndexSet _ _ _) = 150"
| "object_tag (PropertyIndexSetUnchecked _ _ _) = 151"
| "object_tag (PropertyIndexUpdate _ _ _ _) = 152"
| "object_tag (PropertyIndexUpdateUnchecked _ _ _ _) = 153"
| "object_tag (PropertyStep _ _ _ _) = 154"
| "object_tag (PropertyStepUnchecked _ _ _ _) = 155"
| "object_tag (PropertyAdd _ _ _) = 156"
| "object_tag (PropertyAddUnchecked _ _ _) = 157"
| "object_tag (PropertyFillIntRange _ _ _) = 158"
| "object_tag (PropertyRemove _ _ _ _) = 159"
| "object_tag (PropertyRemoveUnchecked _ _ _ _) = 160"
| "object_tag (StaticPropertyGet _ _) = 161"
| "object_tag (StaticPropertyGetOrNull _ _) = 162"
| "object_tag (StaticPropertyCoalesce _ _ _) = 163"
| "object_tag (StaticPropertySet _ _) = 164"

primrec call_tag :: "call_instruction \<Rightarrow> u8" where
  "call_tag (MakeClosure _ _ _ _) = 165"
| "call_tag (MakeBound _ _ _) = 166"
| "call_tag (CallValue _ _ _ _) = 167"
| "call_tag (CallValueUnchecked _ _ _ _) = 168"
| "call_tag (CallValueDiscarded _ _ _ _) = 169"
| "call_tag (CallNamed _ _ _ _) = 170"
| "call_tag (CallNamedUnchecked _ _ _ _) = 171"
| "call_tag (CallNamedDirect _ _ _ _) = 172"
| "call_tag (CallNamedConstantUnchecked _ _ _ _) = 173"
| "call_tag (CallNamedDiscarded _ _ _ _) = 174"
| "call_tag (CallMethod _ _ _ _) = 175"
| "call_tag (CallMethodUnchecked _ _ _ _) = 176"
| "call_tag (CallMethodDirect _ _ _ _) = 177"
| "call_tag (CallMethodDiscarded _ _ _ _) = 178"
| "call_tag (CallStatic _ _ _ _) = 179"
| "call_tag (CallStaticDiscarded _ _ _ _) = 180"
| "call_tag (CallSelfUnchecked _ _ _) = 181"
| "call_tag (CallWithNames _ _ _) = 182"
| "call_tag (CallWithNamesDiscarded _ _ _) = 183"
| "call_tag (CheckDiscardedResult _) = 184"

primrec return_tag :: "return_instruction \<Rightarrow> u8" where
  "return_tag (Return _) = 185"
| "return_tag (ReturnUnchecked _) = 186"
| "return_tag (ReturnReferenceUnchecked _) = 187"
| "return_tag (ReturnScalarUnchecked _) = 188"
| "return_tag (ReturnIntegerUnchecked _ _) = 189"
| "return_tag (ReturnPairUnchecked _ _) = 190"
| "return_tag ReturnNull = 191"
| "return_tag ReturnNullUnchecked = 192"

primrec check_tag :: "check_instruction \<Rightarrow> u8" where
  "check_tag (Is _ _ _) = 193"
| "check_tag (AsCheck _ _ _ _) = 194"
| "check_tag (AsOrNull _ _ _) = 195"
| "check_tag (CheckDefined _ _) = 196"
| "check_tag (CheckSoleReference _ _ _) = 197"
| "check_tag CheckWhereConstraints = 198"
| "check_tag (Throw _) = 199"
| "check_tag Rethrow = 200"
| "check_tag (ThrowUnhandledMatch _) = 201"
| "check_tag (Panic _) = 202"
| "check_tag (Assert _ _ _ _) = 203"
| "check_tag (Exit _) = 204"
| "check_tag (Write _ _ _ _) = 205"
| "check_tag (Debug _ _) = 206"
| "check_tag (Require _ _ _) = 207"
| "check_tag DrainFinalizers = 208"
| "check_tag (Fresh _) = 212"

primrec kind_tag :: "instruction \<Rightarrow> u8" where
  "kind_tag (Load i) = load_tag i"
| "kind_tag (Arithmetic i) = arithmetic_tag i"
| "kind_tag (FloatOp i) = float_tag i"
| "kind_tag (CompareOp i) = compare_tag i"
| "kind_tag (StringOp i) = string_tag i"
| "kind_tag (Branch i) = jump_tag i"
| "kind_tag (Switch i) = switch_tag i"
| "kind_tag (LoopOp i) = loop_tag i"
| "kind_tag (ArrayOp i) = array_tag i"
| "kind_tag (ArrayUpdate i) = update_tag i"
| "kind_tag (ObjectOp i) = object_tag i"
| "kind_tag (CallOp i) = call_tag i"
| "kind_tag (ReturnOp i) = return_tag i"
| "kind_tag (CheckOp i) = check_tag i"

end
