(* ===== verification/Whim_Value.thy ===== *)
theory Whim_Value
  imports Whim_Operands
begin

text \<open>
  Runtime values (\<^verbatim>\<open>crates/value/src/lib.rs\<close>) and dictionary keys
  (\<^verbatim>\<open>crates/value/src/dict/keys.rs\<close>). A value is a tagged payload with a newtype tag. The heap
  objects behind vec, dict and tuple handles are copy-on-write, so a handle is modelled by its
  contents: the elements of a vec or tuple, the entries of a dict in insertion order. Functions,
  objects and iterators have identity only.
\<close>

type_synonym i64 = "64 word"

section \<open>Dictionary keys\<close>

datatype key =
    IntKey i64
  | UintKey u64
  | BoolKey bool
  | StringKey string
  | ShortStringKey string
  | NewtypeIntKey i64 u32
  | NewtypeUintKey u64 u32
  | NewtypeBoolKey bool u32
  | NewtypeStringKey string u32
  | NewtypeShortStringKey string u32
  | FreshKey u64
  | NewtypeFreshKey u64 u32

text \<open>\<^verbatim>\<open>impl PartialEq for Key\<close>: a heap string and a short string are equal when their bytes are.\<close>

definition key_eq :: "key \<Rightarrow> key \<Rightarrow> bool" where
  "key_eq left right =
     (case (left, right) of
        (IntKey l, IntKey r) \<Rightarrow> (l = r)
      | (UintKey l, UintKey r) \<Rightarrow> (l = r)
      | (FreshKey l, FreshKey r) \<Rightarrow> (l = r)
      | (BoolKey l, BoolKey r) \<Rightarrow> (l = r)
      | (StringKey l, StringKey r) \<Rightarrow> (l = r)
      | (ShortStringKey l, ShortStringKey r) \<Rightarrow> (l = r)
      | (NewtypeIntKey l a, NewtypeIntKey r b) \<Rightarrow> (a = b \<and> l = r)
      | (NewtypeUintKey l a, NewtypeUintKey r b) \<Rightarrow> (a = b \<and> l = r)
      | (NewtypeFreshKey l a, NewtypeFreshKey r b) \<Rightarrow> (a = b \<and> l = r)
      | (NewtypeBoolKey l a, NewtypeBoolKey r b) \<Rightarrow> (a = b \<and> l = r)
      | (NewtypeStringKey l a, NewtypeStringKey r b) \<Rightarrow> (a = b \<and> l = r)
      | (NewtypeShortStringKey l a, NewtypeShortStringKey r b) \<Rightarrow> (a = b \<and> l = r)
      | (NewtypeStringKey l a, NewtypeShortStringKey r b) \<Rightarrow> (a = b \<and> l = r)
      | (NewtypeShortStringKey r b, NewtypeStringKey l a) \<Rightarrow> (a = b \<and> l = r)
      | (StringKey l, ShortStringKey r) \<Rightarrow> (l = r)
      | (ShortStringKey r, StringKey l) \<Rightarrow> (l = r)
      | _ \<Rightarrow> False)"

definition without_newtype :: "key \<Rightarrow> key" where
  "without_newtype k =
     (case k of
        NewtypeIntKey v _ \<Rightarrow> IntKey v
      | NewtypeUintKey v _ \<Rightarrow> UintKey v
      | NewtypeFreshKey v _ \<Rightarrow> FreshKey v
      | NewtypeBoolKey v _ \<Rightarrow> BoolKey v
      | NewtypeStringKey v _ \<Rightarrow> StringKey v
      | NewtypeShortStringKey v _ \<Rightarrow> ShortStringKey v
      | _ \<Rightarrow> k)"

section \<open>Values\<close>

datatype whim_value = Value (payload: value_payload) (newtype: u32)
  and value_payload =
    Uninitialized
  | NullV
  | BoolV bool
  | IntV i64
  | UintV u64
  | FloatV f64
  | ShortStringV string
  | StringV string
  | VecV "whim_value list"
  | DictV "(key \<times> whim_value) list"
  | TupleV "whim_value list"
  | FunctionV nat
  | ObjectV nat
  | IterV nat
  | FreshV u64

definition NO_NEWTYPE :: u32 where
  "NO_NEWTYPE = 0xFFFFFFFF"

text \<open>The constructors that make an untagged value of each kind.\<close>

definition untagged :: "value_payload \<Rightarrow> whim_value" where
  "untagged p = Value p NO_NEWTYPE"

definition with_newtype :: "whim_value \<Rightarrow> u32 option \<Rightarrow> whim_value" where
  "with_newtype v identifier =
     Value (payload v) (case identifier of None \<Rightarrow> NO_NEWTYPE | Some t \<Rightarrow> t)"

definition newtype_id :: "whim_value \<Rightarrow> u32 option" where
  "newtype_id v = (if newtype v \<noteq> NO_NEWTYPE then Some (newtype v) else None)"

definition is_null :: "whim_value \<Rightarrow> bool" where
  "is_null v = (payload v = NullV)"

definition is_bool :: "whim_value \<Rightarrow> bool" where
  "is_bool v = (case payload v of BoolV _ \<Rightarrow> True | _ \<Rightarrow> False)"

definition is_int :: "whim_value \<Rightarrow> bool" where
  "is_int v = (case payload v of IntV _ \<Rightarrow> True | _ \<Rightarrow> False)"

definition is_uint :: "whim_value \<Rightarrow> bool" where
  "is_uint v = (case payload v of UintV _ \<Rightarrow> True | _ \<Rightarrow> False)"

definition is_fresh :: "whim_value \<Rightarrow> bool" where
  "is_fresh v = (case payload v of FreshV _ \<Rightarrow> True | _ \<Rightarrow> False)"

definition is_float :: "whim_value \<Rightarrow> bool" where
  "is_float v = (case payload v of FloatV _ \<Rightarrow> True | _ \<Rightarrow> False)"

definition is_string :: "whim_value \<Rightarrow> bool" where
  "is_string v = (case payload v of StringV _ \<Rightarrow> True | ShortStringV _ \<Rightarrow> True | _ \<Rightarrow> False)"

definition is_vec :: "whim_value \<Rightarrow> bool" where
  "is_vec v = (case payload v of VecV _ \<Rightarrow> True | _ \<Rightarrow> False)"

definition is_dict :: "whim_value \<Rightarrow> bool" where
  "is_dict v = (case payload v of DictV _ \<Rightarrow> True | _ \<Rightarrow> False)"

definition is_tuple :: "whim_value \<Rightarrow> bool" where
  "is_tuple v = (case payload v of TupleV _ \<Rightarrow> True | _ \<Rightarrow> False)"

definition is_function :: "whim_value \<Rightarrow> bool" where
  "is_function v = (case payload v of FunctionV _ \<Rightarrow> True | _ \<Rightarrow> False)"

definition is_object :: "whim_value \<Rightarrow> bool" where
  "is_object v = (case payload v of ObjectV _ \<Rightarrow> True | _ \<Rightarrow> False)"

definition is_reference_counted :: "whim_value \<Rightarrow> bool" where
  "is_reference_counted v =
     (case payload v of
        StringV _ \<Rightarrow> True | VecV _ \<Rightarrow> True | DictV _ \<Rightarrow> True | TupleV _ \<Rightarrow> True
      | FunctionV _ \<Rightarrow> True | ObjectV _ \<Rightarrow> True | IterV _ \<Rightarrow> True
      | _ \<Rightarrow> False)"

definition as_bool :: "whim_value \<Rightarrow> bool option" where
  "as_bool v = (case payload v of BoolV b \<Rightarrow> Some b | _ \<Rightarrow> None)"

definition as_int_value :: "whim_value \<Rightarrow> i64 option" where
  "as_int_value v = (case payload v of IntV i \<Rightarrow> Some i | _ \<Rightarrow> None)"

definition as_uint_value :: "whim_value \<Rightarrow> u64 option" where
  "as_uint_value v = (case payload v of UintV i \<Rightarrow> Some i | _ \<Rightarrow> None)"

definition as_float :: "whim_value \<Rightarrow> f64 option" where
  "as_float v = (case payload v of FloatV f \<Rightarrow> Some f | _ \<Rightarrow> None)"

definition as_fresh :: "whim_value \<Rightarrow> u64 option" where
  "as_fresh v = (case payload v of FreshV i \<Rightarrow> Some i | _ \<Rightarrow> None)"

definition as_string_bytes :: "whim_value \<Rightarrow> string option" where
  "as_string_bytes v =
     (case payload v of StringV s \<Rightarrow> Some s | ShortStringV s \<Rightarrow> Some s | _ \<Rightarrow> None)"

definition as_string_len :: "whim_value \<Rightarrow> nat option" where
  "as_string_len v = map_option length (as_string_bytes v)"

definition as_vec :: "whim_value \<Rightarrow> whim_value list option" where
  "as_vec v = (case payload v of VecV xs \<Rightarrow> Some xs | _ \<Rightarrow> None)"

definition as_dict :: "whim_value \<Rightarrow> (key \<times> whim_value) list option" where
  "as_dict v = (case payload v of DictV xs \<Rightarrow> Some xs | _ \<Rightarrow> None)"

definition as_tuple :: "whim_value \<Rightarrow> whim_value list option" where
  "as_tuple v = (case payload v of TupleV xs \<Rightarrow> Some xs | _ \<Rightarrow> None)"

lemmas value_tests =
  is_null_def is_bool_def is_int_def is_uint_def is_fresh_def is_float_def is_string_def
  is_vec_def is_dict_def is_tuple_def is_function_def is_object_def

lemmas value_accessors =
  as_bool_def as_int_value_def as_uint_value_def as_float_def as_fresh_def as_string_bytes_def
  as_string_len_def as_vec_def as_dict_def as_tuple_def

text \<open>\<^verbatim>\<open>KeyRef::from_value\<close> and \<^verbatim>\<open>KeyRef::to_value\<close>.\<close>

definition key_from_value :: "whim_value \<Rightarrow> key option" where
  "key_from_value v =
     (case newtype_id v of
        Some tag \<Rightarrow>
          (case payload v of
             IntV i \<Rightarrow> Some (NewtypeIntKey i tag)
           | UintV i \<Rightarrow> Some (NewtypeUintKey i tag)
           | FreshV i \<Rightarrow> Some (NewtypeFreshKey i tag)
           | BoolV b \<Rightarrow> Some (NewtypeBoolKey b tag)
           | StringV s \<Rightarrow> Some (NewtypeStringKey s tag)
           | ShortStringV s \<Rightarrow> Some (NewtypeShortStringKey s tag)
           | _ \<Rightarrow> None)
      | None \<Rightarrow>
          (case payload v of
             IntV i \<Rightarrow> Some (IntKey i)
           | UintV i \<Rightarrow> Some (UintKey i)
           | FreshV i \<Rightarrow> Some (FreshKey i)
           | BoolV b \<Rightarrow> Some (BoolKey b)
           | StringV s \<Rightarrow> Some (StringKey s)
           | ShortStringV s \<Rightarrow> Some (ShortStringKey s)
           | _ \<Rightarrow> None))"

fun key_to_value :: "key \<Rightarrow> whim_value" where
  "key_to_value (IntKey i) = untagged (IntV i)"
| "key_to_value (UintKey i) = untagged (UintV i)"
| "key_to_value (FreshKey i) = untagged (FreshV i)"
| "key_to_value (BoolKey b) = untagged (BoolV b)"
| "key_to_value (StringKey s) = untagged (StringV s)"
| "key_to_value (ShortStringKey s) = untagged (ShortStringV s)"
| "key_to_value (NewtypeIntKey i tag) = with_newtype (untagged (IntV i)) (Some tag)"
| "key_to_value (NewtypeUintKey i tag) = with_newtype (untagged (UintV i)) (Some tag)"
| "key_to_value (NewtypeFreshKey i tag) = with_newtype (untagged (FreshV i)) (Some tag)"
| "key_to_value (NewtypeBoolKey b tag) = with_newtype (untagged (BoolV b)) (Some tag)"
| "key_to_value (NewtypeStringKey s tag) = with_newtype (untagged (StringV s)) (Some tag)"
| "key_to_value (NewtypeShortStringKey s tag) =
     with_newtype (untagged (ShortStringV s)) (Some tag)"

text \<open>A lookup in a dictionary finds the entry whose key equals the one asked for.\<close>

definition dict_get :: "(key \<times> whim_value) list \<Rightarrow> key \<Rightarrow> whim_value option" where
  "dict_get entries k = map_option snd (find (\<lambda>(key, _). key_eq key k) entries)"

section \<open>Properties\<close>

lemma key_eq_refl: "key_eq k k"
  by (cases k) (auto simp: key_eq_def)

lemma key_eq_sym: "key_eq a b \<Longrightarrow> key_eq b a"
  by (cases a; cases b) (simp_all add: key_eq_def)

lemma key_eq_trans: "key_eq a b \<Longrightarrow> key_eq b c \<Longrightarrow> key_eq a c"
  by (cases a; cases b; cases c) (simp_all add: key_eq_def)

lemma key_from_to_value:
  assumes "key_from_value v = Some k"
  shows "key_to_value k = v"
  using assms
  by (cases v)
    (auto simp: key_from_value_def newtype_id_def untagged_def with_newtype_def
      split: value_payload.splits if_splits)

lemma is_string_bytes: "is_string v \<longleftrightarrow> as_string_bytes v \<noteq> None"
  by (auto simp: is_string_def as_string_bytes_def split: value_payload.splits)

section \<open>Properties\<close>

text \<open>Dictionary keys: a value that converts to a key is the value of that key, so two values
  with the same key are the same value, and key equality, under which a lookup compares keys, is an
  equivalence.\<close>

theorem key_value_round_trip:
  assumes "key_from_value v = Some k"
  shows "key_to_value k = v \<and> (\<forall>v'. key_from_value v' = Some k \<longrightarrow> v' = v) \<and> key_eq k k \<and>
    (\<forall>a. key_eq k a \<longrightarrow> key_eq a k) \<and> (\<forall>a b. key_eq k a \<longrightarrow> key_eq a b \<longrightarrow> key_eq k b)"
  using assms key_from_to_value key_eq_refl key_eq_sym key_eq_trans by blast

theorem key_value_round_trip_witness: "key_to_value (IntKey 3) = untagged (IntV 3)"
proof -
  have "key_from_value (untagged (IntV 3)) = Some (IntKey 3)"
    by (simp add: key_from_value_def untagged_def newtype_id_def)
  from key_value_round_trip [OF this] show ?thesis
    by simp
qed

end
