(* ===== verification/Whim_Descriptors.thy ===== *)
theory Whim_Descriptors
  imports Whim_Value
begin

text \<open>
  Literals and type descriptors (\<^verbatim>\<open>crates/bytecode/src/chunk/descriptors.rs\<close>): the data, the
  normalising constructors and the traversals. What the descriptors admit is the subject of
  \<^verbatim>\<open>Whim_Trivial\<close>.
\<close>

section \<open>Literals\<close>

datatype literal =
    NullLit
  | BoolLit bool
  | IntLit i64
  | UintLit u64
  | FloatLit f64
  | StringLit atom

datatype literal_key =
    NullLitKey
  | BoolLitKey bool
  | IntLitKey i64
  | UintLitKey u64
  | FloatLitKey u64
  | StringLitKey atom

text \<open>
  Two floats share a pool entry when their bits agree, so the two zeros and every NaN pattern stay
  apart. A string is keyed by the address of its interned bytes, which identifies the atom.
\<close>

fun literal_key_of :: "literal \<Rightarrow> literal_key" where
  "literal_key_of NullLit = NullLitKey"
| "literal_key_of (BoolLit b) = BoolLitKey b"
| "literal_key_of (IntLit i) = IntLitKey i"
| "literal_key_of (UintLit i) = UintLitKey i"
| "literal_key_of (FloatLit bits) = FloatLitKey bits"
| "literal_key_of (StringLit s) = StringLitKey s"

lemma literal_key_of_inject [simp]: "literal_key_of a = literal_key_of b \<longleftrightarrow> a = b"
  by (cases a; cases b) auto

section \<open>Type descriptors\<close>

datatype shape_key =
    ShapeInt i64
  | ShapeUint u64
  | ShapeString atom
  | ShapeBool bool

datatype type_descriptor =
    WildcardT
  | MixedT
  | VoidT
  | NeverT
  | NullT
  | BoolT
  | IntT
  | UintT
  | FloatT
  | StringT
  | StringLengthT i64 "i64 option" \<comment> \<open>min, max\<close>
  | ObjectT
  | TrueLiteralT
  | FalseLiteralT
  | IntLiteralT i64
  | UintLiteralT u64
  | UintRangeT "u64 option" "u64 option" \<comment> \<open>min, max\<close>
  | IntRangeT "i64 option" "i64 option" \<comment> \<open>min, max\<close>
  | FloatLiteralT f64
  | StringLiteralT atom
  | NamedT atom "type_descriptor list option" bool \<comment> \<open>name, arguments, recursive\<close>
  | MemberT atom "type_descriptor list option" atom "type_descriptor list option"
      \<comment> \<open>class, class arguments, member, member arguments\<close>
  | ParameterT atom
  | StaticClassT
  | ArrayT "(type_descriptor \<times> type_descriptor) option"
  | VectorT "type_descriptor option"
  | VectorShapeT "type_descriptor list" "type_descriptor option" \<comment> \<open>elements, rest\<close>
  | DictionaryT "(type_descriptor \<times> type_descriptor) option"
  | DictionaryShapeT "(shape_key \<times> type_descriptor) list"
      "(type_descriptor \<times> type_descriptor) option" \<comment> \<open>entries, rest\<close>
  | CallableT "function_type_descriptor option"
  | ClassnameT type_descriptor
  | TupleT "type_descriptor list"
  | TupleRestT "type_descriptor list" type_descriptor \<comment> \<open>elements, rest\<close>
  | TupleAnyT
  | UnionT "type_descriptor list"
  | IntersectionT "type_descriptor list"
  | NegatedT type_descriptor
  | ObjectShapeT "(atom \<times> type_descriptor) list" bool \<comment> \<open>entries, open\<close>
  | FreshT
  and function_type_descriptor =
    FunctionTypeDescriptor "function_type_parameter list" type_descriptor
      \<comment> \<open>parameters, return type\<close>
  and function_type_parameter =
    FunctionTypeParameter type_descriptor bool \<comment> \<open>type, optional\<close>

subsection \<open>Normalising constructors\<close>

definition unsigned_integer_range :: "u64 option \<Rightarrow> u64 option \<Rightarrow> type_descriptor" where
  "unsigned_integer_range lo hi =
     (if (case (lo, hi) of (Some l, Some h) \<Rightarrow> l > h | _ \<Rightarrow> False) then NeverT
      else if (case lo of None \<Rightarrow> True | Some l \<Rightarrow> l = 0)
            \<and> (case hi of None \<Rightarrow> True | Some h \<Rightarrow> h = - 1) then UintT
      else case (lo, hi) of
             (Some l, Some h) \<Rightarrow> if l = h then UintLiteralT l else UintRangeT lo hi
           | _ \<Rightarrow> UintRangeT lo hi)"

text \<open>\<open>0x8000000000000000\<close> is the bit pattern of \<^verbatim>\<open>i64::MIN\<close>, its complement that of \<^verbatim>\<open>i64::MAX\<close>.\<close>

definition integer_range :: "i64 option \<Rightarrow> i64 option \<Rightarrow> type_descriptor" where
  "integer_range lo hi =
     (if (case (lo, hi) of (Some l, Some h) \<Rightarrow> sint l > sint h | _ \<Rightarrow> False) then NeverT
      else if (case lo of None \<Rightarrow> True | Some l \<Rightarrow> l = 0x8000000000000000)
            \<and> (case hi of None \<Rightarrow> True | Some h \<Rightarrow> h = 0x7FFFFFFFFFFFFFFF) then IntT
      else case (lo, hi) of
             (Some l, Some h) \<Rightarrow> if l = h then IntLiteralT l else IntRangeT lo hi
           | _ \<Rightarrow> IntRangeT lo hi)"

definition string_length :: "i64 \<Rightarrow> i64 option \<Rightarrow> type_descriptor" where
  "string_length lo hi =
     (if (case hi of None \<Rightarrow> False | Some h \<Rightarrow> sint lo > sint h) then NeverT
      else if lo = 0 \<and> hi = None then StringT
      else if lo = 0 \<and> hi = Some 0 then StringLiteralT ''''
      else StringLengthT lo hi)"

fun string_bounds :: "type_descriptor \<Rightarrow> (i64 \<times> i64 option) option" where
  "string_bounds StringT = Some (0, None)"
| "string_bounds (StringLengthT lo hi) = Some (lo, hi)"
| "string_bounds _ = None"

definition is_non_empty_string :: "type_descriptor \<Rightarrow> bool" where
  "is_non_empty_string d \<longleftrightarrow> d = NegatedT (StringLiteralT '''')"

text \<open>
  An intersection of a string type with \<open>!''\<close> becomes a string of length at least one; a
  one-element intersection is its element.
\<close>

definition intersection_singleton :: "type_descriptor list \<Rightarrow> type_descriptor" where
  "intersection_singleton members =
     (case members of [member] \<Rightarrow> member | _ \<Rightarrow> IntersectionT members)"

definition intersection :: "type_descriptor list \<Rightarrow> type_descriptor" where
  "intersection members =
     (case (find_position (\<lambda>m. string_bounds m \<noteq> None) members,
            find_position is_non_empty_string members) of
        (Some s, Some n) \<Rightarrow>
          (case string_bounds (members ! s) of
             Some (lo, hi) \<Rightarrow>
               if hi = Some 0 then NeverT
               else intersection_singleton
                 (remove_at (min s n) (remove_at (max s n) members)
                    @ [StringLengthT (if sint lo < 1 then 1 else lo) hi])
           | None \<Rightarrow> intersection_singleton members)
      | _ \<Rightarrow> intersection_singleton members)"

subsection \<open>Traversals\<close>

fun map_function_type ::
  "(type_descriptor \<Rightarrow> type_descriptor) \<Rightarrow> function_type_descriptor \<Rightarrow> function_type_descriptor"
  where
  "map_function_type f (FunctionTypeDescriptor parameters return_type) =
     FunctionTypeDescriptor
       (map (\<lambda>p. case p of FunctionTypeParameter t opt \<Rightarrow> FunctionTypeParameter (f t) opt) parameters)
       (f return_type)"

definition map_children ::
  "(type_descriptor \<Rightarrow> type_descriptor) \<Rightarrow> type_descriptor \<Rightarrow> type_descriptor" where
  "map_children f d =
     (case d of
        NamedT name arguments recursive \<Rightarrow> NamedT name (map_option (map f) arguments) recursive
      | MemberT class class_arguments member member_arguments \<Rightarrow>
          MemberT class (map_option (map f) class_arguments) member
            (map_option (map f) member_arguments)
      | ArrayT arguments \<Rightarrow> ArrayT (map_option (\<lambda>(k, v). (f k, f v)) arguments)
      | VectorT element \<Rightarrow> VectorT (map_option f element)
      | VectorShapeT elements rest \<Rightarrow> VectorShapeT (map f elements) (map_option f rest)
      | DictionaryT arguments \<Rightarrow> DictionaryT (map_option (\<lambda>(k, v). (f k, f v)) arguments)
      | ObjectShapeT entries opn \<Rightarrow> ObjectShapeT (map (\<lambda>(n, v). (n, f v)) entries) opn
      | DictionaryShapeT entries rest \<Rightarrow>
          DictionaryShapeT (map (\<lambda>(k, v). (k, f v)) entries)
            (map_option (\<lambda>(k, v). (f k, f v)) rest)
      | CallableT signature \<Rightarrow> CallableT (map_option (map_function_type f) signature)
      | ClassnameT inner \<Rightarrow> ClassnameT (f inner)
      | TupleT members \<Rightarrow> TupleT (map f members)
      | TupleRestT elements rest \<Rightarrow> TupleRestT (map f elements) (f rest)
      | UnionT members \<Rightarrow> UnionT (map f members)
      | IntersectionT members \<Rightarrow> intersection (map f members)
      | NegatedT inner \<Rightarrow> NegatedT (f inner)
      | _ \<Rightarrow> d)"

primrec is_resolved :: "type_descriptor \<Rightarrow> bool"
  and is_resolved_function :: "function_type_descriptor \<Rightarrow> bool"
  and is_resolved_parameter :: "function_type_parameter \<Rightarrow> bool" where
  "is_resolved WildcardT = True"
| "is_resolved MixedT = True"
| "is_resolved VoidT = True"
| "is_resolved NeverT = True"
| "is_resolved NullT = True"
| "is_resolved BoolT = True"
| "is_resolved IntT = True"
| "is_resolved UintT = True"
| "is_resolved FloatT = True"
| "is_resolved StringT = True"
| "is_resolved (StringLengthT _ _) = True"
| "is_resolved ObjectT = True"
| "is_resolved TrueLiteralT = True"
| "is_resolved FalseLiteralT = True"
| "is_resolved (IntLiteralT _) = True"
| "is_resolved (UintLiteralT _) = True"
| "is_resolved (UintRangeT _ _) = True"
| "is_resolved (IntRangeT _ _) = True"
| "is_resolved (FloatLiteralT _) = True"
| "is_resolved (StringLiteralT _) = True"
| "is_resolved (NamedT _ arguments _) =
     (case map_option (map is_resolved) arguments of None \<Rightarrow> True | Some rs \<Rightarrow> list_all id rs)"
| "is_resolved (MemberT _ class_arguments _ member_arguments) =
     ((case map_option (map is_resolved) class_arguments of
         None \<Rightarrow> True | Some rs \<Rightarrow> list_all id rs) \<and>
      (case map_option (map is_resolved) member_arguments of
         None \<Rightarrow> True | Some rs \<Rightarrow> list_all id rs))"
| "is_resolved (ParameterT _) = False"
| "is_resolved StaticClassT = False"
| "is_resolved (ArrayT arguments) =
     (case map_option (map_prod is_resolved is_resolved) arguments of
        None \<Rightarrow> True | Some (k, v) \<Rightarrow> k \<and> v)"
| "is_resolved (VectorT element) =
     (case map_option is_resolved element of None \<Rightarrow> True | Some r \<Rightarrow> r)"
| "is_resolved (VectorShapeT elements rest) =
     (list_all id (map is_resolved elements) \<and>
      (case map_option is_resolved rest of None \<Rightarrow> True | Some r \<Rightarrow> r))"
| "is_resolved (DictionaryT arguments) =
     (case map_option (map_prod is_resolved is_resolved) arguments of
        None \<Rightarrow> True | Some (k, v) \<Rightarrow> k \<and> v)"
| "is_resolved (DictionaryShapeT entries rest) =
     (list_all snd (map (map_prod id is_resolved) entries) \<and>
      (case map_option (map_prod is_resolved is_resolved) rest of
         None \<Rightarrow> True | Some (k, v) \<Rightarrow> k \<and> v))"
| "is_resolved (CallableT signature) =
     (case map_option is_resolved_function signature of None \<Rightarrow> True | Some r \<Rightarrow> r)"
| "is_resolved (ClassnameT inner) = is_resolved inner"
| "is_resolved (TupleT members) = list_all id (map is_resolved members)"
| "is_resolved (TupleRestT elements rest) =
     (list_all id (map is_resolved elements) \<and> is_resolved rest)"
| "is_resolved TupleAnyT = True"
| "is_resolved (UnionT members) = list_all id (map is_resolved members)"
| "is_resolved (IntersectionT members) = list_all id (map is_resolved members)"
| "is_resolved (NegatedT inner) = is_resolved inner"
| "is_resolved (ObjectShapeT entries _) = list_all snd (map (map_prod id is_resolved) entries)"
| "is_resolved FreshT = True"
| "is_resolved_function (FunctionTypeDescriptor parameters return_type) =
     (list_all id (map is_resolved_parameter parameters) \<and> is_resolved return_type)"
| "is_resolved_parameter (FunctionTypeParameter t _) = is_resolved t"

end
