(* ===== verification/Whim_Trivial.thy ===== *)
theory Whim_Trivial
  imports Whim_Descriptors
begin

text \<open>
  The trivial check of \<^verbatim>\<open>crates/bytecode/src/chunk/descriptors.rs\<close>: which descriptors hold no
  reference, which are decided by the shape of a value alone, and the check itself. The result
  \<open>None\<close> of a check says that it needs the class tables.
\<close>

section \<open>Classification of descriptors\<close>

primrec may_hold_reference :: "type_descriptor \<Rightarrow> bool"
  and may_hold_reference_function :: "function_type_descriptor \<Rightarrow> bool"
  and may_hold_reference_parameter :: "function_type_parameter \<Rightarrow> bool" where
  "may_hold_reference VoidT = False"
| "may_hold_reference NeverT = False"
| "may_hold_reference NullT = False"
| "may_hold_reference BoolT = False"
| "may_hold_reference IntT = False"
| "may_hold_reference UintT = False"
| "may_hold_reference FreshT = False"
| "may_hold_reference FloatT = False"
| "may_hold_reference TrueLiteralT = False"
| "may_hold_reference FalseLiteralT = False"
| "may_hold_reference (IntLiteralT _) = False"
| "may_hold_reference (IntRangeT _ _) = False"
| "may_hold_reference (UintLiteralT _) = False"
| "may_hold_reference (UintRangeT _ _) = False"
| "may_hold_reference (FloatLiteralT _) = False"
| "may_hold_reference (UnionT members) = list_ex id (map may_hold_reference members)"
| "may_hold_reference WildcardT = True"
| "may_hold_reference MixedT = True"
| "may_hold_reference StringT = True"
| "may_hold_reference (StringLengthT _ _) = True"
| "may_hold_reference ObjectT = True"
| "may_hold_reference (StringLiteralT _) = True"
| "may_hold_reference (NamedT _ _ _) = True"
| "may_hold_reference (MemberT _ _ _ _) = True"
| "may_hold_reference (ParameterT _) = True"
| "may_hold_reference StaticClassT = True"
| "may_hold_reference (ArrayT _) = True"
| "may_hold_reference (VectorT _) = True"
| "may_hold_reference (VectorShapeT _ _) = True"
| "may_hold_reference (DictionaryT _) = True"
| "may_hold_reference (DictionaryShapeT _ _) = True"
| "may_hold_reference (ObjectShapeT _ _) = True"
| "may_hold_reference (CallableT _) = True"
| "may_hold_reference (ClassnameT _) = True"
| "may_hold_reference (TupleT _) = True"
| "may_hold_reference (TupleRestT _ _) = True"
| "may_hold_reference TupleAnyT = True"
| "may_hold_reference (IntersectionT _) = True"
| "may_hold_reference (NegatedT _) = True"
| "may_hold_reference_function (FunctionTypeDescriptor _ _) = True"
| "may_hold_reference_parameter (FunctionTypeParameter _ _) = True"

text \<open>The two auxiliary functions above only close the mutual recursion of the datatype.\<close>

primrec descriptor_is_trivial :: "type_descriptor \<Rightarrow> bool"
  and descriptor_is_trivial_function :: "function_type_descriptor \<Rightarrow> bool"
  and descriptor_is_trivial_parameter :: "function_type_parameter \<Rightarrow> bool" where
  "descriptor_is_trivial WildcardT = True"
| "descriptor_is_trivial MixedT = True"
| "descriptor_is_trivial VoidT = True"
| "descriptor_is_trivial NeverT = True"
| "descriptor_is_trivial NullT = True"
| "descriptor_is_trivial BoolT = True"
| "descriptor_is_trivial IntT = True"
| "descriptor_is_trivial UintT = True"
| "descriptor_is_trivial FreshT = True"
| "descriptor_is_trivial FloatT = True"
| "descriptor_is_trivial StringT = True"
| "descriptor_is_trivial (StringLengthT _ _) = True"
| "descriptor_is_trivial ObjectT = True"
| "descriptor_is_trivial TrueLiteralT = True"
| "descriptor_is_trivial FalseLiteralT = True"
| "descriptor_is_trivial (IntLiteralT _) = True"
| "descriptor_is_trivial (IntRangeT _ _) = True"
| "descriptor_is_trivial (UintLiteralT _) = True"
| "descriptor_is_trivial (UintRangeT _ _) = True"
| "descriptor_is_trivial (FloatLiteralT _) = True"
| "descriptor_is_trivial (StringLiteralT _) = True"
| "descriptor_is_trivial TupleAnyT = True"
| "descriptor_is_trivial (ArrayT arguments) =
     (case arguments of None \<Rightarrow> True | Some (k, v) \<Rightarrow> k = WildcardT \<and> v = WildcardT)"
| "descriptor_is_trivial (DictionaryT arguments) =
     (case arguments of None \<Rightarrow> True | Some (k, v) \<Rightarrow> k = WildcardT \<and> v = WildcardT)"
| "descriptor_is_trivial (VectorT element) =
     (case element of None \<Rightarrow> True | Some e \<Rightarrow> e = WildcardT)"
| "descriptor_is_trivial (CallableT signature) = (signature = None)"
| "descriptor_is_trivial (NegatedT element) = descriptor_is_trivial element"
| "descriptor_is_trivial (VectorShapeT elements rest) =
     (list_all id (map descriptor_is_trivial elements) \<and>
      (case map_option descriptor_is_trivial rest of None \<Rightarrow> True | Some r \<Rightarrow> r))"
| "descriptor_is_trivial (DictionaryShapeT entries rest) =
     (list_all snd (map (map_prod id descriptor_is_trivial) entries) \<and>
      (case map_option (map_prod descriptor_is_trivial descriptor_is_trivial) rest of
         None \<Rightarrow> True | Some (k, v) \<Rightarrow> k \<and> v))"
| "descriptor_is_trivial (TupleT elements) = list_all id (map descriptor_is_trivial elements)"
| "descriptor_is_trivial (UnionT elements) = list_all id (map descriptor_is_trivial elements)"
| "descriptor_is_trivial (IntersectionT elements) =
     list_all id (map descriptor_is_trivial elements)"
| "descriptor_is_trivial (TupleRestT elements rest) =
     (list_all id (map descriptor_is_trivial elements) \<and> descriptor_is_trivial rest)"
| "descriptor_is_trivial (NamedT _ _ _) = False"
| "descriptor_is_trivial (MemberT _ _ _ _) = False"
| "descriptor_is_trivial (ParameterT _) = False"
| "descriptor_is_trivial StaticClassT = False"
| "descriptor_is_trivial (ClassnameT _) = False"
| "descriptor_is_trivial (ObjectShapeT entries opn) = (opn \<and> entries = [])"
| "descriptor_is_trivial_function (FunctionTypeDescriptor _ _) = False"
| "descriptor_is_trivial_parameter (FunctionTypeParameter _ _) = False"

section \<open>The check\<close>

definition string_length_matches :: "nat \<Rightarrow> i64 \<Rightarrow> i64 option \<Rightarrow> bool" where
  "string_length_matches len lo hi \<longleftrightarrow>
     len < 2 ^ 63 \<and> int len \<ge> sint lo \<and>
     (case hi of None \<Rightarrow> True | Some h \<Rightarrow> int len \<le> sint h)"

definition string_literal_matches :: "whim_value \<Rightarrow> atom \<Rightarrow> bool" where
  "string_literal_matches v expected \<longleftrightarrow>
     as_string_len v = Some (length expected) \<and> as_string_bytes v = Some expected"

definition shape_key_matches :: "shape_key \<Rightarrow> key \<Rightarrow> bool" where
  "shape_key_matches expected actual =
     (case (expected, actual) of
        (ShapeBool e, BoolKey a) \<Rightarrow> e = a
      | (ShapeInt e, IntKey a) \<Rightarrow> e = a
      | (ShapeUint e, UintKey a) \<Rightarrow> e = a
      | (ShapeString e, StringKey a) \<Rightarrow> e = a
      | (ShapeString e, ShortStringKey a) \<Rightarrow> e = a
      | _ \<Rightarrow> False)"

fun shape_key_ref :: "shape_key \<Rightarrow> key" where
  "shape_key_ref (ShapeBool k) = BoolKey k"
| "shape_key_ref (ShapeInt k) = IntKey k"
| "shape_key_ref (ShapeUint k) = UintKey k"
| "shape_key_ref (ShapeString k) = StringKey k"

text \<open>A loop that returns \<open>Some(false)\<close> at the first failing check and passes \<open>None\<close> on.\<close>

fun check_each :: "('a \<Rightarrow> bool option) \<Rightarrow> 'a list \<Rightarrow> bool option" where
  "check_each check [] = Some True"
| "check_each check (x # xs) =
     (case check x of
        None \<Rightarrow> None
      | Some False \<Rightarrow> Some False
      | Some True \<Rightarrow> check_each check xs)"

definition check_sequence_shape ::
  "(type_descriptor \<Rightarrow> whim_value \<Rightarrow> bool option) \<Rightarrow>
   type_descriptor list \<Rightarrow> type_descriptor option \<Rightarrow> whim_value list option \<Rightarrow> bool option" where
  "check_sequence_shape check elements rest values =
     (case values of
        None \<Rightarrow> Some False
      | Some vs \<Rightarrow>
          if length vs < length elements \<or> rest = None \<and> length vs \<noteq> length elements
          then Some False
          else (case check_each (\<lambda>(d, v). check d v) (zip elements vs) of
                  Some True \<Rightarrow>
                    (case rest of
                       None \<Rightarrow> Some True
                     | Some r \<Rightarrow> check_each (check r) (drop (length elements) vs))
                | result \<Rightarrow> result))"

definition check_vector_shape ::
  "(type_descriptor \<Rightarrow> whim_value \<Rightarrow> bool option) \<Rightarrow>
   type_descriptor list \<Rightarrow> type_descriptor option \<Rightarrow> whim_value \<Rightarrow> bool option" where
  "check_vector_shape check elements rest v = check_sequence_shape check elements rest (as_vec v)"

definition check_tuple_shape ::
  "(type_descriptor \<Rightarrow> whim_value \<Rightarrow> bool option) \<Rightarrow>
   type_descriptor list \<Rightarrow> type_descriptor option \<Rightarrow> whim_value \<Rightarrow> bool option" where
  "check_tuple_shape check elements rest v = check_sequence_shape check elements rest (as_tuple v)"

definition check_dictionary_shape ::
  "(type_descriptor \<Rightarrow> whim_value \<Rightarrow> bool option) \<Rightarrow>
   (shape_key \<times> type_descriptor) list \<Rightarrow> (type_descriptor \<times> type_descriptor) option \<Rightarrow>
   whim_value \<Rightarrow> bool option" where
  "check_dictionary_shape check entries rest v =
     (case as_dict v of
        None \<Rightarrow> Some False
      | Some dictionary \<Rightarrow>
          if length dictionary < length entries
             \<or> rest = None \<and> length dictionary \<noteq> length entries
          then Some False
          else (case check_each
                       (\<lambda>(k, d). case dict_get dictionary (shape_key_ref k) of
                                    None \<Rightarrow> Some False
                                  | Some element \<Rightarrow> check d element)
                       entries of
                  Some True \<Rightarrow>
                    (case rest of
                       None \<Rightarrow> Some True
                     | Some (key_descriptor, value_descriptor) \<Rightarrow>
                         check_each
                           (\<lambda>(k, element).
                              if list_ex (\<lambda>(expected, _). shape_key_matches expected k) entries
                              then Some True
                              else (case check key_descriptor (key_to_value k) of
                                      None \<Rightarrow> None
                                    | Some False \<Rightarrow> Some False
                                    | Some True \<Rightarrow> check value_descriptor element))
                           dictionary)
                | result \<Rightarrow> result))"

text \<open>The members of a union or intersection, with the flag \<open>undecided\<close> of the loop.\<close>

fun check_descriptor_members ::
  "(type_descriptor \<Rightarrow> whim_value \<Rightarrow> bool option) \<Rightarrow>
   type_descriptor list \<Rightarrow> whim_value \<Rightarrow> bool \<Rightarrow> bool \<Rightarrow> bool option" where
  "check_descriptor_members check [] v short_circuit undecided =
     (if undecided then None else Some (\<not> short_circuit))"
| "check_descriptor_members check (m # ms) v short_circuit undecided =
     (case check m v of
        Some result \<Rightarrow>
          if result = short_circuit then Some result
          else check_descriptor_members check ms v short_circuit undecided
      | None \<Rightarrow> check_descriptor_members check ms v short_circuit True)"

subsection \<open>Congruence rules for the recursion\<close>

lemma check_each_cong [fundef_cong]:
  assumes "xs = ys" "\<And>x. x \<in> set ys \<Longrightarrow> f x = g x"
  shows "check_each f xs = check_each g ys"
  unfolding assms(1) using assms(2) by (induction ys) (auto split: option.splits bool.splits)

lemma check_sequence_shape_cong [fundef_cong]:
  assumes "es = es'" "r = r'" "vs = vs'"
    "\<And>d v. d \<in> set es' \<Longrightarrow> f d v = g d v" "\<And>d v. r' = Some d \<Longrightarrow> f d v = g d v"
  shows "check_sequence_shape f es r vs = check_sequence_shape g es' r' vs'"
proof -
  have "check_each (\<lambda>(d, v). f d v) (zip es' ws) = check_each (\<lambda>(d, v). g d v) (zip es' ws)" for ws
    by (rule check_each_cong) (auto simp: assms(4) dest: set_zip_leftD)
  then show ?thesis
    using assms(5) unfolding assms(1-3) check_sequence_shape_def
    by (auto split: option.splits bool.splits intro!: check_each_cong)
qed

lemma check_vector_shape_cong [fundef_cong]:
  assumes "es = es'" "r = r'" "v = v'"
    "\<And>d v. d \<in> set es' \<Longrightarrow> f d v = g d v" "\<And>d v. r' = Some d \<Longrightarrow> f d v = g d v"
  shows "check_vector_shape f es r v = check_vector_shape g es' r' v'"
  unfolding check_vector_shape_def by (rule check_sequence_shape_cong) (use assms in auto)

lemma check_tuple_shape_cong [fundef_cong]:
  assumes "es = es'" "r = r'" "v = v'"
    "\<And>d v. d \<in> set es' \<Longrightarrow> f d v = g d v" "\<And>d v. r' = Some d \<Longrightarrow> f d v = g d v"
  shows "check_tuple_shape f es r v = check_tuple_shape g es' r' v'"
  unfolding check_tuple_shape_def by (rule check_sequence_shape_cong) (use assms in auto)

lemma check_dictionary_shape_cong [fundef_cong]:
  assumes "es = es'" "r = r'" "v = v'"
    "\<And>k d v. (k, d) \<in> set es' \<Longrightarrow> f d v = g d v"
    "\<And>kd vd v. r' = Some (kd, vd) \<Longrightarrow> f kd v = g kd v"
    "\<And>kd vd v. r' = Some (kd, vd) \<Longrightarrow> f vd v = g vd v"
  shows "check_dictionary_shape f es r v = check_dictionary_shape g es' r' v'"
proof -
  have "check_each (\<lambda>(k, d). case dict_get ws (shape_key_ref k) of None \<Rightarrow> Some False
                                  | Some element \<Rightarrow> f d element) es'
      = check_each (\<lambda>(k, d). case dict_get ws (shape_key_ref k) of None \<Rightarrow> Some False
                                  | Some element \<Rightarrow> g d element) es'" for ws
    by (rule check_each_cong) (auto simp: assms(4) split: option.splits)
  then show ?thesis
    using assms(5,6) unfolding assms(1-3) check_dictionary_shape_def
    by (cases r') (auto split: option.splits bool.splits intro!: check_each_cong)
qed

lemma check_descriptor_members_cong [fundef_cong]:
  assumes "ms = ms'" "v = v'" "s = s'" "u = u'" "\<And>d v. d \<in> set ms' \<Longrightarrow> f d v = g d v"
  shows "check_descriptor_members f ms v s u = check_descriptor_members g ms' v' s' u'"
  unfolding assms(1-4) using assms(5)
  by (induction ms' arbitrary: u') (auto split: option.splits)

subsection \<open>check\_trivial\_descriptor\<close>

definition in_int_range :: "i64 option \<Rightarrow> i64 option \<Rightarrow> i64 \<Rightarrow> bool" where
  "in_int_range lo hi i \<longleftrightarrow>
     (case lo of None \<Rightarrow> True | Some l \<Rightarrow> sint i \<ge> sint l) \<and>
     (case hi of None \<Rightarrow> True | Some h \<Rightarrow> sint i \<le> sint h)"

definition in_uint_range :: "u64 option \<Rightarrow> u64 option \<Rightarrow> u64 \<Rightarrow> bool" where
  "in_uint_range lo hi i \<longleftrightarrow>
     (case lo of None \<Rightarrow> True | Some l \<Rightarrow> i \<ge> l) \<and>
     (case hi of None \<Rightarrow> True | Some h \<Rightarrow> i \<le> h)"

text \<open>An array view of a known element type is decided only where there is no element.\<close>

definition check_empty :: "bool option \<Rightarrow> bool option" where
  "check_empty is_empty =
     (case is_empty of Some True \<Rightarrow> Some True | Some False \<Rightarrow> None | None \<Rightarrow> Some False)"

definition array_emptiness :: "whim_value \<Rightarrow> bool option" where
  "array_emptiness v =
     (case as_vec v of
        Some xs \<Rightarrow> Some (xs = [])
      | None \<Rightarrow>
          (case as_dict v of
             Some es \<Rightarrow> Some (es = [])
           | None \<Rightarrow> map_option (\<lambda>xs. xs = []) (as_tuple v)))"

function check_trivial_descriptor :: "type_descriptor \<Rightarrow> whim_value \<Rightarrow> bool option" where
  "check_trivial_descriptor WildcardT v = Some True"
| "check_trivial_descriptor MixedT v = Some True"
| "check_trivial_descriptor VoidT v = Some False"
| "check_trivial_descriptor NeverT v = Some False"
| "check_trivial_descriptor NullT v = Some (is_null v)"
| "check_trivial_descriptor BoolT v = Some (is_bool v)"
| "check_trivial_descriptor IntT v = Some (is_int v)"
| "check_trivial_descriptor UintT v = Some (is_uint v)"
| "check_trivial_descriptor FreshT v = Some (is_fresh v)"
| "check_trivial_descriptor FloatT v = Some (is_float v)"
| "check_trivial_descriptor StringT v = Some (is_string v)"
| "check_trivial_descriptor (StringLengthT lo hi) v =
     Some (case as_string_len v of
             None \<Rightarrow> False | Some len \<Rightarrow> string_length_matches len lo hi)"
| "check_trivial_descriptor ObjectT v = Some (is_object v)"
| "check_trivial_descriptor (ObjectShapeT entries opn) v =
     (if opn \<and> entries = [] then Some (is_object v) else None)"
| "check_trivial_descriptor TrueLiteralT v = Some (as_bool v = Some True)"
| "check_trivial_descriptor FalseLiteralT v = Some (as_bool v = Some False)"
| "check_trivial_descriptor (IntLiteralT expected) v = Some (as_int_value v = Some expected)"
| "check_trivial_descriptor (IntRangeT lo hi) v =
     Some (case as_int_value v of None \<Rightarrow> False | Some i \<Rightarrow> in_int_range lo hi i)"
| "check_trivial_descriptor (UintLiteralT expected) v = Some (as_uint_value v = Some expected)"
| "check_trivial_descriptor (UintRangeT lo hi) v =
     Some (case as_uint_value v of None \<Rightarrow> False | Some i \<Rightarrow> in_uint_range lo hi i)"
| "check_trivial_descriptor (FloatLiteralT expected) v =
     Some (case as_float v of None \<Rightarrow> False | Some f \<Rightarrow> f64_eq f expected)"
| "check_trivial_descriptor (StringLiteralT expected) v = Some (string_literal_matches v expected)"
| "check_trivial_descriptor (ArrayT arguments) v =
     (case arguments of
        None \<Rightarrow> Some (is_vec v \<or> is_dict v \<or> is_tuple v)
      | Some (k, e) \<Rightarrow>
          if k = WildcardT \<and> e = WildcardT then Some (is_vec v \<or> is_dict v \<or> is_tuple v)
          else check_empty (array_emptiness v))"
| "check_trivial_descriptor (VectorT element) v =
     (case element of
        None \<Rightarrow> Some (is_vec v)
      | Some e \<Rightarrow>
          if e = WildcardT then Some (is_vec v)
          else check_empty (map_option (\<lambda>xs. xs = []) (as_vec v)))"
| "check_trivial_descriptor (VectorShapeT elements rest) v =
     check_vector_shape check_trivial_descriptor elements rest v"
| "check_trivial_descriptor (DictionaryT arguments) v =
     (case arguments of
        None \<Rightarrow> Some (is_dict v)
      | Some (k, e) \<Rightarrow>
          if k = WildcardT \<and> e = WildcardT then Some (is_dict v)
          else check_empty (map_option (\<lambda>es. es = []) (as_dict v)))"
| "check_trivial_descriptor (DictionaryShapeT entries rest) v =
     check_dictionary_shape check_trivial_descriptor entries rest v"
| "check_trivial_descriptor (CallableT signature) v =
     (if signature = None then Some (is_function v) else None)"
| "check_trivial_descriptor TupleAnyT v = Some (is_tuple v)"
| "check_trivial_descriptor (TupleT elements) v =
     check_tuple_shape check_trivial_descriptor elements None v"
| "check_trivial_descriptor (TupleRestT elements rest) v =
     check_tuple_shape check_trivial_descriptor elements (Some rest) v"
| "check_trivial_descriptor (NegatedT inner) v =
     map_option Not (check_trivial_descriptor inner v)"
| "check_trivial_descriptor (UnionT members) v =
     check_descriptor_members check_trivial_descriptor members v True False"
| "check_trivial_descriptor (IntersectionT members) v =
     check_descriptor_members check_trivial_descriptor members v False False"
| "check_trivial_descriptor (NamedT _ _ _) v = None"
| "check_trivial_descriptor (MemberT _ _ _ _) v = None"
| "check_trivial_descriptor (ParameterT _) v = None"
| "check_trivial_descriptor StaticClassT v = None"
| "check_trivial_descriptor (ClassnameT _) v = None"
  by pat_completeness auto

lemma size_member_snd: "(k, d) \<in> set xs \<Longrightarrow> size d < size_list (size_prod (\<lambda>_. 0) size) xs"
  by (induction xs) auto

lemma size_member: "d \<in> set xs \<Longrightarrow> size d \<le> size_list size xs"
  by (induction xs) auto

termination check_trivial_descriptor
  by (relation "measure (size \<circ> fst)")
    (auto simp: less_Suc_eq_le size_list_estimation' intro: trans_le_add1 size_member
      le_trans [OF less_imp_le [OF size_member_snd]])

section \<open>What the check decides\<close>

lemma check_each_Some:
  assumes "\<And>x. x \<in> set xs \<Longrightarrow> \<exists>b. f x = Some b"
  shows "\<exists>b. check_each f xs = Some b"
  using assms by (induction xs) (force split: option.splits bool.splits)+

lemma check_each_True:
  "check_each f xs = Some True \<longleftrightarrow> (\<forall>x\<in>set xs. f x = Some True)"
  by (induction xs) (auto split: option.splits bool.splits)

lemma check_sequence_shape_Some:
  assumes "\<And>d v. d \<in> set es \<Longrightarrow> \<exists>b. f d v = Some b" "\<And>d v. r = Some d \<Longrightarrow> \<exists>b. f d v = Some b"
  shows "\<exists>b. check_sequence_shape f es r vs = Some b"
proof (cases vs)
  case None
  then show ?thesis by (auto simp: check_sequence_shape_def)
next
  case (Some ws)
  obtain b where b: "check_each (\<lambda>(d, v). f d v) (zip es ws) = Some b"
    using check_each_Some [of "zip es ws" "\<lambda>(d, v). f d v"] assms(1)
    by (fastforce dest: set_zip_leftD)
  have "\<exists>c. check_each (f d) us = Some c" if "r = Some d" for d us
    by (rule check_each_Some) (rule assms(2) [OF that])
  with Some b show ?thesis
    by (cases b; cases r) (auto simp: check_sequence_shape_def)
qed

lemma check_dictionary_shape_Some:
  assumes "\<And>k d v. (k, d) \<in> set es \<Longrightarrow> \<exists>b. f d v = Some b"
    "\<And>kd vd v. r = Some (kd, vd) \<Longrightarrow> \<exists>b. f kd v = Some b"
    "\<And>kd vd v. r = Some (kd, vd) \<Longrightarrow> \<exists>b. f vd v = Some b"
  shows "\<exists>b. check_dictionary_shape f es r v = Some b"
proof (cases "as_dict v")
  case None
  then show ?thesis by (auto simp: check_dictionary_shape_def)
next
  case (Some ws)
  let ?entry = "\<lambda>(k, d). case dict_get ws (shape_key_ref k) of None \<Rightarrow> Some False
                  | Some element \<Rightarrow> f d element"
  have "\<exists>b. ?entry x = Some b" if "x \<in> set es" for x
  proof -
    obtain k d where "x = (k, d)" by (cases x)
    with that assms(1) [of k d] show ?thesis by (auto split: option.splits)
  qed
  then obtain b where b: "check_each ?entry es = Some b"
    using check_each_Some [of es ?entry] by blast
  have "\<exists>c. check_each (\<lambda>(k, element).
            if list_ex (\<lambda>(expected, _). shape_key_matches expected k) es then Some True
            else (case f kd (key_to_value k) of None \<Rightarrow> None
                    | Some False \<Rightarrow> Some False
                    | Some True \<Rightarrow> f vd element)) ws = Some c" if r: "r = Some (kd, vd)" for kd vd
  proof (rule check_each_Some, clarify)
    fix k element
    obtain b1 b2 where "f kd (key_to_value k) = Some b1" "f vd element = Some b2"
      using assms(2,3) [OF r] by blast
    then show "\<exists>c. (if list_ex (\<lambda>(expected, _). shape_key_matches expected k) es
            then Some True
            else (case f kd (key_to_value k) of None \<Rightarrow> None
                    | Some False \<Rightarrow> Some False
                    | Some True \<Rightarrow> f vd element)) = Some c"
      by (cases b1) auto
  qed
  with Some b show ?thesis
    by (cases b; cases r) (auto simp: check_dictionary_shape_def)
qed

lemma check_descriptor_members_Some:
  assumes "\<And>m. m \<in> set ms \<Longrightarrow> \<exists>b. f m v = Some b"
  shows "\<exists>b. check_descriptor_members f ms v s False = Some b"
  using assms by (induction ms) (force split: option.splits)+

text \<open>The check decides every descriptor that \<open>descriptor_is_trivial\<close> accepts.\<close>

lemma check_trivial_decides:
  "descriptor_is_trivial d \<Longrightarrow> \<exists>b. check_trivial_descriptor d v = Some b"
proof (induction d v rule: check_trivial_descriptor.induct)
  case (25 elements rest v)
  then show ?case
    by (auto simp: check_vector_shape_def list_all_iff split: option.splits
        intro!: check_sequence_shape_Some)
next
  case (27 entries rest v)
  then show ?case
    by (auto simp: list_all_iff split: option.splits intro!: check_dictionary_shape_Some)
next
  case (30 elements v)
  then show ?case
    by (auto simp: check_tuple_shape_def list_all_iff intro!: check_sequence_shape_Some)
next
  case (31 elements rest v)
  then show ?case
    by (auto simp: check_tuple_shape_def list_all_iff intro!: check_sequence_shape_Some)
next
  case (33 members v)
  then show ?case
    by (auto simp: list_all_iff intro!: check_descriptor_members_Some)
next
  case (34 members v)
  then show ?case
    by (auto simp: list_all_iff intro!: check_descriptor_members_Some)
qed (auto split: option.splits)

section \<open>Unions and intersections\<close>

text \<open>
  The loop over the members computes a three-valued disjunction or conjunction, whatever the
  order of the members.
\<close>

lemma check_descriptor_members_iff:
  "check_descriptor_members f ms v s u =
     (if \<exists>m\<in>set ms. f m v = Some s then Some s
      else if u \<or> (\<exists>m\<in>set ms. f m v = None) then None
      else Some (\<not> s))"
  by (induction ms arbitrary: u) (auto split: option.splits)

text \<open>A descriptor that cannot hold a reference admits only inline scalars.\<close>

lemma reference_free_check:
  "\<not> may_hold_reference d \<Longrightarrow> check_trivial_descriptor d v = Some True \<Longrightarrow>
   \<not> is_reference_counted v"
proof (induction d v rule: check_trivial_descriptor.induct)
  case (33 members v)
  then show ?case
    by (auto simp: list_ex_iff check_descriptor_members_iff split: if_splits)
qed (auto simp: value_tests value_accessors is_reference_counted_def
    split: value_payload.splits if_splits)

section \<open>The normalising constructors keep the meaning\<close>

lemma sint_inject [simp]: "sint a = sint b \<longleftrightarrow> a = b"
  by (auto intro: signed_word_eqI)

lemma sint_min_i64: "- 9223372036854775808 \<le> sint (i :: i64)"
  using sint_ge [of i] by simp

lemma sint_max_i64: "sint (i :: i64) \<le> 9223372036854775807"
  using sint_lt [of i] by simp

lemma check_integer_range:
  "check_trivial_descriptor (integer_range lo hi) v = check_trivial_descriptor (IntRangeT lo hi) v"
proof (cases "as_int_value v")
  case None
  then show ?thesis
    by (cases lo; cases hi)
      (auto simp: integer_range_def is_int_def as_int_value_def split: value_payload.splits)
next
  case (Some i)
  then have "is_int v" by (auto simp: is_int_def as_int_value_def split: value_payload.splits)
  moreover have "sint l \<le> sint i \<and> sint i \<le> sint l \<longleftrightarrow> i = l" for l
    using sint_inject [of i l] by linarith
  ultimately show ?thesis
    using Some sint_min_i64 [of i] sint_max_i64 [of i]
    by (cases lo; cases hi) (auto simp: integer_range_def in_int_range_def)
qed

lemma check_unsigned_integer_range:
  "check_trivial_descriptor (unsigned_integer_range lo hi) v =
   check_trivial_descriptor (UintRangeT lo hi) v"
proof (cases "as_uint_value v")
  case None
  then show ?thesis
    by (cases lo; cases hi)
      (auto simp: unsigned_integer_range_def is_uint_def as_uint_value_def
        split: value_payload.splits)
next
  case (Some i)
  then have "is_uint v" by (auto simp: is_uint_def as_uint_value_def split: value_payload.splits)
  moreover have "l \<le> i \<and> i \<le> l \<longleftrightarrow> i = l" for l
    by auto
  moreover have "0 \<le> i" "i \<le> - 1"
    by (rule word_zero_le, rule word_n1_ge)
  ultimately show ?thesis
    using Some
    by (cases lo; cases hi) (auto simp: unsigned_integer_range_def in_uint_range_def)
qed

text \<open>
  A string never has more than \<^verbatim>\<open>isize::MAX\<close> bytes, the bound of every allocation of the language.
\<close>

definition addressable :: "whim_value \<Rightarrow> bool" where
  "addressable v \<longleftrightarrow> (case as_string_len v of None \<Rightarrow> True | Some len \<Rightarrow> len < 2 ^ 63)"

lemma check_string_length:
  assumes "addressable v"
  shows "check_trivial_descriptor (string_length lo hi) v =
    check_trivial_descriptor (StringLengthT lo hi) v"
proof (cases "as_string_bytes v")
  case None
  then show ?thesis
    by (auto simp: string_length_def as_string_len_def is_string_bytes string_literal_matches_def)
next
  case (Some bytes)
  moreover have "length bytes < 2 ^ 63"
    using assms Some by (simp add: addressable_def as_string_len_def)
  ultimately show ?thesis
    by (cases hi)
      (auto simp: string_length_def as_string_len_def is_string_bytes string_literal_matches_def
        string_length_matches_def)
qed

lemma check_intersection_singleton:
  "check_trivial_descriptor (intersection_singleton ms) v =
   check_trivial_descriptor (IntersectionT ms) v"
proof (cases "\<exists>m. ms = [m]")
  case True
  then obtain m where "ms = [m]" by blast
  then show ?thesis
    by (cases "check_trivial_descriptor m v")
      (auto simp: intersection_singleton_def check_descriptor_members_iff)
next
  case False
  then show ?thesis by (auto simp: intersection_singleton_def split: list.splits)
qed

text \<open>
  The length a string must have to satisfy both a string type and \<open>!''\<close> is the one the merged
  descriptor asks for.
\<close>

lemma check_merged_string:
  assumes "addressable v" "string_bounds d = Some (lo, hi)"
  shows "check_trivial_descriptor (StringLengthT (if sint lo < 1 then 1 else lo) hi) v =
     Some (check_trivial_descriptor d v = Some True \<and>
           check_trivial_descriptor (NegatedT (StringLiteralT '''')) v = Some True)"
proof (cases "as_string_bytes v")
  case None
  with assms(2) show ?thesis
    by (cases d) (auto simp: as_string_len_def is_string_bytes)
next
  case (Some bytes)
  moreover have "length bytes < 2 ^ 63"
    using assms(1) Some by (simp add: addressable_def as_string_len_def)
  moreover have "bytes = [] \<longleftrightarrow> int (length bytes) < 1" by auto
  ultimately show ?thesis
    using assms(2)
    by (cases d)
      (auto simp: as_string_len_def is_string_bytes string_literal_matches_def
        string_length_matches_def Suc_le_eq)
qed
lemma string_bounds_decided:
  "string_bounds d \<noteq> None \<Longrightarrow> \<exists>b. check_trivial_descriptor d v = Some b"
  by (cases d) auto

lemma check_members_merge:
  assumes "set ms = insert d (insert n (set rest))" "set ms' = insert l (set rest)"
    and "f d v = Some a" "f n v = Some b" "f l v = Some (a \<and> b)"
  shows "check_descriptor_members f ms v False False = check_descriptor_members f ms' v False False"
  using assms by (auto simp: check_descriptor_members_iff)

lemma set_remove_two:
  assumes "s < length ms" "n < length ms" "s \<noteq> n"
  shows "set ms = insert (ms ! s) (insert (ms ! n)
    (set (remove_at (min s n) (remove_at (max s n) ms))))"
proof -
  have bounds: "min s n < max s n" "max s n < length ms" using assms by auto
  have "set ms = insert (ms ! max s n) (set (remove_at (max s n) ms))"
    by (rule set_remove_at) (rule bounds(2))
  also have "set (remove_at (max s n) ms) =
      insert (ms ! min s n) (set (remove_at (min s n) (remove_at (max s n) ms)))"
    using set_remove_at [OF nth_remove_at(2) [OF bounds(2,1)]] nth_remove_at(1) [OF bounds(2,1)]
    by simp
  finally show ?thesis
    by (cases "s < n") (auto simp: min_def max_def)
qed

lemma check_intersection:
  assumes "addressable v"
  shows "check_trivial_descriptor (intersection ms) v =
    check_trivial_descriptor (IntersectionT ms) v"
proof (cases "\<exists>s n. find_position (\<lambda>m. string_bounds m \<noteq> None) ms = Some s \<and>
    find_position is_non_empty_string ms = Some n")
  case False
  then show ?thesis
    by (auto simp: intersection_def check_intersection_singleton
        simp del: check_trivial_descriptor.simps split: option.splits)
next
  case True
  then obtain s n where s: "find_position (\<lambda>m. string_bounds m \<noteq> None) ms = Some s"
    and n: "find_position is_non_empty_string ms = Some n"
    by blast
  from s n have lt: "s < length ms" "n < length ms" by (auto simp: find_position_Some)
  from s obtain lo hi where b: "string_bounds (ms ! s) = Some (lo, hi)"
    by (auto simp: find_position_Some)
  from n have neg: "ms ! n = NegatedT (StringLiteralT '''')"
    by (simp add: find_position_Some is_non_empty_string_def)
  with b have "s \<noteq> n" by auto
  note split = set_remove_two [OF lt this]
  obtain a where a: "check_trivial_descriptor (ms ! s) v = Some a"
    using string_bounds_decided b by force
  obtain c where c: "check_trivial_descriptor (ms ! n) v = Some c" by (simp add: neg)
  note merged = check_merged_string [OF assms b]
  let ?l = "StringLengthT (if sint lo < 1 then 1 else lo) hi"
  have l: "check_trivial_descriptor ?l v = Some (a \<and> c)"
    using merged a c neg by simp
  show ?thesis
  proof (cases "hi = Some 0")
    case True
    then have "check_trivial_descriptor ?l v = Some False"
      by (auto simp: string_length_matches_def split: option.splits)
    with l have "\<not> a \<or> \<not> c" by simp
    moreover have "ms ! s \<in> set ms" "ms ! n \<in> set ms" using lt by auto
    ultimately have "\<exists>m\<in>set ms. check_trivial_descriptor m v = Some False"
      using a c by (cases a) auto
    then show ?thesis
      using True s n b by (simp add: intersection_def check_descriptor_members_iff)
  next
    case False
    let ?rest = "remove_at (min s n) (remove_at (max s n) ms)"
    have "intersection ms = intersection_singleton (?rest @ [?l])"
      using False s n b by (simp add: intersection_def)
    moreover have "check_descriptor_members check_trivial_descriptor ms v False False =
        check_descriptor_members check_trivial_descriptor (?rest @ [?l]) v False False"
      by (rule check_members_merge [where rest = ?rest and l = ?l and d = "ms ! s" and n = "ms ! n" and f = check_trivial_descriptor and v = v and a = a and b = c and ms = ms]) (use split a c l in simp_all)
    ultimately show ?thesis by (simp add: check_intersection_singleton)
  qed
qed

section \<open>Properties\<close>

text \<open>C25. A descriptor classified as trivial is decided by the value alone: the check of any value
  against it returns an answer, it never asks for the declarations of a program.\<close>

theorem trivial_descriptor_decided:
  assumes "descriptor_is_trivial d"
  shows "\<exists>b. check_trivial_descriptor d v = Some b"
  by (rule check_trivial_decides [OF assms])

theorem trivial_descriptor_decided_witness:
  "\<exists>b. check_trivial_descriptor (UnionT [IntT, NullT]) (untagged NullV) = Some b"
  by (rule trivial_descriptor_decided) simp

text \<open>C26. When a descriptor is classified as holding no reference, no value that passes its check
  is reference counted, so skipping the release of such a register leaks nothing.\<close>

theorem reference_free_descriptor:
  assumes "\<not> may_hold_reference d" "check_trivial_descriptor d v = Some True"
  shows "\<not> is_reference_counted v"
  by (rule reference_free_check [OF assms])

theorem reference_free_descriptor_witness: "\<not> is_reference_counted (untagged NullV)"
  by (rule reference_free_descriptor [of NullT]) (simp_all add: is_null_def untagged_def)

text \<open>Normalising an intersection (dropping it for a single member, merging a string length with
  a non-empty string into one range) accepts and rejects the same values as the intersection of the
  given members, and is undecided on the same values.\<close>

theorem intersection_normalised:
  assumes "addressable v"
  shows "check_trivial_descriptor (intersection ms) v =
    check_trivial_descriptor (IntersectionT ms) v"
  by (rule check_intersection [OF assms])

theorem intersection_normalised_witness:
  "check_trivial_descriptor (intersection [StringT, NegatedT (StringLiteralT '''')]) (untagged NullV)
     = check_trivial_descriptor (IntersectionT [StringT, NegatedT (StringLiteralT '''')])
         (untagged NullV)"
  by (rule intersection_normalised) (simp add: addressable_def as_string_len_def as_string_bytes_def untagged_def)

text \<open>The constructors of integer ranges collapse ranges to simpler descriptors (a single value
  to a literal, the full range to the type, an empty one to the bottom type) without changing the
  values they accept, for signed and for unsigned integers.\<close>

theorem integer_ranges_normalised:
  "check_trivial_descriptor (integer_range lo hi) v = check_trivial_descriptor (IntRangeT lo hi) v \<and>
   check_trivial_descriptor (unsigned_integer_range ulo uhi) v
     = check_trivial_descriptor (UintRangeT ulo uhi) v"
  by (simp add: check_integer_range check_unsigned_integer_range)

text \<open>The constructor of string length ranges changes no answer either.\<close>

theorem string_length_normalised:
  assumes "addressable v"
  shows "check_trivial_descriptor (string_length lo hi) v
    = check_trivial_descriptor (StringLengthT lo hi) v"
  by (rule check_string_length [OF assms])

theorem string_length_normalised_witness:
  "check_trivial_descriptor (string_length 0 (Some 0)) (untagged NullV)
     = check_trivial_descriptor (StringLengthT 0 (Some 0)) (untagged NullV)"
  by (rule string_length_normalised) (simp add: addressable_def as_string_len_def as_string_bytes_def untagged_def)

end
