(* ===== verification/Whim_Tables.thy ===== *)
theory Whim_Tables
  imports Whim_Descriptors
begin

unbundle bit_operations_syntax

text \<open>
  The side-table entries of a chunk (\<^verbatim>\<open>crates/bytecode/src/chunk/descriptors.rs\<close>) and the string
  switch, a hash table with linear probing over the arms of a match. The hash \<^verbatim>\<open>xxh3_64\<close> comes from
  the crate \<^verbatim>\<open>xxhash_rust\<close>; it is an argument \<open>xxh3\<close> of the definitions, and nothing is assumed
  about it. \<^verbatim>\<open>usize\<close> has 64 bits.
\<close>

section \<open>Side-table entries\<close>

datatype class_descriptor =
    NamedClass atom
  | ParameterClass atom
  | LateStaticClass

datatype callee_descriptor =
    ValueCallee
  | FunctionCallee
  | MethodCallee atom
  | StaticMethodCallee "class_descriptor option" atom \<comment> \<open>class, name\<close>

record call_descriptor =
  callee :: callee_descriptor
  positional :: u8
  named :: "atom list"

text \<open>A jump table; every target is an offset relative to the switch instruction.\<close>

datatype switch_table =
    IntTable i64 "u32 list" u32 \<comment> \<open>base, targets, default\<close>
  | StringTable "(atom \<times> u32) list" "u32 list" u32 \<comment> \<open>arms, buckets, default\<close>
  | StringByteTable u8 "u32 list" u32 \<comment> \<open>base, targets, default\<close>
  | PatternTable "type_descriptor list" "u32 list" u32 \<comment> \<open>descriptors, targets, default\<close>
  | DictionaryShapeTable "shape_key list" "type_descriptor list list" "u32 list" u32
      \<comment> \<open>keys, patterns, targets, default\<close>
  | BoolTable "u32 list" u32 \<comment> \<open>targets, default\<close>
  | FloatTable "f64 list" "u32 list" u32 \<comment> \<open>values, targets, default\<close>

datatype preset_slot =
    GivenPositional
  | HolePositional
  | GivenNamed atom
  | HoleNamed atom

record preset_descriptor =
  preset_callee :: callee_descriptor
  slots :: "preset_slot list"
  open_remaining :: bool
  preset_type_arguments :: "type_descriptor list option"

record catch_entry =
  catch_start :: u32
  catch_end :: u32
  handler :: u32
  catch_type_descriptor :: descriptor_index
  temporary_floor :: u16
  binding :: "register option"

datatype ic_descriptor =
    MemberIc atom "type_descriptor list option" \<comment> \<open>name, type arguments\<close>
  | ClassIc class_descriptor "type_descriptor list option" \<comment> \<open>class, type arguments\<close>
  | ClassMemberIc class_descriptor atom "type_descriptor list option"
      \<comment> \<open>class, member, type arguments\<close>
  | PublicPropertyIc atom

record prepared_int_loop_descriptor =
  prepared_comparison :: comparison
  prepared_counter :: register
  prepared_limit :: register
  float_registers :: u64

record int_step_loop_descriptor =
  step_comparison :: comparison
  step_counter :: register
  step_limit :: register
  step_register :: register

record float_squares_sum_branch_descriptor =
  sum_destination :: register
  first_square_destination :: register
  second_square_destination :: register
  squares_first_source :: register
  squares_second_source :: register
  squares_comparison :: comparison
  squares_constant :: constant_index

record float_pair_update_descriptor =
  pair_first_destination :: register
  pair_first_operand :: register
  pair_constant :: constant_index
  pair_second_destination :: register
  pair_second_operand :: register
  pair_second_addend :: register

record property_initialization_entry =
  entry_value :: register
  entry_slot :: property_slot
  entry_value_mode :: property_value_mode

record property_initialization_descriptor =
  allocates :: bool
  initialization_entries :: "property_initialization_entry list"

section \<open>The string switch\<close>

definition string_switch_bucket :: "(string \<Rightarrow> u64) \<Rightarrow> string \<Rightarrow> nat \<Rightarrow> nat" where
  "string_switch_bucket xxh3 value mask_value = unat (xxh3 value) AND mask_value"

text \<open>The smallest power of two that is at least \<open>n\<close>, by doubling from \<open>k\<close>.\<close>

function next_power_from :: "nat \<Rightarrow> nat \<Rightarrow> nat" where
  "next_power_from k n = (if k = 0 \<or> n \<le> k then k else next_power_from (2 * k) n)"
  by pat_completeness auto
termination
  by (relation "measure (\<lambda>(k, n). n - k)") auto

declare next_power_from.simps [simp del]

definition next_power_of_two :: "nat \<Rightarrow> nat" where
  "next_power_of_two n = next_power_from 1 n"

text \<open>The loop that looks for an empty bucket; it returns only where it finds one.\<close>

partial_function (option) empty_bucket :: "u32 list \<Rightarrow> nat \<Rightarrow> nat \<Rightarrow> nat option" where
  "empty_bucket buckets mask_value bucket =
     (if length buckets \<le> bucket then None
      else if buckets ! bucket = 0 then Some bucket
      else empty_bucket buckets mask_value ((bucket + 1) AND mask_value))"

fun insert_arms ::
  "(string \<Rightarrow> u64) \<Rightarrow> nat \<Rightarrow> nat \<Rightarrow> (atom \<times> u32) list \<Rightarrow> u32 list \<Rightarrow> u32 list option" where
  "insert_arms xxh3 mask_value index [] buckets = Some buckets"
| "insert_arms xxh3 mask_value index ((value, _) # arms) buckets =
     (case u32_index (index + 1) of
        Inl _ \<Rightarrow> None
      | Inr entry \<Rightarrow>
          (case empty_bucket buckets mask_value (string_switch_bucket xxh3 value mask_value) of
             None \<Rightarrow> None
           | Some bucket \<Rightarrow>
               insert_arms xxh3 mask_value (index + 1) arms (buckets[bucket := entry])))"

definition string_switch_buckets :: "(string \<Rightarrow> u64) \<Rightarrow> (atom \<times> u32) list \<Rightarrow> u32 list option" where
  "string_switch_buckets xxh3 arms =
     (let width = 2 * next_power_of_two (max (length arms) 1)
      in insert_arms xxh3 (width - 1) 0 arms (replicate width 0))"

fun lookup_from ::
  "(atom \<times> u32) list \<Rightarrow> u32 list \<Rightarrow> nat \<Rightarrow> string \<Rightarrow> nat \<Rightarrow> nat \<Rightarrow> nat option" where
  "lookup_from arms buckets mask_value value 0 bucket = None"
| "lookup_from arms buckets mask_value value (Suc n) bucket =
     (case list_get buckets bucket of
        None \<Rightarrow> None
      | Some entry \<Rightarrow>
          if entry = 0 then None
          else (case list_get arms (unat entry - 1) of
                  None \<Rightarrow> None
                | Some (arm, _) \<Rightarrow>
                    if arm = value then Some (unat entry - 1)
                    else lookup_from arms buckets mask_value value n ((bucket + 1) AND mask_value)))"

definition string_switch_lookup ::
  "(string \<Rightarrow> u64) \<Rightarrow> (atom \<times> u32) list \<Rightarrow> u32 list \<Rightarrow> string \<Rightarrow> nat option" where
  "string_switch_lookup xxh3 arms buckets value =
     (if buckets = [] then None
      else lookup_from arms buckets (length buckets - 1) value (length buckets)
             (string_switch_bucket xxh3 value (length buckets - 1)))"

section \<open>Linear probing\<close>

subsection \<open>Powers of two\<close>

lemma next_power_from_ge: "0 < k \<Longrightarrow> n \<le> next_power_from k n"
proof (induction k n rule: next_power_from.induct)
  case (1 k n)
  then show ?case by (cases "n \<le> k") (auto simp: next_power_from.simps [of k n])
qed

lemma next_power_from_power: "\<exists>e. next_power_from (2 ^ i) n = 2 ^ e"
proof (induction "2 ^ i :: nat" n arbitrary: i rule: next_power_from.induct)
  case (1 n)
  show ?case
  proof (cases "n \<le> 2 ^ i")
    case True
    then show ?thesis by (auto simp: next_power_from.simps [of "2 ^ i" n])
  next
    case False
    with 1 [of "Suc i"] show ?thesis by (simp add: next_power_from.simps [of "2 ^ i" n])
  qed
qed

lemma next_power_of_two: "n \<le> next_power_of_two n" "\<exists>e. next_power_of_two n = 2 ^ e"
  unfolding next_power_of_two_def
  using next_power_from_ge [of 1 n] next_power_from_power [of 0 n] by simp_all

lemma and_mask_mod:
  "(n :: nat) AND (2 ^ e - 1) = n mod 2 ^ e" "(n :: nat) AND (2 ^ e - Suc 0) = n mod 2 ^ e"
  using take_bit_eq_mask [of e n] by (simp_all add: mask_eq_exp_minus_1 take_bit_eq_mod)

subsection \<open>Insertion\<close>

lemma empty_bucket_at:
  assumes "length T = 2 ^ e" "b < 2 ^ e"
    and "T ! ((b + t) mod 2 ^ e) = 0" "\<forall>j<t. T ! ((b + j) mod 2 ^ e) \<noteq> 0"
  shows "empty_bucket T (2 ^ e - 1) b = Some ((b + t) mod 2 ^ e)"
  using assms(2-4)
proof (induction t arbitrary: b)
  case 0
  with assms(1) show ?case by (subst empty_bucket.simps) simp
next
  case (Suc t)
  define b' where "b' = (b + 1) mod 2 ^ e"
  have shift: "(b' + j) mod 2 ^ e = (b + Suc j) mod 2 ^ e" for j
    by (simp add: b'_def mod_simps)
  have "b' < 2 ^ e" by (simp add: b'_def)
  then have "empty_bucket T (2 ^ e - 1) b' = Some ((b + Suc t) mod 2 ^ e)"
    unfolding shift [symmetric]
    by (rule Suc.IH) (use Suc.prems in \<open>auto simp: shift simp del: add_Suc_right\<close>)
  moreover from Suc.prems have "T ! b \<noteq> 0"
    by (metis add_0_right mod_less zero_less_Suc)
  ultimately show ?case
    using assms(1) Suc.prems(1)
    by (subst empty_bucket.simps) (simp add: and_mask_mod b'_def del: add_Suc_right)
qed

lemma empty_bucket_returns:
  assumes "length T = 2 ^ e" "b < 2 ^ e" "p < 2 ^ e" "T ! p = 0"
  obtains t where "t < 2 ^ e" "empty_bucket T (2 ^ e - 1) b = Some ((b + t) mod 2 ^ e)"
    "T ! ((b + t) mod 2 ^ e) = 0" "\<forall>j<t. T ! ((b + j) mod 2 ^ e) \<noteq> 0"
proof -
  let ?P = "\<lambda>t. T ! ((b + t) mod 2 ^ e) = 0"
  have "(b + (p + 2 ^ e - b)) mod 2 ^ e = p"
    using assms(2,3) by simp
  then have "?P ((p + 2 ^ e - b) mod 2 ^ e)"
    using assms(4) by (simp add: mod_add_right_eq)
  then have ex: "?P ((p + 2 ^ e - b) mod 2 ^ e)" .
  define t where "t = (LEAST t. ?P t)"
  have "?P t" unfolding t_def by (rule LeastI [where P = ?P, OF ex])
  moreover have least: "\<forall>j<t. \<not> ?P j" unfolding t_def using not_less_Least by blast
  moreover have "t < 2 ^ e"
    using Least_le [where P = ?P, OF ex] unfolding t_def
    by (meson le_less_trans mod_less_divisor zero_less_numeral zero_less_power)
  moreover have "empty_bucket T (2 ^ e - 1) b = Some ((b + t) mod 2 ^ e)"
    using assms(1,2) \<open>?P t\<close> least by (intro empty_bucket_at) auto
  ultimately show ?thesis using that by blast
qed

text \<open>
  The invariant of the table after \<open>k\<close> arms: arm \<open>i\<close> sits \<open>t\<close> places after its home bucket, and
  the places before it hold arms that were inserted before it.
\<close>

definition probe_inv :: "(nat \<Rightarrow> nat) \<Rightarrow> nat \<Rightarrow> u32 list \<Rightarrow> nat \<Rightarrow> bool" where
  "probe_inv home w T k \<longleftrightarrow>
     length T = w \<and> card {p. p < w \<and> T ! p \<noteq> 0} \<le> k \<and> (\<forall>p<w. unat (T ! p) \<le> k) \<and>
     (\<forall>i<k. \<exists>t<w. unat (T ! ((home i + t) mod w)) = Suc i \<and>
        (\<forall>j<t. T ! ((home i + j) mod w) \<noteq> 0 \<and> unat (T ! ((home i + j) mod w)) \<le> i))"

lemma probe_inv_empty: "probe_inv home w (replicate w 0) 0"
  by (auto simp: probe_inv_def)

lemma probe_inv_has_empty:
  assumes "probe_inv home w T k" "k < w"
  shows "\<exists>p<w. T ! p = 0"
proof (rule ccontr)
  assume "\<not> ?thesis"
  then have "{p. p < w \<and> T ! p \<noteq> 0} = {..<w}" by auto
  with assms show False by (simp add: probe_inv_def)
qed

lemma probe_inv_insert:
  assumes inv: "probe_inv home w T k" and k: "Suc k < 2 ^ 32" and home: "home k < w"
    and t: "t < w" "T ! ((home k + t) mod w) = 0" "\<forall>j<t. T ! ((home k + j) mod w) \<noteq> 0"
  shows "probe_inv home w (T[(home k + t) mod w := of_nat (Suc k)]) (Suc k)"
    (is "probe_inv home w ?T (Suc k)")
proof -
  let ?q = "(home k + t) mod w"
  have w: "0 < w" using home by simp
  have q: "?q < w" using w by simp
  have len: "length T = w" and card: "card {p. p < w \<and> T ! p \<noteq> 0} \<le> k"
    and bound: "\<And>p. p < w \<Longrightarrow> unat (T ! p) \<le> k"
    using inv by (auto simp: probe_inv_def)
  have entry: "unat (of_nat (Suc k) :: u32) = Suc k" using k by (rule unat_of_nat_u32)
  have new: "?T ! p = (if p = ?q then of_nat (Suc k) else T ! p)" if "p < w" for p
    using that len by (auto simp: nth_list_update)
  have "{p. p < w \<and> ?T ! p \<noteq> 0} \<subseteq> insert ?q {p. p < w \<and> T ! p \<noteq> 0}"
    using new by auto
  then have "card {p. p < w \<and> ?T ! p \<noteq> 0} \<le> card (insert ?q {p. p < w \<and> T ! p \<noteq> 0})"
    by (intro card_mono) auto
  also have "\<dots> \<le> Suc k" using card by (simp add: card_insert_if)
  finally have c: "card {p. p < w \<and> ?T ! p \<noteq> 0} \<le> Suc k" .
  have old: "?T ! p = T ! p" if "p < w" "T ! p \<noteq> 0" for p
    using that t(2) new by auto
  have m: "x mod w < w" for x using w by simp
  have "\<exists>t<w. unat (?T ! ((home i + t) mod w)) = Suc i \<and>
        (\<forall>j<t. ?T ! ((home i + j) mod w) \<noteq> 0 \<and> unat (?T ! ((home i + j) mod w)) \<le> i)"
    if i: "i < Suc k" for i
  proof (cases "i = k")
    case True
    have "?T ! ((home k + j) mod w) \<noteq> 0 \<and> unat (?T ! ((home k + j) mod w)) \<le> k" if "j < t" for j
      using t(3) that old [OF m] bound [OF m] by auto
    then show ?thesis using True t(1) new [OF q] entry by auto
  next
    case False
    with i have "i < k" by simp
    with inv obtain s where s: "s < w" "unat (T ! ((home i + s) mod w)) = Suc i"
      "\<And>j. j < s \<Longrightarrow> T ! ((home i + j) mod w) \<noteq> 0 \<and> unat (T ! ((home i + j) mod w)) \<le> i"
      unfolding probe_inv_def by blast
    from s(2) have "T ! ((home i + s) mod w) \<noteq> 0" by auto
    with s old [OF m] show ?thesis by auto
  qed
  moreover have "unat (?T ! p) \<le> Suc k" if "p < w" for p
    using new [OF that] entry bound [OF that] by (auto simp: le_Suc_eq)
  ultimately show ?thesis
    using c len by (simp add: probe_inv_def)
qed
lemma insert_arms_inv:
  assumes "probe_inv home (2 ^ e) T k" "k + length arms < 2 ^ 32" "k + length arms < 2 ^ e"
    and "\<And>i. i < length arms \<Longrightarrow>
      home (k + i) = string_switch_bucket xxh3 (fst (arms ! i)) (2 ^ e - 1)"
  shows "\<exists>T'. insert_arms xxh3 (2 ^ e - 1) k arms T = Some T' \<and>
    probe_inv home (2 ^ e) T' (k + length arms)"
  using assms
proof (induction arms arbitrary: k T)
  case Nil
  then show ?case by simp
next
  case (Cons arm arms)
  obtain v o' where arm: "arm = (v, o')" by (cases arm)
  have home: "home k = string_switch_bucket xxh3 v (2 ^ e - 1)"
    using Cons.prems(4) [of 0] arm by simp
  have lt: "home k < 2 ^ e"
    by (simp add: home string_switch_bucket_def and_mask_mod)
  obtain p where "p < 2 ^ e" "T ! p = 0"
    using probe_inv_has_empty [OF Cons.prems(1)] Cons.prems(3) by auto
  moreover have "length T = 2 ^ e" using Cons.prems(1) by (simp add: probe_inv_def)
  ultimately obtain t where t: "t < 2 ^ e"
      "empty_bucket T (2 ^ e - 1) (home k) = Some ((home k + t) mod 2 ^ e)"
      "T ! ((home k + t) mod 2 ^ e) = 0" "\<forall>j<t. T ! ((home k + j) mod 2 ^ e) \<noteq> 0"
    using empty_bucket_returns lt by metis
  let ?T = "T[(home k + t) mod 2 ^ e := of_nat (Suc k)]"
  have "probe_inv home (2 ^ e) ?T (Suc k)"
    using Cons.prems(1,2) lt t by (intro probe_inv_insert) auto
  moreover have "home (Suc k + i) = string_switch_bucket xxh3 (fst (arms ! i)) (2 ^ e - 1)"
    if "i < length arms" for i
    using Cons.prems(4) [of "Suc i"] that by simp
  ultimately obtain T' where T': "insert_arms xxh3 (2 ^ e - 1) (Suc k) arms ?T = Some T'"
      "probe_inv home (2 ^ e) T' (Suc k + length arms)"
    using Cons.IH [of ?T "Suc k"] Cons.prems(2,3) by auto
  have "u32_index (Suc k) = Inr (of_nat (Suc k))"
    using Cons.prems(2) by (simp add: u32_index_def)
  then show ?case
    unfolding arm insert_arms.simps home [symmetric] t(2) using T'
    by (simp add: u32_index_def del: of_nat_Suc)
qed

subsection \<open>Lookup\<close>

lemma lookup_from_found:
  assumes "length T = 2 ^ e" "b < 2 ^ e" "t < n"
    and "\<And>j. j < t \<Longrightarrow> T ! ((b + j) mod 2 ^ e) \<noteq> 0 \<and>
      (\<exists>i<length arms. unat (T ! ((b + j) mod 2 ^ e)) = Suc i \<and> fst (arms ! i) \<noteq> v)"
    and "unat (T ! ((b + t) mod 2 ^ e)) = Suc i" "i < length arms" "fst (arms ! i) = v"
  shows "lookup_from arms T (2 ^ e - 1) v n b = Some i"
  using assms(2-5)
proof (induction t arbitrary: b n)
  case 0
  then obtain m where "n = Suc m" by (cases n) auto
  moreover have "T ! b \<noteq> 0" using 0 by auto
  ultimately show ?case
    using 0 assms(1,6,7) by (auto simp: list_get_def split: prod.splits)
next
  case (Suc t)
  then obtain m where m: "n = Suc m" by (cases n) auto
  define b' where "b' = (b + 1) mod 2 ^ e"
  have shift: "(b' + j) mod 2 ^ e = (b + Suc j) mod 2 ^ e" for j
    by (simp add: b'_def mod_simps)
  have "b' < 2 ^ e" by (simp add: b'_def)
  then have "lookup_from arms T (2 ^ e - 1) v m b' = Some i"
    by (rule Suc.IH) (use Suc.prems m in \<open>auto simp: shift simp del: add_Suc_right\<close>)
  moreover obtain i' where "i' < length arms" "unat (T ! b) = Suc i'" "fst (arms ! i') \<noteq> v"
      "T ! b \<noteq> 0"
    using Suc.prems(3) [of 0] Suc.prems(1) by auto
  ultimately show ?case
    using assms(1) Suc.prems(1) 
    by (auto simp: m list_get_def and_mask_mod b'_def split: prod.splits)
qed

lemma lookup_from_absent:
  assumes "\<And>i. i < length arms \<Longrightarrow> fst (arms ! i) \<noteq> v"
  shows "lookup_from arms T m v n b = None"
proof (induction n arbitrary: b)
  case (Suc n)
  have "arms ! i \<noteq> (v, x)" if "i < length arms" for i x
    using assms [OF that] by auto
  with Suc show ?case by (auto split: option.splits)
qed simp

text \<open>The switch finds the first arm with the value asked for, and nothing where there is none.\<close>

lemma string_switch_correct:
  assumes "length arms < 2 ^ 32 - 1"
  shows "\<exists>T. string_switch_buckets xxh3 arms = Some T \<and>
    (\<forall>v. string_switch_lookup xxh3 arms T v = find_position (\<lambda>(arm, _). arm = v) arms)"
proof -
  let ?base = "next_power_of_two (max (length arms) 1)"
  obtain e0 where e0: "?base = 2 ^ e0" using next_power_of_two(2) by blast
  define e where "e = Suc e0"
  have w: "2 * ?base = 2 ^ e" unfolding e_def e0 by simp
  have "length arms < 2 ^ e"
    using next_power_of_two(1) [of "max (length arms) 1"] w by simp
  define home where "home = (\<lambda>i. string_switch_bucket xxh3 (fst (arms ! i)) (2 ^ e - 1))"
  obtain T where T: "insert_arms xxh3 (2 ^ e - 1) 0 arms (replicate (2 ^ e) 0) = Some T"
      and inv: "probe_inv home (2 ^ e) T (length arms)"
    using insert_arms_inv [OF probe_inv_empty, of arms e home xxh3] assms \<open>length arms < 2 ^ e\<close>
    by (auto simp: home_def)
  have buckets: "string_switch_buckets xxh3 arms = Some T"
    unfolding string_switch_buckets_def Let_def w by (rule T)
  have len: "length T = 2 ^ e" using inv by (simp add: probe_inv_def)
  have "string_switch_lookup xxh3 arms T v = find_position (\<lambda>(arm, _). arm = v) arms" for v
  proof (cases "find_position (\<lambda>(arm, _). arm = v) arms")
    case None
    then have "fst (arms ! i) \<noteq> v" if "i < length arms" for i
      using nth_mem [OF that] by (auto simp: find_position_None)
    with None show ?thesis
      by (simp add: string_switch_lookup_def lookup_from_absent)
  next
    case (Some i)
    then have i: "i < length arms" "fst (arms ! i) = v"
      and first: "\<And>j. j < i \<Longrightarrow> fst (arms ! j) \<noteq> v"
      by (auto simp: find_position_Some split_beta)
    obtain t where t: "t < 2 ^ e" "unat (T ! ((home i + t) mod 2 ^ e)) = Suc i"
      "\<And>j. j < t \<Longrightarrow> T ! ((home i + j) mod 2 ^ e) \<noteq> 0 \<and> unat (T ! ((home i + j) mod 2 ^ e)) \<le> i"
      using inv i(1) unfolding probe_inv_def by blast
    have "\<exists>i'<length arms. unat (T ! ((home i + j) mod 2 ^ e)) = Suc i' \<and> fst (arms ! i') \<noteq> v"
      if j: "j < t" for j
    proof -
      obtain i' where "unat (T ! ((home i + j) mod 2 ^ e)) = Suc i'"
        using t(3) [OF j] by (metis not0_implies_Suc unat_eq_0)
      with t(3) [OF j] first [of i'] i(1) show ?thesis by auto
    qed
    moreover have "home i < 2 ^ e"
      by (simp add: home_def string_switch_bucket_def and_mask_mod)
    ultimately have "lookup_from arms T (2 ^ e - 1) v (2 ^ e) (home i) = Some i"
      using lookup_from_found [OF len, of "home i" t "2 ^ e" arms v i] t i by blast
    then show ?thesis
      using Some i len by (auto simp: string_switch_lookup_def home_def)
  qed
  with buckets show ?thesis by blast
qed

section \<open>Properties\<close>

text \<open>C18. The open-addressing table of a string switch dispatches like a linear search of its arms:
  building it returns for every number of arms its 32-bit entries can hold, and whatever the hash
  function, the probe finds the first arm equal to the subject and nothing when there is none.\<close>

theorem string_switch_dispatch:
  assumes "length arms < 2 ^ 32 - 1"
  shows "\<exists>T. string_switch_buckets xxh3 arms = Some T \<and>
    (\<forall>v. string_switch_lookup xxh3 arms T v = find_position (\<lambda>(arm, _). arm = v) arms)"
  by (rule string_switch_correct [OF assms])

theorem string_switch_dispatch_witness:
  "\<exists>T. string_switch_buckets (\<lambda>_. 0) [(''a'', 1), (''b'', 2)] = Some T \<and>
     string_switch_lookup (\<lambda>_. 0) [(''a'', 1), (''b'', 2)] T ''b'' = Some 1"
  using string_switch_dispatch [of "[(''a'', 1), (''b'', 2)]" "\<lambda>_. 0"] by auto

end
