(* ===== verification/Whim_Span.thy ===== *)
theory Whim_Span
  imports Whim_Prelude
begin

text \<open>
  Byte positions, spans and line tables of one source file (\<^verbatim>\<open>crates/span\<close>). Offsets are 32-bit
  and saturate. The byte searches of the crate \<^verbatim>\<open>memchr\<close> return the positions of a byte in
  increasing order and are written out as a scan.
\<close>

section \<open>Positions and spans\<close>

record position =
  position_offset :: u32

record span =
  span_start :: position
  span_end :: position

definition saturating_add :: "u32 \<Rightarrow> u32 \<Rightarrow> u32" where
  "saturating_add a b = (if unat a + unat b < 2 ^ 32 then a + b else - 1)"

definition saturating_sub :: "u32 \<Rightarrow> u32 \<Rightarrow> u32" where
  "saturating_sub a b = (if b \<le> a then a - b else 0)"

definition position_zero :: position where
  "position_zero = \<lparr>position_offset = 0\<rparr>"

definition is_zero :: "position \<Rightarrow> bool" where
  "is_zero p \<longleftrightarrow> position_offset p = 0"

definition forward :: "position \<Rightarrow> u32 \<Rightarrow> position" where
  "forward p n = \<lparr>position_offset = saturating_add (position_offset p) n\<rparr>"

definition backward :: "position \<Rightarrow> u32 \<Rightarrow> position" where
  "backward p n = \<lparr>position_offset = saturating_sub (position_offset p) n\<rparr>"

definition range_for :: "position \<Rightarrow> u32 \<Rightarrow> u32 \<times> u32" where
  "range_for p len = (position_offset p, saturating_add (position_offset p) len)"

definition span_zero :: span where
  "span_zero = \<lparr>span_start = position_zero, span_end = position_zero\<rparr>"

definition join :: "span \<Rightarrow> span \<Rightarrow> span" where
  "join a b =
     \<lparr>span_start =
        (if position_offset (span_start a) \<le> position_offset (span_start b) then span_start a else span_start b),
      span_end =
        (if position_offset (span_end a) \<ge> position_offset (span_end b) then span_end a else span_end b)\<rparr>"

definition has_offset :: "span \<Rightarrow> u32 \<Rightarrow> bool" where
  "has_offset s n \<longleftrightarrow> position_offset (span_start s) \<le> n \<and> n < position_offset (span_end s)"

definition contains :: "span \<Rightarrow> position \<Rightarrow> bool" where
  "contains s p = has_offset s (position_offset p)"

definition to_range :: "span \<Rightarrow> u32 \<times> u32" where
  "to_range s = (position_offset (span_start s), position_offset (span_end s))"

section \<open>Lines\<close>

text \<open>
  \<open>partition_point\<close> on a sorted slice is the number of leading elements that satisfy the
  predicate.
\<close>

definition line_of :: "u32 list \<Rightarrow> u32 \<Rightarrow> u32" where
  "line_of line_starts n =
     (if line_starts = [] then 0
      else of_nat (length (takeWhile (\<lambda>start. start \<le> n) line_starts)))"

fun byte_positions :: "char \<Rightarrow> nat \<Rightarrow> string \<Rightarrow> nat list" where
  "byte_positions b i [] = []"
| "byte_positions b i (c # cs) =
     (if c = b then i # byte_positions b (Suc i) cs else byte_positions b (Suc i) cs)"

definition CR :: char where "CR = CHR 0x0D"

definition LF :: char where "LF = CHR 0x0A"

definition line_starts_of :: "string \<Rightarrow> u32 list" where
  "line_starts_of source =
     0 # (case find_position (\<lambda>c. c = CR \<or> c = LF) source of
            None \<Rightarrow> []
          | Some first \<Rightarrow>
              if source ! first = CR \<and> list_get source (first + 1) \<noteq> Some LF
              then map (\<lambda>pos. of_nat (pos + 1)) (byte_positions CR 0 source)
              else map (\<lambda>pos. of_nat (pos + 1)) (byte_positions LF 0 source))"

section \<open>Properties\<close>

lemma unat_saturating_add: "unat (saturating_add a b) = min (unat a + unat b) (2 ^ 32 - 1)"
proof (cases "unat a + unat b < 2 ^ 32")
  case True
  then show ?thesis by (simp add: saturating_add_def unat_word_ariths)
next
  case False
  moreover have "unat (- 1 :: u32) = 2 ^ 32 - 1"
    by (simp add: unsigned_minus_1_eq_mask mask_eq_exp_minus_1)
  ultimately show ?thesis by (simp add: saturating_add_def)
qed

lemma unat_saturating_sub: "unat (saturating_sub a b) = unat a - unat b"
  by (auto simp: saturating_sub_def unat_sub word_le_nat_alt)

lemma join_covers: "has_offset a n \<or> has_offset b n \<Longrightarrow> has_offset (join a b) n"
  by (auto simp: join_def has_offset_def)

lemma join_least:
  assumes "\<And>n. has_offset a n \<Longrightarrow> has_offset c n" "\<And>n. has_offset b n \<Longrightarrow> has_offset c n"
    and "position_offset (span_start a) < position_offset (span_end a)" "position_offset (span_start b) < position_offset (span_end b)"
    and "has_offset (join a b) n"
  shows "has_offset c n"
proof -
  have a: "position_offset (span_start c) \<le> position_offset (span_start a)"
    using assms(1) [of "position_offset (span_start a)"] assms(3) by (auto simp: has_offset_def)
  have b: "position_offset (span_start c) \<le> position_offset (span_start b)"
    using assms(2) [of "position_offset (span_start b)"] assms(4) by (auto simp: has_offset_def)
  have last: "x - 1 < x \<and> y \<le> x - 1" if "y < x" for x y :: u32
    using that by (auto simp: word_less_nat_alt word_le_nat_alt unat_sub_if')
  have a': "position_offset (span_end a) \<le> position_offset (span_end c)"
    using assms(1) [of "position_offset (span_end a) - 1"] assms(3) last [OF assms(3)]
    by (auto simp: has_offset_def word_less_nat_alt word_le_nat_alt unat_sub_if' split: if_splits)
  have b': "position_offset (span_end b) \<le> position_offset (span_end c)"
    using assms(2) [of "position_offset (span_end b) - 1"] assms(4) last [OF assms(4)]
    by (auto simp: has_offset_def word_less_nat_alt word_le_nat_alt unat_sub_if' split: if_splits)
  show ?thesis
    using assms(5) a b a' b' by (auto simp: has_offset_def join_def split: if_splits)
qed

lemma byte_positions_bounds:
  "p \<in> set (byte_positions b i cs) \<Longrightarrow> i \<le> p \<and> p < i + length cs"
  by (induction cs arbitrary: i) (fastforce split: if_splits)+

lemma byte_positions_sorted: "sorted_wrt (<) (byte_positions b i cs)"
  by (induction cs arbitrary: i) (auto dest: byte_positions_bounds)

lemma byte_positions_iff:
  "p \<in> set (byte_positions b i cs) \<longleftrightarrow> i \<le> p \<and> p < i + length cs \<and> cs ! (p - i) = b"
proof (induction cs arbitrary: i)
  case (Cons c cs)
  show ?case
  proof (cases "p = i")
    case True
    then show ?thesis by (auto simp: Cons dest: byte_positions_bounds)
  next
    case False
    then show ?thesis by (cases "i \<le> p") (auto simp: Cons nth_Cons' Suc_le_eq)
  qed
qed simp

lemma line_of_takeWhile:
  assumes "length line_starts < 2 ^ 32" "line_starts \<noteq> []"
  shows "unat (line_of line_starts n) = length (takeWhile (\<lambda>start. start \<le> n) line_starts)"
proof -
  have "length (takeWhile (\<lambda>start. start \<le> n) line_starts) < 2 ^ 32"
    using assms(1) length_takeWhile_le [of "\<lambda>start. start \<le> n" line_starts] by linarith
  then show ?thesis using assms(2) by (simp add: line_of_def)
qed

section \<open>Joins and lines\<close>

text \<open>Joining two spans covers both of them and nothing that is not forced: every offset of
  either is in the join, and any span that covers two non-empty ones covers their join.\<close>

theorem join_least_cover:
  "(has_offset a n \<or> has_offset b n \<longrightarrow> has_offset (join a b) n) \<and>
   ((\<forall>k. has_offset a k \<or> has_offset b k \<longrightarrow> has_offset c k) \<and>
    position_offset (span_start a) < position_offset (span_end a) \<and>
    position_offset (span_start b) < position_offset (span_end b) \<and>
    has_offset (join a b) n \<longrightarrow> has_offset c n)"
  using join_covers join_least by blast

lemma takeWhile_sorted_length:
  "sorted_wrt (<) xs \<Longrightarrow> length (takeWhile (\<lambda>x. x < (n :: nat)) xs) = length (filter (\<lambda>x. x < n) xs)"
  by (induction xs) (auto simp: filter_empty_conv)

lemma length_byte_positions_below:
  "length (filter (\<lambda>p. p < n) (byte_positions b i cs)) =
   length (filter (\<lambda>c. c = b) (take (n - i) cs))"
proof (induction cs arbitrary: i)
  case (Cons c cs)
  have "n - Suc i = n - i - 1"
    by simp
  moreover have "filter (\<lambda>p. p < n) (byte_positions b (Suc i) cs) = []" if "n \<le> i"
    using that by (auto simp: filter_empty_conv dest: byte_positions_bounds)
  ultimately show ?case
    by (simp add: take_Cons' Cons.IH)
qed simp

lemma byte_positions_none: "b \<notin> set cs \<Longrightarrow> byte_positions b i cs = []"
  by (induction cs arbitrary: i) auto

lemma line_starts_single:
  assumes "(brk = LF \<and> CR \<notin> set source) \<or> (brk = CR \<and> LF \<notin> set source)"
  shows "line_starts_of source = 0 # map (\<lambda>p. of_nat (p + 1)) (byte_positions brk 0 source)"
proof (cases "find_position (\<lambda>c. c = CR \<or> c = LF) source")
  case None
  then have "byte_positions brk 0 source = []"
    using assms by (auto simp: find_position_None intro: byte_positions_none)
  with None show ?thesis
    by (simp add: line_starts_of_def)
next
  case (Some first)
  then have "first < length source" "source ! first = CR \<or> source ! first = LF"
    by (auto simp: find_position_Some)
  moreover have "list_get source i \<noteq> Some LF" if "brk = CR" for i
    using assms that nth_mem [of i source]
    by (auto simp: list_get_def CR_def LF_def simp del: nth_mem split: if_splits)
  moreover have "source ! first \<noteq> CR" if "brk = LF"
    using assms that nth_mem [OF \<open>first < length source\<close>] by (auto simp: CR_def LF_def simp del: nth_mem)
  moreover have "source ! first \<noteq> LF" if "brk = CR"
    using assms that nth_mem [OF \<open>first < length source\<close>] by (auto simp: CR_def LF_def simp del: nth_mem)
  ultimately show ?thesis
    using assms Some by (auto simp: line_starts_of_def)
qed

text \<open>Line numbers: in a source with one kind of line break, the line of an offset is one more
  than the number of breaks before it.\<close>

theorem line_of_counts_breaks:
  assumes "length source + 1 < 2 ^ 32"
    and "(brk = LF \<and> CR \<notin> set source) \<or> (brk = CR \<and> LF \<notin> set source)"
  shows "unat (line_of (line_starts_of source) n) =
    1 + length (filter (\<lambda>c. c = brk) (take (unat n) source))"
proof -
  let ?ps = "byte_positions brk 0 source"
  have "length ?ps \<le> length source"
    using length_byte_positions_below [of "length source" brk 0 source] byte_positions_bounds
    by (metis (no_types, lifting) add_0 diff_zero filter_True length_filter_le length_take min.idem)
  with assms(1) have len: "length (line_starts_of source) < 2 ^ 32"
    by (simp add: line_starts_single [OF assms(2)])
  have step: "of_nat (Suc p) \<le> n \<longleftrightarrow> p < unat n" if "p \<in> set ?ps" for p
    using byte_positions_bounds [OF that] assms(1)
    by (simp add: word_le_nat_alt unat_of_nat Suc_le_eq del: of_nat_Suc)
  have "unat (line_of (line_starts_of source) n) = Suc (length (takeWhile (\<lambda>p. p < unat n) ?ps))"
    using line_of_takeWhile [OF len, of n]
    by (simp add: line_starts_single [OF assms(2)] takeWhile_map comp_def step
        cong: takeWhile_cong del: of_nat_Suc)
  then show ?thesis
    by (simp add: takeWhile_sorted_length [OF byte_positions_sorted] length_byte_positions_below)
qed

theorem line_of_counts_breaks_witness:
  "unat (line_of (line_starts_of [LF, LF]) 1) = 1 + length (filter (\<lambda>c. c = LF) (take (unat (1 :: u32)) [LF, LF]))"
  by (rule line_of_counts_breaks) (simp_all add: CR_def LF_def)

end
