(* ===== verification/Whim_Chunk.thy ===== *)
theory Whim_Chunk
  imports Whim_Tables Whim_Instruction Whim_Span
begin

text \<open>
  One compiled code object (\<^verbatim>\<open>crates/bytecode/src/chunk/mod.rs\<close>): its record, the operations that
  append an instruction or a side-table entry, patch a jump or split off a tail, and the constant
  pool. An operation takes the chunk last and returns it with its result; \<open>Inl\<close> of a \<open>panic\<close> is a
  call that panics. The locale \<open>side_table\<close> states what a table promises its users and is
  interpreted for each of the eleven tables.
\<close>

section \<open>The chunk\<close>

datatype side_table =
    Constants
  | TypeDescriptors
  | CallDescriptors
  | SwitchTables
  | PresetDescriptors
  | InlineCaches
  | NumericDescriptors
  | PropertyInitializers

fun counts :: "side_table \<Rightarrow> string" where
  "counts Constants = ''distinct constants''"
| "counts TypeDescriptors = ''type annotations''"
| "counts CallDescriptors = ''call sites''"
| "counts SwitchTables = ''match tables''"
| "counts PresetDescriptors = ''preset descriptors''"
| "counts InlineCaches = ''property and method access sites''"
| "counts NumericDescriptors = ''fused numeric operations''"
| "counts PropertyInitializers = ''fused property initializers''"

definition SIDE_TABLE_CAPACITY :: nat where
  "SIDE_TABLE_CAPACITY = 65536"

datatype side_table_full = SideTableFull side_table

definition next_index :: "nat \<Rightarrow> side_table \<Rightarrow> side_table_full + u16" where
  "next_index len table = (if len < 65536 then Inr (of_nat len) else Inl (SideTableFull table))"

record chunk =
  code :: "instruction list"
  spans :: "span list"
  constants :: "literal list"
  type_descriptors :: "type_descriptor list"
  call_descriptors :: "call_descriptor list"
  switch_tables :: "switch_table list"
  preset_descriptors :: "preset_descriptor list"
  catch_table :: "catch_entry list"
  ic_descriptors :: "ic_descriptor list"
  prepared_int_loop_descriptors :: "prepared_int_loop_descriptor list"
  int_step_loop_descriptors :: "int_step_loop_descriptor list"
  float_squares_sum_branch_descriptors :: "float_squares_sum_branch_descriptor list"
  float_pair_update_descriptors :: "float_pair_update_descriptor list"
  property_initialization_descriptors :: "property_initialization_descriptor list"
  local_register_count :: u16
  parameter_register_start :: u16
  parameter_register_count :: u16
  trace_argument_registers :: "register list"
  uninitialized_registers :: "register list"
  register_count :: u16
  reference_register_mask :: u64
  vec_append_register_mask :: u64
  constant_index :: "(literal_key \<rightharpoonup> constant_index) option"

definition new_chunk :: chunk where
  "new_chunk =
     \<lparr>code = [], spans = [], constants = [], type_descriptors = [], call_descriptors = [],
      switch_tables = [], preset_descriptors = [], catch_table = [], ic_descriptors = [],
      prepared_int_loop_descriptors = [], int_step_loop_descriptors = [],
      float_squares_sum_branch_descriptors = [], float_pair_update_descriptors = [],
      property_initialization_descriptors = [], local_register_count = 0,
      parameter_register_start = 0, parameter_register_count = 0,
      trace_argument_registers = [], uninitialized_registers = [], register_count = 0,
      reference_register_mask = 0, vec_append_register_mask = 0, constant_index = None\<rparr>"

text \<open>
  Slicing from beyond the end panics. The debug assertions of \<^verbatim>\<open>clone_tail\<close> are compiled in where
  \<open>debug_assertions\<close> holds.
\<close>

definition clone_tail :: "bool \<Rightarrow> nat \<Rightarrow> chunk \<Rightarrow> panic + chunk" where
  "clone_tail debug_assertions start c =
     (if debug_assertions \<and> \<not> (start \<le> length (code c) \<and> catch_table c = []) then Inl DebugAssertion
      else if length (code c) < start \<or> length (spans c) < start then Inl IndexOutOfBounds
      else Inr (c\<lparr>code := drop start (code c), spans := drop start (spans c),
                  catch_table := [], constant_index := None\<rparr>))"

definition with_replaced_tail :: "nat \<Rightarrow> chunk \<Rightarrow> chunk \<Rightarrow> panic + chunk" where
  "with_replaced_tail start tail c =
     (if length (code c) < start \<or> length (spans c) < start then Inl IndexOutOfBounds
      else Inr (tail\<lparr>code := take start (code c) @ code tail,
                     spans := take start (spans c) @ spans tail,
                     reference_register_mask :=
                       or (reference_register_mask tail) (reference_register_mask c),
                     vec_append_register_mask :=
                       or (vec_append_register_mask tail) (vec_append_register_mask c)\<rparr>))"

definition emit :: "instruction \<Rightarrow> span \<Rightarrow> chunk \<Rightarrow> panic + (u32 \<times> chunk)" where
  "emit ins s c =
     result_bind (u32_index (length (code c)))
       (\<lambda>index. Inr (index, c\<lparr>code := code c @ [ins], spans := spans c @ [s]\<rparr>))"

text \<open>The instruction at a jump site with its offset replaced; \<open>None\<close> where it is no jump.\<close>

definition set_offset :: "jump_offset \<Rightarrow> instruction \<Rightarrow> instruction option" where
  "set_offset rel ins =
     (case ins of
        Branch (Jump _) \<Rightarrow> Some (Branch (Jump rel))
      | Branch (JumpIfFalse r _) \<Rightarrow> Some (Branch (JumpIfFalse r rel))
      | Branch (JumpIfTrue r _) \<Rightarrow> Some (Branch (JumpIfTrue r rel))
      | Branch (JumpIfNull r _) \<Rightarrow> Some (Branch (JumpIfNull r rel))
      | Branch (JumpIfNotNull r _) \<Rightarrow> Some (Branch (JumpIfNotNull r rel))
      | Branch (FillDefault r _) \<Rightarrow> Some (Branch (FillDefault r rel))
      | _ \<Rightarrow> None)"

definition patch_jump :: "u32 \<Rightarrow> u32 \<Rightarrow> chunk \<Rightarrow> panic + chunk" where
  "patch_jump at target c =
     (let relative = int (unat target) - int (unat at)
      in if relative < - (2 ^ 31) \<or> 2 ^ 31 \<le> relative then Inl OffsetMustFitI32
         else if length (code c) \<le> unat at then Inl IndexOutOfBounds
         else case set_offset (word_of_int relative) (code c ! unat at) of
                None \<Rightarrow> Inl OnlyAJumpCanBePatched
              | Some ins \<Rightarrow> Inr (c\<lparr>code := (code c)[unat at := ins]\<rparr>))"

section \<open>The constant pool\<close>

text \<open>Collecting the pairs into a hash map keeps the last entry of a key.\<close>

fun index_literals :: "nat \<Rightarrow> literal list \<Rightarrow> (literal_key \<rightharpoonup> constant_index) \<Rightarrow>
  panic + (literal_key \<rightharpoonup> constant_index)" where
  "index_literals position [] m = Inr m"
| "index_literals position (l # ls) m =
     (if position < 65536
      then index_literals (Suc position) ls (m(literal_key_of l \<mapsto> of_nat position))
      else Inl ConstantIndexMustFit)"

definition push_constant ::
  "literal \<Rightarrow> chunk \<Rightarrow> (side_table_full + constant_index) \<times> chunk" where
  "push_constant l c =
     (case next_index (length (constants c)) Constants of
        Inl e \<Rightarrow> (Inl e, c)
      | Inr index \<Rightarrow>
          (Inr index,
           c\<lparr>constants := constants c @ [l],
             constant_index := map_option (\<lambda>m. m(literal_key_of l \<mapsto> index)) (constant_index c)\<rparr>))"

definition add_constant ::
  "literal \<Rightarrow> chunk \<Rightarrow> panic + (side_table_full + constant_index) \<times> chunk" where
  "add_constant l c =
     result_bind
       (case constant_index c of
          Some m \<Rightarrow> Inr m
        | None \<Rightarrow> index_literals 0 (constants c) Map.empty)
       (\<lambda>m. let c = c\<lparr>constant_index := Some m\<rparr>
             in case m (literal_key_of l) of
                  Some index \<Rightarrow> Inr (Inr index, c)
                | None \<Rightarrow> Inr (push_constant l c))"

section \<open>The other side tables\<close>

definition add_type_descriptor ::
  "type_descriptor \<Rightarrow> chunk \<Rightarrow> (side_table_full + u16) \<times> chunk" where
  "add_type_descriptor entry c =
     (case next_index (length (type_descriptors c)) TypeDescriptors of
        Inl e \<Rightarrow> (Inl e, c)
      | Inr index \<Rightarrow> (Inr index, c\<lparr>type_descriptors := type_descriptors c @ [entry]\<rparr>))"

definition add_call_descriptor ::
  "call_descriptor \<Rightarrow> chunk \<Rightarrow> (side_table_full + u16) \<times> chunk" where
  "add_call_descriptor entry c =
     (case next_index (length (call_descriptors c)) CallDescriptors of
        Inl e \<Rightarrow> (Inl e, c)
      | Inr index \<Rightarrow> (Inr index, c\<lparr>call_descriptors := call_descriptors c @ [entry]\<rparr>))"

definition add_prepared_int_loop_descriptor ::
  "prepared_int_loop_descriptor \<Rightarrow> chunk \<Rightarrow> (side_table_full + u16) \<times> chunk" where
  "add_prepared_int_loop_descriptor entry c =
     (case next_index (length (prepared_int_loop_descriptors c)) NumericDescriptors of
        Inl e \<Rightarrow> (Inl e, c)
      | Inr index \<Rightarrow> (Inr index, c\<lparr>prepared_int_loop_descriptors := prepared_int_loop_descriptors c @ [entry]\<rparr>))"

definition add_int_step_loop_descriptor ::
  "int_step_loop_descriptor \<Rightarrow> chunk \<Rightarrow> (side_table_full + u16) \<times> chunk" where
  "add_int_step_loop_descriptor entry c =
     (case next_index (length (int_step_loop_descriptors c)) NumericDescriptors of
        Inl e \<Rightarrow> (Inl e, c)
      | Inr index \<Rightarrow> (Inr index, c\<lparr>int_step_loop_descriptors := int_step_loop_descriptors c @ [entry]\<rparr>))"

definition add_float_squares_sum_branch_descriptor ::
  "float_squares_sum_branch_descriptor \<Rightarrow> chunk \<Rightarrow> (side_table_full + u16) \<times> chunk" where
  "add_float_squares_sum_branch_descriptor entry c =
     (case next_index (length (float_squares_sum_branch_descriptors c)) NumericDescriptors of
        Inl e \<Rightarrow> (Inl e, c)
      | Inr index \<Rightarrow> (Inr index, c\<lparr>float_squares_sum_branch_descriptors := float_squares_sum_branch_descriptors c @ [entry]\<rparr>))"

definition add_float_pair_update_descriptor ::
  "float_pair_update_descriptor \<Rightarrow> chunk \<Rightarrow> (side_table_full + u16) \<times> chunk" where
  "add_float_pair_update_descriptor entry c =
     (case next_index (length (float_pair_update_descriptors c)) NumericDescriptors of
        Inl e \<Rightarrow> (Inl e, c)
      | Inr index \<Rightarrow> (Inr index, c\<lparr>float_pair_update_descriptors := float_pair_update_descriptors c @ [entry]\<rparr>))"

definition add_property_initialization_descriptor ::
  "property_initialization_descriptor \<Rightarrow> chunk \<Rightarrow> (side_table_full + u16) \<times> chunk" where
  "add_property_initialization_descriptor entry c =
     (case next_index (length (property_initialization_descriptors c)) PropertyInitializers of
        Inl e \<Rightarrow> (Inl e, c)
      | Inr index \<Rightarrow> (Inr index, c\<lparr>property_initialization_descriptors := property_initialization_descriptors c @ [entry]\<rparr>))"

definition add_switch_table ::
  "switch_table \<Rightarrow> chunk \<Rightarrow> (side_table_full + u16) \<times> chunk" where
  "add_switch_table entry c =
     (case next_index (length (switch_tables c)) SwitchTables of
        Inl e \<Rightarrow> (Inl e, c)
      | Inr index \<Rightarrow> (Inr index, c\<lparr>switch_tables := switch_tables c @ [entry]\<rparr>))"

definition add_preset_descriptor ::
  "preset_descriptor \<Rightarrow> chunk \<Rightarrow> (side_table_full + u16) \<times> chunk" where
  "add_preset_descriptor entry c =
     (case next_index (length (preset_descriptors c)) PresetDescriptors of
        Inl e \<Rightarrow> (Inl e, c)
      | Inr index \<Rightarrow> (Inr index, c\<lparr>preset_descriptors := preset_descriptors c @ [entry]\<rparr>))"

definition add_ic_descriptor ::
  "ic_descriptor \<Rightarrow> chunk \<Rightarrow> (side_table_full + u16) \<times> chunk" where
  "add_ic_descriptor entry c =
     (case next_index (length (ic_descriptors c)) InlineCaches of
        Inl e \<Rightarrow> (Inl e, c)
      | Inr index \<Rightarrow> (Inr index, c\<lparr>ic_descriptors := ic_descriptors c @ [entry]\<rparr>))"

text \<open>The accessors index their table and panic out of range.\<close>

definition table_entry :: "'a list \<Rightarrow> u16 \<Rightarrow> panic + 'a" where
  "table_entry entries index = ok_or IndexOutOfBounds (list_get entries (unat index))"

definition prepared_int_loop_descriptor_at :: "u16 \<Rightarrow> chunk \<Rightarrow> panic + prepared_int_loop_descriptor" where
  "prepared_int_loop_descriptor_at index c = table_entry (prepared_int_loop_descriptors c) index"

definition int_step_loop_descriptor_at :: "u16 \<Rightarrow> chunk \<Rightarrow> panic + int_step_loop_descriptor" where
  "int_step_loop_descriptor_at index c = table_entry (int_step_loop_descriptors c) index"

definition float_squares_sum_branch_descriptor_at :: "u16 \<Rightarrow> chunk \<Rightarrow> panic + float_squares_sum_branch_descriptor" where
  "float_squares_sum_branch_descriptor_at index c = table_entry (float_squares_sum_branch_descriptors c) index"

definition float_pair_update_descriptor_at :: "u16 \<Rightarrow> chunk \<Rightarrow> panic + float_pair_update_descriptor" where
  "float_pair_update_descriptor_at index c = table_entry (float_pair_update_descriptors c) index"

definition property_initialization_descriptor_at :: "u16 \<Rightarrow> chunk \<Rightarrow> panic + property_initialization_descriptor" where
  "property_initialization_descriptor_at index c = table_entry (property_initialization_descriptors c) index"

section \<open>What a side table promises\<close>

text \<open>
  \<open>entries\<close> reads the table, \<open>add\<close> appends one entry, \<open>which\<close> names the table in the error. The
  client of a table relies on the lemmas of the locale alone: an index stays valid while the table
  grows, it reads back the entry it was returned for, and the one error is a full table.
\<close>

locale side_table =
  fixes entries :: "'c \<Rightarrow> 'e list"
    and add :: "'e \<Rightarrow> 'c \<Rightarrow> (side_table_full + u16) \<times> 'c"
    and which :: side_table
  assumes add_room: "length (entries c) < 65536 \<Longrightarrow>
      fst (add e c) = Inr (of_nat (length (entries c))) \<and> entries (snd (add e c)) = entries c @ [e]"
    and add_full: "65536 \<le> length (entries c) \<Longrightarrow> add e c = (Inl (SideTableFull which), c)"
begin

lemma add_read_back:
  assumes "fst (add e c) = Inr i"
  shows "table_entry (entries (snd (add e c))) i = Inr e"
proof -
  have "length (entries c) < 65536"
    using assms add_full [of c e] by (cases "length (entries c) < 65536") auto
  with assms add_room [of c e] show ?thesis by (auto simp: table_entry_def)
qed

lemma add_keeps:
  assumes "table_entry (entries c) j = Inr x"
  shows "table_entry (entries (snd (add e c))) j = Inr x"
proof (cases "length (entries c) < 65536")
  case True
  with assms show ?thesis by (auto simp: table_entry_def add_room nth_append)
next
  case False
  with assms show ?thesis by (simp add: add_full)
qed

lemma add_error_iff:
  "fst (add e c) = Inl err \<longleftrightarrow> 65536 \<le> length (entries c) \<and> err = SideTableFull which"
  using add_room [of c e] add_full [of c e]
  by (cases "length (entries c) < 65536") auto

lemma add_capacity:
  "length (entries c) \<le> 65536 \<Longrightarrow> length (entries (snd (add e c))) \<le> 65536"
  using add_room [of c e] add_full [of c e] by (cases "length (entries c) < 65536") auto

end

interpretation constant_table: side_table constants push_constant Constants
  by unfold_locales (auto simp: push_constant_def next_index_def)

interpretation type_descriptor_table: side_table type_descriptors add_type_descriptor TypeDescriptors
  by unfold_locales (auto simp: add_type_descriptor_def next_index_def)

interpretation call_descriptor_table: side_table call_descriptors add_call_descriptor CallDescriptors
  by unfold_locales (auto simp: add_call_descriptor_def next_index_def)

interpretation prepared_int_loop_descriptor_table: side_table prepared_int_loop_descriptors add_prepared_int_loop_descriptor NumericDescriptors
  by unfold_locales (auto simp: add_prepared_int_loop_descriptor_def next_index_def)

interpretation int_step_loop_descriptor_table: side_table int_step_loop_descriptors add_int_step_loop_descriptor NumericDescriptors
  by unfold_locales (auto simp: add_int_step_loop_descriptor_def next_index_def)

interpretation float_squares_sum_branch_descriptor_table: side_table float_squares_sum_branch_descriptors add_float_squares_sum_branch_descriptor NumericDescriptors
  by unfold_locales (auto simp: add_float_squares_sum_branch_descriptor_def next_index_def)

interpretation float_pair_update_descriptor_table: side_table float_pair_update_descriptors add_float_pair_update_descriptor NumericDescriptors
  by unfold_locales (auto simp: add_float_pair_update_descriptor_def next_index_def)

interpretation property_initialization_descriptor_table: side_table property_initialization_descriptors add_property_initialization_descriptor PropertyInitializers
  by unfold_locales (auto simp: add_property_initialization_descriptor_def next_index_def)

interpretation switch_table_table: side_table switch_tables add_switch_table SwitchTables
  by unfold_locales (auto simp: add_switch_table_def next_index_def)

interpretation preset_descriptor_table: side_table preset_descriptors add_preset_descriptor PresetDescriptors
  by unfold_locales (auto simp: add_preset_descriptor_def next_index_def)

interpretation ic_descriptor_table: side_table ic_descriptors add_ic_descriptor InlineCaches
  by unfold_locales (auto simp: add_ic_descriptor_def next_index_def)

section \<open>Properties of the chunk operations\<close>

text \<open>
  The pool invariant: a built index maps exactly the keys of the pool, each to a position that
  holds its literal, and the pool fits its 16-bit indices.
\<close>

definition index_ok :: "literal list \<Rightarrow> (literal_key \<rightharpoonup> constant_index) \<Rightarrow> bool" where
  "index_ok ls m \<longleftrightarrow>
     (\<forall>k i. m k = Some i \<longrightarrow> unat i < length ls \<and> literal_key_of (ls ! unat i) = k) \<and>
     (\<forall>l\<in>set ls. m (literal_key_of l) \<noteq> None)"

definition pool_ok :: "chunk \<Rightarrow> bool" where
  "pool_ok c \<longleftrightarrow> length (constants c) \<le> 65536 \<and>
     (case constant_index c of None \<Rightarrow> True | Some m \<Rightarrow> index_ok (constants c) m)"

lemma index_ok_empty: "index_ok [] Map.empty"
  by (simp add: index_ok_def)

lemma index_okD:
  assumes "index_ok ls m" "m k = Some i"
  shows "unat i < length ls" "literal_key_of (ls ! unat i) = k"
  using assms by (auto simp: index_ok_def)

lemma index_ok_append:
  assumes "index_ok ls m" "length ls < 65536"
  shows "index_ok (ls @ [l]) (m(literal_key_of l \<mapsto> of_nat (length ls)))"
proof -
  have "unat i < Suc (length ls) \<and> literal_key_of ((ls @ [l]) ! unat i) = k"
    if "(m(literal_key_of l \<mapsto> of_nat (length ls))) k = Some i" for k i
    using that index_okD [OF assms(1), of k i] assms(2) by (auto simp: nth_append split: if_splits)
  moreover have "\<exists>i. (m(literal_key_of l \<mapsto> of_nat (length ls))) (literal_key_of x) = Some i"
    if "x \<in> set (ls @ [l])" for x
    using that assms(1) by (auto simp: index_ok_def)
  ultimately show ?thesis by (simp add: index_ok_def)
qed

lemma index_literals_ok:
  assumes "index_ok ls m" "length (ls @ rest) \<le> 65536"
  shows "\<exists>m'. index_literals (length ls) rest m = Inr m' \<and> index_ok (ls @ rest) m'"
  using assms
proof (induction rest arbitrary: ls m)
  case (Cons l rest)
  have "index_ok (ls @ [l]) (m(literal_key_of l \<mapsto> of_nat (length ls)))"
    using Cons.prems by (intro index_ok_append) auto
  from Cons.IH [OF this] Cons.prems show ?case
    by (auto simp del: fun_upd_apply)
qed simp

lemma pool_ok_new: "pool_ok new_chunk"
  by (simp add: pool_ok_def new_chunk_def)

lemma pool_ok_push:
  assumes "pool_ok c"
  shows "pool_ok (snd (push_constant l c))"
  using assms index_ok_append [of "constants c" _ l]
  by (auto simp: pool_ok_def push_constant_def next_index_def split: option.splits)

lemma pool_index_built:
  assumes "pool_ok c"
  obtains m where "index_ok (constants c) m"
    "(case constant_index c of Some m \<Rightarrow> Inr m
      | None \<Rightarrow> index_literals 0 (constants c) Map.empty) = Inr m"
proof (cases "constant_index c")
  case None
  then show ?thesis
    using index_literals_ok [OF index_ok_empty, of "constants c"] assms that
    by (auto simp: pool_ok_def)
next
  case (Some m)
  with assms have "index_ok (constants c) m" by (simp add: pool_ok_def)
  then show ?thesis by (rule that) (simp add: Some)
qed

text \<open>
  \<open>add_constant\<close> on every branch: a pooled literal is found and nothing is appended, a new one is
  appended while the pool has room, and a full pool refuses it.
\<close>

lemma add_constant_pooled:
  assumes "pool_ok c" "l \<in> set (constants c)"
  shows "\<exists>i c'. add_constant l c = Inr (Inr i, c') \<and> table_entry (constants c) i = Inr l \<and>
    constants c' = constants c \<and> pool_ok c'"
proof -
  obtain m where m: "index_ok (constants c) m"
    "(case constant_index c of Some m \<Rightarrow> Inr m
      | None \<Rightarrow> index_literals 0 (constants c) Map.empty) = (Inr m :: panic + _)"
    using pool_index_built [OF assms(1)] by blast
  then obtain i where i: "m (literal_key_of l) = Some i"
    using assms(2) by (fastforce simp: index_ok_def)
  have "table_entry (constants c) i = Inr l"
    using index_okD [OF m(1) i] by (simp add: table_entry_def)
  moreover have "pool_ok (c\<lparr>constant_index := Some m\<rparr>)"
    using m(1) assms(1) by (simp add: pool_ok_def)
  ultimately show ?thesis
    using m(2) i by (simp add: add_constant_def)
qed

lemma add_constant_new:
  assumes "pool_ok c" "l \<notin> set (constants c)"
  shows "\<exists>r c'. add_constant l c = Inr (r, c') \<and> pool_ok c' \<and>
    (if length (constants c) < 65536
     then r = Inr (of_nat (length (constants c))) \<and> constants c' = constants c @ [l]
     else r = Inl (SideTableFull Constants) \<and> constants c' = constants c)"
proof -
  obtain m where m: "index_ok (constants c) m"
    "(case constant_index c of Some m \<Rightarrow> Inr m
      | None \<Rightarrow> index_literals 0 (constants c) Map.empty) = (Inr m :: panic + _)"
    using pool_index_built [OF assms(1)] by blast
  have "m (literal_key_of l) = None"
  proof (rule ccontr)
    assume "m (literal_key_of l) \<noteq> None"
    then obtain i where i: "m (literal_key_of l) = Some i" by auto
    have "constants c ! unat i = l" using index_okD(2) [OF m(1) i] by simp
    with index_okD(1) [OF m(1) i] assms(2) show False by auto
  qed
  moreover have "pool_ok (c\<lparr>constant_index := Some m\<rparr>)"
    using m(1) assms(1) by (simp add: pool_ok_def)
  then have "pool_ok (snd (push_constant l (c\<lparr>constant_index := Some m\<rparr>)))"
    by (rule pool_ok_push)
  ultimately show ?thesis
    using m(2)
    by (cases "length (constants c) < 65536")
      (simp_all add: add_constant_def push_constant_def next_index_def)
qed

lemma add_constant_total:
  assumes "pool_ok c"
  shows "\<exists>r c'. add_constant l c = Inr (r, c') \<and> pool_ok c' \<and>
    set (constants c') \<subseteq> insert l (set (constants c)) \<and>
    (distinct (constants c) \<longrightarrow> distinct (constants c'))"
proof (cases "l \<in> set (constants c)")
  case True
  from add_constant_pooled [OF assms True] show ?thesis by force
next
  case False
  from add_constant_new [OF assms False] show ?thesis
    using False by (auto split: if_splits)
qed

text \<open>Adding the same literal again returns the same index and leaves the pool as it is.\<close>

lemma pooled_index_unique:
  assumes "distinct ls" "table_entry ls i = Inr l" "table_entry ls j = Inr l"
  shows "i = j"
proof -
  have "unat i = unat j"
    using assms by (auto simp: table_entry_def nth_eq_iff_index_eq)
  then show ?thesis by (simp add: word_unat_eq_iff)
qed

subsection \<open>Emission, jumps and tails\<close>

lemma emit_spec:
  assumes "length (code c) < 2 ^ 32"
  shows "\<exists>c'. emit ins s c = Inr (of_nat (length (code c)), c') \<and>
    code c' = code c @ [ins] \<and> spans c' = spans c @ [s]"
  using assms by (simp add: emit_def u32_index_def)

definition jump_offset_of :: "instruction \<Rightarrow> jump_offset option" where
  "jump_offset_of ins =
     (case ins of
        Branch (Jump rel) \<Rightarrow> Some rel
      | Branch (JumpIfFalse r rel) \<Rightarrow> Some rel
      | Branch (JumpIfTrue r rel) \<Rightarrow> Some rel
      | Branch (JumpIfNull r rel) \<Rightarrow> Some rel
      | Branch (JumpIfNotNull r rel) \<Rightarrow> Some rel
      | Branch (FillDefault r rel) \<Rightarrow> Some rel
      | _ \<Rightarrow> None)"

lemma set_offset_None: "set_offset rel ins = None \<longleftrightarrow> jump_offset_of ins = None"
  by (simp add: set_offset_def jump_offset_of_def
      split: instruction.splits jump_instruction.splits)

lemma set_offset_Some: "set_offset rel ins = Some ins' \<Longrightarrow> jump_offset_of ins' = Some rel"
  by (auto simp: set_offset_def jump_offset_of_def
      split: instruction.splits jump_instruction.splits)

lemma sint_of_int_u32:
  "- (2 ^ 31) \<le> i \<Longrightarrow> i < 2 ^ 31 \<Longrightarrow> sint (word_of_int i :: u32) = i"
  by (simp add: signed_of_int signed_take_bit_int_eq_self)

lemma patch_jump_lands:
  assumes "patch_jump at target c = Inr c'"
  shows "\<exists>rel. jump_offset_of (code c' ! unat at) = Some rel \<and>
      int (unat at) + sint rel = int (unat target)"
    and "length (code c') = length (code c)"
    and "\<And>i. i \<noteq> unat at \<Longrightarrow> code c' ! i = code c ! i"
proof -
  let ?rel = "int (unat target) - int (unat at)"
  have fits: "- (2 ^ 31) \<le> ?rel" "?rel < 2 ^ 31" and at: "unat at < length (code c)"
    using assms by (auto simp: patch_jump_def Let_def split: if_splits)
  with assms obtain ins where ins: "set_offset (word_of_int ?rel) (code c ! unat at) = Some ins"
    and c': "c' = c\<lparr>code := (code c)[unat at := ins]\<rparr>"
    by (auto simp: patch_jump_def Let_def split: if_splits option.splits)
  have "sint (word_of_int ?rel :: u32) = ?rel"
    using fits by (rule sint_of_int_u32)
  with set_offset_Some [OF ins] at c'
  show "\<exists>rel. jump_offset_of (code c' ! unat at) = Some rel \<and>
      int (unat at) + sint rel = int (unat target)" by simp
  show "length (code c') = length (code c)" using c' by simp
  show "code c' ! i = code c ! i" if "i \<noteq> unat at" for i using c' that by simp
qed

lemma patch_jump_panics_iff:
  "(\<exists>p. patch_jump at target c = Inl p) \<longleftrightarrow>
     length (code c) \<le> unat at \<or> jump_offset_of (code c ! unat at) = None \<or>
     \<not> (- (2 ^ 31) \<le> int (unat target) - int (unat at) \<and>
        int (unat target) - int (unat at) < 2 ^ 31)"
proof (cases "set_offset (word_of_int (int (unat target) - int (unat at))) (code c ! unat at)")
  case None
  then have "jump_offset_of (code c ! unat at) = None" by (simp only: set_offset_None)
  with None show ?thesis by (simp add: patch_jump_def Let_def)
next
  case (Some ins)
  then have "jump_offset_of (code c ! unat at) \<noteq> None"
    using set_offset_None by (metis option.distinct(1))
  with Some show ?thesis
    by (simp add: patch_jump_def Let_def not_le not_less del: not_None_eq)
qed

text \<open>
  Putting back a tail that was rewritten keeps the prefix, and the masks cover both parts. An untouched tail
  restores the chunk up to the literal index, where the assertions of the copy hold.
\<close>

lemma replaced_tail_masks:
  assumes "with_replaced_tail start tail c = Inr c'"
  shows "take start (code c') = take start (code c)" "drop start (code c') = code tail"
    "bit (reference_register_mask c') k \<longleftrightarrow> bit (reference_register_mask tail) k \<or> bit (reference_register_mask c) k"
  using assms by (auto simp: with_replaced_tail_def bit_simps split: if_splits)

lemma clone_then_replace:
  assumes "length (code c) = length (spans c)" "clone_tail True start c = Inr tail"
  shows "with_replaced_tail start tail c = Inr (c\<lparr>constant_index := None\<rparr>)"
  using assms by (auto simp: clone_tail_def with_replaced_tail_def split: if_splits)

section \<open>Properties\<close>

text \<open>C21. Interning a constant: an equal literal already in the pool is found, wherever it is and
  whether or not the index was built, and the pool does not change; a new literal is appended at
  the next index; only a full pool refuses it. The index cache stays consistent throughout.\<close>

theorem add_constant_interns:
  assumes "pool_ok c"
  shows "\<exists>r c'. add_constant l c = Inr (r, c') \<and> pool_ok c' \<and>
    (if l \<in> set (constants c)
     then constants c' = constants c \<and> (\<exists>i. r = Inr i \<and> table_entry (constants c) i = Inr l)
     else if length (constants c) < 65536
     then constants c' = constants c @ [l] \<and> r = Inr (of_nat (length (constants c)))
     else constants c' = constants c \<and> r = Inl (SideTableFull Constants))"
  using add_constant_pooled [OF assms, of l] add_constant_new [OF assms, of l]
  by (cases "l \<in> set (constants c)") force+

theorem add_constant_interns_witness:
  "\<exists>r c'. add_constant (BoolLit True) new_chunk = Inr (r, c') \<and> pool_ok c' \<and>
     constants c' = [BoolLit True] \<and> r = Inr 0"
  using add_constant_interns [OF pool_ok_new, of "BoolLit True"] by (simp add: new_chunk_def)

text \<open>Interning a sequence of literals, one call of \<open>add_constant\<close> after the other.\<close>

fun intern_all :: "literal list \<Rightarrow> chunk \<Rightarrow> panic + ((side_table_full + u16) list \<times> chunk)" where
  "intern_all [] c = Inr ([], c)"
| "intern_all (l # ls) c =
     result_bind (add_constant l c) (\<lambda>(r, c'). result_map (\<lambda>(rs, d). (r # rs, d)) (intern_all ls c'))"

lemma intern_all_spec:
  assumes "pool_ok c" "distinct (constants c)"
  shows "\<exists>rs c'. intern_all ls c = Inr (rs, c') \<and> pool_ok c' \<and> distinct (constants c') \<and>
    set (constants c') \<subseteq> set (constants c) \<union> set ls \<and> length rs = length ls"
  using assms
proof (induction ls arbitrary: c)
  case (Cons l ls)
  obtain r c' where c': "add_constant l c = Inr (r, c')" "pool_ok c'" "distinct (constants c')"
    "set (constants c') \<subseteq> insert l (set (constants c))"
    using add_constant_total [OF Cons.prems(1), of l] Cons.prems(2) by auto
  then show ?case
    using Cons.IH [OF c'(2,3)] by fastforce
qed simp

text \<open>C22. A pool that is only written through \<open>add_constant\<close> never holds a literal twice, so equal
  literals share one index, and it never outgrows its sixteen-bit indices.\<close>

theorem interned_pool_distinct:
  "\<exists>rs c. intern_all ls new_chunk = Inr (rs, c) \<and> distinct (constants c) \<and>
     set (constants c) \<subseteq> set ls \<and> length (constants c) \<le> 65536 \<and> length rs = length ls"
  using intern_all_spec [OF pool_ok_new, of ls] by (fastforce simp: pool_ok_def new_chunk_def)

text \<open>C28. Each side table is append-only behind its \<open>add\<close> operation: the index it returns reads
  the entry back, earlier indices keep their entries, and it fails only when the table already has
  65536 entries.\<close>

theorem side_tables_read_back:
  "(fst (add_prepared_int_loop_descriptor d c) = Inr i \<longrightarrow>
       prepared_int_loop_descriptor_at i (snd (add_prepared_int_loop_descriptor d c)) = Inr d) \<and>
    (fst (add_int_step_loop_descriptor e c) = Inr i \<longrightarrow>
       int_step_loop_descriptor_at i (snd (add_int_step_loop_descriptor e c)) = Inr e) \<and>
    (fst (add_float_squares_sum_branch_descriptor f c) = Inr i \<longrightarrow>
       float_squares_sum_branch_descriptor_at i (snd (add_float_squares_sum_branch_descriptor f c)) = Inr f) \<and>
    (fst (add_float_pair_update_descriptor g c) = Inr i \<longrightarrow>
       float_pair_update_descriptor_at i (snd (add_float_pair_update_descriptor g c)) = Inr g) \<and>
    (fst (add_property_initialization_descriptor h c) = Inr i \<longrightarrow>
       property_initialization_descriptor_at i (snd (add_property_initialization_descriptor h c)) = Inr h)"
  by (simp add: prepared_int_loop_descriptor_at_def int_step_loop_descriptor_at_def float_squares_sum_branch_descriptor_at_def float_pair_update_descriptor_at_def property_initialization_descriptor_at_def prepared_int_loop_descriptor_table.add_read_back int_step_loop_descriptor_table.add_read_back float_squares_sum_branch_descriptor_table.add_read_back float_pair_update_descriptor_table.add_read_back property_initialization_descriptor_table.add_read_back)

theorem side_tables_read_back_witness:
  "int_step_loop_descriptor_at 0 (snd (add_int_step_loop_descriptor
     \<lparr>step_comparison = CmpLessThan, step_counter = 0, step_limit = 1, step_register = 2\<rparr> new_chunk))
     = Inr \<lparr>step_comparison = CmpLessThan, step_counter = 0, step_limit = 1, step_register = 2\<rparr>"
  using side_tables_read_back [where c = new_chunk and i = 0 and
    e = "\<lparr>step_comparison = CmpLessThan, step_counter = 0, step_limit = 1, step_register = 2\<rparr>"]
  by (simp add: add_int_step_loop_descriptor_def next_index_def new_chunk_def)

text \<open>The one way a side table refuses an entry: it already has 65536 of them, and the error
  names the table.\<close>

theorem side_tables_full:
  "(fst (add_prepared_int_loop_descriptor d c) = Inl err \<longleftrightarrow>
       65536 \<le> length (prepared_int_loop_descriptors c) \<and> err = SideTableFull NumericDescriptors) \<and>
    (fst (add_int_step_loop_descriptor e c) = Inl err \<longleftrightarrow>
       65536 \<le> length (int_step_loop_descriptors c) \<and> err = SideTableFull NumericDescriptors) \<and>
    (fst (add_float_squares_sum_branch_descriptor f c) = Inl err \<longleftrightarrow>
       65536 \<le> length (float_squares_sum_branch_descriptors c) \<and> err = SideTableFull NumericDescriptors) \<and>
    (fst (add_float_pair_update_descriptor g c) = Inl err \<longleftrightarrow>
       65536 \<le> length (float_pair_update_descriptors c) \<and> err = SideTableFull NumericDescriptors) \<and>
    (fst (add_property_initialization_descriptor h c) = Inl err \<longleftrightarrow>
       65536 \<le> length (property_initialization_descriptors c) \<and> err = SideTableFull PropertyInitializers)"
  by (simp add: prepared_int_loop_descriptor_table.add_error_iff int_step_loop_descriptor_table.add_error_iff float_squares_sum_branch_descriptor_table.add_error_iff float_pair_update_descriptor_table.add_error_iff property_initialization_descriptor_table.add_error_iff)

text \<open>Patching a jump: when it returns, the patched instruction's offset leads from its own
  index exactly to the target, and no other instruction changed.\<close>

theorem patch_jump_correct:
  assumes "patch_jump at target c = Inr c'"
  shows "(\<exists>rel. jump_offset_of (code c' ! unat at) = Some rel \<and>
      int (unat at) + sint rel = int (unat target)) \<and>
    length (code c') = length (code c) \<and> (\<forall>i. i \<noteq> unat at \<longrightarrow> code c' ! i = code c ! i)"
  using patch_jump_lands [OF assms] by blast

theorem patch_jump_correct_witness:
  "\<exists>rel. jump_offset_of (code ((new_chunk\<lparr>code := [Branch (Jump 3)]\<rparr>)) ! unat (0 :: u32)) = Some rel \<and>
     int (unat (0 :: u32)) + sint rel = int (unat (3 :: u32))"
proof -
  have "patch_jump 0 3 (new_chunk\<lparr>code := [Branch (Jump 0)]\<rparr>) = Inr (new_chunk\<lparr>code := [Branch (Jump 3)]\<rparr>)"
    by (simp add: patch_jump_def set_offset_def)
  from patch_jump_correct [OF this] show ?thesis
    by blast
qed

text \<open>Exactly when patching panics: the site is outside the code, it is no patchable jump, or
  the distance does not fit a signed 32-bit offset.\<close>

theorem patch_jump_panics_exactly:
  "(\<exists>p. patch_jump at target c = Inl p) \<longleftrightarrow>
     length (code c) \<le> unat at \<or> jump_offset_of (code c ! unat at) = None \<or>
     int (unat target) - int (unat at) < - (2 ^ 31) \<or>
     2 ^ 31 \<le> int (unat target) - int (unat at)"
  unfolding patch_jump_panics_iff by auto

end
