(* ===== verification/Whim_Verify.thy ===== *)
theory Whim_Verify
  imports Whim_Chunk Whim_Trivial
begin

unbundle bit_operations_syntax

text \<open>
  The structural verifier of chunks (\<^verbatim>\<open>crates/bytecode/src/verify\<close>). A run stops with a
  \<^verbatim>\<open>VerifyError\<close> (\<open>Err\<close>) or with a panic (\<open>Panics\<close>); the source's one match over the instructions
  is split along the instruction families. \<open>usize\<close> arithmetic is on \<open>nat\<close>: no sum here reaches
  \<open>2 ^ 64\<close>. The hash of the string switch is the argument \<open>xxh3\<close>.
\<close>

section \<open>Errors\<close>

datatype (plugins only: code size) verify_error =
    LocalRegistersOutOfRange u16 u16 \<comment> \<open>locals, registers\<close>
  | ParameterRegistersOutOfRange u16 nat u16 \<comment> \<open>first, count, locals\<close>
  | TraceArgumentRegisterOutOfRange nat u16 u16 \<comment> \<open>argument, register, locals\<close>
  | TraceArgumentCountMismatch u16 nat \<comment> \<open>parameters, trace arguments\<close>
  | SpanCountMismatch nat nat \<comment> \<open>code, spans\<close>
  | RegisterOutOfRange u32 u16
  | ConstantOutOfRange u32 u16
  | ConstantKindInvalid u32 u16
  | TypeDescriptorOutOfRange u32 u16
  | TypeDescriptorKindInvalid u32 u16
  | CallDescriptorOutOfRange u32 u16
  | PresetDescriptorOutOfRange u32 u16
  | NumericDescriptorOutOfRange u32 u16
  | PropertyInitializationDescriptorOutOfRange u32 u16
  | PropertyInitializationDescriptorInvalid u32
  | SwitchTableOutOfRange u32 u16
  | SwitchTableInvalid u32
  | CacheSlotOutOfRange u32 u16
  | JumpOutOfRange u32 int
  | RegisterWindowOutOfRange u32 nat nat \<comment> \<open>instruction, first, count\<close>
  | IndexPathInvalid u32
  | ForeachNextWithoutJump u32
  | CatchRangeInvalid nat u32 u32
  | CatchHandlerOutOfRange nat u32
  | CatchTypeDescriptorOutOfRange nat u16
  | CatchTemporaryFloorOutOfRange nat u16
  | CatchBindingOutOfRange nat u16
  | MissingTerminator nat

datatype verify_stop = Err verify_error | Panics panic

fun or_panic :: "panic + 'a \<Rightarrow> verify_stop + 'a" where
  "or_panic (Inl p) = Inl (Panics p)"
| "or_panic (Inr x) = Inr x"

definition check :: "bool \<Rightarrow> verify_error \<Rightarrow> verify_stop + unit" where
  "check b e = (if b then Inr () else Inl (Err e))"

lemma check_Inr [simp]: "check b e = Inr () \<longleftrightarrow> b"
  by (simp add: check_def)

lemma or_panic_Inr [simp]: "or_panic r = Inr x \<longleftrightarrow> r = Inr x"
  by (cases r) auto

section \<open>Checks of one operand\<close>

definition check_register :: "chunk \<Rightarrow> u32 \<Rightarrow> register \<Rightarrow> verify_stop + unit" where
  "check_register c at r = check (r < register_count c) (RegisterOutOfRange at r)"

definition check_optional_register :: "chunk \<Rightarrow> u32 \<Rightarrow> register \<Rightarrow> verify_stop + unit" where
  "check_optional_register c at r = (if r = register_NONE then Inr () else check_register c at r)"

definition check_constant :: "chunk \<Rightarrow> u32 \<Rightarrow> constant_index \<Rightarrow> verify_stop + unit" where
  "check_constant c at k = check (unat k < length (constants c)) (ConstantOutOfRange at k)"

definition is_float_literal :: "literal \<Rightarrow> bool" where
  "is_float_literal l \<longleftrightarrow> (case l of FloatLit _ \<Rightarrow> True | _ \<Rightarrow> False)"

definition is_string_literal :: "literal \<Rightarrow> bool" where
  "is_string_literal l \<longleftrightarrow> (case l of StringLit _ \<Rightarrow> True | _ \<Rightarrow> False)"

definition check_float_constant :: "chunk \<Rightarrow> u32 \<Rightarrow> constant_index \<Rightarrow> verify_stop + unit" where
  "check_float_constant c at k =
     result_bind (check_constant c at k) (\<lambda>_.
     result_bind (or_panic (table_entry (constants c) k)) (\<lambda>l.
     check (is_float_literal l) (ConstantKindInvalid at k)))"

definition check_string_constant :: "chunk \<Rightarrow> u32 \<Rightarrow> constant_index \<Rightarrow> verify_stop + unit" where
  "check_string_constant c at k =
     result_bind (check_constant c at k) (\<lambda>_.
     result_bind (or_panic (table_entry (constants c) k)) (\<lambda>l.
     check (is_string_literal l) (ConstantKindInvalid at k)))"

definition check_type_descriptor :: "chunk \<Rightarrow> u32 \<Rightarrow> descriptor_index \<Rightarrow> verify_stop + unit" where
  "check_type_descriptor c at d =
     check (unat d < length (type_descriptors c)) (TypeDescriptorOutOfRange at d)"

definition check_call_descriptor ::
  "chunk \<Rightarrow> u32 \<Rightarrow> call_descriptor_index \<Rightarrow> verify_stop + call_descriptor" where
  "check_call_descriptor c at d =
     ok_or (Err (CallDescriptorOutOfRange at d)) (list_get (call_descriptors c) (unat d))"

definition check_prepared_int_loop_descriptor ::
  "chunk \<Rightarrow> u32 \<Rightarrow> u16 \<Rightarrow> verify_stop + prepared_int_loop_descriptor" where
  "check_prepared_int_loop_descriptor c at d =
     ok_or (Err (NumericDescriptorOutOfRange at d))
       (list_get (prepared_int_loop_descriptors c) (unat d))"

definition check_int_step_loop_descriptor ::
  "chunk \<Rightarrow> u32 \<Rightarrow> u16 \<Rightarrow> verify_stop + int_step_loop_descriptor" where
  "check_int_step_loop_descriptor c at d =
     ok_or (Err (NumericDescriptorOutOfRange at d))
       (list_get (int_step_loop_descriptors c) (unat d))"

definition check_float_squares_sum_branch_descriptor ::
  "chunk \<Rightarrow> u32 \<Rightarrow> u16 \<Rightarrow> verify_stop + float_squares_sum_branch_descriptor" where
  "check_float_squares_sum_branch_descriptor c at d =
     ok_or (Err (NumericDescriptorOutOfRange at d))
       (list_get (float_squares_sum_branch_descriptors c) (unat d))"

definition check_float_pair_update_descriptor ::
  "chunk \<Rightarrow> u32 \<Rightarrow> u16 \<Rightarrow> verify_stop + float_pair_update_descriptor" where
  "check_float_pair_update_descriptor c at d =
     ok_or (Err (NumericDescriptorOutOfRange at d))
       (list_get (float_pair_update_descriptors c) (unat d))"

definition check_property_initialization_descriptor ::
  "chunk \<Rightarrow> u32 \<Rightarrow> u16 \<Rightarrow> verify_stop + property_initialization_descriptor" where
  "check_property_initialization_descriptor c at d =
     ok_or (Err (PropertyInitializationDescriptorOutOfRange at d))
       (list_get (property_initialization_descriptors c) (unat d))"

definition check_switch_table :: "chunk \<Rightarrow> u32 \<Rightarrow> switch_table_index \<Rightarrow> verify_stop + switch_table"
  where
  "check_switch_table c at t =
     ok_or (Err (SwitchTableOutOfRange at t)) (list_get (switch_tables c) (unat t))"

definition check_preset_descriptor ::
  "chunk \<Rightarrow> u32 \<Rightarrow> preset_descriptor_index \<Rightarrow> verify_stop + preset_descriptor" where
  "check_preset_descriptor c at d =
     ok_or (Err (PresetDescriptorOutOfRange at d)) (list_get (preset_descriptors c) (unat d))"

definition check_cache :: "chunk \<Rightarrow> u32 \<Rightarrow> ic_slot \<Rightarrow> verify_stop + unit" where
  "check_cache c at slot = check (unat slot < length (ic_descriptors c)) (CacheSlotOutOfRange at slot)"

definition check_relative_target :: "chunk \<Rightarrow> u32 \<Rightarrow> int \<Rightarrow> verify_stop + unit" where
  "check_relative_target c at relative =
     (let target = int (unat at) + relative
      in check (0 \<le> target \<and> target < int (length (code c))) (JumpOutOfRange at target))"

definition check_jump :: "chunk \<Rightarrow> u32 \<Rightarrow> jump_offset \<Rightarrow> verify_stop + unit" where
  "check_jump c at rel = check_relative_target c at (sint rel)"

definition check_window :: "chunk \<Rightarrow> u32 \<Rightarrow> nat \<Rightarrow> nat \<Rightarrow> verify_stop + unit" where
  "check_window c at first n =
     check (first + n \<le> unat (register_count c)) (RegisterWindowOutOfRange at first n)"

definition verify_operand :: "chunk \<Rightarrow> u32 \<Rightarrow> instruction_operand \<Rightarrow> verify_stop + unit" where
  "verify_operand c at operand =
     (case operand of
        RegisterOperand r \<Rightarrow> check_register c at r
      | OptionalRegisterOperand r \<Rightarrow> check_optional_register c at r
      | ConstantOperand k \<Rightarrow> check_constant c at k
      | FloatConstantOperand k \<Rightarrow> check_float_constant c at k
      | CacheOperand slot \<Rightarrow> check_cache c at slot
      | JumpOperand rel \<Rightarrow> check_jump c at rel
      | RelativeTargetOperand rel \<Rightarrow> check_relative_target c at (sint rel)
      | SwitchTableOperand t \<Rightarrow> result_map (\<lambda>_. ()) (check_switch_table c at t)
      | TypeDescriptorOperand d \<Rightarrow> check_type_descriptor c at d
      | CallDescriptorOperand d \<Rightarrow> result_map (\<lambda>_. ()) (check_call_descriptor c at d)
      | PresetDescriptorOperand d \<Rightarrow> result_map (\<lambda>_. ()) (check_preset_descriptor c at d)
      | FloatPairUpdateDescriptorOperand d \<Rightarrow>
          result_map (\<lambda>_. ()) (check_float_pair_update_descriptor c at d)
      | FloatSquaresSumBranchDescriptorOperand d \<Rightarrow>
          result_map (\<lambda>_. ()) (check_float_squares_sum_branch_descriptor c at d)
      | IntStepLoopDescriptorOperand d \<Rightarrow>
          result_map (\<lambda>_. ()) (check_int_step_loop_descriptor c at d)
      | PreparedIntLoopDescriptorOperand d \<Rightarrow>
          result_map (\<lambda>_. ()) (check_prepared_int_loop_descriptor c at d)
      | PropertyInitializationDescriptorOperand d \<Rightarrow>
          result_map (\<lambda>_. ()) (check_property_initialization_descriptor c at d))"

section \<open>Checks of one instruction\<close>

primrec tuple_window_descriptor :: "nat \<Rightarrow> type_descriptor \<Rightarrow> bool" where
  "tuple_window_descriptor n WildcardT = False"
| "tuple_window_descriptor n MixedT = False"
| "tuple_window_descriptor n VoidT = False"
| "tuple_window_descriptor n NeverT = False"
| "tuple_window_descriptor n NullT = False"
| "tuple_window_descriptor n BoolT = False"
| "tuple_window_descriptor n IntT = False"
| "tuple_window_descriptor n UintT = False"
| "tuple_window_descriptor n FloatT = False"
| "tuple_window_descriptor n StringT = False"
| "tuple_window_descriptor n (StringLengthT _ _) = False"
| "tuple_window_descriptor n ObjectT = False"
| "tuple_window_descriptor n TrueLiteralT = False"
| "tuple_window_descriptor n FalseLiteralT = False"
| "tuple_window_descriptor n (IntLiteralT _) = False"
| "tuple_window_descriptor n (UintLiteralT _) = False"
| "tuple_window_descriptor n (UintRangeT _ _) = False"
| "tuple_window_descriptor n (IntRangeT _ _) = False"
| "tuple_window_descriptor n (FloatLiteralT _) = False"
| "tuple_window_descriptor n (StringLiteralT _) = False"
| "tuple_window_descriptor n (NamedT _ _ _) = False"
| "tuple_window_descriptor n (MemberT _ _ _ _) = False"
| "tuple_window_descriptor n (ParameterT _) = False"
| "tuple_window_descriptor n StaticClassT = False"
| "tuple_window_descriptor n (ArrayT _) = False"
| "tuple_window_descriptor n (VectorT _) = False"
| "tuple_window_descriptor n (VectorShapeT _ _) = False"
| "tuple_window_descriptor n (DictionaryT _) = False"
| "tuple_window_descriptor n (DictionaryShapeT _ _) = False"
| "tuple_window_descriptor n (CallableT _) = False"
| "tuple_window_descriptor n (ClassnameT _) = False"
| "tuple_window_descriptor n (TupleT elements) =
     (length elements = n \<and> list_all descriptor_is_trivial elements)"
| "tuple_window_descriptor n (TupleRestT elements rest) =
     (length elements \<le> n \<and> list_all descriptor_is_trivial elements \<and> descriptor_is_trivial rest)"
| "tuple_window_descriptor n TupleAnyT = False"
| "tuple_window_descriptor n (UnionT members) =
     list_all id (map (tuple_window_descriptor n) members)"
| "tuple_window_descriptor n (IntersectionT members) =
     list_all id (map (tuple_window_descriptor n) members)"
| "tuple_window_descriptor n (NegatedT _) = False"
| "tuple_window_descriptor n (ObjectShapeT _ _) = False"
| "tuple_window_descriptor n FreshT = False"

definition verify_compare :: "chunk \<Rightarrow> u32 \<Rightarrow> compare_instruction \<Rightarrow> verify_stop + unit" where
  "verify_compare c at i =
     (case i of
        ConcatenateRightConstant _ _ message \<Rightarrow> check_string_constant c at message
      | ConcatenateLeftConstant _ _ message \<Rightarrow> check_string_constant c at message
      | _ \<Rightarrow> Inr ())"

definition verify_float :: "chunk \<Rightarrow> u32 \<Rightarrow> float_instruction \<Rightarrow> verify_stop + unit" where
  "verify_float c at i =
     (case i of
        FloatDifferenceAdd _ first_operand _ \<Rightarrow> check_window c at (unat first_operand) 2
      | FloatScaleProductAdd _ first_operand _ \<Rightarrow> check_window c at (unat first_operand) 3
      | Squares first_destination _ _ \<Rightarrow> check_window c at (unat first_destination) 2
      | FloatSquares first_destination _ _ \<Rightarrow> check_window c at (unat first_destination) 2
      | FloatSquaresSum first_destination _ _ \<Rightarrow> check_window c at (unat first_destination) 3
      | FloatSquaresSumBranch descriptor _ \<Rightarrow>
          result_bind (check_float_squares_sum_branch_descriptor c at descriptor) (\<lambda>d. run_checks
            [check_register c at (sum_destination d),
             check_register c at (first_square_destination d),
             check_register c at (second_square_destination d),
             check_register c at (squares_first_source d),
             check_register c at (squares_second_source d),
             check_float_constant c at (squares_constant d)])
      | FloatPairUpdate descriptor \<Rightarrow>
          result_bind (check_float_pair_update_descriptor c at descriptor) (\<lambda>d. run_checks
            [check_register c at (pair_first_destination d),
             check_window c at (unat (pair_first_operand d)) 3,
             check_float_constant c at (pair_constant d),
             check_register c at (pair_second_destination d),
             check_window c at (unat (pair_second_operand d)) 2,
             check_register c at (pair_second_addend d)])
      | _ \<Rightarrow> Inr ())"

text \<open>The loop over the set bits of a mask, from the lowest.\<close>

definition trailing_zeros :: "u64 \<Rightarrow> nat" where
  "trailing_zeros w = length (takeWhile (\<lambda>i. \<not> bit w i) [0..<64])"

lemma clear_lowest_less: "w \<noteq> 0 \<Longrightarrow> unat (w AND (w - 1)) < unat (w :: u64)"
  using word_and_le1 [of w "w - 1"]
  by (metis and.commute gr_zeroI le_less_trans measure_unat unat_0_iff word_and_le1 word_le_nat_alt)

function check_mask_registers :: "chunk \<Rightarrow> u32 \<Rightarrow> u64 \<Rightarrow> verify_stop + unit" where
  "check_mask_registers c at remaining =
     (if remaining = 0 then Inr ()
      else result_bind (check_register c at (of_nat (trailing_zeros remaining)))
             (\<lambda>_. check_mask_registers c at (remaining AND (remaining - 1))))"
  by pat_completeness auto
termination
  by (relation "measure (\<lambda>(_, _, remaining). unat remaining)") (auto intro: clear_lowest_less)

declare check_mask_registers.simps [simp del]

definition verify_loop :: "chunk \<Rightarrow> u32 \<Rightarrow> loop_instruction \<Rightarrow> verify_stop + unit" where
  "verify_loop c at i =
     (case i of
        PreparedIntNumericLoop descriptor _ \<Rightarrow>
          result_bind (check_prepared_int_loop_descriptor c at descriptor) (\<lambda>d. run_checks
            [check_register c at (prepared_counter d),
             check_register c at (prepared_limit d),
             check_mask_registers c at (float_registers d)])
      | IntStepLoop descriptor _ \<Rightarrow>
          result_bind (check_int_step_loop_descriptor c at descriptor) (\<lambda>d. run_checks
            [check_register c at (step_counter d),
             check_register c at (step_limit d),
             check_register c at (step_register d)])
      | _ \<Rightarrow> Inr ())"

definition property_initialization_invalid ::
  "property_initialization_descriptor \<Rightarrow> register \<Rightarrow> bool" where
  "property_initialization_invalid d object \<longleftrightarrow>
     length (initialization_entries d) < 2 \<or>
     list_ex (\<lambda>e. \<not> fresh_receiver (entry_value_mode e)) (initialization_entries d) \<or>
     (allocates d \<and>
      list_ex (\<lambda>(index, e). unat (entry_slot e) \<noteq> index \<or> entry_value e = object)
        (enumerate_from 0 (initialization_entries d)))"

definition verify_object :: "chunk \<Rightarrow> u32 \<Rightarrow> object_instruction \<Rightarrow> verify_stop + unit" where
  "verify_object c at i =
     (case i of
        PropertyFillIntRange _ first_operand _ \<Rightarrow> check_window c at (unat first_operand) 2
      | PropertyIndexSet _ first_operand _ \<Rightarrow> check_window c at (unat first_operand) 2
      | PropertyIndexSetUnchecked _ first_operand _ \<Rightarrow> check_window c at (unat first_operand) 2
      | PropertyRemove _ destination _ mode \<Rightarrow>
          if uses_operand mode then check_window c at (unat destination) 2 else Inr ()
      | PropertyRemoveUnchecked _ destination _ mode \<Rightarrow>
          if uses_operand mode then check_window c at (unat destination) 2 else Inr ()
      | InitializeProperties object cache descriptor \<Rightarrow>
          result_bind (check_register c at object) (\<lambda>_.
          result_bind (check_cache c at cache) (\<lambda>_.
          result_bind (check_property_initialization_descriptor c at descriptor) (\<lambda>d.
            if property_initialization_invalid d object
            then Inl (Err (PropertyInitializationDescriptorInvalid at))
            else run_checks
              (map (\<lambda>e. check_register c at (entry_value e)) (initialization_entries d)))))
      | _ \<Rightarrow> Inr ())"

definition check_targets :: "chunk \<Rightarrow> u32 \<Rightarrow> u32 list \<Rightarrow> u32 \<Rightarrow> verify_stop + unit" where
  "check_targets c at targets default_target =
     result_bind (run_checks (map (\<lambda>t. check_relative_target c at (sint t)) targets))
       (\<lambda>_. check_relative_target c at (sint default_target))"

text \<open>Which table kinds an instruction may name.\<close>

definition valid_kind :: "switch_instruction \<Rightarrow> switch_table \<Rightarrow> bool" where
  "valid_kind i t \<longleftrightarrow>
     (case i of
        SwitchInt _ _ \<Rightarrow> (case t of IntTable _ _ _ \<Rightarrow> True | _ \<Rightarrow> False)
      | SwitchString _ _ \<Rightarrow>
          (case t of StringTable _ _ _ \<Rightarrow> True | StringByteTable _ _ _ \<Rightarrow> True | _ \<Rightarrow> False)
      | SwitchBool _ _ \<Rightarrow> (case t of BoolTable _ _ \<Rightarrow> True | _ \<Rightarrow> False)
      | SwitchFloat _ _ \<Rightarrow> (case t of FloatTable _ _ _ \<Rightarrow> True | _ \<Rightarrow> False)
      | SwitchPattern _ _ \<Rightarrow>
          (case t of PatternTable _ _ _ \<Rightarrow> True | DictionaryShapeTable _ _ _ _ \<Rightarrow> True | _ \<Rightarrow> False)
      | SwitchTuplePattern _ _ _ \<Rightarrow> (case t of PatternTable _ _ _ \<Rightarrow> True | _ \<Rightarrow> False)
      | _ \<Rightarrow> False)"

text \<open>The descriptors of a pattern table, with the window check of a tuple pattern before them.\<close>

definition valid_descriptors ::
  "chunk \<Rightarrow> u32 \<Rightarrow> switch_instruction \<Rightarrow> type_descriptor list \<Rightarrow> verify_stop + bool" where
  "valid_descriptors c at i descriptors =
     (case i of
        SwitchTuplePattern first_element element_count _ \<Rightarrow>
          result_bind (check_window c at (unat first_element) (unat element_count))
            (\<lambda>_. Inr (list_all (tuple_window_descriptor (unat element_count)) descriptors))
      | _ \<Rightarrow> Inr (list_all descriptor_is_trivial descriptors))"

definition verify_table ::
  "(string \<Rightarrow> u64) \<Rightarrow> chunk \<Rightarrow> u32 \<Rightarrow> switch_instruction \<Rightarrow> switch_table \<Rightarrow> verify_stop + unit" where
  "verify_table xxh3 c at i t =
     (case t of
        IntTable _ targets default_target \<Rightarrow> check_targets c at targets default_target
      | StringByteTable _ targets default_target \<Rightarrow> check_targets c at targets default_target
      | StringTable arms buckets default_target \<Rightarrow>
          (case string_switch_buckets xxh3 arms of
             None \<Rightarrow> Inl (Panics IndexMustFitU32)
           | Some expected \<Rightarrow>
               if expected \<noteq> buckets then Inl (Err (SwitchTableInvalid at))
               else check_targets c at (map snd arms) default_target)
      | PatternTable descriptors targets default_target \<Rightarrow>
          result_bind (valid_descriptors c at i descriptors) (\<lambda>ok.
            if length descriptors \<noteq> length targets \<or> \<not> ok
            then Inl (Err (SwitchTableInvalid at))
            else check_targets c at targets default_target)
      | DictionaryShapeTable keys patterns targets default_target \<Rightarrow>
          if keys = [] \<or> length keys > 8 \<or> length patterns \<noteq> length targets \<or>
             list_ex (\<lambda>pattern. length pattern \<noteq> length keys
                \<or> \<not> list_all descriptor_is_trivial pattern) patterns
          then Inl (Err (SwitchTableInvalid at))
          else check_targets c at targets default_target
      | BoolTable targets default_target \<Rightarrow>
          if length targets \<noteq> 2 then Inl (Err (SwitchTableInvalid at))
          else check_targets c at targets default_target
      | FloatTable values targets default_target \<Rightarrow>
          if length values \<noteq> length targets then Inl (Err (SwitchTableInvalid at))
          else check_targets c at targets default_target)"

definition range_kind_matches :: "integer_kind \<Rightarrow> type_descriptor \<Rightarrow> bool" where
  "range_kind_matches kind d \<longleftrightarrow>
     (case d of IntRangeT _ _ \<Rightarrow> kind = I64 | UintRangeT _ _ \<Rightarrow> kind = U64 | _ \<Rightarrow> False)"

definition verify_range_jump ::
  "chunk \<Rightarrow> u32 \<Rightarrow> descriptor_index \<Rightarrow> integer_kind \<Rightarrow> verify_stop + unit" where
  "verify_range_jump c at d kind =
     result_bind (or_panic (table_entry (type_descriptors c) d))
       (\<lambda>t. check (range_kind_matches kind t) (TypeDescriptorKindInvalid at d))"

definition switch_table_of :: "switch_instruction \<Rightarrow> switch_table_index option" where
  "switch_table_of i =
     (case i of
        SwitchInt _ t \<Rightarrow> Some t
      | SwitchString _ t \<Rightarrow> Some t
      | SwitchBool _ t \<Rightarrow> Some t
      | SwitchFloat _ t \<Rightarrow> Some t
      | SwitchPattern _ t \<Rightarrow> Some t
      | SwitchTuplePattern _ _ t \<Rightarrow> Some t
      | _ \<Rightarrow> None)"

definition verify_switch ::
  "(string \<Rightarrow> u64) \<Rightarrow> chunk \<Rightarrow> u32 \<Rightarrow> switch_instruction \<Rightarrow> verify_stop + unit" where
  "verify_switch xxh3 c at i =
     (case switch_table_of i of
        Some table \<Rightarrow>
          result_bind (check_switch_table c at table) (\<lambda>t.
            if \<not> valid_kind i t then Inl (Err (SwitchTableInvalid at))
            else verify_table xxh3 c at i t)
      | None \<Rightarrow>
          (case i of
             IntegerRangeJumpIf _ d _ kind \<Rightarrow> verify_range_jump c at d kind
           | IntegerRangeJumpUnless _ d _ kind \<Rightarrow> verify_range_jump c at d kind
           | _ \<Rightarrow> Inr ()))"

definition verify_array :: "chunk \<Rightarrow> u32 \<Rightarrow> array_instruction \<Rightarrow> verify_stop + unit" where
  "verify_array c at i =
     (case i of
        NewArray n _ first_element kind \<Rightarrow>
          check_window c at (unat first_element) (unat (array_register_count kind n))
      | IndexGetPath index_count _ _ first_index \<Rightarrow>
          result_bind (check_window c at (unat first_index) (unat index_count))
            (\<lambda>_. check (index_count \<noteq> 0) (IndexPathInvalid at))
      | _ \<Rightarrow> Inr ())"

definition is_jump :: "instruction \<Rightarrow> bool" where
  "is_jump ins \<longleftrightarrow> (case ins of Branch (Jump _) \<Rightarrow> True | _ \<Rightarrow> False)"

definition is_drain_finalizers :: "instruction \<Rightarrow> bool" where
  "is_drain_finalizers ins \<longleftrightarrow> (case ins of CheckOp DrainFinalizers \<Rightarrow> True | _ \<Rightarrow> False)"

definition verify_foreach_next :: "chunk \<Rightarrow> u32 \<Rightarrow> verify_stop + unit" where
  "verify_foreach_next c at =
     (let next = (case list_get (code c) (unat at + 1) of
                    Some ins \<Rightarrow> if is_drain_finalizers ins then unat at + 2 else unat at + 1
                  | None \<Rightarrow> unat at + 1)
      in case list_get (code c) next of
           Some ins \<Rightarrow> check (is_jump ins) (ForeachNextWithoutJump at)
         | None \<Rightarrow> Inl (Err (ForeachNextWithoutJump at)))"

definition verify_update :: "chunk \<Rightarrow> u32 \<Rightarrow> update_instruction \<Rightarrow> verify_stop + unit" where
  "verify_update c at i =
     (case i of
        IndexUpdatePath index_count _ container operand \<Rightarrow>
          (let first = unat operand; n = unat index_count + 1
           in result_bind (check_window c at first n)
                (\<lambda>_. check (\<not> (n = 1 \<or> (first \<le> unat container \<and> unat container < first + n)))
                        (IndexPathInvalid at)))
      | IndexSetPath index_count container first_index _ \<Rightarrow>
          (let first = unat first_index; n = unat index_count
           in result_bind (check_window c at first n)
                (\<lambda>_. check (\<not> (n = 0 \<or> (first \<le> unat container \<and> unat container < first + n)))
                        (IndexPathInvalid at)))
      | ForeachNext _ _ _ \<Rightarrow> verify_foreach_next c at
      | VecForeachNext _ _ _ _ \<Rightarrow> verify_foreach_next c at
      | DictForeachNext _ _ _ _ \<Rightarrow> verify_foreach_next c at
      | _ \<Rightarrow> Inr ())"

definition is_given :: "preset_slot \<Rightarrow> bool" where
  "is_given s \<longleftrightarrow> (case s of GivenPositional \<Rightarrow> True | GivenNamed _ \<Rightarrow> True | _ \<Rightarrow> False)"

definition verify_named_call :: "chunk \<Rightarrow> u32 \<Rightarrow> register \<Rightarrow> u16 \<Rightarrow> verify_stop + unit" where
  "verify_named_call c at callee_register descriptor =
     result_bind (check_call_descriptor c at descriptor) (\<lambda>shape.
       check_window c at (unat callee_register + 1) (unat (positional shape) + length (named shape)))"

definition verify_call :: "chunk \<Rightarrow> u32 \<Rightarrow> call_instruction \<Rightarrow> verify_stop + unit" where
  "verify_call c at i =
     (case i of
        CallValue n _ _ first_argument \<Rightarrow> check_window c at (unat first_argument) (unat n)
      | CallValueUnchecked n _ _ first_argument \<Rightarrow> check_window c at (unat first_argument) (unat n)
      | CallValueDiscarded n _ _ first_argument \<Rightarrow> check_window c at (unat first_argument) (unat n)
      | CallNamed n _ first_argument _ \<Rightarrow> check_window c at (unat first_argument) (unat n)
      | CallNamedDiscarded n _ first_argument _ \<Rightarrow> check_window c at (unat first_argument) (unat n)
      | CallNamedUnchecked n _ first_argument _ \<Rightarrow> check_window c at (unat first_argument) (unat n)
      | CallMethod n _ first_argument _ \<Rightarrow> check_window c at (unat first_argument) (unat n)
      | CallMethodDiscarded n _ first_argument _ \<Rightarrow> check_window c at (unat first_argument) (unat n)
      | CallMethodUnchecked n _ first_argument _ \<Rightarrow> check_window c at (unat first_argument) (unat n)
      | CallNamedDirect n _ first_argument _ \<Rightarrow> check_window c at (unat first_argument) (unat n)
      | CallMethodDirect n _ first_argument _ \<Rightarrow> check_window c at (unat first_argument) (unat n)
      | CallStatic n _ first_argument _ \<Rightarrow> check_window c at (unat first_argument) (unat n)
      | CallStaticDiscarded n _ first_argument _ \<Rightarrow> check_window c at (unat first_argument) (unat n)
      | CallSelfUnchecked n _ first_argument \<Rightarrow> check_window c at (unat first_argument) (unat n)
      | CallWithNames _ callee_register descriptor \<Rightarrow>
          verify_named_call c at callee_register descriptor
      | CallWithNamesDiscarded _ callee_register descriptor \<Rightarrow>
          verify_named_call c at callee_register descriptor
      | MakeBound _ callee_register descriptor \<Rightarrow>
          result_bind (check_preset_descriptor c at descriptor) (\<lambda>shape.
            check_window c at (unat callee_register + 1) (length (filter is_given (slots shape))))
      | MakeClosure n _ _ first_capture \<Rightarrow> check_window c at (unat first_capture) (unat n)
      | _ \<Rightarrow> Inr ())"

definition verify_check :: "chunk \<Rightarrow> u32 \<Rightarrow> check_instruction \<Rightarrow> verify_stop + unit" where
  "verify_check c at i =
     (case i of
        Write n first_value _ _ \<Rightarrow> check_window c at (unat first_value) (unat n)
      | Debug n first_value \<Rightarrow> check_window c at (unat first_value) (unat n)
      | Assert n first_value _ _ \<Rightarrow> check_window c at (unat first_value) (unat n + 1)
      | _ \<Rightarrow> Inr ())"

definition verify_instruction ::
  "(string \<Rightarrow> u64) \<Rightarrow> chunk \<Rightarrow> u32 \<Rightarrow> instruction \<Rightarrow> verify_stop + unit" where
  "verify_instruction xxh3 c at ins =
     result_bind (try_visit_operands ins (verify_operand c at)) (\<lambda>_.
       case ins of
         FloatOp i \<Rightarrow> verify_float c at i
       | CompareOp i \<Rightarrow> verify_compare c at i
       | Switch i \<Rightarrow> verify_switch xxh3 c at i
       | LoopOp i \<Rightarrow> verify_loop c at i
       | ArrayOp i \<Rightarrow> verify_array c at i
       | ArrayUpdate i \<Rightarrow> verify_update c at i
       | ObjectOp i \<Rightarrow> verify_object c at i
       | CallOp i \<Rightarrow> verify_call c at i
       | CheckOp i \<Rightarrow> verify_check c at i
       | _ \<Rightarrow> Inr ())"

section \<open>Checks of a chunk\<close>

definition is_terminator :: "instruction \<Rightarrow> bool" where
  "is_terminator ins \<longleftrightarrow>
     (case ins of
        Branch (Jump _) \<Rightarrow> True
      | LoopOp (NumericRegionJump _) \<Rightarrow> True
      | ReturnOp _ \<Rightarrow> True
      | CheckOp (Throw _) \<Rightarrow> True
      | CheckOp (Exit _) \<Rightarrow> True
      | CheckOp (Panic _) \<Rightarrow> True
      | _ \<Rightarrow> False)"

definition verify_catch_entry :: "chunk \<Rightarrow> u32 \<Rightarrow> nat \<Rightarrow> catch_entry \<Rightarrow> verify_stop + unit" where
  "verify_catch_entry c len index e = run_checks
     [check (\<not> (catch_start e > catch_end e \<or> catch_end e > len))
        (CatchRangeInvalid index (catch_start e) (catch_end e)),
      check (handler e < len) (CatchHandlerOutOfRange index (handler e)),
      check (unat (catch_type_descriptor e) < length (type_descriptors c))
        (CatchTypeDescriptorOutOfRange index (catch_type_descriptor e)),
      check (temporary_floor e \<le> register_count c)
        (CatchTemporaryFloorOutOfRange index (temporary_floor e)),
      (case binding e of
         Some r \<Rightarrow> check (r < register_count c) (CatchBindingOutOfRange index r)
       | None \<Rightarrow> Inr ())]"

definition verify_catch_table :: "chunk \<Rightarrow> verify_stop + unit" where
  "verify_catch_table c =
     result_bind (or_panic (u32_index (length (code c)))) (\<lambda>len.
       run_checks (map (\<lambda>(index, e). verify_catch_entry c len index e)
         (enumerate_from 0 (catch_table c))))"

definition verify_trace_arguments :: "chunk \<Rightarrow> verify_stop + unit" where
  "verify_trace_arguments c =
     run_checks (map (\<lambda>(argument, r).
         check (r = register_NONE \<or> r < local_register_count c)
           (TraceArgumentRegisterOutOfRange argument r (local_register_count c)))
       (enumerate_from 0 (trace_argument_registers c)))"

definition verify_code :: "(string \<Rightarrow> u64) \<Rightarrow> chunk \<Rightarrow> verify_stop + unit" where
  "verify_code xxh3 c =
     run_checks (map (\<lambda>(index, ins).
         result_bind (or_panic (u32_index index)) (\<lambda>at. verify_instruction xxh3 c at ins))
       (enumerate_from 0 (code c)))"

definition verify :: "(string \<Rightarrow> u64) \<Rightarrow> chunk \<Rightarrow> verify_stop + unit" where
  "verify xxh3 c = run_checks
     [check (local_register_count c \<le> register_count c)
        (LocalRegistersOutOfRange (local_register_count c) (register_count c)),
      check (unat (parameter_register_start c) + unat (parameter_register_count c)
             \<le> unat (local_register_count c))
        (ParameterRegistersOutOfRange (parameter_register_start c)
          (unat (parameter_register_count c)) (local_register_count c)),
      check (trace_argument_registers c = [] \<or>
             length (trace_argument_registers c) = unat (parameter_register_count c))
        (TraceArgumentCountMismatch (parameter_register_count c)
          (length (trace_argument_registers c))),
      verify_trace_arguments c,
      check (length (spans c) = length (code c))
        (SpanCountMismatch (length (code c)) (length (spans c))),
      verify_code xxh3 c,
      check (code c \<noteq> [] \<and> is_terminator (last (code c))) (MissingTerminator (length (code c))),
      verify_catch_table c]"

lemmas check_defs =
  check_register_def check_optional_register_def check_constant_def check_float_constant_def
  check_string_constant_def check_type_descriptor_def check_call_descriptor_def
  check_prepared_int_loop_descriptor_def check_int_step_loop_descriptor_def
  check_float_squares_sum_branch_descriptor_def check_float_pair_update_descriptor_def
  check_property_initialization_descriptor_def check_switch_table_def check_preset_descriptor_def
  check_cache_def check_relative_target_def check_jump_def check_window_def

section \<open>What a verified chunk guarantees\<close>

lemma verify_Inr:
  "verify xxh3 c = Inr () \<longleftrightarrow>
     local_register_count c \<le> register_count c \<and>
     unat (parameter_register_start c) + unat (parameter_register_count c)
       \<le> unat (local_register_count c) \<and>
     (trace_argument_registers c = [] \<or>
      length (trace_argument_registers c) = unat (parameter_register_count c)) \<and>
     verify_trace_arguments c = Inr () \<and> length (spans c) = length (code c) \<and>
     verify_code xxh3 c = Inr () \<and> code c \<noteq> [] \<and> is_terminator (last (code c)) \<and>
     verify_catch_table c = Inr ()"
  by (simp add: verify_def)

lemma verify_code_Inr:
  "verify_code xxh3 c = Inr () \<longleftrightarrow>
     (\<forall>i<length (code c). i < 2 ^ 32 \<and>
        verify_instruction xxh3 c (of_nat i) (code c ! i) = Inr ())"
  by (force simp: verify_code_def run_checks_Inr set_enumerate_from)

lemma verified_instruction:
  assumes "verify xxh3 c = Inr ()" "i < length (code c)"
  shows "verify_instruction xxh3 c (of_nat i) (code c ! i) = Inr ()" "i < 2 ^ 32"
  using assms by (simp_all add: verify_Inr verify_code_Inr)

lemma verified_length:
  assumes "verify xxh3 c = Inr ()"
  shows "0 < length (code c)" "length (code c) < 2 ^ 32"
  using assms by (auto simp: verify_Inr verify_catch_table_def)

lemma verified_operand:
  assumes "verify xxh3 c = Inr ()" "i < length (code c)"
    and "operand \<in> set (instruction_operands (code c ! i))"
  shows "verify_operand c (of_nat i) operand = Inr ()"
  using verified_instruction(1) [OF assms(1,2)] assms(3)
  by (simp add: verify_instruction_def try_visit_operands_Inr)

lemma verified_catch_entry:
  assumes "verify xxh3 c = Inr ()" "e \<in> set (catch_table c)"
  shows "unat (catch_start e) \<le> unat (catch_end e)" "unat (catch_end e) \<le> length (code c)"
    "unat (handler e) < length (code c)" "unat (catch_type_descriptor e) < length (type_descriptors c)"
    "temporary_floor e \<le> register_count c" "binding e = Some r \<Longrightarrow> r < register_count c"
proof -
  obtain j where j: "j < length (catch_table c)" "e = catch_table c ! j"
    using assms(2) by (auto simp: in_set_conv_nth)
  then have "verify_catch_entry c (of_nat (length (code c))) j e = Inr ()"
    using assms(1) by (force simp: verify_Inr verify_catch_table_def run_checks_Inr set_enumerate_from)
  with verified_length [OF assms(1)]
  show "unat (catch_start e) \<le> unat (catch_end e)" "unat (catch_end e) \<le> length (code c)"
    "unat (handler e) < length (code c)" "unat (catch_type_descriptor e) < length (type_descriptors c)"
    "temporary_floor e \<le> register_count c" "binding e = Some r \<Longrightarrow> r < register_count c"
    by (auto simp: verify_catch_entry_def word_less_nat_alt word_le_nat_alt not_less)
qed

text \<open>What an accepted operand promises, for each kind of operand.\<close>

definition operand_valid :: "chunk \<Rightarrow> nat \<Rightarrow> instruction_operand \<Rightarrow> bool" where
  "operand_valid c i operand \<longleftrightarrow>
     (case operand of
        RegisterOperand r \<Rightarrow> unat r < unat (register_count c)
      | OptionalRegisterOperand r \<Rightarrow> r = register_NONE \<or> unat r < unat (register_count c)
      | ConstantOperand k \<Rightarrow> unat k < length (constants c)
      | FloatConstantOperand k \<Rightarrow> (\<exists>f. list_get (constants c) (unat k) = Some (FloatLit f))
      | CacheOperand slot \<Rightarrow> unat slot < length (ic_descriptors c)
      | JumpOperand rel \<Rightarrow> 0 \<le> int i + sint rel \<and> int i + sint rel < int (length (code c))
      | RelativeTargetOperand rel \<Rightarrow>
          0 \<le> int i + sint rel \<and> int i + sint rel < int (length (code c))
      | SwitchTableOperand t \<Rightarrow> unat t < length (switch_tables c)
      | TypeDescriptorOperand d \<Rightarrow> unat d < length (type_descriptors c)
      | CallDescriptorOperand d \<Rightarrow> unat d < length (call_descriptors c)
      | PresetDescriptorOperand d \<Rightarrow> unat d < length (preset_descriptors c)
      | FloatPairUpdateDescriptorOperand d \<Rightarrow> unat d < length (float_pair_update_descriptors c)
      | FloatSquaresSumBranchDescriptorOperand d \<Rightarrow>
          unat d < length (float_squares_sum_branch_descriptors c)
      | IntStepLoopDescriptorOperand d \<Rightarrow> unat d < length (int_step_loop_descriptors c)
      | PreparedIntLoopDescriptorOperand d \<Rightarrow> unat d < length (prepared_int_loop_descriptors c)
      | PropertyInitializationDescriptorOperand d \<Rightarrow>
          unat d < length (property_initialization_descriptors c))"

lemma is_float_literal_iff: "is_float_literal l \<longleftrightarrow> (\<exists>f. l = FloatLit f)"
  by (cases l) (auto simp: is_float_literal_def)

lemma verify_operand_iff:
  assumes "i < 2 ^ 32"
  shows "verify_operand c (of_nat i) operand = Inr () \<longleftrightarrow> operand_valid c i operand"
proof -
  have [simp]: "uint (word_of_nat i :: u32) = int i"
    using assms by (simp add: unsigned_of_nat take_bit_nat_eq_self)
  show ?thesis
    by (cases operand)
      (auto simp: verify_operand_def operand_valid_def check_defs Let_def table_entry_def
        word_less_nat_alt is_float_literal_iff)
qed

lemma check_targets_Inr:
  assumes "i < 2 ^ 32"
  shows "check_targets c (of_nat i) targets d = Inr () \<longleftrightarrow>
    (\<forall>rel\<in>set (targets @ [d]). 0 \<le> int i + sint rel \<and> int i + sint rel < int (length (code c)))"
proof -
  have [simp]: "uint (word_of_nat i :: u32) = int i"
    using assms by (simp add: unsigned_of_nat take_bit_nat_eq_self)
  show ?thesis
    by (auto simp: check_targets_def run_checks_Inr check_relative_target_def Let_def)
qed
subsection \<open>The registers of a mask\<close>

lemma trailing_zeros_bit:
  assumes "w \<noteq> 0"
  shows "bit w (trailing_zeros w)" "trailing_zeros w < 64" "n < trailing_zeros w \<Longrightarrow> \<not> bit w n"
proof -
  obtain k where k: "bit w k" using assms by (auto simp: bit_eq_iff)
  then have "k < 64" by (auto dest: bit_imp_le_length)
  let ?P = "\<lambda>i. \<not> bit w i"
  have lt: "length (takeWhile ?P [0..<64]) < 64"
  proof (rule ccontr)
    assume "\<not> ?thesis"
    then have "takeWhile ?P [0..<64] = [0..<64]"
      by (metis length_takeWhile_le length_upt diff_zero not_less order_antisym
          takeWhile_eq_take take_all)
    with k \<open>k < 64\<close> show False by (auto simp: takeWhile_eq_all_conv)
  qed
  then show "trailing_zeros w < 64" by (simp add: trailing_zeros_def)
  from lt nth_length_takeWhile [of ?P "[0..<64]"]
  show "bit w (trailing_zeros w)" by (simp add: trailing_zeros_def)
  show "\<not> bit w n" if "n < trailing_zeros w" for n
    using that lt nth_mem [of n "takeWhile ?P [0..<64]"] takeWhile_nth [of n ?P "[0..<64]"]
    by (auto simp: trailing_zeros_def dest!: set_takeWhileD)
qed

lemma clear_lowest_bit:
  fixes w :: u64
  assumes "w \<noteq> 0"
  shows "bit (w AND (w - 1)) n \<longleftrightarrow> bit w n \<and> n \<noteq> trailing_zeros w"
proof -
  define t where "t = trailing_zeros w"
  note tz = trailing_zeros_bit [OF assms, folded t_def]
  define s where "s = Suc t"
  have s: "s \<le> n \<longleftrightarrow> t < n" for n by (auto simp: s_def)
  have low: "s \<le> n" if "bit w n" "n \<noteq> t" for n
    using that tz(3) [of n] unfolding s_def by (cases "n < t") auto
  let ?high = "push_bit s (drop_bit s w)"
  have split: "w = ?high + push_bit t 1"
  proof -
    have "?high + push_bit t 1 = ?high OR push_bit t 1"
      by (rule disjunctive_add) (auto simp: bit_simps s)
    also have "\<dots> = w"
      by (rule bit_word_eqI) (use tz(1,2) in \<open>auto simp: bit_simps low dest: low\<close>)
    finally show ?thesis by simp
  qed
  have "w - 1 = ?high + mask t"
    by (subst split) (simp add: mask_eq_exp_minus_1 push_bit_eq_mult)
  also have "\<dots> = ?high OR mask t"
    by (rule disjunctive_add) (auto simp: bit_simps s)
  finally have "bit (w - 1) n \<longleftrightarrow> bit (?high OR mask t) n" by simp
  then show ?thesis
    using tz(1,2) s [of t]
    by (auto simp: bit_simps t_def [symmetric] low dest: low bit_imp_le_length)
qed

lemma check_mask_registers_Inr:
  "check_mask_registers c at w = Inr () \<longleftrightarrow> (\<forall>n. bit w n \<longrightarrow> n < unat (register_count c))"
proof (induction "unat w" arbitrary: w rule: less_induct)
  case less
  show ?case
  proof (cases "w = 0")
    case True
    then show ?thesis by (simp add: check_mask_registers.simps)
  next
    case False
    note tz = trailing_zeros_bit [OF False]
    have "check_mask_registers c at (w AND (w - 1)) = Inr () \<longleftrightarrow>
        (\<forall>n. bit (w AND (w - 1)) n \<longrightarrow> n < unat (register_count c))"
      by (rule less) (rule clear_lowest_less [OF False])
    moreover have "check_register c at (of_nat (trailing_zeros w)) = Inr () \<longleftrightarrow>
        trailing_zeros w < unat (register_count c)"
      using tz(2) by (simp add: check_register_def word_less_nat_alt)
    ultimately show ?thesis
      using False tz(1) by (subst check_mask_registers.simps) (auto simp: clear_lowest_bit)
  qed
qed
subsection \<open>The registers of an instruction\<close>

text \<open>
  The registers beside its operands that an instruction reads or writes: the windows of calls,
  arrays and fused operations, and the registers its side-table entry names.
\<close>

definition window :: "register \<Rightarrow> nat \<Rightarrow> nat set" where
  "window first n = {unat first..<unat first + n}"

definition float_registers_of :: "chunk \<Rightarrow> float_instruction \<Rightarrow> nat set" where
  "float_registers_of c i =
     (case i of
        FloatDifferenceAdd _ first_operand _ \<Rightarrow> window first_operand 2
      | FloatScaleProductAdd _ first_operand _ \<Rightarrow> window first_operand 3
      | Squares first_destination _ _ \<Rightarrow> window first_destination 2
      | FloatSquares first_destination _ _ \<Rightarrow> window first_destination 2
      | FloatSquaresSum first_destination _ _ \<Rightarrow> window first_destination 3
      | FloatSquaresSumBranch d _ \<Rightarrow>
          (let e = float_squares_sum_branch_descriptors c ! unat d
           in unat ` {sum_destination e, first_square_destination e, second_square_destination e,
                squares_first_source e, squares_second_source e})
      | FloatPairUpdate d \<Rightarrow>
          (let e = float_pair_update_descriptors c ! unat d
           in unat ` {pair_first_destination e, pair_second_destination e, pair_second_addend e}
                \<union> window (pair_first_operand e) 3 \<union> window (pair_second_operand e) 2)
      | _ \<Rightarrow> {})"

definition loop_registers_of :: "chunk \<Rightarrow> loop_instruction \<Rightarrow> nat set" where
  "loop_registers_of c i =
     (case i of
        PreparedIntNumericLoop d _ \<Rightarrow>
          (let e = prepared_int_loop_descriptors c ! unat d
           in unat ` {prepared_counter e, prepared_limit e} \<union> {n. bit (float_registers e) n})
      | IntStepLoop d _ \<Rightarrow>
          (let e = int_step_loop_descriptors c ! unat d
           in unat ` {step_counter e, step_limit e, step_register e})
      | _ \<Rightarrow> {})"

definition array_registers_of :: "array_instruction \<Rightarrow> nat set" where
  "array_registers_of i =
     (case i of
        NewArray n _ first_element kind \<Rightarrow>
          window first_element (unat n * (if kind = DictKind then 2 else 1))
      | IndexGetPath n _ _ first_index \<Rightarrow> window first_index (unat n)
      | _ \<Rightarrow> {})"

definition update_registers_of :: "update_instruction \<Rightarrow> nat set" where
  "update_registers_of i =
     (case i of
        IndexUpdatePath n _ _ operand \<Rightarrow> window operand (unat n + 1)
      | IndexSetPath n _ first_index _ \<Rightarrow> window first_index (unat n)
      | _ \<Rightarrow> {})"

definition object_registers_of :: "chunk \<Rightarrow> object_instruction \<Rightarrow> nat set" where
  "object_registers_of c i =
     (case i of
        PropertyFillIntRange _ first_operand _ \<Rightarrow> window first_operand 2
      | PropertyIndexSet _ first_operand _ \<Rightarrow> window first_operand 2
      | PropertyIndexSetUnchecked _ first_operand _ \<Rightarrow> window first_operand 2
      | PropertyRemove _ destination _ mode \<Rightarrow> if uses_operand mode then window destination 2 else {}
      | PropertyRemoveUnchecked _ destination _ mode \<Rightarrow>
          if uses_operand mode then window destination 2 else {}
      | InitializeProperties object _ d \<Rightarrow>
          insert (unat object) (unat ` entry_value `
            set (initialization_entries (property_initialization_descriptors c ! unat d)))
      | _ \<Rightarrow> {})"

definition call_registers_of :: "chunk \<Rightarrow> call_instruction \<Rightarrow> nat set" where
  "call_registers_of c i =
     (let named_window = (\<lambda>r d. let e = call_descriptors c ! unat d
            in {unat r + 1..<unat r + 1 + unat (positional e) + length (named e)})
      in case i of
        CallValue n _ _ first_argument \<Rightarrow> window first_argument (unat n)
      | CallValueUnchecked n _ _ first_argument \<Rightarrow> window first_argument (unat n)
      | CallValueDiscarded n _ _ first_argument \<Rightarrow> window first_argument (unat n)
      | CallNamed n _ first_argument _ \<Rightarrow> window first_argument (unat n)
      | CallNamedUnchecked n _ first_argument _ \<Rightarrow> window first_argument (unat n)
      | CallNamedDirect n _ first_argument _ \<Rightarrow> window first_argument (unat n)
      | CallNamedConstantUnchecked _ _ _ _ \<Rightarrow> {}
      | CallNamedDiscarded n _ first_argument _ \<Rightarrow> window first_argument (unat n)
      | CallMethod n _ first_argument _ \<Rightarrow> window first_argument (unat n)
      | CallMethodUnchecked n _ first_argument _ \<Rightarrow> window first_argument (unat n)
      | CallMethodDirect n _ first_argument _ \<Rightarrow> window first_argument (unat n)
      | CallMethodDiscarded n _ first_argument _ \<Rightarrow> window first_argument (unat n)
      | CallStatic n _ first_argument _ \<Rightarrow> window first_argument (unat n)
      | CallStaticDiscarded n _ first_argument _ \<Rightarrow> window first_argument (unat n)
      | CallSelfUnchecked n _ first_argument \<Rightarrow> window first_argument (unat n)
      | CallWithNames _ r d \<Rightarrow> named_window r d
      | CallWithNamesDiscarded _ r d \<Rightarrow> named_window r d
      | MakeBound _ r d \<Rightarrow>
          {unat r + 1..<unat r + 1 + length (filter is_given (slots (preset_descriptors c ! unat d)))}
      | MakeClosure n _ _ first_capture \<Rightarrow> window first_capture (unat n)
      | CheckDiscardedResult _ \<Rightarrow> {})"

definition switch_registers_of :: "switch_instruction \<Rightarrow> nat set" where
  "switch_registers_of i =
     (case i of SwitchTuplePattern first_element n _ \<Rightarrow> window first_element (unat n) | _ \<Rightarrow> {})"

definition check_registers_of :: "check_instruction \<Rightarrow> nat set" where
  "check_registers_of i =
     (case i of
        Write n first_value _ _ \<Rightarrow> window first_value (unat n)
      | Debug n first_value \<Rightarrow> window first_value (unat n)
      | Assert n first_value _ _ \<Rightarrow> window first_value (unat n + 1)
      | _ \<Rightarrow> {})"

definition instruction_registers :: "chunk \<Rightarrow> instruction \<Rightarrow> nat set" where
  "instruction_registers c ins =
     {unat r |r. RegisterOperand r \<in> set (instruction_operands ins)} \<union>
     {unat r |r. OptionalRegisterOperand r \<in> set (instruction_operands ins) \<and> r \<noteq> register_NONE} \<union>
     (case ins of
        FloatOp i \<Rightarrow> float_registers_of c i
      | Switch i \<Rightarrow> switch_registers_of i
      | LoopOp i \<Rightarrow> loop_registers_of c i
      | ArrayOp i \<Rightarrow> array_registers_of i
      | ArrayUpdate i \<Rightarrow> update_registers_of i
      | ObjectOp i \<Rightarrow> object_registers_of c i
      | CallOp i \<Rightarrow> call_registers_of c i
      | CheckOp i \<Rightarrow> check_registers_of i
      | _ \<Rightarrow> {})"

lemmas register_checks = check_register_def check_window_def window_def word_less_nat_alt
  run_checks_Inr Let_def subset_iff

lemma verify_float_registers:
  "verify_float c at i = Inr () \<Longrightarrow> float_registers_of c i \<subseteq> {..<unat (register_count c)}"
  by (cases i) (auto simp: verify_float_def float_registers_of_def register_checks
      check_float_squares_sum_branch_descriptor_def check_float_pair_update_descriptor_def)

lemma verify_loop_registers:
  "verify_loop c at i = Inr () \<Longrightarrow> loop_registers_of c i \<subseteq> {..<unat (register_count c)}"
  by (cases i) (auto simp: verify_loop_def loop_registers_of_def register_checks
      check_prepared_int_loop_descriptor_def check_int_step_loop_descriptor_def
      check_mask_registers_Inr)

lemma verify_array_registers:
  "verify_array c at i = Inr () \<Longrightarrow> array_registers_of i \<subseteq> {..<unat (register_count c)}"
  by (cases i) (auto simp: verify_array_def array_registers_of_def register_checks
      array_register_count_value)

lemma verify_update_registers:
  "verify_update c at i = Inr () \<Longrightarrow> update_registers_of i \<subseteq> {..<unat (register_count c)}"
  by (cases i) (auto simp: verify_update_def update_registers_of_def register_checks)

lemma verify_object_registers:
  "verify_object c at i = Inr () \<Longrightarrow> object_registers_of c i \<subseteq> {..<unat (register_count c)}"
  by (cases i) (auto simp: verify_object_def object_registers_of_def register_checks
      check_property_initialization_descriptor_def split: if_splits)

lemma verify_call_registers:
  "verify_call c at i = Inr () \<Longrightarrow> call_registers_of c i \<subseteq> {..<unat (register_count c)}"
  by (cases i) (auto simp: verify_call_def call_registers_of_def register_checks
      verify_named_call_def check_call_descriptor_def check_preset_descriptor_def)

lemma verify_check_registers:
  "verify_check c at i = Inr () \<Longrightarrow> check_registers_of i \<subseteq> {..<unat (register_count c)}"
  by (cases i) (auto simp: verify_check_def check_registers_of_def register_checks)

lemma verify_switch_registers:
  "verify_switch xxh3 c at i = Inr () \<Longrightarrow> switch_registers_of i \<subseteq> {..<unat (register_count c)}"
  by (cases i) (auto simp: verify_switch_def switch_registers_of_def register_checks
      switch_table_of_def verify_table_def valid_kind_def valid_descriptors_def
      split: switch_table.splits if_splits)

lemmas verify_family_registers = verify_float_registers verify_loop_registers
  verify_array_registers verify_update_registers verify_object_registers verify_call_registers
  verify_check_registers verify_switch_registers

lemma verified_registers:
  assumes "verify xxh3 c = Inr ()" "i < length (code c)"
  shows "instruction_registers c (code c ! i) \<subseteq> {..<unat (register_count c)}"
proof -
  note op = verified_operand [OF assms] and i = verified_instruction [OF assms]
  have "unat r < unat (register_count c)"
    if "RegisterOperand r \<in> set (instruction_operands (code c ! i))" for r
    using op [OF that] i(2) by (simp add: verify_operand_iff operand_valid_def)
  moreover have "unat r < unat (register_count c)"
    if "OptionalRegisterOperand r \<in> set (instruction_operands (code c ! i))" "r \<noteq> register_NONE" for r
    using op [OF that(1)] that(2) i(2) by (simp add: verify_operand_iff operand_valid_def)
  ultimately show ?thesis
    using i(1) by (auto simp: instruction_registers_def verify_instruction_def
        dest: verify_family_registers [THEN subsetD] split: instruction.splits)
qed

subsection \<open>The fields the verifier does not read\<close>

lemma verify_operand_unread [simp]:
  "verify_operand (c\<lparr>uninitialized_registers := rs\<rparr>) at operand = verify_operand c at operand"
  by (simp add: verify_operand_def check_defs split: instruction_operand.splits)

lemma check_mask_registers_unread [simp]:
  "check_mask_registers (c\<lparr>uninitialized_registers := rs\<rparr>) at w = check_mask_registers c at w"
  by (induction c at w rule: check_mask_registers.induct)
    (subst (1 2) check_mask_registers.simps, simp add: check_defs)

lemma check_targets_unread [simp]: "check_targets (c\<lparr>uninitialized_registers := rs\<rparr>) = check_targets c"
  by (simp add: fun_eq_iff check_targets_def check_defs)

lemma verify_table_unread [simp]: "verify_table xxh3 (c\<lparr>uninitialized_registers := rs\<rparr>) at i t = verify_table xxh3 c at i t"
  by (cases t) (simp_all add: verify_table_def valid_descriptors_def check_defs cong: if_cong
      split: switch_instruction.splits option.splits)

lemma verify_family_unread [simp]:
  "verify_float (c\<lparr>uninitialized_registers := rs\<rparr>) at f = verify_float c at f"
  "verify_compare (c\<lparr>uninitialized_registers := rs\<rparr>) at cmp = verify_compare c at cmp"
  "verify_loop (c\<lparr>uninitialized_registers := rs\<rparr>) at l = verify_loop c at l"
  "verify_array (c\<lparr>uninitialized_registers := rs\<rparr>) at a = verify_array c at a"
  "verify_update (c\<lparr>uninitialized_registers := rs\<rparr>) at u = verify_update c at u"
  "verify_object (c\<lparr>uninitialized_registers := rs\<rparr>) at obj = verify_object c at obj"
  "verify_call (c\<lparr>uninitialized_registers := rs\<rparr>) at call = verify_call c at call"
  "verify_check (c\<lparr>uninitialized_registers := rs\<rparr>) at k = verify_check c at k"
  subgoal by (cases f) (simp_all add: verify_float_def check_defs)
  subgoal by (cases cmp) (simp_all add: verify_compare_def check_defs)
  subgoal by (cases l) (simp_all add: verify_loop_def check_defs)
  subgoal by (cases a) (simp_all add: verify_array_def check_defs)
  subgoal by (cases u) (simp_all add: verify_update_def verify_foreach_next_def check_defs)
  subgoal by (cases obj) (simp_all add: verify_object_def check_defs cong: if_cong)
  subgoal by (cases call) (simp_all add: verify_call_def verify_named_call_def check_defs)
  subgoal by (cases k) (simp_all add: verify_check_def check_defs)
  done

lemma verify_switch_unread [simp]:
  "verify_switch xxh3 (c\<lparr>uninitialized_registers := rs\<rparr>) at i = verify_switch xxh3 c at i"
  by (cases i) (simp_all add: verify_switch_def switch_table_of_def verify_range_jump_def check_defs
      cong: if_cong)

lemma verify_instruction_unread [simp]:
  "verify_instruction xxh3 (c\<lparr>uninitialized_registers := rs\<rparr>) at ins = verify_instruction xxh3 c at ins"
proof -
  have "verify_operand (c\<lparr>uninitialized_registers := rs\<rparr>) at = verify_operand c at"
    by (simp add: fun_eq_iff)
  then show ?thesis
    by (cases ins) (simp_all add: verify_instruction_def)
qed

lemma verify_catch_entry_unread [simp]:
  "verify_catch_entry (c\<lparr>uninitialized_registers := rs\<rparr>) = verify_catch_entry c"
  by (simp add: fun_eq_iff verify_catch_entry_def split: option.splits)

section \<open>Properties\<close>

text \<open>A small chunk that verifies: it jumps over a return to a jump that falls to the next return.\<close>

definition sample_chunk :: chunk where
  "sample_chunk = new_chunk\<lparr>code := [Branch (Jump 2), ReturnOp ReturnNull, Branch (Jump 1),
       ReturnOp ReturnNull],
     spans := replicate 4 span_zero, register_count := 1\<rparr>"

lemma sample_chunk_fields [simp]:
  "code sample_chunk = [Branch (Jump 2), ReturnOp ReturnNull, Branch (Jump 1), ReturnOp ReturnNull]"
  "spans sample_chunk = replicate 4 span_zero" "register_count sample_chunk = 1"
  "local_register_count sample_chunk = 0" "parameter_register_start sample_chunk = 0"
  "parameter_register_count sample_chunk = 0" "trace_argument_registers sample_chunk = []"
  "catch_table sample_chunk = []"
  by (simp_all add: sample_chunk_def new_chunk_def)

lemmas verify_eval = verify_Inr verify_trace_arguments_def verify_catch_table_def verify_code_def
  run_checks_Inr verify_instruction_def try_visit_operands_def verify_operand_def check_defs
  is_terminator_def

lemma sample_chunk_verified: "verify xxh3 sample_chunk = Inr ()"
  by (simp add: verify_eval)

lemma verified_trace_argument:
  assumes "verify xxh3 c = Inr ()" "r \<in> set (trace_argument_registers c)" "r \<noteq> register_NONE"
  shows "unat r < unat (register_count c)"
proof -
  have "r < local_register_count c" "local_register_count c \<le> register_count c"
    using assms
    by (force simp: verify_Inr verify_trace_arguments_def run_checks_Inr set_enumerate_from
        in_set_conv_nth)+
  then show ?thesis
    by (simp add: word_less_nat_alt word_le_nat_alt)
qed

text \<open>C2. A frame of \<open>register_count\<close> registers is large enough for a verified chunk: every
  register an instruction reads or writes (operands, windows of arguments and members, registers
  named by its descriptors and masks), every catch binding, every trace argument and the parameter
  window lie inside it, and no catch entry cuts the temporaries off beyond it.\<close>

theorem verified_frame:
  assumes "verify xxh3 c = Inr ()"
  shows "(\<forall>i<length (code c). instruction_registers c (code c ! i) \<subseteq> {..<unat (register_count c)}) \<and>
    (\<forall>e\<in>set (catch_table c). temporary_floor e \<le> register_count c \<and>
      (\<forall>r. binding e = Some r \<longrightarrow> r < register_count c)) \<and>
    (\<forall>r\<in>set (trace_argument_registers c). r \<noteq> register_NONE \<longrightarrow> unat r < unat (register_count c)) \<and>
    unat (parameter_register_start c) + unat (parameter_register_count c) \<le> unat (register_count c)"
  using assms verified_registers [OF assms] verified_catch_entry [OF assms]
    verified_trace_argument [OF assms]
  by (auto simp: verify_Inr word_le_nat_alt)

theorem verified_frame_witness:
  "instruction_registers sample_chunk (code sample_chunk ! 0) \<subseteq> {..<1}"
  using verified_frame [OF sample_chunk_verified, THEN conjunct1, rule_format, of 0] by simp

text \<open>C27. The operand checks accept exactly the operands that are in range: registers below the
  frame size, indices inside the side table they select, float constants that are floats, and
  relative targets that land inside the code.\<close>

theorem verify_operand_exact:
  assumes "i < 2 ^ 32"
  shows "verify_operand c (of_nat i) operand = Inr () \<longleftrightarrow> operand_valid c i operand"
  using assms by (rule verify_operand_iff)

theorem verify_operand_exact_witness:
  "verify_operand sample_chunk (of_nat 2) (JumpOperand 1) = Inr () \<longleftrightarrow>
     operand_valid sample_chunk 2 (JumpOperand 1)"
  by (rule verify_operand_exact) simp

text \<open>Clearing the lowest set bit until the mask is empty visits every register of the mask:
  the loop accepts a mask if and only if each of its bits is a register of the frame.\<close>

theorem check_mask_registers_exact:
  "check_mask_registers c at w = Inr () \<longleftrightarrow> (\<forall>n. bit w n \<longrightarrow> n < unat (register_count c))"
  by (rule check_mask_registers_Inr)

theorem check_mask_registers_exact_witness:
  "check_mask_registers sample_chunk 0 1 = Inr () \<longleftrightarrow>
     (\<forall>n. bit (1 :: u64) n \<longrightarrow> n < unat (register_count sample_chunk))"
  by (rule check_mask_registers_exact)

text \<open>Verification says nothing about the list of registers that are reset before a chunk
  runs: a chunk is accepted or rejected whatever that list holds, out-of-range registers
  included.\<close>

theorem verify_ignores_uninitialized_registers:
  "verify xxh3 (c\<lparr>uninitialized_registers := rs\<rparr>) = verify xxh3 c"
  by (simp add: verify_def verify_trace_arguments_def verify_code_def verify_catch_table_def)

definition sole_reference_chunk :: chunk where
  "sole_reference_chunk = new_chunk\<lparr>code := [CheckOp (CheckSoleReference 0 0 False),
       ReturnOp ReturnNull],
     spans := replicate 2 span_zero, register_count := 1,
     constants := [IntLit 7]\<rparr>"

text \<open>The message of \<open>CheckSoleReference\<close> is checked to be a constant, not to be a string:
  a chunk that names an integer constant there is accepted.\<close>

theorem verify_accepts_non_string_message:
  "verify xxh3 sole_reference_chunk = Inr () \<and> constants sole_reference_chunk ! 0 = IntLit 7"
  by (simp add: sole_reference_chunk_def new_chunk_def verify_eval verify_check_def list_get_def)

end
