(* ===== verification/Whim_Rewrite.thy ===== *)
theory Whim_Rewrite
  imports Whim_Chunk
begin

text \<open>
  The structural rewrites of \<^verbatim>\<open>crates/bytecode/src/rewrite.rs\<close>: the control-flow targets of a chunk
  and its compaction, which removes instructions and rebases every relative target. The source
  matches on the instructions twice with the same grouping by offset width; \<open>branch_of\<close> is that
  grouping and \<open>set_branch\<close> the assignment to the matched offsets.
\<close>

section \<open>The offsets of an instruction\<close>

datatype branch =
    WideBranch jump_offset
  | ShortBranch short_jump_offset
  | NearBranch near_jump_offset
  | TwoShortBranches short_jump_offset short_jump_offset \<comment> \<open>false, default\<close>
  | TableBranch switch_table_index
  | NoBranch

definition branch_of :: "instruction \<Rightarrow> branch" where
  "branch_of ins =
     (case ins of
        Branch i \<Rightarrow>
          (case i of
             Jump rel \<Rightarrow> WideBranch rel
           | JumpIfFalse _ rel \<Rightarrow> WideBranch rel
           | JumpIfTrue _ rel \<Rightarrow> WideBranch rel
           | JumpIfNull _ rel \<Rightarrow> WideBranch rel
           | JumpIfNotNull _ rel \<Rightarrow> WideBranch rel
           | FillDefault _ rel \<Rightarrow> WideBranch rel
           | Coalesce _ _ rel \<Rightarrow> ShortBranch rel
           | JumpUnless _ _ _ rel \<Rightarrow> ShortBranch rel
           | IntJumpUnless _ _ _ rel \<Rightarrow> ShortBranch rel
           | UintJumpUnless _ _ _ rel \<Rightarrow> ShortBranch rel
           | UintJumpUnlessImmediate _ _ _ rel \<Rightarrow> ShortBranch rel
           | StringJumpUnless _ _ _ rel \<Rightarrow> ShortBranch rel
           | IntJumpUnlessImmediate _ _ _ rel \<Rightarrow> ShortBranch rel
           | JumpUnlessConstant _ _ _ rel \<Rightarrow> ShortBranch rel)
      | LoopOp i \<Rightarrow>
          (case i of
             NumericRegionJump rel \<Rightarrow> WideBranch rel
           | UintCounterLoop _ _ _ rel \<Rightarrow> ShortBranch rel
           | IncrementJump _ _ rel \<Rightarrow> ShortBranch rel
           | CounterLoop _ _ _ rel \<Rightarrow> ShortBranch rel
           | IntCounterLoop _ _ _ rel \<Rightarrow> ShortBranch rel
           | IntStepLoop _ rel \<Rightarrow> ShortBranch rel
           | NumericLoop _ _ _ rel \<Rightarrow> ShortBranch rel
           | IntNumericLoop _ _ _ rel \<Rightarrow> ShortBranch rel
           | PreparedIntNumericLoop _ rel \<Rightarrow> ShortBranch rel)
      | FloatOp i \<Rightarrow> (case i of FloatSquaresSumBranch _ rel \<Rightarrow> WideBranch rel | _ \<Rightarrow> NoBranch)
      | ArrayOp i \<Rightarrow>
          (case i of
             IndexCoalesce _ _ _ rel \<Rightarrow> NearBranch rel
           | VecIndexCoalesce _ _ _ rel \<Rightarrow> NearBranch rel
           | DictIndexCoalesceIntKey _ _ _ rel \<Rightarrow> NearBranch rel
           | DictIndexCoalesceUintKey _ _ _ rel \<Rightarrow> NearBranch rel
           | DictIndexCoalesceStringKey _ _ _ rel \<Rightarrow> NearBranch rel
           | _ \<Rightarrow> NoBranch)
      | StringOp i \<Rightarrow>
          (case i of
             StringIndexCoalesce _ _ _ rel \<Rightarrow> NearBranch rel
           | StringByteJumpUnlessEqual _ _ _ rel \<Rightarrow> ShortBranch rel
           | StringByteJumpUnlessNotEqual _ _ _ rel \<Rightarrow> ShortBranch rel
           | _ \<Rightarrow> NoBranch)
      | ObjectOp i \<Rightarrow>
          (case i of
             PropertyCoalesce _ _ _ rel \<Rightarrow> NearBranch rel
           | PropertyCoalesceUnchecked _ _ _ rel \<Rightarrow> NearBranch rel
           | StaticPropertyCoalesce _ _ rel \<Rightarrow> ShortBranch rel
           | _ \<Rightarrow> NoBranch)
      | Switch i \<Rightarrow>
          (case i of
             BoolPatternBranch _ rel_false rel_default \<Rightarrow> TwoShortBranches rel_false rel_default
           | IntegerRangeJumpIf _ _ rel _ \<Rightarrow> ShortBranch rel
           | IntegerRangeJumpUnless _ _ rel _ \<Rightarrow> ShortBranch rel
           | SwitchInt _ t \<Rightarrow> TableBranch t
           | SwitchString _ t \<Rightarrow> TableBranch t
           | SwitchBool _ t \<Rightarrow> TableBranch t
           | SwitchFloat _ t \<Rightarrow> TableBranch t
           | SwitchPattern _ t \<Rightarrow> TableBranch t
           | SwitchTuplePattern _ _ t \<Rightarrow> TableBranch t)
      | _ \<Rightarrow> NoBranch)"

definition set_wide :: "jump_offset \<Rightarrow> instruction \<Rightarrow> instruction" where
  "set_wide rel ins =
     (case ins of
        Branch (Jump _) \<Rightarrow> Branch (Jump rel)
      | Branch (JumpIfFalse r _) \<Rightarrow> Branch (JumpIfFalse r rel)
      | Branch (JumpIfTrue r _) \<Rightarrow> Branch (JumpIfTrue r rel)
      | Branch (JumpIfNull r _) \<Rightarrow> Branch (JumpIfNull r rel)
      | Branch (JumpIfNotNull r _) \<Rightarrow> Branch (JumpIfNotNull r rel)
      | Branch (FillDefault r _) \<Rightarrow> Branch (FillDefault r rel)
      | LoopOp (NumericRegionJump _) \<Rightarrow> LoopOp (NumericRegionJump rel)
      | FloatOp (FloatSquaresSumBranch d _) \<Rightarrow> FloatOp (FloatSquaresSumBranch d rel)
      | _ \<Rightarrow> ins)"

definition set_near :: "near_jump_offset \<Rightarrow> instruction \<Rightarrow> instruction" where
  "set_near rel ins =
     (case ins of
        ArrayOp (IndexCoalesce a b d _) \<Rightarrow> ArrayOp (IndexCoalesce a b d rel)
      | ArrayOp (VecIndexCoalesce a b d _) \<Rightarrow> ArrayOp (VecIndexCoalesce a b d rel)
      | ArrayOp (DictIndexCoalesceIntKey a b d _) \<Rightarrow> ArrayOp (DictIndexCoalesceIntKey a b d rel)
      | ArrayOp (DictIndexCoalesceUintKey a b d _) \<Rightarrow> ArrayOp (DictIndexCoalesceUintKey a b d rel)
      | ArrayOp (DictIndexCoalesceStringKey a b d _) \<Rightarrow>
          ArrayOp (DictIndexCoalesceStringKey a b d rel)
      | StringOp (StringIndexCoalesce a b d _) \<Rightarrow> StringOp (StringIndexCoalesce a b d rel)
      | ObjectOp (PropertyCoalesce a b d _) \<Rightarrow> ObjectOp (PropertyCoalesce a b d rel)
      | ObjectOp (PropertyCoalesceUnchecked a b d _) \<Rightarrow> ObjectOp (PropertyCoalesceUnchecked a b d rel)
      | _ \<Rightarrow> ins)"

definition set_short :: "short_jump_offset \<Rightarrow> instruction \<Rightarrow> instruction" where
  "set_short rel ins =
     (case ins of
        Branch i \<Rightarrow>
          Branch (case i of
             Coalesce a b _ \<Rightarrow> Coalesce a b rel
           | JumpUnless a b d _ \<Rightarrow> JumpUnless a b d rel
           | IntJumpUnless a b d _ \<Rightarrow> IntJumpUnless a b d rel
           | UintJumpUnless a b d _ \<Rightarrow> UintJumpUnless a b d rel
           | UintJumpUnlessImmediate a b d _ \<Rightarrow> UintJumpUnlessImmediate a b d rel
           | StringJumpUnless a b d _ \<Rightarrow> StringJumpUnless a b d rel
           | IntJumpUnlessImmediate a b d _ \<Rightarrow> IntJumpUnlessImmediate a b d rel
           | JumpUnlessConstant a b d _ \<Rightarrow> JumpUnlessConstant a b d rel
           | _ \<Rightarrow> i)
      | LoopOp i \<Rightarrow>
          LoopOp (case i of
             UintCounterLoop a b d _ \<Rightarrow> UintCounterLoop a b d rel
           | IncrementJump a b _ \<Rightarrow> IncrementJump a b rel
           | CounterLoop a b d _ \<Rightarrow> CounterLoop a b d rel
           | IntCounterLoop a b d _ \<Rightarrow> IntCounterLoop a b d rel
           | IntStepLoop a _ \<Rightarrow> IntStepLoop a rel
           | NumericLoop a b d _ \<Rightarrow> NumericLoop a b d rel
           | IntNumericLoop a b d _ \<Rightarrow> IntNumericLoop a b d rel
           | PreparedIntNumericLoop a _ \<Rightarrow> PreparedIntNumericLoop a rel
           | _ \<Rightarrow> i)
      | StringOp (StringByteJumpUnlessEqual a b d _) \<Rightarrow>
          StringOp (StringByteJumpUnlessEqual a b d rel)
      | StringOp (StringByteJumpUnlessNotEqual a b d _) \<Rightarrow>
          StringOp (StringByteJumpUnlessNotEqual a b d rel)
      | ObjectOp (StaticPropertyCoalesce a b _) \<Rightarrow> ObjectOp (StaticPropertyCoalesce a b rel)
      | Switch (IntegerRangeJumpIf a b _ d) \<Rightarrow> Switch (IntegerRangeJumpIf a b rel d)
      | Switch (IntegerRangeJumpUnless a b _ d) \<Rightarrow> Switch (IntegerRangeJumpUnless a b rel d)
      | _ \<Rightarrow> ins)"

definition set_two_short ::
  "short_jump_offset \<Rightarrow> short_jump_offset \<Rightarrow> instruction \<Rightarrow> instruction" where
  "set_two_short rel_false rel_default ins =
     (case ins of
        Switch (BoolPatternBranch a _ _) \<Rightarrow> Switch (BoolPatternBranch a rel_false rel_default)
      | _ \<Rightarrow> ins)"

definition set_branch :: "branch \<Rightarrow> instruction \<Rightarrow> instruction" where
  "set_branch b ins =
     (case b of
        WideBranch rel \<Rightarrow> set_wide rel ins
      | ShortBranch rel \<Rightarrow> set_short rel ins
      | NearBranch rel \<Rightarrow> set_near rel ins
      | TwoShortBranches f d \<Rightarrow> set_two_short f d ins
      | TableBranch _ \<Rightarrow> ins
      | NoBranch \<Rightarrow> ins)"

text \<open>The offsets of a table, in the order in which they are visited.\<close>

primrec table_offsets :: "switch_table \<Rightarrow> u32 list" where
  "table_offsets (IntTable _ targets default_target) = targets @ [default_target]"
| "table_offsets (StringTable arms _ default_target) = map snd arms @ [default_target]"
| "table_offsets (StringByteTable _ targets default_target) = targets @ [default_target]"
| "table_offsets (PatternTable _ targets default_target) = targets @ [default_target]"
| "table_offsets (DictionaryShapeTable _ _ targets default_target) = targets @ [default_target]"
| "table_offsets (BoolTable targets default_target) = targets @ [default_target]"
| "table_offsets (FloatTable _ targets default_target) = targets @ [default_target]"

section \<open>Control-flow targets\<close>

definition wide_index :: "nat \<Rightarrow> panic + int" where
  "wide_index index = result_map (\<lambda>w. int (unat w)) (u32_index index)"

definition native_index :: "u32 \<Rightarrow> nat" where
  "native_index index = unat index"

definition relative_target :: "nat \<Rightarrow> int \<Rightarrow> panic + nat" where
  "relative_target source rel =
     result_bind (wide_index source)
       (\<lambda>s. if s + rel < 0 then Inl TargetNegative else Inr (nat (s + rel)))"

definition new_offset :: "nat \<Rightarrow> nat \<Rightarrow> panic + int" where
  "new_offset source target =
     result_bind (wide_index target) (\<lambda>t.
     result_bind (wide_index source) (\<lambda>s.
       if - (2 ^ 31) \<le> t - s \<and> t - s < 2 ^ 31 then Inr (t - s) else Inl OffsetMustFitI32))"

definition short_offset :: "nat \<Rightarrow> nat \<Rightarrow> panic + int" where
  "short_offset source target =
     result_bind (new_offset source target)
       (\<lambda>rel. if - (2 ^ 15) \<le> rel \<and> rel < 2 ^ 15 then Inr rel else Inl OffsetMustFitI16)"

text \<open>The relative offsets of an instruction, those of its switch table included.\<close>

definition branch_offsets :: "chunk \<Rightarrow> instruction \<Rightarrow> panic + int list" where
  "branch_offsets c ins =
     (case branch_of ins of
        WideBranch rel \<Rightarrow> Inr [sint rel]
      | ShortBranch rel \<Rightarrow> Inr [sint rel]
      | NearBranch rel \<Rightarrow> Inr [sint rel]
      | TwoShortBranches f d \<Rightarrow> Inr [sint f, sint d]
      | TableBranch t \<Rightarrow>
          result_map (\<lambda>table. map sint (table_offsets table)) (table_entry (switch_tables c) t)
      | NoBranch \<Rightarrow> Inr [])"

definition instruction_targets :: "chunk \<Rightarrow> nat \<Rightarrow> instruction \<Rightarrow> panic + nat list" where
  "instruction_targets c index ins =
     result_bind (branch_offsets c ins) (traverse (relative_target index))"

definition for_each_control_flow_target :: "chunk \<Rightarrow> panic + nat list" where
  "for_each_control_flow_target c =
     result_map (\<lambda>ts. concat ts @ concat (map (\<lambda>e.
         [native_index (catch_start e), native_index (catch_end e), native_index (handler e)])
         (catch_table c)))
       (traverse (\<lambda>(index, ins). instruction_targets c index ins) (enumerate_from 0 (code c)))"

definition control_flow_targets :: "chunk \<Rightarrow> panic + nat set" where
  "control_flow_targets c = result_map set (for_each_control_flow_target c)"

section \<open>Compaction\<close>

fun remap :: "nat \<Rightarrow> bool list \<Rightarrow> nat list" where
  "remap next [] = [next]"
| "remap next (removed # rest) = next # remap (if removed then next else next + 1) rest"

definition index_of :: "'a list \<Rightarrow> nat \<Rightarrow> panic + 'a" where
  "index_of xs i = ok_or IndexOutOfBounds (list_get xs i)"

definition rebase_offset ::
  "(nat \<Rightarrow> nat \<Rightarrow> panic + int) \<Rightarrow> nat \<Rightarrow> nat \<Rightarrow> nat list \<Rightarrow> int \<Rightarrow> panic + int" where
  "rebase_offset fit old_index new_index old_to_new rel =
     result_bind (relative_target old_index rel) (\<lambda>target.
     result_bind (index_of old_to_new target) (\<lambda>new_target.
     fit new_index new_target))"

definition near_offset :: "nat \<Rightarrow> nat \<Rightarrow> panic + int" where
  "near_offset source target =
     result_bind (new_offset source target)
       (\<lambda>rel. if - (2 ^ 7) \<le> rel \<and> rel < 2 ^ 7 then Inr rel else Inl CoalescingOffsetMustFit)"

definition rebase_table_offset :: "nat \<Rightarrow> nat \<Rightarrow> nat list \<Rightarrow> u32 \<Rightarrow> panic + u32" where
  "rebase_table_offset old_index new_index old_to_new rel =
     result_map word_of_int (rebase_offset new_offset old_index new_index old_to_new (sint rel))"

definition rebase_switch_table :: "nat \<Rightarrow> nat \<Rightarrow> nat list \<Rightarrow> switch_table \<Rightarrow> panic + switch_table" where
  "rebase_switch_table old_index new_index old_to_new table =
     (let rebase = rebase_table_offset old_index new_index old_to_new;
          both = (\<lambda>make targets default_target.
            result_bind (traverse rebase targets) (\<lambda>ts. result_map (make ts) (rebase default_target)))
      in case table of
           IntTable base targets d \<Rightarrow> both (IntTable base) targets d
         | StringByteTable base targets d \<Rightarrow> both (StringByteTable base) targets d
         | PatternTable descriptors targets d \<Rightarrow> both (PatternTable descriptors) targets d
         | DictionaryShapeTable keys patterns targets d \<Rightarrow>
             both (DictionaryShapeTable keys patterns) targets d
         | BoolTable targets d \<Rightarrow> both BoolTable targets d
         | FloatTable values targets d \<Rightarrow> both (FloatTable values) targets d
         | StringTable arms buckets d \<Rightarrow>
             both (\<lambda>ts. StringTable (zip (map fst arms) ts) buckets) (map snd arms) d)"

definition rebase_targets ::
  "nat \<Rightarrow> nat \<Rightarrow> nat list \<Rightarrow> instruction \<Rightarrow> chunk \<Rightarrow> panic + (instruction \<times> chunk)" where
  "rebase_targets old_index new_index old_to_new ins c =
     (case branch_of ins of
        WideBranch rel \<Rightarrow>
          result_map (\<lambda>r. (set_branch (WideBranch (word_of_int r)) ins, c))
            (rebase_offset new_offset old_index new_index old_to_new (sint rel))
      | TwoShortBranches f d \<Rightarrow>
          result_bind (rebase_offset short_offset old_index new_index old_to_new (sint f)) (\<lambda>f'.
          result_map (\<lambda>d'. (set_branch (TwoShortBranches (word_of_int f') (word_of_int d')) ins, c))
            (rebase_offset short_offset old_index new_index old_to_new (sint d)))
      | NearBranch rel \<Rightarrow>
          result_map (\<lambda>r. (set_branch (NearBranch (word_of_int r)) ins, c))
            (rebase_offset near_offset old_index new_index old_to_new (sint rel))
      | ShortBranch rel \<Rightarrow>
          result_map (\<lambda>r. (set_branch (ShortBranch (word_of_int r)) ins, c))
            (rebase_offset short_offset old_index new_index old_to_new (sint rel))
      | TableBranch t \<Rightarrow>
          result_bind (table_entry (switch_tables c) t) (\<lambda>table.
          result_map (\<lambda>table'. (ins, c\<lparr>switch_tables := (switch_tables c)[unat t := table']\<rparr>))
            (rebase_switch_table old_index new_index old_to_new table))
      | NoBranch \<Rightarrow> Inr (ins, c))"

fun compact_code ::
  "nat list \<Rightarrow> bool list \<Rightarrow> span list \<Rightarrow> nat \<Rightarrow> instruction list \<Rightarrow> chunk \<Rightarrow> panic + chunk" where
  "compact_code old_to_new remove old_spans old_index [] c = Inr c"
| "compact_code old_to_new remove old_spans old_index (ins # rest) c =
     result_bind (index_of remove old_index) (\<lambda>removed.
     if removed then compact_code old_to_new remove old_spans (Suc old_index) rest c
     else
       result_bind (index_of old_to_new old_index) (\<lambda>new_index.
       result_bind (rebase_targets old_index new_index old_to_new ins c) (\<lambda>(ins', c).
       result_bind (index_of old_spans old_index) (\<lambda>s.
       compact_code old_to_new remove old_spans (Suc old_index) rest
         (c\<lparr>code := code c @ [ins'], spans := spans c @ [s]\<rparr>)))))"

definition remap_index :: "nat list \<Rightarrow> u32 \<Rightarrow> panic + u32" where
  "remap_index old_to_new i = result_bind (index_of old_to_new (native_index i)) u32_index"

definition compact_catch_entry :: "nat list \<Rightarrow> catch_entry \<Rightarrow> panic + catch_entry" where
  "compact_catch_entry old_to_new e =
     result_bind (remap_index old_to_new (catch_start e)) (\<lambda>s.
     result_bind (remap_index old_to_new (catch_end e)) (\<lambda>t.
     result_bind (remap_index old_to_new (handler e)) (\<lambda>h.
     Inr (e\<lparr>catch_start := s, catch_end := t, handler := h\<rparr>))))"

definition compact :: "bool list \<Rightarrow> chunk \<Rightarrow> panic + chunk" where
  "compact remove c =
     (let old_to_new = remap 0 remove
      in result_bind (compact_code old_to_new remove (spans c) 0 (code c) (c\<lparr>code := [], spans := []\<rparr>))
           (\<lambda>c. result_map (\<lambda>es. c\<lparr>catch_table := es\<rparr>)
              (traverse (compact_catch_entry old_to_new) (catch_table c))))"

section \<open>The remap\<close>

text \<open>What the remap means: the number of kept instructions before an index.\<close>

definition new_index :: "bool list \<Rightarrow> nat \<Rightarrow> nat" where
  "new_index remove i = length (filter Not (take i remove))"

lemma length_remap [simp]: "length (remap n remove) = Suc (length remove)"
  by (induction remove arbitrary: n) auto

lemma remap_nth: "i \<le> length remove \<Longrightarrow> remap n remove ! i = n + new_index remove i"
proof (induction remove arbitrary: n i)
  case (Cons r remove)
  then show ?case by (cases i) (auto simp: new_index_def)
qed (simp add: new_index_def)

lemma index_of_remap [simp]:
  "index_of (remap 0 remove) i =
     (if i \<le> length remove then Inr (new_index remove i) else Inl IndexOutOfBounds)"
  by (auto simp: index_of_def list_get_def remap_nth)

lemma new_index_diff:
  assumes "i \<le> j"
  shows "new_index remove j = new_index remove i + length (filter Not (take (j - i) (drop i remove)))"
proof -
  have "take j remove = take i remove @ take (j - i) (drop i remove)"
    using assms by (metis le_add_diff_inverse take_add)
  then show ?thesis by (simp add: new_index_def)
qed

lemma new_index_mono: "i \<le> j \<Longrightarrow> new_index remove i \<le> new_index remove j"
  by (simp add: new_index_diff)

lemma new_index_lipschitz: "i \<le> j \<Longrightarrow> new_index remove j \<le> new_index remove i + (j - i)"
proof -
  assume "i \<le> j"
  have "length (filter Not (take (j - i) (drop i remove))) \<le> j - i"
    by (rule order_trans [OF length_filter_le]) simp
  with \<open>i \<le> j\<close> show ?thesis by (simp add: new_index_diff)
qed

lemma new_index_le: "new_index remove i \<le> i"
  using new_index_lipschitz [of 0 i remove] by (simp add: new_index_def)

lemma new_index_Suc:
  "i < length remove \<Longrightarrow> new_index remove (Suc i) = new_index remove i + (if remove ! i then 0 else 1)"
  by (simp add: new_index_def take_Suc_conv_app_nth)

section \<open>Rebased offsets\<close>

definition new_rel :: "bool list \<Rightarrow> nat \<Rightarrow> int \<Rightarrow> int" where
  "new_rel remove i rel =
     int (new_index remove (nat (int i + rel))) - int (new_index remove i)"

text \<open>An offset never grows, so it fits the width it had.\<close>

lemma new_rel_bounds:
  assumes "0 \<le> int i + rel"
  shows "min 0 rel \<le> new_rel remove i rel" "new_rel remove i rel \<le> max 0 rel"
proof -
  define t where "t = nat (int i + rel)"
  have t: "int t = int i + rel" using assms by (simp add: t_def)
  have "min 0 rel \<le> new_rel remove i rel \<and> new_rel remove i rel \<le> max 0 rel"
  proof (cases "i \<le> t")
    case True
    with new_index_mono [OF True, of remove] new_index_lipschitz [OF True, of remove] t
    show ?thesis unfolding new_rel_def t_def [symmetric] by linarith
  next
    case False
    then have "t \<le> i" by simp
    with new_index_mono [OF this, of remove] new_index_lipschitz [OF this, of remove] t
    show ?thesis unfolding new_rel_def t_def [symmetric] by linarith
  qed
  then show "min 0 rel \<le> new_rel remove i rel" "new_rel remove i rel \<le> max 0 rel" by auto
qed

text \<open>The targets an instruction may have: inside the code or just past it.\<close>

definition in_code :: "nat \<Rightarrow> nat \<Rightarrow> int \<Rightarrow> bool" where
  "in_code len i rel \<longleftrightarrow> 0 \<le> int i + rel \<and> int i + rel \<le> int len"

lemma wide_index_eq [simp]:
  "wide_index i = (if i < 2 ^ 32 then Inr (int i) else Inl IndexMustFitU32)"
  unfolding wide_index_def u32_index_def by (simp add: unsigned_of_nat take_bit_nat_eq_self)

lemma relative_target_in_code:
  assumes "in_code len i rel" "i \<le> len" "len < 2 ^ 32"
  shows "relative_target i rel = Inr (nat (int i + rel))"
  using assms by (simp add: relative_target_def in_code_def)

lemma new_offset_eq:
  assumes "s < 2 ^ 32" "t < 2 ^ 32" "- (2 ^ 31) \<le> int t - int s" "int t - int s < 2 ^ 31"
  shows "new_offset s t = Inr (int t - int s)"
  using assms by (simp add: new_offset_def)

lemma rebase_offset_fits:
  assumes in_code: "in_code (length remove) i rel" and at: "i \<le> length remove"
    and len: "length remove < 2 ^ 32"
    and fit: "\<And>t. int t - int (new_index remove i) = new_rel remove i rel \<Longrightarrow> t < 2 ^ 32 \<Longrightarrow>
    fit (new_index remove i) t = Inr (int t - int (new_index remove i))"
  shows "rebase_offset fit i (new_index remove i) (remap 0 remove) rel = Inr (new_rel remove i rel)"
proof -
  let ?t = "nat (int i + rel)"
  have t: "?t \<le> length remove" using in_code unfolding in_code_def by linarith
  have "new_index remove ?t < 2 ^ 32" using t len new_index_le [of remove ?t] by linarith
  then have "fit (new_index remove i) (new_index remove ?t) = Inr (new_rel remove i rel)"
    using fit [of "new_index remove ?t"] by (simp add: new_rel_def)
  then show ?thesis
    unfolding rebase_offset_def relative_target_in_code [OF in_code at len]
    using t by simp
qed

lemma rebase_new_offset:
  assumes in_code: "in_code (length remove) i rel" and at: "i \<le> length remove"
    and len: "length remove < 2 ^ 32"
    and "- (2 ^ 31) \<le> rel" "rel < 2 ^ 31"
  shows "rebase_offset new_offset i (new_index remove i) (remap 0 remove) rel
    = Inr (new_rel remove i rel)"
proof (rule rebase_offset_fits [OF in_code at len])
  fix t assume "int t - int (new_index remove i) = new_rel remove i rel" "t < 2 ^ 32"
  moreover have "new_index remove i < 2 ^ 32" using at len new_index_le [of remove i] by linarith
  moreover have "- (2 ^ 31) \<le> new_rel remove i rel" "new_rel remove i rel < 2 ^ 31"
    using new_rel_bounds [of i rel remove] in_code assms by (auto simp: in_code_def)
  ultimately show "new_offset (new_index remove i) t = Inr (int t - int (new_index remove i))"
    by (intro new_offset_eq) auto
qed

lemma rebase_short_offset:
  assumes in_code: "in_code (length remove) i rel" and at: "i \<le> length remove"
    and len: "length remove < 2 ^ 32"
    and "- (2 ^ 15) \<le> rel" "rel < 2 ^ 15"
  shows "rebase_offset short_offset i (new_index remove i) (remap 0 remove) rel
    = Inr (new_rel remove i rel)"
proof (rule rebase_offset_fits [OF in_code at len])
  fix t assume t: "int t - int (new_index remove i) = new_rel remove i rel" "t < 2 ^ 32"
  have "new_index remove i < 2 ^ 32" using at len new_index_le [of remove i] by linarith
  moreover have "- (2 ^ 15) \<le> new_rel remove i rel" "new_rel remove i rel < 2 ^ 15"
    using new_rel_bounds [of i rel remove] in_code assms by (auto simp: in_code_def)
  ultimately show "short_offset (new_index remove i) t = Inr (int t - int (new_index remove i))"
    using t by (simp add: short_offset_def new_offset_eq)
qed

lemma rebase_near_offset:
  assumes in_code: "in_code (length remove) i rel" and at: "i \<le> length remove"
    and len: "length remove < 2 ^ 32"
    and "- (2 ^ 7) \<le> rel" "rel < 2 ^ 7"
  shows "rebase_offset near_offset i (new_index remove i) (remap 0 remove) rel
    = Inr (new_rel remove i rel)"
proof (rule rebase_offset_fits [OF in_code at len])
  fix t assume t: "int t - int (new_index remove i) = new_rel remove i rel" "t < 2 ^ 32"
  have "new_index remove i < 2 ^ 32" using at len new_index_le [of remove i] by linarith
  moreover have "- (2 ^ 7) \<le> new_rel remove i rel" "new_rel remove i rel < 2 ^ 7"
    using new_rel_bounds [of i rel remove] in_code assms by (auto simp: in_code_def)
  ultimately show "near_offset (new_index remove i) t = Inr (int t - int (new_index remove i))"
    using t by (simp add: near_offset_def new_offset_eq)
qed

section \<open>One instruction rebased\<close>

lemma branch_of_set_wide:
  "branch_of ins = WideBranch rel \<Longrightarrow> branch_of (set_wide rel' ins) = WideBranch rel'"
  by (auto simp: branch_of_def set_wide_def
      split: instruction.splits jump_instruction.splits loop_instruction.splits
        float_instruction.splits array_instruction.splits string_instruction.splits
        object_instruction.splits switch_instruction.splits)

lemma branch_of_set_near:
  "branch_of ins = NearBranch rel \<Longrightarrow> branch_of (set_near rel' ins) = NearBranch rel'"
  by (auto simp: branch_of_def set_near_def
      split: instruction.splits jump_instruction.splits loop_instruction.splits
        float_instruction.splits array_instruction.splits string_instruction.splits
        object_instruction.splits switch_instruction.splits)

lemma branch_of_set_short:
  "branch_of ins = ShortBranch rel \<Longrightarrow> branch_of (set_short rel' ins) = ShortBranch rel'"
  by (auto simp: branch_of_def set_short_def
      split: instruction.splits jump_instruction.splits loop_instruction.splits
        float_instruction.splits array_instruction.splits string_instruction.splits
        object_instruction.splits switch_instruction.splits)

lemma branch_of_set_two_short:
  "branch_of ins = TwoShortBranches f d \<Longrightarrow>
     branch_of (set_two_short f' d' ins) = TwoShortBranches f' d'"
  by (auto simp: branch_of_def set_two_short_def
      split: instruction.splits jump_instruction.splits loop_instruction.splits
        float_instruction.splits array_instruction.splits string_instruction.splits
        object_instruction.splits switch_instruction.splits)

lemmas branch_of_set =
  branch_of_set_wide branch_of_set_near branch_of_set_short branch_of_set_two_short

lemma sint_u32_range: "- (2 ^ 31) \<le> sint (w :: u32)" "sint (w :: u32) < 2 ^ 31"
  using sint_ge [of w] sint_lt [of w] by auto

lemma sint_u16_range: "- (2 ^ 15) \<le> sint (w :: u16)" "sint (w :: u16) < 2 ^ 15"
  using sint_ge [of w] sint_lt [of w] by auto

lemma sint_u8_range: "- (2 ^ 7) \<le> sint (w :: u8)" "sint (w :: u8) < 2 ^ 7"
  using sint_ge [of w] sint_lt [of w] by auto

lemma sint_of_int_word:
  "- (2 ^ (LENGTH('a) - 1)) \<le> i \<Longrightarrow> i < 2 ^ (LENGTH('a) - 1) \<Longrightarrow>
     sint (word_of_int i :: 'a::len word) = i"
  by (simp add: signed_of_int signed_take_bit_int_eq_self)

lemma sint_new_rel:
  assumes "in_code len i (sint (w :: 'a::len word))"
  shows "sint (word_of_int (new_rel remove i (sint w)) :: 'a word) = new_rel remove i (sint w)"
proof (rule sint_of_int_word)
  have "0 \<le> int i + sint w" using assms by (simp add: in_code_def)
  from new_rel_bounds [OF this, of remove] sint_ge [of w] sint_lt [of w]
  show "- (2 ^ (LENGTH('a) - 1)) \<le> new_rel remove i (sint w)"
    and "new_rel remove i (sint w) < 2 ^ (LENGTH('a) - 1)"
    by (auto simp: min_def max_def split: if_splits intro: le_less_trans)
qed

definition new_offset_word :: "bool list \<Rightarrow> nat \<Rightarrow> 'a::len word \<Rightarrow> 'a word" where
  "new_offset_word remove i w = word_of_int (new_rel remove i (sint w))"

lemma rebase_table_offset_eq:
  assumes "length remove < 2 ^ 32" "i \<le> length remove" "in_code (length remove) i (sint w)"
  shows "rebase_table_offset i (new_index remove i) (remap 0 remove) w
    = Inr (new_offset_word remove i w)"
  using rebase_new_offset [OF assms(3,2,1) sint_u32_range]
  by (simp add: rebase_table_offset_def new_offset_word_def)

lemma traverse_rebase_table:
  assumes "length remove < 2 ^ 32" "i \<le> length remove"
    and "\<And>w. w \<in> set ws \<Longrightarrow> in_code (length remove) i (sint w)"
  shows "traverse (rebase_table_offset i (new_index remove i) (remap 0 remove)) ws
    = Inr (map (new_offset_word remove i) ws)"
  by (rule traverse_total) (use assms in \<open>simp add: rebase_table_offset_eq\<close>)

lemma rebase_table:
  assumes len: "length remove < 2 ^ 32" "i \<le> length remove"
    and offs: "\<And>w. w \<in> set (table_offsets table) \<Longrightarrow> in_code (length remove) i (sint w)"
  shows "\<exists>table'. rebase_switch_table i (new_index remove i) (remap 0 remove) table = Inr table' \<and>
    table_offsets table' = map (new_offset_word remove i) (table_offsets table)"
proof (cases table)
  case (StringTable arms buckets d)
  have "traverse (rebase_table_offset i (new_index remove i) (remap 0 remove)) (map snd arms)
      = Inr (map (new_offset_word remove i) (map snd arms))"
    by (rule traverse_rebase_table [OF len]) (use offs StringTable in auto)
  moreover have "rebase_table_offset i (new_index remove i) (remap 0 remove) d
      = Inr (new_offset_word remove i d)"
    by (rule rebase_table_offset_eq [OF len]) (use offs StringTable in auto)
  ultimately show ?thesis
    using StringTable by (simp add: rebase_switch_table_def Let_def del: map_map)
qed (use offs in \<open>simp_all add: rebase_switch_table_def Let_def traverse_rebase_table [OF len]
      rebase_table_offset_eq [OF len]\<close>)

text \<open>
  \<open>rebased\<close> relates an instruction at \<open>i\<close> with its successor: the same instruction up to its
  offsets, and each offset leads where the remap sends the old target.
\<close>

definition rebased :: "bool list \<Rightarrow> chunk \<Rightarrow> nat \<Rightarrow> instruction \<Rightarrow> chunk \<Rightarrow> instruction \<Rightarrow> bool" where
  "rebased remove c i ins c' ins' \<longleftrightarrow>
     (\<exists>b. ins' = set_branch b ins) \<and>
     (\<exists>offs. branch_offsets c ins = Inr offs \<and>
        branch_offsets c' ins' = Inr (map (new_rel remove i) offs))"

definition offsets_in_code :: "nat \<Rightarrow> chunk \<Rightarrow> nat \<Rightarrow> instruction \<Rightarrow> bool" where
  "offsets_in_code len c i ins \<longleftrightarrow>
     (\<exists>offs. branch_offsets c ins = Inr offs \<and> (\<forall>rel\<in>set offs. in_code len i rel))"

definition table_of :: "instruction \<Rightarrow> nat option" where
  "table_of ins = (case branch_of ins of TableBranch t \<Rightarrow> Some (unat t) | _ \<Rightarrow> None)"

lemma rebase_targets_spec:
  assumes len: "length remove < 2 ^ 32" and i: "i \<le> length remove"
    and ok: "offsets_in_code (length remove) c i ins"
  shows "\<exists>ins' tables. rebase_targets i (new_index remove i) (remap 0 remove) ins c
      = Inr (ins', c\<lparr>switch_tables := tables\<rparr>) \<and>
    rebased remove c i ins (c\<lparr>switch_tables := tables\<rparr>) ins' \<and> table_of ins' = table_of ins \<and>
    length tables = length (switch_tables c) \<and>
    (\<forall>t. table_of ins \<noteq> Some t \<longrightarrow> tables ! t = switch_tables c ! t)"
proof -
  note rb = rebase_new_offset [OF _ i len sint_u32_range]
    rebase_short_offset [OF _ i len sint_u16_range] rebase_near_offset [OF _ i len sint_u8_range]
  have same: "c\<lparr>switch_tables := switch_tables c\<rparr> = c" by simp
  from ok obtain offs where offs: "branch_offsets c ins = Inr offs"
    "\<And>rel. rel \<in> set offs \<Longrightarrow> in_code (length remove) i rel" by (auto simp: offsets_in_code_def)
  have nil: "set_branch NoBranch ins = ins" by (simp add: set_branch_def)
  show ?thesis
  proof (cases "branch_of ins")
    case (WideBranch w)
    with offs have "in_code (length remove) i (sint w)" by (auto simp: branch_offsets_def)
    with WideBranch show ?thesis
      by (intro exI [of _ "set_wide (new_offset_word remove i w) ins"] exI [of _ "switch_tables c"])
        (auto simp: rebase_targets_def rb set_branch_def rebased_def branch_offsets_def table_of_def
          branch_of_set_wide new_offset_word_def sint_new_rel intro: exI [of _ "WideBranch _"])
  next
    case (ShortBranch w)
    with offs have "in_code (length remove) i (sint w)" by (auto simp: branch_offsets_def)
    with ShortBranch show ?thesis
      by (intro exI [of _ "set_short (new_offset_word remove i w) ins"] exI [of _ "switch_tables c"])
        (auto simp: rebase_targets_def rb set_branch_def rebased_def branch_offsets_def table_of_def
          branch_of_set_short new_offset_word_def sint_new_rel intro: exI [of _ "ShortBranch _"])
  next
    case (NearBranch w)
    with offs have "in_code (length remove) i (sint w)" by (auto simp: branch_offsets_def)
    with NearBranch show ?thesis
      by (intro exI [of _ "set_near (new_offset_word remove i w) ins"] exI [of _ "switch_tables c"])
        (auto simp: rebase_targets_def rb set_branch_def rebased_def branch_offsets_def table_of_def
          branch_of_set_near new_offset_word_def sint_new_rel intro: exI [of _ "NearBranch _"])
  next
    case (TwoShortBranches f d)
    with offs have "in_code (length remove) i (sint f)" "in_code (length remove) i (sint d)"
      by (auto simp: branch_offsets_def)
    with TwoShortBranches show ?thesis
      by (intro exI [of _ "set_two_short (new_offset_word remove i f) (new_offset_word remove i d) ins"]
          exI [of _ "switch_tables c"])
        (auto simp: rebase_targets_def rb set_branch_def rebased_def branch_offsets_def table_of_def
          branch_of_set_two_short new_offset_word_def sint_new_rel
          intro: exI [of _ "TwoShortBranches _ _"])
  next
    case (TableBranch t)
    with offs(1) obtain table where t: "table_entry (switch_tables c) t = Inr table"
      and o: "offs = map sint (table_offsets table)"
      by (auto simp: branch_offsets_def)
    have t': "unat t < length (switch_tables c)" using t by (simp add: table_entry_def)
    have "in_code (length remove) i (sint w)" if "w \<in> set (table_offsets table)" for w
      using offs(2) o that by auto
    then obtain table' where table':
        "rebase_switch_table i (new_index remove i) (remap 0 remove) table = Inr table'"
        "table_offsets table' = map (new_offset_word remove i) (table_offsets table)"
      using rebase_table [OF len i] by blast
    let ?ts = "(switch_tables c)[unat t := table']"
    have "map sint (table_offsets table') = map (new_rel remove i) offs"
      unfolding table'(2) o
      by (simp add: new_offset_word_def sint_new_rel [OF offs(2)] o)
    with TableBranch t t' table' nil offs(1) show ?thesis
      by (intro exI [of _ ins] exI [of _ ?ts])
        (auto simp: rebase_targets_def rebased_def branch_offsets_def table_of_def table_entry_def
          intro: exI [of _ NoBranch])
  next
    case NoBranch
    with nil show ?thesis
      by (intro exI [of _ ins] exI [of _ "switch_tables c"])
        (auto simp: rebase_targets_def rebased_def branch_offsets_def table_of_def
          intro: exI [of _ NoBranch])
  qed
qed
section \<open>Compaction\<close>

definition kept :: "bool list \<Rightarrow> nat \<Rightarrow> instruction list \<Rightarrow> (nat \<times> instruction) list" where
  "kept remove k rest = filter (\<lambda>(i, _). \<not> remove ! i) (enumerate_from k rest)"

definition tables_of :: "(nat \<times> instruction) list \<Rightarrow> nat list" where
  "tables_of ks = concat (map (\<lambda>(_, ins). case table_of ins of None \<Rightarrow> [] | Some t \<Rightarrow> [t]) ks)"

lemma tables_of_simps [simp]:
  "tables_of [] = []"
  "tables_of ((i, ins) # ks) = (case table_of ins of None \<Rightarrow> [] | Some t \<Rightarrow> [t]) @ tables_of ks"
  by (auto simp: tables_of_def)

lemma table_of_tables_of: "(i, ins) \<in> set ks \<Longrightarrow> table_of ins = Some t \<Longrightarrow> t \<in> set (tables_of ks)"
  by (force simp: tables_of_def)

lemma branch_offsets_cong:
  assumes "length (switch_tables c') = length (switch_tables c)"
    and "\<And>t. table_of ins = Some t \<Longrightarrow> switch_tables c' ! t = switch_tables c ! t"
  shows "branch_offsets c' ins = branch_offsets c ins"
  using assms
  by (auto simp: branch_offsets_def table_of_def table_entry_def list_get_def split: branch.splits)

lemma rebased_cong:
  assumes "rebased remove c1 i ins c2 ins'"
    and "branch_offsets c1' ins = branch_offsets c1 ins"
    and "branch_offsets c2' ins' = branch_offsets c2 ins'"
  shows "rebased remove c1' i ins c2' ins'"
  using assms by (simp add: rebased_def)

lemma compact_code_spec:
  assumes len: "length remove < 2 ^ 32" "length sp = length remove"
    and "k + length rest = length remove"
    and "\<And>i ins. (i, ins) \<in> set (kept remove k rest) \<Longrightarrow> offsets_in_code (length remove) c i ins"
    and "distinct (tables_of (kept remove k rest))"
  shows "\<exists>news tables.
    compact_code (remap 0 remove) remove sp k rest c = Inr (c\<lparr>code := code c @ news,
      spans := spans c @ map (\<lambda>(i, _). sp ! i) (kept remove k rest), switch_tables := tables\<rparr>) \<and>
    length tables = length (switch_tables c) \<and>
    (\<forall>t. t \<notin> set (tables_of (kept remove k rest)) \<longrightarrow> tables ! t = switch_tables c ! t) \<and>
    list_all2 (\<lambda>(i, ins) ins'. rebased remove c i ins (c\<lparr>switch_tables := tables\<rparr>) ins' \<and>
      table_of ins' = table_of ins) (kept remove k rest) news"
  using assms(3-5)
proof (induction rest arbitrary: k c)
  case Nil
  show ?case by (intro exI [of _ "[]"] exI [of _ "switch_tables c"]) (simp add: kept_def)
next
  case (Cons ins rest)
  then have k: "k < length remove" and k': "Suc k + length rest = length remove" by auto
  have at: "index_of remove k = Inr (remove ! k)" "index_of sp k = Inr (sp ! k)"
    using k len(2) by (auto simp: index_of_def)
  show ?case
  proof (cases "remove ! k")
    case True
    then have ks: "kept remove k (ins # rest) = kept remove (Suc k) rest" by (simp add: kept_def)
    from Cons.IH [OF k', of c] Cons.prems(2,3)
    show ?thesis unfolding compact_code.simps at ks using True by simp
  next
    case False
    then have ks: "kept remove k (ins # rest) = (k, ins) # kept remove (Suc k) rest"
      by (simp add: kept_def)
    let ?ks = "kept remove (Suc k) rest"
    obtain ins' tables1 where r: "rebase_targets k (new_index remove k) (remap 0 remove) ins c
        = Inr (ins', c\<lparr>switch_tables := tables1\<rparr>)"
      and rb: "rebased remove c k ins (c\<lparr>switch_tables := tables1\<rparr>) ins'"
        "table_of ins' = table_of ins"
      and t1: "length tables1 = length (switch_tables c)"
        "\<And>t. table_of ins \<noteq> Some t \<Longrightarrow> tables1 ! t = switch_tables c ! t"
      using rebase_targets_spec [OF len(1), of k c ins] Cons.prems(2) [of k ins] ks k by auto
    define c1 where
      "c1 = c\<lparr>switch_tables := tables1, code := code c @ [ins'], spans := spans c @ [sp ! k]\<rparr>"
    have other: "branch_offsets c1 x = branch_offsets c x" if "(i, x) \<in> set ?ks" for i x
    proof (rule branch_offsets_cong)
      show "switch_tables c1 ! t = switch_tables c ! t" if "table_of x = Some t" for t
        using t1(2) [of t] Cons.prems(3) table_of_tables_of [OF \<open>(i, x) \<in> set ?ks\<close> that]
        unfolding ks by (auto simp: c1_def split: option.splits)
    qed (simp add: c1_def t1)
    have "offsets_in_code (length remove) c1 i x" if "(i, x) \<in> set ?ks" for i x
      using Cons.prems(2) [of i x] that ks other [OF that] by (simp add: offsets_in_code_def)
    moreover have "distinct (tables_of ?ks)" using Cons.prems(3) ks by simp
    ultimately obtain news tables where
      cc: "compact_code (remap 0 remove) remove sp (Suc k) rest c1 = Inr (c1\<lparr>code := code c1 @ news,
        spans := spans c1 @ map (\<lambda>(i, _). sp ! i) ?ks, switch_tables := tables\<rparr>)"
      and t2: "length tables = length tables1"
        "\<And>t. t \<notin> set (tables_of ?ks) \<Longrightarrow> tables ! t = tables1 ! t"
      and all: "list_all2 (\<lambda>(i, ins) ins'. rebased remove c1 i ins (c1\<lparr>switch_tables := tables\<rparr>) ins'
        \<and> table_of ins' = table_of ins) ?ks news"
      using Cons.IH [OF k', of c1] by (auto simp: c1_def)
    have "branch_offsets (c\<lparr>switch_tables := tables\<rparr>) ins'
        = branch_offsets (c\<lparr>switch_tables := tables1\<rparr>) ins'"
      by (rule branch_offsets_cong)
        (use t2 Cons.prems(3) in \<open>auto simp: ks rb(2) split: option.splits\<close>)
    with rb have first: "rebased remove c k ins (c\<lparr>switch_tables := tables\<rparr>) ins'"
      by (auto intro: rebased_cong)
    have "list_all2 (\<lambda>(i, ins) ins'. rebased remove c i ins (c\<lparr>switch_tables := tables\<rparr>) ins'
        \<and> table_of ins' = table_of ins) ?ks news"
      using all
    proof (rule list.rel_mono_strong)
      fix p x assume p: "p \<in> set ?ks"
      assume h: "(\<lambda>(i, ins) ins'. rebased remove c1 i ins (c1\<lparr>switch_tables := tables\<rparr>) ins'
        \<and> table_of ins' = table_of ins) p x"
      have eq: "branch_offsets (c\<lparr>switch_tables := tables\<rparr>) x
          = branch_offsets (c1\<lparr>switch_tables := tables\<rparr>) x"
        by (rule branch_offsets_cong) simp_all
      obtain i y where pq: "p = (i, y)" by (cases p)
      with p have "branch_offsets c1 y = branch_offsets c y" by (intro other) simp
      with h eq pq show "(\<lambda>(i, ins) ins'. rebased remove c i ins (c\<lparr>switch_tables := tables\<rparr>) ins'
        \<and> table_of ins' = table_of ins) p x"
        by (auto intro: rebased_cong)
    qed
    moreover have "compact_code (remap 0 remove) remove sp k (ins # rest) c
        = Inr (c\<lparr>code := code c @ ins' # news,
            spans := spans c @ map (\<lambda>(i, _). sp ! i) (kept remove k (ins # rest)),
            switch_tables := tables\<rparr>)"
      using False at k r cc by (simp add: ks c1_def)
    ultimately show ?thesis
      using first rb(2) t1 t2
      by (intro exI [of _ "ins' # news"] exI [of _ tables])
        (auto simp: ks split: option.splits)
  qed
qed
lemma kept_nth:
  assumes "k + length rest = length remove" "i < length rest" "\<not> remove ! (k + i)"
  shows "new_index (drop k remove) i < length (kept remove k rest)"
    and "kept remove k rest ! new_index (drop k remove) i = (k + i, rest ! i)"
proof -
  have "new_index (drop k remove) i < length (kept remove k rest) \<and>
    kept remove k rest ! new_index (drop k remove) i = (k + i, rest ! i)"
    using assms
  proof (induction rest arbitrary: k i)
    case (Cons ins rest)
    have d: "drop k remove = remove ! k # drop (Suc k) remove"
      using Cons.prems(1) by (simp add: Cons_nth_drop_Suc)
    show ?case
    proof (cases i)
      case 0
      with Cons.prems(3) show ?thesis by (simp add: kept_def new_index_def)
    next
      case (Suc j)
      with Cons.IH [of "Suc k" j] Cons.prems show ?thesis
        by (auto simp: kept_def d new_index_def)
    qed
  qed simp
  then show "new_index (drop k remove) i < length (kept remove k rest)"
    and "kept remove k rest ! new_index (drop k remove) i = (k + i, rest ! i)" by auto
qed

lemma length_kept: "k + length rest = length remove \<Longrightarrow>
  length (kept remove k rest) = length (filter Not (drop k remove))"
proof (induction rest arbitrary: k)
  case (Cons ins rest)
  then have "drop k remove = remove ! k # drop (Suc k) remove"
    by (simp add: Cons_nth_drop_Suc)
  with Cons.IH [of "Suc k"] Cons.prems show ?case by (auto simp: kept_def)
qed (simp add: kept_def)

text \<open>Targets are what the offsets lead to.\<close>

lemma instruction_targets_rebased:
  assumes "rebased remove c i ins c' ins'" "offsets_in_code (length remove) c i ins"
    and len: "length remove < 2 ^ 32" "i < length remove"
  shows "\<exists>ts. instruction_targets c i ins = Inr ts \<and>
    instruction_targets c' (new_index remove i) ins' = Inr (map (new_index remove) ts)"
proof -
  from assms(1,2) obtain offs where offs: "branch_offsets c ins = Inr offs"
    "branch_offsets c' ins' = Inr (map (new_rel remove i) offs)"
    "\<And>rel. rel \<in> set offs \<Longrightarrow> in_code (length remove) i rel"
    by (auto simp: rebased_def offsets_in_code_def)
  have "traverse (relative_target i) offs = Inr (map (\<lambda>rel. nat (int i + rel)) offs)"
    using relative_target_in_code [OF offs(3)] len by (intro traverse_total) auto
  moreover have "relative_target (new_index remove i) (new_rel remove i rel)
      = Inr (new_index remove (nat (int i + rel)))" if "rel \<in> set offs" for rel
    using len new_index_le [of remove i] by (simp add: relative_target_def new_rel_def)
  then have "traverse (relative_target (new_index remove i)) (map (new_rel remove i) offs)
      = Inr (map (\<lambda>x. nat (int (new_index remove i) + x)) (map (new_rel remove i) offs))"
    by (intro traverse_total) (auto simp: new_rel_def)
  ultimately show ?thesis
    using offs(1,2) by (simp add: instruction_targets_def new_rel_def comp_def)
qed

text \<open>What compaction needs of its arguments.\<close>

definition compactable :: "bool list \<Rightarrow> chunk \<Rightarrow> bool" where
  "compactable remove c \<longleftrightarrow>
     length remove = length (code c) \<and> length (spans c) = length (code c) \<and>
     length (code c) < 2 ^ 32 \<and>
     (\<forall>(i, ins)\<in>set (kept remove 0 (code c)). offsets_in_code (length (code c)) c i ins) \<and>
     distinct (tables_of (kept remove 0 (code c))) \<and>
     (\<forall>e\<in>set (catch_table c). unat (catch_start e) \<le> length (code c) \<and>
        unat (catch_end e) \<le> length (code c) \<and> unat (handler e) \<le> length (code c))"

definition moved_catch_entry :: "bool list \<Rightarrow> catch_entry \<Rightarrow> catch_entry" where
  "moved_catch_entry remove e =
     e\<lparr>catch_start := of_nat (new_index remove (unat (catch_start e))),
       catch_end := of_nat (new_index remove (unat (catch_end e))),
       handler := of_nat (new_index remove (unat (handler e)))\<rparr>"

lemma compact_catch_entry_moved:
  assumes "length remove < 2 ^ 32" "unat (catch_start e) \<le> length remove"
    "unat (catch_end e) \<le> length remove" "unat (handler e) \<le> length remove"
  shows "compact_catch_entry (remap 0 remove) e = Inr (moved_catch_entry remove e)"
proof -
  have "remap_index (remap 0 remove) w = Inr (of_nat (new_index remove (unat w)))"
    if "unat w \<le> length remove" for w
    using that assms(1) new_index_le [of remove "unat w"]
    by (simp add: remap_index_def native_index_def)
  with assms show ?thesis by (simp add: compact_catch_entry_def moved_catch_entry_def)
qed

lemma compact_returns:
  assumes "compactable remove c"
  shows "\<exists>news tables. compact remove c = Inr (c\<lparr>code := news,
      spans := map (\<lambda>(i, _). spans c ! i) (kept remove 0 (code c)), switch_tables := tables,
      catch_table := map (moved_catch_entry remove) (catch_table c)\<rparr>) \<and>
    list_all2 (\<lambda>(i, ins) ins'. rebased remove c i ins (c\<lparr>switch_tables := tables\<rparr>) ins')
      (kept remove 0 (code c)) news"
proof -
  let ?c = "c\<lparr>code := [], spans := []\<rparr>"
  have bo: "branch_offsets ?c ins = branch_offsets c ins" for ins
    by (rule branch_offsets_cong) simp_all
  from assms have len: "length remove < 2 ^ 32" "length (spans c) = length remove"
    "0 + length (code c) = length remove" by (auto simp: compactable_def)
  have "offsets_in_code (length remove) ?c i ins" if "(i, ins) \<in> set (kept remove 0 (code c))" for i ins
    using assms that by (auto simp: compactable_def offsets_in_code_def bo)
  moreover have "distinct (tables_of (kept remove 0 (code c)))"
    using assms by (simp add: compactable_def)
  ultimately obtain news tables where
    cc: "compact_code (remap 0 remove) remove (spans c) 0 (code c) ?c = Inr (?c\<lparr>code := news,
      spans := map (\<lambda>(i, _). spans c ! i) (kept remove 0 (code c)), switch_tables := tables\<rparr>)"
    and all: "list_all2 (\<lambda>(i, ins) ins'. rebased remove ?c i ins (?c\<lparr>switch_tables := tables\<rparr>) ins'
      \<and> table_of ins' = table_of ins) (kept remove 0 (code c)) news"
    using compact_code_spec [OF len, of ?c] by auto
  have bo': "branch_offsets (c\<lparr>switch_tables := tables\<rparr>) ins
      = branch_offsets (?c\<lparr>switch_tables := tables\<rparr>) ins" for ins
    by (rule branch_offsets_cong) simp_all
  have "traverse (compact_catch_entry (remap 0 remove)) (catch_table c)
      = Inr (map (moved_catch_entry remove) (catch_table c))"
    using assms len by (intro traverse_total compact_catch_entry_moved) (auto simp: compactable_def)
  with cc have "compact remove c = Inr (c\<lparr>code := news,
      spans := map (\<lambda>(i, _). spans c ! i) (kept remove 0 (code c)), switch_tables := tables,
      catch_table := map (moved_catch_entry remove) (catch_table c)\<rparr>)"
    by (simp add: compact_def)
  moreover have "list_all2 (\<lambda>(i, ins) ins'. rebased remove c i ins (c\<lparr>switch_tables := tables\<rparr>) ins')
      (kept remove 0 (code c)) news"
    using all by (rule list_all2_mono) (auto intro: rebased_cong simp: bo bo')
  ultimately show ?thesis by blast
qed

lemma compact_spec:
  assumes "compactable remove c"
  shows "\<exists>c'. compact remove c = Inr c' \<and>
    length (code c') = new_index remove (length (code c)) \<and> length (spans c') = length (code c') \<and>
    catch_table c' = map (moved_catch_entry remove) (catch_table c) \<and>
    (\<forall>i<length (code c). \<not> remove ! i \<longrightarrow>
       new_index remove i < length (code c') \<and>
       spans c' ! new_index remove i = spans c ! i \<and>
       (\<exists>b. code c' ! new_index remove i = set_branch b (code c ! i)) \<and>
       (\<exists>ts. instruction_targets c i (code c ! i) = Inr ts \<and>
          instruction_targets c' (new_index remove i) (code c' ! new_index remove i)
            = Inr (map (new_index remove) ts)))"
proof -
  let ?ks = "kept remove 0 (code c)"
  obtain news tables where cc: "compact remove c = Inr (c\<lparr>code := news,
      spans := map (\<lambda>(i, _). spans c ! i) ?ks, switch_tables := tables,
      catch_table := map (moved_catch_entry remove) (catch_table c)\<rparr>)"
    and all: "list_all2 (\<lambda>(i, ins) ins'. rebased remove c i ins (c\<lparr>switch_tables := tables\<rparr>) ins') ?ks news"
    using compact_returns [OF assms] by blast
  let ?c' = "c\<lparr>code := news, spans := map (\<lambda>(i, _). spans c ! i) ?ks, switch_tables := tables,
      catch_table := map (moved_catch_entry remove) (catch_table c)\<rparr>"
  from assms have len: "length remove < 2 ^ 32" "0 + length (code c) = length remove"
    by (auto simp: compactable_def)
  have n: "length news = length ?ks" using all by (simp add: list_all2_lengthD)
  have each: "new_index remove i < length news \<and> spans ?c' ! new_index remove i = spans c ! i \<and>
      (\<exists>b. news ! new_index remove i = set_branch b (code c ! i)) \<and>
      (\<exists>ts. instruction_targets c i (code c ! i) = Inr ts \<and>
        instruction_targets ?c' (new_index remove i) (news ! new_index remove i)
          = Inr (map (new_index remove) ts))"
    if i: "i < length (code c)" "\<not> remove ! i" for i
  proof -
    have k: "new_index remove i < length ?ks" "?ks ! new_index remove i = (i, code c ! i)"
      using kept_nth [OF len(2), of i] i by auto
    then have rb: "rebased remove c i (code c ! i) (c\<lparr>switch_tables := tables\<rparr>)
        (news ! new_index remove i)"
      using list_all2_nthD [OF all k(1)] by simp
    have "branch_offsets ?c' x = branch_offsets (c\<lparr>switch_tables := tables\<rparr>) x" for x
      by (rule branch_offsets_cong) simp_all
    with rb have rb': "rebased remove c i (code c ! i) ?c' (news ! new_index remove i)"
      by (auto intro: rebased_cong)
    have "(i, code c ! i) \<in> set ?ks" using k by (metis nth_mem)
    then have "offsets_in_code (length remove) c i (code c ! i)"
      using assms by (auto simp: compactable_def)
    with instruction_targets_rebased [OF rb' _ len(1)] i len(2) k n rb'
    show ?thesis by (auto simp: rebased_def)
  qed
  have "length ?ks = new_index remove (length (code c))"
    using length_kept [OF len(2)] len(2) by (simp add: new_index_def)
  with cc n each show ?thesis by (intro exI [of _ ?c']) (simp del: nth_map)
qed
end
