(* ===== verification/Whim_Cfg.thy ===== *)
theory Whim_Cfg
  imports Whim_Verify Whim_Rewrite
begin

text \<open>
  Control flow between the instructions of a chunk (\<^verbatim>\<open>crates/optimizer/src/cfg.rs\<close>): the successors of
  an instruction, the shared-table test and the two block-boundary tests of the optimizer, with
  what verification says of them. The instructions that transfer control are grouped as the source
  groups them: always to their targets, never anywhere, the two ways out of an iteration step, and
  for all the rest the next instruction and their targets.
\<close>

section \<open>Successors\<close>

definition jumps_always :: "instruction \<Rightarrow> bool" where
  "jumps_always ins \<longleftrightarrow>
     (case ins of
        Branch (Jump _) \<Rightarrow> True
      | LoopOp (NumericRegionJump _) \<Rightarrow> True
      | LoopOp (IncrementJump _ _ _) \<Rightarrow> True
      | Switch (SwitchInt _ _) \<Rightarrow> True
      | Switch (SwitchString _ _) \<Rightarrow> True
      | Switch (SwitchBool _ _) \<Rightarrow> True
      | Switch (SwitchFloat _ _) \<Rightarrow> True
      | Switch (SwitchPattern _ _) \<Rightarrow> True
      | Switch (SwitchTuplePattern _ _ _) \<Rightarrow> True
      | _ \<Rightarrow> False)"

definition is_foreach_next :: "instruction \<Rightarrow> bool" where
  "is_foreach_next ins \<longleftrightarrow>
     (case ins of
        ArrayUpdate (ForeachNext _ _ _) \<Rightarrow> True
      | ArrayUpdate (VecForeachNext _ _ _ _) \<Rightarrow> True
      | ArrayUpdate (DictForeachNext _ _ _ _) \<Rightarrow> True
      | _ \<Rightarrow> False)"

definition leaves_chunk :: "instruction \<Rightarrow> bool" where
  "leaves_chunk ins \<longleftrightarrow>
     (case ins of
        ReturnOp _ \<Rightarrow> True
      | CheckOp (Throw _) \<Rightarrow> True
      | CheckOp Rethrow \<Rightarrow> True
      | CheckOp (ThrowUnhandledMatch _) \<Rightarrow> True
      | CheckOp (Exit _) \<Rightarrow> True
      | CheckOp (Panic _) \<Rightarrow> True
      | _ \<Rightarrow> False)"

definition successors :: "chunk \<Rightarrow> nat \<Rightarrow> panic + nat list" where
  "successors c index =
     result_bind (index_of (code c) index) (\<lambda>ins.
       if jumps_always ins then instruction_targets c index ins
       else if is_foreach_next ins then Inr [index + 1, index + 2]
       else if leaves_chunk ins then Inr []
       else result_map ((#) (index + 1)) (instruction_targets c index ins))"

text \<open>The set of tables seen so far grows; the first table seen twice ends the search.\<close>

fun shares_table :: "nat set \<Rightarrow> instruction list \<Rightarrow> bool" where
  "shares_table seen [] = False"
| "shares_table seen (ins # rest) =
     (case table_of ins of
        Some t \<Rightarrow> t \<in> seen \<or> shares_table (insert t seen) rest
      | None \<Rightarrow> shares_table seen rest)"

definition has_shared_switch_table :: "chunk \<Rightarrow> bool" where
  "has_shared_switch_table c = shares_table {} (code c)"

definition branches_or_terminates :: "instruction \<Rightarrow> bool" where
  "branches_or_terminates ins \<longleftrightarrow>
     (case ins of
        Branch _ \<Rightarrow> True
      | LoopOp _ \<Rightarrow> True
      | Switch _ \<Rightarrow> True
      | ReturnOp _ \<Rightarrow> True
      | ArrayOp i \<Rightarrow>
          (case i of
             IndexCoalesce _ _ _ _ \<Rightarrow> True
           | VecIndexCoalesce _ _ _ _ \<Rightarrow> True
           | DictIndexCoalesceIntKey _ _ _ _ \<Rightarrow> True
           | DictIndexCoalesceUintKey _ _ _ _ \<Rightarrow> True
           | DictIndexCoalesceStringKey _ _ _ _ \<Rightarrow> True
           | _ \<Rightarrow> False)
      | StringOp i \<Rightarrow>
          (case i of
             StringIndexCoalesce _ _ _ _ \<Rightarrow> True
           | StringByteJumpUnlessEqual _ _ _ _ \<Rightarrow> True
           | StringByteJumpUnlessNotEqual _ _ _ _ \<Rightarrow> True
           | _ \<Rightarrow> False)
      | ObjectOp i \<Rightarrow>
          (case i of
             PropertyCoalesce _ _ _ _ \<Rightarrow> True
           | PropertyCoalesceUnchecked _ _ _ _ \<Rightarrow> True
           | StaticPropertyCoalesce _ _ _ \<Rightarrow> True
           | _ \<Rightarrow> False)
      | FloatOp (FloatSquaresSumBranch _ _) \<Rightarrow> True
      | ArrayUpdate (ForeachNext _ _ _) \<Rightarrow> True
      | ArrayUpdate (VecForeachNext _ _ _ _) \<Rightarrow> True
      | ArrayUpdate (DictForeachNext _ _ _ _) \<Rightarrow> True
      | CheckOp (Throw _) \<Rightarrow> True
      | CheckOp Rethrow \<Rightarrow> True
      | CheckOp (ThrowUnhandledMatch _) \<Rightarrow> True
      | CheckOp (Exit _) \<Rightarrow> True
      | CheckOp (Panic _) \<Rightarrow> True
      | _ \<Rightarrow> False)"

text \<open>
  An instruction that is no block end only falls through, and an instruction with a target or
  without a fall-through is a block end.
\<close>

lemma branch_of_straight: "\<not> branches_or_terminates ins \<Longrightarrow> branch_of ins = NoBranch"
  by (auto simp: branch_of_def branches_or_terminates_def
      split: instruction.splits float_instruction.splits array_instruction.splits
        string_instruction.splits object_instruction.splits)

lemma straight_flow:
  assumes "\<not> branches_or_terminates ins"
  shows "\<not> jumps_always ins" "\<not> is_foreach_next ins" "\<not> leaves_chunk ins"
  using assms
  by (auto simp: branches_or_terminates_def jumps_always_def is_foreach_next_def leaves_chunk_def
      split: instruction.splits update_instruction.splits check_instruction.splits
        loop_instruction.splits switch_instruction.splits jump_instruction.splits)

lemma successors_straight:
  assumes "i < length (code c)" "\<not> branches_or_terminates (code c ! i)"
  shows "successors c i = Inr [i + 1]"
  using assms straight_flow [OF assms(2)] branch_of_straight [OF assms(2)]
  by (simp add: successors_def index_of_def instruction_targets_def branch_offsets_def)

section \<open>Targets of a verified chunk\<close>

lemma sint_scast_u8 [simp]: "sint (scast (w :: u8) :: u32) = sint w"
  by (rule sint_up_scast) (simp add: is_up)

text \<open>
  The branch of an instruction and its visited operands are two tables of the source; they agree.
\<close>

lemma wide_branch_operand:
  "branch_of ins = WideBranch rel \<Longrightarrow> JumpOperand rel \<in> set (instruction_operands ins)"
  by (auto simp: branch_of_def split: instruction.splits jump_instruction.splits
      loop_instruction.splits float_instruction.splits array_instruction.splits
      string_instruction.splits object_instruction.splits switch_instruction.splits)

lemma short_branch_operand:
  "branch_of ins = ShortBranch rel \<Longrightarrow> RelativeTargetOperand rel \<in> set (instruction_operands ins)"
  by (auto simp: branch_of_def split: instruction.splits jump_instruction.splits
      loop_instruction.splits float_instruction.splits array_instruction.splits
      string_instruction.splits object_instruction.splits switch_instruction.splits)

lemma near_branch_operand:
  "branch_of ins = NearBranch rel \<Longrightarrow> JumpOperand (scast rel) \<in> set (instruction_operands ins)"
  by (auto simp: branch_of_def split: instruction.splits jump_instruction.splits
      loop_instruction.splits float_instruction.splits array_instruction.splits
      string_instruction.splits object_instruction.splits switch_instruction.splits)

lemma two_short_branch_operands:
  "branch_of ins = TwoShortBranches f d \<Longrightarrow>
     RelativeTargetOperand f \<in> set (instruction_operands ins) \<and>
     RelativeTargetOperand d \<in> set (instruction_operands ins)"
  by (auto simp: branch_of_def split: instruction.splits jump_instruction.splits
      loop_instruction.splits float_instruction.splits array_instruction.splits
      string_instruction.splits object_instruction.splits switch_instruction.splits)

lemma table_branch_switch:
  "branch_of ins = TableBranch t \<Longrightarrow> \<exists>i. ins = Switch i \<and> switch_table_of i = Some t"
  by (auto simp: branch_of_def switch_table_of_def split: instruction.splits jump_instruction.splits
      loop_instruction.splits float_instruction.splits array_instruction.splits
      string_instruction.splits object_instruction.splits switch_instruction.splits)

definition in_range :: "chunk \<Rightarrow> nat \<Rightarrow> int \<Rightarrow> bool" where
  "in_range c i rel \<longleftrightarrow> 0 \<le> int i + rel \<and> int i + rel < int (length (code c))"

lemma verify_table_offsets:
  assumes "verify_table xxh3 c (of_nat i) ins t = Inr ()" "i < 2 ^ 32"
    "rel \<in> set (table_offsets t)"
  shows "in_range c i (sint rel)"
  using assms
  by (cases t) (auto simp: verify_table_def check_targets_Inr in_range_def
      split: if_splits option.splits)

lemma verified_offsets:
  assumes "verify xxh3 c = Inr ()" "i < length (code c)"
  shows "\<exists>offs. branch_offsets c (code c ! i) = Inr offs \<and> (\<forall>rel\<in>set offs. in_range c i rel)"
proof -
  note i = verified_instruction [OF assms]
  have op: "operand_valid c i x" if "x \<in> set (instruction_operands (code c ! i))" for x
    using verified_operand [OF assms that] i(2) by (simp add: verify_operand_iff)
  show ?thesis
  proof (cases "branch_of (code c ! i)")
    case (WideBranch rel)
    with op [OF wide_branch_operand] show ?thesis
      by (auto simp: branch_offsets_def operand_valid_def in_range_def)
  next
    case (ShortBranch rel)
    with op [OF short_branch_operand] show ?thesis
      by (auto simp: branch_offsets_def operand_valid_def in_range_def)
  next
    case (NearBranch rel)
    with op [OF near_branch_operand] show ?thesis
      by (auto simp: branch_offsets_def operand_valid_def in_range_def)
  next
    case (TwoShortBranches f d)
    with two_short_branch_operands [OF TwoShortBranches] op show ?thesis
      by (force simp: branch_offsets_def operand_valid_def in_range_def)
  next
    case (TableBranch t)
    obtain sw where sw: "code c ! i = Switch sw" "switch_table_of sw = Some t"
      using table_branch_switch [OF TableBranch] by blast
    then obtain table where "check_switch_table c (of_nat i) t = Inr table"
      "verify_table xxh3 c (of_nat i) sw table = Inr ()"
      using i(1) by (auto simp: verify_instruction_def verify_switch_def split: if_splits)
    with verify_table_offsets [OF _ i(2)] TableBranch show ?thesis
      by (auto simp: branch_offsets_def check_switch_table_def table_entry_def)
  next
    case NoBranch
    then show ?thesis by (simp add: branch_offsets_def)
  qed
qed

lemma verified_targets:
  assumes "verify xxh3 c = Inr ()" "i < length (code c)"
  shows "\<exists>ts. instruction_targets c i (code c ! i) = Inr ts \<and> (\<forall>t\<in>set ts. t < length (code c))"
proof -
  obtain offs where offs: "branch_offsets c (code c ! i) = Inr offs"
    "\<And>rel. rel \<in> set offs \<Longrightarrow> in_range c i rel" using verified_offsets [OF assms] by blast
  have "relative_target i rel = Inr (nat (int i + rel))" if "rel \<in> set offs" for rel
    using offs(2) [OF that] verified_instruction(2) [OF assms]
    by (simp add: relative_target_def in_range_def)
  then have "traverse (relative_target i) offs = Inr (map (\<lambda>rel. nat (int i + rel)) offs)"
    by (rule traverse_total)
  moreover have "nat (int i + rel) < length (code c)" if "rel \<in> set offs" for rel
    using offs(2) [OF that] unfolding in_range_def by linarith
  ultimately show ?thesis using offs(1) by (auto simp: instruction_targets_def)
qed

section \<open>Compaction of a verified chunk\<close>

lemma shares_table_iff:
  "\<not> shares_table seen (map snd ks) \<longleftrightarrow> distinct (tables_of ks) \<and> set (tables_of ks) \<inter> seen = {}"
  by (induction ks arbitrary: seen) (auto split: option.splits)

lemma map_snd_enumerate_from [simp]: "map snd (enumerate_from n xs) = xs"
  by (induction xs arbitrary: n) auto

lemma tables_of_filter: "set (tables_of (filter P ks)) \<subseteq> set (tables_of ks)"
  by (force simp: tables_of_def)

lemma distinct_tables_filter: "distinct (tables_of ks) \<Longrightarrow> distinct (tables_of (filter P ks))"
proof (induction ks)
  case (Cons k ks)
  obtain i ins where k: "k = (i, ins)" by (cases k)
  show ?case
  proof (cases "table_of ins")
    case None
    with Cons k show ?thesis by simp
  next
    case (Some t)
    with Cons.prems k have "t \<notin> set (tables_of (filter P ks))" using tables_of_filter [of P ks] by auto
    with Some Cons k show ?thesis by simp
  qed
qed simp

lemma unshared_kept:
  assumes "\<not> has_shared_switch_table c"
  shows "distinct (tables_of (kept remove 0 (code c)))"
  using assms shares_table_iff [of "{}" "enumerate_from 0 (code c)"]
  by (simp add: has_shared_switch_table_def kept_def distinct_tables_filter)

lemma verified_compactable:
  assumes "verify xxh3 c = Inr ()" "\<not> has_shared_switch_table c" "length remove = length (code c)"
  shows "compactable remove c"
proof -
  have "offsets_in_code (length (code c)) c i ins" if ks: "(i, ins) \<in> set (kept remove 0 (code c))"
    for i ins
  proof -
    from ks have "i < length (code c)" "ins = code c ! i"
      by (auto simp: kept_def set_enumerate_from)
    then obtain offs where "branch_offsets c ins = Inr offs" "\<And>rel. rel \<in> set offs \<Longrightarrow> in_range c i rel"
      using verified_offsets [OF assms(1), of i] by auto
    then show ?thesis
      unfolding offsets_in_code_def in_range_def in_code_def by (auto intro: less_imp_le)
  qed
  moreover have "unat (catch_start e) \<le> length (code c) \<and> unat (catch_end e) \<le> length (code c) \<and>
      unat (handler e) \<le> length (code c)" if "e \<in> set (catch_table c)" for e
    using verified_catch_entry(1,2,3) [OF assms(1) that] by simp
  ultimately show ?thesis
    using assms verified_length [OF assms(1)] unshared_kept [OF assms(2), of remove]
    by (auto simp: compactable_def verify_Inr)
qed

section \<open>Execution stays inside the code\<close>

lemma terminator_flow: "is_terminator ins \<Longrightarrow> jumps_always ins \<or> leaves_chunk ins"
  by (auto simp: is_terminator_def jumps_always_def leaves_chunk_def
      split: instruction.splits jump_instruction.splits loop_instruction.splits
        check_instruction.splits)

lemma verified_fall_through:
  assumes "verify xxh3 c = Inr ()" "i < length (code c)"
    "\<not> jumps_always (code c ! i)" "\<not> leaves_chunk (code c ! i)"
  shows "i + 1 < length (code c)"
proof (rule ccontr)
  assume "\<not> ?thesis"
  with assms(2) have "i = length (code c) - 1" "code c \<noteq> []" by auto
  then have "code c ! i = last (code c)" by (simp add: last_conv_nth)
  with assms(1,3,4) terminator_flow show False by (auto simp: verify_Inr)
qed

text \<open>
  An iteration step continues two instructions on. Verification demands the jump after it but no
  instruction after the jump, so this successor alone may be the end of the code.
\<close>

definition foreach_continues :: "chunk \<Rightarrow> bool" where
  "foreach_continues c \<longleftrightarrow>
     list_all (\<lambda>(i, ins). is_foreach_next ins \<longrightarrow> i + 2 < length (code c)) (enumerate_from 0 (code c))"

lemma foreach_continuesD:
  "foreach_continues c \<Longrightarrow> i < length (code c) \<Longrightarrow> is_foreach_next (code c ! i) \<Longrightarrow>
     i + 2 < length (code c)"
  by (force simp: foreach_continues_def list_all_iff set_enumerate_from)

lemma verified_successors:
  assumes "verify xxh3 c = Inr ()" "i < length (code c)"
  shows "\<exists>ss. successors c i = Inr ss \<and>
    (\<forall>s\<in>set ss. s < length (code c) \<or> (is_foreach_next (code c ! i) \<and> s = i + 2))"
proof -
  obtain ts where ts: "instruction_targets c i (code c ! i) = Inr ts"
    "\<forall>t\<in>set ts. t < length (code c)" using verified_targets [OF assms] by blast
  have "i + 1 < length (code c)" if "\<not> jumps_always (code c ! i)" "\<not> leaves_chunk (code c ! i)"
    using verified_fall_through [OF assms that] .
  moreover have "\<not> leaves_chunk ins" if "is_foreach_next ins" for ins
    using that by (auto simp: is_foreach_next_def leaves_chunk_def split: instruction.splits)
  ultimately show ?thesis
    using ts assms(2) by (auto simp: successors_def index_of_def)
qed

text \<open>The program counters a run can reach: the entry, the handlers, and along successors.\<close>

inductive reachable :: "chunk \<Rightarrow> nat \<Rightarrow> bool" for c where
  entry: "reachable c 0"
| handler: "e \<in> set (catch_table c) \<Longrightarrow> reachable c (unat (catch_entry.handler e))"
| step: "reachable c i \<Longrightarrow> successors c i = Inr ss \<Longrightarrow> s \<in> set ss \<Longrightarrow> reachable c s"

lemma verified_reachable:
  assumes "verify xxh3 c = Inr ()" "foreach_continues c" "reachable c i"
  shows "i < length (code c)"
  using assms(3)
proof induction
  case entry
  then show ?case using verified_length [OF assms(1)] by simp
next
  case (handler e)
  then show ?case using verified_catch_entry(3) [OF assms(1)] by simp
next
  case (step i ss s)
  with verified_successors [OF assms(1), of i] foreach_continuesD [OF assms(2), of i]
  show ?case by auto
qed

lemma table_offsets_not_Nil [simp]: "table_offsets t \<noteq> []"
  by (cases t) auto

lemma verified_progress:
  assumes "verify xxh3 c = Inr ()" "foreach_continues c" "reachable c i"
  shows "\<exists>ss. successors c i = Inr ss \<and> (ss = [] \<longrightarrow> leaves_chunk (code c ! i))"
proof -
  have i: "i < length (code c)" by (rule verified_reachable [OF assms])
  obtain ts where ts: "instruction_targets c i (code c ! i) = Inr ts"
    using verified_targets [OF assms(1) i] by blast
  have "ts \<noteq> []" if "jumps_always (code c ! i)"
    using that ts
    by (auto simp: jumps_always_def instruction_targets_def branch_offsets_def branch_of_def
        traverse_Inr table_entry_def split: instruction.splits jump_instruction.splits
        loop_instruction.splits switch_instruction.splits)
  with ts i show ?thesis by (auto simp: successors_def index_of_def)
qed

text \<open>The other classification of block ends, the one the loop and object passes use.\<close>

definition is_block_boundary :: "instruction \<Rightarrow> bool" where
  "is_block_boundary ins \<longleftrightarrow>
     (case ins of
        Branch (Jump _) \<Rightarrow> True
      | Branch (JumpIfFalse _ _) \<Rightarrow> True
      | Branch (JumpIfTrue _ _) \<Rightarrow> True
      | Branch (JumpIfNull _ _) \<Rightarrow> True
      | Branch (JumpIfNotNull _ _) \<Rightarrow> True
      | Branch (JumpUnless _ _ _ _) \<Rightarrow> True
      | Branch (IntJumpUnless _ _ _ _) \<Rightarrow> True
      | Branch (UintJumpUnless _ _ _ _) \<Rightarrow> True
      | Branch (StringJumpUnless _ _ _ _) \<Rightarrow> True
      | Branch (JumpUnlessConstant _ _ _ _) \<Rightarrow> True
      | Branch (IntJumpUnlessImmediate _ _ _ _) \<Rightarrow> True
      | Branch (UintJumpUnlessImmediate _ _ _ _) \<Rightarrow> True
      | Branch (Coalesce _ _ _) \<Rightarrow> True
      | Branch (FillDefault _ _) \<Rightarrow> True
      | LoopOp (IncrementJump _ _ _) \<Rightarrow> True
      | LoopOp (CounterLoop _ _ _ _) \<Rightarrow> True
      | LoopOp (IntCounterLoop _ _ _ _) \<Rightarrow> True
      | LoopOp (UintCounterLoop _ _ _ _) \<Rightarrow> True
      | LoopOp (NumericLoop _ _ _ _) \<Rightarrow> True
      | LoopOp (IntNumericLoop _ _ _ _) \<Rightarrow> True
      | LoopOp (PreparedIntNumericLoop _ _) \<Rightarrow> True
      | LoopOp (IntStepLoop _ _) \<Rightarrow> True
      | LoopOp (NumericRegionJump _) \<Rightarrow> True
      | Switch (SwitchBool _ _) \<Rightarrow> True
      | Switch (SwitchInt _ _) \<Rightarrow> True
      | Switch (SwitchFloat _ _) \<Rightarrow> True
      | Switch (SwitchString _ _) \<Rightarrow> True
      | Switch (SwitchPattern _ _) \<Rightarrow> True
      | Switch (SwitchTuplePattern _ _ _) \<Rightarrow> True
      | Switch (BoolPatternBranch _ _ _) \<Rightarrow> True
      | Switch (IntegerRangeJumpIf _ _ _ U64) \<Rightarrow> True
      | Switch (IntegerRangeJumpIf _ _ _ I64) \<Rightarrow> True
      | Switch (IntegerRangeJumpUnless _ _ _ U64) \<Rightarrow> True
      | Switch (IntegerRangeJumpUnless _ _ _ I64) \<Rightarrow> True
      | ReturnOp (Return _) \<Rightarrow> True
      | ReturnOp (ReturnUnchecked _) \<Rightarrow> True
      | ReturnOp (ReturnReferenceUnchecked _) \<Rightarrow> True
      | ReturnOp (ReturnScalarUnchecked _) \<Rightarrow> True
      | ReturnOp (ReturnIntegerUnchecked _ _) \<Rightarrow> True
      | ReturnOp (ReturnPairUnchecked _ _) \<Rightarrow> True
      | ReturnOp ReturnNull \<Rightarrow> True
      | ReturnOp ReturnNullUnchecked \<Rightarrow> True
      | ArrayOp (IndexCoalesce _ _ _ _) \<Rightarrow> True
      | ArrayOp (VecIndexCoalesce _ _ _ _) \<Rightarrow> True
      | ArrayOp (DictIndexCoalesceIntKey _ _ _ _) \<Rightarrow> True
      | ArrayOp (DictIndexCoalesceUintKey _ _ _ _) \<Rightarrow> True
      | ArrayOp (DictIndexCoalesceStringKey _ _ _ _) \<Rightarrow> True
      | StringOp (StringIndexCoalesce _ _ _ _) \<Rightarrow> True
      | StringOp (StringByteJumpUnlessEqual _ _ _ _) \<Rightarrow> True
      | StringOp (StringByteJumpUnlessNotEqual _ _ _ _) \<Rightarrow> True
      | ObjectOp (PropertyCoalesce _ _ _ _) \<Rightarrow> True
      | ObjectOp (PropertyCoalesceUnchecked _ _ _ _) \<Rightarrow> True
      | ObjectOp (StaticPropertyCoalesce _ _ _) \<Rightarrow> True
      | FloatOp (FloatSquaresSumBranch _ _) \<Rightarrow> True
      | ArrayUpdate (ForeachNext _ _ _) \<Rightarrow> True
      | ArrayUpdate (VecForeachNext _ _ _ _) \<Rightarrow> True
      | ArrayUpdate (DictForeachNext _ _ _ _) \<Rightarrow> True
      | CheckOp (Throw _) \<Rightarrow> True
      | CheckOp Rethrow \<Rightarrow> True
      | CheckOp (ThrowUnhandledMatch _) \<Rightarrow> True
      | CheckOp (Panic _) \<Rightarrow> True
      | CheckOp (Exit _) \<Rightarrow> True
      | _ \<Rightarrow> False)"

lemma verified_targets_computed:
  assumes "verify xxh3 c = Inr ()"
  shows "\<exists>T. control_flow_targets c = Inr T \<and> (\<forall>t\<in>T. t \<le> length (code c)) \<and>
    (\<forall>i<length (code c). \<exists>ts. instruction_targets c i (code c ! i) = Inr ts \<and> set ts \<subseteq> T) \<and>
    (\<forall>e\<in>set (catch_table c). unat (handler e) \<in> T)"
proof -
  define f where "f = (\<lambda>i. projr (instruction_targets c i (code c ! i)))"
  have f: "instruction_targets c i (code c ! i) = Inr (f i)" "\<forall>t\<in>set (f i). t < length (code c)"
    if "i < length (code c)" for i
    using verified_targets [OF assms that] by (auto simp: f_def)
  have "traverse (\<lambda>(index, ins). instruction_targets c index ins) (enumerate_from 0 (code c))
      = Inr (map (\<lambda>(i, _). f i) (enumerate_from 0 (code c)))"
    by (rule traverse_total) (auto simp: set_enumerate_from f(1))
  moreover have "unat (catch_start e) \<le> length (code c)" if "e \<in> set (catch_table c)" for e
    using verified_catch_entry(1,2) [OF assms that] by linarith
  ultimately show ?thesis
    using f verified_catch_entry(2,3) [OF assms] less_imp_le
    by (fastforce simp: control_flow_targets_def for_each_control_flow_target_def
        set_enumerate_from native_index_def)
qed

section \<open>Properties\<close>

text \<open>The definitions that compute the successors of a concrete instruction.\<close>

lemmas flow_eval = successors_def index_of_def jumps_always_def is_foreach_next_def leaves_chunk_def
  instruction_targets_def branch_offsets_def branch_of_def relative_target_def

lemma sample_chunk_foreach: "foreach_continues sample_chunk"
  by (simp add: foreach_continues_def is_foreach_next_def)

lemma sample_chunk_unshared: "\<not> has_shared_switch_table sample_chunk"
  by (simp add: has_shared_switch_table_def table_of_def branch_of_def)

text \<open>C1. Running a verified chunk never leaves its code: from the entry and from every exception
  handler, each program point the control flow reaches is an instruction of the chunk, its
  successors can be computed without a panic and are instructions again, and the only instructions
  with no successor are those that return, throw, exit or panic. (An iteration step must have an
  instruction after its exit jump, which the verifier does not check.)\<close>

theorem verified_execution_stays_in_code:
  assumes "verify xxh3 c = Inr ()" "foreach_continues c" "reachable c i"
  shows "i < length (code c) \<and>
    (\<exists>ss. successors c i = Inr ss \<and> (\<forall>s\<in>set ss. s < length (code c)) \<and>
      (ss = [] \<longrightarrow> leaves_chunk (code c ! i)))"
proof -
  obtain ss where ss: "successors c i = Inr ss" "ss = [] \<longrightarrow> leaves_chunk (code c ! i)"
    using verified_progress [OF assms] by blast
  have "s < length (code c)" if "s \<in> set ss" for s
    using verified_reachable [OF assms(1,2)] reachable.step [OF assms(3) ss(1) that] by blast
  with ss verified_reachable [OF assms] show ?thesis
    by blast
qed

theorem verified_execution_stays_in_code_witness:
  "0 < length (code sample_chunk) \<and>
    (\<exists>ss. successors sample_chunk 0 = Inr ss \<and> (\<forall>s\<in>set ss. s < length (code sample_chunk)) \<and>
      (ss = [] \<longrightarrow> leaves_chunk (code sample_chunk ! 0)))"
  by (rule verified_execution_stays_in_code
      [OF sample_chunk_verified sample_chunk_foreach reachable.entry])

definition foreach_tail_chunk :: chunk where
  "foreach_tail_chunk = new_chunk\<lparr>code := [ArrayUpdate (ForeachNext 0 0 0), Branch (Jump (- 1))],
     spans := replicate 2 span_zero, register_count := 1\<rparr>"

text \<open>C39. The side condition of the previous property is not implied by verification: a chunk that
  ends with an iteration step and its exit jump is accepted, and the step's continuation is the
  index after the last instruction.\<close>

theorem verified_iteration_may_leave_code:
  "verify xxh3 foreach_tail_chunk = Inr () \<and> successors foreach_tail_chunk 0 = Inr [1, 2] \<and>
   length (code foreach_tail_chunk) = 2"
  by (simp add: foreach_tail_chunk_def new_chunk_def verify_eval verify_update_def
      verify_foreach_next_def list_get_def is_jump_def is_drain_finalizers_def successors_def
      index_of_def jumps_always_def is_foreach_next_def)

text \<open>C4. Removing any set of instructions from a verified chunk whose switches do not share a
  table: compaction returns, keeps the spans beside their instructions, moves the catch table, and
  each kept instruction is the old one with new offsets whose targets are the moved targets.\<close>

theorem compact_verified_chunk:
  assumes "verify xxh3 c = Inr ()" "\<not> has_shared_switch_table c" "length remove = length (code c)"
  shows "\<exists>c'. compact remove c = Inr c' \<and>
    length (code c') = new_index remove (length (code c)) \<and> length (spans c') = length (code c') \<and>
    catch_table c' = map (moved_catch_entry remove) (catch_table c) \<and>
    (\<forall>i<length (code c). \<not> remove ! i \<longrightarrow>
       new_index remove i < length (code c') \<and> spans c' ! new_index remove i = spans c ! i \<and>
       (\<exists>b. code c' ! new_index remove i = set_branch b (code c ! i)) \<and>
       (\<exists>ts. instruction_targets c i (code c ! i) = Inr ts \<and>
          instruction_targets c' (new_index remove i) (code c' ! new_index remove i)
            = Inr (map (new_index remove) ts)))"
  by (rule compact_spec [OF verified_compactable [OF assms]])

theorem compact_verified_chunk_witness:
  "\<exists>c'. compact [False, True, False, False] sample_chunk = Inr c' \<and> length (code c') = 3"
proof -
  have "length [False, True, False, False] = length (code sample_chunk)"
    by simp
  from compact_verified_chunk [OF sample_chunk_verified sample_chunk_unshared this] show ?thesis
    by (auto simp: new_index_def)
qed

lemma shares_table_nth:
  "shares_table seen ins \<longleftrightarrow>
     (\<exists>j<length ins. \<exists>t. table_of (ins ! j) = Some t \<and>
        (t \<in> seen \<or> (\<exists>i<j. table_of (ins ! i) = Some t)))"
proof (induction ins arbitrary: seen)
  case (Cons x xs)
  show ?case
    by (cases "table_of x") (auto simp: Cons.IH Ex_less_Suc2)
qed simp

text \<open>The scan for shared switch tables answers whether two switch instructions of the code
  name the same table.\<close>

theorem shared_switch_table_exact:
  "has_shared_switch_table c \<longleftrightarrow>
     (\<exists>i j t. i < j \<and> j < length (code c) \<and> table_of (code c ! i) = Some t \<and>
        table_of (code c ! j) = Some t)"
  using shares_table_nth [of "{}" "code c"] by (auto simp: has_shared_switch_table_def)

text \<open>The two classifications of block ends agree on every instruction.\<close>

theorem block_boundary_agrees: "is_block_boundary = branches_or_terminates"
  by (rule ext, rename_tac ins, case_tac ins)
    (simp_all add: is_block_boundary_def branches_or_terminates_def split: jump_instruction.splits
      loop_instruction.splits switch_instruction.splits return_instruction.splits
      integer_kind.splits)

text \<open>An instruction that is no block end only falls through: its single successor is the next
  index, so a block executes as a straight line.\<close>

theorem straight_line_successor:
  assumes "i < length (code c)" "\<not> branches_or_terminates (code c ! i)"
  shows "successors c i = Inr [i + 1] \<and> instruction_targets c i (code c ! i) = Inr []"
  using assms successors_straight [OF assms] branch_of_straight [OF assms(2)]
  by (simp add: instruction_targets_def branch_offsets_def)

theorem straight_line_successor_witness:
  "successors sole_reference_chunk 0 = Inr [1] \<and>
   instruction_targets sole_reference_chunk 0 (code sole_reference_chunk ! 0) = Inr []"
  using straight_line_successor [of 0 sole_reference_chunk]
  by (simp add: sole_reference_chunk_def new_chunk_def branches_or_terminates_def)

text \<open>The control-flow targets of a verified chunk, branch targets of every instruction and
  the ranges and handlers of the catch table, are computed without a panic, lie inside the chunk
  (a catch range may end at its end) and miss no branch and no handler.\<close>

theorem verified_control_flow_targets:
  assumes "verify xxh3 c = Inr ()"
  shows "\<exists>T. control_flow_targets c = Inr T \<and> (\<forall>t\<in>T. t \<le> length (code c)) \<and>
    (\<forall>i<length (code c). \<exists>ts. instruction_targets c i (code c ! i) = Inr ts \<and> set ts \<subseteq> T) \<and>
    (\<forall>e\<in>set (catch_table c). unat (handler e) \<in> T)"
  by (rule verified_targets_computed [OF assms])

theorem verified_control_flow_targets_witness:
  "\<exists>T. control_flow_targets sample_chunk = Inr T \<and> (\<forall>t\<in>T. t \<le> 4)"
  using verified_control_flow_targets [OF sample_chunk_verified] by fastforce

end
