(* ===== verification/Whim_JumpThreading.thy ===== *)
theory Whim_JumpThreading
  imports Whim_Cfg
begin

text \<open>
  Jump threading (\<^verbatim>\<open>crates/optimizer/src/passes/jump_threading.rs\<close>): an unconditional jump to an
  unconditional jump is retargeted to the end of the chain. \<open>lands\<close> is the specification, the end
  of the chain of jumps from an index; the search with its memo table computes it, and the pass
  keeps it for every index.
\<close>

section \<open>The pass\<close>

datatype target_state = Unknown | Visiting | Resolved "nat option"

definition jump_of :: "instruction \<Rightarrow> jump_offset option" where
  "jump_of ins = (case ins of Branch (Jump rel) \<Rightarrow> Some rel | _ \<Rightarrow> None)"

text \<open>The inner loop: the target, the states and the path at its exit.\<close>

function follow :: "chunk \<Rightarrow> target_state list \<Rightarrow> nat list \<Rightarrow> nat \<Rightarrow>
  panic + nat option \<times> target_state list \<times> nat list" where
  "follow c states path current =
     (if length states \<le> current then Inr (None, states, path)
      else case states ! current of
        Resolved target \<Rightarrow> Inr (target, states, path)
      | Visiting \<Rightarrow> Inr (None, states, path)
      | Unknown \<Rightarrow>
          (case index_of (code c) current of
             Inl p \<Rightarrow> Inl p
           | Inr ins \<Rightarrow>
               (case jump_of ins of
                  None \<Rightarrow> Inr (Some current, states[current := Visiting], path @ [current])
                | Some rel \<Rightarrow>
                    (case relative_target current (sint rel) of
                       Inl p \<Rightarrow> Inl p
                     | Inr next \<Rightarrow>
                         follow c (states[current := Visiting]) (path @ [current]) next))))"
  by pat_completeness auto

termination follow
  by (relation "measure (\<lambda>(_, states, _, _). length (filter ((=) Unknown) states))")
    (auto intro: filter_update_less)

declare follow.simps [simp del]

definition mark_path :: "nat option \<Rightarrow> nat list \<Rightarrow> target_state list \<Rightarrow> target_state list" where
  "mark_path target path states = fold (\<lambda>i states. states[i := Resolved target]) path states"

fun resolve_sources :: "chunk \<Rightarrow> nat list \<Rightarrow> target_state list \<Rightarrow> panic + target_state list" where
  "resolve_sources c [] states = Inr states"
| "resolve_sources c (source # sources) states =
     (if states ! source \<noteq> Unknown then resolve_sources c sources states
      else result_bind (follow c states [] source)
             (\<lambda>(target, states, path). resolve_sources c sources (mark_path target path states)))"

definition resolved_target :: "target_state \<Rightarrow> nat option" where
  "resolved_target s = (case s of Resolved target \<Rightarrow> target | _ \<Rightarrow> None)"

definition resolve_targets :: "chunk \<Rightarrow> panic + nat option list" where
  "resolve_targets c =
     result_map (map resolved_target)
       (resolve_sources c [0..<length (code c)] (replicate (length (code c)) Unknown))"

fun thread_sources :: "(nat \<times> nat option) list \<Rightarrow> chunk \<Rightarrow> panic + chunk" where
  "thread_sources [] c = Inr c"
| "thread_sources ((source, target) # rest) c =
     result_bind (index_of (code c) source) (\<lambda>ins.
       case jump_of ins of
         None \<Rightarrow> thread_sources rest c
       | Some rel \<Rightarrow>
           result_bind (relative_target source (sint rel)) (\<lambda>first.
             case target of
               None \<Rightarrow> thread_sources rest c
             | Some t \<Rightarrow>
                 (let relative = int t - int source
                  in if t = first \<or> relative < - (2 ^ 31) \<or> 2 ^ 31 \<le> relative
                     then thread_sources rest c
                     else thread_sources rest
                       (c\<lparr>code := (code c)[source := Branch (Jump (word_of_int relative))]\<rparr>))))"

definition thread_jumps :: "bool \<Rightarrow> chunk \<Rightarrow> panic + chunk" where
  "thread_jumps jump_threading c =
     (if \<not> jump_threading \<or> length (code c) < 2 then Inr c
      else result_bind (resolve_targets c) (\<lambda>targets. thread_sources (enumerate_from 0 targets) c))"

section \<open>Chains of jumps\<close>

definition jump_target :: "chunk \<Rightarrow> nat \<Rightarrow> nat option" where
  "jump_target c i =
     (if i < length (code c) then
        (case jump_of (code c ! i) of
           None \<Rightarrow> None
         | Some rel \<Rightarrow> (case relative_target i (sint rel) of Inl _ \<Rightarrow> None | Inr j \<Rightarrow> Some j))
      else None)"

inductive lands :: "chunk \<Rightarrow> nat \<Rightarrow> nat \<Rightarrow> bool" for c where
  stop: "i < length (code c) \<Longrightarrow> jump_of (code c ! i) = None \<Longrightarrow> lands c i i"
| jump: "jump_target c i = Some j \<Longrightarrow> lands c j t \<Longrightarrow> lands c i t"

inductive_cases lands_elim: "lands c i t"

lemma lands_step:
  assumes "jump_target c i = Some j"
  shows "lands c i t \<longleftrightarrow> lands c j t"
proof
  have "jump_of (code c ! i) \<noteq> None"
    using assms by (auto simp: jump_target_def split: if_splits option.splits)
  moreover assume "lands c i t"
  ultimately show "lands c j t" using assms by (auto elim: lands_elim)
qed (rule lands.jump [OF assms])

lemma lands_stop:
  assumes "i < length (code c)" "jump_of (code c ! i) = None"
  shows "lands c i t \<longleftrightarrow> t = i"
  using assms by (auto simp: jump_target_def intro: lands.stop elim: lands_elim)

lemma lands_outside: "length (code c) \<le> i \<Longrightarrow> \<not> lands c i t"
  by (auto simp: jump_target_def elim: lands_elim)

lemma lands_unique: "lands c i t \<Longrightarrow> lands c i u \<Longrightarrow> t = u"
  by (induction rule: lands.induct) (auto simp: lands_stop lands_step)

lemma lands_ends:
  "lands c i t \<Longrightarrow> t < length (code c) \<and> jump_of (code c ! t) = None"
  by (induction rule: lands.induct) auto

text \<open>A path follows the jumps, from one index to the next.\<close>

fun chain :: "chunk \<Rightarrow> nat list \<Rightarrow> nat \<Rightarrow> bool" where
  "chain c [] final = True"
| "chain c [i] final \<longleftrightarrow> jump_target c i = Some final"
| "chain c (i # j # path) final \<longleftrightarrow> jump_target c i = Some j \<and> chain c (j # path) final"

lemma chain_append: "chain c path i \<Longrightarrow> jump_target c i = Some j \<Longrightarrow> chain c (path @ [i]) j"
  by (induction c path i rule: chain.induct) auto

lemma chain_lands: "chain c path final \<Longrightarrow> \<forall>i\<in>set path. lands c i t \<longleftrightarrow> lands c final t"
  by (induction c path final rule: chain.induct) (simp_all add: lands_step)

lemma chain_no_stop:
  assumes "chain c path final" "i \<in> set path"
  shows "\<exists>j. jump_target c i = Some j \<and> (j \<in> set path \<or> j = final)"
  using assms by (induction c path final rule: chain.induct) auto

text \<open>A chain that comes back to itself never ends.\<close>


lemma chain_cycle:
  assumes "chain c path final" "final \<in> set path"
  shows "\<not> lands c final t"
proof -
  have "x \<notin> set path" if "lands c x t" for x
    using that
  proof induction
    case (stop i)
    then show ?case using chain_no_stop [OF assms(1), of i] by (auto simp: jump_target_def)
  next
    case (jump i j t)
    then show ?case using chain_no_stop [OF assms(1), of i] assms(2) by auto
  qed
  with assms(2) show ?thesis by blast
qed

section \<open>The search computes the ends of the chains\<close>

text \<open>
  Between two sources no index is being visited and every resolved index has the end of its chain;
  inside the search the visited indices are those of the path.
\<close>

definition resolved_ok :: "chunk \<Rightarrow> target_state list \<Rightarrow> bool" where
  "resolved_ok c states \<longleftrightarrow> length states = length (code c) \<and>
     (\<forall>i<length states. \<forall>r. states ! i = Resolved r \<longrightarrow> (\<forall>t. r = Some t \<longleftrightarrow> lands c i t))"

definition visiting :: "target_state list \<Rightarrow> nat set" where
  "visiting states = {i. i < length states \<and> states ! i = Visiting}"

lemma nth_update: "xs[i := x] ! j = (if i = j \<and> i < length xs then x else xs ! j)"
  by (cases "i < length xs") (auto simp: nth_list_update list_update_beyond)

lemma resolved_ok_visit:
  "resolved_ok c states \<Longrightarrow> resolved_ok c (states[i := Visiting])"
  by (auto simp: resolved_ok_def nth_update split: if_splits)

lemma visiting_update:
  "i < length states \<Longrightarrow> visiting (states[i := Visiting]) = insert i (visiting states)"
  by (auto simp: visiting_def nth_list_update)

lemma visiting_lt: "i \<in> visiting states \<Longrightarrow> i < length states"
  by (simp add: visiting_def)

text \<open>The jumps of the chunk can be resolved: their targets are not negative.\<close>

definition jumps_resolve :: "chunk \<Rightarrow> bool" where
  "jumps_resolve c \<longleftrightarrow> (\<forall>i<length (code c). \<forall>rel. jump_of (code c ! i) = Some rel \<longrightarrow>
     (\<exists>j. relative_target i (sint rel) = Inr j))"

lemma follow_spec:
  assumes "jumps_resolve c" "resolved_ok c states" "visiting states = set path"
    "chain c path current"
  shows "\<exists>target states' path'. follow c states path current = Inr (target, states', path') \<and>
    resolved_ok c states' \<and> visiting states' = set path' \<and> set path \<subseteq> set path' \<and>
    (\<forall>i\<in>insert current (set path'). \<forall>t. target = Some t \<longleftrightarrow> lands c i t) \<and>
    (current < length states \<longrightarrow> states' ! current \<noteq> Unknown) \<and>
    (\<forall>i<length states. states ! i \<noteq> Unknown \<longrightarrow> states' ! i \<noteq> Unknown)"
  using assms
proof (induction c states path current rule: follow.induct)
  case (1 c states path current)
  have len: "length states = length (code c)" using "1.prems"(2) by (simp add: resolved_ok_def)
  have path: "lands c i t \<longleftrightarrow> lands c current t" if "i \<in> set path" for i t
    using chain_lands [OF "1.prems"(4)] that by blast
  show ?case
  proof (cases "length states \<le> current")
    case True
    then have "\<not> lands c current t" for t using len by (simp add: lands_outside)
    with True path "1.prems"(2,3) show ?thesis by (subst follow.simps) auto
  next
    case False
    then have cur: "current < length (code c)" using len by simp
    show ?thesis
    proof (cases "states ! current")
      case (Resolved target)
      then have "target = Some t \<longleftrightarrow> lands c current t" for t
        using "1.prems"(2) cur len by (auto simp: resolved_ok_def)
      with False Resolved path "1.prems"(2,3) show ?thesis by (subst follow.simps) auto
    next
      case Visiting
      then have "current \<in> set path" using "1.prems"(3) cur len by (auto simp: visiting_def)
      then have "\<not> lands c current t" for t using chain_cycle [OF "1.prems"(4)] by blast
      with False Visiting path "1.prems"(2,3) show ?thesis by (subst follow.simps) auto
    next
      case Unknown
      let ?states = "states[current := Visiting]" and ?path = "path @ [current]"
      have inv: "resolved_ok c ?states" "visiting ?states = set ?path"
        using "1.prems"(2,3) cur len by (simp_all add: resolved_ok_visit visiting_update)
      have at: "index_of (code c) current = Inr (code c ! current)"
        using cur by (simp add: index_of_def)
      have keep: "\<forall>i<length states. states ! i \<noteq> Unknown \<longrightarrow> ?states ! i \<noteq> Unknown"
        by (auto simp: nth_update split: if_splits)
      show ?thesis
      proof (cases "jump_of (code c ! current)")
        case None
        then have "Some current = Some t \<longleftrightarrow> lands c current t" for t
          using lands_stop [OF cur, of t] by auto
        with None Unknown False at path inv keep show ?thesis by (subst follow.simps) auto
      next
        case (Some rel)
        then obtain next' where tgt: "relative_target current (sint rel) = Inr next'"
          using "1.prems"(1) cur by (auto simp: jumps_resolve_def)
        with Some cur have jt: "jump_target c current = Some next'" by (simp add: jump_target_def)
        have "chain c ?path next'" using chain_append [OF "1.prems"(4) jt] .
        note IH = "1.IH" [OF False Unknown at Some tgt "1.prems"(1) inv this]
        have eq: "follow c states path current = follow c ?states ?path next'"
          using Some tgt Unknown False at by (subst follow.simps) simp
        have "\<And>t. lands c current t \<longleftrightarrow> lands c next' t" by (rule lands_step [OF jt])
        with IH keep False show ?thesis unfolding eq by fastforce
      qed
    qed
  qed
qed
lemma length_mark_path [simp]: "length (mark_path target path states) = length states"
  by (induction path arbitrary: states) (auto simp: mark_path_def)

lemma mark_path_nth:
  "i < length states \<Longrightarrow>
     mark_path target path states ! i = (if i \<in> set path then Resolved target else states ! i)"
proof (induction path arbitrary: states)
  case (Cons j path)
  have "mark_path target (j # path) states = mark_path target path (states[j := Resolved target])"
    by (simp add: mark_path_def)
  with Cons show ?case by (auto simp: nth_update)
qed (simp add: mark_path_def)

lemma mark_path_ok:
  assumes "resolved_ok c states" "visiting states = set path"
    and "\<And>i t. i \<in> set path \<Longrightarrow> target = Some t \<longleftrightarrow> lands c i t"
  shows "resolved_ok c (mark_path target path states)" "visiting (mark_path target path states) = {}"
  using assms by (auto simp: resolved_ok_def visiting_def mark_path_nth)

lemma resolve_sources_spec:
  assumes "jumps_resolve c" "resolved_ok c states" "visiting states = {}"
    and "\<And>i. i < length (code c) \<Longrightarrow> i \<notin> set sources \<Longrightarrow> states ! i \<noteq> Unknown"
    and "set sources \<subseteq> {..<length (code c)}"
  shows "\<exists>states'. resolve_sources c sources states = Inr states' \<and> resolved_ok c states' \<and>
    visiting states' = {} \<and> (\<forall>i<length (code c). states' ! i \<noteq> Unknown)"
  using assms(2-5)
proof (induction sources arbitrary: states)
  case (Cons source sources)
  have len: "length states = length (code c)" using Cons.prems(1) by (simp add: resolved_ok_def)
  show ?case
  proof (cases "states ! source = Unknown")
    case False
    have "states ! i \<noteq> Unknown" if "i < length (code c)" "i \<notin> set sources" for i
      using Cons.prems(3) [of i] that False by (cases "i = source") auto
    with Cons.IH [of states] Cons.prems False show ?thesis by simp
  next
    case True
    obtain target states1 path where f: "follow c states [] source = Inr (target, states1, path)"
      and s1: "resolved_ok c states1" "visiting states1 = set path"
        "\<And>i t. i \<in> set path \<Longrightarrow> target = Some t \<longleftrightarrow> lands c i t"
      and known: "states1 ! source \<noteq> Unknown"
        "\<And>i. i < length (code c) \<Longrightarrow> states ! i \<noteq> Unknown \<Longrightarrow> states1 ! i \<noteq> Unknown"
      using follow_spec [OF assms(1) Cons.prems(1), of "[]" source] Cons.prems(2,4) len by auto
    let ?s = "mark_path target path states1"
    have len1: "length states1 = length (code c)" using s1(1) by (simp add: resolved_ok_def)
    have "?s ! i \<noteq> Unknown" if "i < length (code c)" "i \<notin> set sources" for i
    proof (cases "i = source")
      case True
      then show ?thesis using known(1) that len1 by (simp add: mark_path_nth)
    next
      case False
      then show ?thesis using known(2) [of i] Cons.prems(3) [of i] that len1 by (simp add: mark_path_nth)
    qed
    with Cons.IH [of ?s] mark_path_ok [OF s1] Cons.prems(4) True f show ?thesis by simp
  qed
qed auto

lemma resolve_targets_spec:
  assumes "jumps_resolve c"
  shows "\<exists>ts. resolve_targets c = Inr ts \<and> length ts = length (code c) \<and>
    (\<forall>i<length (code c). \<forall>t. ts ! i = Some t \<longleftrightarrow> lands c i t)"
proof -
  let ?start = "replicate (length (code c)) Unknown"
  have "resolved_ok c ?start" "visiting ?start = {}"
    by (auto simp: resolved_ok_def visiting_def)
  then obtain states where s: "resolve_sources c [0..<length (code c)] ?start = Inr states"
      "resolved_ok c states" "visiting states = {}"
      "\<And>i. i < length (code c) \<Longrightarrow> states ! i \<noteq> Unknown"
    using resolve_sources_spec [OF assms, of ?start "[0..<length (code c)]"]
    by (auto simp: subset_iff)
  have len: "length states = length (code c)" using s(2) by (simp add: resolved_ok_def)
  have "resolved_target (states ! i) = Some t \<longleftrightarrow> lands c i t" if i: "i < length (code c)" for i t
  proof (cases "states ! i")
    case (Resolved r)
    then show ?thesis using s(2) i len by (simp add: resolved_ok_def resolved_target_def)
  qed (use s(3,4) i len in \<open>auto simp: visiting_def\<close>)
  with s(1) len show ?thesis by (auto simp: resolve_targets_def)
qed

section \<open>The pass keeps the ends of the chains\<close>

text \<open>
  What one application does to each instruction: a jump may be redirected to the end of its chain,
  everything else stays.
\<close>

definition threaded :: "chunk \<Rightarrow> nat \<Rightarrow> instruction \<Rightarrow> bool" where
  "threaded c i ins \<longleftrightarrow> ins = code c ! i \<or>
     (\<exists>t. jump_of (code c ! i) \<noteq> None \<and> lands c i t \<and>
       ins = Branch (Jump (word_of_int (int t - int i))) \<and>
       - (2 ^ 31) \<le> int t - int i \<and> int t - int i < 2 ^ 31)"

lemma jump_of_Branch [simp]: "jump_of (Branch (Jump rel)) = Some rel"
  by (simp add: jump_of_def)

lemma jump_of_Some: "jump_of ins = Some rel \<longleftrightarrow> ins = Branch (Jump rel)"
  by (auto simp: jump_of_def split: instruction.splits jump_instruction.splits)

lemma threaded_jump_of: "threaded c i ins \<Longrightarrow> jump_of ins = None \<longleftrightarrow> jump_of (code c ! i) = None"
  by (auto simp: threaded_def)

lemma thread_sources_spec:
  assumes "jumps_resolve c" "length (code d) = length (code c)"
    and "\<And>i t. (i, Some t) \<in> set work \<Longrightarrow> lands c i t"
    and "\<And>i x. (i, x) \<in> set work \<Longrightarrow> i < length (code c) \<and> code d ! i = code c ! i"
    and "distinct (map fst work)"
    and "\<And>i. i < length (code c) \<Longrightarrow> threaded c i (code d ! i)"
  shows "\<exists>code'. thread_sources work d = Inr (d\<lparr>code := code'\<rparr>) \<and> length code' = length (code c) \<and>
    (\<forall>i<length (code c). threaded c i (code' ! i))"
  using assms(2-6)
proof (induction work arbitrary: d)
  case Nil
  then show ?case by (intro exI [of _ "code d"]) auto
next
  case (Cons w work)
  obtain i x where w: "w = (i, x)" by (cases w)
  have i: "i < length (code c)" "code d ! i = code c ! i" using Cons.prems(3) w by auto
  have at: "index_of (code d) i = Inr (code c ! i)" using i Cons.prems(1) by (simp add: index_of_def)
  have rest: "\<exists>code'. thread_sources work d = Inr (d\<lparr>code := code'\<rparr>) \<and> length code' = length (code c) \<and>
      (\<forall>i<length (code c). threaded c i (code' ! i))"
    using Cons.prems by (intro Cons.IH) auto
  show ?case
  proof (cases "jump_of (code c ! i)")
    case None
    with rest show ?thesis by (simp add: w at)
  next
    case (Some rel)
    then obtain first where first: "relative_target i (sint rel) = Inr first"
      using assms(1) i(1) by (auto simp: jumps_resolve_def)
    show ?thesis
    proof (cases "\<exists>t. x = Some t \<and>
        \<not> (t = first \<or> int t - int i < - (2 ^ 31) \<or> 2 ^ 31 \<le> int t - int i)")
      case False
      then have "thread_sources (w # work) d = thread_sources work d"
        using Some first by (auto simp: w at Let_def split: option.splits)
      with rest show ?thesis by simp
    next
      case True
      then obtain t where t: "x = Some t" "t \<noteq> first" "- (2 ^ 31) \<le> int t - int i"
          "int t - int i < 2 ^ 31"
        by (auto simp: not_le not_less)
      let ?new = "Branch (Jump (word_of_int (int t - int i)))"
      let ?d = "d\<lparr>code := (code d)[i := ?new]\<rparr>"
      have step: "thread_sources (w # work) d = thread_sources work ?d"
        using Some first t by (simp add: w at Let_def)
      have "lands c i t" using Cons.prems(2) w t(1) by auto
      with Some t have new: "threaded c i ?new" by (auto simp: threaded_def)
      have other: "j \<noteq> i" if "(j, y) \<in> set work" for j y
        using Cons.prems(4) that w by force
      have "\<exists>code'. thread_sources work ?d = Inr (?d\<lparr>code := code'\<rparr>) \<and>
          length code' = length (code c) \<and> (\<forall>i<length (code c). threaded c i (code' ! i))"
      proof (rule Cons.IH)
        show "length (code ?d) = length (code c)" using Cons.prems(1) by simp
        show "lands c j u" if "(j, Some u) \<in> set work" for j u using Cons.prems(2) that by auto
        show "j < length (code c) \<and> code ?d ! j = code c ! j" if "(j, y) \<in> set work" for j y
          using Cons.prems(3) [of j y] that other [OF that] by simp
        show "distinct (map fst work)" using Cons.prems(4) by simp
        show "threaded c j (code ?d ! j)" if "j < length (code c)" for j
          using Cons.prems(1) Cons.prems(5) [OF that] that new by (cases "j = i") auto
      qed
      then show ?thesis unfolding step by simp
    qed
  qed
qed
lemma thread_jumps_spec:
  assumes "jumps_resolve c"
  shows "\<exists>code'. thread_jumps b c = Inr (c\<lparr>code := code'\<rparr>) \<and> length code' = length (code c) \<and>
    (\<forall>i<length (code c). threaded c i (code' ! i))"
proof (cases "\<not> b \<or> length (code c) < 2")
  case True
  then show ?thesis by (intro exI [of _ "code c"]) (auto simp: thread_jumps_def threaded_def)
next
  case False
  obtain ts where ts: "resolve_targets c = Inr ts" "length ts = length (code c)"
    "\<And>i t. i < length (code c) \<Longrightarrow> ts ! i = Some t \<longleftrightarrow> lands c i t"
    using resolve_targets_spec [OF assms] by blast
  have "map fst (enumerate_from 0 ts) = [0..<length ts]"
    by (simp add: enumerate_from_zip)
  then have "\<exists>code'. thread_sources (enumerate_from 0 ts) c = Inr (c\<lparr>code := code'\<rparr>) \<and>
      length code' = length (code c) \<and> (\<forall>i<length (code c). threaded c i (code' ! i))"
    using ts(2) ts(3) [THEN iffD1, OF _ sym]
    by (intro thread_sources_spec [OF assms]) (auto simp: set_enumerate_from threaded_def)
  with False ts(1) show ?thesis by (simp add: thread_jumps_def)
qed

lemma direct_jump_target:
  assumes "code' ! i = Branch (Jump (word_of_int (int u - int i)))"
    and "- (2 ^ 31) \<le> int u - int i" "int u - int i < 2 ^ 31" "i < length code'" "i < 2 ^ 32"
  shows "jump_target (c\<lparr>code := code'\<rparr>) i = Some u"
proof -
  define rel :: u32 where "rel = word_of_int (int u - int i)"
  have "sint rel = int u - int i" unfolding rel_def using assms(2,3) by (rule sint_of_int_u32)
  moreover have "jump_of (code' ! i) = Some rel" using assms(1) by (simp only: rel_def jump_of_Branch)
  ultimately show ?thesis using assms(4,5) by (simp add: jump_target_def relative_target_def)
qed

lemma threaded_jump_target:
  assumes "threaded c i (code' ! i)" "i < length (code c)" "length (code c) < 2 ^ 32"
    and "jump_target (c\<lparr>code := code'\<rparr>) i = Some j"
  shows "\<And>t. lands c i t \<longleftrightarrow> lands c j t"
proof -
  fix t
  show "lands c i t \<longleftrightarrow> lands c j t"
  proof (cases "code' ! i = code c ! i")
    case True
    with assms(2,4) have "jump_target c i = Some j"
      by (auto simp: jump_target_def split: if_splits)
    then show ?thesis by (rule lands_step)
  next
    case False
    with assms(1) obtain u where u: "lands c i u" "code' ! i = Branch (Jump (word_of_int (int u - int i)))"
        "- (2 ^ 31) \<le> int u - int i" "int u - int i < 2 ^ 31"
      by (auto simp: threaded_def)
    have "i < length code'" using assms(4) by (auto simp: jump_target_def split: if_splits)
    then have "j = u"
      using direct_jump_target [OF u(2-4), of c] assms(2-4) by simp
    have "lands c j t \<longleftrightarrow> t = u" unfolding \<open>j = u\<close> using lands_ends [OF u(1)] by (intro lands_stop) auto
    then show ?thesis using u(1) lands_unique [OF u(1)] by blast
  qed
qed

lemma thread_keeps_lands:
  assumes "jumps_resolve c" "length (code c) < 2 ^ 32"
    and len: "length code' = length (code c)"
    and thr: "\<And>i. i < length (code c) \<Longrightarrow> threaded c i (code' ! i)"
  shows "lands (c\<lparr>code := code'\<rparr>) i t \<longleftrightarrow> lands c i t"
proof
  assume "lands (c\<lparr>code := code'\<rparr>) i t"
  then show "lands c i t"
  proof induction
    case (stop i)
    then have "jump_of (code c ! i) = None" using thr [of i] len by (simp add: threaded_jump_of)
    with stop len show ?case by (auto intro: lands.stop)
  next
    case (jump i j t)
    then have "i < length (code c)" by (auto simp: jump_target_def len split: if_splits)
    with threaded_jump_target [OF thr _ assms(2) jump(1)] jump show ?case by blast
  qed
next
  assume "lands c i t"
  then show "lands (c\<lparr>code := code'\<rparr>) i t"
  proof induction
    case (stop i)
    then have "jump_of (code' ! i) = None" using thr [of i] by (simp add: threaded_jump_of)
    with stop len show ?case by (auto intro: lands.stop)
  next
    case (jump i j t)
    then have i: "i < length (code c)" by (auto simp: jump_target_def split: if_splits)
    show ?case
    proof (cases "code' ! i = code c ! i")
      case True
      with jump(1) i len have "jump_target (c\<lparr>code := code'\<rparr>) i = Some j"
        by (auto simp: jump_target_def split: if_splits)
      then show ?thesis using jump(3) by (rule lands.jump)
    next
      case False
      with thr [OF i] obtain u where u: "lands c i u"
          "code' ! i = Branch (Jump (word_of_int (int u - int i)))"
          "- (2 ^ 31) \<le> int u - int i" "int u - int i < 2 ^ 31"
        by (auto simp: threaded_def)
      have "lands c i t" using jump(1,2) by (rule lands.jump)
      then have "u = t" using u(1) lands_unique by blast
      have "jump_target (c\<lparr>code := code'\<rparr>) i = Some u"
        using i len assms(2) by (intro direct_jump_target [OF u(2-4)]) auto
      moreover have e: "u < length (code c)" "jump_of (code c ! u) = None"
        using lands_ends [OF u(1)] by auto
      then have "jump_of (code' ! u) = None" using thr [of u] by (simp add: threaded_jump_of)
      with e len have "lands (c\<lparr>code := code'\<rparr>) u u" by (auto intro: lands.stop)
      ultimately show ?thesis using \<open>u = t\<close> by (auto intro: lands.jump)
    qed
  qed
qed

lemma verified_jumps_resolve:
  assumes "verify xxh3 c = Inr ()"
  shows "jumps_resolve c"
proof -
  have "\<exists>j. relative_target i (sint rel) = Inr j"
    if "i < length (code c)" "jump_of (code c ! i) = Some rel" for i rel
  proof -
    have "code c ! i = Branch (Jump rel)" using that(2) by (simp add: jump_of_Some)
    with verified_targets [OF assms that(1)] show ?thesis
      by (auto simp: instruction_targets_def branch_offsets_def branch_of_def)
  qed
  then show ?thesis by (simp add: jumps_resolve_def)
qed

section \<open>Properties\<close>

text \<open>C5. Jump threading on a verified chunk returns, replaces nothing but the offsets of
  unconditional jumps, and keeps the place where every chain of jumps ends: from any instruction
  the new chunk lands where the old one did, cycles of jumps included (they land nowhere in
  either).\<close>

theorem thread_jumps_preserves_landing:
  assumes "verify xxh3 c = Inr ()"
  shows "\<exists>code'. thread_jumps b c = Inr (c\<lparr>code := code'\<rparr>) \<and> length code' = length (code c) \<and>
    (\<forall>i<length (code c). jump_of (code c ! i) = None \<longrightarrow> code' ! i = code c ! i) \<and>
    (\<forall>i t. lands (c\<lparr>code := code'\<rparr>) i t \<longleftrightarrow> lands c i t)"
proof -
  note j = verified_jumps_resolve [OF assms]
  obtain code' where c': "thread_jumps b c = Inr (c\<lparr>code := code'\<rparr>)" "length code' = length (code c)"
    "\<forall>i<length (code c). threaded c i (code' ! i)"
    using thread_jumps_spec [OF j] by blast
  moreover have "lands (c\<lparr>code := code'\<rparr>) i t \<longleftrightarrow> lands c i t" for i t
    using thread_keeps_lands [OF j verified_length(2) [OF assms] c'(2)] c'(3) by blast
  ultimately show ?thesis
    by (intro exI [of _ code']) (auto simp: threaded_def)
qed

theorem thread_jumps_preserves_landing_witness:
  "\<exists>code'. thread_jumps True sample_chunk = Inr (sample_chunk\<lparr>code := code'\<rparr>) \<and> length code' = 4"
  using thread_jumps_preserves_landing [OF sample_chunk_verified, of True] by auto

text \<open>The target table of a verified chunk: the memoised walk with its visiting marks returns,
  and its entry for an instruction is the end of the chain of jumps that starts there, and empty
  exactly when the chain runs in a cycle.\<close>

theorem resolve_targets_exact:
  assumes "verify xxh3 c = Inr ()"
  shows "\<exists>ts. resolve_targets c = Inr ts \<and> length ts = length (code c) \<and>
    (\<forall>i<length (code c). \<forall>t. ts ! i = Some t \<longleftrightarrow> lands c i t)"
  by (rule resolve_targets_spec [OF verified_jumps_resolve [OF assms]])

theorem resolve_targets_exact_witness:
  "\<exists>ts. resolve_targets sample_chunk = Inr ts \<and> length ts = 4"
  using resolve_targets_exact [OF sample_chunk_verified] by auto

end
