(* ===== verification/Whim_Prune.thy ===== *)
theory Whim_Prune
  imports Whim_JumpThreading
begin

text \<open>
  Pruning of unreachable code (\<^verbatim>\<open>crates/optimizer/src/passes/prune_unreachable.rs\<close>): a worklist
  marks what the entry and the handlers reach, jumps to the next kept instruction are dropped, and
  the rest is compacted. The lemmas show that the worklist computes reachability and that the
  remap is a simulation of the old control flow by the new one.
\<close>

section \<open>The pass\<close>

text \<open>The pending indices as a stack, its top first.\<close>

function mark_reachable :: "chunk \<Rightarrow> bool list \<Rightarrow> nat list \<Rightarrow> panic + bool list" where
  "mark_reachable c reached [] = Inr reached"
| "mark_reachable c reached (index # pending) =
     (if length reached \<le> index \<or> reached ! index then mark_reachable c reached pending
      else case successors c index of
        Inl p \<Rightarrow> Inl p
      | Inr edges \<Rightarrow> mark_reachable c (reached[index := True]) (rev edges @ pending))"
  by pat_completeness auto

termination mark_reachable
  by (relation "measures [\<lambda>(_, reached, _). length (filter Not reached), \<lambda>(_, _, pending). length pending]")
    (auto simp: not_le intro: filter_update_less)

text \<open>The instruction before a jump, beyond a finalizer boundary.\<close>

definition previous_of :: "chunk \<Rightarrow> nat \<Rightarrow> nat option" where
  "previous_of c index =
     (if index = 0 then None
      else if is_drain_finalizers (code c ! (index - 1))
           then (if index = 1 then None else Some (index - 2))
           else Some (index - 1))"

fun drop_jumps :: "chunk \<Rightarrow> nat list \<Rightarrow> bool list \<Rightarrow> nat \<Rightarrow> panic + bool list" where
  "drop_jumps c [] remove next = Inr remove"
| "drop_jumps c (index # indices) remove next =
     (if remove ! index then drop_jumps c indices remove next
      else case jump_of (code c ! index) of
        None \<Rightarrow> drop_jumps c indices remove index
      | Some rel \<Rightarrow>
          if (case previous_of c index of
                None \<Rightarrow> False | Some previous \<Rightarrow> is_foreach_next (code c ! previous))
          then drop_jumps c indices remove index
          else result_bind (relative_target index (sint rel)) (\<lambda>target.
            if target > index \<and> target \<le> next
            then drop_jumps c indices (remove[index := True]) next
            else drop_jumps c indices remove index))"

definition pruned_mask :: "chunk \<Rightarrow> panic + bool list" where
  "pruned_mask c =
     (let n = length (code c)
      in result_bind (mark_reachable c (replicate n False)
             (rev (0 # map (\<lambda>e. unat (handler e)) (catch_table c))))
           (\<lambda>reached. drop_jumps c (rev [0..<n]) ((map Not reached)[n - 1 := False]) n))"

definition prune_unreachable :: "chunk \<Rightarrow> panic + chunk" where
  "prune_unreachable c =
     (if length (code c) < 2 then Inr c
      else result_bind (pruned_mask c) (\<lambda>remove.
        if list_all Not remove then Inr c else compact remove c))"

section \<open>The worklist computes reachability\<close>

text \<open>
  While the worklist runs, every marked index is reachable and so is every pending one, and every
  successor of a marked index is marked or pending.
\<close>

definition mark_inv :: "chunk \<Rightarrow> bool list \<Rightarrow> nat list \<Rightarrow> bool" where
  "mark_inv c reached pending \<longleftrightarrow> length reached = length (code c) \<and>
     (\<forall>i<length reached. reached ! i \<longrightarrow> reachable c i) \<and> (\<forall>i\<in>set pending. reachable c i) \<and>
     (\<forall>i<length reached. reached ! i \<longrightarrow> (\<forall>ss. successors c i = Inr ss \<longrightarrow>
        (\<forall>s\<in>set ss. length reached \<le> s \<or> reached ! s \<or> s \<in> set pending)))"

lemma mark_invD:
  assumes "mark_inv c reached pending" "i < length reached" "reached ! i" "successors c i = Inr ss"
    "s \<in> set ss"
  shows "length reached \<le> s \<or> reached ! s \<or> s \<in> set pending"
  using assms unfolding mark_inv_def by blast

lemma mark_inv_skip:
  assumes "mark_inv c reached (index # pending)" "length reached \<le> index \<or> reached ! index"
  shows "mark_inv c reached pending"
proof -
  have "length reached \<le> s \<or> reached ! s \<or> s \<in> set pending"
    if "i < length reached" "reached ! i" "successors c i = Inr ss" "s \<in> set ss" for i ss s
    using mark_invD [OF assms(1) that] assms(2) by (cases "s = index") auto
  then show ?thesis using assms(1) unfolding mark_inv_def by simp
qed

definition roots_seen :: "chunk \<Rightarrow> bool list \<Rightarrow> nat list \<Rightarrow> bool" where
  "roots_seen c reached pending \<longleftrightarrow>
     (\<forall>i\<in>insert 0 ((\<lambda>e. unat (handler e)) ` set (catch_table c)).
        length reached \<le> i \<or> reached ! i \<or> i \<in> set pending)"

lemma mark_reachable_spec:
  assumes "mark_inv c reached pending" "roots_seen c reached pending"
    and "\<And>i. i < length (code c) \<Longrightarrow> \<exists>ss. successors c i = Inr ss"
  shows "\<exists>reached'. mark_reachable c reached pending = Inr reached' \<and> mark_inv c reached' [] \<and>
    roots_seen c reached' []"
  using assms
proof (induction c reached pending rule: mark_reachable.induct)
  case (1 c reached)
  then show ?case by simp
next
  case (2 c reached index pending)
  show ?case
  proof (cases "length reached \<le> index \<or> reached ! index")
    case True
    have "mark_inv c reached pending" by (rule mark_inv_skip [OF "2.prems"(1) True])
    moreover have "roots_seen c reached pending" using "2.prems"(2) True by (auto simp: roots_seen_def)
    ultimately show ?thesis using "2.IH"(1) [OF True _ _ "2.prems"(3)] True by simp
  next
    case False
    then have i: "index < length (code c)" using "2.prems"(1) by (simp add: mark_inv_def not_le)
    then obtain ss where ss: "successors c index = Inr ss" using "2.prems"(3) by blast
    have r: "reachable c index" using "2.prems"(1) by (simp add: mark_inv_def)
    let ?reached = "reached[index := True]" and ?pending = "rev ss @ pending"
    have inv: "mark_inv c ?reached ?pending"
      unfolding mark_inv_def
    proof (intro conjI ballI allI impI)
      show "length ?reached = length (code c)" using "2.prems"(1) by (simp add: mark_inv_def)
      show "reachable c i" if "i < length ?reached" "?reached ! i" for i
        using that r "2.prems"(1) by (auto simp: mark_inv_def nth_update split: if_splits)
      show "reachable c i" if "i \<in> set ?pending" for i
        using that "2.prems"(1) reachable.step [OF r ss] by (auto simp: mark_inv_def)
      show "length ?reached \<le> s \<or> ?reached ! s \<or> s \<in> set ?pending"
        if "i < length ?reached" "?reached ! i" "successors c i = Inr ss'" "s \<in> set ss'" for i ss' s
      proof (cases "i = index")
        case True
        with that ss show ?thesis by simp
      next
        case False
        with that have "reached ! i" "i < length reached" by (simp_all add: nth_update)
        from mark_invD [OF "2.prems"(1) this(2,1) that(3,4)] \<open>\<not> (length reached \<le> index \<or> _)\<close>
        show ?thesis by (auto simp: nth_update)
      qed
    qed
    have roots: "roots_seen c ?reached ?pending"
      using "2.prems"(2) False by (auto simp: roots_seen_def nth_update)
    show ?thesis using "2.IH"(2) [OF False ss inv roots "2.prems"(3)] False ss by simp
  qed
qed

lemma marked_iff_reachable:
  assumes "mark_inv c reached []" "roots_seen c reached []" "i < length (code c)"
  shows "reached ! i \<longleftrightarrow> reachable c i"
proof
  show "reached ! i \<Longrightarrow> reachable c i" using assms by (simp add: mark_inv_def)
  have len: "length reached = length (code c)" using assms(1) by (simp add: mark_inv_def)
  assume "reachable c i"
  then have "i < length (code c) \<Longrightarrow> reached ! i"
  proof induction
    case entry
    then show ?case using assms(2) len by (auto simp: roots_seen_def)
  next
    case (handler e)
    then show ?case using assms(2) len by (auto simp: roots_seen_def)
  next
    case (step i ss s)
    have "i < length (code c)" using step(2) by (auto simp: successors_def index_of_def)
    with step mark_invD [OF assms(1), of i ss s] len show ?case by auto
  qed
  with assms(3) show "reached ! i" by blast
qed

section \<open>The dropped jumps\<close>

text \<open>
  What holds of the mask when the indices from \<open>k\<close> on have been visited: a removed reachable
  instruction from \<open>k\<close> on is a jump forward over removed instructions only, no removed jump belongs
  to an iteration step, and \<open>next\<close> is the first kept index from \<open>k\<close> on.
\<close>

definition dropped :: "chunk \<Rightarrow> bool list \<Rightarrow> nat \<Rightarrow> bool" where
  "dropped c remove i \<longleftrightarrow>
     (\<exists>rel t. jump_of (code c ! i) = Some rel \<and> relative_target i (sint rel) = Inr t \<and> i < t \<and>
        t \<le> length (code c) \<and> (\<forall>j. i \<le> j \<and> j < t \<longrightarrow> remove ! j)) \<and>
     (case previous_of c i of None \<Rightarrow> True | Some p \<Rightarrow> \<not> is_foreach_next (code c ! p))"

definition drop_inv :: "chunk \<Rightarrow> bool list \<Rightarrow> nat \<Rightarrow> bool list \<Rightarrow> nat \<Rightarrow> bool" where
  "drop_inv c start k remove next \<longleftrightarrow>
     length remove = length (code c) \<and> k \<le> next \<and> next \<le> length (code c) \<and>
     (next < length (code c) \<longrightarrow> \<not> remove ! next) \<and>
     (\<forall>j. k \<le> j \<and> j < next \<longrightarrow> remove ! j) \<and>
     (\<forall>j<k. remove ! j = start ! j) \<and> (\<forall>j<length (code c). start ! j \<longrightarrow> remove ! j) \<and>
     (\<forall>j<length (code c). remove ! j \<longrightarrow> start ! j \<or> dropped c remove j)"

lemma dropped_mono:
  assumes "dropped c remove i" "length remove = length (code c)" "k < length (code c)"
  shows "dropped c (remove[k := True]) i"
proof -
  from assms(1) obtain rel t where t: "jump_of (code c ! i) = Some rel"
    "relative_target i (sint rel) = Inr t" "i < t" "t \<le> length (code c)"
    "\<And>j. i \<le> j \<Longrightarrow> j < t \<Longrightarrow> remove ! j" by (auto simp: dropped_def)
  then have "\<forall>j. i \<le> j \<and> j < t \<longrightarrow> remove[k := True] ! j" by (simp add: nth_update)
  with t(1-4) assms(1) show ?thesis unfolding dropped_def by blast
qed

lemma drop_inv_keep:
  assumes "drop_inv c start (Suc k) remove next" "k < length (code c)" "\<not> remove ! k"
  shows "drop_inv c start k remove k"
  using assms by (auto simp: drop_inv_def)

lemma drop_inv_skip:
  assumes "drop_inv c start (Suc k) remove next" "remove ! k"
  shows "drop_inv c start k remove next"
proof -
  have "remove ! j" if "k \<le> j" "j < next" for j
    using assms that by (cases "j = k") (auto simp: drop_inv_def)
  with assms(1) show ?thesis by (simp add: drop_inv_def)
qed

lemma drop_inv_drop:
  assumes inv: "drop_inv c start (Suc k) remove next" and k: "k < length (code c)"
    and j: "jump_of (code c ! k) = Some rel" "relative_target k (sint rel) = Inr t" "k < t" "t \<le> next"
    and p: "case previous_of c k of None \<Rightarrow> True | Some p \<Rightarrow> \<not> is_foreach_next (code c ! p)"
  shows "drop_inv c start k (remove[k := True]) next"
proof -
  let ?r = "remove[k := True]"
  from inv have len: "length remove = length (code c)" "next \<le> length (code c)" "Suc k \<le> next"
    and gap: "\<And>j. Suc k \<le> j \<Longrightarrow> j < next \<Longrightarrow> remove ! j"
    and old: "\<And>j. j < Suc k \<Longrightarrow> remove ! j = start ! j"
    and keep: "\<And>j. j < length (code c) \<Longrightarrow> start ! j \<Longrightarrow> remove ! j"
    and why: "\<And>j. j < length (code c) \<Longrightarrow> remove ! j \<Longrightarrow> start ! j \<or> dropped c remove j"
    and fin: "next < length (code c) \<Longrightarrow> \<not> remove ! next"
    by (auto simp: drop_inv_def)
  have gap': "?r ! j" if "k \<le> j" "j < next" for j
    using gap [of j] that len k by (auto simp: nth_update)
  then have "\<forall>j. k \<le> j \<and> j < t \<longrightarrow> ?r ! j" using j(4) by auto
  with j p len have here: "dropped c ?r k" unfolding dropped_def by auto
  have "start ! j \<or> dropped c ?r j" if "j < length (code c)" "?r ! j" for j
    using that here why [of j] dropped_mono [OF _ len(1) k, of j] by (auto simp: nth_update split: if_splits)
  then show ?thesis
    using len gap' old keep fin k by (auto simp: drop_inv_def nth_update)
qed

lemma drop_jumps_spec:
  assumes "jumps_resolve c" "drop_inv c start k remove next" "k \<le> length (code c)"
  shows "\<exists>remove'. drop_jumps c (rev [0..<k]) remove next = Inr remove' \<and>
    (\<exists>next'. drop_inv c start 0 remove' next')"
  using assms(2,3)
proof (induction k arbitrary: remove "next")
  case (Suc k)
  have k: "k < length (code c)" using Suc.prems by simp
  have r: "rev [0..<Suc k] = k # rev [0..<k]" by simp
  show ?case
  proof (cases "remove ! k")
    case True
    with Suc.IH [OF drop_inv_skip [OF Suc.prems(1) True]] k show ?thesis unfolding r by simp
  next
    case False
    note keep = Suc.IH [OF drop_inv_keep [OF Suc.prems(1) k False]]
    show ?thesis
    proof (cases "jump_of (code c ! k)")
      case None
      with keep False k show ?thesis unfolding r by simp
    next
      case (Some rel)
      then obtain t where t: "relative_target k (sint rel) = Inr t"
        using assms(1) k by (auto simp: jumps_resolve_def)
      show ?thesis
      proof (cases "(case previous_of c k of None \<Rightarrow> False | Some p \<Rightarrow> is_foreach_next (code c ! p))
          \<or> \<not> (k < t \<and> t \<le> next)")
        case True
        then show ?thesis unfolding r using keep False k Some t by auto
      next
        case drop: False
        then have "drop_inv c start k (remove[k := True]) next"
          by (intro drop_inv_drop [OF Suc.prems(1) k Some t]) (auto split: option.splits)
        from Suc.IH [OF this] k drop show ?thesis unfolding r using False Some t by auto
      qed
    qed
  qed
qed auto
lemma pruned_mask_spec:
  assumes v: "verify xxh3 c = Inr ()"
  shows "\<exists>remove. pruned_mask c = Inr remove \<and> length remove = length (code c) \<and>
    (\<forall>i<length (code c). reachable c i \<longrightarrow> remove ! i \<longrightarrow> dropped c remove i) \<and>
    (\<forall>i<length (code c) - 1. \<not> reachable c i \<longrightarrow> remove ! i) \<and> \<not> remove ! (length (code c) - 1)"
proof -
  let ?n = "length (code c)"
  let ?roots = "rev (0 # map (\<lambda>e. unat (handler e)) (catch_table c))"
  have n: "0 < ?n" using verified_length [OF v] by simp
  have "mark_inv c (replicate ?n False) ?roots"
    by (auto simp: mark_inv_def intro: reachable.intros)
  moreover have "roots_seen c (replicate ?n False) ?roots" by (auto simp: roots_seen_def)
  ultimately obtain reached where mk: "mark_reachable c (replicate ?n False) ?roots = Inr reached"
    and inv: "mark_inv c reached []" "roots_seen c reached []"
    using mark_reachable_spec verified_successors [OF v] by metis
  note iff = marked_iff_reachable [OF inv]
  have len: "length reached = ?n" using inv(1) by (simp add: mark_inv_def)
  define start where "start = (map Not reached)[?n - 1 := False]"
  have start: "start ! i \<longleftrightarrow> \<not> reachable c i \<and> i \<noteq> ?n - 1" if "i < ?n" for i
    using that len n iff [OF that] by (auto simp: start_def nth_update)
  have "drop_inv c start ?n start ?n" using len unfolding drop_inv_def start_def by auto
  then obtain remove nxt where d: "drop_jumps c (rev [0..<?n]) start ?n = Inr remove"
      "drop_inv c start 0 remove nxt"
    using drop_jumps_spec [OF verified_jumps_resolve [OF v], of start ?n start ?n] by auto
  have "pruned_mask c = Inr remove"
    using mk d(1) by (simp add: pruned_mask_def Let_def start_def)
  moreover have len': "length remove = ?n" and keep: "\<And>i. i < ?n \<Longrightarrow> start ! i \<Longrightarrow> remove ! i"
    and why: "\<And>i. i < ?n \<Longrightarrow> remove ! i \<Longrightarrow> start ! i \<or> dropped c remove i"
    using d(2) by (auto simp: drop_inv_def)
  moreover have last: "\<not> dropped c remove (?n - 1)"
  proof
    assume "dropped c remove (?n - 1)"
    then obtain rel t where t: "jump_of (code c ! (?n - 1)) = Some rel"
        "relative_target (?n - 1) (sint rel) = Inr t" "?n - 1 < t" by (auto simp: dropped_def)
    then have "instruction_targets c (?n - 1) (code c ! (?n - 1)) = Inr [t]"
      by (simp add: jump_of_Some instruction_targets_def branch_offsets_def branch_of_def)
    with verified_targets [OF v, of "?n - 1"] n t(3) show False by auto
  qed
  moreover have "dropped c remove i" if "i < ?n" "reachable c i" "remove ! i" for i
    using why [OF that(1,3)] start [OF that(1)] that(2) by blast
  moreover have "remove ! i" if "i < ?n - 1" "\<not> reachable c i" for i
    using keep [of i] start [of i] that by simp
  moreover have "\<not> remove ! (?n - 1)"
    using why [of "?n - 1"] start [of "?n - 1"] last n by auto
  ultimately show ?thesis by blast
qed

section \<open>The remap is a simulation\<close>

lemma set_branch_flow:
  "jumps_always (set_branch b ins) = jumps_always ins"
  "is_foreach_next (set_branch b ins) = is_foreach_next ins"
  "leaves_chunk (set_branch b ins) = leaves_chunk ins"
  by (cases b; cases ins; simp add: set_branch_def set_wide_def set_short_def set_near_def
      set_two_short_def jumps_always_def is_foreach_next_def leaves_chunk_def
      split: jump_instruction.split loop_instruction.split float_instruction.split
        string_instruction.split object_instruction.split switch_instruction.split
        array_instruction.split)+

text \<open>
  A reachable kept instruction keeps its successors under the remap, and a dropped one has a single
  successor, which the remap identifies with it.
\<close>

definition simulated :: "bool list \<Rightarrow> chunk \<Rightarrow> chunk \<Rightarrow> nat \<Rightarrow> bool" where
  "simulated remove c c' i \<longleftrightarrow>
     (\<forall>ss. successors c i = Inr ss \<longrightarrow>
       (if remove ! i then \<exists>t. ss = [t] \<and> new_index remove t = new_index remove i
        else successors c' (new_index remove i) = Inr (map (new_index remove) ss) \<and>
          (\<exists>b. code c' ! new_index remove i = set_branch b (code c ! i))))"

lemma new_index_gap:
  assumes "i \<le> t" "t \<le> length remove" "\<And>j. i \<le> j \<Longrightarrow> j < t \<Longrightarrow> remove ! j"
  shows "new_index remove t = new_index remove i"
  using assms
proof (induction t)
  case (Suc t)
  then show ?case by (cases "i = Suc t") (auto simp: new_index_Suc)
qed simp

lemma dropped_simulated:
  assumes "dropped c remove i" "i < length (code c)" "remove ! i" "length remove = length (code c)"
  shows "simulated remove c c' i"
proof -
  obtain rel t where t: "jump_of (code c ! i) = Some rel" "relative_target i (sint rel) = Inr t"
    "i < t" "t \<le> length (code c)" "\<And>j. i \<le> j \<Longrightarrow> j < t \<Longrightarrow> remove ! j"
    using assms(1) by (auto simp: dropped_def)
  then have "successors c i = Inr [t]"
    using assms(2) by (simp add: successors_def index_of_def jump_of_Some jumps_always_def
        instruction_targets_def branch_offsets_def branch_of_def)
  moreover have "new_index remove t = new_index remove i"
    using t(3-5) assms(4) by (intro new_index_gap) auto
  ultimately show ?thesis using assms(3) by (simp add: simulated_def)
qed

lemma kept_simulated:
  assumes i: "i < length (code c)" "\<not> remove ! i" "length remove = length (code c)"
    and n: "new_index remove i < length (code c')"
    and b: "code c' ! new_index remove i = set_branch b (code c ! i)"
    and ts: "instruction_targets c i (code c ! i) = Inr ts"
      "instruction_targets c' (new_index remove i) (code c' ! new_index remove i)
        = Inr (map (new_index remove) ts)"
    and fe: "is_foreach_next (code c ! i) \<Longrightarrow> i + 1 < length (code c) \<and> \<not> remove ! (i + 1)"
  shows "simulated remove c c' i"
proof -
  have 1: "new_index remove (Suc i) = Suc (new_index remove i)"
    using i by (simp add: new_index_Suc)
  moreover have "new_index remove (Suc (Suc i)) = Suc (Suc (new_index remove i))"
    if "is_foreach_next (code c ! i)"
    using fe [OF that] i 1 by (simp add: new_index_Suc)
  ultimately show ?thesis
    using i n ts set_branch_flow [of b "code c ! i"]
    by (auto simp: simulated_def successors_def index_of_def b)
qed

lemma foreach_next_kept:
  assumes v: "verify xxh3 c = Inr ()" and i: "i < length (code c)" "reachable c i"
    and fe: "is_foreach_next (code c ! i)"
    and why: "\<And>j. j < length (code c) \<Longrightarrow> reachable c j \<Longrightarrow> remove ! j \<Longrightarrow> dropped c remove j"
  shows "i + 1 < length (code c) \<and> \<not> remove ! (i + 1)"
proof -
  have flow: "\<not> jumps_always (code c ! i)" "\<not> leaves_chunk (code c ! i)"
    "\<not> is_drain_finalizers (code c ! i)"
    using fe by (auto simp: is_foreach_next_def jumps_always_def leaves_chunk_def
        is_drain_finalizers_def split: instruction.splits)
  have next': "i + 1 < length (code c)" by (rule verified_fall_through [OF v i(1) flow(1,2)])
  have "successors c i = Inr [i + 1, i + 2]"
    using i(1) flow(1) fe by (simp add: successors_def index_of_def)
  then have "reachable c (i + 1)" using i(2) by (auto intro: reachable.step)
  moreover have "previous_of c (i + 1) = Some i" using flow(3) by (simp add: previous_of_def)
  then have "\<not> dropped c remove (i + 1)" using fe by (simp add: dropped_def)
  ultimately show ?thesis using next' why by blast
qed

lemma new_index_none:
  assumes "list_all Not remove" "i \<le> length remove"
  shows "new_index remove i = i"
proof -
  have "filter Not (take i remove) = take i remove"
    using assms(1) by (intro filter_True) (auto simp: list_all_iff dest: in_set_takeD)
  with assms(2) show ?thesis by (simp add: new_index_def)
qed

lemma unchanged_simulated:
  assumes v: "verify xxh3 c = Inr ()" and none: "list_all Not remove" "length remove = length (code c)"
  shows "new_index remove (length (code c)) = length (code c)"
    and "map (moved_catch_entry remove) (catch_table c) = catch_table c"
    and "i < length (code c) \<Longrightarrow> simulated remove c c i"
proof -
  note id = new_index_none [OF none(1), unfolded none(2)]
  show "new_index remove (length (code c)) = length (code c)" by (simp add: id)
  show "map (moved_catch_entry remove) (catch_table c) = catch_table c"
  proof (rule map_idI)
    fix e assume "e \<in> set (catch_table c)"
    from verified_catch_entry(1-3) [OF v this] show "moved_catch_entry remove e = e"
      by (simp add: moved_catch_entry_def id)
  qed
  assume i: "i < length (code c)"
  then obtain ss where ss: "successors c i = Inr ss"
    and le: "\<And>s. s \<in> set ss \<Longrightarrow> s < length (code c) \<or> (is_foreach_next (code c ! i) \<and> s = i + 2)"
    using verified_successors [OF v] by blast
  have "i + 1 < length (code c)" if "is_foreach_next (code c ! i)"
    using that by (intro verified_fall_through [OF v i])
      (auto simp: is_foreach_next_def jumps_always_def leaves_chunk_def split: instruction.splits)
  then have "s \<le> length (code c)" if "s \<in> set ss" for s using le [OF that] by auto
  then have "map (new_index remove) ss = ss" by (intro map_idI id) auto
  moreover have "\<not> remove ! i" using none i by (simp add: list_all_length)
  moreover have "code c ! i = set_branch NoBranch (code c ! i)" by (simp add: set_branch_def)
  ultimately show "simulated remove c c i"
    using ss id [of i] i unfolding simulated_def by auto
qed

lemma compacted_simulated:
  assumes v: "verify xxh3 c = Inr ()" and cc: "compactable remove c"
    and why: "\<And>j. j < length (code c) \<Longrightarrow> reachable c j \<Longrightarrow> remove ! j \<Longrightarrow> dropped c remove j"
  shows "\<exists>c'. compact remove c = Inr c' \<and>
    length (code c') = new_index remove (length (code c)) \<and>
    catch_table c' = map (moved_catch_entry remove) (catch_table c) \<and>
    (\<forall>i<length (code c). reachable c i \<longrightarrow> simulated remove c c' i)"
proof -
  have len: "length remove = length (code c)" using cc by (simp add: compactable_def)
  obtain c' where c': "compact remove c = Inr c'"
    "length (code c') = new_index remove (length (code c))"
    "catch_table c' = map (moved_catch_entry remove) (catch_table c)"
    and each: "\<And>i. i < length (code c) \<Longrightarrow> \<not> remove ! i \<Longrightarrow>
       new_index remove i < length (code c') \<and>
       (\<exists>b. code c' ! new_index remove i = set_branch b (code c ! i)) \<and>
       (\<exists>ts. instruction_targets c i (code c ! i) = Inr ts \<and>
          instruction_targets c' (new_index remove i) (code c' ! new_index remove i)
            = Inr (map (new_index remove) ts))"
    using compact_spec [OF cc] by blast
  have "simulated remove c c' i" if i: "i < length (code c)" "reachable c i" for i
  proof (cases "remove ! i")
    case True
    with why [OF i] i len show ?thesis by (intro dropped_simulated) auto
  next
    case False
    with each [OF i(1)] obtain b ts where "new_index remove i < length (code c')"
      "code c' ! new_index remove i = set_branch b (code c ! i)"
      "instruction_targets c i (code c ! i) = Inr ts"
      "instruction_targets c' (new_index remove i) (code c' ! new_index remove i)
        = Inr (map (new_index remove) ts)" by blast
    then show ?thesis
      by (rule kept_simulated [OF i(1) False len]) (rule foreach_next_kept [OF v i _ why])
  qed
  with c' show ?thesis by blast
qed

lemma prune_spec:
  assumes v: "verify xxh3 c = Inr ()" and u: "\<not> has_shared_switch_table c"
  shows "\<exists>remove c'. prune_unreachable c = Inr c' \<and> length remove = length (code c) \<and>
    length (code c') = new_index remove (length (code c)) \<and>
    catch_table c' = map (moved_catch_entry remove) (catch_table c) \<and>
    (\<forall>i<length (code c). reachable c i \<longrightarrow> simulated remove c c' i)"
proof (cases "length (code c) < 2")
  case True
  let ?r = "replicate (length (code c)) False"
  have r: "list_all Not ?r" "length ?r = length (code c)" by (auto simp: list_all_iff)
  show ?thesis
    using True r(2) unchanged_simulated [OF v r]
    by (intro exI [of _ ?r] exI [of _ c]) (simp add: prune_unreachable_def)
next
  case False
  obtain remove where m: "pruned_mask c = Inr remove" "length remove = length (code c)"
    and why: "\<And>j. j < length (code c) \<Longrightarrow> reachable c j \<Longrightarrow> remove ! j \<Longrightarrow> dropped c remove j"
    using pruned_mask_spec [OF v] by blast
  show ?thesis
  proof (cases "list_all Not remove")
    case True
    show ?thesis
      using False True m unchanged_simulated [OF v True m(2)]
      by (intro exI [of _ remove] exI [of _ c]) (simp add: prune_unreachable_def)
  next
    case some: False
    have "compactable remove c" by (rule verified_compactable [OF v u m(2)])
    from compacted_simulated [OF v this why] obtain c' where "compact remove c = Inr c'"
      "length (code c') = new_index remove (length (code c))"
      "catch_table c' = map (moved_catch_entry remove) (catch_table c)"
      "\<forall>i<length (code c). reachable c i \<longrightarrow> simulated remove c c' i" by blast
    with False some m show ?thesis
      by (intro exI [of _ remove] exI [of _ c']) (simp add: prune_unreachable_def)
  qed
qed

text \<open>Hence what was reachable stays reachable, at its new index.\<close>

lemma prune_reachable:
  assumes v: "verify xxh3 c = Inr ()" and len: "length remove = length (code c)"
    and h: "catch_table c' = map (moved_catch_entry remove) (catch_table c)"
    and sim: "\<And>i. i < length (code c) \<Longrightarrow> reachable c i \<Longrightarrow> simulated remove c c' i"
    and r: "reachable c i"
  shows "reachable c' (new_index remove i)"
  using r
proof induction
  case entry
  show ?case by (simp add: new_index_def reachable.entry)
next
  case (handler e)
  have lt: "unat (catch_entry.handler e) < 2 ^ 32"
    using verified_catch_entry(3) [OF v handler] verified_length(2) [OF v] by linarith
  have "unat (catch_entry.handler (moved_catch_entry remove e))
      = new_index remove (unat (catch_entry.handler e))"
    using lt new_index_le [of remove "unat (catch_entry.handler e)"]
    by (simp add: moved_catch_entry_def)
  with reachable.handler [of "moved_catch_entry remove e" c'] handler h show ?case by force
next
  case (step i ss s)
  have i: "i < length (code c)" using step(2) by (auto simp: successors_def index_of_def)
  note s = sim [OF i step(1), unfolded simulated_def, rule_format, OF step(2)]
  show ?case
  proof (cases "remove ! i")
    case True
    with s step show ?thesis by auto
  next
    case False
    with s have "successors c' (new_index remove i) = Inr (map (new_index remove) ss)" by simp
    then show ?thesis using step(3) by (intro reachable.step [OF step(4)]) auto
  qed
qed

section \<open>Properties\<close>

text \<open>C3. Pruning unreachable code simulates the original: for a verified chunk whose switches do
  not share a table it returns, and under the index map of the removal every reachable instruction
  is either kept, with the same operation and the mapped successors, or a jump whose target the
  map identifies with it; handlers move along, and every point the old chunk reaches is reached in
  the new one.\<close>

theorem prune_unreachable_simulates:
  assumes "verify xxh3 c = Inr ()" "\<not> has_shared_switch_table c"
  shows "\<exists>remove c'. prune_unreachable c = Inr c' \<and> length remove = length (code c) \<and>
    length (code c') = new_index remove (length (code c)) \<and>
    catch_table c' = map (moved_catch_entry remove) (catch_table c) \<and>
    (\<forall>i<length (code c). reachable c i \<longrightarrow> simulated remove c c' i) \<and>
    (\<forall>i. reachable c i \<longrightarrow> reachable c' (new_index remove i))"
proof -
  obtain remove c' where p: "prune_unreachable c = Inr c'" "length remove = length (code c)"
    "length (code c') = new_index remove (length (code c))"
    "catch_table c' = map (moved_catch_entry remove) (catch_table c)"
    "\<forall>i<length (code c). reachable c i \<longrightarrow> simulated remove c c' i"
    using prune_spec [OF assms] by blast
  moreover have "reachable c' (new_index remove i)" if "reachable c i" for i
    using prune_reachable [OF assms(1) p(2,4)] p(5) that by blast
  ultimately show ?thesis
    by blast
qed

theorem prune_unreachable_simulates_witness:
  "\<exists>c'. prune_unreachable sample_chunk = Inr c' \<and> catch_table c' = []"
  using prune_unreachable_simulates [OF sample_chunk_verified sample_chunk_unshared] by auto

text \<open>C23. What pruning removes from a verified chunk: every unreachable instruction but the last,
  and of the reachable ones only jumps over instructions that are all removed; the last instruction
  stays, so the chunk keeps its terminator.\<close>

theorem pruned_instructions:
  assumes "verify xxh3 c = Inr ()"
  shows "\<exists>remove. pruned_mask c = Inr remove \<and> length remove = length (code c) \<and>
    (\<forall>i<length (code c). reachable c i \<longrightarrow> remove ! i \<longrightarrow> dropped c remove i) \<and>
    (\<forall>i<length (code c) - 1. \<not> reachable c i \<longrightarrow> remove ! i) \<and> \<not> remove ! (length (code c) - 1)"
  by (rule pruned_mask_spec [OF assms])

theorem pruned_instructions_witness:
  "\<exists>remove. pruned_mask sample_chunk = Inr remove \<and> length remove = 4 \<and> \<not> remove ! 3"
  using pruned_instructions [OF sample_chunk_verified] by (auto simp: numeral_eq_Suc)

end
