(* ===== verification/Whim_Unit.thy ===== *)
theory Whim_Unit
  imports Whim_Verify
begin

text \<open>
  What the compiler produces for one source file (\<^verbatim>\<open>crates/bytecode/src/unit.rs\<close>) and the verification
  of a whole unit (\<^verbatim>\<open>verify_unit\<close> of \<^verbatim>\<open>crates/bytecode/src/verify/mod.rs\<close>). A field keeps its source
  name behind a prefix that names its record.
\<close>

section \<open>Compiled declarations\<close>

datatype visibility = Public | Protected | Private

fun visibility_rank :: "visibility \<Rightarrow> nat" where
  "visibility_rank Public = 2"
| "visibility_rank Protected = 1"
| "visibility_rank Private = 0"

definition is_at_least :: "visibility \<Rightarrow> visibility \<Rightarrow> bool" where
  "is_at_least a b \<longleftrightarrow> visibility_rank a \<ge> visibility_rank b"

fun visibility_as_str :: "visibility \<Rightarrow> string" where
  "visibility_as_str Public = ''public''"
| "visibility_as_str Protected = ''protected''"
| "visibility_as_str Private = ''private''"

datatype slot_placement = Inherited u32 | Appended

definition slot_placement :: "(u32 \<times> visibility) option \<Rightarrow> visibility \<Rightarrow> slot_placement" where
  "slot_placement inherited vis =
     (case inherited of
        Some (slot, inherited_visibility) \<Rightarrow>
          if vis \<noteq> Private \<and> inherited_visibility \<noteq> Private then Inherited slot else Appended
      | None \<Rightarrow> Appended)"

datatype class_like_kind = ClassKind | InterfaceKind | EnumKind

record compiled_base_reference =
  base_name :: atom
  base_type_arguments :: "type_descriptor list option"
  base_span :: span

datatype variance = Invariant | Covariant | Contravariant

text \<open>Polarities are \<open>-1\<close>, \<open>0\<close> and \<open>1\<close>, so the negation of the 8-bit integer does not wrap.\<close>

fun nested_polarity :: "variance \<Rightarrow> int \<Rightarrow> int" where
  "nested_polarity Invariant polarity = 0"
| "nested_polarity Covariant polarity = polarity"
| "nested_polarity Contravariant polarity = - polarity"

record compiled_type_parameter =
  type_parameter_name :: atom
  type_parameter_span :: span
  type_parameter_variance :: variance
  bounds :: "type_descriptor list"
  type_parameter_default :: "type_descriptor option"

datatype constant_initializer = LiteralInit literal | Thunk chunk

record compiled_attribute =
  attribute_class :: atom
  attribute_span :: span
  attribute_arguments :: "constant_initializer list"
  attribute_named_arguments :: "(atom \<times> constant_initializer) list"

record compiled_parameter =
  parameter_name :: atom
  parameter_span :: span
  has_default :: bool
  parameter_default :: "constant_initializer option"
  parameter_declared_type :: "type_descriptor option"
  sensitive :: bool
  parameter_attributes :: "compiled_attribute list"

record compiled_where_constraint =
  constraint_parameter :: atom
  constraint_bound :: type_descriptor
  constraint_span :: span

record compiled_function =
  function_name :: atom
  function_span :: span
  function_signature :: atom
  function_type_parameters :: "compiled_type_parameter list"
  where_constraints :: "compiled_where_constraint list"
  function_parameters :: "compiled_parameter list"
  return_type :: "type_descriptor option"
  function_attributes :: "compiled_attribute list"
  captures_this :: bool
  capture_names :: "atom list"
  capture_types :: "type_descriptor option list"
  function_chunk :: chunk

record compiled_class_constant =
  class_constant_name :: atom
  class_constant_span :: span
  class_constant_visibility :: visibility
  class_constant_initializer :: constant_initializer
  class_constant_declared_type :: "type_descriptor option"
  class_constant_attributes :: "compiled_attribute list"

record compiled_property =
  property_name :: atom
  property_span :: span
  property_visibility :: visibility
  property_is_static :: bool
  property_is_readonly :: bool
  is_promoted :: bool
  property_default :: "constant_initializer option"
  property_declared_type :: "type_descriptor option"
  property_attributes :: "compiled_attribute list"

record compiled_method =
  method_name :: atom
  method_visibility :: visibility
  method_is_static :: bool
  method_is_abstract :: bool
  method_is_final :: bool
  method_function :: compiled_function

datatype enum_backing = IntBacking | UintBacking | StringBacking

record compiled_enum_case =
  case_name :: atom
  case_span :: span
  case_value :: "constant_initializer option"
  case_attributes :: "compiled_attribute list"

record compiled_class_like =
  class_name :: atom
  class_span :: span
  class_kind :: class_like_kind
  class_type_parameters :: "compiled_type_parameter list"
  class_is_abstract :: bool
  class_is_final :: bool
  class_is_readonly :: bool
  parent :: "compiled_base_reference option"
  interfaces :: "compiled_base_reference list"
  class_constants :: "compiled_class_constant list"
  properties :: "compiled_property list"
  methods :: "compiled_method list"
  cases :: "compiled_enum_case list"
  class_enum_backing :: "enum_backing option"
  class_attributes :: "compiled_attribute list"
  sealed_to :: "atom list option"

definition clone_with_methods ::
  "compiled_class_like \<Rightarrow> compiled_method list \<Rightarrow> compiled_class_like" where
  "clone_with_methods c ms = c\<lparr>methods := ms\<rparr>"

record compiled_constant =
  constant_name :: atom
  constant_span :: span
  constant_attributes :: "compiled_attribute list"
  constant_initializer :: constant_initializer

record compiled_type_alias =
  alias_name :: atom
  alias_span :: span
  alias_attributes :: "compiled_attribute list"
  alias_type_parameters :: "compiled_type_parameter list"
  alias_descriptor :: type_descriptor
  alias_rendered :: atom

record compiled_newtype =
  newtype_name :: atom
  newtype_span :: span
  newtype_attributes :: "compiled_attribute list"
  newtype_type_parameters :: "compiled_type_parameter list"
  backing :: type_descriptor

record compiled_file =
  file_path :: "atom option"
  file_span :: span
  has_top_level_code :: bool
  file_attributes :: "compiled_attribute list"

record compiled_unit =
  unit_path :: atom
  files :: "compiled_file list"
  main :: chunk
  unit_functions :: "compiled_function list"
  classes :: "compiled_class_like list"
  unit_constants :: "compiled_constant list"
  type_aliases :: "compiled_type_alias list"
  newtypes :: "compiled_newtype list"

section \<open>Attributes\<close>

text \<open>A qualified name: its parts with a backslash between them.\<close>

fun namespaced :: "string list \<Rightarrow> string" where
  "namespaced [] = []"
| "namespaced [part] = part"
| "namespaced (part # parts) = part @ CHR 0x5C # namespaced parts"

definition STUB_ATTRIBUTE :: string where "STUB_ATTRIBUTE = namespaced [''Whim'', ''Marker'', ''Stub'']"

definition TRACK_CALLER_ATTRIBUTE :: string where
  "TRACK_CALLER_ATTRIBUTE = namespaced [''Whim'', ''Marker'', ''TrackCaller'']"

definition NEVER_INLINE_ATTRIBUTE :: string where
  "NEVER_INLINE_ATTRIBUTE = namespaced [''Whim'', ''Marker'', ''NeverInline'']"

definition ALWAYS_INLINE_ATTRIBUTE :: string where
  "ALWAYS_INLINE_ATTRIBUTE = namespaced [''Whim'', ''Marker'', ''AlwaysInline'']"

definition COLD_ATTRIBUTE :: string where "COLD_ATTRIBUTE = namespaced [''Whim'', ''Marker'', ''Cold'']"

definition MUST_USE_ATTRIBUTE :: string where "MUST_USE_ATTRIBUTE = namespaced [''Whim'', ''Marker'', ''MustUse'']"

definition FRAMELESS_ATTRIBUTE :: string where "FRAMELESS_ATTRIBUTE = namespaced [''Whim'', ''Marker'', ''Frameless'']"

definition has_attribute :: "compiled_attribute list \<Rightarrow> string \<Rightarrow> bool" where
  "has_attribute attributes name = list_ex (\<lambda>a. attribute_class a = name) attributes"

definition is_never_inline :: "compiled_attribute list \<Rightarrow> bool" where
  "is_never_inline attributes \<longleftrightarrow>
     has_attribute attributes NEVER_INLINE_ATTRIBUTE \<or> has_attribute attributes COLD_ATTRIBUTE \<or>
     has_attribute attributes TRACK_CALLER_ATTRIBUTE \<or> has_attribute attributes FRAMELESS_ATTRIBUTE"

definition is_always_inline :: "compiled_attribute list \<Rightarrow> bool" where
  "is_always_inline attributes = has_attribute attributes ALWAYS_INLINE_ATTRIBUTE"

definition is_external :: "compiled_attribute list \<Rightarrow> bool" where
  "is_external attributes = has_attribute attributes STUB_ATTRIBUTE"

definition must_use_note :: "compiled_attribute list \<Rightarrow> atom option option" where
  "must_use_note attributes =
     (case find (\<lambda>a. attribute_class a = MUST_USE_ATTRIBUTE) attributes of
        None \<Rightarrow> None
      | Some a \<Rightarrow>
          let initializer =
            (case map_option snd (find (\<lambda>(n, _). n = ''note'') (attribute_named_arguments a)) of
               Some i \<Rightarrow> Some i
             | None \<Rightarrow> list_get (attribute_arguments a) 0)
          in Some (case initializer of
                     Some (LiteralInit (StringLit note)) \<Rightarrow> Some note
                   | _ \<Rightarrow> None))"

record built_in_callable_attributes =
  track_caller :: bool
  trace_boundary :: bool
  must_use :: bool

record built_in_callable_markers =
  marker_track_caller :: "bool option"
  marker_trace_boundary :: "bool option"
  marker_must_use :: bool

fun contains_string :: "string \<Rightarrow> string \<Rightarrow> bool" where
  "contains_string needle [] \<longleftrightarrow> needle = []"
| "contains_string needle (c # cs) \<longleftrightarrow>
     take (length needle) (c # cs) = needle \<or> contains_string needle cs"

definition starts_with :: "string \<Rightarrow> string \<Rightarrow> bool" where
  "starts_with prefix s \<longleftrightarrow> take (length prefix) s = prefix"

definition ends_with :: "string \<Rightarrow> string \<Rightarrow> bool" where
  "ends_with suffix s \<longleftrightarrow> length suffix \<le> length s \<and> drop (length s - length suffix) s = suffix"

definition for_whim_symbol :: "string \<Rightarrow> built_in_callable_attributes" where
  "for_whim_symbol name =
     (let caller = name = ''Whim'' \<or> starts_with (namespaced [''Whim'', '''']) name
      in \<lparr>track_caller = caller,
          trace_boundary = caller \<and>
            (starts_with (namespaced [''Whim'', ''_Private'', '''']) name \<or> contains_string (namespaced ['''', ''_Private'', '''']) name \<or>
             ends_with (namespaced ['''', ''_Private'']) name \<or> name = (namespaced [''Whim'', ''OS'', ''FileDescriptor''])),
          must_use = False\<rparr>)"

definition resolve_markers ::
  "string \<Rightarrow> built_in_callable_markers \<Rightarrow> built_in_callable_attributes" where
  "resolve_markers name markers =
     (let defaults = for_whim_symbol name
      in \<lparr>track_caller = (case marker_track_caller markers of
            Some b \<Rightarrow> b | None \<Rightarrow> track_caller defaults),
          trace_boundary = (case marker_trace_boundary markers of
            Some b \<Rightarrow> b | None \<Rightarrow> trace_boundary defaults),
          must_use = marker_must_use markers\<rparr>)"

section \<open>Literal returns\<close>

definition is_return :: "instruction \<Rightarrow> bool" where
  "is_return ins \<longleftrightarrow> (case ins of ReturnOp _ \<Rightarrow> True | _ \<Rightarrow> False)"

definition is_null_return :: "instruction \<Rightarrow> bool" where
  "is_null_return ins \<longleftrightarrow>
     (case ins of
        ReturnOp ReturnNull \<Rightarrow> True
      | ReturnOp ReturnNullUnchecked \<Rightarrow> True
      | _ \<Rightarrow> False)"

definition immediate_literal :: "integer_kind \<Rightarrow> immediate_integer \<Rightarrow> literal" where
  "immediate_literal kind immediate =
     (case kind of
        I64 \<Rightarrow> IntLit (word_of_int (as_int immediate))
      | U64 \<Rightarrow> UintLit (ucast (as_uint immediate)))"

definition loaded_literal :: "chunk \<Rightarrow> instruction \<Rightarrow> register \<Rightarrow> literal option" where
  "loaded_literal c ins source =
     (case ins of
        Load (LoadNull destination) \<Rightarrow> if destination = source then Some NullLit else None
      | Load (LoadTrue destination) \<Rightarrow> if destination = source then Some (BoolLit True) else None
      | Load (LoadFalse destination) \<Rightarrow> if destination = source then Some (BoolLit False) else None
      | Load (LoadInteger destination immediate kind) \<Rightarrow>
          if destination = source then Some (immediate_literal kind immediate) else None
      | Load (LoadConstant destination constant) \<Rightarrow>
          if destination = source then list_get (constants c) (unat constant) else None
      | _ \<Rightarrow> None)"

definition returned_register :: "instruction \<Rightarrow> register option" where
  "returned_register ins =
     (case ins of
        ReturnOp (Return source) \<Rightarrow> Some source
      | ReturnOp (ReturnUnchecked source) \<Rightarrow> Some source
      | ReturnOp (ReturnReferenceUnchecked source) \<Rightarrow> Some source
      | ReturnOp (ReturnScalarUnchecked source) \<Rightarrow> Some source
      | _ \<Rightarrow> None)"

definition returned_immediate :: "instruction \<Rightarrow> literal option" where
  "returned_immediate ins =
     (case ins of
        ReturnOp (ReturnIntegerUnchecked immediate kind) \<Rightarrow> Some (immediate_literal kind immediate)
      | _ \<Rightarrow> None)"

definition literal_return :: "compiled_function \<Rightarrow> literal option" where
  "literal_return f =
     (let c = function_chunk f; ins = code c
      in case find_position is_return ins of
           None \<Rightarrow> None
         | Some return_index \<Rightarrow>
             if list_ex (\<lambda>i. \<not> is_null_return i) (drop (return_index + 1) ins) then None
             else if return_index = 0
             then (if is_null_return (ins ! 0) then Some NullLit else returned_immediate (ins ! 0))
             else if return_index = 1
             then (case returned_register (ins ! 1) of
                     Some source \<Rightarrow> loaded_literal c (ins ! 0) source
                   | None \<Rightarrow> None)
             else None)"

definition frameless_literal :: "compiled_function \<Rightarrow> literal option" where
  "frameless_literal f =
     (if has_attribute (function_attributes f) FRAMELESS_ATTRIBUTE then literal_return f else None)"

definition literal_value :: "literal \<Rightarrow> whim_value" where
  "literal_value l = untagged
     (case l of
        NullLit \<Rightarrow> NullV
      | BoolLit b \<Rightarrow> BoolV b
      | IntLit i \<Rightarrow> IntV i
      | UintLit i \<Rightarrow> UintV i
      | FloatLit f \<Rightarrow> FloatV f
      | StringLit s \<Rightarrow> StringV s)"

section \<open>Signatures\<close>

definition add_bound ::
  "compiled_type_parameter list \<Rightarrow> compiled_where_constraint \<Rightarrow> compiled_type_parameter list" where
  "add_bound parameters w =
     (case find_position (\<lambda>p. type_parameter_name p = constraint_parameter w) parameters of
        Some i \<Rightarrow>
          parameters[i := (parameters ! i)\<lparr>bounds := bounds (parameters ! i) @ [constraint_bound w]\<rparr>]
      | None \<Rightarrow> parameters)"

definition bounded_type_parameters :: "compiled_function \<Rightarrow> compiled_type_parameter list" where
  "bounded_type_parameters f = foldl add_bound (function_type_parameters f) (where_constraints f)"

definition incoming_register_count :: "compiled_function \<Rightarrow> bool \<Rightarrow> u16" where
  "incoming_register_count f has_receiver =
     (let captures = length (capture_names f) - (if captures_this f then 1 else 0);
          n = (if has_receiver then 1 else 0) + length (function_parameters f) + captures
      in if n < 2 ^ 16 then of_nat n else 0xFFFF)"

section \<open>Verification of a unit\<close>

definition verify_initializer :: "(string \<Rightarrow> u64) \<Rightarrow> constant_initializer \<Rightarrow> verify_stop + unit" where
  "verify_initializer xxh3 i = (case i of LiteralInit _ \<Rightarrow> Inr () | Thunk c \<Rightarrow> verify xxh3 c)"

definition verify_function :: "(string \<Rightarrow> u64) \<Rightarrow> compiled_function \<Rightarrow> verify_stop + unit" where
  "verify_function xxh3 f = verify xxh3 (function_chunk f)"

definition verify_attribute :: "(string \<Rightarrow> u64) \<Rightarrow> compiled_attribute \<Rightarrow> verify_stop + unit" where
  "verify_attribute xxh3 a = run_checks
     (map (verify_initializer xxh3) (attribute_arguments a) @
      map (\<lambda>(_, i). verify_initializer xxh3 i) (attribute_named_arguments a))"

definition verify_optional ::
  "(string \<Rightarrow> u64) \<Rightarrow> constant_initializer option \<Rightarrow> verify_stop + unit" where
  "verify_optional xxh3 i = (case i of Some x \<Rightarrow> verify_initializer xxh3 x | None \<Rightarrow> Inr ())"

definition verify_class :: "(string \<Rightarrow> u64) \<Rightarrow> compiled_class_like \<Rightarrow> verify_stop + unit" where
  "verify_class xxh3 k = run_checks
     (map (\<lambda>x. verify_initializer xxh3 (class_constant_initializer x)) (class_constants k) @
      map (\<lambda>p. verify_optional xxh3 (property_default p)) (properties k) @
      map (\<lambda>m. verify_function xxh3 (method_function m)) (methods k) @
      map (\<lambda>e. verify_optional xxh3 (case_value e)) (cases k) @
      map (verify_attribute xxh3) (class_attributes k))"

definition verify_unit :: "(string \<Rightarrow> u64) \<Rightarrow> compiled_unit \<Rightarrow> verify_stop + unit" where
  "verify_unit xxh3 u = run_checks
     (concat (map (\<lambda>f. map (verify_attribute xxh3) (file_attributes f)) (files u)) @
      [verify xxh3 (main u)] @
      map (verify_function xxh3) (unit_functions u) @
      map (verify_class xxh3) (classes u) @
      map (\<lambda>x. verify_initializer xxh3 (constant_initializer x)) (unit_constants u))"

section \<open>Sequences of checks\<close>

lemma run_checks_append_Inr:
  "run_checks (xs @ ys) = Inr () \<longleftrightarrow> run_checks xs = Inr () \<and> run_checks ys = Inr ()"
  by (simp add: run_checks_append)

lemma run_checks_map_Inr: "run_checks (map f xs) = Inr () \<longleftrightarrow> (\<forall>x\<in>set xs. f x = Inr ())"
  by (induction xs) auto

lemma run_checks_concat_Inr:
  "run_checks (concat xss) = Inr () \<longleftrightarrow> (\<forall>xs\<in>set xss. run_checks xs = Inr ())"
  by (induction xss) (auto simp: run_checks_append)

lemmas checks_of_parts = run_checks_append_Inr run_checks_map_Inr run_checks_concat_Inr

lemma nth_add_bound:
  assumes "i < length ps"
  shows "bounds (add_bound ps w ! i) = bounds (ps ! i) @
    (if find_position (\<lambda>p. type_parameter_name p = constraint_parameter w) ps = Some i
     then [constraint_bound w] else [])"
  using assms
  by (cases "find_position (\<lambda>p. type_parameter_name p = constraint_parameter w) ps")
    (simp_all add: add_bound_def nth_list_update)

lemma unat_incoming_register_count:
  "unat (incoming_register_count f r) =
     min ((if r then 1 else 0) + length (function_parameters f) +
       (length (capture_names f) - (if captures_this f then 1 else 0))) (2 ^ 16 - 1)"
proof -
  define n where "n = (if r then 1 else 0) + length (function_parameters f) +
    (length (capture_names f) - (if captures_this f then 1 else 0))"
  have "incoming_register_count f r = (if n < 2 ^ 16 then of_nat n else 0xFFFF)"
    by (simp only: incoming_register_count_def Let_def n_def)
  then show ?thesis unfolding n_def [symmetric] by (simp add: min_def)
qed

lemma literal_return_cases:
  assumes "literal_return f = Some l"
  shows "(l = NullLit \<and> is_null_return (code (function_chunk f) ! 0)) \<or>
    returned_immediate (code (function_chunk f) ! 0) = Some l \<or>
    (\<exists>r. returned_register (code (function_chunk f) ! 1) = Some r \<and>
       loaded_literal (function_chunk f) (code (function_chunk f) ! 0) r = Some l)"
  using assms by (simp add: literal_return_def Let_def split: option.splits if_splits)

section \<open>Properties\<close>

lemma result_bind_return [simp]: "result_bind r Inr = r"
  by (cases r) auto

text \<open>C40. The visit leaves the default values of parameters out: replacing the parameters of every
  function of a unit by others, thunk defaults that do not verify included, never changes the
  verdict.\<close>

theorem verify_unit_ignores_parameters:
  "verify_unit xxh3 (u\<lparr>unit_functions := map (\<lambda>f. f\<lparr>function_parameters := ps f\<rparr>) (unit_functions u)\<rparr>)
     = verify_unit xxh3 u"
proof -
  have "map (verify_function xxh3) (map (\<lambda>f. f\<lparr>function_parameters := ps f\<rparr>) (unit_functions u))
      = map (verify_function xxh3) (unit_functions u)"
    by (simp add: verify_function_def)
  then show ?thesis
    by (simp add: verify_unit_def del: map_map)
qed

text \<open>The registers a function receives: the receiver, its parameters and its captures, the
  captured receiver counted once, saturated at the largest register count.\<close>

theorem incoming_register_count_saturates:
  "unat (incoming_register_count f r) =
     min ((if r then 1 else 0) + length (function_parameters f) +
       (length (capture_names f) - (if captures_this f then 1 else 0))) (2 ^ 16 - 1)"
  by (rule unat_incoming_register_count)

end
