(* ===== verification/Whim_Variance.thy ===== *)
theory Whim_Variance
  imports Whim_Unit
begin

text \<open>
  Declared-variance checks over type descriptors (\<^verbatim>\<open>crates/bytecode/src/variance.rs\<close>): a worklist walks
  the occurrences of type parameters with their polarity and returns the first parameter that is
  used against its declared variance. \<open>misused\<close> is the specification, by the variance of each type in its
  components. The callback that knows the
  variance of a named type's arguments is the argument \<open>named_variance\<close>.
\<close>

section \<open>The check\<close>

text \<open>What the worklist pushes for a descriptor, in the order in which it pushes.\<close>

definition variance_children ::
  "(atom \<Rightarrow> nat \<Rightarrow> variance option) \<Rightarrow> type_descriptor \<Rightarrow> int \<Rightarrow> (type_descriptor \<times> int) list" where
  "variance_children named_variance d position =
     (case d of
        NamedT name (Some arguments) _ \<Rightarrow>
          concat (map (\<lambda>(index, argument).
            case named_variance name index of
              None \<Rightarrow> []
            | Some v \<Rightarrow> [(argument, nested_polarity v position)]) (enumerate_from 0 arguments))
      | ArrayT (Some (k, v)) \<Rightarrow> [(k, position), (v, position)]
      | DictionaryT (Some (k, v)) \<Rightarrow> [(k, position), (v, position)]
      | VectorT (Some element) \<Rightarrow> [(element, position)]
      | VectorShapeT elements rest \<Rightarrow>
          map (\<lambda>e. (e, position)) elements @ (case rest of None \<Rightarrow> [] | Some r \<Rightarrow> [(r, position)])
      | ObjectShapeT entries _ \<Rightarrow> map (\<lambda>(_, v). (v, position)) entries
      | DictionaryShapeT entries rest \<Rightarrow>
          map (\<lambda>(_, v). (v, position)) entries @
          (case rest of None \<Rightarrow> [] | Some (k, v) \<Rightarrow> [(k, position), (v, position)])
      | CallableT (Some (FunctionTypeDescriptor parameters result)) \<Rightarrow>
          (result, position) #
          map (\<lambda>p. case p of FunctionTypeParameter t _ \<Rightarrow> (t, - position)) parameters
      | ClassnameT inner \<Rightarrow> [(inner, position)]
      | NegatedT inner \<Rightarrow> [(inner, - position)]
      | TupleRestT elements rest \<Rightarrow> map (\<lambda>e. (e, position)) elements @ [(rest, position)]
      | TupleT members \<Rightarrow> map (\<lambda>m. (m, position)) members
      | UnionT members \<Rightarrow> map (\<lambda>m. (m, position)) members
      | IntersectionT members \<Rightarrow> map (\<lambda>m. (m, position)) members
      | _ \<Rightarrow> [])"

definition valid_position :: "variance \<Rightarrow> int \<Rightarrow> bool" where
  "valid_position v position =
     (case v of Invariant \<Rightarrow> True | Covariant \<Rightarrow> position = 1 | Contravariant \<Rightarrow> position = - 1)"

definition parameter_of :: "type_descriptor \<Rightarrow> atom option" where
  "parameter_of d = (case d of ParameterT name \<Rightarrow> Some name | _ \<Rightarrow> None)"

function variance_worklist ::
  "(atom \<Rightarrow> nat \<Rightarrow> variance option) \<Rightarrow> compiled_type_parameter list \<Rightarrow>
   (type_descriptor \<times> int) list \<Rightarrow> compiled_type_parameter option" where
  "variance_worklist named_variance parameters [] = None"
| "variance_worklist named_variance parameters ((current, position) # pending) =
     (case parameter_of current of
        Some name \<Rightarrow>
          (case find (\<lambda>p. type_parameter_name p = name) parameters of
             None \<Rightarrow> variance_worklist named_variance parameters pending
           | Some p \<Rightarrow>
               if valid_position (type_parameter_variance p) position
               then variance_worklist named_variance parameters pending
               else Some p)
      | None \<Rightarrow> variance_worklist named_variance parameters
               (rev (variance_children named_variance current position) @ pending))"
  by pat_completeness auto

text \<open>The worklist ends because the pending descriptors get smaller in total.\<close>

abbreviation weight :: "type_descriptor \<times> int \<Rightarrow> nat" where
  "weight p \<equiv> Suc (size (fst p))"

lemma sum_members: "sum_list (map (\<lambda>d. Suc (size d)) ds) \<le> size_list size ds"
  by (induction ds) auto

lemma sum_arguments:
  "sum_list (map weight (concat (map (\<lambda>(index, argument).
      case nv index of None \<Rightarrow> [] | Some v \<Rightarrow> [(argument, nested_polarity v position)])
      (enumerate_from n ds)))) \<le> size_list size ds"
proof (induction ds arbitrary: n)
  case (Cons d ds)
  from Cons [of "Suc n"] show ?case by (cases "nv n") simp_all
qed simp

lemma sum_entries:
  "sum_list (map (\<lambda>e. Suc (size (snd e))) es) \<le> size_list (size_prod (\<lambda>_. 0) size) es"
  by (induction es) (auto simp: size_prod_simp)

lemma sum_parameters:
  "sum_list (map (\<lambda>p. Suc (size (case p of FunctionTypeParameter t _ \<Rightarrow> t))) ps) \<le> size_list size ps"
  by (induction ps) (auto split: function_type_parameter.split)

lemma variance_children_size:
  "sum_list (map weight (variance_children nv d position)) \<le> size d"
proof (cases d)
  case (NamedT name arguments recursive)
  then show ?thesis
    using sum_arguments [where nv = "nv name" and position = position and n = 0]
    by (cases arguments) (auto simp: variance_children_def intro: le_SucI)
next
  case (ArrayT arguments)
  then show ?thesis by (cases arguments) (auto simp: variance_children_def)
next
  case (DictionaryT arguments)
  then show ?thesis by (cases arguments) (auto simp: variance_children_def)
next
  case (VectorT element)
  then show ?thesis by (cases element) (auto simp: variance_children_def)
next
  case (VectorShapeT elements rest)
  then show ?thesis
    using sum_members [of elements] by (cases rest) (auto simp: variance_children_def comp_def)
next
  case (ObjectShapeT entries opn)
  then show ?thesis
    using sum_entries [of entries] by (auto simp: variance_children_def comp_def split_beta)
next
  case (DictionaryShapeT entries rest)
  then show ?thesis
    using sum_entries [of entries]
    by (cases rest) (auto simp: variance_children_def comp_def split_beta)
next
  case (CallableT signature)
  show ?thesis
  proof (cases signature)
    case None
    with CallableT show ?thesis by (simp add: variance_children_def)
  next
    case (Some s)
    obtain ps r where s: "s = FunctionTypeDescriptor ps r" by (cases s)
    have "fst (case p of FunctionTypeParameter t _ \<Rightarrow> (t, - position))
        = (case p of FunctionTypeParameter t _ \<Rightarrow> t)" for p by (cases p) simp
    then show ?thesis
      using CallableT Some s sum_parameters [of ps] by (simp add: variance_children_def comp_def)
  qed
next
  case (TupleRestT elements rest)
  then show ?thesis
    using sum_members [of elements] by (auto simp: variance_children_def comp_def)
next
  case (TupleT members)
  then show ?thesis
    using sum_members [of members] by (auto simp: variance_children_def comp_def)
next
  case (UnionT members)
  then show ?thesis
    using sum_members [of members] by (auto simp: variance_children_def comp_def)
next
  case (IntersectionT members)
  then show ?thesis
    using sum_members [of members] by (auto simp: variance_children_def comp_def)
qed (simp_all add: variance_children_def)

lemma sum_children_pending:
  "sum_list (map weight (rev (variance_children nv d position) @ pending))
     < Suc (size d) + sum_list (map weight pending)"
  using variance_children_size [of nv d position]
  by (simp add: rev_map [symmetric] sum_list_rev)

termination variance_worklist
  by (relation "measure (\<lambda>(_, _, pending). sum_list (map weight pending))")
    (use sum_children_pending in \<open>auto simp del: map_append\<close>)

definition incompatible_parameter ::
  "type_descriptor \<Rightarrow> int \<Rightarrow> compiled_type_parameter list \<Rightarrow>
   (atom \<Rightarrow> nat \<Rightarrow> variance option) \<Rightarrow> compiled_type_parameter option" where
  "incompatible_parameter d polarity parameters named_variance =
     variance_worklist named_variance parameters [(d, polarity)]"

section \<open>Occurrences\<close>

text \<open>
  The specification does not walk and knows no polarities: which types stand directly in a type, and how the
  type varies in each of them.
\<close>

inductive component ::
  "(atom \<Rightarrow> nat \<Rightarrow> variance option) \<Rightarrow> type_descriptor \<Rightarrow> variance \<Rightarrow> type_descriptor \<Rightarrow> bool" for nv where
  argument: "i < length arguments \<Longrightarrow> nv name i = Some v \<Longrightarrow>
    component nv (NamedT name (Some arguments) recursive) v (arguments ! i)"
| array_key: "component nv (ArrayT (Some (k, e))) Covariant k"
| array_value: "component nv (ArrayT (Some (k, e))) Covariant e"
| dictionary_key: "component nv (DictionaryT (Some (k, e))) Covariant k"
| dictionary_value: "component nv (DictionaryT (Some (k, e))) Covariant e"
| element: "component nv (VectorT (Some e)) Covariant e"
| vector_shape: "e \<in> set elements \<Longrightarrow> component nv (VectorShapeT elements rest) Covariant e"
| vector_rest: "component nv (VectorShapeT elements (Some e)) Covariant e"
| object_field: "(field, e) \<in> set entries \<Longrightarrow> component nv (ObjectShapeT entries opn) Covariant e"
| shape_field: "(field, e) \<in> set entries \<Longrightarrow> component nv (DictionaryShapeT entries rest) Covariant e"
| shape_rest_key: "component nv (DictionaryShapeT entries (Some (k, e))) Covariant k"
| shape_rest_value: "component nv (DictionaryShapeT entries (Some (k, e))) Covariant e"
| result: "component nv (CallableT (Some (FunctionTypeDescriptor ps r))) Covariant r"
| parameter: "FunctionTypeParameter e flag \<in> set ps \<Longrightarrow>
    component nv (CallableT (Some (FunctionTypeDescriptor ps r))) Contravariant e"
| class_name: "component nv (ClassnameT e) Covariant e"
| negated: "component nv (NegatedT e) Contravariant e"
| tuple_head: "e \<in> set elements \<Longrightarrow> component nv (TupleRestT elements rest) Covariant e"
| tuple_tail: "component nv (TupleRestT elements e) Covariant e"
| tuple: "e \<in> set members \<Longrightarrow> component nv (TupleT members) Covariant e"
| union: "e \<in> set members \<Longrightarrow> component nv (UnionT members) Covariant e"
| intersection: "e \<in> set members \<Longrightarrow> component nv (IntersectionT members) Covariant e"

text \<open>Variances compose: two reversals cancel, and invariance stays.\<close>

fun under :: "variance \<Rightarrow> variance \<Rightarrow> variance" where
  "under Covariant v = v"
| "under Invariant v = Invariant"
| "under Contravariant Covariant = Contravariant"
| "under Contravariant Contravariant = Covariant"
| "under Contravariant Invariant = Invariant"

inductive occurs ::
  "(atom \<Rightarrow> nat \<Rightarrow> variance option) \<Rightarrow> type_descriptor \<Rightarrow> atom \<Rightarrow> variance \<Rightarrow> bool" for nv where
  here: "occurs nv (ParameterT name) name Covariant"
| below: "component nv d v d' \<Longrightarrow> occurs nv d' name w \<Longrightarrow> occurs nv d name (under v w)"

inductive_cases occurs_elim: "occurs nv d name w"

text \<open>
  A parameter is used against its declaration: some occurrence in a type that itself stands in a position of
  variance \<open>v\<close> is neither free nor as declared.
\<close>

definition misused ::
  "(atom \<Rightarrow> nat \<Rightarrow> variance option) \<Rightarrow> compiled_type_parameter list \<Rightarrow> type_descriptor \<Rightarrow> variance \<Rightarrow>
   compiled_type_parameter \<Rightarrow> bool" where
  "misused nv parameters d v p \<longleftrightarrow>
     (\<exists>name w. occurs nv d name w \<and> find (\<lambda>p. type_parameter_name p = name) parameters = Some p \<and>
        type_parameter_variance p \<noteq> Invariant \<and> type_parameter_variance p \<noteq> under v w)"

text \<open>The polarity a caller passes for a position.\<close>

fun polarity_of :: "variance \<Rightarrow> int" where
  "polarity_of Covariant = 1"
| "polarity_of Contravariant = - 1"
| "polarity_of Invariant = 0"

lemma under_assoc: "under (under u v) w = under u (under v w)"
  by (cases u; cases v; cases w) simp_all

lemma under_Covariant [simp]: "under v Covariant = v"
  by (cases v) simp_all

lemma under_commute: "under v w = under w v"
  by (cases v; cases w) simp_all

lemma polarity_of_under: "nested_polarity w (polarity_of v) = polarity_of (under v w)"
  by (cases v; cases w) simp_all

lemma polarity_of_reversed: "- polarity_of v = polarity_of (under v Contravariant)"
  by (cases v) simp_all

lemma valid_position_iff:
  "valid_position declared (polarity_of v) \<longleftrightarrow> declared = Invariant \<or> declared = v"
  by (cases declared; cases v) (simp_all add: valid_position_def)

text \<open>What the walk pushes are the components, with the polarities of their variances.\<close>

lemma argument_children:
  "(d', q) \<in> set (concat (map (\<lambda>(index, argument).
      case f index of None \<Rightarrow> [] | Some v \<Rightarrow> [(argument, nested_polarity v position)]) (enumerate_from n ds))) \<longleftrightarrow>
   (\<exists>i v. i < length ds \<and> f (n + i) = Some v \<and> d' = ds ! i \<and> q = nested_polarity v position)"
  by (auto simp: set_enumerate_from split: option.splits) (metis option.inject)+

lemma variance_children_components:
  "(d', q) \<in> set (variance_children nv d (polarity_of v)) \<longleftrightarrow>
     (\<exists>w. component nv d w d' \<and> q = polarity_of (under v w))" (is "?L \<longleftrightarrow> ?R")
proof
  assume ?L
  then show ?R
  proof (cases d)
    case (NamedT name arguments recursive)
    with \<open>?L\<close> show ?thesis
      by (cases arguments) (auto simp: variance_children_def argument_children polarity_of_under simp del: set_concat
          intro: component.argument)
  next
    case (CallableT signature)
    with \<open>?L\<close> show ?thesis
      by (force simp: variance_children_def polarity_of_reversed intro: component.intros
          split: option.splits function_type_descriptor.splits function_type_parameter.splits)
  qed (force simp: variance_children_def polarity_of_reversed intro: component.intros split: option.splits)+
next
  assume ?R
  then obtain w where w: "component nv d w d'" "q = polarity_of (under v w)" by blast
  from w(1) show ?L
  proof cases
    case (argument i arguments name recursive)
    then show ?thesis using w(2)
      by (auto simp: variance_children_def argument_children polarity_of_under simp del: set_concat)
  qed (force simp: variance_children_def w(2) polarity_of_reversed)+
qed

lemma parameter_of_Some: "parameter_of d = Some name \<longleftrightarrow> d = ParameterT name"
  by (auto simp: parameter_of_def split: type_descriptor.splits)

lemma misused_Parameter:
  "misused nv ps (ParameterT name) v p \<longleftrightarrow>
     find (\<lambda>p. type_parameter_name p = name) ps = Some p \<and>
     \<not> valid_position (type_parameter_variance p) (polarity_of v)"
proof -
  have "\<not> component nv (ParameterT name) u d'" for u d' by (auto elim: component.cases)
  then have "occurs nv (ParameterT name) n w \<longleftrightarrow> n = name \<and> w = Covariant" for n w
    by (auto intro: occurs.here elim: occurs_elim)
  then show ?thesis by (auto simp: misused_def valid_position_iff)
qed

lemma misused_below:
  assumes "parameter_of d = None"
  shows "misused nv ps d v p \<longleftrightarrow>
    (\<exists>d' u. (d', polarity_of u) \<in> set (variance_children nv d (polarity_of v)) \<and> misused nv ps d' u p)"
proof -
  have occurs: "occurs nv d name x \<longleftrightarrow> (\<exists>w d' y. component nv d w d' \<and> occurs nv d' name y \<and> x = under w y)" for name x
  proof
    assume "occurs nv d name x"
    then show "\<exists>w d' y. component nv d w d' \<and> occurs nv d' name y \<and> x = under w y"
      by (cases rule: occurs.cases) (use assms in \<open>auto simp: parameter_of_def\<close>)
  qed (auto intro: occurs.below)
  have "misused nv ps d v p \<longleftrightarrow> (\<exists>d' w. component nv d w d' \<and> misused nv ps d' (under v w) p)"
    unfolding misused_def occurs under_assoc by blast
  moreover have "polarity_of u = polarity_of u' \<longleftrightarrow> u = u'" for u u' by (cases u; cases u') simp_all
  ultimately show ?thesis unfolding variance_children_components by auto
qed

lemma worklist_spec:
  assumes "\<forall>(d, q)\<in>set pending. q \<in> range polarity_of"
  shows "case variance_worklist nv ps pending of
     None \<Rightarrow> \<forall>d v p. (d, polarity_of v) \<in> set pending \<longrightarrow> \<not> misused nv ps d v p
   | Some p \<Rightarrow> \<exists>d v. (d, polarity_of v) \<in> set pending \<and> misused nv ps d v p"
  using assms
proof (induction nv ps pending rule: variance_worklist.induct)
  case (2 nv ps d position pending)
  then obtain v where v: "position = polarity_of v" by auto
  have inj: "polarity_of u = polarity_of v \<longleftrightarrow> u = v" for u by (cases u; cases v) simp_all
  show ?case
  proof (cases "parameter_of d")
    case None
    have "\<forall>(d, q)\<in>set (rev (variance_children nv d position) @ pending). q \<in> range polarity_of"
      using "2.prems" by (auto simp: v variance_children_components)
    from "2.IH"(1) [OF None this] misused_below [OF None, of nv ps v] inj show ?thesis
      unfolding variance_worklist.simps None option.case v by (auto split: option.splits) blast+
  next
    case (Some name)
    then have d: "d = ParameterT name" by (simp add: parameter_of_Some)
    have rest: "\<forall>(d, q)\<in>set pending. q \<in> range polarity_of" using "2.prems" by auto
    show ?thesis
    proof (cases "find (\<lambda>p. type_parameter_name p = name) ps")
      case None
      with "2.IH"(2) [OF Some None rest] Some inj show ?thesis
        by (auto simp: d v misused_Parameter split: option.splits)
    next
      case found: (Some p)
      show ?thesis
      proof (cases "valid_position (type_parameter_variance p) position")
        case True
        with "2.IH"(3) [OF Some found True rest] Some found inj show ?thesis
          by (auto simp: d v misused_Parameter split: option.splits)
      next
        case False
        with found have "misused nv ps d v p" by (simp add: d v misused_Parameter)
        with False Some found show ?thesis by (auto simp: v)
      qed
    qed
  qed
qed simp

section \<open>Properties\<close>

text \<open>C19. The variance check of a type that stands in a position of a given variance: the worklist ends,
  it reports a parameter exactly when some occurrence of a declared parameter is used against its
  declaration, and the parameter it reports is one of those. How a type varies in its parts is stated apart
  from the walk, one rule for each form of type, and variances compose along the nesting.\<close>

theorem incompatible_parameter_exact:
  "case incompatible_parameter d (polarity_of v) parameters named_variance of
     None \<Rightarrow> \<not> (\<exists>p. misused named_variance parameters d v p)
   | Some p \<Rightarrow> misused named_variance parameters d v p"
proof -
  have inj: "polarity_of u = polarity_of v \<longleftrightarrow> u = v" for u by (cases u; cases v) simp_all
  show ?thesis
    using worklist_spec [where pending = "[(d, polarity_of v)]" and nv = named_variance and ps = parameters]
    by (auto simp: incompatible_parameter_def inj simp del: variance_worklist.simps split: option.splits)
qed

end
