(* ===== verification/Whim_Registers.thy ===== *)
theory Whim_Registers
  imports Whim_Verify
begin

unbundle bit_operations_syntax

text \<open>
  The ownership metadata for fast frame teardown (\<^verbatim>\<open>crates/bytecode/src/reference_registers.rs\<close> and
  \<^verbatim>\<open>refresh_runtime_metadata\<close> of \<^verbatim>\<open>chunk/mod.rs\<close>): a bit mask of the registers that may own a
  reference-counted value, closed under owning moves by iteration to a fixed point. \<open>may_own\<close> is the
  specification, the least set of such registers. Shifting by 64 or more is a panic.
\<close>

section \<open>The mask\<close>

definition REFERENCE_REGISTER_LIMIT :: u16 where
  "REFERENCE_REGISTER_LIMIT = 64"

definition register_bit :: "register \<Rightarrow> panic + u64" where
  "register_bit r = (if unat r < 64 then Inr (push_bit (unat r) 1) else Inl ShiftOverflow)"

definition set_register :: "register \<Rightarrow> u64 \<Rightarrow> panic + u64" where
  "set_register r m = result_map (\<lambda>b. m OR b) (register_bit r)"

fun set_registers :: "register list \<Rightarrow> u64 \<Rightarrow> panic + u64" where
  "set_registers [] m = Inr m"
| "set_registers (r # rs) m = result_bind (set_register r m) (set_registers rs)"

text \<open>
  The registers an instruction may leave an owned reference in, family by family; an instruction
  whose result the caller classifies counts where the classification \<open>classify\<close> says so.
\<close>

definition load_owned :: "chunk \<Rightarrow> load_instruction \<Rightarrow> panic + register list" where
  "load_owned c i =
     (case i of
        LoadConstant destination constant \<Rightarrow>
          result_map (\<lambda>l. if is_string_literal l then [destination] else [])
            (table_entry (constants c) constant)
      | Move destination _ \<Rightarrow> Inr [destination]
      | ConstantGet destination _ \<Rightarrow> Inr [destination]
      | ClassConstantGet destination _ \<Rightarrow> Inr [destination]
      | _ \<Rightarrow> Inr [])"

definition compare_owned :: "compare_instruction \<Rightarrow> register list" where
  "compare_owned i =
     (case i of
        Concatenate destination _ _ \<Rightarrow> [destination]
      | ConcatenateRightConstant destination _ _ \<Rightarrow> [destination]
      | ConcatenateLeftConstant destination _ _ \<Rightarrow> [destination]
      | _ \<Rightarrow> [])"

definition string_owned :: "string_instruction \<Rightarrow> register list" where
  "string_owned i =
     (case i of
        StringIndexGetOrNull destination _ _ \<Rightarrow> [destination]
      | StringIndexCoalesce destination _ _ _ \<Rightarrow> [destination]
      | _ \<Rightarrow> [])"

definition array_owned :: "array_instruction \<Rightarrow> register list" where
  "array_owned i =
     (let generic = (\<lambda>mode r. if mode = GenericValue then [r] else [])
      in case i of
        IndexGetOrNull destination _ _ \<Rightarrow> [destination]
      | VecIndexGetOrNull destination _ _ \<Rightarrow> [destination]
      | DictIndexGetIntegerKeyOrNull destination _ _ _ \<Rightarrow> [destination]
      | DictIndexGetStringKeyOrNull destination _ _ \<Rightarrow> [destination]
      | IndexCoalesce destination _ _ _ \<Rightarrow> [destination]
      | VecIndexCoalesce destination _ _ _ \<Rightarrow> [destination]
      | DictIndexCoalesceIntKey destination _ _ _ \<Rightarrow> [destination]
      | DictIndexCoalesceUintKey destination _ _ _ \<Rightarrow> [destination]
      | DictIndexCoalesceStringKey destination _ _ _ \<Rightarrow> [destination]
      | NewArray _ destination _ _ \<Rightarrow> [destination]
      | NewFilledVec destination _ _ \<Rightarrow> [destination]
      | IndexGet destination _ _ \<Rightarrow> [destination]
      | IndexGetPath _ destination _ _ \<Rightarrow> [destination]
      | ElementGet destination _ _ \<Rightarrow> [destination]
      | DictIndexGetStringKey destination _ _ _ \<Rightarrow> [destination]
      | VecIndexGet destination _ _ mode \<Rightarrow> generic mode destination
      | DictIndexGetIntKey destination _ _ mode \<Rightarrow> generic mode destination
      | DictIndexGetUintKey destination _ _ mode \<Rightarrow> generic mode destination
      | ReserveArray _ _ \<Rightarrow> []
      | Length _ _ \<Rightarrow> [])"

definition update_owned :: "update_instruction \<Rightarrow> register list" where
  "update_owned i =
     (let key = (\<lambda>r. if r \<noteq> register_NONE then [r] else []);
          generic = (\<lambda>mode r. if mode = GenericValue then [r] else [])
      in case i of
        Rest destination _ _ \<Rightarrow> [destination]
      | Remove destination _ _ \<Rightarrow> [destination]
      | SwapRemove destination _ _ \<Rightarrow> [destination]
      | RemoveFirst destination _ \<Rightarrow> [destination]
      | RemoveLast destination _ \<Rightarrow> [destination]
      | ForeachInit iterator _ _ \<Rightarrow> [iterator]
      | ForeachNext _ key_destination value_destination \<Rightarrow> key key_destination @ [value_destination]
      | VecForeachNext _ key_destination value_destination mode \<Rightarrow>
          key key_destination @ generic mode value_destination
      | DictForeachNext _ key_destination value_destination mode \<Rightarrow>
          key key_destination @ generic mode value_destination
      | _ \<Rightarrow> [])"

definition object_owned :: "(instruction \<Rightarrow> bool) \<Rightarrow> object_instruction \<Rightarrow> register list" where
  "object_owned classify i =
     (case i of
        PropertyGetOrNull destination _ _ \<Rightarrow> [destination]
      | PropertyGetOrNullUnchecked destination _ _ \<Rightarrow> [destination]
      | StaticPropertyGetOrNull destination _ \<Rightarrow> [destination]
      | PropertyCoalesce destination _ _ _ \<Rightarrow> [destination]
      | PropertyCoalesceUnchecked destination _ _ _ \<Rightarrow> [destination]
      | StaticPropertyCoalesce destination _ _ \<Rightarrow> [destination]
      | PropertyRemove _ destination _ _ \<Rightarrow> [destination]
      | PropertyRemoveUnchecked _ destination _ _ \<Rightarrow> [destination]
      | NewStatic destination _ \<Rightarrow> [destination]
      | InitializeProperties object _ _ \<Rightarrow> [object]
      | NewDynamic destination _ \<Rightarrow> [destination]
      | NewTyped destination _ \<Rightarrow> [destination]
      | PropertyGet destination _ _ \<Rightarrow> [destination]
      | CloneObject destination _ \<Rightarrow> [destination]
      | StaticPropertyGet destination _ \<Rightarrow> [destination]
      | PropertyGetUnchecked destination _ _ _ \<Rightarrow> if classify (ObjectOp i) then [destination] else []
      | _ \<Rightarrow> [])"

definition call_owned :: "(instruction \<Rightarrow> bool) \<Rightarrow> call_instruction \<Rightarrow> register list" where
  "call_owned classify i =
     (let classified = (\<lambda>r. if classify (CallOp i) then [r] else [])
      in case i of
        CallValue _ destination _ _ \<Rightarrow> [destination]
      | CallValueUnchecked _ destination _ _ \<Rightarrow> [destination]
      | CallValueDiscarded _ destination _ _ \<Rightarrow> [destination]
      | CallNamed _ destination _ _ \<Rightarrow> [destination]
      | CallNamedDiscarded _ destination _ _ \<Rightarrow> [destination]
      | CallMethod _ destination _ _ \<Rightarrow> [destination]
      | CallMethodDiscarded _ destination _ _ \<Rightarrow> [destination]
      | CallMethodUnchecked _ destination _ _ \<Rightarrow> [destination]
      | CallMethodDirect _ destination _ _ \<Rightarrow> [destination]
      | CallStatic _ destination _ _ \<Rightarrow> [destination]
      | CallStaticDiscarded _ destination _ _ \<Rightarrow> [destination]
      | CallWithNames destination _ _ \<Rightarrow> [destination]
      | CallWithNamesDiscarded destination _ _ \<Rightarrow> [destination]
      | MakeClosure _ destination _ _ \<Rightarrow> [destination]
      | MakeBound destination _ _ \<Rightarrow> [destination]
      | CallNamedUnchecked _ destination _ _ \<Rightarrow> classified destination
      | CallNamedDirect _ destination _ _ \<Rightarrow> classified destination
      | CallNamedConstantUnchecked destination _ _ _ \<Rightarrow> classified destination
      | CallSelfUnchecked _ destination _ \<Rightarrow> classified destination
      | CheckDiscardedResult _ \<Rightarrow> [])"

definition check_owned :: "check_instruction \<Rightarrow> register list" where
  "check_owned i =
     (case i of
        AsCheck destination _ _ _ \<Rightarrow> [destination]
      | AsOrNull destination _ _ \<Rightarrow> [destination]
      | Require _ destination _ \<Rightarrow> [destination]
      | _ \<Rightarrow> [])"

definition owned_destinations ::
  "(instruction \<Rightarrow> bool) \<Rightarrow> chunk \<Rightarrow> instruction \<Rightarrow> panic + register list" where
  "owned_destinations classify c ins =
     (case ins of
        Load i \<Rightarrow> load_owned c i
      | CompareOp i \<Rightarrow> Inr (compare_owned i)
      | StringOp i \<Rightarrow> Inr (string_owned i)
      | Branch (Coalesce destination _ _) \<Rightarrow> Inr [destination]
      | ArrayOp i \<Rightarrow> Inr (array_owned i)
      | ArrayUpdate i \<Rightarrow> Inr (update_owned i)
      | ObjectOp i \<Rightarrow> Inr (object_owned classify i)
      | CallOp i \<Rightarrow> Inr (call_owned classify i)
      | CheckOp i \<Rightarrow> Inr (check_owned i)
      | _ \<Rightarrow> Inr [])"

fun mark_bindings :: "catch_entry list \<Rightarrow> u64 \<Rightarrow> panic + u64" where
  "mark_bindings [] m = Inr m"
| "mark_bindings (e # es) m =
     result_bind (case binding e of None \<Rightarrow> Inr m | Some r \<Rightarrow> set_register r m) (mark_bindings es)"

fun mark_destinations :: "(instruction \<Rightarrow> bool) \<Rightarrow> chunk \<Rightarrow> instruction list \<Rightarrow> u64 \<Rightarrow> panic + u64" where
  "mark_destinations classify c [] m = Inr m"
| "mark_destinations classify c (ins # rest) m =
     result_bind (owned_destinations classify c ins) (\<lambda>rs.
     result_bind (set_registers rs m) (mark_destinations classify c rest))"

definition owned_move :: "instruction \<Rightarrow> (register \<times> register) option" where
  "owned_move ins = (case ins of Load (MoveOwned destination source) \<Rightarrow> Some (destination, source) | _ \<Rightarrow> None)"

definition receives :: "chunk \<Rightarrow> u16 \<Rightarrow> register \<Rightarrow> bool" where
  "receives c incoming s \<longleftrightarrow> s < incoming \<or> s \<in> set (trace_argument_registers c)"

text \<open>The bit of the source is only looked at where the first two tests fail.\<close>

definition source_owned :: "chunk \<Rightarrow> u16 \<Rightarrow> register \<Rightarrow> u64 \<Rightarrow> panic + bool" where
  "source_owned c incoming source m =
     (if receives c incoming source then Inr True
      else result_map (\<lambda>b. m AND b \<noteq> 0) (register_bit source))"

fun move_pass :: "chunk \<Rightarrow> u16 \<Rightarrow> instruction list \<Rightarrow> u64 \<Rightarrow> panic + u64" where
  "move_pass c incoming [] m = Inr m"
| "move_pass c incoming (ins # rest) m =
     (case owned_move ins of
        None \<Rightarrow> move_pass c incoming rest m
      | Some (destination, source) \<Rightarrow>
          result_bind (source_owned c incoming source m) (\<lambda>owned.
          if owned then result_bind (set_register destination m) (move_pass c incoming rest)
          else move_pass c incoming rest m))"

subsection \<open>Bits of the mask\<close>

lemma set_register_Inr:
  "set_register r m = Inr m' \<longleftrightarrow> unat r < 64 \<and> m' = m OR push_bit (unat r) 1"
  by (auto simp: set_register_def register_bit_def)

lemma set_register_bit:
  assumes "set_register r m = Inr m'"
  shows "bit m' i \<longleftrightarrow> bit m i \<or> i = unat r"
  using assms by (auto simp: set_register_Inr bit_simps)

lemma and_push_one: "unat r < 64 \<Longrightarrow> m AND push_bit (unat r) 1 \<noteq> (0 :: u64) \<longleftrightarrow> bit m (unat r)"
proof -
  assume "unat r < 64"
  then have "bit (m AND push_bit (unat r) 1) i \<longleftrightarrow> bit m (unat r) \<and> i = unat r" for i
    by (auto simp: bit_simps)
  moreover have "x \<noteq> 0 \<longleftrightarrow> (\<exists>i. bit x i)" for x :: u64
    using bit_eq_iff [of x 0] by (auto dest: bit_imp_le_length)
  ultimately show ?thesis by simp
qed

lemma bits_le: "(\<And>i. bit m i \<Longrightarrow> bit m' i) \<Longrightarrow> m \<le> (m' :: u64)"
proof -
  assume "\<And>i. bit m i \<Longrightarrow> bit m' i"
  then have "m OR m' = m'" by (auto intro!: bit_word_eqI simp: bit_or_iff)
  then show ?thesis using le_word_or2 [of m m'] by simp
qed

lemma move_pass_grows:
  "move_pass c incoming code' m = Inr m' \<Longrightarrow> bit m i \<Longrightarrow> bit m' i"
proof (induction code' arbitrary: m)
  case (Cons ins rest)
  from Cons.prems Cons.IH show ?case
    by (auto split: option.splits if_splits simp: set_register_bit)
qed simp

function close_moves :: "chunk \<Rightarrow> u16 \<Rightarrow> u64 \<Rightarrow> panic + u64" where
  "close_moves c incoming m =
     (case move_pass c incoming (code c) m of
        Inl p \<Rightarrow> Inl p
      | Inr m' \<Rightarrow> if m' = m then Inr m' else close_moves c incoming m')"
  by pat_completeness auto
termination
proof (relation "measure (\<lambda>(_, _, m). 2 ^ 64 - unat m)")
  fix c incoming m m'
  assume "move_pass c incoming (code c) m = Inr m'" "m' \<noteq> m"
  then have "m < m'" using bits_le [of m m'] move_pass_grows by fastforce
  then have "unat m < unat m'" by (simp add: word_less_nat_alt)
  moreover have "unat m' < 2 ^ 64" using unsigned_less [of m'] by simp
  ultimately show "((c, incoming, m'), c, incoming, m) \<in> measure (\<lambda>(_, _, m). 2 ^ 64 - unat m)"
    by simp
qed simp

declare close_moves.simps [simp del]

definition mask_with_classification ::
  "chunk \<Rightarrow> u16 \<Rightarrow> (instruction \<Rightarrow> bool) \<Rightarrow> panic + u64" where
  "mask_with_classification c incoming classify =
     (if register_count c > REFERENCE_REGISTER_LIMIT then Inr (- 1)
      else result_bind (mark_bindings (catch_table c) 0) (\<lambda>m.
           result_bind (mark_destinations classify c (code c) m) (\<lambda>m.
           close_moves c incoming m)))"




section \<open>The mask is the least set of owning registers\<close>

inductive may_own :: "(instruction \<Rightarrow> bool) \<Rightarrow> chunk \<Rightarrow> u16 \<Rightarrow> nat \<Rightarrow> bool" for classify c incoming where
  bound: "e \<in> set (catch_table c) \<Longrightarrow> binding e = Some r \<Longrightarrow> may_own classify c incoming (unat r)"
| result: "ins \<in> set (code c) \<Longrightarrow> owned_destinations classify c ins = Inr rs \<Longrightarrow> r \<in> set rs \<Longrightarrow>
    may_own classify c incoming (unat r)"
| received: "ins \<in> set (code c) \<Longrightarrow> owned_move ins = Some (d, s) \<Longrightarrow>
    receives c incoming s \<Longrightarrow> may_own classify c incoming (unat d)"
| moved: "ins \<in> set (code c) \<Longrightarrow> owned_move ins = Some (d, s) \<Longrightarrow>
    may_own classify c incoming (unat s) \<Longrightarrow> may_own classify c incoming (unat d)"

text \<open>What the computation needs of the chunk; a verified narrow chunk has it.\<close>

definition narrow :: "(instruction \<Rightarrow> bool) \<Rightarrow> chunk \<Rightarrow> bool" where
  "narrow classify c \<longleftrightarrow>
     (\<forall>e\<in>set (catch_table c). \<forall>r. binding e = Some r \<longrightarrow> unat r < 64) \<and>
     (\<forall>ins\<in>set (code c). \<exists>rs. owned_destinations classify c ins = Inr rs \<and> (\<forall>r\<in>set rs. unat r < 64)) \<and>
     (\<forall>ins\<in>set (code c). \<forall>d s. owned_move ins = Some (d, s) \<longrightarrow> unat d < 64 \<and> unat s < 64)"

lemma mark_bindings_spec:
  assumes "\<forall>e\<in>set es. \<forall>r. binding e = Some r \<longrightarrow> unat r < 64"
  shows "\<exists>m'. mark_bindings es m = Inr m' \<and>
    (\<forall>i. bit m' i \<longleftrightarrow> bit m i \<or> (\<exists>e\<in>set es. \<exists>r. binding e = Some r \<and> i = unat r))"
  using assms
proof (induction es arbitrary: m)
  case (Cons e es)
  show ?case
  proof (cases "binding e")
    case None
    with Cons.IH [of m] Cons.prems show ?thesis by auto
  next
    case (Some r)
    then obtain m1 where m1: "set_register r m = Inr m1"
      using Cons.prems by (auto simp: set_register_Inr)
    with Cons.IH [of m1] Cons.prems Some show ?thesis by (auto simp: set_register_bit [OF m1])
  qed
qed simp

lemma set_registers_spec:
  assumes "\<forall>r\<in>set rs. unat r < 64"
  shows "\<exists>m'. set_registers rs m = Inr m' \<and> (\<forall>i. bit m' i \<longleftrightarrow> bit m i \<or> i \<in> unat ` set rs)"
  using assms
proof (induction rs arbitrary: m)
  case (Cons r rs)
  then obtain m1 where m1: "set_register r m = Inr m1" by (auto simp: set_register_Inr)
  with Cons.IH [of m1] Cons.prems show ?case by (auto simp: set_register_bit [OF m1])
qed simp

lemma mark_destinations_spec:
  assumes "\<forall>ins\<in>set code'. \<exists>rs. owned_destinations classify c ins = Inr rs \<and> (\<forall>r\<in>set rs. unat r < 64)"
  shows "\<exists>m'. mark_destinations classify c code' m = Inr m' \<and>
    (\<forall>i. bit m' i \<longleftrightarrow> bit m i \<or>
      (\<exists>ins\<in>set code'. \<exists>rs. owned_destinations classify c ins = Inr rs \<and> i \<in> unat ` set rs))"
  using assms
proof (induction code' arbitrary: m)
  case (Cons ins rest)
  then obtain rs where rs: "owned_destinations classify c ins = Inr rs" "\<forall>r\<in>set rs. unat r < 64"
    by auto
  obtain m1 where m1: "set_registers rs m = Inr m1" "\<forall>i. bit m1 i \<longleftrightarrow> bit m i \<or> i \<in> unat ` set rs"
    using set_registers_spec [OF rs(2)] by blast
  with Cons.IH [of m1] Cons.prems rs(1) show ?case by auto
qed simp

lemma mask_antisym: "(\<And>i. bit m i \<Longrightarrow> bit m' i) \<Longrightarrow> (\<And>i. bit m' i \<Longrightarrow> bit m i) \<Longrightarrow> m = (m' :: u64)"
  by (rule bit_word_eqI) blast

lemma move_pass_sound:
  assumes "\<And>ins d s. ins \<in> set code' \<Longrightarrow> owned_move ins = Some (d, s) \<Longrightarrow> unat d < 64 \<and> unat s < 64"
    and "\<And>ins d s. ins \<in> set code' \<Longrightarrow> owned_move ins = Some (d, s) \<Longrightarrow>
      receives c incoming s \<or> P (unat s) \<Longrightarrow> P (unat d)"
    and "\<And>i. bit m i \<Longrightarrow> P i"
  shows "\<exists>m'. move_pass c incoming code' m = Inr m' \<and> (\<forall>i. bit m' i \<longrightarrow> P i)"
  using assms
proof (induction code' arbitrary: m)
  case (Cons ins rest)
  have rest: "\<exists>m'. move_pass c incoming rest m1 = Inr m' \<and> (\<forall>i. bit m' i \<longrightarrow> P i)"
    if "\<And>i. bit m1 i \<Longrightarrow> P i" for m1
    by (rule Cons.IH [OF Cons.prems(1,2) that]) simp_all
  show ?case
  proof (cases "owned_move ins")
    case None
    then show ?thesis using rest Cons.prems(3) by simp
  next
    case (Some ds)
    obtain d s where ds: "ds = (d, s)" by (cases ds)
    have lt: "unat d < 64" "unat s < 64" using Cons.prems(1) [of ins d s] Some ds by auto
    have so: "source_owned c incoming s m = Inr (receives c incoming s \<or> bit m (unat s))"
      using lt(2) and_push_one [OF lt(2), of m] by (auto simp: source_owned_def register_bit_def)
    show ?thesis
    proof (cases "receives c incoming s \<or> bit m (unat s)")
      case False
      with Some ds so rest Cons.prems(3) show ?thesis by simp
    next
      case True
      obtain m1 where m1: "set_register d m = Inr m1" using lt(1) by (simp add: set_register_Inr)
      have "P (unat d)" using Cons.prems(2) [of ins d s] Cons.prems(3) True Some ds by auto
      then have "bit m1 i \<Longrightarrow> P i" for i using Cons.prems(3) by (auto simp: set_register_bit [OF m1])
      from rest [OF this] True Some ds so m1 show ?thesis by simp
    qed
  qed
qed simp

lemma move_pass_closed:
  assumes "move_pass c incoming code' m = Inr m" "ins \<in> set code'" "owned_move ins = Some (d, s)"
    and "unat s < 64" "receives c incoming s \<or> bit m (unat s)"
  shows "bit m (unat d)"
  using assms(1,2)
proof (induction code')
  case (Cons x rest)
  have same: "m1 = m" if "move_pass c incoming rest m1 = Inr m" "\<And>i. bit m i \<Longrightarrow> bit m1 i" for m1
    using that move_pass_grows [OF that(1)] by (intro mask_antisym) auto
  show ?case
  proof (cases "owned_move x")
    case None
    with Cons.prems assms(3) show ?thesis by (auto intro: Cons.IH)
  next
    case (Some ds)
    obtain d' s' where ds: "ds = (d', s')" by (cases ds)
    from Cons.prems(1) Some ds obtain owned where owned: "source_owned c incoming s' m = Inr owned"
      and rest: "if owned then \<exists>m1. set_register d' m = Inr m1 \<and> move_pass c incoming rest m1 = Inr m
        else move_pass c incoming rest m = Inr m"
      by (auto split: if_splits)
    have tail: "move_pass c incoming rest m = Inr m \<and> (owned \<longrightarrow> bit m (unat d'))"
    proof (cases owned)
      case True
      with rest obtain m1 where m1: "set_register d' m = Inr m1" "move_pass c incoming rest m1 = Inr m"
        by auto
      have "m1 = m" by (rule same [OF m1(2)]) (simp add: set_register_bit [OF m1(1)])
      moreover have "bit m1 (unat d')" by (simp add: set_register_bit [OF m1(1)])
      ultimately show ?thesis using m1(2) by simp
    next
      case False
      with rest show ?thesis by simp
    qed
    show ?thesis
    proof (cases "ins = x")
      case True
      then have "s' = s" "d' = d" using Some ds assms(3) \<open>ins = x\<close> by auto
      with owned assms(4,5) and_push_one [OF assms(4), of m] have owned
        by (auto simp: source_owned_def register_bit_def split: if_splits)
      with tail \<open>d' = d\<close> show ?thesis by simp
    next
      case False
      with Cons.prems(2) tail show ?thesis by (auto intro: Cons.IH)
    qed
  qed
qed simp

lemma close_moves_spec:
  assumes "narrow classify c" "\<And>i. bit m i \<Longrightarrow> may_own classify c incoming i"
  shows "\<exists>m'. close_moves c incoming m = Inr m' \<and> (\<forall>i. bit m i \<longrightarrow> bit m' i) \<and>
    (\<forall>i. bit m' i \<longrightarrow> may_own classify c incoming i) \<and> move_pass c incoming (code c) m' = Inr m'"
  using assms
proof (induction c incoming m rule: close_moves.induct)
  case (1 c incoming m)
  have "\<exists>m'. move_pass c incoming (code c) m = Inr m' \<and> (\<forall>i. bit m' i \<longrightarrow> may_own classify c incoming i)"
    by (rule move_pass_sound)
      (use "1.prems" in \<open>auto simp: narrow_def intro: may_own.received may_own.moved\<close>)
  then obtain m' where m': "move_pass c incoming (code c) m = Inr m'"
    "\<And>i. bit m' i \<Longrightarrow> may_own classify c incoming i" by blast
  show ?case
  proof (cases "m' = m")
    case True
    with m' show ?thesis by (auto simp: close_moves.simps [of c incoming m])
  next
    case False
    from "1.IH" [OF m'(1) False "1.prems"(1) m'(2)] obtain m2 where
      "close_moves c incoming m' = Inr m2" "\<forall>i. bit m' i \<longrightarrow> bit m2 i"
      "\<forall>i. bit m2 i \<longrightarrow> may_own classify c incoming i" "move_pass c incoming (code c) m2 = Inr m2" by auto
    with False m'(1) move_pass_grows [OF m'(1)] show ?thesis
      by (auto simp: close_moves.simps [of c incoming m])
  qed
qed

lemma mask_spec:
  assumes n: "narrow classify c" and w: "register_count c \<le> REFERENCE_REGISTER_LIMIT"
  shows "\<exists>m. mask_with_classification c incoming classify = Inr m \<and>
    (\<forall>i. bit m i \<longleftrightarrow> may_own classify c incoming i)"
proof -
  obtain m1 where m1: "mark_bindings (catch_table c) 0 = Inr m1"
    "\<And>i. bit m1 i \<longleftrightarrow> (\<exists>e\<in>set (catch_table c). \<exists>r. binding e = Some r \<and> i = unat r)"
    using mark_bindings_spec [of "catch_table c" 0] n by (auto simp: narrow_def)
  obtain m2 where m2: "mark_destinations classify c (code c) m1 = Inr m2"
    "\<And>i. bit m2 i \<longleftrightarrow> bit m1 i \<or>
      (\<exists>ins\<in>set (code c). \<exists>rs. owned_destinations classify c ins = Inr rs \<and> i \<in> unat ` set rs)"
    using mark_destinations_spec [of "code c" classify c m1] n by (auto simp: narrow_def)
  have "may_own classify c incoming i" if "bit m2 i" for i
    using that by (auto simp: m1(2) m2(2) intro: may_own.bound may_own.result)
  then obtain m3 where m3: "close_moves c incoming m2 = Inr m3" "\<And>i. bit m2 i \<Longrightarrow> bit m3 i"
      "\<And>i. bit m3 i \<Longrightarrow> may_own classify c incoming i" "move_pass c incoming (code c) m3 = Inr m3"
    using close_moves_spec [OF n] by blast
  have closed: "bit m3 (unat d)" if "ins \<in> set (code c)" "owned_move ins = Some (d, s)"
      "receives c incoming s \<or> bit m3 (unat s)" for ins d s
    using move_pass_closed [OF m3(4) that(1,2) _ that(3)] n that(1,2) by (auto simp: narrow_def)
  have "bit m3 i" if "may_own classify c incoming i" for i
    using that
  proof induction
    case (bound e r)
    then show ?case by (intro m3(2)) (auto simp: m1(2) m2(2))
  next
    case (result ins rs r)
    then show ?case by (intro m3(2)) (auto simp: m2(2))
  qed (auto intro: closed)
  with m1(1) m2(1) m3 w show ?thesis
    by (auto simp: mask_with_classification_def)
qed

section \<open>A verified chunk is narrow\<close>

lemma owned_destinations_registers:
  assumes "owned_destinations classify c ins = Inr rs" "r \<in> set rs"
  shows "unat r \<in> instruction_registers c ins"
  using assms
  by (cases ins)
    (auto simp: owned_destinations_def instruction_registers_def load_owned_def compare_owned_def
      string_owned_def array_owned_def update_owned_def object_owned_def call_owned_def
      check_owned_def object_registers_of_def Let_def split: load_instruction.splits
      compare_instruction.splits string_instruction.splits array_instruction.splits
      update_instruction.splits object_instruction.splits call_instruction.splits
      check_instruction.splits jump_instruction.splits if_splits)
lemma owned_destinations_total:
  assumes "verify xxh3 c = Inr ()" "ins \<in> set (code c)"
  shows "\<exists>rs. owned_destinations classify c ins = Inr rs"
proof -
  obtain i where i: "i < length (code c)" "ins = code c ! i" using assms(2) by (auto simp: in_set_conv_nth)
  have "unat k < length (constants c)" if "ins = Load (LoadConstant d k)" for d k
    using verified_operand [OF assms(1) i(1), of "ConstantOperand k"] verified_instruction(2) [OF assms(1) i(1)]
      i(2) [symmetric] that by (simp add: verify_operand_iff operand_valid_def)
  then show ?thesis
    by (cases ins) (auto simp: owned_destinations_def load_owned_def table_entry_def
        split: load_instruction.splits jump_instruction.splits)
qed

lemma owned_move_registers:
  assumes "owned_move ins = Some (d, s)"
  shows "unat d \<in> instruction_registers c ins" "unat s \<in> instruction_registers c ins"
proof -
  have "ins = Load (MoveOwned d s)"
    using assms by (auto simp: owned_move_def split: instruction.splits load_instruction.splits)
  then show "unat d \<in> instruction_registers c ins" "unat s \<in> instruction_registers c ins"
    by (auto simp: instruction_registers_def)
qed

lemma verified_narrow:
  assumes v: "verify xxh3 c = Inr ()" and w: "register_count c \<le> REFERENCE_REGISTER_LIMIT"
  shows "narrow classify c"
proof -
  have rc: "unat (register_count c) \<le> 64"
    using w by (simp add: REFERENCE_REGISTER_LIMIT_def word_le_nat_alt)
  have lt: "n < 64" if "ins \<in> set (code c)" "n \<in> instruction_registers c ins" for ins n
    using that verified_registers [OF v] rc by (fastforce simp: in_set_conv_nth)
  have "\<exists>rs. owned_destinations classify c ins = Inr rs \<and> (\<forall>r\<in>set rs. unat r < 64)"
    if "ins \<in> set (code c)" for ins
    using owned_destinations_total [OF v that, of classify] owned_destinations_registers lt [OF that]
    by blast
  moreover have "unat r < 64" if "e \<in> set (catch_table c)" "binding e = Some r" for e r
    using verified_catch_entry(6) [OF v that] rc by (simp add: word_less_nat_alt)
  moreover have "unat d < 64 \<and> unat s < 64"
    if "ins \<in> set (code c)" "owned_move ins = Some (d, s)" for ins d s
    using lt [OF that(1)] owned_move_registers [OF that(2)] by blast
  ultimately show ?thesis by (auto simp: narrow_def)
qed

section \<open>Properties\<close>

lemma wide_mask:
  assumes "REFERENCE_REGISTER_LIMIT < register_count c"
  shows "mask_with_classification c incoming classify = Inr (- 1)"
  using assms by (simp add: mask_with_classification_def)

text \<open>The ownership mask of a verified chunk is computed without a shift overflow. In a frame of at most
  64 registers its bits are exactly the least set of registers that catch bindings, owning results and
  owning moves make owners, whichever results the classification counts as references; in a wider frame
  every bit is set.\<close>

theorem ownership_mask_least:
  assumes "verify xxh3 c = Inr ()"
  shows "\<exists>m. mask_with_classification c incoming classify = Inr m \<and>
    (\<forall>i. bit m i \<longleftrightarrow> (if register_count c \<le> REFERENCE_REGISTER_LIMIT then may_own classify c incoming i else i < 64))"
proof (cases "register_count c \<le> REFERENCE_REGISTER_LIMIT")
  case True
  then show ?thesis using mask_spec [OF verified_narrow [OF assms True] True] by simp
next
  case False
  then show ?thesis using wide_mask [of c incoming classify] by (auto simp: bit_simps)
qed

theorem ownership_mask_least_witness:
  "\<exists>m. mask_with_classification sample_chunk 0 (\<lambda>_. True) = Inr m \<and>
     (\<forall>i. bit m i \<longleftrightarrow> may_own (\<lambda>_. True) sample_chunk 0 i)"
  using ownership_mask_least [OF sample_chunk_verified, where incoming = 0 and classify = "\<lambda>_. True"]
  by (simp add: REFERENCE_REGISTER_LIMIT_def)







end
