(* ===== verification/Whim_Aliases.thy ===== *)
theory Whim_Aliases
  imports Whim_Unit
begin

text \<open>
  Expansion of compiled type aliases (\<^verbatim>\<open>crates/bytecode/src/aliases.rs\<close>). The trait
  \<^verbatim>\<open>TypeAliasLookup\<close> is the locale \<open>type_alias_lookup\<close>, interpreted for the slice and for the hash
  index; a definition that is generic over the trait takes the lookup function as an argument. The
  vector of the aliases being expanded is pushed and popped around one call, so it is passed down.
  Recursion stops below the depth limit, which also makes the functions total.
\<close>

section \<open>Lookups\<close>

definition MAX_TYPE_DEPTH :: nat where
  "MAX_TYPE_DEPTH = 64"

type_synonym alias_index = "atom \<rightharpoonup> compiled_type_alias"

definition alias_index_new :: "compiled_type_alias list \<Rightarrow> alias_index" where
  "alias_index_new aliases =
     foldl (\<lambda>index alias. if index (alias_name alias) = None then index(alias_name alias \<mapsto> alias)
        else index) Map.empty aliases"

definition find_alias_index :: "alias_index \<Rightarrow> atom \<Rightarrow> compiled_type_alias option" where
  "find_alias_index index name = index name"

definition find_alias_slice :: "compiled_type_alias list \<Rightarrow> atom \<Rightarrow> compiled_type_alias option" where
  "find_alias_slice aliases name = find (\<lambda>alias. alias_name alias = name) aliases"

section \<open>Substitution\<close>

function substitute :: "type_descriptor \<Rightarrow> (atom \<times> type_descriptor) list \<Rightarrow> nat \<Rightarrow> type_descriptor" where
  "substitute d bindings depth =
     (if depth > MAX_TYPE_DEPTH then d
      else case d of
        ParameterT name \<Rightarrow>
          (case find (\<lambda>(parameter, _). parameter = name) bindings of
             None \<Rightarrow> d
           | Some (_, argument) \<Rightarrow> argument)
      | _ \<Rightarrow> map_children (\<lambda>child. substitute child bindings (depth + 1)) d)"
  by pat_completeness auto
termination
  by (relation "measure (\<lambda>(_, _, depth). MAX_TYPE_DEPTH + 1 - depth)") auto

declare substitute.simps [simp del]

fun alias_bindings_from ::
  "compiled_type_parameter list \<Rightarrow> type_descriptor list \<Rightarrow> (atom \<times> type_descriptor) list \<Rightarrow>
   (atom \<times> type_descriptor) list option" where
  "alias_bindings_from [] arguments bindings = Some bindings"
| "alias_bindings_from (p # ps) (argument # arguments) bindings =
     alias_bindings_from ps arguments (bindings @ [(type_parameter_name p, argument)])"
| "alias_bindings_from (p # ps) [] bindings =
     (case type_parameter_default p of
        None \<Rightarrow> None
      | Some d \<Rightarrow>
          alias_bindings_from ps [] (bindings @ [(type_parameter_name p, substitute d bindings 0)]))"

definition alias_bindings ::
  "compiled_type_parameter list \<Rightarrow> type_descriptor list option \<Rightarrow>
   (atom \<times> type_descriptor) list option" where
  "alias_bindings parameters arguments =
     (let arguments = (case arguments of None \<Rightarrow> [] | Some ds \<Rightarrow> ds)
      in if length arguments > length parameters then None
         else alias_bindings_from parameters arguments [])"

section \<open>Expansion\<close>

function expand_descriptor ::
  "(atom \<Rightarrow> compiled_type_alias option) \<Rightarrow> type_descriptor \<Rightarrow> nat \<Rightarrow> atom list \<Rightarrow> type_descriptor" where
  "expand_descriptor find_alias d depth expanding =
     (if depth > MAX_TYPE_DEPTH then d
      else case d of
        NamedT name arguments recursive \<Rightarrow>
          (let arguments = map_option (map (\<lambda>argument.
                 expand_descriptor find_alias argument (depth + 1) expanding)) arguments
           in if recursive then NamedT name arguments True
              else case find_alias name of
                None \<Rightarrow> NamedT name arguments False
              | Some alias \<Rightarrow>
                  if name \<in> set expanding then NamedT name arguments True
                  else if list_ex (\<lambda>p. bounds p \<noteq> []) (alias_type_parameters alias)
                  then NamedT name arguments False
                  else case alias_bindings (alias_type_parameters alias) arguments of
                    None \<Rightarrow> NamedT name arguments False
                  | Some bindings \<Rightarrow>
                      expand_descriptor find_alias
                        (substitute (alias_descriptor alias) bindings (depth + 1))
                        (depth + 1) (expanding @ [name]))
      | IntersectionT members \<Rightarrow>
          (let expanded = filter (\<lambda>m. m \<noteq> MixedT) (map (\<lambda>m.
                 expand_descriptor find_alias m (depth + 1) expanding) members)
           in case expanded of
                [] \<Rightarrow> MixedT
              | [m] \<Rightarrow> m
              | _ \<Rightarrow> intersection expanded)
      | _ \<Rightarrow> map_children (\<lambda>child. expand_descriptor find_alias child (depth + 1) expanding) d)"
  by pat_completeness auto
termination
  by (relation "measure (\<lambda>(_, _, depth, _). MAX_TYPE_DEPTH + 1 - depth)") auto

declare expand_descriptor.simps [simp del]

definition expand_aliases_using ::
  "(atom \<Rightarrow> compiled_type_alias option) \<Rightarrow> type_descriptor \<Rightarrow> type_descriptor" where
  "expand_aliases_using find_alias d = expand_descriptor find_alias d 0 []"

definition expand_aliases :: "type_descriptor \<Rightarrow> compiled_type_alias list \<Rightarrow> type_descriptor" where
  "expand_aliases d aliases = expand_aliases_using (find_alias_slice aliases) d"

definition expand_parameters ::
  "(atom \<Rightarrow> compiled_type_alias option) \<Rightarrow> compiled_type_parameter list \<Rightarrow>
   compiled_type_parameter list" where
  "expand_parameters find_alias = map (\<lambda>p.
     p\<lparr>bounds := map (expand_aliases_using find_alias) (bounds p),
       type_parameter_default :=
         map_option (expand_aliases_using find_alias) (type_parameter_default p)\<rparr>)"

definition expand_base ::
  "(atom \<Rightarrow> compiled_type_alias option) \<Rightarrow> compiled_base_reference \<Rightarrow> compiled_base_reference" where
  "expand_base find_alias b =
     b\<lparr>base_type_arguments := map_option (map (expand_aliases_using find_alias)) (base_type_arguments b)\<rparr>"

definition expand_function ::
  "(atom \<Rightarrow> compiled_type_alias option) \<Rightarrow> compiled_function \<Rightarrow> compiled_function" where
  "expand_function find_alias f =
     f\<lparr>function_type_parameters := expand_parameters find_alias (function_type_parameters f),
       where_constraints := map (\<lambda>w.
         w\<lparr>constraint_bound := expand_aliases_using find_alias (constraint_bound w)\<rparr>)
         (where_constraints f),
       function_parameters := map (\<lambda>p.
         p\<lparr>parameter_declared_type :=
           map_option (expand_aliases_using find_alias) (parameter_declared_type p)\<rparr>)
         (function_parameters f),
       return_type := map_option (expand_aliases_using find_alias) (return_type f)\<rparr>"

definition expand_class ::
  "(atom \<Rightarrow> compiled_type_alias option) \<Rightarrow> compiled_class_like \<Rightarrow> compiled_class_like" where
  "expand_class find_alias k =
     k\<lparr>class_type_parameters := expand_parameters find_alias (class_type_parameters k),
       parent := map_option (expand_base find_alias) (parent k),
       interfaces := map (expand_base find_alias) (interfaces k),
       class_constants := map (\<lambda>x.
         x\<lparr>class_constant_declared_type :=
           map_option (expand_aliases_using find_alias) (class_constant_declared_type x)\<rparr>)
         (class_constants k),
       properties := map (\<lambda>p.
         p\<lparr>property_declared_type :=
           map_option (expand_aliases_using find_alias) (property_declared_type p)\<rparr>)
         (properties k),
       methods := map (\<lambda>m. m\<lparr>method_function := expand_function find_alias (method_function m)\<rparr>)
         (methods k)\<rparr>"

definition expand_newtype ::
  "(atom \<Rightarrow> compiled_type_alias option) \<Rightarrow> compiled_newtype \<Rightarrow> compiled_newtype" where
  "expand_newtype find_alias n =
     n\<lparr>newtype_type_parameters := expand_parameters find_alias (newtype_type_parameters n),
       backing := expand_aliases_using find_alias (backing n)\<rparr>"

definition expand_unit_declarations :: "compiled_unit \<Rightarrow> compiled_type_alias list \<Rightarrow> compiled_unit" where
  "expand_unit_declarations u aliases =
     (let find_alias = find_alias_index (alias_index_new aliases)
      in u\<lparr>unit_functions := map (\<lambda>f.
             if is_external (function_attributes f) then f else expand_function find_alias f)
             (unit_functions u),
           classes := map (\<lambda>k.
             if is_external (class_attributes k) then k else expand_class find_alias k) (classes u),
           newtypes := map (\<lambda>n.
             if is_external (newtype_attributes n) then n else expand_newtype find_alias n)
             (newtypes u)\<rparr>)"

section \<open>The lookup interface\<close>

text \<open>
  A lookup is built from a list of aliases and returns the first alias of a name. Whatever is
  generic over the trait then gives the same result for every lookup.
\<close>

locale type_alias_lookup =
  fixes build :: "compiled_type_alias list \<Rightarrow> 'l"
    and find_alias :: "'l \<Rightarrow> atom \<Rightarrow> compiled_type_alias option"
  assumes find_first:
    "find_alias (build aliases) name = find (\<lambda>alias. alias_name alias = name) aliases"
begin

lemma find_alias_eq_slice: "find_alias (build aliases) = find_alias_slice aliases"
  by (rule ext) (simp add: find_first find_alias_slice_def)

lemma expand_eq_slice:
  "expand_aliases_using (find_alias (build aliases)) d = expand_aliases d aliases"
  by (simp add: find_alias_eq_slice expand_aliases_def)

lemma found_in_list:
  assumes "find_alias (build aliases) name = Some alias"
  shows "alias \<in> set aliases" "alias_name alias = name"
  using assms by (auto simp: find_first find_Some_iff)

lemma found_prepend:
  "find_alias (build (alias # aliases)) name =
     (if alias_name alias = name then Some alias else find_alias (build aliases) name)"
  by (simp add: find_first)

end

interpretation slice_lookup: type_alias_lookup "\<lambda>aliases. aliases" find_alias_slice
  by unfold_locales (simp add: find_alias_slice_def)

lemma alias_index_fold:
  "foldl (\<lambda>index alias. if index (alias_name alias) = None then index(alias_name alias \<mapsto> alias)
     else index) index aliases name =
   (case index name of Some a \<Rightarrow> Some a | None \<Rightarrow> find (\<lambda>alias. alias_name alias = name) aliases)"
  by (induction aliases arbitrary: index) (auto split: option.splits)

interpretation index_lookup: type_alias_lookup alias_index_new find_alias_index
  by unfold_locales (simp add: alias_index_new_def find_alias_index_def alias_index_fold)

section \<open>Properties\<close>

lemma alias_bindings_from_Some:
  "(\<exists>bs. alias_bindings_from ps args acc = Some bs) \<longleftrightarrow>
     (\<forall>i<length ps. length args \<le> i \<longrightarrow> type_parameter_default (ps ! i) \<noteq> None)"
  by (induction ps args acc rule: alias_bindings_from.induct)
    (auto simp: All_less_Suc2 split: option.splits)

lemma alias_bindings_from_spec:
  assumes "alias_bindings_from ps args acc = Some bs" "length args \<le> length ps"
  shows "\<exists>ds. bs = acc @ zip (map type_parameter_name ps) (args @ ds) \<and> length ps = length (args @ ds) \<and>
    (\<forall>i<length ds. \<exists>d. type_parameter_default (ps ! (length args + i)) = Some d \<and>
       ds ! i = substitute d (take (length acc + length args + i) bs) 0)"
  using assms
proof (induction ps args acc rule: alias_bindings_from.induct)
  case (2 p ps argument arguments bindings)
  then obtain ds where "bs = (bindings @ [(type_parameter_name p, argument)]) @
      zip (map type_parameter_name ps) (arguments @ ds)" "length ps = length (arguments @ ds)"
    "\<forall>i<length ds. \<exists>d. type_parameter_default (ps ! (length arguments + i)) = Some d \<and>
       ds ! i = substitute d (take (length (bindings @ [(type_parameter_name p, argument)]) +
         length arguments + i) bs) 0"
    by fastforce
  then show ?case
    by (intro exI [of _ ds]) auto
next
  case (3 p ps bindings)
  then obtain d where d: "type_parameter_default p = Some d"
    by (auto split: option.splits)
  let ?e = "substitute d bindings 0"
  from 3 d obtain ds where ds: "bs = (bindings @ [(type_parameter_name p, ?e)]) @
      zip (map type_parameter_name ps) ds" "length ps = length ds"
    "\<forall>i<length ds. \<exists>d. type_parameter_default (ps ! i) = Some d \<and>
       ds ! i = substitute d (take (length (bindings @ [(type_parameter_name p, ?e)]) + i) bs) 0"
    by fastforce
  with d show ?case
    by (intro exI [of _ "?e # ds"]) (auto simp: All_less_Suc2)
qed simp

text \<open>C29. Binding the parameters of an alias: it succeeds exactly when there are not more arguments
  than parameters and every parameter without an argument has a default; then the parameters are
  bound in order, first to the given arguments and then to their defaults, in which the parameters
  bound so far are substituted.\<close>

theorem alias_bindings_exact:
  "(alias_bindings ps (Some args) = None \<longleftrightarrow>
      length ps < length args \<or>
      (\<exists>i<length ps. length args \<le> i \<and> type_parameter_default (ps ! i) = None)) \<and>
   (\<forall>bs. alias_bindings ps (Some args) = Some bs \<longrightarrow>
      map fst bs = map type_parameter_name ps \<and> take (length args) (map snd bs) = args \<and>
      (\<forall>i<length ps. length args \<le> i \<longrightarrow> (\<exists>d. type_parameter_default (ps ! i) = Some d \<and>
        snd (bs ! i) = substitute d (take i bs) 0)))"
proof (intro conjI allI impI)
  show "alias_bindings ps (Some args) = None \<longleftrightarrow> length ps < length args \<or>
      (\<exists>i<length ps. length args \<le> i \<and> type_parameter_default (ps ! i) = None)"
    using alias_bindings_from_Some [of ps args "[]"]
    by (cases "alias_bindings_from ps args []") (auto simp: alias_bindings_def)
next
  fix bs
  assume bs: "alias_bindings ps (Some args) = Some bs"
  then have "length args \<le> length ps" "alias_bindings_from ps args [] = Some bs"
    by (auto simp: alias_bindings_def split: if_splits)
  from alias_bindings_from_spec [OF this(2,1)] obtain ds where
    ds: "bs = zip (map type_parameter_name ps) (args @ ds)" "length ps = length (args @ ds)"
      "\<forall>i<length ds. \<exists>d. type_parameter_default (ps ! (length args + i)) = Some d \<and>
         ds ! i = substitute d (take (length args + i) bs) 0"
    by auto
  then show "map fst bs = map type_parameter_name ps" "take (length args) (map snd bs) = args"
    by simp_all
  fix i
  assume "i < length ps" "length args \<le> i"
  with ds show "\<exists>d. type_parameter_default (ps ! i) = Some d \<and> snd (bs ! i) = substitute d (take i bs) 0"
    using ds(3) [rule_format, of "i - length args"] by (auto simp: nth_append)
qed

theorem alias_bindings_exact_witness: "alias_bindings [] (Some [NullT]) = None"
  using alias_bindings_exact [of "[]" "[NullT]"] by simp

text \<open>Expanding through the hash index of a list of aliases, as the compiled units do, gives
  what expanding through the list itself gives, also when a name is declared twice: both take the
  first declaration.\<close>

theorem alias_index_agrees:
  "expand_aliases_using (find_alias_index (alias_index_new aliases)) d = expand_aliases d aliases"
  by (rule index_lookup.expand_eq_slice)

end
