(* ===== verification/Whim_OptOperands.thy ===== *)
theory Whim_OptOperands
  imports Whim_Cfg
begin

named_theorems operand_fields \<open>what a rewriting does to the fields of each instruction family\<close>

text \<open>
  The register operands of an instruction as the optimizer sees them
  (\<^verbatim>\<open>crates/optimizer/src/operands.rs\<close>). The table of an instruction kind lists byte offsets into
  the eight bytes of the instruction, and registers are read and written through these offsets. The
  bytes of an instruction are its tag and then its fields in the order of their declaration, because
  \<^verbatim>\<open>Instruction\<close> is \<^verbatim>\<open>repr(u8)\<close> and every operand type has alignment one (both asserted in
  \<^verbatim>\<open>instruction/mod.rs\<close>). \<open>instruction_layout\<close> is the sequence of the fields: a register field with its value,
  any other field with its size. An offset that is not the start of a register field reads bytes of
  something else; \<open>register_at\<close> is then \<open>None\<close>. The tag is byte 0, so the fields start at offset 1.
\<close>

section \<open>The layout of an instruction\<close>

datatype field = RegisterField register | OtherField nat

fun field_size :: "field \<Rightarrow> nat" where
  "field_size (RegisterField _) = 2"
| "field_size (OtherField n) = n"

primrec load_layout :: "load_instruction \<Rightarrow> field list" where
  "load_layout (Move destination source) = [RegisterField destination, RegisterField source]"
| "load_layout (MoveOwned destination source) = [RegisterField destination, RegisterField source]"
| "load_layout (Clear target) = [RegisterField target]"
| "load_layout (LoadConstant destination _) = [RegisterField destination, OtherField 2]"
| "load_layout (LoadNull destination) = [RegisterField destination]"
| "load_layout (LoadTrue destination) = [RegisterField destination]"
| "load_layout (LoadFalse destination) = [RegisterField destination]"
| "load_layout (LoadInteger destination _ _) =
     [RegisterField destination, OtherField 2, OtherField 1]"
| "load_layout (ConstantGet destination _) = [RegisterField destination, OtherField 2]"
| "load_layout (ClassConstantGet destination _) = [RegisterField destination, OtherField 2]"

primrec arithmetic_layout :: "arithmetic_instruction \<Rightarrow> field list" where
  "arithmetic_layout (Add destination left right _) =
     [RegisterField destination, RegisterField left, RegisterField right, OtherField 1]"
| "arithmetic_layout (AddImmediate destination source _ _) =
     [RegisterField destination, RegisterField source, OtherField 2, OtherField 1]"
| "arithmetic_layout (IntegerAddAssign target source _) =
     [RegisterField target, RegisterField source, OtherField 1]"
| "arithmetic_layout (Subtract destination left right _) =
     [RegisterField destination, RegisterField left, RegisterField right, OtherField 1]"
| "arithmetic_layout (SubtractImmediate destination source _ _) =
     [RegisterField destination, RegisterField source, OtherField 2, OtherField 1]"
| "arithmetic_layout (Multiply destination left right _) =
     [RegisterField destination, RegisterField left, RegisterField right, OtherField 1]"
| "arithmetic_layout (IntegerMultiplyImmediate destination source _ _) =
     [RegisterField destination, RegisterField source, OtherField 2, OtherField 1]"
| "arithmetic_layout (Divide destination left right) =
     [RegisterField destination, RegisterField left, RegisterField right]"
| "arithmetic_layout (Modulo destination left right _) =
     [RegisterField destination, RegisterField left, RegisterField right, OtherField 1]"
| "arithmetic_layout (IntegerModuloImmediate destination source _ _) =
     [RegisterField destination, RegisterField source, OtherField 2, OtherField 1]"
| "arithmetic_layout (Power destination left right) =
     [RegisterField destination, RegisterField left, RegisterField right]"
| "arithmetic_layout (Negate destination source) =
     [RegisterField destination, RegisterField source]"
| "arithmetic_layout (UnaryPlus destination source) =
     [RegisterField destination, RegisterField source]"
| "arithmetic_layout (Step destination source _ _) =
     [RegisterField destination, RegisterField source, OtherField 2, OtherField 1]"
| "arithmetic_layout (BitwiseAnd destination left right _) =
     [RegisterField destination, RegisterField left, RegisterField right, OtherField 1]"
| "arithmetic_layout (BitwiseOr destination left right _) =
     [RegisterField destination, RegisterField left, RegisterField right, OtherField 1]"
| "arithmetic_layout (BitwiseXor destination left right _) =
     [RegisterField destination, RegisterField left, RegisterField right, OtherField 1]"
| "arithmetic_layout (BitwiseNot destination source _) =
     [RegisterField destination, RegisterField source, OtherField 1]"
| "arithmetic_layout (ShiftLeft destination left right _) =
     [RegisterField destination, RegisterField left, RegisterField right, OtherField 1]"
| "arithmetic_layout (ShiftRight destination left right _) =
     [RegisterField destination, RegisterField left, RegisterField right, OtherField 1]"

primrec float_layout :: "float_instruction \<Rightarrow> field list" where
  "float_layout (FloatAdd destination left right) =
     [RegisterField destination, RegisterField left, RegisterField right]"
| "float_layout (FloatSubtract destination left right) =
     [RegisterField destination, RegisterField left, RegisterField right]"
| "float_layout (FloatMultiply destination left right) =
     [RegisterField destination, RegisterField left, RegisterField right]"
| "float_layout (FloatMultiplyConstant destination source _) =
     [RegisterField destination, RegisterField source, OtherField 2]"
| "float_layout (Squares first_destination first_source second_source) =
     [RegisterField first_destination, RegisterField first_source, RegisterField second_source]"
| "float_layout (FloatSquares first_destination first_source second_source) =
     [RegisterField first_destination, RegisterField first_source, RegisterField second_source]"
| "float_layout (FloatSquaresSum first_destination first_source second_source) =
     [RegisterField first_destination, RegisterField first_source, RegisterField second_source]"
| "float_layout (FloatSquaresSumBranch _ _) = [OtherField 2, OtherField 4]"
| "float_layout (FloatDifferenceAdd destination first_operand addend) =
     [RegisterField destination, RegisterField first_operand, RegisterField addend]"
| "float_layout (FloatScaleProductAdd destination first_operand _) =
     [RegisterField destination, RegisterField first_operand, OtherField 2]"
| "float_layout (FloatPairUpdate _) = [OtherField 2]"

primrec compare_layout :: "compare_instruction \<Rightarrow> field list" where
  "compare_layout (Equal destination left right) =
     [RegisterField destination, RegisterField left, RegisterField right]"
| "compare_layout (NotEqual destination left right) =
     [RegisterField destination, RegisterField left, RegisterField right]"
| "compare_layout (LessThan destination left right) =
     [RegisterField destination, RegisterField left, RegisterField right]"
| "compare_layout (LessThanOrEqual destination left right) =
     [RegisterField destination, RegisterField left, RegisterField right]"
| "compare_layout (GreaterThan destination left right) =
     [RegisterField destination, RegisterField left, RegisterField right]"
| "compare_layout (GreaterThanOrEqual destination left right) =
     [RegisterField destination, RegisterField left, RegisterField right]"
| "compare_layout (Compare destination left right) =
     [RegisterField destination, RegisterField left, RegisterField right]"
| "compare_layout (NotOp destination source) = [RegisterField destination, RegisterField source]"
| "compare_layout (Concatenate destination left right) =
     [RegisterField destination, RegisterField left, RegisterField right]"
| "compare_layout (ConcatenateLeftConstant destination source _) =
     [RegisterField destination, RegisterField source, OtherField 2]"
| "compare_layout (ConcatenateRightConstant destination source _) =
     [RegisterField destination, RegisterField source, OtherField 2]"

primrec string_layout :: "string_instruction \<Rightarrow> field list" where
  "string_layout (StringLength destination source) =
     [RegisterField destination, RegisterField source]"
| "string_layout (StringIndexGet destination container index_register) =
     [RegisterField destination, RegisterField container, RegisterField index_register]"
| "string_layout (StringIndexGetOrNull destination container index_register) =
     [RegisterField destination, RegisterField container, RegisterField index_register]"
| "string_layout (StringIndexCoalesce destination container index_register _) =
     [RegisterField destination, RegisterField container, RegisterField index_register, OtherField 1]"
| "string_layout (StringByteEqual destination container index_register _) =
     [RegisterField destination, RegisterField container, RegisterField index_register, OtherField 1]"
| "string_layout (StringByteNotEqual destination container index_register _) =
     [RegisterField destination, RegisterField container, RegisterField index_register, OtherField 1]"
| "string_layout (StringByteLessThan destination container index_register _) =
     [RegisterField destination, RegisterField container, RegisterField index_register, OtherField 1]"
| "string_layout (StringByteLessThanOrEqual destination container index_register _) =
     [RegisterField destination, RegisterField container, RegisterField index_register, OtherField 1]"
| "string_layout (StringByteGreaterThan destination container index_register _) =
     [RegisterField destination, RegisterField container, RegisterField index_register, OtherField 1]"
| "string_layout (StringByteGreaterThanOrEqual destination container index_register _) =
     [RegisterField destination, RegisterField container, RegisterField index_register, OtherField 1]"
| "string_layout (StringByteJumpUnlessEqual container index_register _ _) =
     [RegisterField container, RegisterField index_register, OtherField 1, OtherField 2]"
| "string_layout (StringByteJumpUnlessNotEqual container index_register _ _) =
     [RegisterField container, RegisterField index_register, OtherField 1, OtherField 2]"

primrec jump_layout :: "jump_instruction \<Rightarrow> field list" where
  "jump_layout (Jump _) = [OtherField 4]"
| "jump_layout (JumpIfFalse condition _) = [RegisterField condition, OtherField 4]"
| "jump_layout (JumpIfTrue condition _) = [RegisterField condition, OtherField 4]"
| "jump_layout (JumpIfNull subject _) = [RegisterField subject, OtherField 4]"
| "jump_layout (JumpIfNotNull subject _) = [RegisterField subject, OtherField 4]"
| "jump_layout (JumpUnless _ left right _) =
     [OtherField 1, RegisterField left, RegisterField right, OtherField 2]"
| "jump_layout (IntJumpUnless _ left right _) =
     [OtherField 1, RegisterField left, RegisterField right, OtherField 2]"
| "jump_layout (UintJumpUnless _ left right _) =
     [OtherField 1, RegisterField left, RegisterField right, OtherField 2]"
| "jump_layout (StringJumpUnless _ left right _) =
     [OtherField 1, RegisterField left, RegisterField right, OtherField 2]"
| "jump_layout (JumpUnlessConstant _ source _ _) =
     [OtherField 1, RegisterField source, OtherField 2, OtherField 2]"
| "jump_layout (IntJumpUnlessImmediate _ source _ _) =
     [OtherField 1, RegisterField source, OtherField 2, OtherField 2]"
| "jump_layout (UintJumpUnlessImmediate _ source _ _) =
     [OtherField 1, RegisterField source, OtherField 2, OtherField 2]"
| "jump_layout (Coalesce destination source _) =
     [RegisterField destination, RegisterField source, OtherField 2]"
| "jump_layout (FillDefault target _) = [RegisterField target, OtherField 4]"

primrec switch_layout :: "switch_instruction \<Rightarrow> field list" where
  "switch_layout (SwitchBool subject _) = [RegisterField subject, OtherField 2]"
| "switch_layout (SwitchInt subject _) = [RegisterField subject, OtherField 2]"
| "switch_layout (SwitchFloat subject _) = [RegisterField subject, OtherField 2]"
| "switch_layout (SwitchString subject _) = [RegisterField subject, OtherField 2]"
| "switch_layout (SwitchPattern subject _) = [RegisterField subject, OtherField 2]"
| "switch_layout (SwitchTuplePattern first_element _ _) =
     [RegisterField first_element, OtherField 1, OtherField 2]"
| "switch_layout (BoolPatternBranch subject _ _) =
     [RegisterField subject, OtherField 2, OtherField 2]"
| "switch_layout (IntegerRangeJumpIf subject _ _ _) =
     [RegisterField subject, OtherField 2, OtherField 2, OtherField 1]"
| "switch_layout (IntegerRangeJumpUnless subject _ _ _) =
     [RegisterField subject, OtherField 2, OtherField 2, OtherField 1]"

primrec loop_layout :: "loop_instruction \<Rightarrow> field list" where
  "loop_layout (IncrementJump target _ _) = [RegisterField target, OtherField 2, OtherField 2]"
| "loop_layout (CounterLoop _ counter limit _) =
     [OtherField 1, RegisterField counter, RegisterField limit, OtherField 2]"
| "loop_layout (IntCounterLoop _ counter limit _) =
     [OtherField 1, RegisterField counter, RegisterField limit, OtherField 2]"
| "loop_layout (UintCounterLoop _ counter limit _) =
     [OtherField 1, RegisterField counter, RegisterField limit, OtherField 2]"
| "loop_layout (NumericLoop _ left right _) =
     [OtherField 1, RegisterField left, RegisterField right, OtherField 2]"
| "loop_layout (IntNumericLoop _ left right _) =
     [OtherField 1, RegisterField left, RegisterField right, OtherField 2]"
| "loop_layout (PreparedIntNumericLoop _ _) = [OtherField 2, OtherField 2]"
| "loop_layout (IntStepLoop _ _) = [OtherField 2, OtherField 2]"
| "loop_layout (NumericRegionJump _) = [OtherField 4]"

primrec array_layout :: "array_instruction \<Rightarrow> field list" where
  "array_layout (NewArray _ destination first_element _) =
     [OtherField 1, RegisterField destination, RegisterField first_element, OtherField 1]"
| "array_layout (NewFilledVec destination value_register size_register) =
     [RegisterField destination, RegisterField value_register, RegisterField size_register]"
| "array_layout (ReserveArray container additional) =
     [RegisterField container, RegisterField additional]"
| "array_layout (Length destination source) = [RegisterField destination, RegisterField source]"
| "array_layout (ElementGet destination subject _) =
     [RegisterField destination, RegisterField subject, OtherField 2]"
| "array_layout (IndexGet destination container index_register) =
     [RegisterField destination, RegisterField container, RegisterField index_register]"
| "array_layout (IndexGetPath _ destination container first_index) =
     [OtherField 1, RegisterField destination, RegisterField container, RegisterField first_index]"
| "array_layout (VecIndexGet destination container index_register _) =
     [RegisterField destination, RegisterField container, RegisterField index_register, OtherField 1]"
| "array_layout (DictIndexGetIntKey destination container index_register _) =
     [RegisterField destination, RegisterField container, RegisterField index_register, OtherField 1]"
| "array_layout (DictIndexGetUintKey destination container index_register _) =
     [RegisterField destination, RegisterField container, RegisterField index_register, OtherField 1]"
| "array_layout (DictIndexGetStringKey destination container index_register _) =
     [RegisterField destination, RegisterField container, RegisterField index_register, OtherField 1]"
| "array_layout (IndexGetOrNull destination container index_register) =
     [RegisterField destination, RegisterField container, RegisterField index_register]"
| "array_layout (VecIndexGetOrNull destination container index_register) =
     [RegisterField destination, RegisterField container, RegisterField index_register]"
| "array_layout (DictIndexGetIntegerKeyOrNull destination container index_register _) =
     [RegisterField destination, RegisterField container, RegisterField index_register, OtherField 1]"
| "array_layout (DictIndexGetStringKeyOrNull destination container index_register) =
     [RegisterField destination, RegisterField container, RegisterField index_register]"
| "array_layout (IndexCoalesce destination container index_register _) =
     [RegisterField destination, RegisterField container, RegisterField index_register, OtherField 1]"
| "array_layout (VecIndexCoalesce destination container index_register _) =
     [RegisterField destination, RegisterField container, RegisterField index_register, OtherField 1]"
| "array_layout (DictIndexCoalesceIntKey destination container index_register _) =
     [RegisterField destination, RegisterField container, RegisterField index_register, OtherField 1]"
| "array_layout (DictIndexCoalesceUintKey destination container index_register _) =
     [RegisterField destination, RegisterField container, RegisterField index_register, OtherField 1]"
| "array_layout (DictIndexCoalesceStringKey destination container index_register _) =
     [RegisterField destination, RegisterField container, RegisterField index_register, OtherField 1]"

primrec update_layout :: "update_instruction \<Rightarrow> field list" where
  "update_layout (IndexSet container index_register value_register) =
     [RegisterField container, RegisterField index_register, RegisterField value_register]"
| "update_layout (IndexSetPath _ container first_index value_register) =
     [OtherField 1, RegisterField container, RegisterField first_index, RegisterField value_register]"
| "update_layout (IndexUpdatePath _ _ container operand_register) =
     [OtherField 1, OtherField 1, RegisterField container, RegisterField operand_register]"
| "update_layout (VecIndexSet container index_register value_register) =
     [RegisterField container, RegisterField index_register, RegisterField value_register]"
| "update_layout (DictIndexSet container index_register value_register) =
     [RegisterField container, RegisterField index_register, RegisterField value_register]"
| "update_layout (DictIndexSetIntegerKey container index_register value_register _) =
     [RegisterField container, RegisterField index_register, RegisterField value_register, OtherField 1]"
| "update_layout (DictIndexSetStringKey container index_register value_register) =
     [RegisterField container, RegisterField index_register, RegisterField value_register]"
| "update_layout (IndexAddAssign container index_register value_register _) =
     [RegisterField container, RegisterField index_register, RegisterField value_register, OtherField 1]"
| "update_layout (Append container value_register) =
     [RegisterField container, RegisterField value_register]"
| "update_layout (VecAppend container value_register) =
     [RegisterField container, RegisterField value_register]"
| "update_layout (Spread container value_register) =
     [RegisterField container, RegisterField value_register]"
| "update_layout (Rest destination subject _) =
     [RegisterField destination, RegisterField subject, OtherField 2]"
| "update_layout (Contains destination array value_register) =
     [RegisterField destination, RegisterField array, RegisterField value_register]"
| "update_layout (ContainsKey destination array key_register) =
     [RegisterField destination, RegisterField array, RegisterField key_register]"
| "update_layout (Remove destination container key_register) =
     [RegisterField destination, RegisterField container, RegisterField key_register]"
| "update_layout (RemoveFirst destination container) =
     [RegisterField destination, RegisterField container]"
| "update_layout (RemoveLast destination container) =
     [RegisterField destination, RegisterField container]"
| "update_layout (SwapRemove destination container index_register) =
     [RegisterField destination, RegisterField container, RegisterField index_register]"
| "update_layout (CheckDestructure subject _ _ _) =
     [RegisterField subject, OtherField 2, OtherField 2, OtherField 1]"
| "update_layout (ForeachInit iterator subject reserve_register) =
     [RegisterField iterator, RegisterField subject, RegisterField reserve_register]"
| "update_layout (ForeachNext iterator key_destination value_destination) =
     [RegisterField iterator, RegisterField key_destination, RegisterField value_destination]"
| "update_layout (VecForeachNext iterator key_destination value_destination _) =
     [RegisterField iterator, RegisterField key_destination, RegisterField value_destination, OtherField 1]"
| "update_layout (DictForeachNext iterator key_destination value_destination _) =
     [RegisterField iterator, RegisterField key_destination, RegisterField value_destination, OtherField 1]"

primrec object_layout :: "object_instruction \<Rightarrow> field list" where
  "object_layout (NewStatic destination _) = [RegisterField destination, OtherField 2]"
| "object_layout (NewDynamic destination class_name) =
     [RegisterField destination, RegisterField class_name]"
| "object_layout (NewTyped destination _) = [RegisterField destination, OtherField 2]"
| "object_layout (CloneObject destination source) =
     [RegisterField destination, RegisterField source]"
| "object_layout (InitializeProperties object _ _) =
     [RegisterField object, OtherField 2, OtherField 2]"
| "object_layout (PropertyGet destination object _) =
     [RegisterField destination, RegisterField object, OtherField 2]"
| "object_layout (PropertyGetUnchecked destination object _ _) =
     [RegisterField destination, RegisterField object, OtherField 2, OtherField 1]"
| "object_layout (PropertyGetOrNull destination object _) =
     [RegisterField destination, RegisterField object, OtherField 2]"
| "object_layout (PropertyGetOrNullUnchecked destination object _) =
     [RegisterField destination, RegisterField object, OtherField 2]"
| "object_layout (PropertyCoalesce destination object _ _) =
     [RegisterField destination, RegisterField object, OtherField 2, OtherField 1]"
| "object_layout (PropertyCoalesceUnchecked destination object _ _) =
     [RegisterField destination, RegisterField object, OtherField 2, OtherField 1]"
| "object_layout (PropertySet object value_register _) =
     [RegisterField object, RegisterField value_register, OtherField 2]"
| "object_layout (PropertySetUnchecked object value_register _ _) =
     [RegisterField object, RegisterField value_register, OtherField 2, OtherField 1]"
| "object_layout (PropertyInitRaw object value_register _) =
     [RegisterField object, RegisterField value_register, OtherField 2]"
| "object_layout (PropertyIndexSet object first_operand _) =
     [RegisterField object, RegisterField first_operand, OtherField 2]"
| "object_layout (PropertyIndexSetUnchecked object first_operand _) =
     [RegisterField object, RegisterField first_operand, OtherField 2]"
| "object_layout (PropertyIndexUpdate object operand_register _ _) =
     [RegisterField object, RegisterField operand_register, OtherField 2, OtherField 1]"
| "object_layout (PropertyIndexUpdateUnchecked object operand_register _ _) =
     [RegisterField object, RegisterField operand_register, OtherField 2, OtherField 1]"
| "object_layout (PropertyStep object _ _ _) =
     [RegisterField object, OtherField 2, OtherField 2, OtherField 1]"
| "object_layout (PropertyStepUnchecked object _ _ _) =
     [RegisterField object, OtherField 2, OtherField 2, OtherField 1]"
| "object_layout (PropertyAdd object source _) =
     [RegisterField object, RegisterField source, OtherField 2]"
| "object_layout (PropertyAddUnchecked object source _) =
     [RegisterField object, RegisterField source, OtherField 2]"
| "object_layout (PropertyFillIntRange object first_operand _) =
     [RegisterField object, RegisterField first_operand, OtherField 2]"
| "object_layout (PropertyRemove object destination _ _) =
     [RegisterField object, RegisterField destination, OtherField 2, OtherField 1]"
| "object_layout (PropertyRemoveUnchecked object destination _ _) =
     [RegisterField object, RegisterField destination, OtherField 2, OtherField 1]"
| "object_layout (StaticPropertyGet destination _) = [RegisterField destination, OtherField 2]"
| "object_layout (StaticPropertyGetOrNull destination _) =
     [RegisterField destination, OtherField 2]"
| "object_layout (StaticPropertyCoalesce destination _ _) =
     [RegisterField destination, OtherField 2, OtherField 2]"
| "object_layout (StaticPropertySet _ value_register) =
     [OtherField 2, RegisterField value_register]"

primrec call_layout :: "call_instruction \<Rightarrow> field list" where
  "call_layout (MakeClosure _ destination _ first_capture) =
     [OtherField 1, RegisterField destination, OtherField 2, RegisterField first_capture]"
| "call_layout (MakeBound destination callee_register _) =
     [RegisterField destination, RegisterField callee_register, OtherField 2]"
| "call_layout (CallValue _ destination callee_register first_argument) =
     [OtherField 1, RegisterField destination, RegisterField callee_register, RegisterField first_argument]"
| "call_layout (CallValueUnchecked _ destination callee_register first_argument) =
     [OtherField 1, RegisterField destination, RegisterField callee_register, RegisterField first_argument]"
| "call_layout (CallValueDiscarded _ destination callee_register first_argument) =
     [OtherField 1, RegisterField destination, RegisterField callee_register, RegisterField first_argument]"
| "call_layout (CallNamed _ destination first_argument _) =
     [OtherField 1, RegisterField destination, RegisterField first_argument, OtherField 2]"
| "call_layout (CallNamedUnchecked _ destination first_argument _) =
     [OtherField 1, RegisterField destination, RegisterField first_argument, OtherField 2]"
| "call_layout (CallNamedDirect _ destination first_argument _) =
     [OtherField 1, RegisterField destination, RegisterField first_argument, OtherField 2]"
| "call_layout (CallNamedConstantUnchecked destination _ _ _) =
     [RegisterField destination, OtherField 2, OtherField 2, OtherField 1]"
| "call_layout (CallNamedDiscarded _ destination first_argument _) =
     [OtherField 1, RegisterField destination, RegisterField first_argument, OtherField 2]"
| "call_layout (CallMethod _ destination first_argument _) =
     [OtherField 1, RegisterField destination, RegisterField first_argument, OtherField 2]"
| "call_layout (CallMethodUnchecked _ destination first_argument _) =
     [OtherField 1, RegisterField destination, RegisterField first_argument, OtherField 2]"
| "call_layout (CallMethodDirect _ destination first_argument _) =
     [OtherField 1, RegisterField destination, RegisterField first_argument, OtherField 2]"
| "call_layout (CallMethodDiscarded _ destination first_argument _) =
     [OtherField 1, RegisterField destination, RegisterField first_argument, OtherField 2]"
| "call_layout (CallStatic _ destination first_argument _) =
     [OtherField 1, RegisterField destination, RegisterField first_argument, OtherField 2]"
| "call_layout (CallStaticDiscarded _ destination first_argument _) =
     [OtherField 1, RegisterField destination, RegisterField first_argument, OtherField 2]"
| "call_layout (CallSelfUnchecked _ destination first_argument) =
     [OtherField 1, RegisterField destination, RegisterField first_argument]"
| "call_layout (CallWithNames destination callee_register _) =
     [RegisterField destination, RegisterField callee_register, OtherField 2]"
| "call_layout (CallWithNamesDiscarded destination callee_register _) =
     [RegisterField destination, RegisterField callee_register, OtherField 2]"
| "call_layout (CheckDiscardedResult source) = [RegisterField source]"

primrec return_layout :: "return_instruction \<Rightarrow> field list" where
  "return_layout (Return source) = [RegisterField source]"
| "return_layout (ReturnUnchecked source) = [RegisterField source]"
| "return_layout (ReturnReferenceUnchecked source) = [RegisterField source]"
| "return_layout (ReturnScalarUnchecked source) = [RegisterField source]"
| "return_layout (ReturnIntegerUnchecked _ _) = [OtherField 2, OtherField 1]"
| "return_layout (ReturnPairUnchecked first second) = [RegisterField first, RegisterField second]"
| "return_layout ReturnNull = []"
| "return_layout ReturnNullUnchecked = []"

primrec check_layout :: "check_instruction \<Rightarrow> field list" where
  "check_layout (Is destination source _) =
     [RegisterField destination, RegisterField source, OtherField 2]"
| "check_layout (AsCheck destination source _ _) =
     [RegisterField destination, RegisterField source, OtherField 2, OtherField 1]"
| "check_layout (AsOrNull destination source _) =
     [RegisterField destination, RegisterField source, OtherField 2]"
| "check_layout (CheckDefined subject _) = [RegisterField subject, OtherField 2]"
| "check_layout (CheckSoleReference source _ _) =
     [RegisterField source, OtherField 2, OtherField 1]"
| "check_layout CheckWhereConstraints = []"
| "check_layout (Throw source) = [RegisterField source]"
| "check_layout Rethrow = []"
| "check_layout (ThrowUnhandledMatch subject) = [RegisterField subject]"
| "check_layout (Panic message) = [RegisterField message]"
| "check_layout (Assert _ first_value message _) =
     [OtherField 1, RegisterField first_value, RegisterField message, OtherField 2]"
| "check_layout (Exit exit_code) = [RegisterField exit_code]"
| "check_layout (Write _ register _ _) =
     [OtherField 1, RegisterField register, OtherField 1, OtherField 1]"
| "check_layout (Debug _ first_value) = [OtherField 1, RegisterField first_value]"
| "check_layout (Require _ destination path) =
     [OtherField 1, RegisterField destination, RegisterField path]"
| "check_layout DrainFinalizers = []"
| "check_layout (Fresh destination) = [RegisterField destination]"

definition instruction_layout :: "instruction \<Rightarrow> field list" where
  "instruction_layout ins =
     (case ins of
        Load i \<Rightarrow> load_layout i
      | Arithmetic i \<Rightarrow> arithmetic_layout i
      | FloatOp i \<Rightarrow> float_layout i
      | CompareOp i \<Rightarrow> compare_layout i
      | StringOp i \<Rightarrow> string_layout i
      | Branch i \<Rightarrow> jump_layout i
      | Switch i \<Rightarrow> switch_layout i
      | LoopOp i \<Rightarrow> loop_layout i
      | ArrayOp i \<Rightarrow> array_layout i
      | ArrayUpdate i \<Rightarrow> update_layout i
      | ObjectOp i \<Rightarrow> object_layout i
      | CallOp i \<Rightarrow> call_layout i
      | ReturnOp i \<Rightarrow> return_layout i
      | CheckOp i \<Rightarrow> check_layout i)"

text \<open>The register fields with their byte offsets, from the offset of the first field on.\<close>

fun register_fields :: "nat \<Rightarrow> field list \<Rightarrow> (nat \<times> register) list" where
  "register_fields offset [] = []"
| "register_fields offset (RegisterField r # fs) = (offset, r) # register_fields (offset + 2) fs"
| "register_fields offset (OtherField n # fs) = register_fields (offset + n) fs"

definition register_at :: "instruction \<Rightarrow> nat \<Rightarrow> register option" where
  "register_at ins = map_of (register_fields 1 (instruction_layout ins))"

text \<open>
  \<open>map_registers g\<close> applies \<open>g\<close> to every register field, with its offset; writing the two bytes at an
  offset replaces one of them.
\<close>

primrec load_map_registers :: "(nat \<Rightarrow> register \<Rightarrow> register) \<Rightarrow> load_instruction \<Rightarrow> load_instruction" where
  "load_map_registers g (Move destination source) = Move (g 1 destination) (g 3 source)"
| "load_map_registers g (MoveOwned destination source) = MoveOwned (g 1 destination) (g 3 source)"
| "load_map_registers g (Clear target) = Clear (g 1 target)"
| "load_map_registers g (LoadConstant destination constant_operand) =
     LoadConstant (g 1 destination) constant_operand"
| "load_map_registers g (LoadNull destination) = LoadNull (g 1 destination)"
| "load_map_registers g (LoadTrue destination) = LoadTrue (g 1 destination)"
| "load_map_registers g (LoadFalse destination) = LoadFalse (g 1 destination)"
| "load_map_registers g (LoadInteger destination immediate operand_kind) =
     LoadInteger (g 1 destination) immediate operand_kind"
| "load_map_registers g (ConstantGet destination cache_slot) =
     ConstantGet (g 1 destination) cache_slot"
| "load_map_registers g (ClassConstantGet destination cache_slot) =
     ClassConstantGet (g 1 destination) cache_slot"

primrec arithmetic_map_registers :: "(nat \<Rightarrow> register \<Rightarrow> register) \<Rightarrow> arithmetic_instruction \<Rightarrow> arithmetic_instruction" where
  "arithmetic_map_registers g (Add destination left right operand_kind) =
     Add (g 1 destination) (g 3 left) (g 5 right) operand_kind"
| "arithmetic_map_registers g (AddImmediate destination source immediate operand_kind) =
     AddImmediate (g 1 destination) (g 3 source) immediate operand_kind"
| "arithmetic_map_registers g (IntegerAddAssign target source operand_kind) =
     IntegerAddAssign (g 1 target) (g 3 source) operand_kind"
| "arithmetic_map_registers g (Subtract destination left right operand_kind) =
     Subtract (g 1 destination) (g 3 left) (g 5 right) operand_kind"
| "arithmetic_map_registers g (SubtractImmediate destination source immediate operand_kind) =
     SubtractImmediate (g 1 destination) (g 3 source) immediate operand_kind"
| "arithmetic_map_registers g (Multiply destination left right operand_kind) =
     Multiply (g 1 destination) (g 3 left) (g 5 right) operand_kind"
| "arithmetic_map_registers g (IntegerMultiplyImmediate destination source immediate operand_kind) =
     IntegerMultiplyImmediate (g 1 destination) (g 3 source) immediate operand_kind"
| "arithmetic_map_registers g (Divide destination left right) =
     Divide (g 1 destination) (g 3 left) (g 5 right)"
| "arithmetic_map_registers g (Modulo destination left right operand_kind) =
     Modulo (g 1 destination) (g 3 left) (g 5 right) operand_kind"
| "arithmetic_map_registers g (IntegerModuloImmediate destination source immediate operand_kind) =
     IntegerModuloImmediate (g 1 destination) (g 3 source) immediate operand_kind"
| "arithmetic_map_registers g (Power destination left right) =
     Power (g 1 destination) (g 3 left) (g 5 right)"
| "arithmetic_map_registers g (Negate destination source) = Negate (g 1 destination) (g 3 source)"
| "arithmetic_map_registers g (UnaryPlus destination source) =
     UnaryPlus (g 1 destination) (g 3 source)"
| "arithmetic_map_registers g (Step destination source immediate operand_kind) =
     Step (g 1 destination) (g 3 source) immediate operand_kind"
| "arithmetic_map_registers g (BitwiseAnd destination left right operand_kind) =
     BitwiseAnd (g 1 destination) (g 3 left) (g 5 right) operand_kind"
| "arithmetic_map_registers g (BitwiseOr destination left right operand_kind) =
     BitwiseOr (g 1 destination) (g 3 left) (g 5 right) operand_kind"
| "arithmetic_map_registers g (BitwiseXor destination left right operand_kind) =
     BitwiseXor (g 1 destination) (g 3 left) (g 5 right) operand_kind"
| "arithmetic_map_registers g (BitwiseNot destination source operand_kind) =
     BitwiseNot (g 1 destination) (g 3 source) operand_kind"
| "arithmetic_map_registers g (ShiftLeft destination left right operand_kind) =
     ShiftLeft (g 1 destination) (g 3 left) (g 5 right) operand_kind"
| "arithmetic_map_registers g (ShiftRight destination left right operand_kind) =
     ShiftRight (g 1 destination) (g 3 left) (g 5 right) operand_kind"

primrec float_map_registers :: "(nat \<Rightarrow> register \<Rightarrow> register) \<Rightarrow> float_instruction \<Rightarrow> float_instruction" where
  "float_map_registers g (FloatAdd destination left right) =
     FloatAdd (g 1 destination) (g 3 left) (g 5 right)"
| "float_map_registers g (FloatSubtract destination left right) =
     FloatSubtract (g 1 destination) (g 3 left) (g 5 right)"
| "float_map_registers g (FloatMultiply destination left right) =
     FloatMultiply (g 1 destination) (g 3 left) (g 5 right)"
| "float_map_registers g (FloatMultiplyConstant destination source constant_operand) =
     FloatMultiplyConstant (g 1 destination) (g 3 source) constant_operand"
| "float_map_registers g (Squares first_destination first_source second_source) =
     Squares (g 1 first_destination) (g 3 first_source) (g 5 second_source)"
| "float_map_registers g (FloatSquares first_destination first_source second_source) =
     FloatSquares (g 1 first_destination) (g 3 first_source) (g 5 second_source)"
| "float_map_registers g (FloatSquaresSum first_destination first_source second_source) =
     FloatSquaresSum (g 1 first_destination) (g 3 first_source) (g 5 second_source)"
| "float_map_registers g (FloatSquaresSumBranch descriptor offset) =
     FloatSquaresSumBranch descriptor offset"
| "float_map_registers g (FloatDifferenceAdd destination first_operand addend) =
     FloatDifferenceAdd (g 1 destination) (g 3 first_operand) (g 5 addend)"
| "float_map_registers g (FloatScaleProductAdd destination first_operand constant_operand) =
     FloatScaleProductAdd (g 1 destination) (g 3 first_operand) constant_operand"
| "float_map_registers g (FloatPairUpdate descriptor) = FloatPairUpdate descriptor"

primrec compare_map_registers :: "(nat \<Rightarrow> register \<Rightarrow> register) \<Rightarrow> compare_instruction \<Rightarrow> compare_instruction" where
  "compare_map_registers g (Equal destination left right) =
     Equal (g 1 destination) (g 3 left) (g 5 right)"
| "compare_map_registers g (NotEqual destination left right) =
     NotEqual (g 1 destination) (g 3 left) (g 5 right)"
| "compare_map_registers g (LessThan destination left right) =
     LessThan (g 1 destination) (g 3 left) (g 5 right)"
| "compare_map_registers g (LessThanOrEqual destination left right) =
     LessThanOrEqual (g 1 destination) (g 3 left) (g 5 right)"
| "compare_map_registers g (GreaterThan destination left right) =
     GreaterThan (g 1 destination) (g 3 left) (g 5 right)"
| "compare_map_registers g (GreaterThanOrEqual destination left right) =
     GreaterThanOrEqual (g 1 destination) (g 3 left) (g 5 right)"
| "compare_map_registers g (Compare destination left right) =
     Compare (g 1 destination) (g 3 left) (g 5 right)"
| "compare_map_registers g (NotOp destination source) = NotOp (g 1 destination) (g 3 source)"
| "compare_map_registers g (Concatenate destination left right) =
     Concatenate (g 1 destination) (g 3 left) (g 5 right)"
| "compare_map_registers g (ConcatenateLeftConstant destination source constant_operand) =
     ConcatenateLeftConstant (g 1 destination) (g 3 source) constant_operand"
| "compare_map_registers g (ConcatenateRightConstant destination source constant_operand) =
     ConcatenateRightConstant (g 1 destination) (g 3 source) constant_operand"

primrec string_map_registers :: "(nat \<Rightarrow> register \<Rightarrow> register) \<Rightarrow> string_instruction \<Rightarrow> string_instruction" where
  "string_map_registers g (StringLength destination source) =
     StringLength (g 1 destination) (g 3 source)"
| "string_map_registers g (StringIndexGet destination container index_register) =
     StringIndexGet (g 1 destination) (g 3 container) (g 5 index_register)"
| "string_map_registers g (StringIndexGetOrNull destination container index_register) =
     StringIndexGetOrNull (g 1 destination) (g 3 container) (g 5 index_register)"
| "string_map_registers g (StringIndexCoalesce destination container index_register offset) =
     StringIndexCoalesce (g 1 destination) (g 3 container) (g 5 index_register) offset"
| "string_map_registers g (StringByteEqual destination container index_register byte) =
     StringByteEqual (g 1 destination) (g 3 container) (g 5 index_register) byte"
| "string_map_registers g (StringByteNotEqual destination container index_register byte) =
     StringByteNotEqual (g 1 destination) (g 3 container) (g 5 index_register) byte"
| "string_map_registers g (StringByteLessThan destination container index_register byte) =
     StringByteLessThan (g 1 destination) (g 3 container) (g 5 index_register) byte"
| "string_map_registers g (StringByteLessThanOrEqual destination container index_register byte) =
     StringByteLessThanOrEqual (g 1 destination) (g 3 container) (g 5 index_register) byte"
| "string_map_registers g (StringByteGreaterThan destination container index_register byte) =
     StringByteGreaterThan (g 1 destination) (g 3 container) (g 5 index_register) byte"
| "string_map_registers g (StringByteGreaterThanOrEqual destination container index_register byte) =
     StringByteGreaterThanOrEqual (g 1 destination) (g 3 container) (g 5 index_register) byte"
| "string_map_registers g (StringByteJumpUnlessEqual container index_register byte offset) =
     StringByteJumpUnlessEqual (g 1 container) (g 3 index_register) byte offset"
| "string_map_registers g (StringByteJumpUnlessNotEqual container index_register byte offset) =
     StringByteJumpUnlessNotEqual (g 1 container) (g 3 index_register) byte offset"

primrec jump_map_registers :: "(nat \<Rightarrow> register \<Rightarrow> register) \<Rightarrow> jump_instruction \<Rightarrow> jump_instruction" where
  "jump_map_registers g (Jump offset) = Jump offset"
| "jump_map_registers g (JumpIfFalse condition offset) = JumpIfFalse (g 1 condition) offset"
| "jump_map_registers g (JumpIfTrue condition offset) = JumpIfTrue (g 1 condition) offset"
| "jump_map_registers g (JumpIfNull subject offset) = JumpIfNull (g 1 subject) offset"
| "jump_map_registers g (JumpIfNotNull subject offset) = JumpIfNotNull (g 1 subject) offset"
| "jump_map_registers g (JumpUnless comparison left right offset) =
     JumpUnless comparison (g 2 left) (g 4 right) offset"
| "jump_map_registers g (IntJumpUnless comparison left right offset) =
     IntJumpUnless comparison (g 2 left) (g 4 right) offset"
| "jump_map_registers g (UintJumpUnless comparison left right offset) =
     UintJumpUnless comparison (g 2 left) (g 4 right) offset"
| "jump_map_registers g (StringJumpUnless comparison left right offset) =
     StringJumpUnless comparison (g 2 left) (g 4 right) offset"
| "jump_map_registers g (JumpUnlessConstant comparison source constant_operand offset) =
     JumpUnlessConstant comparison (g 2 source) constant_operand offset"
| "jump_map_registers g (IntJumpUnlessImmediate comparison source immediate offset) =
     IntJumpUnlessImmediate comparison (g 2 source) immediate offset"
| "jump_map_registers g (UintJumpUnlessImmediate comparison source immediate offset) =
     UintJumpUnlessImmediate comparison (g 2 source) immediate offset"
| "jump_map_registers g (Coalesce destination source offset) =
     Coalesce (g 1 destination) (g 3 source) offset"
| "jump_map_registers g (FillDefault target offset) = FillDefault (g 1 target) offset"

primrec switch_map_registers :: "(nat \<Rightarrow> register \<Rightarrow> register) \<Rightarrow> switch_instruction \<Rightarrow> switch_instruction" where
  "switch_map_registers g (SwitchBool subject table) = SwitchBool (g 1 subject) table"
| "switch_map_registers g (SwitchInt subject table) = SwitchInt (g 1 subject) table"
| "switch_map_registers g (SwitchFloat subject table) = SwitchFloat (g 1 subject) table"
| "switch_map_registers g (SwitchString subject table) = SwitchString (g 1 subject) table"
| "switch_map_registers g (SwitchPattern subject table) = SwitchPattern (g 1 subject) table"
| "switch_map_registers g (SwitchTuplePattern first_element element_count table) =
     SwitchTuplePattern (g 1 first_element) element_count table"
| "switch_map_registers g (BoolPatternBranch subject false_offset default_offset) =
     BoolPatternBranch (g 1 subject) false_offset default_offset"
| "switch_map_registers g (IntegerRangeJumpIf subject descriptor offset operand_kind) =
     IntegerRangeJumpIf (g 1 subject) descriptor offset operand_kind"
| "switch_map_registers g (IntegerRangeJumpUnless subject descriptor offset operand_kind) =
     IntegerRangeJumpUnless (g 1 subject) descriptor offset operand_kind"

primrec loop_map_registers :: "(nat \<Rightarrow> register \<Rightarrow> register) \<Rightarrow> loop_instruction \<Rightarrow> loop_instruction" where
  "loop_map_registers g (IncrementJump target immediate offset) =
     IncrementJump (g 1 target) immediate offset"
| "loop_map_registers g (CounterLoop comparison counter limit offset) =
     CounterLoop comparison (g 2 counter) (g 4 limit) offset"
| "loop_map_registers g (IntCounterLoop comparison counter limit offset) =
     IntCounterLoop comparison (g 2 counter) (g 4 limit) offset"
| "loop_map_registers g (UintCounterLoop comparison counter limit offset) =
     UintCounterLoop comparison (g 2 counter) (g 4 limit) offset"
| "loop_map_registers g (NumericLoop comparison left right offset) =
     NumericLoop comparison (g 2 left) (g 4 right) offset"
| "loop_map_registers g (IntNumericLoop comparison left right offset) =
     IntNumericLoop comparison (g 2 left) (g 4 right) offset"
| "loop_map_registers g (PreparedIntNumericLoop descriptor offset) =
     PreparedIntNumericLoop descriptor offset"
| "loop_map_registers g (IntStepLoop descriptor offset) = IntStepLoop descriptor offset"
| "loop_map_registers g (NumericRegionJump offset) = NumericRegionJump offset"

primrec array_map_registers :: "(nat \<Rightarrow> register \<Rightarrow> register) \<Rightarrow> array_instruction \<Rightarrow> array_instruction" where
  "array_map_registers g (NewArray element_count destination first_element operand_kind) =
     NewArray element_count (g 2 destination) (g 4 first_element) operand_kind"
| "array_map_registers g (NewFilledVec destination value_register size_register) =
     NewFilledVec (g 1 destination) (g 3 value_register) (g 5 size_register)"
| "array_map_registers g (ReserveArray container additional) =
     ReserveArray (g 1 container) (g 3 additional)"
| "array_map_registers g (Length destination source) = Length (g 1 destination) (g 3 source)"
| "array_map_registers g (ElementGet destination subject index_register) =
     ElementGet (g 1 destination) (g 3 subject) index_register"
| "array_map_registers g (IndexGet destination container index_register) =
     IndexGet (g 1 destination) (g 3 container) (g 5 index_register)"
| "array_map_registers g (IndexGetPath index_count destination container first_index) =
     IndexGetPath index_count (g 2 destination) (g 4 container) (g 6 first_index)"
| "array_map_registers g (VecIndexGet destination container index_register value_mode) =
     VecIndexGet (g 1 destination) (g 3 container) (g 5 index_register) value_mode"
| "array_map_registers g (DictIndexGetIntKey destination container index_register value_mode) =
     DictIndexGetIntKey (g 1 destination) (g 3 container) (g 5 index_register) value_mode"
| "array_map_registers g (DictIndexGetUintKey destination container index_register value_mode) =
     DictIndexGetUintKey (g 1 destination) (g 3 container) (g 5 index_register) value_mode"
| "array_map_registers g (DictIndexGetStringKey destination container index_register value_mode) =
     DictIndexGetStringKey (g 1 destination) (g 3 container) (g 5 index_register) value_mode"
| "array_map_registers g (IndexGetOrNull destination container index_register) =
     IndexGetOrNull (g 1 destination) (g 3 container) (g 5 index_register)"
| "array_map_registers g (VecIndexGetOrNull destination container index_register) =
     VecIndexGetOrNull (g 1 destination) (g 3 container) (g 5 index_register)"
| "array_map_registers g (DictIndexGetIntegerKeyOrNull destination container index_register operand_kind) =
     DictIndexGetIntegerKeyOrNull (g 1 destination) (g 3 container) (g 5 index_register) operand_kind"
| "array_map_registers g (DictIndexGetStringKeyOrNull destination container index_register) =
     DictIndexGetStringKeyOrNull (g 1 destination) (g 3 container) (g 5 index_register)"
| "array_map_registers g (IndexCoalesce destination container index_register offset) =
     IndexCoalesce (g 1 destination) (g 3 container) (g 5 index_register) offset"
| "array_map_registers g (VecIndexCoalesce destination container index_register offset) =
     VecIndexCoalesce (g 1 destination) (g 3 container) (g 5 index_register) offset"
| "array_map_registers g (DictIndexCoalesceIntKey destination container index_register offset) =
     DictIndexCoalesceIntKey (g 1 destination) (g 3 container) (g 5 index_register) offset"
| "array_map_registers g (DictIndexCoalesceUintKey destination container index_register offset) =
     DictIndexCoalesceUintKey (g 1 destination) (g 3 container) (g 5 index_register) offset"
| "array_map_registers g (DictIndexCoalesceStringKey destination container index_register offset) =
     DictIndexCoalesceStringKey (g 1 destination) (g 3 container) (g 5 index_register) offset"

primrec update_map_registers :: "(nat \<Rightarrow> register \<Rightarrow> register) \<Rightarrow> update_instruction \<Rightarrow> update_instruction" where
  "update_map_registers g (IndexSet container index_register value_register) =
     IndexSet (g 1 container) (g 3 index_register) (g 5 value_register)"
| "update_map_registers g (IndexSetPath index_count container first_index value_register) =
     IndexSetPath index_count (g 2 container) (g 4 first_index) (g 6 value_register)"
| "update_map_registers g (IndexUpdatePath index_count operation container operand_register) =
     IndexUpdatePath index_count operation (g 3 container) (g 5 operand_register)"
| "update_map_registers g (VecIndexSet container index_register value_register) =
     VecIndexSet (g 1 container) (g 3 index_register) (g 5 value_register)"
| "update_map_registers g (DictIndexSet container index_register value_register) =
     DictIndexSet (g 1 container) (g 3 index_register) (g 5 value_register)"
| "update_map_registers g (DictIndexSetIntegerKey container index_register value_register operand_kind) =
     DictIndexSetIntegerKey (g 1 container) (g 3 index_register) (g 5 value_register) operand_kind"
| "update_map_registers g (DictIndexSetStringKey container index_register value_register) =
     DictIndexSetStringKey (g 1 container) (g 3 index_register) (g 5 value_register)"
| "update_map_registers g (IndexAddAssign container index_register value_register mode) =
     IndexAddAssign (g 1 container) (g 3 index_register) (g 5 value_register) mode"
| "update_map_registers g (Append container value_register) =
     Append (g 1 container) (g 3 value_register)"
| "update_map_registers g (VecAppend container value_register) =
     VecAppend (g 1 container) (g 3 value_register)"
| "update_map_registers g (Spread container value_register) =
     Spread (g 1 container) (g 3 value_register)"
| "update_map_registers g (Rest destination subject from) =
     Rest (g 1 destination) (g 3 subject) from"
| "update_map_registers g (Contains destination array value_register) =
     Contains (g 1 destination) (g 3 array) (g 5 value_register)"
| "update_map_registers g (ContainsKey destination array key_register) =
     ContainsKey (g 1 destination) (g 3 array) (g 5 key_register)"
| "update_map_registers g (Remove destination container key_register) =
     Remove (g 1 destination) (g 3 container) (g 5 key_register)"
| "update_map_registers g (RemoveFirst destination container) =
     RemoveFirst (g 1 destination) (g 3 container)"
| "update_map_registers g (RemoveLast destination container) =
     RemoveLast (g 1 destination) (g 3 container)"
| "update_map_registers g (SwapRemove destination container index_register) =
     SwapRemove (g 1 destination) (g 3 container) (g 5 index_register)"
| "update_map_registers g (CheckDestructure subject required arity rest) =
     CheckDestructure (g 1 subject) required arity rest"
| "update_map_registers g (ForeachInit iterator subject reserve_register) =
     ForeachInit (g 1 iterator) (g 3 subject) (g 5 reserve_register)"
| "update_map_registers g (ForeachNext iterator key_destination value_destination) =
     ForeachNext (g 1 iterator) (g 3 key_destination) (g 5 value_destination)"
| "update_map_registers g (VecForeachNext iterator key_destination value_destination value_mode) =
     VecForeachNext (g 1 iterator) (g 3 key_destination) (g 5 value_destination) value_mode"
| "update_map_registers g (DictForeachNext iterator key_destination value_destination value_mode) =
     DictForeachNext (g 1 iterator) (g 3 key_destination) (g 5 value_destination) value_mode"

primrec object_map_registers :: "(nat \<Rightarrow> register \<Rightarrow> register) \<Rightarrow> object_instruction \<Rightarrow> object_instruction" where
  "object_map_registers g (NewStatic destination cache_slot) =
     NewStatic (g 1 destination) cache_slot"
| "object_map_registers g (NewDynamic destination class_name) =
     NewDynamic (g 1 destination) (g 3 class_name)"
| "object_map_registers g (NewTyped destination descriptor) = NewTyped (g 1 destination) descriptor"
| "object_map_registers g (CloneObject destination source) =
     CloneObject (g 1 destination) (g 3 source)"
| "object_map_registers g (InitializeProperties object cache_slot descriptor) =
     InitializeProperties (g 1 object) cache_slot descriptor"
| "object_map_registers g (PropertyGet destination object cache_slot) =
     PropertyGet (g 1 destination) (g 3 object) cache_slot"
| "object_map_registers g (PropertyGetUnchecked destination object slot value_mode) =
     PropertyGetUnchecked (g 1 destination) (g 3 object) slot value_mode"
| "object_map_registers g (PropertyGetOrNull destination object cache_slot) =
     PropertyGetOrNull (g 1 destination) (g 3 object) cache_slot"
| "object_map_registers g (PropertyGetOrNullUnchecked destination object slot) =
     PropertyGetOrNullUnchecked (g 1 destination) (g 3 object) slot"
| "object_map_registers g (PropertyCoalesce destination object cache_slot offset) =
     PropertyCoalesce (g 1 destination) (g 3 object) cache_slot offset"
| "object_map_registers g (PropertyCoalesceUnchecked destination object slot offset) =
     PropertyCoalesceUnchecked (g 1 destination) (g 3 object) slot offset"
| "object_map_registers g (PropertySet object value_register cache_slot) =
     PropertySet (g 1 object) (g 3 value_register) cache_slot"
| "object_map_registers g (PropertySetUnchecked object value_register slot value_mode) =
     PropertySetUnchecked (g 1 object) (g 3 value_register) slot value_mode"
| "object_map_registers g (PropertyInitRaw object value_register cache_slot) =
     PropertyInitRaw (g 1 object) (g 3 value_register) cache_slot"
| "object_map_registers g (PropertyIndexSet object first_operand cache_slot) =
     PropertyIndexSet (g 1 object) (g 3 first_operand) cache_slot"
| "object_map_registers g (PropertyIndexSetUnchecked object first_operand slot) =
     PropertyIndexSetUnchecked (g 1 object) (g 3 first_operand) slot"
| "object_map_registers g (PropertyIndexUpdate object operand_register cache_slot mode) =
     PropertyIndexUpdate (g 1 object) (g 3 operand_register) cache_slot mode"
| "object_map_registers g (PropertyIndexUpdateUnchecked object operand_register slot mode) =
     PropertyIndexUpdateUnchecked (g 1 object) (g 3 operand_register) slot mode"
| "object_map_registers g (PropertyStep object cache_slot immediate mode) =
     PropertyStep (g 1 object) cache_slot immediate mode"
| "object_map_registers g (PropertyStepUnchecked object slot immediate mode) =
     PropertyStepUnchecked (g 1 object) slot immediate mode"
| "object_map_registers g (PropertyAdd object source cache_slot) =
     PropertyAdd (g 1 object) (g 3 source) cache_slot"
| "object_map_registers g (PropertyAddUnchecked object source slot) =
     PropertyAddUnchecked (g 1 object) (g 3 source) slot"
| "object_map_registers g (PropertyFillIntRange object first_operand cache_slot) =
     PropertyFillIntRange (g 1 object) (g 3 first_operand) cache_slot"
| "object_map_registers g (PropertyRemove object destination cache_slot mode) =
     PropertyRemove (g 1 object) (g 3 destination) cache_slot mode"
| "object_map_registers g (PropertyRemoveUnchecked object destination slot mode) =
     PropertyRemoveUnchecked (g 1 object) (g 3 destination) slot mode"
| "object_map_registers g (StaticPropertyGet destination cache_slot) =
     StaticPropertyGet (g 1 destination) cache_slot"
| "object_map_registers g (StaticPropertyGetOrNull destination cache_slot) =
     StaticPropertyGetOrNull (g 1 destination) cache_slot"
| "object_map_registers g (StaticPropertyCoalesce destination cache_slot offset) =
     StaticPropertyCoalesce (g 1 destination) cache_slot offset"
| "object_map_registers g (StaticPropertySet cache_slot value_register) =
     StaticPropertySet cache_slot (g 3 value_register)"

primrec call_map_registers :: "(nat \<Rightarrow> register \<Rightarrow> register) \<Rightarrow> call_instruction \<Rightarrow> call_instruction" where
  "call_map_registers g (MakeClosure capture_count destination prototype first_capture) =
     MakeClosure capture_count (g 2 destination) prototype (g 6 first_capture)"
| "call_map_registers g (MakeBound destination callee_register descriptor) =
     MakeBound (g 1 destination) (g 3 callee_register) descriptor"
| "call_map_registers g (CallValue argument_count destination callee_register first_argument) =
     CallValue argument_count (g 2 destination) (g 4 callee_register) (g 6 first_argument)"
| "call_map_registers g (CallValueUnchecked argument_count destination callee_register first_argument) =
     CallValueUnchecked argument_count (g 2 destination) (g 4 callee_register) (g 6 first_argument)"
| "call_map_registers g (CallValueDiscarded argument_count destination callee_register first_argument) =
     CallValueDiscarded argument_count (g 2 destination) (g 4 callee_register) (g 6 first_argument)"
| "call_map_registers g (CallNamed argument_count destination first_argument cache_slot) =
     CallNamed argument_count (g 2 destination) (g 4 first_argument) cache_slot"
| "call_map_registers g (CallNamedUnchecked argument_count destination first_argument cache_slot) =
     CallNamedUnchecked argument_count (g 2 destination) (g 4 first_argument) cache_slot"
| "call_map_registers g (CallNamedDirect argument_count destination first_argument cache_slot) =
     CallNamedDirect argument_count (g 2 destination) (g 4 first_argument) cache_slot"
| "call_map_registers g (CallNamedConstantUnchecked destination constant_operand cache_slot borrowed) =
     CallNamedConstantUnchecked (g 1 destination) constant_operand cache_slot borrowed"
| "call_map_registers g (CallNamedDiscarded argument_count destination first_argument cache_slot) =
     CallNamedDiscarded argument_count (g 2 destination) (g 4 first_argument) cache_slot"
| "call_map_registers g (CallMethod argument_count destination first_argument cache_slot) =
     CallMethod argument_count (g 2 destination) (g 4 first_argument) cache_slot"
| "call_map_registers g (CallMethodUnchecked argument_count destination first_argument cache_slot) =
     CallMethodUnchecked argument_count (g 2 destination) (g 4 first_argument) cache_slot"
| "call_map_registers g (CallMethodDirect argument_count destination first_argument cache_slot) =
     CallMethodDirect argument_count (g 2 destination) (g 4 first_argument) cache_slot"
| "call_map_registers g (CallMethodDiscarded argument_count destination first_argument cache_slot) =
     CallMethodDiscarded argument_count (g 2 destination) (g 4 first_argument) cache_slot"
| "call_map_registers g (CallStatic argument_count destination first_argument cache_slot) =
     CallStatic argument_count (g 2 destination) (g 4 first_argument) cache_slot"
| "call_map_registers g (CallStaticDiscarded argument_count destination first_argument cache_slot) =
     CallStaticDiscarded argument_count (g 2 destination) (g 4 first_argument) cache_slot"
| "call_map_registers g (CallSelfUnchecked argument_count destination first_argument) =
     CallSelfUnchecked argument_count (g 2 destination) (g 4 first_argument)"
| "call_map_registers g (CallWithNames destination callee_register descriptor) =
     CallWithNames (g 1 destination) (g 3 callee_register) descriptor"
| "call_map_registers g (CallWithNamesDiscarded destination callee_register descriptor) =
     CallWithNamesDiscarded (g 1 destination) (g 3 callee_register) descriptor"
| "call_map_registers g (CheckDiscardedResult source) = CheckDiscardedResult (g 1 source)"

primrec return_map_registers :: "(nat \<Rightarrow> register \<Rightarrow> register) \<Rightarrow> return_instruction \<Rightarrow> return_instruction" where
  "return_map_registers g (Return source) = Return (g 1 source)"
| "return_map_registers g (ReturnUnchecked source) = ReturnUnchecked (g 1 source)"
| "return_map_registers g (ReturnReferenceUnchecked source) = ReturnReferenceUnchecked (g 1 source)"
| "return_map_registers g (ReturnScalarUnchecked source) = ReturnScalarUnchecked (g 1 source)"
| "return_map_registers g (ReturnIntegerUnchecked immediate operand_kind) =
     ReturnIntegerUnchecked immediate operand_kind"
| "return_map_registers g (ReturnPairUnchecked first second) =
     ReturnPairUnchecked (g 1 first) (g 3 second)"
| "return_map_registers g ReturnNull = ReturnNull"
| "return_map_registers g ReturnNullUnchecked = ReturnNullUnchecked"

primrec check_map_registers :: "(nat \<Rightarrow> register \<Rightarrow> register) \<Rightarrow> check_instruction \<Rightarrow> check_instruction" where
  "check_map_registers g (Is destination source descriptor) =
     Is (g 1 destination) (g 3 source) descriptor"
| "check_map_registers g (AsCheck destination source descriptor mode) =
     AsCheck (g 1 destination) (g 3 source) descriptor mode"
| "check_map_registers g (AsOrNull destination source descriptor) =
     AsOrNull (g 1 destination) (g 3 source) descriptor"
| "check_map_registers g (CheckDefined subject name) = CheckDefined (g 1 subject) name"
| "check_map_registers g (CheckSoleReference source message chain_previous) =
     CheckSoleReference (g 1 source) message chain_previous"
| "check_map_registers g CheckWhereConstraints = CheckWhereConstraints"
| "check_map_registers g (Throw source) = Throw (g 1 source)"
| "check_map_registers g Rethrow = Rethrow"
| "check_map_registers g (ThrowUnhandledMatch subject) = ThrowUnhandledMatch (g 1 subject)"
| "check_map_registers g (Panic message) = Panic (g 1 message)"
| "check_map_registers g (Assert operand_count first_value message text) =
     Assert operand_count (g 2 first_value) (g 4 message) text"
| "check_map_registers g (Exit exit_code) = Exit (g 1 exit_code)"
| "check_map_registers g (Write element_count register new_line stderr) =
     Write element_count (g 2 register) new_line stderr"
| "check_map_registers g (Debug value_count first_value) = Debug value_count (g 2 first_value)"
| "check_map_registers g (Require once destination path) =
     Require once (g 2 destination) (g 4 path)"
| "check_map_registers g DrainFinalizers = DrainFinalizers"
| "check_map_registers g (Fresh destination) = Fresh (g 1 destination)"

definition map_registers :: "(nat \<Rightarrow> register \<Rightarrow> register) \<Rightarrow> instruction \<Rightarrow> instruction" where
  "map_registers g ins =
     (case ins of
        Load i \<Rightarrow> Load (load_map_registers g i)
      | Arithmetic i \<Rightarrow> Arithmetic (arithmetic_map_registers g i)
      | FloatOp i \<Rightarrow> FloatOp (float_map_registers g i)
      | CompareOp i \<Rightarrow> CompareOp (compare_map_registers g i)
      | StringOp i \<Rightarrow> StringOp (string_map_registers g i)
      | Branch i \<Rightarrow> Branch (jump_map_registers g i)
      | Switch i \<Rightarrow> Switch (switch_map_registers g i)
      | LoopOp i \<Rightarrow> LoopOp (loop_map_registers g i)
      | ArrayOp i \<Rightarrow> ArrayOp (array_map_registers g i)
      | ArrayUpdate i \<Rightarrow> ArrayUpdate (update_map_registers g i)
      | ObjectOp i \<Rightarrow> ObjectOp (object_map_registers g i)
      | CallOp i \<Rightarrow> CallOp (call_map_registers g i)
      | ReturnOp i \<Rightarrow> ReturnOp (return_map_registers g i)
      | CheckOp i \<Rightarrow> CheckOp (check_map_registers g i))"

definition write_register :: "nat \<Rightarrow> register \<Rightarrow> instruction \<Rightarrow> instruction" where
  "write_register offset r = map_registers (\<lambda>at old. if at = offset then r else old)"

section \<open>The operand table\<close>

datatype access = ReadAccess | WriteAccess

type_synonym operand = "nat \<times> access"

abbreviation R1 :: operand where "R1 \<equiv> (1, ReadAccess)"
abbreviation R2 :: operand where "R2 \<equiv> (2, ReadAccess)"
abbreviation R3 :: operand where "R3 \<equiv> (3, ReadAccess)"
abbreviation R4 :: operand where "R4 \<equiv> (4, ReadAccess)"
abbreviation R5 :: operand where "R5 \<equiv> (5, ReadAccess)"
abbreviation R6 :: operand where "R6 \<equiv> (6, ReadAccess)"
abbreviation W1 :: operand where "W1 \<equiv> (1, WriteAccess)"
abbreviation W2 :: operand where "W2 \<equiv> (2, WriteAccess)"
abbreviation W3 :: operand where "W3 \<equiv> (3, WriteAccess)"
abbreviation W5 :: operand where "W5 \<equiv> (5, WriteAccess)"

primrec load_operand_table :: "load_instruction \<Rightarrow> operand list option" where
  "load_operand_table (Move _ _) = Some [R3, W1]"
| "load_operand_table (MoveOwned _ _) = Some [R3, W3, W1]"
| "load_operand_table (Clear _) = Some [W1]"
| "load_operand_table (LoadConstant _ _) = Some [W1]"
| "load_operand_table (LoadNull _) = Some [W1]"
| "load_operand_table (LoadTrue _) = Some [W1]"
| "load_operand_table (LoadFalse _) = Some [W1]"
| "load_operand_table (LoadInteger _ _ _) = Some [W1]"
| "load_operand_table (ConstantGet _ _) = Some [W1]"
| "load_operand_table (ClassConstantGet _ _) = Some [W1]"

primrec arithmetic_operand_table :: "arithmetic_instruction \<Rightarrow> operand list option" where
  "arithmetic_operand_table (Add _ _ _ _) = Some [R3, R5, W1]"
| "arithmetic_operand_table (AddImmediate _ _ _ _) = Some [R3, W1]"
| "arithmetic_operand_table (IntegerAddAssign _ _ _) = Some [R1, R3, W1]"
| "arithmetic_operand_table (Subtract _ _ _ _) = Some [R3, R5, W1]"
| "arithmetic_operand_table (SubtractImmediate _ _ _ _) = Some [R3, W1]"
| "arithmetic_operand_table (Multiply _ _ _ _) = Some [R3, R5, W1]"
| "arithmetic_operand_table (IntegerMultiplyImmediate _ _ _ _) = Some [R3, W1]"
| "arithmetic_operand_table (Divide _ _ _) = Some [R3, R5, W1]"
| "arithmetic_operand_table (Modulo _ _ _ _) = Some [R3, R5, W1]"
| "arithmetic_operand_table (IntegerModuloImmediate _ _ _ _) = Some [R3, W1]"
| "arithmetic_operand_table (Power _ _ _) = Some [R3, R5, W1]"
| "arithmetic_operand_table (Negate _ _) = Some [R3, W1]"
| "arithmetic_operand_table (UnaryPlus _ _) = Some [R3, W1]"
| "arithmetic_operand_table (Step _ _ _ _) = Some [R3, W1]"
| "arithmetic_operand_table (BitwiseAnd _ _ _ _) = Some [R3, R5, W1]"
| "arithmetic_operand_table (BitwiseOr _ _ _ _) = Some [R3, R5, W1]"
| "arithmetic_operand_table (BitwiseXor _ _ _ _) = Some [R3, R5, W1]"
| "arithmetic_operand_table (BitwiseNot _ _ _) = Some [R3, W1]"
| "arithmetic_operand_table (ShiftLeft _ _ _ _) = Some [R3, R5, W1]"
| "arithmetic_operand_table (ShiftRight _ _ _ _) = Some [R3, R5, W1]"

primrec float_operand_table :: "float_instruction \<Rightarrow> operand list option" where
  "float_operand_table (FloatAdd _ _ _) = Some [R3, R5, W1]"
| "float_operand_table (FloatSubtract _ _ _) = Some [R3, R5, W1]"
| "float_operand_table (FloatMultiply _ _ _) = Some [R3, R5, W1]"
| "float_operand_table (FloatMultiplyConstant _ _ _) = Some [R3, W1]"
| "float_operand_table (Squares _ _ _) = None"
| "float_operand_table (FloatSquares _ _ _) = None"
| "float_operand_table (FloatSquaresSum _ _ _) = None"
| "float_operand_table (FloatSquaresSumBranch _ _) = None"
| "float_operand_table (FloatDifferenceAdd _ _ _) = None"
| "float_operand_table (FloatScaleProductAdd _ _ _) = None"
| "float_operand_table (FloatPairUpdate _) = None"

primrec compare_operand_table :: "compare_instruction \<Rightarrow> operand list option" where
  "compare_operand_table (Equal _ _ _) = Some [R3, R5, W1]"
| "compare_operand_table (NotEqual _ _ _) = Some [R3, R5, W1]"
| "compare_operand_table (LessThan _ _ _) = Some [R3, R5, W1]"
| "compare_operand_table (LessThanOrEqual _ _ _) = Some [R3, R5, W1]"
| "compare_operand_table (GreaterThan _ _ _) = Some [R3, R5, W1]"
| "compare_operand_table (GreaterThanOrEqual _ _ _) = Some [R3, R5, W1]"
| "compare_operand_table (Compare _ _ _) = Some [R3, R5, W1]"
| "compare_operand_table (NotOp _ _) = Some [R3, W1]"
| "compare_operand_table (Concatenate _ _ _) = Some [R3, R5, W1]"
| "compare_operand_table (ConcatenateLeftConstant _ _ _) = Some [R3, W1]"
| "compare_operand_table (ConcatenateRightConstant _ _ _) = Some [R3, W1]"

primrec string_operand_table :: "string_instruction \<Rightarrow> operand list option" where
  "string_operand_table (StringLength _ _) = Some [R3, W1]"
| "string_operand_table (StringIndexGet _ _ _) = Some [R3, R5, W1]"
| "string_operand_table (StringIndexGetOrNull _ _ _) = Some [R3, R5, W1]"
| "string_operand_table (StringIndexCoalesce _ _ _ _) = Some [R3, R5, W1]"
| "string_operand_table (StringByteEqual _ _ _ _) = Some [W1, R3, R5]"
| "string_operand_table (StringByteNotEqual _ _ _ _) = Some [W1, R3, R5]"
| "string_operand_table (StringByteLessThan _ _ _ _) = Some [W1, R3, R5]"
| "string_operand_table (StringByteLessThanOrEqual _ _ _ _) = Some [W1, R3, R5]"
| "string_operand_table (StringByteGreaterThan _ _ _ _) = Some [W1, R3, R5]"
| "string_operand_table (StringByteGreaterThanOrEqual _ _ _ _) = Some [W1, R3, R5]"
| "string_operand_table (StringByteJumpUnlessEqual _ _ _ _) = Some [R1, R3]"
| "string_operand_table (StringByteJumpUnlessNotEqual _ _ _ _) = Some [R1, R3]"

primrec jump_operand_table :: "jump_instruction \<Rightarrow> operand list option" where
  "jump_operand_table (Jump _) = Some []"
| "jump_operand_table (JumpIfFalse _ _) = Some [R1]"
| "jump_operand_table (JumpIfTrue _ _) = Some [R1]"
| "jump_operand_table (JumpIfNull _ _) = Some [R1]"
| "jump_operand_table (JumpIfNotNull _ _) = Some [R1]"
| "jump_operand_table (JumpUnless _ _ _ _) = Some [R2, R4]"
| "jump_operand_table (IntJumpUnless _ _ _ _) = Some [R2, R4]"
| "jump_operand_table (UintJumpUnless _ _ _ _) = Some [R2, R4]"
| "jump_operand_table (StringJumpUnless _ _ _ _) = Some [R2, R4]"
| "jump_operand_table (JumpUnlessConstant _ _ _ _) = Some [R2]"
| "jump_operand_table (IntJumpUnlessImmediate _ _ _ _) = Some [R2]"
| "jump_operand_table (UintJumpUnlessImmediate _ _ _ _) = Some [R2]"
| "jump_operand_table (Coalesce _ _ _) = Some [R3, W1]"
| "jump_operand_table (FillDefault _ _) = Some [R1]"

primrec switch_operand_table :: "switch_instruction \<Rightarrow> operand list option" where
  "switch_operand_table (SwitchBool _ _) = Some [R1]"
| "switch_operand_table (SwitchInt _ _) = Some [R1]"
| "switch_operand_table (SwitchFloat _ _) = Some [R1]"
| "switch_operand_table (SwitchString _ _) = Some [R1]"
| "switch_operand_table (SwitchPattern _ _) = Some [R1]"
| "switch_operand_table (SwitchTuplePattern _ _ _) = Some [R1]"
| "switch_operand_table (BoolPatternBranch _ _ _) = Some [R1]"
| "switch_operand_table (IntegerRangeJumpIf _ _ _ _) = Some [R1]"
| "switch_operand_table (IntegerRangeJumpUnless _ _ _ _) = Some [R1]"

primrec loop_operand_table :: "loop_instruction \<Rightarrow> operand list option" where
  "loop_operand_table (IncrementJump _ _ _) = Some [R1, W1]"
| "loop_operand_table (CounterLoop _ _ _ _) = Some [R2, R4, W2]"
| "loop_operand_table (IntCounterLoop _ _ _ _) = Some [R2, R4, W2]"
| "loop_operand_table (UintCounterLoop _ _ _ _) = Some [R2, R4, W2]"
| "loop_operand_table (NumericLoop _ _ _ _) = Some [R2, R4]"
| "loop_operand_table (IntNumericLoop _ _ _ _) = Some [R2, R4]"
| "loop_operand_table (PreparedIntNumericLoop _ _) = None"
| "loop_operand_table (IntStepLoop _ _) = None"
| "loop_operand_table (NumericRegionJump _) = None"

primrec array_operand_table :: "array_instruction \<Rightarrow> operand list option" where
  "array_operand_table (NewArray _ _ _ _) = Some [W2]"
| "array_operand_table (NewFilledVec _ _ _) = Some [R3, R5, W1]"
| "array_operand_table (ReserveArray _ _) = Some [R1, R3]"
| "array_operand_table (Length _ _) = Some [R3, W1]"
| "array_operand_table (ElementGet _ _ _) = Some [R3, W1]"
| "array_operand_table (IndexGet _ _ _) = Some [R3, R5, W1]"
| "array_operand_table (IndexGetPath _ _ _ _) = Some [W2, R4, R6]"
| "array_operand_table (VecIndexGet _ _ _ _) = None"
| "array_operand_table (DictIndexGetIntKey _ _ _ _) = None"
| "array_operand_table (DictIndexGetUintKey _ _ _ _) = None"
| "array_operand_table (DictIndexGetStringKey _ _ _ _) = None"
| "array_operand_table (IndexGetOrNull _ _ _) = Some [R3, R5, W1]"
| "array_operand_table (VecIndexGetOrNull _ _ _) = Some [R3, R5, W1]"
| "array_operand_table (DictIndexGetIntegerKeyOrNull _ _ _ _) = Some [R3, R5, W1]"
| "array_operand_table (DictIndexGetStringKeyOrNull _ _ _) = Some [R3, R5, W1]"
| "array_operand_table (IndexCoalesce _ _ _ _) = Some [R3, R5, W1]"
| "array_operand_table (VecIndexCoalesce _ _ _ _) = Some [R3, R5, W1]"
| "array_operand_table (DictIndexCoalesceIntKey _ _ _ _) = Some [R3, R5, W1]"
| "array_operand_table (DictIndexCoalesceUintKey _ _ _ _) = Some [R3, R5, W1]"
| "array_operand_table (DictIndexCoalesceStringKey _ _ _ _) = Some [R3, R5, W1]"

primrec update_operand_table :: "update_instruction \<Rightarrow> operand list option" where
  "update_operand_table (IndexSet _ _ _) = Some [R1, R3, R5]"
| "update_operand_table (IndexSetPath _ _ _ _) = Some [R2, R4, R6]"
| "update_operand_table (IndexUpdatePath _ _ _ _) = Some [R3, R5, W5]"
| "update_operand_table (VecIndexSet _ _ _) = Some [R1, R3, R5]"
| "update_operand_table (DictIndexSet _ _ _) = Some [R1, R3, R5]"
| "update_operand_table (DictIndexSetIntegerKey _ _ _ _) = Some [R1, R3, R5]"
| "update_operand_table (DictIndexSetStringKey _ _ _) = Some [R1, R3, R5]"
| "update_operand_table (IndexAddAssign _ _ _ _) = None"
| "update_operand_table (Append _ _) = Some [R1, R3]"
| "update_operand_table (VecAppend _ _) = Some [R1, R3]"
| "update_operand_table (Spread _ _) = Some [R1, R3]"
| "update_operand_table (Rest _ _ _) = Some [R3, W1]"
| "update_operand_table (Contains _ _ _) = Some [R3, R5, W1]"
| "update_operand_table (ContainsKey _ _ _) = Some [R3, R5, W1]"
| "update_operand_table (Remove _ _ _) = Some [R3, R5, W1]"
| "update_operand_table (RemoveFirst _ _) = Some [R3, W1]"
| "update_operand_table (RemoveLast _ _) = Some [R3, W1]"
| "update_operand_table (SwapRemove _ _ _) = Some [R3, R5, W1]"
| "update_operand_table (CheckDestructure _ _ _ _) = Some [R1]"
| "update_operand_table (ForeachInit _ _ _) = Some [R3, R5, W1]"
| "update_operand_table (ForeachNext _ _ _) = Some [R1, W3, W5]"
| "update_operand_table (VecForeachNext _ _ _ _) = Some [R1, W3, W5]"
| "update_operand_table (DictForeachNext _ _ _ _) = Some [R1, W3, W5]"

primrec object_operand_table :: "object_instruction \<Rightarrow> operand list option" where
  "object_operand_table (NewStatic _ _) = Some [W1]"
| "object_operand_table (NewDynamic _ _) = Some [R3, W1]"
| "object_operand_table (NewTyped _ _) = Some [W1]"
| "object_operand_table (CloneObject _ _) = Some [R3, W1]"
| "object_operand_table (InitializeProperties _ _ _) = None"
| "object_operand_table (PropertyGet _ _ _) = Some [R3, W1]"
| "object_operand_table (PropertyGetUnchecked _ _ _ _) = Some [R3, W1]"
| "object_operand_table (PropertyGetOrNull _ _ _) = Some [R3, W1]"
| "object_operand_table (PropertyGetOrNullUnchecked _ _ _) = Some [R3, W1]"
| "object_operand_table (PropertyCoalesce _ _ _ _) = Some [R3, W1]"
| "object_operand_table (PropertyCoalesceUnchecked _ _ _ _) = Some [R3, W1]"
| "object_operand_table (PropertySet _ _ _) = Some [R1, R3]"
| "object_operand_table (PropertySetUnchecked _ _ _ _) = Some [R1, R3]"
| "object_operand_table (PropertyInitRaw _ _ _) = Some [R1, R3]"
| "object_operand_table (PropertyIndexSet _ _ _) = Some [R1, R3]"
| "object_operand_table (PropertyIndexSetUnchecked _ _ _) = Some [R1, R3]"
| "object_operand_table (PropertyIndexUpdate _ _ _ _) = Some [R1, R3]"
| "object_operand_table (PropertyIndexUpdateUnchecked _ _ _ _) = Some [R1, R3]"
| "object_operand_table (PropertyStep _ _ _ _) = Some [R1]"
| "object_operand_table (PropertyStepUnchecked _ _ _ _) = Some [R1]"
| "object_operand_table (PropertyAdd _ _ _) = Some [R1, R3]"
| "object_operand_table (PropertyAddUnchecked _ _ _) = Some [R1, R3]"
| "object_operand_table (PropertyFillIntRange _ _ _) = None"
| "object_operand_table (PropertyRemove _ _ _ _) = Some [R1, W3]"
| "object_operand_table (PropertyRemoveUnchecked _ _ _ _) = Some [R1, W3]"
| "object_operand_table (StaticPropertyGet _ _) = Some [W1]"
| "object_operand_table (StaticPropertyGetOrNull _ _) = Some [W1]"
| "object_operand_table (StaticPropertyCoalesce _ _ _) = Some [W1]"
| "object_operand_table (StaticPropertySet _ _) = Some [R3]"

primrec call_operand_table :: "call_instruction \<Rightarrow> operand list option" where
  "call_operand_table (MakeClosure _ _ _ _) = Some [W2]"
| "call_operand_table (MakeBound _ _ _) = None"
| "call_operand_table (CallValue _ _ _ _) = Some [W2, R4]"
| "call_operand_table (CallValueUnchecked _ _ _ _) = Some [W2, R4]"
| "call_operand_table (CallValueDiscarded _ _ _ _) = Some [W2, R4]"
| "call_operand_table (CallNamed _ _ _ _) = Some [W2]"
| "call_operand_table (CallNamedUnchecked _ _ _ _) = Some [R4, W2]"
| "call_operand_table (CallNamedDirect _ _ _ _) = Some [W2]"
| "call_operand_table (CallNamedConstantUnchecked _ _ _ _) = Some [W1]"
| "call_operand_table (CallNamedDiscarded _ _ _ _) = Some [W2]"
| "call_operand_table (CallMethod _ _ _ _) = Some [W2]"
| "call_operand_table (CallMethodUnchecked _ _ _ _) = Some [W2]"
| "call_operand_table (CallMethodDirect _ _ _ _) = Some [W2]"
| "call_operand_table (CallMethodDiscarded _ _ _ _) = Some [W2]"
| "call_operand_table (CallStatic _ _ _ _) = Some [W2]"
| "call_operand_table (CallStaticDiscarded _ _ _ _) = Some [W2]"
| "call_operand_table (CallSelfUnchecked _ _ _) = Some [R4, W2]"
| "call_operand_table (CallWithNames _ _ _) = None"
| "call_operand_table (CallWithNamesDiscarded _ _ _) = None"
| "call_operand_table (CheckDiscardedResult _) = Some [R1]"

primrec return_operand_table :: "return_instruction \<Rightarrow> operand list option" where
  "return_operand_table (Return _) = Some [R1]"
| "return_operand_table (ReturnUnchecked _) = Some [R1]"
| "return_operand_table (ReturnReferenceUnchecked _) = Some [R1]"
| "return_operand_table (ReturnScalarUnchecked _) = Some [R1]"
| "return_operand_table (ReturnIntegerUnchecked _ _) = Some []"
| "return_operand_table (ReturnPairUnchecked _ _) = Some [R1, R3]"
| "return_operand_table ReturnNull = Some []"
| "return_operand_table ReturnNullUnchecked = Some []"

primrec check_operand_table :: "check_instruction \<Rightarrow> operand list option" where
  "check_operand_table (Is _ _ _) = Some [R3, W1]"
| "check_operand_table (AsCheck _ _ _ _) = Some [R3, W1]"
| "check_operand_table (AsOrNull _ _ _) = Some [R3, W1]"
| "check_operand_table (CheckDefined _ _) = Some [R1]"
| "check_operand_table (CheckSoleReference _ _ _) = Some [R1]"
| "check_operand_table CheckWhereConstraints = Some []"
| "check_operand_table (Throw _) = Some [R1]"
| "check_operand_table Rethrow = Some []"
| "check_operand_table (ThrowUnhandledMatch _) = Some [R1]"
| "check_operand_table (Panic _) = Some [R1]"
| "check_operand_table (Assert _ _ _ _) = Some [R2, R4]"
| "check_operand_table (Exit _) = Some [R1]"
| "check_operand_table (Write _ _ _ _) = Some []"
| "check_operand_table (Debug _ _) = Some []"
| "check_operand_table (Require _ _ _) = Some [R4, W2]"
| "check_operand_table DrainFinalizers = Some []"
| "check_operand_table (Fresh _) = Some [W1]"

definition operands :: "instruction \<Rightarrow> operand list option" where
  "operands ins =
     (case ins of
        Load i \<Rightarrow> load_operand_table i
      | Arithmetic i \<Rightarrow> arithmetic_operand_table i
      | FloatOp i \<Rightarrow> float_operand_table i
      | CompareOp i \<Rightarrow> compare_operand_table i
      | StringOp i \<Rightarrow> string_operand_table i
      | Branch i \<Rightarrow> jump_operand_table i
      | Switch i \<Rightarrow> switch_operand_table i
      | LoopOp i \<Rightarrow> loop_operand_table i
      | ArrayOp i \<Rightarrow> array_operand_table i
      | ArrayUpdate i \<Rightarrow> update_operand_table i
      | ObjectOp i \<Rightarrow> object_operand_table i
      | CallOp i \<Rightarrow> call_operand_table i
      | ReturnOp i \<Rightarrow> return_operand_table i
      | CheckOp i \<Rightarrow> check_operand_table i)"

definition write_may_alias_inputs :: "instruction \<Rightarrow> bool" where
  "write_may_alias_inputs ins \<longleftrightarrow> \<not>
     (case ins of
        CallOp (CallNamed _ _ _ _) \<Rightarrow> True
      | CallOp (CallNamedDiscarded _ _ _ _) \<Rightarrow> True
      | CallOp (CallMethod _ _ _ _) \<Rightarrow> True
      | CallOp (CallMethodDiscarded _ _ _ _) \<Rightarrow> True
      | CallOp (CallStatic _ _ _ _) \<Rightarrow> True
      | CallOp (CallStaticDiscarded _ _ _ _) \<Rightarrow> True
      | CallOp (CallValue _ _ _ _) \<Rightarrow> True
      | CallOp (CallValueUnchecked _ _ _ _) \<Rightarrow> True
      | CallOp (CallValueDiscarded _ _ _ _) \<Rightarrow> True
      | ArrayUpdate (ForeachInit _ _ _) \<Rightarrow> True
      | ArrayUpdate (ForeachNext _ _ _) \<Rightarrow> True
      | ArrayUpdate (VecForeachNext _ _ _ _) \<Rightarrow> True
      | ArrayUpdate (DictForeachNext _ _ _ _) \<Rightarrow> True
      | _ \<Rightarrow> False)"

end
