(* ===== verification/Whim_OptVisit.thy ===== *)
theory Whim_OptVisit
  imports Whim_OptOperands
begin

text \<open>
  Visiting and rewriting the register operands of an instruction
  (\<^verbatim>\<open>crates/optimizer/src/operands.rs\<close>): the implicit windows, the three visitors, the replacement of
  a read register and the renaming of all registers. A visitor is the list of the registers it
  visits, in order, and \<open>None\<close> for an instruction the table does not classify. Register indices are
  added at 16 bits; on the instructions of a verified chunk the additions do not wrap.
\<close>

section \<open>Visiting\<close>

text \<open>
  The consecutive registers an instruction reads beside its fields, as the first and the number of
  them.
\<close>

definition array_implicit_reads :: "array_instruction \<Rightarrow> (register \<times> nat) option" where
  "array_implicit_reads i =
     (case i of
        IndexGetPath index_count _ _ first_index \<Rightarrow> Some (first_index, unat index_count)
      | NewArray n _ first_element kind \<Rightarrow>
          if n \<noteq> 0 then Some (first_element, unat (array_register_count kind n)) else None
      | _ \<Rightarrow> None)"

definition update_implicit_reads :: "update_instruction \<Rightarrow> (register \<times> nat) option" where
  "update_implicit_reads i =
     (case i of
        IndexUpdatePath index_count _ _ operand \<Rightarrow> Some (operand, unat index_count + 1)
      | IndexSetPath index_count _ first_index _ \<Rightarrow> Some (first_index, unat index_count)
      | _ \<Rightarrow> None)"

definition call_implicit_reads :: "call_instruction \<Rightarrow> (register \<times> nat) option" where
  "call_implicit_reads i =
     (let arguments = (\<lambda>n first. if n \<noteq> 0 then Some (first, unat n) else None);
          further = (\<lambda>n first. if n > 1 then Some (first + 1, unat (n - 1)) else None)
      in case i of
        CallNamed n _ first_argument _ \<Rightarrow> arguments n first_argument
      | CallNamedDiscarded n _ first_argument _ \<Rightarrow> arguments n first_argument
      | CallMethod n _ first_argument _ \<Rightarrow> arguments n first_argument
      | CallMethodDiscarded n _ first_argument _ \<Rightarrow> arguments n first_argument
      | CallMethodUnchecked n _ first_argument _ \<Rightarrow> arguments n first_argument
      | CallMethodDirect n _ first_argument _ \<Rightarrow> arguments n first_argument
      | CallNamedDirect n _ first_argument _ \<Rightarrow> arguments n first_argument
      | CallStatic n _ first_argument _ \<Rightarrow> arguments n first_argument
      | CallStaticDiscarded n _ first_argument _ \<Rightarrow> arguments n first_argument
      | CallValue n _ _ first_argument \<Rightarrow> arguments n first_argument
      | CallValueUnchecked n _ _ first_argument \<Rightarrow> arguments n first_argument
      | CallValueDiscarded n _ _ first_argument \<Rightarrow> arguments n first_argument
      | CallNamedUnchecked n _ first_argument _ \<Rightarrow> further n first_argument
      | CallSelfUnchecked n _ first_argument \<Rightarrow> further n first_argument
      | MakeClosure n _ _ first_capture \<Rightarrow> arguments n first_capture
      | _ \<Rightarrow> None)"

definition check_implicit_reads :: "check_instruction \<Rightarrow> (register \<times> nat) option" where
  "check_implicit_reads i =
     (case i of
        Assert n first_value _ _ \<Rightarrow> if n \<noteq> 0 then Some (first_value + 1, unat n) else None
      | Write n first_value _ _ \<Rightarrow> if n \<noteq> 0 then Some (first_value, unat n) else None
      | Debug n first_value \<Rightarrow> if n \<noteq> 0 then Some (first_value, unat n) else None
      | _ \<Rightarrow> None)"

definition object_implicit_reads :: "object_instruction \<Rightarrow> (register \<times> nat) option" where
  "object_implicit_reads i =
     (case i of
        PropertyIndexSet _ first_operand _ \<Rightarrow> Some (first_operand + 1, 1)
      | PropertyIndexSetUnchecked _ first_operand _ \<Rightarrow> Some (first_operand + 1, 1)
      | PropertyRemove _ destination _ mode \<Rightarrow>
          if uses_operand mode then Some (destination + 1, 1) else None
      | PropertyRemoveUnchecked _ destination _ mode \<Rightarrow>
          if uses_operand mode then Some (destination + 1, 1) else None
      | _ \<Rightarrow> None)"

definition implicit_reads :: "instruction \<Rightarrow> (register \<times> nat) option" where
  "implicit_reads ins =
     (case ins of
        ArrayOp i \<Rightarrow> array_implicit_reads i
      | ArrayUpdate i \<Rightarrow> update_implicit_reads i
      | Switch (SwitchTuplePattern first_element n _) \<Rightarrow>
          if n \<noteq> 0 then Some (first_element, unat n) else None
      | ObjectOp i \<Rightarrow> object_implicit_reads i
      | CallOp i \<Rightarrow> call_implicit_reads i
      | CheckOp i \<Rightarrow> check_implicit_reads i
      | _ \<Rightarrow> None)"

text \<open>The first argument of an unchecked call is no operand of a call without arguments.\<close>

definition calls_without_arguments :: "instruction \<Rightarrow> bool" where
  "calls_without_arguments ins \<longleftrightarrow>
     (case ins of
        CallOp (CallNamedUnchecked n _ _ _) \<Rightarrow> n = 0
      | CallOp (CallSelfUnchecked n _ _) \<Rightarrow> n = 0
      | _ \<Rightarrow> False)"

definition duplicate :: "access option \<Rightarrow> operand list \<Rightarrow> nat \<Rightarrow> bool" where
  "duplicate acc before offset \<longleftrightarrow>
     list_ex (\<lambda>(previous, a). previous = offset \<and> (acc = Some ReadAccess \<longrightarrow> a = ReadAccess)) before"

fun visit_operands ::
  "instruction \<Rightarrow> access option \<Rightarrow> operand list \<Rightarrow> operand list \<Rightarrow> register list" where
  "visit_operands ins acc before [] = []"
| "visit_operands ins acc before ((offset, a) # rest) =
     (let visited = visit_operands ins acc (before @ [(offset, a)]) rest
      in if (acc \<noteq> None \<and> acc \<noteq> Some a) \<or> duplicate acc before offset \<or>
            (offset = 4 \<and> calls_without_arguments ins)
         then visited
         else case register_at ins offset of
           None \<Rightarrow> visited
         | Some r \<Rightarrow> if r \<noteq> register_NONE then r # visited else visited)"

definition for_each_explicit_register :: "instruction \<Rightarrow> access option \<Rightarrow> register list option" where
  "for_each_explicit_register ins acc = map_option (visit_operands ins acc []) (operands ins)"

definition implicit_registers :: "instruction \<Rightarrow> register list" where
  "implicit_registers ins =
     (case implicit_reads ins of
        None \<Rightarrow> []
      | Some (first, n) \<Rightarrow> map (\<lambda>offset. first + of_nat offset) [0..<n])"

definition for_each_register :: "instruction \<Rightarrow> register list option" where
  "for_each_register ins =
     map_option (\<lambda>visited. visited @ implicit_registers ins) (for_each_explicit_register ins None)"

definition for_each_write_register :: "instruction \<Rightarrow> register list option" where
  "for_each_write_register ins = for_each_explicit_register ins (Some WriteAccess)"

definition for_each_read_register :: "instruction \<Rightarrow> register list option" where
  "for_each_read_register ins =
     map_option (\<lambda>visited. visited @ implicit_registers ins)
       (for_each_explicit_register ins (Some ReadAccess))"

section \<open>Rewriting\<close>

text \<open>
  Replacing a read register. An output of one value renames its window; a register inside a window
  cannot be renamed and the result is \<open>None\<close>, as it is for an unclassified instruction; otherwise
  every field the table lists as read is renamed, one after the other.
\<close>

definition in_window :: "register \<Rightarrow> register \<Rightarrow> nat \<Rightarrow> bool" where
  "in_window r first n \<longleftrightarrow> first \<le> r \<and> unat (r - first) < n"

definition replace_single_output :: "instruction \<Rightarrow> register \<Rightarrow> register \<Rightarrow> instruction option" where
  "replace_single_output ins old new =
     (case ins of
        CheckOp (Write n first_value new_line stderr) \<Rightarrow>
          if n = 1 \<and> first_value = old then Some (CheckOp (Write n new new_line stderr)) else None
      | CheckOp (Debug n first_value) \<Rightarrow>
          if n = 1 \<and> first_value = old then Some (CheckOp (Debug n new)) else None
      | _ \<Rightarrow> None)"

definition in_fixed_window :: "instruction \<Rightarrow> register \<Rightarrow> bool" where
  "in_fixed_window ins old \<longleftrightarrow>
     (case ins of
        CallOp (CallNamedUnchecked n _ first_argument _) \<Rightarrow> in_window old first_argument (unat n)
      | CallOp (CallSelfUnchecked n _ first_argument) \<Rightarrow> in_window old first_argument (unat n)
      | ObjectOp (PropertyIndexSet _ first_operand _) \<Rightarrow>
          old = first_operand \<or> unat old = min (unat first_operand + 1) 0xFFFF
      | ObjectOp (PropertyIndexSetUnchecked _ first_operand _) \<Rightarrow>
          old = first_operand \<or> unat old = min (unat first_operand + 1) 0xFFFF
      | _ \<Rightarrow> False) \<or>
     (case implicit_reads ins of None \<Rightarrow> False | Some (first, n) \<Rightarrow> in_window old first n)"

fun replace_reads :: "operand list \<Rightarrow> register \<Rightarrow> register \<Rightarrow> instruction \<Rightarrow> instruction" where
  "replace_reads [] old new ins = ins"
| "replace_reads ((offset, a) # rest) old new ins =
     replace_reads rest old new
       (if a = ReadAccess \<and> register_at ins offset = Some old
        then write_register offset new ins else ins)"

definition replace_read_register :: "instruction \<Rightarrow> register \<Rightarrow> register \<Rightarrow> instruction option" where
  "replace_read_register ins old new =
     (case replace_single_output ins old new of
        Some replaced \<Rightarrow> Some replaced
      | None \<Rightarrow>
          if in_fixed_window ins old then None
          else map_option (\<lambda>ops. replace_reads ops old new ins) (operands ins))"

text \<open>
  Renaming every register through a table, whose index panics where the table is too short. The
  renaming of an instruction without a table row is undefined behaviour in the source, which rules
  it out beforehand; it is the outer \<open>None\<close>.
\<close>

fun remap_operands ::
  "register list \<Rightarrow> operand list \<Rightarrow> operand list \<Rightarrow> instruction \<Rightarrow> panic + instruction" where
  "remap_operands mapping before [] ins = Inr ins"
| "remap_operands mapping before ((offset, a) # rest) ins =
     (let continue = remap_operands mapping (before @ [(offset, a)]) rest
      in if (offset = 4 \<and> calls_without_arguments ins) \<or> duplicate None before offset
         then continue ins
         else case register_at ins offset of
           None \<Rightarrow> continue ins
         | Some r \<Rightarrow>
             if r = register_NONE then continue ins
             else result_bind (index_of mapping (unat r)) (\<lambda>remapped.
               continue (write_register offset remapped ins)))"

definition remap_registers :: "instruction \<Rightarrow> register list \<Rightarrow> (panic + instruction) option" where
  "remap_registers ins mapping = map_option (\<lambda>ops. remap_operands mapping [] ops ins) (operands ins)"

section \<open>The fields of an instruction\<close>

text \<open>
  A rewriting changes the value at every offset and nothing else, so it keeps the row of the table;
  and every offset of the table is that of a register field.
\<close>

lemma load_fields [operand_fields]:
  "register_fields 1 (load_layout (load_map_registers g i)) =
     map (\<lambda>(n, r). (n, g n r)) (register_fields 1 (load_layout i))"
  "load_operand_table (load_map_registers g i) = load_operand_table i"
  "load_map_registers g (load_map_registers h i) = load_map_registers (\<lambda>n r. g n (h n r)) i"
  "load_map_registers (\<lambda>_ r. r) i = i"
  "sum_list (map field_size (load_layout i)) \<le> 7"
  by (cases i; simp del: One_nat_def)+

lemma arithmetic_fields [operand_fields]:
  "register_fields 1 (arithmetic_layout (arithmetic_map_registers g i)) =
     map (\<lambda>(n, r). (n, g n r)) (register_fields 1 (arithmetic_layout i))"
  "arithmetic_operand_table (arithmetic_map_registers g i) = arithmetic_operand_table i"
  "arithmetic_map_registers g (arithmetic_map_registers h i) = arithmetic_map_registers (\<lambda>n r. g n (h n r)) i"
  "arithmetic_map_registers (\<lambda>_ r. r) i = i"
  "sum_list (map field_size (arithmetic_layout i)) \<le> 7"
  by (cases i; simp del: One_nat_def)+

lemma float_fields [operand_fields]:
  "register_fields 1 (float_layout (float_map_registers g i)) =
     map (\<lambda>(n, r). (n, g n r)) (register_fields 1 (float_layout i))"
  "float_operand_table (float_map_registers g i) = float_operand_table i"
  "float_map_registers g (float_map_registers h i) = float_map_registers (\<lambda>n r. g n (h n r)) i"
  "float_map_registers (\<lambda>_ r. r) i = i"
  "sum_list (map field_size (float_layout i)) \<le> 7"
  by (cases i; simp del: One_nat_def)+

lemma compare_fields [operand_fields]:
  "register_fields 1 (compare_layout (compare_map_registers g i)) =
     map (\<lambda>(n, r). (n, g n r)) (register_fields 1 (compare_layout i))"
  "compare_operand_table (compare_map_registers g i) = compare_operand_table i"
  "compare_map_registers g (compare_map_registers h i) = compare_map_registers (\<lambda>n r. g n (h n r)) i"
  "compare_map_registers (\<lambda>_ r. r) i = i"
  "sum_list (map field_size (compare_layout i)) \<le> 7"
  by (cases i; simp del: One_nat_def)+

lemma string_fields [operand_fields]:
  "register_fields 1 (string_layout (string_map_registers g i)) =
     map (\<lambda>(n, r). (n, g n r)) (register_fields 1 (string_layout i))"
  "string_operand_table (string_map_registers g i) = string_operand_table i"
  "string_map_registers g (string_map_registers h i) = string_map_registers (\<lambda>n r. g n (h n r)) i"
  "string_map_registers (\<lambda>_ r. r) i = i"
  "sum_list (map field_size (string_layout i)) \<le> 7"
  by (cases i; simp del: One_nat_def)+

lemma jump_fields [operand_fields]:
  "register_fields 1 (jump_layout (jump_map_registers g i)) =
     map (\<lambda>(n, r). (n, g n r)) (register_fields 1 (jump_layout i))"
  "jump_operand_table (jump_map_registers g i) = jump_operand_table i"
  "jump_map_registers g (jump_map_registers h i) = jump_map_registers (\<lambda>n r. g n (h n r)) i"
  "jump_map_registers (\<lambda>_ r. r) i = i"
  "sum_list (map field_size (jump_layout i)) \<le> 7"
  by (cases i; simp del: One_nat_def)+

lemma switch_fields [operand_fields]:
  "register_fields 1 (switch_layout (switch_map_registers g i)) =
     map (\<lambda>(n, r). (n, g n r)) (register_fields 1 (switch_layout i))"
  "switch_operand_table (switch_map_registers g i) = switch_operand_table i"
  "switch_map_registers g (switch_map_registers h i) = switch_map_registers (\<lambda>n r. g n (h n r)) i"
  "switch_map_registers (\<lambda>_ r. r) i = i"
  "sum_list (map field_size (switch_layout i)) \<le> 7"
  by (cases i; simp del: One_nat_def)+

lemma loop_fields [operand_fields]:
  "register_fields 1 (loop_layout (loop_map_registers g i)) =
     map (\<lambda>(n, r). (n, g n r)) (register_fields 1 (loop_layout i))"
  "loop_operand_table (loop_map_registers g i) = loop_operand_table i"
  "loop_map_registers g (loop_map_registers h i) = loop_map_registers (\<lambda>n r. g n (h n r)) i"
  "loop_map_registers (\<lambda>_ r. r) i = i"
  "sum_list (map field_size (loop_layout i)) \<le> 7"
  by (cases i; simp del: One_nat_def)+

lemma array_fields [operand_fields]:
  "register_fields 1 (array_layout (array_map_registers g i)) =
     map (\<lambda>(n, r). (n, g n r)) (register_fields 1 (array_layout i))"
  "array_operand_table (array_map_registers g i) = array_operand_table i"
  "array_map_registers g (array_map_registers h i) = array_map_registers (\<lambda>n r. g n (h n r)) i"
  "array_map_registers (\<lambda>_ r. r) i = i"
  "sum_list (map field_size (array_layout i)) \<le> 7"
  by (cases i; simp del: One_nat_def)+

lemma update_fields [operand_fields]:
  "register_fields 1 (update_layout (update_map_registers g i)) =
     map (\<lambda>(n, r). (n, g n r)) (register_fields 1 (update_layout i))"
  "update_operand_table (update_map_registers g i) = update_operand_table i"
  "update_map_registers g (update_map_registers h i) = update_map_registers (\<lambda>n r. g n (h n r)) i"
  "update_map_registers (\<lambda>_ r. r) i = i"
  "sum_list (map field_size (update_layout i)) \<le> 7"
  by (cases i; simp del: One_nat_def)+

lemma object_fields [operand_fields]:
  "register_fields 1 (object_layout (object_map_registers g i)) =
     map (\<lambda>(n, r). (n, g n r)) (register_fields 1 (object_layout i))"
  "object_operand_table (object_map_registers g i) = object_operand_table i"
  "object_map_registers g (object_map_registers h i) = object_map_registers (\<lambda>n r. g n (h n r)) i"
  "object_map_registers (\<lambda>_ r. r) i = i"
  "sum_list (map field_size (object_layout i)) \<le> 7"
  by (cases i; simp del: One_nat_def)+

lemma call_fields [operand_fields]:
  "register_fields 1 (call_layout (call_map_registers g i)) =
     map (\<lambda>(n, r). (n, g n r)) (register_fields 1 (call_layout i))"
  "call_operand_table (call_map_registers g i) = call_operand_table i"
  "call_map_registers g (call_map_registers h i) = call_map_registers (\<lambda>n r. g n (h n r)) i"
  "call_map_registers (\<lambda>_ r. r) i = i"
  "sum_list (map field_size (call_layout i)) \<le> 7"
  by (cases i; simp del: One_nat_def)+

lemma return_fields [operand_fields]:
  "register_fields 1 (return_layout (return_map_registers g i)) =
     map (\<lambda>(n, r). (n, g n r)) (register_fields 1 (return_layout i))"
  "return_operand_table (return_map_registers g i) = return_operand_table i"
  "return_map_registers g (return_map_registers h i) = return_map_registers (\<lambda>n r. g n (h n r)) i"
  "return_map_registers (\<lambda>_ r. r) i = i"
  "sum_list (map field_size (return_layout i)) \<le> 7"
  by (cases i; simp del: One_nat_def)+

lemma check_fields [operand_fields]:
  "register_fields 1 (check_layout (check_map_registers g i)) =
     map (\<lambda>(n, r). (n, g n r)) (register_fields 1 (check_layout i))"
  "check_operand_table (check_map_registers g i) = check_operand_table i"
  "check_map_registers g (check_map_registers h i) = check_map_registers (\<lambda>n r. g n (h n r)) i"
  "check_map_registers (\<lambda>_ r. r) i = i"
  "sum_list (map field_size (check_layout i)) \<le> 7"
  by (cases i; simp del: One_nat_def)+

lemma load_map_cong:
  "\<forall>(n, r)\<in>set (register_fields 1 (load_layout i)). g n r = h n r \<Longrightarrow>
     load_map_registers g i = load_map_registers h i"
  by (cases i) (simp_all del: One_nat_def)

lemma arithmetic_map_cong:
  "\<forall>(n, r)\<in>set (register_fields 1 (arithmetic_layout i)). g n r = h n r \<Longrightarrow>
     arithmetic_map_registers g i = arithmetic_map_registers h i"
  by (cases i) (simp_all del: One_nat_def)

lemma float_map_cong:
  "\<forall>(n, r)\<in>set (register_fields 1 (float_layout i)). g n r = h n r \<Longrightarrow>
     float_map_registers g i = float_map_registers h i"
  by (cases i) (simp_all del: One_nat_def)

lemma compare_map_cong:
  "\<forall>(n, r)\<in>set (register_fields 1 (compare_layout i)). g n r = h n r \<Longrightarrow>
     compare_map_registers g i = compare_map_registers h i"
  by (cases i) (simp_all del: One_nat_def)

lemma string_map_cong:
  "\<forall>(n, r)\<in>set (register_fields 1 (string_layout i)). g n r = h n r \<Longrightarrow>
     string_map_registers g i = string_map_registers h i"
  by (cases i) (simp_all del: One_nat_def)

lemma jump_map_cong:
  "\<forall>(n, r)\<in>set (register_fields 1 (jump_layout i)). g n r = h n r \<Longrightarrow>
     jump_map_registers g i = jump_map_registers h i"
  by (cases i) (simp_all del: One_nat_def)

lemma switch_map_cong:
  "\<forall>(n, r)\<in>set (register_fields 1 (switch_layout i)). g n r = h n r \<Longrightarrow>
     switch_map_registers g i = switch_map_registers h i"
  by (cases i) (simp_all del: One_nat_def)

lemma loop_map_cong:
  "\<forall>(n, r)\<in>set (register_fields 1 (loop_layout i)). g n r = h n r \<Longrightarrow>
     loop_map_registers g i = loop_map_registers h i"
  by (cases i) (simp_all del: One_nat_def)

lemma array_map_cong:
  "\<forall>(n, r)\<in>set (register_fields 1 (array_layout i)). g n r = h n r \<Longrightarrow>
     array_map_registers g i = array_map_registers h i"
  by (cases i) (simp_all del: One_nat_def)

lemma update_map_cong:
  "\<forall>(n, r)\<in>set (register_fields 1 (update_layout i)). g n r = h n r \<Longrightarrow>
     update_map_registers g i = update_map_registers h i"
  by (cases i) (simp_all del: One_nat_def)

lemma object_map_cong:
  "\<forall>(n, r)\<in>set (register_fields 1 (object_layout i)). g n r = h n r \<Longrightarrow>
     object_map_registers g i = object_map_registers h i"
  by (cases i) (simp_all del: One_nat_def)

lemma call_map_cong:
  "\<forall>(n, r)\<in>set (register_fields 1 (call_layout i)). g n r = h n r \<Longrightarrow>
     call_map_registers g i = call_map_registers h i"
  by (cases i) (simp_all del: One_nat_def)

lemma return_map_cong:
  "\<forall>(n, r)\<in>set (register_fields 1 (return_layout i)). g n r = h n r \<Longrightarrow>
     return_map_registers g i = return_map_registers h i"
  by (cases i) (simp_all del: One_nat_def)

lemma check_map_cong:
  "\<forall>(n, r)\<in>set (register_fields 1 (check_layout i)). g n r = h n r \<Longrightarrow>
     check_map_registers g i = check_map_registers h i"
  by (cases i) (simp_all del: One_nat_def)

lemma load_table_offsets:
  "load_operand_table i = Some ops \<Longrightarrow> fst ` set ops \<subseteq> fst ` set (register_fields 1 (load_layout i))"
  by (cases i) (auto simp del: One_nat_def)

lemma arithmetic_table_offsets:
  "arithmetic_operand_table i = Some ops \<Longrightarrow> fst ` set ops \<subseteq> fst ` set (register_fields 1 (arithmetic_layout i))"
  by (cases i) (auto simp del: One_nat_def)

lemma float_table_offsets:
  "float_operand_table i = Some ops \<Longrightarrow> fst ` set ops \<subseteq> fst ` set (register_fields 1 (float_layout i))"
  by (cases i) (auto simp del: One_nat_def)

lemma compare_table_offsets:
  "compare_operand_table i = Some ops \<Longrightarrow> fst ` set ops \<subseteq> fst ` set (register_fields 1 (compare_layout i))"
  by (cases i) (auto simp del: One_nat_def)

lemma string_table_offsets:
  "string_operand_table i = Some ops \<Longrightarrow> fst ` set ops \<subseteq> fst ` set (register_fields 1 (string_layout i))"
  by (cases i) (auto simp del: One_nat_def)

lemma jump_table_offsets:
  "jump_operand_table i = Some ops \<Longrightarrow> fst ` set ops \<subseteq> fst ` set (register_fields 1 (jump_layout i))"
  by (cases i) (auto simp del: One_nat_def)

lemma switch_table_offsets:
  "switch_operand_table i = Some ops \<Longrightarrow> fst ` set ops \<subseteq> fst ` set (register_fields 1 (switch_layout i))"
  by (cases i) (auto simp del: One_nat_def)

lemma loop_table_offsets:
  "loop_operand_table i = Some ops \<Longrightarrow> fst ` set ops \<subseteq> fst ` set (register_fields 1 (loop_layout i))"
  by (cases i) (auto simp del: One_nat_def)

lemma array_table_offsets:
  "array_operand_table i = Some ops \<Longrightarrow> fst ` set ops \<subseteq> fst ` set (register_fields 1 (array_layout i))"
  by (cases i) (auto simp del: One_nat_def)

lemma update_table_offsets:
  "update_operand_table i = Some ops \<Longrightarrow> fst ` set ops \<subseteq> fst ` set (register_fields 1 (update_layout i))"
  by (cases i) (auto simp del: One_nat_def)

lemma object_table_offsets:
  "object_operand_table i = Some ops \<Longrightarrow> fst ` set ops \<subseteq> fst ` set (register_fields 1 (object_layout i))"
  by (cases i) (auto simp del: One_nat_def)

lemma call_table_offsets:
  "call_operand_table i = Some ops \<Longrightarrow> fst ` set ops \<subseteq> fst ` set (register_fields 1 (call_layout i))"
  by (cases i) (auto simp del: One_nat_def)

lemma return_table_offsets:
  "return_operand_table i = Some ops \<Longrightarrow> fst ` set ops \<subseteq> fst ` set (register_fields 1 (return_layout i))"
  by (cases i) (auto simp del: One_nat_def)

lemma check_table_offsets:
  "check_operand_table i = Some ops \<Longrightarrow> fst ` set ops \<subseteq> fst ` set (register_fields 1 (check_layout i))"
  by (cases i) (auto simp del: One_nat_def)

lemmas family_map_cong =
  load_map_cong arithmetic_map_cong float_map_cong compare_map_cong string_map_cong jump_map_cong switch_map_cong loop_map_cong array_map_cong update_map_cong object_map_cong call_map_cong return_map_cong check_map_cong

lemmas family_table_offsets =
  load_table_offsets arithmetic_table_offsets float_table_offsets compare_table_offsets string_table_offsets jump_table_offsets switch_table_offsets loop_table_offsets array_table_offsets update_table_offsets object_table_offsets call_table_offsets return_table_offsets check_table_offsets
lemma map_registers_fields:
  "register_fields 1 (instruction_layout (map_registers g ins)) =
     map (\<lambda>(n, r). (n, g n r)) (register_fields 1 (instruction_layout ins))"
  by (cases ins) (simp_all add: instruction_layout_def map_registers_def operand_fields del: One_nat_def)

lemma operands_map_registers [simp]: "operands (map_registers g ins) = operands ins"
  by (cases ins) (simp_all add: operands_def map_registers_def operand_fields)

lemma map_registers_compose [simp]:
  "map_registers g (map_registers h ins) = map_registers (\<lambda>n r. g n (h n r)) ins"
  by (cases ins) (simp_all add: map_registers_def operand_fields)

lemma map_registers_id [simp]: "map_registers (\<lambda>_ r. r) ins = ins"
  by (cases ins) (simp_all add: map_registers_def operand_fields)

text \<open>The tag and the fields fit the eight bytes the size assertion of the source allows.\<close>

lemma instruction_size: "1 + sum_list (map field_size (instruction_layout ins)) \<le> 8"
  by (cases ins) (simp_all add: instruction_layout_def operand_fields)

lemma register_fields_less: "(n, r) \<in> set (register_fields offset fs) \<Longrightarrow> offset \<le> n"
  by (induction offset fs rule: register_fields.induct) auto

lemma distinct_register_fields: "distinct (map fst (register_fields offset fs))"
  by (induction offset fs rule: register_fields.induct) (auto dest: register_fields_less)

lemma register_at_Some: 
  "register_at ins n = Some r \<longleftrightarrow> (n, r) \<in> set (register_fields 1 (instruction_layout ins))"
  by (simp add: register_at_def distinct_register_fields)

lemma register_at_map_registers [simp]:
  "register_at (map_registers g ins) n = map_option (g n) (register_at ins n)"
proof -
  have "map_of (map (\<lambda>(n, r). (n, g n r)) xs) n = map_option (g n) (map_of xs n)" for xs
    by (induction xs) auto
  then show ?thesis by (simp add: register_at_def map_registers_fields del: One_nat_def)
qed

lemma map_registers_cong:
  assumes "\<And>n r. register_at ins n = Some r \<Longrightarrow> g n r = h n r"
  shows "map_registers g ins = map_registers h ins"
proof -
  have "\<forall>(n, r)\<in>set (register_fields 1 (instruction_layout ins)). g n r = h n r"
    using assms by (auto simp: register_at_Some)
  then show ?thesis
    by (cases ins) (simp_all add: instruction_layout_def map_registers_def family_map_cong [where g = g and h = h]
        del: One_nat_def)
qed

lemma operand_is_register:
  assumes "operands ins = Some ops" "(n, a) \<in> set ops"
  shows "\<exists>r. register_at ins n = Some r"
proof -
  have "fst ` set ops \<subseteq> fst ` set (register_fields 1 (instruction_layout ins))"
    using assms(1)
    by (cases ins) (simp_all add: operands_def instruction_layout_def family_table_offsets del: One_nat_def)
  with assms(2) show ?thesis by (force simp: register_at_Some)
qed

section \<open>What the visitors visit\<close>

text \<open>A listed operand: the offset of a table row, not the missing argument of a call.\<close>

definition listed :: "instruction \<Rightarrow> access \<Rightarrow> nat \<Rightarrow> bool" where
  "listed ins a n \<longleftrightarrow>
     (case operands ins of None \<Rightarrow> False | Some ops \<Rightarrow> (n, a) \<in> set ops) \<and>
     \<not> (n = 4 \<and> calls_without_arguments ins)"

lemma calls_without_arguments_map [simp]:
  "calls_without_arguments (map_registers g ins) = calls_without_arguments ins"
proof (cases ins)
  case (CallOp i)
  then show ?thesis by (cases i) (simp_all add: calls_without_arguments_def map_registers_def)
qed (simp_all add: calls_without_arguments_def map_registers_def)

lemma visit_operands_set:
  "set (visit_operands ins acc before ops) =
     {r. \<exists>i<length ops. \<exists>n a. ops ! i = (n, a) \<and> (acc = None \<or> acc = Some a) \<and>
        \<not> duplicate acc (before @ take i ops) n \<and> \<not> (n = 4 \<and> calls_without_arguments ins) \<and>
        register_at ins n = Some r \<and> r \<noteq> register_NONE}"
  (is "_ = ?S before ops")
proof (induction ops arbitrary: before)
  case (Cons p ops)
  obtain n a where p: "p = (n, a)" by (cases p)
  let ?here = "{r. (acc = None \<or> acc = Some a) \<and> \<not> duplicate acc before n \<and>
    \<not> (n = 4 \<and> calls_without_arguments ins) \<and> register_at ins n = Some r \<and> r \<noteq> register_NONE}"
  have "?S before (p # ops) = ?here \<union> ?S (before @ [p]) ops"
    by (auto simp: p less_Suc_eq_0_disj)
  moreover have "set (visit_operands ins acc before (p # ops)) =
      ?here \<union> set (visit_operands ins acc (before @ [p]) ops)"
    by (auto simp: p Let_def split: option.splits)
  ultimately show ?case by (simp add: Cons.IH)
qed simp

lemma first_listed:
  assumes "(n, a) \<in> set ops"
  obtains i where "i < length ops" "ops ! i = (n, a)" "(n, a) \<notin> set (take i ops)"
proof -
  obtain i where "find_position ((=) (n, a)) ops = Some i"
    using assms find_position_None [of "(=) (n, a)" ops] by fastforce
  then have "i < length ops" "ops ! i = (n, a)" "(n, a) \<notin> set (take i ops)"
    by (auto simp: find_position_Some in_set_conv_nth)
  then show ?thesis by (rule that)
qed

lemma read_visit_set:
  assumes "operands ins = Some ops"
  shows "set (visit_operands ins (Some ReadAccess) [] ops) =
    {r. r \<noteq> register_NONE \<and> (\<exists>n. listed ins ReadAccess n \<and> register_at ins n = Some r)}"
    (is "?L = ?R")
proof
  show "?L \<subseteq> ?R"
    using assms unfolding visit_operands_set listed_def by (force dest: nth_mem)
next
  show "?R \<subseteq> ?L"
  proof
    fix r assume "r \<in> ?R"
    then obtain n where n: "r \<noteq> register_NONE" "(n, ReadAccess) \<in> set ops"
      "\<not> (n = 4 \<and> calls_without_arguments ins)" "register_at ins n = Some r"
      using assms by (auto simp: listed_def)
    obtain i where i: "i < length ops" "ops ! i = (n, ReadAccess)" "(n, ReadAccess) \<notin> set (take i ops)"
      by (rule first_listed [OF n(2)])
    then have "\<not> duplicate (Some ReadAccess) (take i ops) n"
      by (auto simp: duplicate_def list_ex_iff)
    with n i show "r \<in> ?L" unfolding visit_operands_set by auto
  qed
qed

lemma for_each_read_registerD:
  assumes "for_each_read_register ins = Some rs"
  shows "set rs = {r. r \<noteq> register_NONE \<and> (\<exists>n. listed ins ReadAccess n \<and> register_at ins n = Some r)} \<union>
    set (implicit_registers ins)"
  using assms read_visit_set
  by (auto simp: for_each_read_register_def for_each_explicit_register_def)

section \<open>What the rewritings do\<close>

lemma replace_reads_map:
  "replace_reads ops old new ins =
     map_registers (\<lambda>n r. if (n, ReadAccess) \<in> set ops \<and> r = old then new else r) ins"
proof (induction ops arbitrary: ins)
  case (Cons p ops)
  obtain n a where p: "p = (n, a)" by (cases p)
  show ?case
  proof (cases "a = ReadAccess \<and> register_at ins n = Some old")
    case True
    then have "replace_reads (p # ops) old new ins =
        replace_reads ops old new (write_register n new ins)" by (simp add: p)
    also have "\<dots> = map_registers (\<lambda>n r. if (n, ReadAccess) \<in> set (p # ops) \<and> r = old then new else r) ins"
      unfolding Cons.IH write_register_def using True
      by (auto simp: p intro!: map_registers_cong)
    finally show ?thesis .
  next
    case False
    then show ?thesis
      by (auto simp: p Cons.IH intro!: map_registers_cong)
  qed
qed simp

definition renamed :: "instruction \<Rightarrow> nat set \<Rightarrow> register list \<Rightarrow> nat \<Rightarrow> register \<Rightarrow> register" where
  "renamed ins offsets mapping n r =
     (if n \<in> offsets \<and> \<not> (n = 4 \<and> calls_without_arguments ins) \<and> r \<noteq> register_NONE
      then mapping ! unat r else r)"

lemma duplicate_None: "duplicate None before n \<longleftrightarrow> n \<in> fst ` set before"
  by (force simp: duplicate_def list_ex_iff)

lemma remap_operands_map:
  assumes "\<And>n a r. (n, a) \<in> set ops \<Longrightarrow> n \<notin> fst ` set before \<Longrightarrow>
      \<not> (n = 4 \<and> calls_without_arguments ins) \<Longrightarrow> register_at ins n = Some r \<Longrightarrow>
      r \<noteq> register_NONE \<Longrightarrow> unat r < length mapping"
  shows "remap_operands mapping before ops ins =
    Inr (map_registers (renamed ins (fst ` set ops - fst ` set before) mapping) ins)"
  using assms
proof (induction ops arbitrary: before ins)
  case Nil
  then show ?case by (simp add: renamed_def)
next
  case (Cons p ops)
  obtain n a where p: "p = (n, a)" by (cases p)
  let ?skip = "(n = 4 \<and> calls_without_arguments ins) \<or> n \<in> fst ` set before"
  show ?case
  proof (cases "?skip \<or> register_at ins n = None \<or> register_at ins n = Some register_NONE")
    case True
    then have "remap_operands mapping before (p # ops) ins = remap_operands mapping (before @ [p]) ops ins"
      by (auto simp: p duplicate_None Let_def)
    also have "\<dots> = Inr (map_registers (renamed ins (fst ` set ops - fst ` set (before @ [p])) mapping) ins)"
      using Cons.prems by (intro Cons.IH) auto
    also have "map_registers (renamed ins (fst ` set ops - fst ` set (before @ [p])) mapping) ins =
        map_registers (renamed ins (fst ` set (p # ops) - fst ` set before) mapping) ins"
      using True by (intro map_registers_cong) (auto simp: renamed_def p)
    finally show ?thesis .
  next
    case False
    then obtain r where r: "register_at ins n = Some r" "r \<noteq> register_NONE" by auto
    let ?ins = "write_register n (mapping ! unat r) ins"
    have "unat r < length mapping" using Cons.prems [of n a r] False r by (simp add: p)
    then have "remap_operands mapping before (p # ops) ins = remap_operands mapping (before @ [p]) ops ?ins"
      using False r by (auto simp: p duplicate_None Let_def index_of_def list_get_def)
    also have "\<dots> = Inr (map_registers (renamed ?ins (fst ` set ops - fst ` set (before @ [p])) mapping) ?ins)"
      using Cons.prems by (intro Cons.IH) (auto simp: write_register_def p)
    also have "map_registers (renamed ?ins (fst ` set ops - fst ` set (before @ [p])) mapping) ?ins =
        map_registers (renamed ins (fst ` set (p # ops) - fst ` set before) mapping) ins"
      unfolding write_register_def map_registers_compose
      using False r by (intro map_registers_cong) (auto simp: renamed_def p)
    finally show ?thesis .
  qed
qed

lemma visit_renamed:
  assumes "\<And>n r. n \<in> fst ` set ops - fst ` set before \<Longrightarrow> \<not> (n = 4 \<and> calls_without_arguments ins) \<Longrightarrow>
      register_at ins n = Some r \<Longrightarrow> r \<noteq> register_NONE \<Longrightarrow> g n r = f r \<and> f r \<noteq> register_NONE"
    and "\<And>n. g n register_NONE = register_NONE"
  shows "visit_operands (map_registers g ins) None before ops = map f (visit_operands ins None before ops)"
  using assms(1)
proof (induction ops arbitrary: before)
  case (Cons p ops)
  obtain n a where p: "p = (n, a)" by (cases p)
  have IH: "visit_operands (map_registers g ins) None (before @ [p]) ops =
      map f (visit_operands ins None (before @ [p]) ops)"
    using Cons.prems by (intro Cons.IH) auto
  show ?case
  proof (cases "(n = 4 \<and> calls_without_arguments ins) \<or> n \<in> fst ` set before")
    case True
    then show ?thesis using IH by (auto simp: p duplicate_None Let_def)
  next
    case False
    then show ?thesis
      using IH Cons.prems [of n] assms(2) [of n]
      by (cases "register_at ins n") (auto simp: p duplicate_None Let_def)
  qed
qed simp

lemma visit_None_set:
  assumes "operands ins = Some ops"
  shows "set (visit_operands ins None [] ops) =
    {r. r \<noteq> register_NONE \<and> (\<exists>n\<in>fst ` set ops. \<not> (n = 4 \<and> calls_without_arguments ins) \<and>
       register_at ins n = Some r)}" (is "?L = ?R")
proof
  show "?L \<subseteq> ?R" unfolding visit_operands_set by (force dest: nth_mem)
next
  show "?R \<subseteq> ?L"
  proof
    fix r assume "r \<in> ?R"
    then obtain n where n: "r \<noteq> register_NONE" "n \<in> fst ` set ops"
      "\<not> (n = 4 \<and> calls_without_arguments ins)" "register_at ins n = Some r" by blast
    then obtain i where i: "find_position (\<lambda>p. fst p = n) ops = Some i"
      using find_position_None [of "\<lambda>p. fst p = n" ops] by fastforce
    then have "i < length ops" "fst (ops ! i) = n" "n \<notin> fst ` set (take i ops)"
      by (force simp: find_position_Some in_set_conv_nth)+
    with n show "r \<in> ?L"
      unfolding visit_operands_set by (cases "ops ! i") (auto simp: duplicate_None)
  qed
qed

lemma remap_registers_explicit:
  assumes "for_each_explicit_register ins None = Some rs" "\<And>r. r \<in> set rs \<Longrightarrow> unat r < length mapping"
    and "register_NONE \<notin> set mapping"
  shows "\<exists>ins'. remap_registers ins mapping = Some (Inr ins') \<and>
    for_each_explicit_register ins' None = Some (map (\<lambda>r. mapping ! unat r) rs)"
proof -
  obtain ops where ops: "operands ins = Some ops" "rs = visit_operands ins None [] ops"
    using assms(1) by (auto simp: for_each_explicit_register_def)
  have mem: "r \<in> set rs"
    if "n \<in> fst ` set ops" "\<not> (n = 4 \<and> calls_without_arguments ins)" "register_at ins n = Some r"
      "r \<noteq> register_NONE" for n r
    using that visit_None_set [OF ops(1)] ops(2) by auto
  let ?g = "renamed ins (fst ` set ops) mapping"
  have "remap_operands mapping [] ops ins = Inr (map_registers ?g ins)"
    using remap_operands_map [of ops "[]" ins mapping] mem assms(2) by (force simp: image_iff)
  moreover have "visit_operands (map_registers ?g ins) None [] ops =
      map (\<lambda>r. mapping ! unat r) (visit_operands ins None [] ops)"
  proof (rule visit_renamed)
    fix n r assume "n \<in> fst ` set ops - fst ` set ([] :: operand list)"
      "\<not> (n = 4 \<and> calls_without_arguments ins)" "register_at ins n = Some r" "r \<noteq> register_NONE"
    moreover from this have "mapping ! unat r \<in> set mapping" using mem assms(2) by auto
    ultimately show "?g n r = mapping ! unat r \<and> mapping ! unat r \<noteq> register_NONE"
      using assms(3) by (auto simp: renamed_def)
  qed (simp add: renamed_def)
  ultimately show ?thesis
    using ops by (simp add: remap_registers_def for_each_explicit_register_def)
qed

lemma visit_unchanged:
  assumes "\<And>m r. m \<notin> fst ` set before \<Longrightarrow> g m r = r"
  shows "visit_operands (map_registers g ins) None before ops = visit_operands ins None before ops"
  using assms
proof (induction ops arbitrary: before)
  case (Cons p ops)
  obtain n a where p: "p = (n, a)" by (cases p)
  have "visit_operands (map_registers g ins) None (before @ [p]) ops =
      visit_operands ins None (before @ [p]) ops"
    using Cons.prems by (intro Cons.IH) auto
  then show ?case
    using Cons.prems [of n] by (cases "register_at ins n") (auto simp: p duplicate_None Let_def)
qed simp

lemma remap_operands_panics:
  assumes "\<exists>r\<in>set (visit_operands ins None before ops). length mapping \<le> unat r"
  shows "remap_operands mapping before ops ins = Inl IndexOutOfBounds"
  using assms
proof (induction ops arbitrary: before ins)
  case (Cons p ops)
  obtain n a where p: "p = (n, a)" by (cases p)
  let ?skip = "(n = 4 \<and> calls_without_arguments ins) \<or> n \<in> fst ` set before"
  show ?case
  proof (cases "?skip \<or> register_at ins n = None \<or> register_at ins n = Some register_NONE")
    case True
    then have "\<exists>r\<in>set (visit_operands ins None (before @ [p]) ops). length mapping \<le> unat r"
      using Cons.prems by (auto simp: p duplicate_None Let_def split: if_splits)
    from Cons.IH [OF this] True show ?thesis by (auto simp: p duplicate_None Let_def)
  next
    case outer: False
    then obtain r where r: "register_at ins n = Some r" "r \<noteq> register_NONE" by auto
    let ?ins = "write_register n (mapping ! unat r) ins"
    have same: "visit_operands ?ins None (before @ [p]) ops = visit_operands ins None (before @ [p]) ops"
      unfolding write_register_def by (rule visit_unchanged) (simp add: p)
    show ?thesis
    proof (cases "unat r < length mapping")
      case True
      then have "\<exists>r\<in>set (visit_operands ?ins None (before @ [p]) ops). length mapping \<le> unat r"
        using Cons.prems outer r unfolding same by (auto simp: p duplicate_None Let_def split: if_splits)
      from Cons.IH [OF this] True outer r show ?thesis
        by (auto simp: p duplicate_None Let_def index_of_def list_get_def)
    next
      case False
      with outer r show ?thesis
        by (auto simp: p duplicate_None Let_def index_of_def list_get_def)
    qed
  qed
qed simp

lemma remap_registers_panics:
  assumes "for_each_explicit_register ins None = Some rs" "\<exists>r\<in>set rs. length mapping \<le> unat r"
  shows "remap_registers ins mapping = Some (Inl IndexOutOfBounds)"
  using assms remap_operands_panics [of ins "[]" _ mapping]
  by (auto simp: remap_registers_def for_each_explicit_register_def)

section \<open>Visited registers are in the frame\<close>

text \<open>
  The table of offsets and the operands the verifier visits are two tables of the source; every
  register the first names is one the second checks.
\<close>

text \<open>
  A tuple pattern without elements has no element to read, but the offset table lists its first
  element. It is the one row whose register the verifier does not check.
\<close>

definition empty_tuple_pattern :: "instruction \<Rightarrow> bool" where
  "empty_tuple_pattern ins \<longleftrightarrow>
     (case ins of Switch (SwitchTuplePattern _ n _) \<Rightarrow> n = 0 | _ \<Rightarrow> False)"

lemma unat_positive [simp]: "0 < unat w \<longleftrightarrow> w \<noteq> 0"
  using unat_eq_zero [of w] by linarith

lemma load_listed:
  "load_operand_table i = Some ops \<Longrightarrow> (n, a) \<in> set ops \<Longrightarrow>
     (n, r) \<in> set (register_fields 1 (load_layout i)) \<Longrightarrow> r \<noteq> register_NONE \<Longrightarrow>
     \<not> (n = 4 \<and> calls_without_arguments (Load i)) \<Longrightarrow> unat r \<in> instruction_registers c (Load i)"
  by (cases i) (auto simp: instruction_registers_def window_def simp del: One_nat_def)

lemma arithmetic_listed:
  "arithmetic_operand_table i = Some ops \<Longrightarrow> (n, a) \<in> set ops \<Longrightarrow>
     (n, r) \<in> set (register_fields 1 (arithmetic_layout i)) \<Longrightarrow> r \<noteq> register_NONE \<Longrightarrow>
     \<not> (n = 4 \<and> calls_without_arguments (Arithmetic i)) \<Longrightarrow> unat r \<in> instruction_registers c (Arithmetic i)"
  by (cases i) (auto simp: instruction_registers_def window_def simp del: One_nat_def)

lemma float_listed:
  "float_operand_table i = Some ops \<Longrightarrow> (n, a) \<in> set ops \<Longrightarrow>
     (n, r) \<in> set (register_fields 1 (float_layout i)) \<Longrightarrow> r \<noteq> register_NONE \<Longrightarrow>
     \<not> (n = 4 \<and> calls_without_arguments (FloatOp i)) \<Longrightarrow> unat r \<in> instruction_registers c (FloatOp i)"
  by (cases i) (auto simp: instruction_registers_def window_def float_registers_of_def simp del: One_nat_def)

lemma compare_listed:
  "compare_operand_table i = Some ops \<Longrightarrow> (n, a) \<in> set ops \<Longrightarrow>
     (n, r) \<in> set (register_fields 1 (compare_layout i)) \<Longrightarrow> r \<noteq> register_NONE \<Longrightarrow>
     \<not> (n = 4 \<and> calls_without_arguments (CompareOp i)) \<Longrightarrow> unat r \<in> instruction_registers c (CompareOp i)"
  by (cases i) (auto simp: instruction_registers_def window_def simp del: One_nat_def)

lemma string_listed:
  "string_operand_table i = Some ops \<Longrightarrow> (n, a) \<in> set ops \<Longrightarrow>
     (n, r) \<in> set (register_fields 1 (string_layout i)) \<Longrightarrow> r \<noteq> register_NONE \<Longrightarrow>
     \<not> (n = 4 \<and> calls_without_arguments (StringOp i)) \<Longrightarrow> unat r \<in> instruction_registers c (StringOp i)"
  by (cases i) (auto simp: instruction_registers_def window_def simp del: One_nat_def)

lemma jump_listed:
  "jump_operand_table i = Some ops \<Longrightarrow> (n, a) \<in> set ops \<Longrightarrow>
     (n, r) \<in> set (register_fields 1 (jump_layout i)) \<Longrightarrow> r \<noteq> register_NONE \<Longrightarrow>
     \<not> (n = 4 \<and> calls_without_arguments (Branch i)) \<Longrightarrow> unat r \<in> instruction_registers c (Branch i)"
  by (cases i) (auto simp: instruction_registers_def window_def simp del: One_nat_def)

lemma switch_listed:
  "switch_operand_table i = Some ops \<Longrightarrow> (n, a) \<in> set ops \<Longrightarrow>
     (n, r) \<in> set (register_fields 1 (switch_layout i)) \<Longrightarrow> r \<noteq> register_NONE \<Longrightarrow>
     \<not> (n = 4 \<and> calls_without_arguments (Switch i)) \<Longrightarrow> \<not> empty_tuple_pattern (Switch i) \<Longrightarrow>
     unat r \<in> instruction_registers c (Switch i)"
  by (cases i) (auto simp: instruction_registers_def window_def switch_registers_of_def empty_tuple_pattern_def simp del: One_nat_def)

lemma loop_listed:
  "loop_operand_table i = Some ops \<Longrightarrow> (n, a) \<in> set ops \<Longrightarrow>
     (n, r) \<in> set (register_fields 1 (loop_layout i)) \<Longrightarrow> r \<noteq> register_NONE \<Longrightarrow>
     \<not> (n = 4 \<and> calls_without_arguments (LoopOp i)) \<Longrightarrow> unat r \<in> instruction_registers c (LoopOp i)"
  by (cases i) (auto simp: instruction_registers_def window_def loop_registers_of_def simp del: One_nat_def)

lemma array_listed:
  "array_operand_table i = Some ops \<Longrightarrow> (n, a) \<in> set ops \<Longrightarrow>
     (n, r) \<in> set (register_fields 1 (array_layout i)) \<Longrightarrow> r \<noteq> register_NONE \<Longrightarrow>
     \<not> (n = 4 \<and> calls_without_arguments (ArrayOp i)) \<Longrightarrow> unat r \<in> instruction_registers c (ArrayOp i)"
  by (cases i) (auto simp: instruction_registers_def window_def array_registers_of_def simp del: One_nat_def)

lemma update_listed:
  "update_operand_table i = Some ops \<Longrightarrow> (n, a) \<in> set ops \<Longrightarrow>
     (n, r) \<in> set (register_fields 1 (update_layout i)) \<Longrightarrow> r \<noteq> register_NONE \<Longrightarrow>
     \<not> (n = 4 \<and> calls_without_arguments (ArrayUpdate i)) \<Longrightarrow> unat r \<in> instruction_registers c (ArrayUpdate i)"
  by (cases i) (auto simp: instruction_registers_def window_def update_registers_of_def simp del: One_nat_def)

lemma object_listed:
  "object_operand_table i = Some ops \<Longrightarrow> (n, a) \<in> set ops \<Longrightarrow>
     (n, r) \<in> set (register_fields 1 (object_layout i)) \<Longrightarrow> r \<noteq> register_NONE \<Longrightarrow>
     \<not> (n = 4 \<and> calls_without_arguments (ObjectOp i)) \<Longrightarrow> unat r \<in> instruction_registers c (ObjectOp i)"
  by (cases i) (auto simp: instruction_registers_def window_def object_registers_of_def simp del: One_nat_def)

lemma call_listed:
  "call_operand_table i = Some ops \<Longrightarrow> (n, a) \<in> set ops \<Longrightarrow>
     (n, r) \<in> set (register_fields 1 (call_layout i)) \<Longrightarrow> r \<noteq> register_NONE \<Longrightarrow>
     \<not> (n = 4 \<and> calls_without_arguments (CallOp i)) \<Longrightarrow> unat r \<in> instruction_registers c (CallOp i)"
  by (cases i) (auto simp: instruction_registers_def window_def call_registers_of_def
      calls_without_arguments_def simp del: One_nat_def)

lemma return_listed:
  "return_operand_table i = Some ops \<Longrightarrow> (n, a) \<in> set ops \<Longrightarrow>
     (n, r) \<in> set (register_fields 1 (return_layout i)) \<Longrightarrow> r \<noteq> register_NONE \<Longrightarrow>
     \<not> (n = 4 \<and> calls_without_arguments (ReturnOp i)) \<Longrightarrow> unat r \<in> instruction_registers c (ReturnOp i)"
  by (cases i) (auto simp: instruction_registers_def window_def simp del: One_nat_def)

lemma check_listed:
  "check_operand_table i = Some ops \<Longrightarrow> (n, a) \<in> set ops \<Longrightarrow>
     (n, r) \<in> set (register_fields 1 (check_layout i)) \<Longrightarrow> r \<noteq> register_NONE \<Longrightarrow>
     \<not> (n = 4 \<and> calls_without_arguments (CheckOp i)) \<Longrightarrow> unat r \<in> instruction_registers c (CheckOp i)"
  by (cases i) (auto simp: instruction_registers_def window_def check_registers_of_def simp del: One_nat_def)

lemmas family_listed =
  load_listed arithmetic_listed float_listed compare_listed string_listed jump_listed switch_listed loop_listed array_listed update_listed object_listed call_listed return_listed check_listed

lemma listed_register:
  assumes "operands ins = Some ops" "(n, a) \<in> set ops" "\<not> (n = 4 \<and> calls_without_arguments ins)"
    "register_at ins n = Some r" "r \<noteq> register_NONE" "\<not> empty_tuple_pattern ins"
  shows "unat r \<in> instruction_registers c ins"
  using assms
  by (cases ins) (simp_all add: operands_def register_at_Some instruction_layout_def family_listed
      del: One_nat_def)

lemma explicit_registers_visited:
  assumes "for_each_explicit_register ins acc = Some rs" "\<not> empty_tuple_pattern ins" "r \<in> set rs"
  shows "unat r \<in> instruction_registers c ins"
proof -
  obtain ops where ops: "operands ins = Some ops" "rs = visit_operands ins acc [] ops"
    using assms(1) by (auto simp: for_each_explicit_register_def)
  with assms(3) obtain i n a where i: "i < length ops" "ops ! i = (n, a)"
    "\<not> (n = 4 \<and> calls_without_arguments ins)" "register_at ins n = Some r" "r \<noteq> register_NONE"
    by (auto simp: visit_operands_set)
  moreover have "(n, a) \<in> set ops" using nth_mem [OF i(1)] i(2) by simp
  ultimately show ?thesis using listed_register [OF ops(1)] assms(2) by blast
qed

subsection \<open>Windows\<close>

lemma in_window_iff: "in_window r first n \<longleftrightarrow> unat first \<le> unat r \<and> unat r < unat first + n"
  unfolding in_window_def by (auto simp: word_le_nat_alt unat_sub)

lemma unat_offset: "unat (first :: register) + k < 2 ^ 16 \<Longrightarrow> unat (first + of_nat k) = unat first + k"
  by (simp add: unat_word_ariths unat_of_nat)

lemma window_registers:
  fixes first :: register
  assumes "n = 0 \<or> unat first + n \<le> 2 ^ 16"
  shows "r \<in> set (map (\<lambda>k. first + of_nat k) [0..<n]) \<longleftrightarrow> in_window r first n"
proof
  assume "r \<in> set (map (\<lambda>k. first + of_nat k) [0..<n])"
  then obtain k where "k < n" "r = first + of_nat k" by auto
  then show "in_window r first n" using assms unat_offset [of first k] by (simp add: in_window_iff)
next
  assume w: "in_window r first n"
  then obtain k where k: "unat r = unat first + k" "k < n"
    by (metis in_window_iff le_Suc_ex nat_add_left_cancel_less)
  then have "r = first + of_nat k"
    using unat_offset [of first k] unsigned_less [of r, where 'a = nat]
    by (intro word_unat_eq_iff [THEN iffD2]) simp
  with k show "r \<in> set (map (\<lambda>k. first + of_nat k) [0..<n])" by auto
qed

lemma unat_plus_one: "unat (first :: register) + 1 < 2 ^ 16 \<Longrightarrow> unat (first + 1) = unat first + 1"
  using unat_offset [of first 1] by simp

text \<open>
  The registers of an instruction below a bound, which is at most the number of registers there are:
  then no window wraps around.
\<close>

lemma window_below:
  assumes "window first n \<subseteq> {..<N}"
  shows "n = 0 \<or> unat first + n \<le> N"
proof (cases n)
  case (Suc m)
  then have "unat first + m \<in> window first n" by (simp add: window_def)
  with assms have "unat first + m < N" by blast
  with Suc show ?thesis by simp
qed simp

lemma implicit_reads_window:
  assumes "instruction_registers c ins \<subseteq> {..<N}" "N \<le> 2 ^ 16 - 1" "implicit_reads ins = Some (first, n)"
  shows "window first n \<subseteq> instruction_registers c ins"
proof (cases ins)
  case (ArrayOp i)
  then show ?thesis using assms(3)
    by (auto simp: implicit_reads_def array_implicit_reads_def instruction_registers_def
        array_registers_of_def array_register_count_value split: array_instruction.splits if_splits)
next
  case (ArrayUpdate i)
  then show ?thesis using assms(3)
    by (auto simp: implicit_reads_def update_implicit_reads_def instruction_registers_def
        update_registers_of_def split: update_instruction.splits)
next
  case (Switch i)
  then show ?thesis using assms(3)
    by (auto simp: implicit_reads_def instruction_registers_def
        switch_registers_of_def split: switch_instruction.splits if_splits)
next
  case (ObjectOp i)
  have *: "window (r + 1) 1 \<subseteq> window r 2" if "window r 2 \<subseteq> {..<N}" for r :: register
  proof -
    have "unat r + 1 < 2 ^ 16" using window_below [OF that] assms(2) by simp
    then show ?thesis using unat_plus_one [of r] by (auto simp: window_def)
  qed
  show ?thesis using ObjectOp assms(1,3) *
    by (auto simp: implicit_reads_def object_implicit_reads_def instruction_registers_def
        object_registers_of_def split: object_instruction.splits if_splits)
next
  case (CallOp i)
  have *: "window (r + 1) (unat (k - 1)) \<subseteq> window r (unat k)"
    if "window r (unat k) \<subseteq> {..<N}" "1 < k" for r :: register and k :: u8
  proof -
    have k: "unat (k - 1) = unat k - 1" "1 < unat k"
      using that(2) unat_sub [of 1 k] by (auto simp: word_less_nat_alt word_le_nat_alt)
    have "unat r + 1 < 2 ^ 16" using window_below [OF that(1)] assms(2) k by simp
    then show ?thesis using unat_plus_one [of r] k by (auto simp: window_def)
  qed
  show ?thesis using CallOp assms(1,3) *
    by (auto simp: implicit_reads_def call_implicit_reads_def instruction_registers_def
        call_registers_of_def Let_def split: call_instruction.splits if_splits)
next
  case (CheckOp i)
  have *: "window (r + 1) (unat k) \<subseteq> window r (unat k + 1)"
    if "window r (unat k + 1) \<subseteq> {..<N}" "k \<noteq> 0" for r :: register and k :: u8
  proof -
    have "unat r + 1 < 2 ^ 16"
      using window_below [OF that(1)] assms(2) unat_positive [of k] that(2) by linarith
    then show ?thesis using unat_plus_one [of r] by (auto simp: window_def)
  qed
  show ?thesis using CheckOp assms(1,3) *
    by (auto simp: implicit_reads_def check_implicit_reads_def instruction_registers_def
        check_registers_of_def split: check_instruction.splits if_splits)
qed (use assms(3) in \<open>simp_all add: implicit_reads_def\<close>)

lemma implicit_registers_iff:
  assumes "instruction_registers c ins \<subseteq> {..<N}" "N \<le> 2 ^ 16 - 1"
  shows "r \<in> set (implicit_registers ins) \<longleftrightarrow>
    (\<exists>first n. implicit_reads ins = Some (first, n) \<and> in_window r first n)"
proof (cases "implicit_reads ins")
  case (Some p)
  obtain first n where p: "p = (first, n)" by (cases p)
  have "n = 0 \<or> unat first + n \<le> 2 ^ 16"
    using window_below [OF subset_trans [OF implicit_reads_window [OF assms Some [unfolded p]] assms(1)]]
      assms(2) by auto
  from window_registers [OF this] Some p show ?thesis by (simp add: implicit_registers_def)
qed (simp add: implicit_registers_def)

lemma for_each_register_visited:
  assumes "for_each_register ins = Some rs" "\<not> empty_tuple_pattern ins" "r \<in> set rs"
    and "instruction_registers c ins \<subseteq> {..<N}" "N \<le> 2 ^ 16 - 1"
  shows "unat r \<in> instruction_registers c ins"
proof -
  obtain xs where xs: "for_each_explicit_register ins None = Some xs" "rs = xs @ implicit_registers ins"
    using assms(1) by (auto simp: for_each_register_def)
  show ?thesis
  proof (cases "r \<in> set xs")
    case True
    then show ?thesis by (rule explicit_registers_visited [OF xs(1) assms(2)])
  next
    case False
    then obtain first n where "implicit_reads ins = Some (first, n)" "in_window r first n"
      using xs(2) assms(3) implicit_registers_iff [OF assms(4,5)] by auto
    then show ?thesis
      using implicit_reads_window [OF assms(4,5)] by (auto simp: in_window_iff window_def)
  qed
qed

section \<open>Renaming a read register\<close>

text \<open>
  The condition of an assertion is a field and the values it reports follow that register, so
  renaming the field moves these values; for every other instruction a renamed field is outside the
  window.
\<close>

definition asserts_operands :: "instruction \<Rightarrow> bool" where
  "asserts_operands ins \<longleftrightarrow> (case ins of CheckOp (Assert n _ _ _) \<Rightarrow> n \<noteq> 0 | _ \<Rightarrow> False)"

lemma in_window_first [simp]: "in_window r r n \<longleftrightarrow> 0 < n"
  by (simp add: in_window_iff)

lemma renamed_implicit_registers:
  assumes "operands ins = Some ops" "\<not> in_fixed_window ins old" "\<not> asserts_operands ins"
  shows "implicit_registers (replace_reads ops old new ins) = implicit_registers ins"
proof (cases ins)
  case (ArrayOp i)
  then show ?thesis using assms
    by (cases i) (auto simp: replace_reads_map map_registers_def operands_def implicit_registers_def
        implicit_reads_def array_implicit_reads_def in_fixed_window_def)
next
  case (ArrayUpdate i)
  then show ?thesis using assms
    by (cases i) (auto simp: replace_reads_map map_registers_def operands_def implicit_registers_def
        implicit_reads_def update_implicit_reads_def in_fixed_window_def)
next
  case (Switch i)
  then show ?thesis using assms
    by (cases i) (auto simp: replace_reads_map map_registers_def operands_def implicit_registers_def
        implicit_reads_def in_fixed_window_def split: if_splits)
next
  case (ObjectOp i)
  then show ?thesis using assms
    by (cases i) (auto simp: replace_reads_map map_registers_def operands_def implicit_registers_def
        implicit_reads_def object_implicit_reads_def in_fixed_window_def)
next
  case (CallOp i)
  then show ?thesis using assms
    by (cases i) (auto simp: replace_reads_map map_registers_def operands_def implicit_registers_def
        implicit_reads_def call_implicit_reads_def in_fixed_window_def Let_def split: if_splits)
next
  case (CheckOp i)
  then show ?thesis using assms
    by (cases i) (auto simp: replace_reads_map map_registers_def operands_def implicit_registers_def
        implicit_reads_def check_implicit_reads_def in_fixed_window_def asserts_operands_def)
qed (simp_all add: replace_reads_map map_registers_def implicit_registers_def implicit_reads_def)

lemma replace_single_output_eq:
  assumes "replace_single_output ins old new = Some ins'"
  shows "for_each_read_register ins = Some [old] \<and> for_each_read_register ins' = Some [new]"
proof -
  from assms obtain i where i: "ins = CheckOp i"
    by (cases ins) (auto simp: replace_single_output_def)
  show ?thesis
    using assms unfolding i
    by (cases i) (auto simp: replace_single_output_def for_each_read_register_def
        for_each_explicit_register_def operands_def implicit_registers_def implicit_reads_def
        check_implicit_reads_def split: if_splits)
qed

lemma replaced_reads:
  assumes "replace_read_register ins old new = Some ins'" "\<not> asserts_operands ins"
    and "old \<noteq> register_NONE" "new \<noteq> register_NONE"
    and "instruction_registers c ins \<subseteq> {..<N}" "N \<le> 2 ^ 16 - 1"
  shows "\<exists>rs rs'. for_each_read_register ins = Some rs \<and> for_each_read_register ins' = Some rs' \<and>
    set rs' = (\<lambda>r. if r = old then new else r) ` set rs"
proof (cases "replace_single_output ins old new")
  case (Some out)
  with assms(1) replace_single_output_eq [OF Some] show ?thesis
    by (auto simp: replace_read_register_def)
next
  case None
  with assms(1) obtain ops where ops: "operands ins = Some ops" "\<not> in_fixed_window ins old"
    "ins' = replace_reads ops old new ins"
    by (auto simp: replace_read_register_def split: if_splits)
  have ins': "ins' = map_registers (\<lambda>n r. if (n, ReadAccess) \<in> set ops \<and> r = old then new else r) ins"
    by (simp add: ops(3) replace_reads_map)
  obtain rs rs' where rs: "for_each_read_register ins = Some rs" "for_each_read_register ins' = Some rs'"
    using ops(1) ins' by (simp add: for_each_read_register_def for_each_explicit_register_def)
  have listed: "listed ins' ReadAccess n \<longleftrightarrow> listed ins ReadAccess n" for n
    by (simp add: listed_def ins')
  let ?f = "\<lambda>r. if r = old then new else r"
  have at: "register_at ins' n = map_option ?f (register_at ins n)" if "listed ins ReadAccess n" for n
    using that ops(1) by (cases "register_at ins n") (auto simp: ins' listed_def)
  have "{r. r \<noteq> register_NONE \<and> (\<exists>n. listed ins ReadAccess n \<and> register_at ins' n = Some r)} =
      ?f ` {r. r \<noteq> register_NONE \<and> (\<exists>n. listed ins ReadAccess n \<and> register_at ins n = Some r)}"
    using at assms(3,4) by (fastforce simp: image_iff split: if_splits)
  moreover have "old \<notin> set (implicit_registers ins)"
    using ops(2) implicit_registers_iff [OF assms(5,6)] by (auto simp: in_fixed_window_def)
  then have "?f ` set (implicit_registers ins) = set (implicit_registers ins)" by auto
  moreover have "implicit_registers ins' = implicit_registers ins"
    unfolding ops(3) by (rule renamed_implicit_registers [OF ops(1,2) assms(2)])
  ultimately have "set rs' = ?f ` set rs"
    unfolding for_each_read_registerD [OF rs(1)] for_each_read_registerD [OF rs(2)] listed
    by (simp only: image_Un)
  with rs show ?thesis by blast
qed

section \<open>Properties\<close>

text \<open>A chunk that copies its argument and returns the copy.\<close>

definition copy_chunk :: chunk where
  "copy_chunk = new_chunk\<lparr>code := [Load (Move 1 0), ReturnOp (Return 1)],
     spans := replicate 2 span_zero, register_count := 2\<rparr>"

lemma copy_chunk_fields [simp]:
  "code copy_chunk = [Load (Move 1 0), ReturnOp (Return 1)]"
  "spans copy_chunk = replicate 2 span_zero" "register_count copy_chunk = 2"
  "local_register_count copy_chunk = 0" "parameter_register_start copy_chunk = 0"
  "parameter_register_count copy_chunk = 0" "trace_argument_registers copy_chunk = []"
  "catch_table copy_chunk = []"
  by (simp_all add: copy_chunk_def new_chunk_def)

lemma copy_chunk_verified: "verify xxh3 copy_chunk = Inr ()"
  by (simp add: verify_eval)

lemmas visit_eval = for_each_register_def for_each_read_register_def for_each_write_register_def
  for_each_explicit_register_def operands_def register_at_def instruction_layout_def duplicate_def
  calls_without_arguments_def register_NONE_def implicit_registers_def implicit_reads_def

lemma register_count_bound: "unat (register_count c) \<le> 2 ^ 16 - 1"
  using unsigned_less [of "register_count c", where 'a = nat] by simp

text \<open>The registers the optimizer visits for an instruction of a verified chunk, windows included,
  are registers of the frame; the one exception is the first element of an empty tuple pattern.
\<close>

theorem visited_registers_in_frame:
  assumes "verify xxh3 c = Inr ()" "i < length (code c)" "\<not> empty_tuple_pattern (code c ! i)"
    and "for_each_register (code c ! i) = Some rs"
  shows "\<forall>r\<in>set rs. unat r < unat (register_count c)"
  using for_each_register_visited [OF assms(4,3) _ verified_registers [OF assms(1,2)] register_count_bound]
    verified_registers [OF assms(1,2)] by blast

theorem visited_registers_in_frame_witness:
  "for_each_register (code copy_chunk ! 0) = Some [0, 1] \<and>
     unat (1 :: register) < unat (register_count copy_chunk)"
proof
  show visit: "for_each_register (code copy_chunk ! 0) = Some [0, 1]"
    by (simp add: visit_eval del: One_nat_def)
  show "unat (1 :: register) < unat (register_count copy_chunk)"
    using visited_registers_in_frame [OF copy_chunk_verified _ _ visit]
    by (simp add: empty_tuple_pattern_def)
qed

text \<open>C30. Renaming the registers of an instruction through a table panics exactly when the table is too
  short for one of the visited registers, and otherwise visiting the result visits the renamed
  registers in the same order.
\<close>

theorem remap_registers_exact:
  assumes "for_each_explicit_register ins None = Some rs" "register_NONE \<notin> set mapping"
  shows "(\<forall>r\<in>set rs. unat r < length mapping) \<and>
      (\<exists>ins'. remap_registers ins mapping = Some (Inr ins') \<and>
         for_each_explicit_register ins' None = Some (map (\<lambda>r. mapping ! unat r) rs)) \<or>
    (\<exists>r\<in>set rs. length mapping \<le> unat r) \<and> remap_registers ins mapping = Some (Inl IndexOutOfBounds)"
proof (cases "\<forall>r\<in>set rs. unat r < length mapping")
  case True
  then show ?thesis using remap_registers_explicit [OF assms(1) _ assms(2)] by blast
next
  case False
  then show ?thesis using remap_registers_panics [OF assms(1)] by (auto simp: not_less)
qed

theorem remap_registers_exact_witness:
  "for_each_explicit_register (Load (Move 1 0)) None = Some [0, 1] \<and>
     (\<exists>ins'. remap_registers (Load (Move 1 0)) [4, 3] = Some (Inr ins') \<and>
        for_each_explicit_register ins' None = Some [4, 3])"
proof
  show visit: "for_each_explicit_register (Load (Move 1 0)) None = Some [0, 1]"
    by (simp add: visit_eval del: One_nat_def)
  show "\<exists>ins'. remap_registers (Load (Move 1 0)) [4, 3] = Some (Inr ins') \<and>
      for_each_explicit_register ins' None = Some [4, 3]"
    using remap_registers_exact [OF visit, of "[4, 3]"] by (simp add: register_NONE_def)
qed

text \<open>C32. Replacing a read register, where it succeeds, replaces that register among the registers the
  instruction reads and leaves all others, for every instruction except an assertion that reports
  operands.
\<close>

theorem replace_read_register_exact:
  assumes "replace_read_register ins old new = Some ins'" "\<not> asserts_operands ins"
    and "old \<noteq> register_NONE" "new \<noteq> register_NONE" "instruction_registers c ins \<subseteq> {..<0xFFFF}"
  shows "\<exists>rs rs'. for_each_read_register ins = Some rs \<and> for_each_read_register ins' = Some rs' \<and>
    set rs' = (\<lambda>r. if r = old then new else r) ` set rs"
  by (rule replaced_reads [OF assms]) simp

theorem replace_read_register_exact_witness:
  "\<exists>rs rs'. for_each_read_register (ReturnOp (Return 1)) = Some rs \<and>
     for_each_read_register (ReturnOp (Return 0)) = Some rs' \<and>
     set rs' = (\<lambda>r. if r = 1 then 0 else r) ` set rs"
proof (rule replace_read_register_exact [where c = copy_chunk])
  show "replace_read_register (ReturnOp (Return 1)) 1 0 = Some (ReturnOp (Return 0))"
    by (simp add: replace_read_register_def replace_single_output_def in_fixed_window_def visit_eval
        write_register_def map_registers_def del: One_nat_def)
  show "instruction_registers copy_chunk (ReturnOp (Return 1)) \<subseteq> {..<0xFFFF}"
    by (simp add: instruction_registers_def)
qed (simp_all add: asserts_operands_def register_NONE_def)

text \<open>Replacing the condition of any assertion that reports operands also moves the operands it reports:
  the result reads the registers after the new condition instead of those after the old.
\<close>

theorem replaced_assertion_reads_other_operands:
  assumes "n \<noteq> 0" "unat old + unat n < 0xFFFF" "unat new + unat n < 0xFFFF" "message \<noteq> old"
  shows "\<exists>rs rs'. replace_read_register (CheckOp (Assert n old message label)) old new =
      Some (CheckOp (Assert n new message label)) \<and>
    for_each_read_register (CheckOp (Assert n old message label)) = Some rs \<and>
    for_each_read_register (CheckOp (Assert n new message label)) = Some rs' \<and>
    unat ` set rs = {unat old..unat old + unat n} \<union> (if message = register_NONE then {} else {unat message}) \<and>
    unat ` set rs' = {unat new..unat new + unat n} \<union> (if message = register_NONE then {} else {unat message})"
proof -
  have reads: "\<exists>rs. for_each_read_register (CheckOp (Assert n r message label)) = Some rs \<and>
      unat ` set rs = {unat r..unat r + unat n} \<union> (if message = register_NONE then {} else {unat message})"
    if r: "unat r + unat n < 0xFFFF" for r
  proof -
    have none: "r \<noteq> register_NONE" using r by (auto simp: register_NONE_def)
    have "unat (r + 1) = unat r + 1" using r by (simp add: unat_plus_one)
    then have "unat ` set (implicit_registers (CheckOp (Assert n r message label))) = {unat r + 1..unat r + unat n}"
    proof -
      have window: "implicit_registers (CheckOp (Assert n r message label)) = map (\<lambda>k. r + 1 + of_nat k) [0..<unat n]"
        using assms(1) by (simp add: implicit_registers_def implicit_reads_def check_implicit_reads_def)
      have "unat (r + 1 + of_nat k) = unat r + 1 + k" if "k < unat n" for k
      proof -
        have "unat (of_nat k :: register) = k" using that r by (simp add: unat_of_nat take_bit_nat_eq_self)
        then show ?thesis using that r \<open>unat (r + 1) = unat r + 1\<close> by (simp add: unat_word_ariths(1))
      qed
      then have "unat ` set (implicit_registers (CheckOp (Assert n r message label))) = (\<lambda>k. unat r + 1 + k) ` {0..<unat n}"
        unfolding window set_map set_upt image_image by (intro image_cong) auto
      then show ?thesis unfolding image_add_atLeastLessThan by auto
    qed
    moreover have "{unat r..unat r + unat n} = insert (unat r) {unat r + 1..unat r + unat n}" by auto
    ultimately show ?thesis using none
      by (auto simp: for_each_read_register_def for_each_explicit_register_def operands_def register_at_def
          instruction_layout_def duplicate_def calls_without_arguments_def)
  qed
  have "\<not> in_window old (old + 1) (unat n)"
    using assms(2) by (simp add: in_window_def word_le_nat_alt unat_plus_one)
  then have "replace_read_register (CheckOp (Assert n old message label)) old new = Some (CheckOp (Assert n new message label))"
    using assms(1,4) by (simp add: replace_read_register_def replace_single_output_def in_fixed_window_def visit_eval
        check_implicit_reads_def write_register_def map_registers_def)
  then show ?thesis using reads [OF assms(2)] reads [OF assms(3)] by blast
qed

theorem replaced_assertion_reads_other_operands_witness:
  "\<exists>rs rs'. replace_read_register (CheckOp (Assert 2 5 register_NONE 0)) 5 1 =
      Some (CheckOp (Assert 2 1 register_NONE 0)) \<and>
    for_each_read_register (CheckOp (Assert 2 5 register_NONE 0)) = Some rs \<and>
    for_each_read_register (CheckOp (Assert 2 1 register_NONE 0)) = Some rs' \<and>
    unat ` set rs = {5..7} \<and> unat ` set rs' = {1..3}"
  using replaced_assertion_reads_other_operands [of 2 5 1 register_NONE 0]
  by (simp add: register_NONE_def numeral_3_eq_3 del: One_nat_def)

text \<open>The visitor of written registers visits no field that the table also lists as read before: the
  target of an addition in place is written, but it is not visited.
\<close>

theorem updated_register_not_visited:
  "for_each_write_register (Arithmetic (IntegerAddAssign 1 0 I64)) = Some [] \<and>
   for_each_write_register (Load (MoveOwned 1 0)) = Some [1]"
  by (simp add: visit_eval del: One_nat_def)

end
