(* ===== verification/Whim_Effect.thy ===== *)
theory Whim_Effect
  imports Whim_OptVisit
begin

text \<open>
  What an instruction does to one register (\<^verbatim>\<open>crates/optimizer/src/liveness/effect.rs\<close>): the effect
  every analysis and rewrite of the optimizer asks for. The descriptors of fused instructions and
  calls are looked up in the chunk, which panics out of range. The lemmas compare this table with the
  two other tables of the same facts, the operand offsets and the operands of the verifier.
\<close>

section \<open>Effects\<close>

datatype effect = NoEffect | ReadEffect | WriteEffect | ReadWriteEffect

definition reads :: "effect \<Rightarrow> bool" where
  "reads e \<longleftrightarrow> e = ReadEffect \<or> e = ReadWriteEffect"

definition writes :: "effect \<Rightarrow> bool" where
  "writes e \<longleftrightarrow> e = WriteEffect \<or> e = ReadWriteEffect"

definition effect_is_none :: "effect \<Rightarrow> bool" where
  "effect_is_none e \<longleftrightarrow> e = NoEffect"

fun read_then_write :: "bool \<Rightarrow> bool \<Rightarrow> effect" where
  "read_then_write True True = ReadWriteEffect"
| "read_then_write True False = ReadEffect"
| "read_then_write False True = WriteEffect"
| "read_then_write False False = NoEffect"

definition read_only :: "bool \<Rightarrow> effect" where
  "read_only r = (if r then ReadEffect else NoEffect)"

text \<open>The destinations at the first of several consecutive registers; an index past the last register is none.\<close>

definition in_offsets :: "register \<Rightarrow> register \<Rightarrow> nat \<Rightarrow> bool" where
  "in_offsets r first n \<longleftrightarrow>
     list_ex (\<lambda>offset. unat first + offset < 2 ^ 16 \<and> first + of_nat offset = r) [0..<n]"

primrec load_effect :: "register \<Rightarrow> load_instruction \<Rightarrow> effect" where
  "load_effect r (Move destination source) = read_then_write (source = r) (destination = r)"
| "load_effect r (MoveOwned destination source) =
     read_then_write (source = r) (source = r \<or> destination = r)"
| "load_effect r (Clear target) = (if target = r then ReadWriteEffect else NoEffect)"
| "load_effect r (LoadConstant destination _) = (if destination = r then WriteEffect else NoEffect)"
| "load_effect r (LoadNull destination) = (if destination = r then WriteEffect else NoEffect)"
| "load_effect r (LoadTrue destination) = (if destination = r then WriteEffect else NoEffect)"
| "load_effect r (LoadFalse destination) = (if destination = r then WriteEffect else NoEffect)"
| "load_effect r (LoadInteger destination _ _) = (if destination = r then WriteEffect else NoEffect)"
| "load_effect r (ConstantGet destination _) = (if destination = r then WriteEffect else NoEffect)"
| "load_effect r (ClassConstantGet destination _) =
     (if destination = r then WriteEffect else NoEffect)"

primrec arithmetic_effect :: "register \<Rightarrow> arithmetic_instruction \<Rightarrow> effect" where
  "arithmetic_effect r (Add destination left right _) =
     read_then_write (left = r \<or> right = r) (destination = r)"
| "arithmetic_effect r (AddImmediate destination source _ _) =
     read_then_write (source = r) (destination = r)"
| "arithmetic_effect r (IntegerAddAssign target source _) =
     read_then_write (target = r \<or> source = r) (target = r)"
| "arithmetic_effect r (Subtract destination left right _) =
     read_then_write (left = r \<or> right = r) (destination = r)"
| "arithmetic_effect r (SubtractImmediate destination source _ _) =
     read_then_write (source = r) (destination = r)"
| "arithmetic_effect r (Multiply destination left right _) =
     read_then_write (left = r \<or> right = r) (destination = r)"
| "arithmetic_effect r (IntegerMultiplyImmediate destination source _ _) =
     read_then_write (source = r) (destination = r)"
| "arithmetic_effect r (Divide destination left right) =
     read_then_write (left = r \<or> right = r) (destination = r)"
| "arithmetic_effect r (Modulo destination left right _) =
     read_then_write (left = r \<or> right = r) (destination = r)"
| "arithmetic_effect r (IntegerModuloImmediate destination source _ _) =
     read_then_write (source = r) (destination = r)"
| "arithmetic_effect r (Power destination left right) =
     read_then_write (left = r \<or> right = r) (destination = r)"
| "arithmetic_effect r (Negate destination source) = read_then_write (source = r) (destination = r)"
| "arithmetic_effect r (UnaryPlus destination source) =
     read_then_write (source = r) (destination = r)"
| "arithmetic_effect r (Step destination source _ _) =
     read_then_write (source = r) (destination = r)"
| "arithmetic_effect r (BitwiseAnd destination left right _) =
     read_then_write (left = r \<or> right = r) (destination = r)"
| "arithmetic_effect r (BitwiseOr destination left right _) =
     read_then_write (left = r \<or> right = r) (destination = r)"
| "arithmetic_effect r (BitwiseXor destination left right _) =
     read_then_write (left = r \<or> right = r) (destination = r)"
| "arithmetic_effect r (BitwiseNot destination source _) =
     read_then_write (source = r) (destination = r)"
| "arithmetic_effect r (ShiftLeft destination left right _) =
     read_then_write (left = r \<or> right = r) (destination = r)"
| "arithmetic_effect r (ShiftRight destination left right _) =
     read_then_write (left = r \<or> right = r) (destination = r)"

primrec float_effect :: "chunk \<Rightarrow> register \<Rightarrow> float_instruction \<Rightarrow> panic + effect" where
  "float_effect c r (FloatAdd destination left right) =
     Inr (read_then_write (left = r \<or> right = r) (destination = r))"
| "float_effect c r (FloatSubtract destination left right) =
     Inr (read_then_write (left = r \<or> right = r) (destination = r))"
| "float_effect c r (FloatMultiply destination left right) =
     Inr (read_then_write (left = r \<or> right = r) (destination = r))"
| "float_effect c r (FloatMultiplyConstant destination source _) =
     Inr (read_then_write (source = r) (destination = r))"
| "float_effect c r (Squares first_destination first_source second_source) =
     Inr (read_then_write (first_source = r \<or> second_source = r) (in_offsets r first_destination 2))"
| "float_effect c r (FloatSquares first_destination first_source second_source) =
     Inr (read_then_write (first_source = r \<or> second_source = r) (in_offsets r first_destination 2))"
| "float_effect c r (FloatSquaresSum first_destination first_source second_source) =
     Inr (read_then_write (first_source = r \<or> second_source = r) (in_offsets r first_destination 3))"
| "float_effect c r (FloatSquaresSumBranch descriptor _) = result_map (\<lambda>d. read_then_write
       (squares_first_source d = r \<or> squares_second_source d = r)
       (sum_destination d = r \<or> first_square_destination d = r \<or> second_square_destination d = r))
     (float_squares_sum_branch_descriptor_at descriptor c)"
| "float_effect c r (FloatDifferenceAdd destination first_operand addend) =
     Inr (read_then_write (in_window r first_operand 2 \<or> addend = r) (destination = r))"
| "float_effect c r (FloatScaleProductAdd destination first_operand _) =
     Inr (read_then_write (in_window r first_operand 3) (destination = r))"
| "float_effect c r (FloatPairUpdate descriptor) = result_map (\<lambda>d. read_then_write
       (in_window r (pair_first_operand d) 3 \<or> in_window r (pair_second_operand d) 2 \<or> pair_second_addend d = r)
       (pair_first_destination d = r \<or> pair_second_destination d = r))
     (float_pair_update_descriptor_at descriptor c)"

primrec compare_effect :: "register \<Rightarrow> compare_instruction \<Rightarrow> effect" where
  "compare_effect r (Equal destination left right) =
     read_then_write (left = r \<or> right = r) (destination = r)"
| "compare_effect r (NotEqual destination left right) =
     read_then_write (left = r \<or> right = r) (destination = r)"
| "compare_effect r (LessThan destination left right) =
     read_then_write (left = r \<or> right = r) (destination = r)"
| "compare_effect r (LessThanOrEqual destination left right) =
     read_then_write (left = r \<or> right = r) (destination = r)"
| "compare_effect r (GreaterThan destination left right) =
     read_then_write (left = r \<or> right = r) (destination = r)"
| "compare_effect r (GreaterThanOrEqual destination left right) =
     read_then_write (left = r \<or> right = r) (destination = r)"
| "compare_effect r (Compare destination left right) =
     read_then_write (left = r \<or> right = r) (destination = r)"
| "compare_effect r (NotOp destination source) = read_then_write (source = r) (destination = r)"
| "compare_effect r (Concatenate destination left right) =
     read_then_write (left = r \<or> right = r) (destination = r)"
| "compare_effect r (ConcatenateLeftConstant destination source _) =
     read_then_write (source = r) (destination = r)"
| "compare_effect r (ConcatenateRightConstant destination source _) =
     read_then_write (source = r) (destination = r)"

primrec string_effect :: "register \<Rightarrow> string_instruction \<Rightarrow> effect" where
  "string_effect r (StringLength destination source) =
     read_then_write (source = r) (destination = r)"
| "string_effect r (StringIndexGet destination container index_register) =
     read_then_write (container = r \<or> index_register = r) (destination = r)"
| "string_effect r (StringIndexGetOrNull destination container index_register) =
     read_then_write (container = r \<or> index_register = r) (destination = r)"
| "string_effect r (StringIndexCoalesce destination container index_register _) =
     read_then_write (container = r \<or> index_register = r) (destination = r)"
| "string_effect r (StringByteEqual destination container index_register _) =
     read_then_write (container = r \<or> index_register = r) (destination = r)"
| "string_effect r (StringByteNotEqual destination container index_register _) =
     read_then_write (container = r \<or> index_register = r) (destination = r)"
| "string_effect r (StringByteLessThan destination container index_register _) =
     read_then_write (container = r \<or> index_register = r) (destination = r)"
| "string_effect r (StringByteLessThanOrEqual destination container index_register _) =
     read_then_write (container = r \<or> index_register = r) (destination = r)"
| "string_effect r (StringByteGreaterThan destination container index_register _) =
     read_then_write (container = r \<or> index_register = r) (destination = r)"
| "string_effect r (StringByteGreaterThanOrEqual destination container index_register _) =
     read_then_write (container = r \<or> index_register = r) (destination = r)"
| "string_effect r (StringByteJumpUnlessEqual container index_register _ _) =
     read_only (container = r \<or> index_register = r)"
| "string_effect r (StringByteJumpUnlessNotEqual container index_register _ _) =
     read_only (container = r \<or> index_register = r)"

primrec jump_effect :: "register \<Rightarrow> jump_instruction \<Rightarrow> effect" where
  "jump_effect r (Jump _) = NoEffect"
| "jump_effect r (JumpIfFalse condition _) = read_only (condition = r)"
| "jump_effect r (JumpIfTrue condition _) = read_only (condition = r)"
| "jump_effect r (JumpIfNull subject _) = read_only (subject = r)"
| "jump_effect r (JumpIfNotNull subject _) = read_only (subject = r)"
| "jump_effect r (JumpUnless _ left right _) = read_only (left = r \<or> right = r)"
| "jump_effect r (IntJumpUnless _ left right _) = read_only (left = r \<or> right = r)"
| "jump_effect r (UintJumpUnless _ left right _) = read_only (left = r \<or> right = r)"
| "jump_effect r (StringJumpUnless _ left right _) = read_only (left = r \<or> right = r)"
| "jump_effect r (JumpUnlessConstant _ source _ _) = read_only (source = r)"
| "jump_effect r (IntJumpUnlessImmediate _ source _ _) = read_only (source = r)"
| "jump_effect r (UintJumpUnlessImmediate _ source _ _) = read_only (source = r)"
| "jump_effect r (Coalesce destination source _) = read_then_write (source = r) (destination = r)"
| "jump_effect r (FillDefault target _) = read_only (target = r)"

primrec switch_effect :: "register \<Rightarrow> switch_instruction \<Rightarrow> effect" where
  "switch_effect r (SwitchBool subject _) = read_only (subject = r)"
| "switch_effect r (SwitchInt subject _) = read_only (subject = r)"
| "switch_effect r (SwitchFloat subject _) = read_only (subject = r)"
| "switch_effect r (SwitchString subject _) = read_only (subject = r)"
| "switch_effect r (SwitchPattern subject _) = read_only (subject = r)"
| "switch_effect r (SwitchTuplePattern first_element element_count _) =
     read_only (in_window r first_element (unat element_count))"
| "switch_effect r (BoolPatternBranch subject _ _) = read_only (subject = r)"
| "switch_effect r (IntegerRangeJumpIf subject _ _ _) = read_only (subject = r)"
| "switch_effect r (IntegerRangeJumpUnless subject _ _ _) = read_only (subject = r)"

primrec loop_effect :: "chunk \<Rightarrow> register \<Rightarrow> loop_instruction \<Rightarrow> panic + effect" where
  "loop_effect c r (IncrementJump target _ _) = Inr (read_then_write (target = r) (target = r))"
| "loop_effect c r (CounterLoop _ counter limit _) =
     Inr (read_then_write (counter = r \<or> limit = r) (counter = r))"
| "loop_effect c r (IntCounterLoop _ counter limit _) =
     Inr (read_then_write (counter = r \<or> limit = r) (counter = r))"
| "loop_effect c r (UintCounterLoop _ counter limit _) =
     Inr (read_then_write (counter = r \<or> limit = r) (counter = r))"
| "loop_effect c r (NumericLoop _ left right _) = Inr (read_only (left = r \<or> right = r))"
| "loop_effect c r (IntNumericLoop _ left right _) = Inr (read_only (left = r \<or> right = r))"
| "loop_effect c r (PreparedIntNumericLoop descriptor _) = result_map (\<lambda>d. read_then_write
       (prepared_counter d = r \<or> prepared_limit d = r \<or> bit (float_registers d) (unat r))
       (prepared_counter d = r \<or> bit (float_registers d) (unat r)))
     (prepared_int_loop_descriptor_at descriptor c)"
| "loop_effect c r (IntStepLoop descriptor _) = result_map (\<lambda>d. read_then_write
       (step_counter d = r \<or> step_limit d = r \<or> step_register d = r) (step_counter d = r))
     (int_step_loop_descriptor_at descriptor c)"
| "loop_effect c r (NumericRegionJump _) = Inr NoEffect"

primrec array_effect :: "register \<Rightarrow> array_instruction \<Rightarrow> effect" where
  "array_effect r (NewArray element_count destination first_element operand_kind) =
     read_then_write (in_window r first_element (unat (array_register_count operand_kind element_count)))
       (destination = r)"
| "array_effect r (NewFilledVec destination value_register size_register) =
     read_then_write (value_register = r \<or> size_register = r) (destination = r)"
| "array_effect r (ReserveArray container additional) =
     read_only (container = r \<or> additional = r)"
| "array_effect r (Length destination source) = read_then_write (source = r) (destination = r)"
| "array_effect r (ElementGet destination subject _) =
     read_then_write (subject = r) (destination = r)"
| "array_effect r (IndexGet destination container index_register) =
     read_then_write (container = r \<or> index_register = r) (destination = r)"
| "array_effect r (IndexGetPath index_count destination container first_index) =
     read_then_write (container = r \<or> in_window r first_index (unat index_count)) (destination = r)"
| "array_effect r (VecIndexGet destination container index_register _) =
     read_then_write (container = r \<or> index_register = r) (destination = r)"
| "array_effect r (DictIndexGetIntKey destination container index_register _) =
     read_then_write (container = r \<or> index_register = r) (destination = r)"
| "array_effect r (DictIndexGetUintKey destination container index_register _) =
     read_then_write (container = r \<or> index_register = r) (destination = r)"
| "array_effect r (DictIndexGetStringKey destination container index_register _) =
     read_then_write (container = r \<or> index_register = r) (destination = r)"
| "array_effect r (IndexGetOrNull destination container index_register) =
     read_then_write (container = r \<or> index_register = r) (destination = r)"
| "array_effect r (VecIndexGetOrNull destination container index_register) =
     read_then_write (container = r \<or> index_register = r) (destination = r)"
| "array_effect r (DictIndexGetIntegerKeyOrNull destination container index_register _) =
     read_then_write (container = r \<or> index_register = r) (destination = r)"
| "array_effect r (DictIndexGetStringKeyOrNull destination container index_register) =
     read_then_write (container = r \<or> index_register = r) (destination = r)"
| "array_effect r (IndexCoalesce destination container index_register _) =
     read_then_write (container = r \<or> index_register = r) (destination = r)"
| "array_effect r (VecIndexCoalesce destination container index_register _) =
     read_then_write (container = r \<or> index_register = r) (destination = r)"
| "array_effect r (DictIndexCoalesceIntKey destination container index_register _) =
     read_then_write (container = r \<or> index_register = r) (destination = r)"
| "array_effect r (DictIndexCoalesceUintKey destination container index_register _) =
     read_then_write (container = r \<or> index_register = r) (destination = r)"
| "array_effect r (DictIndexCoalesceStringKey destination container index_register _) =
     read_then_write (container = r \<or> index_register = r) (destination = r)"

primrec update_effect :: "register \<Rightarrow> update_instruction \<Rightarrow> effect" where
  "update_effect r (IndexSet container index_register value_register) =
     read_only (container = r \<or> index_register = r \<or> value_register = r)"
| "update_effect r (IndexSetPath index_count container first_index value_register) =
     read_only (container = r \<or> value_register = r \<or> in_window r first_index (unat index_count))"
| "update_effect r (IndexUpdatePath index_count _ container operand_register) =
     read_then_write (container = r \<or> in_window r operand_register (unat index_count + 1))
       (operand_register = r)"
| "update_effect r (VecIndexSet container index_register value_register) =
     read_only (container = r \<or> index_register = r \<or> value_register = r)"
| "update_effect r (DictIndexSet container index_register value_register) =
     read_only (container = r \<or> index_register = r \<or> value_register = r)"
| "update_effect r (DictIndexSetIntegerKey container index_register value_register _) =
     read_only (container = r \<or> index_register = r \<or> value_register = r)"
| "update_effect r (DictIndexSetStringKey container index_register value_register) =
     read_only (container = r \<or> index_register = r \<or> value_register = r)"
| "update_effect r (IndexAddAssign container index_register value_register _) =
     read_only (container = r \<or> index_register = r \<or> value_register = r)"
| "update_effect r (Append container value_register) =
     read_only (container = r \<or> value_register = r)"
| "update_effect r (VecAppend container value_register) =
     read_only (container = r \<or> value_register = r)"
| "update_effect r (Spread container value_register) =
     read_only (container = r \<or> value_register = r)"
| "update_effect r (Rest destination subject _) = read_then_write (subject = r) (destination = r)"
| "update_effect r (Contains destination array value_register) =
     read_then_write (array = r \<or> value_register = r) (destination = r)"
| "update_effect r (ContainsKey destination array key_register) =
     read_then_write (array = r \<or> key_register = r) (destination = r)"
| "update_effect r (Remove destination container key_register) =
     read_then_write (container = r \<or> key_register = r) (destination = r)"
| "update_effect r (RemoveFirst destination container) =
     read_then_write (container = r) (destination = r)"
| "update_effect r (RemoveLast destination container) =
     read_then_write (container = r) (destination = r)"
| "update_effect r (SwapRemove destination container index_register) =
     read_then_write (container = r \<or> index_register = r) (destination = r)"
| "update_effect r (CheckDestructure subject _ _ _) = read_only (subject = r)"
| "update_effect r (ForeachInit iterator subject reserve_register) =
     read_then_write (subject = r \<or> (reserve_register \<noteq> register_NONE \<and> reserve_register = r))
       (iterator = r)"
| "update_effect r (ForeachNext iterator key_destination value_destination) =
     read_then_write (iterator = r) (key_destination = r \<or> value_destination = r)"
| "update_effect r (VecForeachNext iterator key_destination value_destination _) =
     read_then_write (iterator = r) (key_destination = r \<or> value_destination = r)"
| "update_effect r (DictForeachNext iterator key_destination value_destination _) =
     read_then_write (iterator = r) (key_destination = r \<or> value_destination = r)"

primrec object_effect :: "chunk \<Rightarrow> register \<Rightarrow> object_instruction \<Rightarrow> panic + effect" where
  "object_effect c r (NewStatic destination _) =
     Inr (if destination = r then WriteEffect else NoEffect)"
| "object_effect c r (NewDynamic destination class_name) =
     Inr (read_then_write (class_name = r) (destination = r))"
| "object_effect c r (NewTyped destination _) =
     Inr (if destination = r then WriteEffect else NoEffect)"
| "object_effect c r (CloneObject destination source) =
     Inr (read_then_write (source = r) (destination = r))"
| "object_effect c r (InitializeProperties object _ descriptor) =
     result_map (\<lambda>d. read_then_write
       ((\<not> allocates d \<and> object = r) \<or> list_ex (\<lambda>e. entry_value e = r) (initialization_entries d))
       (allocates d \<and> object = r))
     (property_initialization_descriptor_at descriptor c)"
| "object_effect c r (PropertyGet destination object _) =
     Inr (read_then_write (object = r) (destination = r))"
| "object_effect c r (PropertyGetUnchecked destination object _ _) =
     Inr (read_then_write (object = r) (destination = r))"
| "object_effect c r (PropertyGetOrNull destination object _) =
     Inr (read_then_write (object = r) (destination = r))"
| "object_effect c r (PropertyGetOrNullUnchecked destination object _) =
     Inr (read_then_write (object = r) (destination = r))"
| "object_effect c r (PropertyCoalesce destination object _ _) =
     Inr (read_then_write (object = r) (destination = r))"
| "object_effect c r (PropertyCoalesceUnchecked destination object _ _) =
     Inr (read_then_write (object = r) (destination = r))"
| "object_effect c r (PropertySet object value_register _) =
     Inr (read_only (object = r \<or> value_register = r))"
| "object_effect c r (PropertySetUnchecked object value_register _ _) =
     Inr (read_only (object = r \<or> value_register = r))"
| "object_effect c r (PropertyInitRaw object value_register _) =
     Inr (read_only (object = r \<or> value_register = r))"
| "object_effect c r (PropertyIndexSet object first_operand _) =
     Inr (read_only (object = r \<or> in_window r first_operand 2))"
| "object_effect c r (PropertyIndexSetUnchecked object first_operand _) =
     Inr (read_only (object = r \<or> in_window r first_operand 2))"
| "object_effect c r (PropertyIndexUpdate object operand_register _ _) =
     Inr (read_only (object = r \<or> operand_register = r))"
| "object_effect c r (PropertyIndexUpdateUnchecked object operand_register _ _) =
     Inr (read_only (object = r \<or> operand_register = r))"
| "object_effect c r (PropertyStep object _ _ _) = Inr (read_only (object = r))"
| "object_effect c r (PropertyStepUnchecked object _ _ _) = Inr (read_only (object = r))"
| "object_effect c r (PropertyAdd object source _) = Inr (read_only (object = r \<or> source = r))"
| "object_effect c r (PropertyAddUnchecked object source _) =
     Inr (read_only (object = r \<or> source = r))"
| "object_effect c r (PropertyFillIntRange object first_operand _) =
     Inr (read_only (object = r \<or> in_window r first_operand 2))"
| "object_effect c r (PropertyRemove object destination _ mode) =
     Inr (read_then_write (object = r \<or> (uses_operand mode \<and> destination + 1 = r))
       (destination = r))"
| "object_effect c r (PropertyRemoveUnchecked object destination _ mode) =
     Inr (read_then_write (object = r \<or> (uses_operand mode \<and> destination + 1 = r))
       (destination = r))"
| "object_effect c r (StaticPropertyGet destination _) =
     Inr (if destination = r then WriteEffect else NoEffect)"
| "object_effect c r (StaticPropertyGetOrNull destination _) =
     Inr (if destination = r then WriteEffect else NoEffect)"
| "object_effect c r (StaticPropertyCoalesce destination _ _) =
     Inr (if destination = r then WriteEffect else NoEffect)"
| "object_effect c r (StaticPropertySet _ value_register) = Inr (read_only (value_register = r))"

primrec call_effect :: "chunk \<Rightarrow> register \<Rightarrow> call_instruction \<Rightarrow> panic + effect" where
  "call_effect c r (MakeClosure capture_count destination _ first_capture) =
     Inr (read_then_write (in_window r first_capture (unat capture_count)) (destination = r))"
| "call_effect c r (MakeBound destination callee_register descriptor) =
     result_map (\<lambda>d. read_then_write
       (callee_register = r \<or> in_window r (callee_register + 1) (length (slots d))) (destination = r))
     (table_entry (preset_descriptors c) descriptor)"
| "call_effect c r (CallValue argument_count destination callee_register first_argument) =
     Inr (read_then_write (callee_register = r \<or> in_window r first_argument (unat argument_count))
       (destination = r \<or> in_window r first_argument (unat argument_count)))"
| "call_effect c r (CallValueUnchecked argument_count destination callee_register first_argument) =
     Inr (read_then_write (callee_register = r \<or> in_window r first_argument (unat argument_count))
       (destination = r \<or> in_window r first_argument (unat argument_count)))"
| "call_effect c r (CallValueDiscarded argument_count destination callee_register first_argument) =
     Inr (read_then_write (callee_register = r \<or> in_window r first_argument (unat argument_count))
       (destination = r \<or> in_window r first_argument (unat argument_count)))"
| "call_effect c r (CallNamed argument_count destination first_argument _) =
     Inr (read_then_write (in_window r first_argument (unat argument_count))
       (destination = r \<or> in_window r first_argument (unat argument_count)))"
| "call_effect c r (CallNamedUnchecked argument_count destination first_argument _) =
     Inr (read_then_write (in_window r first_argument (unat argument_count))
       (destination = r \<or> in_window r first_argument (unat argument_count)))"
| "call_effect c r (CallNamedDirect argument_count destination first_argument _) =
     Inr (read_then_write (in_window r first_argument (unat argument_count)) (destination = r))"
| "call_effect c r (CallNamedConstantUnchecked destination _ _ _) =
     Inr (if destination = r then WriteEffect else NoEffect)"
| "call_effect c r (CallNamedDiscarded argument_count destination first_argument _) =
     Inr (read_then_write (in_window r first_argument (unat argument_count))
       (destination = r \<or> in_window r first_argument (unat argument_count)))"
| "call_effect c r (CallMethod argument_count destination first_argument _) =
     Inr (read_then_write (in_window r first_argument (unat argument_count))
       (destination = r \<or> in_window r first_argument (unat argument_count)))"
| "call_effect c r (CallMethodUnchecked argument_count destination first_argument _) =
     Inr (read_then_write (in_window r first_argument (unat argument_count))
       (destination = r \<or> in_window r first_argument (unat argument_count)))"
| "call_effect c r (CallMethodDirect argument_count destination first_argument _) =
     Inr (read_then_write (in_window r first_argument (unat argument_count)) (destination = r))"
| "call_effect c r (CallMethodDiscarded argument_count destination first_argument _) =
     Inr (read_then_write (in_window r first_argument (unat argument_count))
       (destination = r \<or> in_window r first_argument (unat argument_count)))"
| "call_effect c r (CallStatic argument_count destination first_argument _) =
     Inr (read_then_write (in_window r first_argument (unat argument_count))
       (destination = r \<or> in_window r first_argument (unat argument_count)))"
| "call_effect c r (CallStaticDiscarded argument_count destination first_argument _) =
     Inr (read_then_write (in_window r first_argument (unat argument_count))
       (destination = r \<or> in_window r first_argument (unat argument_count)))"
| "call_effect c r (CallSelfUnchecked argument_count destination first_argument) =
     Inr (read_then_write (in_window r first_argument (unat argument_count))
       (destination = r \<or> in_window r first_argument (unat argument_count)))"
| "call_effect c r (CallWithNames destination callee_register descriptor) =
     result_map (\<lambda>d. read_then_write
       (callee_register = r \<or> in_window r (callee_register + 1) (unat (positional d) + length (named d)))
       (destination = r \<or> in_window r (callee_register + 1) (unat (positional d) + length (named d))))
     (table_entry (call_descriptors c) descriptor)"
| "call_effect c r (CallWithNamesDiscarded destination callee_register descriptor) =
     result_map (\<lambda>d. read_then_write
       (callee_register = r \<or> in_window r (callee_register + 1) (unat (positional d) + length (named d)))
       (destination = r \<or> in_window r (callee_register + 1) (unat (positional d) + length (named d))))
     (table_entry (call_descriptors c) descriptor)"
| "call_effect c r (CheckDiscardedResult source) = Inr (read_only (source = r))"

primrec return_effect :: "register \<Rightarrow> return_instruction \<Rightarrow> effect" where
  "return_effect r (Return source) = read_only (source = r)"
| "return_effect r (ReturnUnchecked source) = read_only (source = r)"
| "return_effect r (ReturnReferenceUnchecked source) = read_only (source = r)"
| "return_effect r (ReturnScalarUnchecked source) = read_only (source = r)"
| "return_effect r (ReturnIntegerUnchecked _ _) = NoEffect"
| "return_effect r (ReturnPairUnchecked first second) = read_only (first = r \<or> second = r)"
| "return_effect r ReturnNull = NoEffect"
| "return_effect r ReturnNullUnchecked = NoEffect"

primrec check_effect :: "register \<Rightarrow> check_instruction \<Rightarrow> effect" where
  "check_effect r (Is destination source _) = read_then_write (source = r) (destination = r)"
| "check_effect r (AsCheck destination source _ _) = read_then_write (source = r) (destination = r)"
| "check_effect r (AsOrNull destination source _) = read_then_write (source = r) (destination = r)"
| "check_effect r (CheckDefined subject _) = read_only (subject = r)"
| "check_effect r (CheckSoleReference source _ _) = read_only (source = r)"
| "check_effect r CheckWhereConstraints = NoEffect"
| "check_effect r (Throw source) = read_only (source = r)"
| "check_effect r Rethrow = NoEffect"
| "check_effect r (ThrowUnhandledMatch subject) = read_only (subject = r)"
| "check_effect r (Panic message) = read_only (message = r)"
| "check_effect r (Assert operand_count first_value message _) =
     read_only (in_window r first_value (unat operand_count + 1) \<or> (message \<noteq> register_NONE \<and> message = r))"
| "check_effect r (Exit exit_code) =
     read_only (exit_code \<noteq> register_NONE \<and> exit_code = r)"
| "check_effect r (Write element_count register _ _) =
     read_only (in_window r register (unat element_count))"
| "check_effect r (Debug value_count first_value) =
     read_only (in_window r first_value (unat value_count))"
| "check_effect r (Require _ destination path) = read_then_write (path = r) (destination = r)"
| "check_effect r DrainFinalizers = NoEffect"
| "check_effect r (Fresh destination) = (if destination = r then WriteEffect else NoEffect)"

definition effect_on :: "chunk \<Rightarrow> instruction \<Rightarrow> register \<Rightarrow> panic + effect" where
  "effect_on c ins r =
     (case ins of
        Load i \<Rightarrow> Inr (load_effect r i)
      | Arithmetic i \<Rightarrow> Inr (arithmetic_effect r i)
      | FloatOp i \<Rightarrow> float_effect c r i
      | CompareOp i \<Rightarrow> Inr (compare_effect r i)
      | StringOp i \<Rightarrow> Inr (string_effect r i)
      | Branch i \<Rightarrow> Inr (jump_effect r i)
      | Switch i \<Rightarrow> Inr (switch_effect r i)
      | LoopOp i \<Rightarrow> loop_effect c r i
      | ArrayOp i \<Rightarrow> Inr (array_effect r i)
      | ArrayUpdate i \<Rightarrow> Inr (update_effect r i)
      | ObjectOp i \<Rightarrow> object_effect c r i
      | CallOp i \<Rightarrow> call_effect c r i
      | ReturnOp i \<Rightarrow> Inr (return_effect r i)
      | CheckOp i \<Rightarrow> Inr (check_effect r i))"

definition changes_value :: "chunk \<Rightarrow> instruction \<Rightarrow> register \<Rightarrow> panic + bool" where
  "changes_value c ins r =
     (case ins of
        ArrayUpdate i \<Rightarrow> Inr
          (case i of
             IndexSet container _ _ \<Rightarrow> container = r
           | IndexSetPath _ container _ _ \<Rightarrow> container = r
           | IndexUpdatePath _ _ container _ \<Rightarrow> container = r
           | VecIndexSet container _ _ \<Rightarrow> container = r
           | DictIndexSetIntegerKey container _ _ _ \<Rightarrow> container = r
           | DictIndexSetStringKey container _ _ \<Rightarrow> container = r
           | DictIndexSet container _ _ \<Rightarrow> container = r
           | IndexAddAssign container _ _ _ \<Rightarrow> container = r
           | Append container _ \<Rightarrow> container = r
           | VecAppend container _ \<Rightarrow> container = r
           | Spread container _ \<Rightarrow> container = r
           | Remove _ container _ \<Rightarrow> container = r
           | SwapRemove _ container _ \<Rightarrow> container = r
           | RemoveFirst _ container \<Rightarrow> container = r
           | RemoveLast _ container \<Rightarrow> container = r
           | _ \<Rightarrow> False)
      | ArrayOp (ReserveArray container _) \<Rightarrow> Inr (container = r)
      | ObjectOp (PropertySetUnchecked _ value_register _ value_mode) \<Rightarrow>
          Inr (value_register = r \<and> moves value_mode)
      | ObjectOp (InitializeProperties _ _ descriptor) \<Rightarrow>
          result_map (\<lambda>d. list_ex (\<lambda>e. entry_value e = r \<and> moves (entry_value_mode e))
              (initialization_entries d))
            (property_initialization_descriptor_at descriptor c)
      | _ \<Rightarrow> Inr False)"

definition overwrites_register :: "chunk \<Rightarrow> instruction \<Rightarrow> register \<Rightarrow> panic + bool" where
  "overwrites_register c ins r = result_map writes (effect_on c ins r)"

section \<open>The effect and the visitors\<close>

text \<open>
  The visitors see what the effect says: a classified instruction reads exactly the registers the
  read visitor visits, and writes of the others exactly those the write visitor visits. Clearing a
  register is the exception; its effect counts the old value as read.
\<close>

lemma reads_read_then_write [simp]: "reads (read_then_write a b) \<longleftrightarrow> a" "writes (read_then_write a b) \<longleftrightarrow> b"
  by (cases a; cases b; simp add: reads_def writes_def)+

lemma reads_read_only [simp]: "reads (read_only a) \<longleftrightarrow> a" "\<not> writes (read_only a)"
  by (simp_all add: reads_def writes_def read_only_def)

lemma reads_constructors [simp]:
  "\<not> reads NoEffect" "\<not> writes NoEffect" "\<not> reads WriteEffect" "writes WriteEffect"
  "reads ReadWriteEffect" "writes ReadWriteEffect" "reads ReadEffect" "\<not> writes ReadEffect"
  by (simp_all add: reads_def writes_def)

lemma reads_write_only [simp]:
  "\<not> reads (if b then WriteEffect else NoEffect)" "writes (if b then WriteEffect else NoEffect) \<longleftrightarrow> b"
  by simp_all

definition clears :: "instruction \<Rightarrow> register \<Rightarrow> bool" where
  "clears ins r \<longleftrightarrow> (case ins of Load (Clear target) \<Rightarrow> target = r | _ \<Rightarrow> False)"

text \<open>What the visitors visit, over the fields of the instruction.\<close>

definition visited_reads :: "instruction \<Rightarrow> operand list \<Rightarrow> register \<Rightarrow> bool" where
  "visited_reads ins ops r \<longleftrightarrow>
     list_ex (\<lambda>(n, x). x = r \<and> (n, ReadAccess) \<in> set ops \<and> \<not> (n = 4 \<and> calls_without_arguments ins))
       (register_fields 1 (instruction_layout ins)) \<or>
     (case implicit_reads ins of None \<Rightarrow> False | Some (first, n) \<Rightarrow> in_window r first n)"

lemmas visited_reads_defs = visited_reads_def instruction_layout_def implicit_reads_def
  calls_without_arguments_def

lemma in_window_0 [simp]: "\<not> in_window r first 0"
  by (simp add: in_window_iff)

lemma in_window_1 [simp]: "in_window r first (Suc 0) \<longleftrightarrow> first = r"
  by (auto simp: in_window_iff word_unat_eq_iff)

text \<open>A window is its first register and the rest.\<close>

lemma in_window_Suc:
  assumes "window first (Suc n) \<subseteq> {..<N}" "N \<le> 2 ^ 16 - 1"
  shows "in_window r first (Suc n) \<longleftrightarrow> first = r \<or> in_window r (first + 1) n"
proof (cases "n = 0")
  case True
  then show ?thesis by (auto simp: in_window_iff word_unat_eq_iff)
next
  case False
  then have "unat first + 1 < 2 ^ 16" using window_below [OF assms(1)] assms(2) by simp
  then show ?thesis using unat_plus_one [of first] by (auto simp: in_window_iff word_unat_eq_iff)
qed

lemma load_reads:
  assumes "load_operand_table i = Some ops" "e = load_effect r i" "\<not> clears (Load i) r"
  shows "visited_reads (Load i) ops r \<longleftrightarrow> reads e"
  using assms by (cases i) (auto simp: visited_reads_defs clears_def simp del: One_nat_def)

lemma arithmetic_reads:
  assumes "arithmetic_operand_table i = Some ops" "e = arithmetic_effect r i"
  shows "visited_reads (Arithmetic i) ops r \<longleftrightarrow> reads e"
  using assms by (cases i) (auto simp: visited_reads_defs simp del: One_nat_def)

lemma float_reads:
  assumes "float_operand_table i = Some ops" "float_effect c r i = Inr e"
  shows "visited_reads (FloatOp i) ops r \<longleftrightarrow> reads e"
  using assms by (cases i) (auto simp: visited_reads_defs simp del: One_nat_def)

lemma compare_reads:
  assumes "compare_operand_table i = Some ops" "e = compare_effect r i"
  shows "visited_reads (CompareOp i) ops r \<longleftrightarrow> reads e"
  using assms by (cases i) (auto simp: visited_reads_defs simp del: One_nat_def)

lemma string_reads:
  assumes "string_operand_table i = Some ops" "e = string_effect r i"
  shows "visited_reads (StringOp i) ops r \<longleftrightarrow> reads e"
  using assms by (cases i) (auto simp: visited_reads_defs simp del: One_nat_def)

lemma jump_reads:
  assumes "jump_operand_table i = Some ops" "e = jump_effect r i"
  shows "visited_reads (Branch i) ops r \<longleftrightarrow> reads e"
  using assms by (cases i) (auto simp: visited_reads_defs simp del: One_nat_def)

lemma switch_reads:
  assumes "switch_operand_table i = Some ops" "e = switch_effect r i" "\<not> empty_tuple_pattern (Switch i)"
  shows "visited_reads (Switch i) ops r \<longleftrightarrow> reads e"
  using assms by (cases i) (auto simp: visited_reads_defs empty_tuple_pattern_def simp del: One_nat_def)

lemma loop_reads:
  assumes "loop_operand_table i = Some ops" "loop_effect c r i = Inr e"
  shows "visited_reads (LoopOp i) ops r \<longleftrightarrow> reads e"
  using assms by (cases i) (auto simp: visited_reads_defs simp del: One_nat_def)

lemma return_reads:
  assumes "return_operand_table i = Some ops" "e = return_effect r i"
  shows "visited_reads (ReturnOp i) ops r \<longleftrightarrow> reads e"
  using assms by (cases i) (auto simp: visited_reads_defs simp del: One_nat_def)

definition empty_index_path :: "instruction \<Rightarrow> bool" where
  "empty_index_path ins \<longleftrightarrow>
     (case ins of
        ArrayOp (IndexGetPath n _ _ _) \<Rightarrow> n = 0
      | ArrayUpdate (IndexSetPath n _ _ _) \<Rightarrow> n = 0
      | _ \<Rightarrow> False)"

lemma array_reads:
  assumes "array_operand_table i = Some ops" "e = array_effect r i" "\<not> empty_index_path (ArrayOp i)"
  shows "visited_reads (ArrayOp i) ops r \<longleftrightarrow> reads e"
  using assms
  by (cases i) (auto simp: visited_reads_defs array_implicit_reads_def array_register_count_value
      empty_index_path_def simp del: One_nat_def)

lemma update_reads:
  assumes "update_operand_table i = Some ops" "e = update_effect r i" "r \<noteq> register_NONE"
    "\<not> empty_index_path (ArrayUpdate i)"
  shows "visited_reads (ArrayUpdate i) ops r \<longleftrightarrow> reads e"
  using assms
  by (cases i) (auto simp: visited_reads_defs update_implicit_reads_def
      empty_index_path_def simp del: One_nat_def)

lemma object_reads:
  assumes "object_operand_table i = Some ops" "object_effect c r i = Inr e"
    "instruction_registers c (ObjectOp i) \<subseteq> {..<N}" "N \<le> 2 ^ 16 - 1"
  shows "visited_reads (ObjectOp i) ops r \<longleftrightarrow> reads e"
proof -
  have *: "in_window r first 2 \<longleftrightarrow> first = r \<or> first + 1 = r" if "window first 2 \<subseteq> {..<N}" for first
    using in_window_Suc [of first 1 N r] that assms(4) by (simp add: numeral_2_eq_2)
  show ?thesis
    using assms(1-3) *
    by (cases i) (auto simp: visited_reads_defs object_implicit_reads_def instruction_registers_def
        object_registers_of_def)
qed

lemma check_reads:
  assumes "check_operand_table i = Some ops" "e = check_effect r i" "r \<noteq> register_NONE"
    "instruction_registers c (CheckOp i) \<subseteq> {..<N}" "N \<le> 2 ^ 16 - 1"
  shows "visited_reads (CheckOp i) ops r \<longleftrightarrow> reads e"
  using assms in_window_Suc [of _ _ N r]
  by (cases i) (auto simp: visited_reads_defs check_implicit_reads_def instruction_registers_def
      check_registers_of_def)

lemma call_reads:
  assumes "call_operand_table i = Some ops" "call_effect c r i = Inr e"
    "instruction_registers c (CallOp i) \<subseteq> {..<N}" "N \<le> 2 ^ 16 - 1"
  shows "visited_reads (CallOp i) ops r \<longleftrightarrow> reads e"
proof -
  have *: "in_window r first (unat k) \<longleftrightarrow> first = r \<or> in_window r (first + 1) (unat (k - 1))"
    if "window first (unat k) \<subseteq> {..<N}" "k \<noteq> 0" for first :: register and k :: u8
  proof -
    have "unat k = Suc (unat (k - 1))" using that(2) by (simp add: unat_minus_one)
    with in_window_Suc [of first "unat (k - 1)" N r] that(1) assms(4) show ?thesis by simp
  qed
  have more: "1 < k \<longleftrightarrow> k \<noteq> 0 \<and> k - 1 \<noteq> 0" for k :: u8
  proof -
    have "unat k = 1 \<longleftrightarrow> k = 1" by (metis unat_1 word_unat_eq_iff)
    then have "1 < unat k \<longleftrightarrow> k \<noteq> 0 \<and> k \<noteq> 1" using unat_positive [of k] by linarith
    then show ?thesis by (simp add: word_less_nat_alt)
  qed
  show ?thesis
  proof (cases i)
    case (CallNamedUnchecked n destination first cache)
    then show ?thesis
      using assms * [of first n]
      by (auto simp: visited_reads_defs call_implicit_reads_def instruction_registers_def
        call_registers_of_def more simp del: One_nat_def)
  next
    case (CallSelfUnchecked n destination first)
    then show ?thesis
      using assms * [of first n]
      by (auto simp: visited_reads_defs call_implicit_reads_def instruction_registers_def
        call_registers_of_def more simp del: One_nat_def)
  qed (use assms in \<open>auto simp: visited_reads_defs call_implicit_reads_def Let_def simp del: One_nat_def\<close>)
qed

text \<open>A register that is written and not read is visited as written.\<close>

definition visited_writes :: "instruction \<Rightarrow> operand list \<Rightarrow> register \<Rightarrow> bool" where
  "visited_writes ins ops r \<longleftrightarrow>
     list_ex (\<lambda>(n, x). x = r \<and> (n, WriteAccess) \<in> set ops \<and> \<not> (n = 4 \<and> calls_without_arguments ins))
       (register_fields 1 (instruction_layout ins))"

lemmas visited_writes_defs = visited_writes_def instruction_layout_def calls_without_arguments_def

lemma load_writes:
  assumes "load_operand_table i = Some ops" "e = load_effect r i" "\<not> reads e"
  shows "visited_writes (Load i) ops r \<longleftrightarrow> writes e"
  using assms by (cases i) (auto simp: visited_writes_defs simp del: One_nat_def)

lemma arithmetic_writes:
  assumes "arithmetic_operand_table i = Some ops" "e = arithmetic_effect r i" "\<not> reads e"
  shows "visited_writes (Arithmetic i) ops r \<longleftrightarrow> writes e"
  using assms by (cases i) (auto simp: visited_writes_defs simp del: One_nat_def)

lemma float_writes:
  assumes "float_operand_table i = Some ops" "float_effect c r i = Inr e" "\<not> reads e"
  shows "visited_writes (FloatOp i) ops r \<longleftrightarrow> writes e"
  using assms by (cases i) (auto simp: visited_writes_defs simp del: One_nat_def)

lemma compare_writes:
  assumes "compare_operand_table i = Some ops" "e = compare_effect r i" "\<not> reads e"
  shows "visited_writes (CompareOp i) ops r \<longleftrightarrow> writes e"
  using assms by (cases i) (auto simp: visited_writes_defs simp del: One_nat_def)

lemma string_writes:
  assumes "string_operand_table i = Some ops" "e = string_effect r i" "\<not> reads e"
  shows "visited_writes (StringOp i) ops r \<longleftrightarrow> writes e"
  using assms by (cases i) (auto simp: visited_writes_defs simp del: One_nat_def)

lemma jump_writes:
  assumes "jump_operand_table i = Some ops" "e = jump_effect r i" "\<not> reads e"
  shows "visited_writes (Branch i) ops r \<longleftrightarrow> writes e"
  using assms by (cases i) (auto simp: visited_writes_defs simp del: One_nat_def)

lemma switch_writes:
  assumes "switch_operand_table i = Some ops" "e = switch_effect r i" "\<not> reads e"
  shows "visited_writes (Switch i) ops r \<longleftrightarrow> writes e"
  using assms by (cases i) (auto simp: visited_writes_defs simp del: One_nat_def)

lemma loop_writes:
  assumes "loop_operand_table i = Some ops" "loop_effect c r i = Inr e" "\<not> reads e"
  shows "visited_writes (LoopOp i) ops r \<longleftrightarrow> writes e"
  using assms by (cases i) (auto simp: visited_writes_defs simp del: One_nat_def)

lemma array_writes:
  assumes "array_operand_table i = Some ops" "e = array_effect r i" "\<not> reads e"
  shows "visited_writes (ArrayOp i) ops r \<longleftrightarrow> writes e"
  using assms by (cases i) (auto simp: visited_writes_defs simp del: One_nat_def)

lemma update_writes:
  assumes "update_operand_table i = Some ops" "e = update_effect r i" "\<not> reads e"
  shows "visited_writes (ArrayUpdate i) ops r \<longleftrightarrow> writes e"
  using assms by (cases i) (auto simp: visited_writes_defs simp del: One_nat_def)

lemma object_writes:
  assumes "object_operand_table i = Some ops" "object_effect c r i = Inr e" "\<not> reads e"
  shows "visited_writes (ObjectOp i) ops r \<longleftrightarrow> writes e"
  using assms by (cases i) (auto simp: visited_writes_defs simp del: One_nat_def)

lemma call_writes:
  assumes "call_operand_table i = Some ops" "call_effect c r i = Inr e" "\<not> reads e"
  shows "visited_writes (CallOp i) ops r \<longleftrightarrow> writes e"
  using assms by (cases i) (auto simp: visited_writes_defs simp del: One_nat_def)

lemma return_writes:
  assumes "return_operand_table i = Some ops" "e = return_effect r i" "\<not> reads e"
  shows "visited_writes (ReturnOp i) ops r \<longleftrightarrow> writes e"
  using assms by (cases i) (auto simp: visited_writes_defs simp del: One_nat_def)

lemma check_writes:
  assumes "check_operand_table i = Some ops" "e = check_effect r i" "\<not> reads e"
  shows "visited_writes (CheckOp i) ops r \<longleftrightarrow> writes e"
  using assms by (cases i) (auto simp: visited_writes_defs simp del: One_nat_def)

section \<open>One register of one instruction\<close>

text \<open>
  What the agreement of the tables needs of an instruction: its registers are below the marker of a
  missing register, and it is neither an empty tuple pattern nor an empty index path.
\<close>

definition plain :: "chunk \<Rightarrow> instruction \<Rightarrow> bool" where
  "plain c ins \<longleftrightarrow>
     instruction_registers c ins \<subseteq> {..<0xFFFF} \<and> \<not> empty_tuple_pattern ins \<and> \<not> empty_index_path ins"

lemma verified_plain:
  assumes "verify xxh3 c = Inr ()" "i < length (code c)" "\<not> empty_tuple_pattern (code c ! i)"
  shows "plain c (code c ! i)"
proof -
  have "instruction_registers c (code c ! i) \<subseteq> {..<0xFFFF}"
    using verified_registers [OF assms(1,2)] register_count_bound [of c] by auto
  moreover have "\<not> empty_index_path (code c ! i)"
    using verified_instruction(1) [OF assms(1,2)]
    by (auto simp: empty_index_path_def verify_instruction_def verify_array_def verify_update_def Let_def
        split: instruction.splits array_instruction.splits update_instruction.splits)
  ultimately show ?thesis using assms(3) by (simp add: plain_def)
qed

lemma visited_reads_iff:
  assumes "plain c ins" "operands ins = Some ops" "r \<noteq> register_NONE"
    "for_each_read_register ins = Some rs"
  shows "r \<in> set rs \<longleftrightarrow> visited_reads ins ops r"
proof -
  have "instruction_registers c ins \<subseteq> {..<0xFFFF}" using assms(1) by (simp add: plain_def)
  then have "r \<in> set (implicit_registers ins) \<longleftrightarrow>
      (case implicit_reads ins of None \<Rightarrow> False | Some (first, n) \<Rightarrow> in_window r first n)"
    by (subst implicit_registers_iff) (auto split: option.splits)
  moreover have "(\<exists>n. listed ins ReadAccess n \<and> register_at ins n = Some r) \<longleftrightarrow>
      list_ex (\<lambda>(n, x). x = r \<and> (n, ReadAccess) \<in> set ops \<and> \<not> (n = 4 \<and> calls_without_arguments ins))
        (register_fields 1 (instruction_layout ins))"
    using assms(2) by (auto simp: listed_def register_at_Some list_ex_iff)
  ultimately show ?thesis
    using for_each_read_registerD [OF assms(4)] assms(3) by (simp add: visited_reads_def)
qed

lemma visited_writes_iff:
  assumes "operands ins = Some ops" "r \<noteq> register_NONE" "\<not> visited_reads ins ops r"
    "for_each_write_register ins = Some ws"
  shows "r \<in> set ws \<longleftrightarrow> visited_writes ins ops r"
proof
  assume "r \<in> set ws"
  then obtain i n where i: "i < length ops" "ops ! i = (n, WriteAccess)"
    "\<not> (n = 4 \<and> calls_without_arguments ins)" "register_at ins n = Some r"
    using assms(1,4)
    by (auto simp: for_each_write_register_def for_each_explicit_register_def visit_operands_set)
  moreover have "(n, WriteAccess) \<in> set ops" using nth_mem [OF i(1)] i(2) by simp
  ultimately show "visited_writes ins ops r"
    by (force simp: visited_writes_def register_at_Some list_ex_iff)
next
  assume "visited_writes ins ops r"
  then obtain n where n: "(n, WriteAccess) \<in> set ops" "\<not> (n = 4 \<and> calls_without_arguments ins)"
    "register_at ins n = Some r"
    by (auto simp: visited_writes_def register_at_Some list_ex_iff)
  have "(n, ReadAccess) \<notin> set ops"
    using assms(3) n(2,3) by (auto simp: visited_reads_def register_at_Some list_ex_iff)
  then have access: "a = WriteAccess" if "(n, a) \<in> set ops" for a
    using that by (cases a) auto
  obtain i where i: "i < length ops" "ops ! i = (n, WriteAccess)" "(n, WriteAccess) \<notin> set (take i ops)"
    by (rule first_listed [OF n(1)])
  then have "\<not> duplicate (Some WriteAccess) (take i ops) n"
    using access by (auto simp: duplicate_def list_ex_iff dest: in_set_takeD)
  then have "r \<in> set (visit_operands ins (Some WriteAccess) [] ops)"
    using i(1,2) n(2,3) assms(2) unfolding visit_operands_set by (intro CollectI exI [of _ i]) simp
  then show "r \<in> set ws"
    using assms(1,4) by (simp add: for_each_write_register_def for_each_explicit_register_def)
qed

lemmas family_reads = load_reads arithmetic_reads float_reads compare_reads string_reads jump_reads
  switch_reads loop_reads array_reads update_reads return_reads

lemma effect_reads:
  assumes "operands ins = Some ops" "effect_on c ins r = Inr e" "r \<noteq> register_NONE" "plain c ins"
    "\<not> clears ins r"
  shows "visited_reads ins ops r \<longleftrightarrow> reads e"
proof -
  have b: "(0xFFFF :: nat) \<le> 2 ^ 16 - 1" by simp
  show ?thesis
    using assms b
    by (cases ins) (auto simp: operands_def effect_on_def plain_def
        family_reads object_reads [OF _ _ _ b] check_reads [OF _ _ _ _ b] call_reads [OF _ _ _ b])
qed

lemmas family_writes = load_writes arithmetic_writes float_writes compare_writes string_writes
  jump_writes switch_writes loop_writes array_writes update_writes object_writes call_writes
  return_writes check_writes

lemma effect_writes:
  assumes "operands ins = Some ops" "effect_on c ins r = Inr e" "\<not> reads e"
  shows "visited_writes ins ops r \<longleftrightarrow> writes e"
  using assms by (cases ins) (auto simp: operands_def effect_on_def family_writes)

lemma visitors_agree:
  assumes "plain c ins" "r \<noteq> register_NONE" "effect_on c ins r = Inr e"
    "for_each_read_register ins = Some rs" "for_each_write_register ins = Some ws" "\<not> clears ins r"
  shows "r \<in> set rs \<longleftrightarrow> reads e" "\<not> reads e \<Longrightarrow> r \<in> set ws \<longleftrightarrow> writes e"
proof -
  obtain ops where ops: "operands ins = Some ops"
    using assms(5) by (auto simp: for_each_write_register_def for_each_explicit_register_def)
  note reads = effect_reads [OF ops assms(3,2,1,6)]
  show "r \<in> set rs \<longleftrightarrow> reads e"
    using visited_reads_iff [OF assms(1) ops assms(2,4)] reads by simp
  show "r \<in> set ws \<longleftrightarrow> writes e" if "\<not> reads e"
    using visited_writes_iff [OF ops assms(2) _ assms(5)] reads that effect_writes [OF ops assms(3) that]
    by simp
qed

lemmas side_table_reads = prepared_int_loop_descriptor_at_def int_step_loop_descriptor_at_def
  float_squares_sum_branch_descriptor_at_def float_pair_update_descriptor_at_def
  property_initialization_descriptor_at_def

lemma verified_effect:
  assumes "verify xxh3 c = Inr ()" "i < length (code c)"
  shows "\<exists>e. effect_on c (code c ! i) r = Inr e"
proof -
  have op: "list_all (operand_valid c i) (instruction_operands (code c ! i))"
    using verified_operand [OF assms] verified_instruction(2) [OF assms]
    by (simp add: verify_operand_iff list_all_iff)
  show ?thesis
  proof (cases "code c ! i")
    case (FloatOp f)
    then show ?thesis using op
      by (cases f) (auto simp: effect_on_def operand_valid_def table_entry_def side_table_reads)
  next
    case (LoopOp f)
    then show ?thesis using op
      by (cases f) (auto simp: effect_on_def operand_valid_def table_entry_def side_table_reads)
  next
    case (ObjectOp f)
    then show ?thesis using op
      by (cases f) (auto simp: effect_on_def operand_valid_def table_entry_def side_table_reads)
  next
    case (CallOp f)
    then show ?thesis using op
      by (cases f) (auto simp: effect_on_def operand_valid_def table_entry_def)
  qed (simp_all add: effect_on_def)
qed

section \<open>Properties\<close>

text \<open>C17. The two tables the optimizer keeps of an instruction agree on a verified chunk: a register of
  the frame is visited as read exactly when the effect says it is read, and a register that is not
  read is visited as written exactly when the effect says it is written. The instructions that clear
  the register and empty tuple patterns are excepted.
\<close>

theorem effect_agrees_with_visitors:
  assumes "verify xxh3 c = Inr ()" "i < length (code c)" "\<not> empty_tuple_pattern (code c ! i)"
    and "r < register_count c" "\<not> clears (code c ! i) r"
    and "for_each_read_register (code c ! i) = Some rs" "for_each_write_register (code c ! i) = Some ws"
  shows "\<exists>e. effect_on c (code c ! i) r = Inr e \<and> (r \<in> set rs \<longleftrightarrow> reads e) \<and>
    (r \<notin> set rs \<longrightarrow> (r \<in> set ws \<longleftrightarrow> writes e))"
proof -
  obtain e where e: "effect_on c (code c ! i) r = Inr e" using verified_effect [OF assms(1,2)] by blast
  have "r \<noteq> register_NONE"
    using assms(4) word_le_nat_alt [of "register_count c" register_NONE] unsigned_less [of "register_count c", where 'a = nat]
    by (auto simp: register_NONE_def word_less_nat_alt)
  from visitors_agree [OF verified_plain [OF assms(1-3)] this e assms(6,7,5)] e show ?thesis by blast
qed

theorem effect_agrees_with_visitors_witness:
  "\<exists>e. effect_on copy_chunk (Load (Move 1 0)) 1 = Inr e \<and> \<not> reads e \<and> writes e"
proof -
  have "for_each_read_register (Load (Move 1 0)) = Some [0]" "for_each_write_register (Load (Move 1 0)) = Some [1]"
    by (simp_all add: visit_eval del: One_nat_def)
  with effect_agrees_with_visitors [OF copy_chunk_verified, of 0 1 "[0]" "[1]"] show ?thesis
    by (auto simp: empty_tuple_pattern_def clears_def)
qed

end
