(* ===== verification/Whim_Liveness.thy ===== *)
theory Whim_Liveness
  imports Whim_Effect
begin

unbundle bit_operations_syntax

text \<open>
  Register liveness (\<^verbatim>\<open>crates/optimizer/src/liveness/mod.rs\<close>): the targeted search that asks whether one
  register is read before it is overwritten, with its reusable scratch memory; the dense analysis
  that answers for all registers at once from a bit matrix; and the choice between them. \<open>live\<close> is
  the specification: some path reads the register before any instruction of the path overwrites it.
\<close>

section \<open>The targeted search\<close>

text \<open>
  The search pops an index, skips the end of the code and what it has seen, marks the index, and
  either answers or pushes further indices. The work list is the stack, its top first. The mark is
  the generation of the scratch memory in one search and the boolean in the other.
\<close>

function explore ::
  "nat \<Rightarrow> 'm \<Rightarrow> (nat \<Rightarrow> panic + nat list option) \<Rightarrow> 'm list \<Rightarrow> nat list \<Rightarrow> panic + bool \<times> 'm list" where
  "explore n mark visit seen [] = Inr (True, seen)"
| "explore n mark visit seen (index # work) =
     (if index = n then explore n mark visit seen work
      else if length seen \<le> index then Inl IndexOutOfBounds
      else if seen ! index = mark then explore n mark visit seen work
      else case visit index of
        Inl p \<Rightarrow> Inl p
      | Inr None \<Rightarrow> Inr (False, seen[index := mark])
      | Inr (Some pushed) \<Rightarrow> explore n mark visit (seen[index := mark]) (rev pushed @ work))"
  by pat_completeness auto

termination explore
  by (relation "measures [\<lambda>(_, mark, _, seen, _). length (filter (\<lambda>m. m \<noteq> mark) seen),
      \<lambda>(_, _, _, _, work). length work]")
    (auto simp: not_le intro: filter_update_less)

definition removed_at :: "bool list \<Rightarrow> nat \<Rightarrow> bool" where
  "removed_at removed index = (case list_get removed index of Some b \<Rightarrow> b | None \<Rightarrow> False)"

definition handlers_at :: "chunk \<Rightarrow> nat \<Rightarrow> nat list" where
  "handlers_at c index =
     map (\<lambda>e. unat (handler e))
       (filter (\<lambda>e. unat (catch_start e) \<le> index \<and> index < unat (catch_end e)) (catch_table c))"

text \<open>
  One step of the search for a read. Clearing the register ends its value without counting as a read.
\<close>

definition dead_step :: "chunk \<Rightarrow> register \<Rightarrow> bool list \<Rightarrow> nat \<Rightarrow> panic + nat list option" where
  "dead_step c r removed index =
     (if removed_at removed index then Inr (Some [index + 1])
      else result_bind (index_of (code c) index) (\<lambda>ins.
        if clears ins r then Inr (Some (handlers_at c index))
        else result_bind (effect_on c ins r) (\<lambda>e.
          if reads e then Inr None
          else if writes e then Inr (Some (handlers_at c index))
          else result_map (\<lambda>edges. Some (handlers_at c index @ edges)) (successors c index))))"

record liveness_scratch =
  scratch_work :: "nat list"
  scratch_seen :: "u32 list"
  scratch_generation :: u32

definition scratch_default :: liveness_scratch where
  "scratch_default = \<lparr>scratch_work = [], scratch_seen = [], scratch_generation = 0\<rparr>"

definition resize :: "nat \<Rightarrow> 'a \<Rightarrow> 'a list \<Rightarrow> 'a list" where
  "resize n x xs = take n xs @ replicate (n - length xs) x"

definition scratch_begin :: "nat \<Rightarrow> liveness_scratch \<Rightarrow> liveness_scratch" where
  "scratch_begin n s =
     (let marks = resize n 0 (scratch_seen s)
      in if scratch_generation s = 0xFFFFFFFF
         then \<lparr>scratch_work = [], scratch_seen = replicate n 0, scratch_generation = 1\<rparr>
         else \<lparr>scratch_work = [], scratch_seen = marks, scratch_generation = scratch_generation s + 1\<rparr>)"

definition register_is_dead_after_removals_with_scratch ::
  "chunk \<Rightarrow> register \<Rightarrow> nat \<Rightarrow> bool list \<Rightarrow> liveness_scratch \<Rightarrow> panic + bool \<times> liveness_scratch" where
  "register_is_dead_after_removals_with_scratch c r start removed s =
     (let s = scratch_begin (length (code c)) s
      in result_map (\<lambda>(dead, marks). (dead, s\<lparr>scratch_seen := marks\<rparr>))
           (explore (length (code c)) (scratch_generation s) (dead_step c r removed) (scratch_seen s) [start]))"

definition register_is_dead_after_removals :: "chunk \<Rightarrow> register \<Rightarrow> nat \<Rightarrow> bool list \<Rightarrow> panic + bool" where
  "register_is_dead_after_removals c r start removed =
     result_map fst (register_is_dead_after_removals_with_scratch c r start removed scratch_default)"

definition register_is_dead_after :: "chunk \<Rightarrow> register \<Rightarrow> nat \<Rightarrow> panic + bool" where
  "register_is_dead_after c r start = register_is_dead_after_removals c r start []"

text \<open>The search for any effect, and the two scans of a straight range.\<close>

definition unused_step :: "chunk \<Rightarrow> register \<Rightarrow> nat \<Rightarrow> panic + nat list option" where
  "unused_step c r index =
     result_bind (index_of (code c) index) (\<lambda>ins.
       result_bind (effect_on c ins r) (\<lambda>e.
         if \<not> effect_is_none e then Inr None
         else result_map (\<lambda>edges. Some (handlers_at c index @ edges)) (successors c index)))"

definition register_is_unused_after :: "chunk \<Rightarrow> register \<Rightarrow> nat \<Rightarrow> panic + bool" where
  "register_is_unused_after c r start =
     result_map fst (explore (length (code c)) True (unused_step c r)
       (replicate (length (code c)) False) [start])"

definition code_range :: "chunk \<Rightarrow> nat \<Rightarrow> nat \<Rightarrow> panic + instruction list" where
  "code_range c start stop =
     (if start \<le> stop \<and> stop \<le> length (code c) then Inr (take (stop - start) (drop start (code c)))
      else Inl IndexOutOfBounds)"

fun untouched_in :: "chunk \<Rightarrow> register \<Rightarrow> instruction list \<Rightarrow> panic + bool" where
  "untouched_in c r [] = Inr True"
| "untouched_in c r (ins # rest) =
     result_bind (effect_on c ins r) (\<lambda>e. if effect_is_none e then untouched_in c r rest else Inr False)"

definition register_is_untouched_between :: "chunk \<Rightarrow> register \<Rightarrow> nat \<Rightarrow> nat \<Rightarrow> panic + bool" where
  "register_is_untouched_between c r start stop = result_bind (code_range c start stop) (untouched_in c r)"

fun read_before_write_in :: "chunk \<Rightarrow> register \<Rightarrow> instruction list \<Rightarrow> panic + bool" where
  "read_before_write_in c r [] = Inr False"
| "read_before_write_in c r (ins # rest) =
     result_bind (effect_on c ins r) (\<lambda>e.
       if reads e then Inr True else if writes e then Inr False else read_before_write_in c r rest)"

definition register_is_read_before_write :: "chunk \<Rightarrow> register \<Rightarrow> nat \<Rightarrow> nat \<Rightarrow> panic + bool" where
  "register_is_read_before_write c r start stop =
     result_bind (code_range c start stop) (read_before_write_in c r)"

section \<open>The search is exact\<close>

text \<open>What a search can find from an index.\<close>

inductive finds :: "nat \<Rightarrow> (nat \<Rightarrow> panic + nat list option) \<Rightarrow> nat \<Rightarrow> bool" for n visit where
  hit: "i < n \<Longrightarrow> visit i = Inr None \<Longrightarrow> finds n visit i"
| onward: "i < n \<Longrightarrow> visit i = Inr (Some pushed) \<Longrightarrow> s \<in> set pushed \<Longrightarrow> finds n visit s \<Longrightarrow> finds n visit i"

inductive_cases finds_elim: "finds n visit i"

definition steps_inside :: "nat \<Rightarrow> (nat \<Rightarrow> panic + nat list option) \<Rightarrow> bool" where
  "steps_inside n visit \<longleftrightarrow>
     (\<forall>i<n. \<exists>answer. visit i = Inr answer \<and> (\<forall>pushed. answer = Some pushed \<longrightarrow> (\<forall>s\<in>set pushed. s \<le> n)))"

text \<open>
  While the search runs, no marked index is a hit, and what a marked index pushes is the end of the
  code, marked or on the stack.
\<close>

definition explore_inv ::
  "nat \<Rightarrow> 'm \<Rightarrow> (nat \<Rightarrow> panic + nat list option) \<Rightarrow> 'm list \<Rightarrow> nat list \<Rightarrow> bool" where
  "explore_inv n mark visit seen work \<longleftrightarrow> length seen = n \<and> (\<forall>i\<in>set work. i \<le> n) \<and>
     (\<forall>i<n. seen ! i = mark \<longrightarrow> (\<exists>pushed. visit i = Inr (Some pushed) \<and>
        (\<forall>s\<in>set pushed. s = n \<or> (s < n \<and> seen ! s = mark) \<or> s \<in> set work)))"

lemma explore_inv_pop:
  assumes "explore_inv n mark visit seen (i # work)" "i = n \<or> seen ! i = mark"
  shows "explore_inv n mark visit seen work"
proof -
  have "\<exists>pushed. visit j = Inr (Some pushed) \<and>
      (\<forall>s\<in>set pushed. s = n \<or> (s < n \<and> seen ! s = mark) \<or> s \<in> set work)"
    if j: "j < n" "seen ! j = mark" for j
  proof -
    obtain pushed where p: "visit j = Inr (Some pushed)"
      "\<forall>s\<in>set pushed. s = n \<or> (s < n \<and> seen ! s = mark) \<or> s \<in> set (i # work)"
      using assms(1) j unfolding explore_inv_def by blast
    moreover have "i \<le> n" using assms(1) by (simp add: explore_inv_def)
    ultimately have "\<forall>s\<in>set pushed. s = n \<or> (s < n \<and> seen ! s = mark) \<or> s \<in> set work"
      using assms(2) by (auto simp: le_less)
    with p(1) show ?thesis by blast
  qed
  then show ?thesis using assms(1) by (simp add: explore_inv_def)
qed

lemma explore_inv_push:
  assumes "explore_inv n mark visit seen (i # work)" "i < n" "seen ! i \<noteq> mark"
    "visit i = Inr (Some pushed)" "\<forall>s\<in>set pushed. s \<le> n"
  shows "explore_inv n mark visit (seen[i := mark]) (rev pushed @ work)"
proof -
  have len: "length seen = n" using assms(1) by (simp add: explore_inv_def)
  have "\<exists>pushed'. visit j = Inr (Some pushed') \<and> (\<forall>s\<in>set pushed'. s = n \<or>
      (s < n \<and> seen[i := mark] ! s = mark) \<or> s \<in> set (rev pushed @ work))"
    if j: "j < n" "seen[i := mark] ! j = mark" for j
  proof (cases "j = i")
    case True
    then show ?thesis using assms(4) by auto
  next
    case False
    with j have "seen ! j = mark" by simp
    then obtain pushed' where p: "visit j = Inr (Some pushed')"
      "\<forall>s\<in>set pushed'. s = n \<or> (s < n \<and> seen ! s = mark) \<or> s \<in> set (i # work)"
      using assms(1) j(1) unfolding explore_inv_def by blast
    then have "\<forall>s\<in>set pushed'. s = n \<or> (s < n \<and> seen[i := mark] ! s = mark) \<or> s \<in> set (rev pushed @ work)"
      using assms(2) len by (auto simp: nth_list_update)
    with p(1) show ?thesis by blast
  qed
  then show ?thesis using assms(1,5) len by (auto simp: explore_inv_def)
qed

lemma marked_finds:
  assumes "explore_inv n mark visit seen work" "finds n visit i" "seen ! i = mark"
  shows "\<exists>w\<in>set work. finds n visit w"
  using assms(2,3)
proof induction
  case (hit i)
  then show ?case using assms(1) by (auto simp: explore_inv_def)
next
  case (onward i pushed s)
  have "s \<noteq> n" using onward.hyps(4) by (auto elim: finds_elim)
  moreover have "s = n \<or> (s < n \<and> seen ! s = mark) \<or> s \<in> set work"
    using assms(1) onward.hyps(1-3) onward.prems by (fastforce simp: explore_inv_def)
  ultimately show ?case using onward.hyps(4) onward.IH by blast
qed

lemma finds_step:
  "i < n \<Longrightarrow> visit i = Inr (Some pushed) \<Longrightarrow> finds n visit i \<longleftrightarrow> (\<exists>s\<in>set pushed. finds n visit s)"
  by (rule iffI) (fastforce elim: finds_elim, blast intro: finds.onward)

lemma explore_exact:
  assumes "explore_inv n mark visit seen work" "steps_inside n visit"
  shows "\<exists>seen'. explore n mark visit seen work = Inr (\<not> (\<exists>i\<in>set work. finds n visit i), seen') \<and>
    length seen' = n \<and> set seen' \<subseteq> insert mark (set seen)"
  using assms
proof (induction n mark visit seen work rule: explore.induct)
  case (1 n mark visit seen)
  then show ?case by (auto simp: explore_inv_def)
next
  case (2 n mark visit seen i work)
  note inv = "2.prems"(1)
  have len: "length seen = n" and i: "i \<le> n" using inv by (auto simp: explore_inv_def)
  show ?case
  proof (cases "i = n \<or> seen ! i = mark")
    case True
    note inv' = explore_inv_pop [OF inv True]
    have "(\<exists>w\<in>set (i # work). finds n visit w) \<longleftrightarrow> (\<exists>w\<in>set work. finds n visit w)"
      using True marked_finds [OF inv', of i] by (auto elim: finds_elim)
    moreover have "explore n mark visit seen (i # work) = explore n mark visit seen work"
      using True len i by (cases "i = n") auto
    moreover have "\<exists>seen'. explore n mark visit seen work =
        Inr (\<not> (\<exists>w\<in>set work. finds n visit w), seen') \<and> length seen' = n \<and>
        set seen' \<subseteq> insert mark (set seen)"
      using "2.IH"(1) [OF _ inv' "2.prems"(2)] "2.IH"(2) [OF _ _ _ inv' "2.prems"(2)] True len i
      by (cases "i = n") auto
    ultimately show ?thesis by simp
  next
    case False
    with i have i': "i < n" by simp
    then obtain answer where answer: "visit i = Inr answer" "\<forall>pushed. answer = Some pushed \<longrightarrow> (\<forall>s\<in>set pushed. s \<le> n)"
      using "2.prems"(2) by (auto simp: steps_inside_def)
    show ?thesis
    proof (cases answer)
      case None
      then show ?thesis
        using answer(1) i' False len set_update_subset_insert [of seen i mark]
        by (auto intro: finds.hit)
    next
      case (Some pushed)
      have inv': "explore_inv n mark visit (seen[i := mark]) (rev pushed @ work)"
        using explore_inv_push [OF inv i' _ answer(1) [unfolded Some]] False answer(2) Some by auto
      obtain seen' where seen': "explore n mark visit (seen[i := mark]) (rev pushed @ work) =
          Inr (\<not> (\<exists>w\<in>set (rev pushed @ work). finds n visit w), seen')" "length seen' = n"
          "set seen' \<subseteq> insert mark (set (seen[i := mark]))"
        using "2.IH"(3) [OF _ _ _ answer(1) Some inv' "2.prems"(2)] False i' len by auto
      have "(\<exists>w\<in>set (i # work). finds n visit w) \<longleftrightarrow> (\<exists>w\<in>set (rev pushed @ work). finds n visit w)"
        using finds_step [of i n visit, OF i' answer(1) [unfolded Some]] by auto
      moreover have "explore n mark visit seen (i # work) =
          explore n mark visit (seen[i := mark]) (rev pushed @ work)"
        using False i' len answer(1) Some by simp
      ultimately show ?thesis
        using seen' set_update_subset_insert [of seen i mark] by auto
    qed
  qed
qed

section \<open>Liveness\<close>

inductive live :: "chunk \<Rightarrow> bool list \<Rightarrow> register \<Rightarrow> nat \<Rightarrow> bool" for c removed r where
  skipped: "i < length (code c) \<Longrightarrow> removed_at removed i \<Longrightarrow> live c removed r (i + 1) \<Longrightarrow>
    live c removed r i"
| thrown: "i < length (code c) \<Longrightarrow> \<not> removed_at removed i \<Longrightarrow> h \<in> set (handlers_at c i) \<Longrightarrow>
    live c removed r h \<Longrightarrow> live c removed r i"
| read: "i < length (code c) \<Longrightarrow> \<not> removed_at removed i \<Longrightarrow> \<not> clears (code c ! i) r \<Longrightarrow>
    effect_on c (code c ! i) r = Inr e \<Longrightarrow> reads e \<Longrightarrow> live c removed r i"
| passed: "i < length (code c) \<Longrightarrow> \<not> removed_at removed i \<Longrightarrow> \<not> clears (code c ! i) r \<Longrightarrow>
    effect_on c (code c ! i) r = Inr e \<Longrightarrow> \<not> reads e \<Longrightarrow> \<not> writes e \<Longrightarrow> successors c i = Inr edges \<Longrightarrow>
    s \<in> set edges \<Longrightarrow> live c removed r s \<Longrightarrow> live c removed r i"

inductive_cases live_elim: "live c removed r i"

lemma live_inside: "live c removed r i \<Longrightarrow> i < length (code c)"
  by (auto elim: live_elim)

lemma index_of_inside [simp]: "i < length xs \<Longrightarrow> index_of xs i = Inr (xs ! i)"
  by (simp add: index_of_def list_get_def)

lemma live_finds:
  assumes "steps_inside (length (code c)) (dead_step c r removed)" "live c removed r i"
  shows "finds (length (code c)) (dead_step c r removed) i"
  using assms(2)
proof induction
  case (skipped i)
  then show ?case by (intro finds.onward [of i _ _ "[i + 1]"]) (simp_all add: dead_step_def)
next
  case (thrown i h)
  obtain answer where answer: "dead_step c r removed i = Inr answer"
    using assms(1) thrown.hyps(1) by (auto simp: steps_inside_def)
  show ?case
  proof (cases answer)
    case None
    then show ?thesis using answer thrown.hyps(1) by (auto intro: finds.hit)
  next
    case (Some pushed)
    then have "h \<in> set pushed"
      using answer thrown.hyps by (auto simp: dead_step_def split: if_splits)
    then show ?thesis using finds.onward [OF thrown.hyps(1) _ _ thrown.IH] answer Some by auto
  qed
next
  case (read i e)
  then show ?case by (intro finds.hit) (simp_all add: dead_step_def)
next
  case (passed i e edges s)
  then show ?case
    by (intro finds.onward [of i _ _ "handlers_at c i @ edges" s]) (simp_all add: dead_step_def)
qed

lemma finds_live: "finds (length (code c)) (dead_step c r removed) i \<Longrightarrow> live c removed r i"
proof (induction rule: finds.induct)
  case (hit i)
  then show ?case by (auto simp: dead_step_def split: if_splits intro: live.read)
next
  case (onward i pushed s)
  then show ?case
    by (auto simp: dead_step_def split: if_splits
        intro: live.skipped live.thrown live.passed)
qed

lemma verified_handlers:
  assumes "verify xxh3 c = Inr ()" "h \<in> set (handlers_at c i)"
  shows "h < length (code c)"
  using assms verified_catch_entry(3) [OF assms(1)] by (auto simp: handlers_at_def)

lemma verified_edges:
  assumes "verify xxh3 c = Inr ()" "i < length (code c)"
  shows "\<exists>edges. successors c i = Inr edges \<and> (\<forall>s\<in>set edges. s \<le> length (code c))"
proof -
  have "i + 2 \<le> length (code c)" if "is_foreach_next (code c ! i)"
    using verified_fall_through [OF assms] that
    by (auto simp: is_foreach_next_def jumps_always_def leaves_chunk_def
        split: instruction.splits update_instruction.splits)
  with verified_successors [OF assms] show ?thesis by (auto intro: less_imp_le)
qed

lemma verified_dead_step:
  assumes "verify xxh3 c = Inr ()"
  shows "steps_inside (length (code c)) (dead_step c r removed)"
  unfolding steps_inside_def
proof (intro allI impI)
  fix i assume i: "i < length (code c)"
  obtain e where e: "effect_on c (code c ! i) r = Inr e" using verified_effect [OF assms i] by blast
  obtain edges where edges: "successors c i = Inr edges" "\<forall>s\<in>set edges. s \<le> length (code c)"
    using verified_edges [OF assms i] by blast
  show "\<exists>answer. dead_step c r removed i = Inr answer \<and>
      (\<forall>pushed. answer = Some pushed \<longrightarrow> (\<forall>s\<in>set pushed. s \<le> length (code c)))"
    using i e edges verified_handlers [OF assms] by (auto simp: dead_step_def intro: less_imp_le)
qed

lemma verified_unused_step:
  assumes "verify xxh3 c = Inr ()"
  shows "steps_inside (length (code c)) (unused_step c r)"
  unfolding steps_inside_def
proof (intro allI impI)
  fix i assume i: "i < length (code c)"
  obtain e where e: "effect_on c (code c ! i) r = Inr e" using verified_effect [OF assms i] by blast
  obtain edges where edges: "successors c i = Inr edges" "\<forall>s\<in>set edges. s \<le> length (code c)"
    using verified_edges [OF assms i] by blast
  show "\<exists>answer. unused_step c r i = Inr answer \<and>
      (\<forall>pushed. answer = Some pushed \<longrightarrow> (\<forall>s\<in>set pushed. s \<le> length (code c)))"
    using i e edges verified_handlers [OF assms] by (auto simp: unused_step_def intro: less_imp_le)
qed

subsection \<open>The scratch memory\<close>

definition scratch_valid :: "liveness_scratch \<Rightarrow> bool" where
  "scratch_valid s \<longleftrightarrow> list_all (\<lambda>m. m \<le> scratch_generation s) (scratch_seen s)"

lemma unat_numeral_u32: "unat (0xFFFFFFFF :: u32) = 0xFFFFFFFF"
  by simp

lemma next_generation:
  fixes g :: u32
  assumes "g \<noteq> 0xFFFFFFFF"
  shows "unat (g + 1) = unat g + 1"
proof -
  have "unat g \<noteq> 0xFFFFFFFF" using assms by (metis unat_numeral_u32 word_unat_eq_iff)
  moreover have "unat g < 2 ^ 32" using unsigned_less [of g, where 'a = nat] by simp
  ultimately show ?thesis by (simp add: unat_word_ariths)
qed

lemma scratch_begin_fresh:
  assumes "scratch_valid s"
  shows "length (scratch_seen (scratch_begin n s)) = n"
    "scratch_generation (scratch_begin n s) \<notin> set (scratch_seen (scratch_begin n s))"
    "\<forall>m\<in>set (scratch_seen (scratch_begin n s)). m \<le> scratch_generation (scratch_begin n s)"
proof -
  let ?g = "scratch_generation s"
  show "length (scratch_seen (scratch_begin n s)) = n"
    by (auto simp: scratch_begin_def Let_def resize_def min_def)
  have "m < ?g + 1" if "?g \<noteq> 0xFFFFFFFF" "m \<le> ?g" for m
    using next_generation [OF that(1)] that(2) by (simp add: word_less_nat_alt word_le_nat_alt)
  moreover have "0 < ?g + 1" if "?g \<noteq> 0xFFFFFFFF"
    using calculation [OF that, of 0] by simp
  ultimately have "m < scratch_generation (scratch_begin n s)"
    if "m \<in> set (scratch_seen (scratch_begin n s))" for m
    using that assms
    by (auto simp: scratch_begin_def Let_def resize_def scratch_valid_def list_all_iff
        split: if_splits dest: in_set_takeD)
  then show "scratch_generation (scratch_begin n s) \<notin> set (scratch_seen (scratch_begin n s))"
    "\<forall>m\<in>set (scratch_seen (scratch_begin n s)). m \<le> scratch_generation (scratch_begin n s)"
    by (auto intro: less_imp_le)
qed

lemma explore_inv_start:
  assumes "length seen = n" "mark \<notin> set seen" "start \<le> n"
  shows "explore_inv n mark visit seen [start]"
  using assms by (auto simp: explore_inv_def in_set_conv_nth)

lemma search_exact:
  assumes "steps_inside (length (code c)) (dead_step c r removed)" "scratch_valid s" "start \<le> length (code c)"
  shows "\<exists>s'. register_is_dead_after_removals_with_scratch c r start removed s =
      Inr (\<not> live c removed r start, s') \<and> scratch_valid s'"
proof -
  let ?s = "scratch_begin (length (code c)) s" and ?n = "length (code c)"
  note fresh = scratch_begin_fresh [OF assms(2), of ?n]
  obtain seen' where seen': "explore ?n (scratch_generation ?s) (dead_step c r removed) (scratch_seen ?s) [start] =
      Inr (\<not> finds ?n (dead_step c r removed) start, seen')"
      "set seen' \<subseteq> insert (scratch_generation ?s) (set (scratch_seen ?s))"
    using explore_exact [OF explore_inv_start [OF fresh(1,2) assms(3)] assms(1)] by auto
  have "scratch_valid (?s\<lparr>scratch_seen := seen'\<rparr>)"
    using seen'(2) fresh(3) by (auto simp: scratch_valid_def list_all_iff)
  moreover have "finds ?n (dead_step c r removed) start \<longleftrightarrow> live c removed r start"
    using live_finds [OF assms(1)] finds_live by blast
  ultimately show ?thesis
    using seen'(1) by (auto simp: register_is_dead_after_removals_with_scratch_def Let_def)
qed

section \<open>The dense analysis\<close>

text \<open>
  The bit matrix has a row of words for every instruction, all in one vector; \<open>words_at\<close> is the row.
  A pass recomputes the rows from the last instruction to the first, in place, and passes are
  repeated until none changes a row. The loop is a partial function; it is shown below that it ends.
\<close>

definition words_at :: "u64 list \<Rightarrow> nat \<Rightarrow> nat \<Rightarrow> panic + u64 list" where
  "words_at words word_count index =
     (if (index + 1) * word_count \<le> length words
      then Inr (take word_count (drop (index * word_count) words)) else Inl IndexOutOfBounds)"

definition write_words :: "u64 list \<Rightarrow> nat \<Rightarrow> nat \<Rightarrow> u64 list \<Rightarrow> u64 list" where
  "write_words words word_count index row =
     take (index * word_count) words @ row @ drop ((index + 1) * word_count) words"

fun union_words :: "u64 list \<Rightarrow> u64 list \<Rightarrow> u64 list" where
  "union_words (d # ds) (s # ss) = (d OR s) # union_words ds ss"
| "union_words ds _ = ds"

definition live_set_register :: "u64 list \<Rightarrow> register \<Rightarrow> panic + u64 list" where
  "live_set_register words r =
     result_map (\<lambda>w. words[unat r div 64 := w OR push_bit (unat r mod 64) 1])
       (index_of words (unat r div 64))"

definition live_clear_register :: "u64 list \<Rightarrow> register \<Rightarrow> panic + u64 list" where
  "live_clear_register words r =
     result_map (\<lambda>w. words[unat r div 64 := w AND NOT (push_bit (unat r mod 64) 1)])
       (index_of words (unat r div 64))"

fun for_registers ::
  "(u64 list \<Rightarrow> register \<Rightarrow> panic + u64 list) \<Rightarrow> register list \<Rightarrow> u64 list \<Rightarrow> panic + u64 list" where
  "for_registers f [] words = Inr words"
| "for_registers f (r # rs) words = result_bind (f words r) (for_registers f rs)"

fun union_rows :: "u64 list \<Rightarrow> nat \<Rightarrow> nat list \<Rightarrow> u64 list \<Rightarrow> panic + u64 list" where
  "union_rows live_in word_count [] next = Inr next"
| "union_rows live_in word_count (i # indices) next =
     result_bind (words_at live_in word_count i) (\<lambda>row.
       union_rows live_in word_count indices (union_words next row))"

definition apply_effect :: "chunk \<Rightarrow> instruction \<Rightarrow> u64 list \<Rightarrow> register \<Rightarrow> panic + u64 list" where
  "apply_effect c ins words r =
     result_bind (effect_on c ins r) (\<lambda>e.
       result_bind (if writes e then live_clear_register words r else Inr words) (\<lambda>words.
         if reads e then live_set_register words r else Inr words))"

definition apply_unclassified_effects :: "chunk \<Rightarrow> instruction \<Rightarrow> nat \<Rightarrow> u64 list \<Rightarrow> panic + u64 list" where
  "apply_unclassified_effects c ins count words =
     for_registers (apply_effect c ins) (map of_nat [0..<count]) words"

definition dense_row ::
  "chunk \<Rightarrow> bool list \<Rightarrow> instruction list \<Rightarrow> nat \<Rightarrow> u64 list \<Rightarrow> nat \<Rightarrow> panic + u64 list" where
  "dense_row c removed effective word_count live_in index =
     (if removed_at removed index
      then (if index + 1 < length (code c) then words_at live_in word_count (index + 1)
            else Inr (replicate word_count 0))
      else result_bind (successors c index) (\<lambda>edges.
        result_bind (union_rows live_in word_count (filter (\<lambda>s. s < length (code c)) edges)
            (replicate word_count 0)) (\<lambda>next.
        result_bind (index_of effective index) (\<lambda>ins.
          case for_each_write_register ins of
            Some written \<Rightarrow>
              result_bind (for_registers live_clear_register written next) (\<lambda>next.
              result_bind (union_rows live_in word_count (handlers_at c index) next) (\<lambda>next.
                for_registers live_set_register
                  (case for_each_read_register ins of Some rs \<Rightarrow> rs | None \<Rightarrow> []) next))
          | None \<Rightarrow>
              result_bind (apply_unclassified_effects c ins (unat (register_count c)) next)
                (union_rows live_in word_count (handlers_at c index))))))"

fun dense_pass ::
  "chunk \<Rightarrow> bool list \<Rightarrow> instruction list \<Rightarrow> nat \<Rightarrow> nat list \<Rightarrow> u64 list \<times> bool \<Rightarrow> panic + u64 list \<times> bool" where
  "dense_pass c removed effective word_count [] state = Inr state"
| "dense_pass c removed effective word_count (index # indices) (live_in, changed) =
     result_bind (dense_row c removed effective word_count live_in index) (\<lambda>row.
     result_bind (words_at live_in word_count index) (\<lambda>current.
       dense_pass c removed effective word_count indices
         (if current \<noteq> row then (write_words live_in word_count index row, True)
          else (live_in, changed))))"

partial_function (option) dense_loop ::
  "chunk \<Rightarrow> bool list \<Rightarrow> instruction list \<Rightarrow> nat \<Rightarrow> u64 list \<Rightarrow> (panic + u64 list) option" where
  "dense_loop c removed effective word_count live_in =
     (case dense_pass c removed effective word_count (rev [0..<length (code c)]) (live_in, False) of
        Inl p \<Rightarrow> Some (Inl p)
      | Inr (live_in, changed) \<Rightarrow>
          if changed then dense_loop c removed effective word_count live_in else Some (Inr live_in))"

record liveness =
  matrix_live_in :: "u64 list"
  matrix_instruction_count :: nat
  matrix_word_count :: nat

definition liveness_word_count :: "chunk \<Rightarrow> nat" where
  "liveness_word_count c = (unat (register_count c) + 63) div 64"

definition analyze :: "chunk \<Rightarrow> bool list \<Rightarrow> instruction list option \<Rightarrow> (panic + liveness) option" where
  "analyze c removed effective_code =
     (let n = length (code c); words = liveness_word_count c;
          effective = (case effective_code of Some code' \<Rightarrow> code' | None \<Rightarrow> code c)
      in map_option (result_map (\<lambda>bits. \<lparr>matrix_live_in = bits, matrix_instruction_count = n, matrix_word_count = words\<rparr>))
           (dense_loop c removed effective words (replicate (n * words) 0)))"

definition liveness_is_dead_after :: "liveness \<Rightarrow> register \<Rightarrow> nat \<Rightarrow> panic + bool" where
  "liveness_is_dead_after l r start =
     (if start \<ge> matrix_instruction_count l \<or> matrix_word_count l = 0 then Inr True
      else result_map (\<lambda>w. w AND push_bit (unat r mod 64) 1 = 0)
             (index_of (matrix_live_in l) (start * matrix_word_count l + unat r div 64)))"

section \<open>The choice of the analysis\<close>

definition DENSE_QUERY_THRESHOLD :: nat where
  "DENSE_QUERY_THRESHOLD = 1024"

definition MAX_DENSE_MATRIX_WORDS :: nat where
  "MAX_DENSE_MATRIX_WORDS = 1024 * 1024"

datatype liveness_queries = Cached liveness | Targeted | Skipped

text \<open>A product of two lengths that does not fit 64 bits is no matrix either.\<close>

definition dense_queries ::
  "chunk \<Rightarrow> bool list \<Rightarrow> instruction list option \<Rightarrow> (panic + liveness_queries) option" where
  "dense_queries c removed effective_code =
     (let matrix_words = length (code c) * liveness_word_count c
      in if matrix_words \<ge> 2 ^ 64 \<or> matrix_words > MAX_DENSE_MATRIX_WORDS then Some (Inr Skipped)
         else map_option (result_map Cached) (analyze c removed effective_code))"

definition for_effective_code :: "chunk \<Rightarrow> instruction list \<Rightarrow> (panic + liveness_queries) option" where
  "for_effective_code c code' = dense_queries c [] (Some code')"

definition build_queries :: "chunk \<Rightarrow> bool list \<Rightarrow> nat \<Rightarrow> (panic + liveness_queries) option" where
  "build_queries c removed query_count =
     (if query_count < 2 \<or> min (query_count * length (code c)) (2 ^ 64 - 1) < DENSE_QUERY_THRESHOLD
      then Some (Inr Targeted) else dense_queries c removed None)"

definition for_chunk :: "chunk \<Rightarrow> nat \<Rightarrow> (panic + liveness_queries) option" where
  "for_chunk c query_count = build_queries c [] query_count"

definition queries_dead_after :: "liveness_queries \<Rightarrow> chunk \<Rightarrow> register \<Rightarrow> nat \<Rightarrow> panic + bool" where
  "queries_dead_after q c r start =
     (case q of
        Cached l \<Rightarrow> liveness_is_dead_after l r start
      | Targeted \<Rightarrow> register_is_dead_after c r start
      | Skipped \<Rightarrow> Inr False)"

section \<open>Rows as sets of registers\<close>

definition row_set :: "u64 list \<Rightarrow> nat set" where
  "row_set ws = {k. k div 64 < length ws \<and> bit (ws ! (k div 64)) (k mod 64)}"

lemma row_set_inject:
  assumes "length a = length b" "row_set a = row_set b"
  shows "a = b"
proof (rule nth_equalityI)
  fix i assume i: "i < length a"
  show "a ! i = b ! i"
  proof (rule bit_word_eqI)
    fix n assume "n < LENGTH(64)"
    then have "(i * 64 + n) div 64 = i" "(i * 64 + n) mod 64 = n" by simp_all
    moreover have "i * 64 + n \<in> row_set a \<longleftrightarrow> i * 64 + n \<in> row_set b" using assms(2) by simp
    ultimately show "bit (a ! i) n = bit (b ! i) n" using i assms(1) by (simp add: row_set_def)
  qed
qed (rule assms(1))

lemma row_set_zero [simp]: "row_set (replicate n 0) = {}"
  by (auto simp: row_set_def)

lemma row_set_bound: "row_set ws \<subseteq> {..<64 * length ws}"
proof
  fix k assume "k \<in> row_set ws"
  then have "k div 64 < length ws" by (simp add: row_set_def)
  then show "k \<in> {..<64 * length ws}" by (simp add: div_less_iff_less_mult mult.commute)
qed

lemma finite_row_set [simp]: "finite (row_set ws)"
  by (rule finite_subset [OF row_set_bound]) simp

lemma length_union_words [simp]: "length (union_words a b) = length a"
  by (induction a b rule: union_words.induct) auto

lemma nth_union_words:
  "length a = length b \<Longrightarrow> i < length a \<Longrightarrow> union_words a b ! i = (a ! i OR b ! i)"
proof (induction a b arbitrary: i rule: union_words.induct)
  case (1 d ds s ss)
  then show ?case by (cases i) auto
qed auto

lemma row_set_union [simp]:
  "length a = length b \<Longrightarrow> row_set (union_words a b) = row_set a \<union> row_set b"
  by (auto simp: row_set_def nth_union_words bit_or_iff)

lemma bit_of_register: "j < 64 \<Longrightarrow> bit (2 ^ j :: u64) n \<longleftrightarrow> n = j"
  by (auto simp: bit_exp_iff)

lemma same_register: "k div 64 = unat r div 64 \<Longrightarrow> k mod 64 = unat r mod 64 \<longleftrightarrow> k = unat r"
  by (metis div_mult_mod_eq)

lemma set_register_row:
  assumes "unat r < 64 * length ws"
  shows "\<exists>ws'. live_set_register ws r = Inr ws' \<and> length ws' = length ws \<and>
    row_set ws' = insert (unat r) (row_set ws)"
proof -
  have i: "unat r div 64 < length ws" using assms by (simp add: div_less_iff_less_mult mult.commute)
  let ?ws = "ws[unat r div 64 := (ws ! (unat r div 64)) OR push_bit (unat r mod 64) 1]"
  have "row_set ?ws = insert (unat r) (row_set ws)"
  proof (rule set_eqI)
    fix k
    show "k \<in> row_set ?ws \<longleftrightarrow> k \<in> insert (unat r) (row_set ws)"
    proof (cases "k div 64 = unat r div 64")
      case True
      then show ?thesis using i same_register [OF True] by (auto simp: row_set_def bit_or_iff bit_of_register)
    next
      case False
      then show ?thesis by (auto simp: row_set_def)
    qed
  qed
  with i show ?thesis by (auto simp: live_set_register_def)
qed

lemma clear_register_row:
  assumes "unat r < 64 * length ws"
  shows "\<exists>ws'. live_clear_register ws r = Inr ws' \<and> length ws' = length ws \<and>
    row_set ws' = row_set ws - {unat r}"
proof -
  have i: "unat r div 64 < length ws" using assms by (simp add: div_less_iff_less_mult mult.commute)
  let ?ws = "ws[unat r div 64 := (ws ! (unat r div 64)) AND NOT (push_bit (unat r mod 64) 1)]"
  have "row_set ?ws = row_set ws - {unat r}"
  proof (rule set_eqI)
    fix k
    show "k \<in> row_set ?ws \<longleftrightarrow> k \<in> row_set ws - {unat r}"
    proof (cases "k div 64 = unat r div 64")
      case True
      then show ?thesis using i same_register [OF True]
        by (auto simp: row_set_def bit_and_iff bit_not_iff bit_of_register)
    next
      case False
      then show ?thesis by (auto simp: row_set_def)
    qed
  qed
  with i show ?thesis by (auto simp: live_clear_register_def)
qed

lemma set_registers_row:
  assumes "\<forall>r\<in>set rs. unat r < 64 * length ws"
  shows "\<exists>ws'. for_registers live_set_register rs ws = Inr ws' \<and> length ws' = length ws \<and>
    row_set ws' = row_set ws \<union> unat ` set rs"
  using assms
proof (induction rs arbitrary: ws)
  case (Cons r rs)
  obtain ws1 where ws1: "live_set_register ws r = Inr ws1" "length ws1 = length ws"
    "row_set ws1 = insert (unat r) (row_set ws)" using set_register_row [of r ws] Cons.prems by auto
  then show ?case using Cons.IH [of ws1] Cons.prems by auto
qed simp

lemma clear_registers_row:
  assumes "\<forall>r\<in>set rs. unat r < 64 * length ws"
  shows "\<exists>ws'. for_registers live_clear_register rs ws = Inr ws' \<and> length ws' = length ws \<and>
    row_set ws' = row_set ws - unat ` set rs"
  using assms
proof (induction rs arbitrary: ws)
  case (Cons r rs)
  obtain ws1 where ws1: "live_clear_register ws r = Inr ws1" "length ws1 = length ws"
    "row_set ws1 = row_set ws - {unat r}" using clear_register_row [of r ws] Cons.prems by auto
  then show ?case using Cons.IH [of ws1] Cons.prems by auto
qed simp

subsection \<open>The matrix\<close>

definition row_at :: "u64 list \<Rightarrow> nat \<Rightarrow> nat \<Rightarrow> u64 list" where
  "row_at words word_count i = take word_count (drop (i * word_count) words)"

lemma words_at_row:
  assumes "length words = n * w" "i < n"
  shows "words_at words w i = Inr (row_at words w i)" "length (row_at words w i) = w"
proof -
  have "(i + 1) * w \<le> n * w" using assms(2) by (intro mult_right_mono) auto
  then show "words_at words w i = Inr (row_at words w i)" "length (row_at words w i) = w"
    using assms(1) by (auto simp: words_at_def row_at_def)
qed

lemma nth_row_at:
  assumes "length words = n * w" "i < n" "k < w"
  shows "row_at words w i ! k = words ! (i * w + k)"
  using words_at_row(2) [OF assms(1,2)] assms by (simp add: row_at_def)

lemma write_words_row:
  assumes "length words = n * w" "i < n" "length row = w" "j < n"
  shows "length (write_words words w i row) = n * w"
    "row_at (write_words words w i row) w j = (if j = i then row else row_at words w j)"
proof -
  have le: "(i + 1) * w \<le> n * w" using assms(2) by (intro mult_right_mono) auto
  show len: "length (write_words words w i row) = n * w"
    using le assms(1,3) by (simp add: write_words_def)
  have nth: "write_words words w i row ! m =
      (if m < i * w then words ! m else if m < (i + 1) * w then row ! (m - i * w) else words ! m)"
    if "m < n * w" for m
    using that le assms(1,3) mult_le_mono1 [of i n w] assms(2)
    by (auto simp: write_words_def nth_append min_absorb2)
  show "row_at (write_words words w i row) w j = (if j = i then row else row_at words w j)"
  proof (rule nth_equalityI)
    show "length (row_at (write_words words w i row) w j) = length (if j = i then row else row_at words w j)"
      using words_at_row(2) [OF len assms(4)] words_at_row(2) [OF assms(1,4)] assms(3) by simp
    fix k assume "k < length (row_at (write_words words w i row) w j)"
    then have k: "k < w" using words_at_row(2) [OF len assms(4)] by simp
    have "(j + 1) * w \<le> n * w" using assms(4) by (intro mult_right_mono) auto
    then have m: "j * w + k < n * w" using k by simp
    consider "j = i" | "j < i" | "i < j" by linarith
    then show "row_at (write_words words w i row) w j ! k = (if j = i then row else row_at words w j) ! k"
    proof cases
      case 1
      then show ?thesis using nth_row_at [OF len assms(4) k] nth [OF m] k by simp
    next
      case 2
      then have "(j + 1) * w \<le> i * w" by (intro mult_right_mono) auto
      then show ?thesis
        using 2 nth_row_at [OF len assms(4) k] nth_row_at [OF assms(1,4) k] nth [OF m] k by simp
    next
      case 3
      then have "(i + 1) * w \<le> j * w" by (intro mult_right_mono) auto
      then show ?thesis
        using 3 nth_row_at [OF len assms(4) k] nth_row_at [OF assms(1,4) k] nth [OF m] k by simp
    qed
  qed
qed

lemma union_rows_row:
  assumes "length words = n * w" "\<forall>i\<in>set indices. i < n" "length next = w"
  shows "\<exists>next'. union_rows words w indices next = Inr next' \<and> length next' = w \<and>
    row_set next' = row_set next \<union> (\<Union>i\<in>set indices. row_set (row_at words w i))"
  using assms(2,3)
proof (induction indices arbitrary: "next")
  case (Cons i indices)
  have row: "words_at words w i = Inr (row_at words w i)" "length (row_at words w i) = w"
    using words_at_row [OF assms(1)] Cons.prems(1) by auto
  then show ?case
    using Cons.IH [of "union_words next (row_at words w i)"] Cons.prems by auto
qed simp

section \<open>One row\<close>

lemma effects_row:
  assumes "\<forall>r\<in>set rs. unat r < 64 * length ws \<and> (\<exists>e. effect_on c ins r = Inr e)"
  shows "\<exists>ws'. for_registers (apply_effect c ins) rs ws = Inr ws' \<and> length ws' = length ws \<and>
    (\<forall>k. (\<forall>r\<in>set rs. unat r \<noteq> k) \<longrightarrow> (k \<in> row_set ws' \<longleftrightarrow> k \<in> row_set ws)) \<and>
    (distinct rs \<longrightarrow> (\<forall>r\<in>set rs. \<forall>e. effect_on c ins r = Inr e \<longrightarrow>
       (unat r \<in> row_set ws' \<longleftrightarrow> reads e \<or> (\<not> writes e \<and> unat r \<in> row_set ws))))"
  using assms
proof (induction rs arbitrary: ws)
  case (Cons r rs)
  obtain e where e: "effect_on c ins r = Inr e" using Cons.prems by auto
  have r: "unat r < 64 * length ws" using Cons.prems by simp
  obtain ws1 where ws1: "(if writes e then live_clear_register ws r else Inr ws) = Inr ws1"
    "length ws1 = length ws" "row_set ws1 = row_set ws - (if writes e then {unat r} else {})"
    using clear_register_row [OF r] by (cases "writes e") auto
  obtain ws2 where ws2: "(if reads e then live_set_register ws1 r else Inr ws1) = Inr ws2"
    "length ws2 = length ws" "row_set ws2 = row_set ws1 \<union> (if reads e then {unat r} else {})"
    using set_register_row [of r ws1] r ws1(2) by (cases "reads e") auto
  have step: "apply_effect c ins ws r = Inr ws2" using e ws1(1) ws2(1) by (simp add: apply_effect_def)
  have prems: "\<forall>r\<in>set rs. unat r < 64 * length ws2 \<and> (\<exists>e. effect_on c ins r = Inr e)"
    using Cons.prems ws2(2) by simp
  obtain ws' where ws': "for_registers (apply_effect c ins) rs ws2 = Inr ws'" "length ws' = length ws2"
    "\<And>k. \<forall>r\<in>set rs. unat r \<noteq> k \<Longrightarrow> k \<in> row_set ws' \<longleftrightarrow> k \<in> row_set ws2"
    "\<And>x e. distinct rs \<Longrightarrow> x \<in> set rs \<Longrightarrow> effect_on c ins x = Inr e \<Longrightarrow>
       unat x \<in> row_set ws' \<longleftrightarrow> reads e \<or> (\<not> writes e \<and> unat x \<in> row_set ws2)"
    using Cons.IH [OF prems] by blast
  have same: "k \<in> row_set ws2 \<longleftrightarrow> k \<in> row_set ws" if "k \<noteq> unat r" for k
    using that ws1(3) ws2(3) by auto
  have here: "unat r \<in> row_set ws2 \<longleftrightarrow> reads e \<or> (\<not> writes e \<and> unat r \<in> row_set ws)"
    using ws1(3) ws2(3) by auto
  have "unat x \<in> row_set ws' \<longleftrightarrow> reads e' \<or> (\<not> writes e' \<and> unat x \<in> row_set ws)"
    if x: "distinct (r # rs)" "x \<in> set (r # rs)" "effect_on c ins x = Inr e'" for x e'
  proof (cases "x = r")
    case True
    then have "e' = e" using x(3) e by simp
    moreover have "\<forall>y\<in>set rs. unat y \<noteq> unat r" using x(1) by (metis distinct.simps(2) word_unat_eq_iff)
    ultimately show ?thesis using True ws'(3) here by simp
  next
    case False
    then have "unat x \<noteq> unat r" by (simp add: word_unat_eq_iff)
    then show ?thesis using ws'(4) [of x e'] x False same [of "unat x"] by auto
  qed
  moreover have "k \<in> row_set ws' \<longleftrightarrow> k \<in> row_set ws" if "\<forall>y\<in>set (r # rs). unat y \<noteq> k" for k
    using that ws'(3) [of k] same [of k] by auto
  ultimately show ?case using step ws'(1,2) ws2(2) by auto
qed simp

text \<open>
  What a row depends on: nothing where the register is read, the rows of the handlers, and the rows
  of the successors where the register is not overwritten. \<open>dead_step\<close> says the same for one
  register, so a row is the answer of one step of the targeted search for every register at once.
\<close>

definition row_step :: "chunk \<Rightarrow> bool list \<Rightarrow> nat \<Rightarrow> (nat \<Rightarrow> nat set) \<Rightarrow> nat \<Rightarrow> bool" where
  "row_step c removed i rows k \<longleftrightarrow>
     (case dead_step c (of_nat k) removed i of
        Inr None \<Rightarrow> True
      | Inr (Some pushed) \<Rightarrow> \<exists>s\<in>set pushed. s < length (code c) \<and> k \<in> rows s
      | Inl _ \<Rightarrow> False)"

definition no_empty_tuple_patterns :: "chunk \<Rightarrow> bool" where
  "no_empty_tuple_patterns c \<longleftrightarrow> list_all (\<lambda>ins. \<not> empty_tuple_pattern ins) (code c)"

lemma register_words: "k < unat (register_count c) \<Longrightarrow> k < 64 * liveness_word_count c"
  by (simp add: liveness_word_count_def)

lemma unat_register: "k < unat (register_count c) \<Longrightarrow> unat (of_nat k :: register) = k"
  using register_count_bound [of c] by (intro unat_of_nat_u16) simp

lemma frame_register_not_NONE: "k < unat (register_count c) \<Longrightarrow> of_nat k \<noteq> register_NONE"
proof
  assume k: "k < unat (register_count c)" "of_nat k = register_NONE"
  then have "k = 0xFFFF" using unat_register [OF k(1)] by (simp add: register_NONE_def)
  with k(1) register_count_bound [of c] show False by simp
qed

lemma read_registers_visited:
  assumes "for_each_read_register ins = Some rs" "plain c ins" "r \<in> set rs"
  shows "unat r \<in> instruction_registers c ins"
proof -
  obtain xs where xs: "for_each_explicit_register ins (Some ReadAccess) = Some xs" "rs = xs @ implicit_registers ins"
    using assms(1) by (auto simp: for_each_read_register_def)
  have p: "instruction_registers c ins \<subseteq> {..<0xFFFF}" "\<not> empty_tuple_pattern ins"
    using assms(2) by (auto simp: plain_def)
  show ?thesis
  proof (cases "r \<in> set xs")
    case True
    then show ?thesis by (rule explicit_registers_visited [OF xs(1) p(2)])
  next
    case False
    then obtain first n where "implicit_reads ins = Some (first, n)" "in_window r first n"
      using xs(2) assms(3) implicit_registers_iff [OF p(1)] by auto
    then show ?thesis
      using implicit_reads_window [OF p(1)] by (auto simp: in_window_iff window_def)
  qed
qed

lemma visits_classified:
  "for_each_write_register ins = Some ws \<Longrightarrow> \<exists>rs. for_each_read_register ins = Some rs"
  by (auto simp: for_each_write_register_def for_each_read_register_def for_each_explicit_register_def)

lemma clears_visits:
  assumes "clears ins r" "r \<noteq> register_NONE"
  shows "for_each_write_register ins = Some [r]" "for_each_read_register ins = Some []"
proof -
  have "ins = Load (Clear r)"
    using assms(1) by (auto simp: clears_def split: instruction.splits load_instruction.splits)
  then show "for_each_write_register ins = Some [r]" "for_each_read_register ins = Some []"
    using assms(2)
    by (simp_all add: for_each_write_register_def for_each_read_register_def for_each_explicit_register_def
        operands_def register_at_def instruction_layout_def duplicate_def calls_without_arguments_def
        implicit_registers_def implicit_reads_def del: One_nat_def)
qed

text \<open>The three sets a row of a classified instruction is made of, against one step of the search.\<close>

lemma classified_step:
  assumes "i < length (code c)" "\<not> removed_at removed i" "plain c (code c ! i)" "k < unat (register_count c)"
    and "effect_on c (code c ! i) (of_nat k) = Inr e" "successors c i = Inr edges"
    and "for_each_write_register (code c ! i) = Some ws" "for_each_read_register (code c ! i) = Some rs"
    and "\<forall>h\<in>set (handlers_at c i). h < length (code c)"
  shows "row_step c removed i rows k \<longleftrightarrow> k \<in> unat ` set rs \<or> (\<exists>h\<in>set (handlers_at c i). k \<in> rows h) \<or>
    (k \<notin> unat ` set ws \<and> (\<exists>s\<in>set edges. s < length (code c) \<and> k \<in> rows s))"
proof -
  let ?r = "of_nat k :: register" and ?ins = "code c ! i"
  have k: "k \<in> unat ` set xs \<longleftrightarrow> ?r \<in> set xs" for xs
    using unat_register [OF assms(4)] by (metis image_iff word_unat_eq_iff)
  note none = frame_register_not_NONE [OF assms(4)]
  show ?thesis
  proof (cases "clears ?ins ?r")
    case True
    then show ?thesis
      using clears_visits [OF True none] assms(1,2,7,8,9) unat_register [OF assms(4)]
      by (auto simp: row_step_def dead_step_def)
  next
    case False
    note agree = visitors_agree [OF assms(3) none assms(5,8,7) False]
    show ?thesis
      using agree assms(1,2,5,6,9) False unfolding k
      by (cases "reads e"; cases "writes e") (auto simp: row_step_def dead_step_def)
  qed
qed

lemma unclassified_step:
  assumes "i < length (code c)" "\<not> removed_at removed i" "k < unat (register_count c)"
    and "effect_on c (code c ! i) (of_nat k) = Inr e" "successors c i = Inr edges"
    and "for_each_write_register (code c ! i) = None"
    and "\<forall>h\<in>set (handlers_at c i). h < length (code c)"
  shows "row_step c removed i rows k \<longleftrightarrow> reads e \<or> (\<exists>h\<in>set (handlers_at c i). k \<in> rows h) \<or>
    (\<not> writes e \<and> (\<exists>s\<in>set edges. s < length (code c) \<and> k \<in> rows s))"
proof -
  have "\<not> clears (code c ! i) (of_nat k)"
    using clears_visits(1) [OF _ frame_register_not_NONE [OF assms(3)], of "code c ! i"] assms(6) by auto
  then show ?thesis using assms(1,2,4,5,7) by (auto simp: row_step_def dead_step_def)
qed

lemma union_edges:
  assumes "length bits = n * w"
  shows "\<exists>next. union_rows bits w (filter (\<lambda>s. s < n) edges) (replicate w 0) = Inr next \<and>
    length next = w \<and> row_set next = {k. \<exists>s\<in>set edges. s < n \<and> k \<in> row_set (row_at bits w s)}"
proof -
  have "\<forall>s\<in>set (filter (\<lambda>s. s < n) edges). s < n" by simp
  from union_rows_row [OF assms this, of "replicate w 0"] show ?thesis by fastforce
qed

lemma classified_row:
  assumes "length bits = n * w" "length next = w" "\<forall>h\<in>set hs. h < n"
    and "\<forall>r\<in>set ws. unat r < 64 * w" "\<forall>r\<in>set rs. unat r < 64 * w"
  shows "\<exists>row. result_bind (for_registers live_clear_register ws next) (\<lambda>next.
      result_bind (union_rows bits w hs next) (for_registers live_set_register rs)) = Inr row \<and>
    length row = w \<and> row_set row = row_set next - unat ` set ws \<union>
      (\<Union>h\<in>set hs. row_set (row_at bits w h)) \<union> unat ` set rs"
proof -
  obtain a where a: "for_registers live_clear_register ws next = Inr a" "length a = w"
    "row_set a = row_set next - unat ` set ws" using clear_registers_row [of ws "next"] assms(2,4) by auto
  obtain b where b: "union_rows bits w hs a = Inr b" "length b = w"
    "row_set b = row_set a \<union> (\<Union>h\<in>set hs. row_set (row_at bits w h))"
    using union_rows_row [OF assms(1,3) a(2)] by blast
  obtain row where "for_registers live_set_register rs b = Inr row" "length row = w"
    "row_set row = row_set b \<union> unat ` set rs" using set_registers_row [of rs b] assms(5) b(2) by auto
  with a b show ?thesis by simp
qed

lemma unclassified_row:
  assumes "length bits = n * liveness_word_count c" "length next = liveness_word_count c"
    and "\<forall>h\<in>set hs. h < n" "\<And>r. \<exists>e. effect_on c ins r = Inr e"
  shows "\<exists>row. result_bind (apply_unclassified_effects c ins (unat (register_count c)) next)
      (union_rows bits (liveness_word_count c) hs) = Inr row \<and> length row = liveness_word_count c \<and>
    (\<forall>k e. effect_on c ins (of_nat k) = Inr e \<longrightarrow> (k \<in> row_set row \<longleftrightarrow>
       k \<in> (\<Union>h\<in>set hs. row_set (row_at bits (liveness_word_count c) h)) \<or>
       (if k < unat (register_count c) then reads e \<or> (\<not> writes e \<and> k \<in> row_set next)
        else k \<in> row_set next)))"
proof -
  let ?w = "liveness_word_count c" and ?rc = "unat (register_count c)"
  let ?rs = "map of_nat [0..<?rc] :: register list"
  have u: "unat (of_nat k :: register) = k" if "k < ?rc" for k by (rule unat_register [OF that])
  have "\<forall>r\<in>set ?rs. unat r < 64 * length next \<and> (\<exists>e. effect_on c ins r = Inr e)"
    using assms(4) u register_words assms(2) by auto
  from effects_row [OF this] obtain a where a: "for_registers (apply_effect c ins) ?rs next = Inr a"
    "length a = ?w" "\<And>k. \<forall>r\<in>set ?rs. unat r \<noteq> k \<Longrightarrow> k \<in> row_set a \<longleftrightarrow> k \<in> row_set next"
    "\<And>r e. distinct ?rs \<Longrightarrow> r \<in> set ?rs \<Longrightarrow> effect_on c ins r = Inr e \<Longrightarrow>
       unat r \<in> row_set a \<longleftrightarrow> reads e \<or> (\<not> writes e \<and> unat r \<in> row_set next)"
    using assms(2) by auto
  have "distinct ?rs" unfolding distinct_map by (auto intro!: inj_onI) (metis u)
  then have inside: "k \<in> row_set a \<longleftrightarrow> reads e \<or> (\<not> writes e \<and> k \<in> row_set next)"
    if "k < ?rc" "effect_on c ins (of_nat k) = Inr e" for k e
    using a(4) [of "of_nat k" e] that u [OF that(1)] by auto
  have outside: "k \<in> row_set a \<longleftrightarrow> k \<in> row_set next" if "\<not> k < ?rc" for k
    using a(3) [of k] u that by auto
  obtain row where "union_rows bits ?w hs a = Inr row" "length row = ?w"
    "row_set row = row_set a \<union> (\<Union>h\<in>set hs. row_set (row_at bits ?w h))"
    using union_rows_row [OF assms(1,3) a(2)] by blast
  with a(1) inside outside show ?thesis by (auto simp: apply_unclassified_effects_def)
qed

text \<open>The whole row of an instruction of a verified chunk.\<close>

lemma dense_row_spec:
  assumes "verify xxh3 c = Inr ()" "no_empty_tuple_patterns c" "i < length (code c)"
    and "length bits = length (code c) * liveness_word_count c"
    and "\<forall>s<length (code c). row_set (row_at bits (liveness_word_count c) s) \<subseteq> {..<unat (register_count c)}"
  shows "\<exists>row. dense_row c removed (code c) (liveness_word_count c) bits i = Inr row \<and>
    length row = liveness_word_count c \<and>
    row_set row = {k. k < unat (register_count c) \<and>
      row_step c removed i (\<lambda>s. row_set (row_at bits (liveness_word_count c) s)) k}"
proof -
  let ?n = "length (code c)" and ?w = "liveness_word_count c" and ?rc = "unat (register_count c)"
  let ?rows = "\<lambda>s. row_set (row_at bits ?w s)" and ?ins = "code c ! i"
  have plain: "plain c ?ins"
    using verified_plain [OF assms(1,3)] assms(2,3) by (simp add: no_empty_tuple_patterns_def list_all_length)
  have frame: "k < ?rc" if "k \<in> instruction_registers c ?ins" for k
    using verified_registers [OF assms(1,3)] that by blast
  have handlers: "\<forall>h\<in>set (handlers_at c i). h < ?n" using verified_handlers [OF assms(1)] by blast
  obtain edges where edges: "successors c i = Inr edges" using verified_edges [OF assms(1,3)] by blast
  have effect: "\<exists>e. effect_on c ?ins r = Inr e" for r by (rule verified_effect [OF assms(1,3)])
  have small: "k < ?rc" if "k \<in> ?rows s" "s < ?n" for k s using assms(5) that by blast
  show ?thesis
  proof (cases "removed_at removed i")
    case True
    have "row_step c removed i ?rows k \<longleftrightarrow> i + 1 < ?n \<and> k \<in> ?rows (i + 1)" for k
      using True by (simp add: row_step_def dead_step_def)
    then show ?thesis
      using True words_at_row [OF assms(4), of "i + 1"] small by (auto simp: dense_row_def)
  next
    case live: False
    obtain nxt where nxt: "union_rows bits ?w (filter (\<lambda>s. s < ?n) edges) (replicate ?w 0) = Inr nxt"
      "length nxt = ?w" "row_set nxt = {k. \<exists>s\<in>set edges. s < ?n \<and> k \<in> ?rows s}"
      using union_edges [OF assms(4)] by blast
    show ?thesis
    proof (cases "for_each_write_register ?ins")
      case (Some ws)
      obtain rs where rs: "for_each_read_register ?ins = Some rs" using visits_classified [OF Some] by blast
      have reg: "\<forall>r\<in>set ws. unat r < ?rc" "\<forall>r\<in>set rs. unat r < ?rc"
        using explicit_registers_visited [OF Some [unfolded for_each_write_register_def]]
          read_registers_visited [OF rs plain] plain frame by (auto simp: plain_def)
      then have "\<forall>r\<in>set ws. unat r < 64 * ?w" "\<forall>r\<in>set rs. unat r < 64 * ?w"
        using register_words by blast+
      from classified_row [OF assms(4) nxt(2) handlers this] obtain row where row:
        "result_bind (for_registers live_clear_register ws nxt) (\<lambda>next.
           result_bind (union_rows bits ?w (handlers_at c i) next) (for_registers live_set_register rs)) = Inr row"
        "length row = ?w" "row_set row = row_set nxt - unat ` set ws \<union>
           (\<Union>h\<in>set (handlers_at c i). ?rows h) \<union> unat ` set rs" by blast
      have "row_set row \<subseteq> {..<?rc}" using small handlers reg by (auto simp: row(3) nxt(3))
      moreover have "k \<in> row_set row \<longleftrightarrow> row_step c removed i ?rows k" if k: "k < ?rc" for k
      proof -
        obtain e where "effect_on c ?ins (of_nat k) = Inr e" using effect by blast
        from classified_step [OF assms(3) live plain k this edges Some rs handlers]
        show ?thesis by (auto simp: row(3) nxt(3))
      qed
      ultimately have "row_set row = {k. k < ?rc \<and> row_step c removed i ?rows k}" by blast
      moreover have "dense_row c removed (code c) ?w bits i = Inr row"
        using row(1) live edges nxt(1) Some rs assms(3) by (simp add: dense_row_def)
      ultimately show ?thesis using row(2) by blast
    next
      case None
      obtain row where row: "result_bind (apply_unclassified_effects c ?ins ?rc nxt)
           (union_rows bits ?w (handlers_at c i)) = Inr row" "length row = ?w"
        "\<And>k e. effect_on c ?ins (of_nat k) = Inr e \<Longrightarrow> k \<in> row_set row \<longleftrightarrow>
           k \<in> (\<Union>h\<in>set (handlers_at c i). ?rows h) \<or>
           (if k < ?rc then reads e \<or> (\<not> writes e \<and> k \<in> row_set nxt) else k \<in> row_set nxt)"
        using unclassified_row [OF assms(4) nxt(2) handlers effect] by blast
      have "k \<in> row_set row \<longleftrightarrow> k < ?rc \<and> row_step c removed i ?rows k" for k
      proof -
        obtain e where e: "effect_on c ?ins (of_nat k) = Inr e" using effect by blast
        show ?thesis
          using unclassified_step [OF assms(3) live _ e edges None handlers, of ?rows] row(3) [OF e] small handlers
          by (auto simp: nxt(3))
      qed
      then have "row_set row = {k. k < ?rc \<and> row_step c removed i ?rows k}" by blast
      moreover have "dense_row c removed (code c) ?w bits i = Inr row"
        using row(1) live edges nxt(1) None assms(3) by (simp add: dense_row_def)
      ultimately show ?thesis using row(2) by blast
    qed
  qed
qed

section \<open>The iteration reaches the least fixed point\<close>

text \<open>
  What two analyses of the optimizer do: a matrix with a row for every instruction is recomputed row by
  row from the last to the first, until a pass changes nothing. The locale has the shape of both loops;
  a client says what a row becomes as a set of registers.
\<close>

definition matrix_rows :: "nat \<Rightarrow> u64 list \<Rightarrow> nat \<Rightarrow> nat set" where
  "matrix_rows w bits i = row_set (row_at bits w i)"

text \<open>
  While the passes run, the matrix has its shape, every bit is a register of the frame and in the
  solution, and every row is contained in the row that would be computed from the matrix; so rows only
  grow.
\<close>

definition ascending ::
  "nat \<Rightarrow> nat \<Rightarrow> nat \<Rightarrow> (nat \<Rightarrow> (nat \<Rightarrow> nat set) \<Rightarrow> nat set) \<Rightarrow> (nat \<Rightarrow> nat set) \<Rightarrow> u64 list \<Rightarrow> bool" where
  "ascending n w count step sol bits \<longleftrightarrow> length bits = n * w \<and>
     (\<forall>i<n. matrix_rows w bits i \<subseteq> {..<count} \<inter> sol i \<inter> step i (matrix_rows w bits))"

definition matrix_size :: "nat \<Rightarrow> nat \<Rightarrow> u64 list \<Rightarrow> nat" where
  "matrix_size n w bits = (\<Sum>i<n. card (matrix_rows w bits i))"

lemma matrix_size_bound:
  assumes "ascending n w count step sol bits"
  shows "matrix_size n w bits \<le> n * count"
proof -
  have "card (matrix_rows w bits i) \<le> count" if "i < n" for i
    using assms that card_mono [of "{..<count}" "matrix_rows w bits i"] by (auto simp: ascending_def)
  then have "matrix_size n w bits \<le> (\<Sum>i<n. count)"
    unfolding matrix_size_def by (intro sum_mono) simp
  then show ?thesis by simp
qed

lemma ascending_start: "ascending n w count step sol (replicate (n * w) 0)"
  by (auto simp: ascending_def matrix_rows_def row_at_def row_set_def)

lemma matrix_rows_written:
  assumes "length bits = n * w" "i < n" "length row = w" "j < n"
  shows "matrix_rows w (write_words bits w i row) j = (if j = i then row_set row else matrix_rows w bits j)"
  using write_words_row(2) [OF assms] by (simp add: matrix_rows_def)

text \<open>Writing a row that is computed from the matrix and differs from the old one makes the matrix larger.\<close>

lemma ascending_write:
  assumes "ascending n w count step sol bits" "i < n" "length row = w" "row_at bits w i \<noteq> row"
    and "row_set row = step i (matrix_rows w bits)" "row_set row \<subseteq> {..<count} \<inter> sol i"
    and "\<And>j rows rows'. j < n \<Longrightarrow> (\<And>s. s < n \<Longrightarrow> rows s \<subseteq> rows' s) \<Longrightarrow> step j rows \<subseteq> step j rows'"
  shows "ascending n w count step sol (write_words bits w i row)"
    "matrix_size n w bits < matrix_size n w (write_words bits w i row)"
proof -
  let ?bits = "write_words bits w i row" and ?rows = "matrix_rows w bits"
  have len: "length bits = n * w" and old: "\<And>j. j < n \<Longrightarrow> ?rows j \<subseteq> {..<count} \<inter> sol j \<inter> step j ?rows"
    using assms(1) by (auto simp: ascending_def)
  note new = matrix_rows_written [OF len assms(2,3)]
  have grows: "?rows i \<subseteq> row_set row" using old [OF assms(2)] assms(5) by auto
  then have mono: "?rows s \<subseteq> matrix_rows w ?bits s" if "s < n" for s using new [OF that] by simp
  have "matrix_rows w ?bits j \<subseteq> {..<count} \<inter> sol j \<inter> step j (matrix_rows w ?bits)" if j: "j < n" for j
  proof -
    have "matrix_rows w ?bits j \<subseteq> {..<count} \<inter> sol j \<inter> step j ?rows"
      using new [OF j] old [OF j] assms(5,6) by (auto split: if_splits)
    moreover have "step j ?rows \<subseteq> step j (matrix_rows w ?bits)" by (rule assms(7) [OF j mono])
    ultimately show ?thesis by blast
  qed
  then show "ascending n w count step sol ?bits"
    using write_words_row(1) [OF len assms(2,3,2)] by (simp add: ascending_def)
  have "length (row_at bits w i) = length row" using words_at_row(2) [OF len assms(2)] assms(3) by simp
  then have "?rows i \<noteq> row_set row" using assms(4) row_set_inject by (auto simp: matrix_rows_def)
  then have "card (?rows i) < card (matrix_rows w ?bits i)"
    using grows new [OF assms(2)] by (auto intro!: psubset_card_mono)
  moreover have "card (?rows s) \<le> card (matrix_rows w ?bits s)" if "s < n" for s
    using mono [OF that] by (intro card_mono) (simp_all add: matrix_rows_def)
  ultimately show "matrix_size n w bits < matrix_size n w ?bits"
    unfolding matrix_size_def using assms(2) by (intro sum_strict_mono_ex1) auto
qed

locale row_iteration =
  fixes good :: "'p \<Rightarrow> bool" and instructions width registers :: "'p \<Rightarrow> nat"
    and row :: "'p \<Rightarrow> u64 list \<Rightarrow> nat \<Rightarrow> panic + u64 list"
    and step :: "'p \<Rightarrow> nat \<Rightarrow> (nat \<Rightarrow> nat set) \<Rightarrow> nat set"
    and pass :: "'p \<Rightarrow> nat list \<Rightarrow> u64 list \<times> bool \<Rightarrow> panic + u64 list \<times> bool"
    and loop :: "'p \<Rightarrow> u64 list \<Rightarrow> (panic + u64 list) option"
  assumes row_computes: "good p \<Longrightarrow> i < instructions p \<Longrightarrow> length bits = instructions p * width p \<Longrightarrow>
      \<forall>s<instructions p. matrix_rows (width p) bits s \<subseteq> {..<registers p} \<Longrightarrow>
      \<exists>new. row p bits i = Inr new \<and> length new = width p \<and> row_set new \<subseteq> {..<registers p} \<and>
        row_set new = step p i (matrix_rows (width p) bits)"
    and step_mono: "good p \<Longrightarrow> i < instructions p \<Longrightarrow> (\<And>s. s < instructions p \<Longrightarrow> rows s \<subseteq> rows' s) \<Longrightarrow>
      step p i rows \<subseteq> step p i rows'"
    and pass_Nil: "pass p [] state = Inr state"
    and pass_Cons: "pass p (i # indices) (bits, changed) =
      result_bind (row p bits i) (\<lambda>new. result_bind (words_at bits (width p) i) (\<lambda>current.
        pass p indices (if current \<noteq> new then (write_words bits (width p) i new, True) else (bits, changed))))"
    and loop_unfold: "loop p bits =
      (case pass p (rev [0..<instructions p]) (bits, False) of
         Inl e \<Rightarrow> Some (Inl e)
       | Inr (bits, changed) \<Rightarrow> if changed then loop p bits else Some (Inr bits))"
begin

lemma pass_ascends:
  assumes "good p" "\<forall>i\<in>set indices. i < instructions p"
    and "ascending (instructions p) (width p) (registers p) (step p) sol bits"
    and sol: "\<And>i. i < instructions p \<Longrightarrow> step p i sol \<subseteq> sol i"
  shows "\<exists>bits' changed'. pass p indices (bits, changed) = Inr (bits', changed') \<and>
    ascending (instructions p) (width p) (registers p) (step p) sol bits' \<and>
    (changed' \<and> matrix_size (instructions p) (width p) bits < matrix_size (instructions p) (width p) bits' \<or>
     changed' = changed \<and> bits' = bits \<and>
       (\<forall>i\<in>set indices. matrix_rows (width p) bits i = step p i (matrix_rows (width p) bits)))"
  using assms(2,3)
proof (induction indices arbitrary: bits changed)
  case (Cons i indices)
  let ?w = "width p" and ?n = "instructions p"
  have i: "i < ?n" and rest: "\<forall>i\<in>set indices. i < ?n" using Cons.prems by auto
  have len: "length bits = ?n * ?w" and rows: "\<And>s. s < ?n \<Longrightarrow> matrix_rows ?w bits s \<subseteq> {..<registers p} \<inter> sol s"
    using Cons.prems(2) by (auto simp: ascending_def)
  then have "\<forall>s<?n. matrix_rows ?w bits s \<subseteq> {..<registers p}" by blast
  from row_computes [OF assms(1) i len this]
  obtain new where new: "row p bits i = Inr new" "length new = ?w" "row_set new \<subseteq> {..<registers p}"
    "row_set new = step p i (matrix_rows ?w bits)" by blast
  have current: "words_at bits ?w i = Inr (row_at bits ?w i)" by (rule words_at_row(1) [OF len i])
  show ?case
  proof (cases "row_at bits ?w i = new")
    case True
    then have "matrix_rows ?w bits i = row_set new" by (simp add: matrix_rows_def)
    with Cons.IH [OF rest Cons.prems(2), of changed] new current True show ?thesis by (auto simp: pass_Cons)
  next
    case False
    have "row_set new \<subseteq> {..<registers p} \<inter> sol i"
      using new(3,4) step_mono [OF assms(1) i, of "matrix_rows ?w bits" sol] rows sol [OF i] by blast
    note bigger = ascending_write [OF Cons.prems(2) i new(2) False new(4) this step_mono [OF assms(1)]]
    from Cons.IH [OF rest bigger(1), of True] bigger(2) new(1) current False show ?thesis
      by (fastforce simp: pass_Cons)
  qed
qed (simp add: pass_Nil)

lemma loop_ascends:
  assumes "good p" "ascending (instructions p) (width p) (registers p) (step p) sol bits"
    and "\<And>i. i < instructions p \<Longrightarrow> step p i sol \<subseteq> sol i"
  shows "\<exists>bits'. loop p bits = Some (Inr bits') \<and>
    ascending (instructions p) (width p) (registers p) (step p) sol bits' \<and>
    (\<forall>i<instructions p. matrix_rows (width p) bits' i = step p i (matrix_rows (width p) bits'))"
  using assms(2)
proof (induction "instructions p * registers p - matrix_size (instructions p) (width p) bits" arbitrary: bits
    rule: less_induct)
  case less
  have "\<forall>i\<in>set (rev [0..<instructions p]). i < instructions p" by simp
  from pass_ascends [OF assms(1) this less.prems assms(3), of False] obtain bits' changed' where pass:
    "pass p (rev [0..<instructions p]) (bits, False) = Inr (bits', changed')"
    "ascending (instructions p) (width p) (registers p) (step p) sol bits'"
    "changed' \<and> matrix_size (instructions p) (width p) bits < matrix_size (instructions p) (width p) bits' \<or>
     changed' = False \<and> bits' = bits \<and> (\<forall>i\<in>set (rev [0..<instructions p]).
       matrix_rows (width p) bits i = step p i (matrix_rows (width p) bits))" by blast
  show ?case
  proof (cases changed')
    case True
    with pass(3) matrix_size_bound [OF pass(2)] have
      "instructions p * registers p - matrix_size (instructions p) (width p) bits' <
       instructions p * registers p - matrix_size (instructions p) (width p) bits" by simp
    from less.hyps [OF this pass(2)] pass(1) True show ?thesis by (subst loop_unfold) simp
  next
    case False
    with pass show ?thesis by (subst loop_unfold) simp
  qed
qed

text \<open>The loop returns on a zero matrix, and what it returns is the least solution.\<close>

lemma loop_least:
  assumes "good p" "\<forall>i<instructions p. step p i sol \<subseteq> sol i"
  shows "\<exists>bits. loop p (replicate (instructions p * width p) 0) = Some (Inr bits) \<and>
    length bits = instructions p * width p \<and>
    (\<forall>i<instructions p. matrix_rows (width p) bits i = step p i (matrix_rows (width p) bits) \<and>
       matrix_rows (width p) bits i \<subseteq> {..<registers p} \<inter> sol i)"
  using loop_ascends [OF assms(1) ascending_start, of sol] assms(2) unfolding ascending_def by blast

end

subsection \<open>The dense analysis as an instance\<close>

lemma row_step_mono:
  assumes "row_step c removed i rows k" "\<And>s. s < length (code c) \<Longrightarrow> rows s \<subseteq> rows' s"
  shows "row_step c removed i rows' k"
  using assms by (force simp: row_step_def split: sum.splits option.splits)

lemma row_step_live:
  assumes "verify xxh3 c = Inr ()" "i < length (code c)" "row_step c removed i rows k"
    and "\<And>s. s < length (code c) \<Longrightarrow> k \<in> rows s \<Longrightarrow> live c removed (of_nat k) s"
  shows "live c removed (of_nat k) i"
proof -
  let ?visit = "dead_step c (of_nat k) removed"
  have "finds (length (code c)) ?visit i"
  proof (cases "?visit i")
    case (Inl p)
    then show ?thesis using assms(3) by (simp add: row_step_def)
  next
    case (Inr answer)
    show ?thesis
    proof (cases answer)
      case None
      then show ?thesis using Inr assms(2) by (simp add: finds.hit)
    next
      case (Some pushed)
      then obtain s where "s \<in> set pushed" "s < length (code c)" "k \<in> rows s"
        using assms(3) Inr by (auto simp: row_step_def)
      then show ?thesis
        using finds.onward [OF assms(2)] Inr Some live_finds [OF verified_dead_step [OF assms(1)] assms(4)]
        by blast
    qed
  qed
  then show ?thesis by (rule finds_live)
qed

definition dense_good :: "(string \<Rightarrow> u64) \<times> chunk \<times> bool list \<Rightarrow> bool" where
  "dense_good p \<longleftrightarrow> (case p of (xxh3, c, removed) \<Rightarrow> verify xxh3 c = Inr () \<and> no_empty_tuple_patterns c)"

definition dense_step :: "chunk \<Rightarrow> bool list \<Rightarrow> nat \<Rightarrow> (nat \<Rightarrow> nat set) \<Rightarrow> nat set" where
  "dense_step c removed i rows = {k. k < unat (register_count c) \<and> row_step c removed i rows k}"

interpretation dense: row_iteration dense_good "\<lambda>(_, c, _). length (code c)" "\<lambda>(_, c, _). liveness_word_count c"
  "\<lambda>(_, c, _). unat (register_count c)"
  "\<lambda>(_, c, removed). dense_row c removed (code c) (liveness_word_count c)"
  "\<lambda>(_, c, removed). dense_step c removed"
  "\<lambda>(_, c, removed). dense_pass c removed (code c) (liveness_word_count c)"
  "\<lambda>(_, c, removed). dense_loop c removed (code c) (liveness_word_count c)"
proof unfold_locales
  fix p :: "(string \<Rightarrow> u64) \<times> chunk \<times> bool list" and i bits
  obtain xxh3 c removed where p: "p = (xxh3, c, removed)" by (cases p)
  show "\<exists>new. (case p of (_, c, removed) \<Rightarrow> dense_row c removed (code c) (liveness_word_count c)) bits i = Inr new \<and>
      length new = (case p of (_, c, _) \<Rightarrow> liveness_word_count c) \<and>
      row_set new \<subseteq> {..<case p of (_, c, _) \<Rightarrow> unat (register_count c)} \<and>
      row_set new = (case p of (_, c, removed) \<Rightarrow> dense_step c removed) i
        (matrix_rows (case p of (_, c, _) \<Rightarrow> liveness_word_count c) bits)"
    if "dense_good p" "i < (case p of (_, c, _) \<Rightarrow> length (code c))"
      "length bits = (case p of (_, c, _) \<Rightarrow> length (code c)) * (case p of (_, c, _) \<Rightarrow> liveness_word_count c)"
      "\<forall>s<case p of (_, c, _) \<Rightarrow> length (code c). matrix_rows (case p of (_, c, _) \<Rightarrow> liveness_word_count c) bits s \<subseteq>
         {..<case p of (_, c, _) \<Rightarrow> unat (register_count c)}"
    using dense_row_spec [of xxh3 c i bits removed] that
    by (fastforce simp: p dense_good_def dense_step_def matrix_rows_def [abs_def])
qed (auto simp: dense_step_def intro: row_step_mono split: prod.splits, subst dense_loop.simps, simp)

lemma fixed_point_live:
  assumes "\<And>i. i < length (code c) \<Longrightarrow> matrix_rows (liveness_word_count c) bits i =
      {k. k < unat (register_count c) \<and> row_step c removed i (matrix_rows (liveness_word_count c) bits) k}"
    and "k < unat (register_count c)" "finds (length (code c)) (dead_step c (of_nat k) removed) i"
  shows "k \<in> matrix_rows (liveness_word_count c) bits i"
  using assms(3)
proof induction
  case (hit i)
  then show ?case using assms(1,2) by (simp add: row_step_def)
next
  case (onward i pushed s)
  moreover have "s < length (code c)" using onward.hyps(4) by (auto elim: finds_elim)
  ultimately show ?case using assms(1,2) by (auto simp: row_step_def)
qed

lemma analyze_exact:
  assumes "verify xxh3 c = Inr ()" "no_empty_tuple_patterns c"
  shows "\<exists>l. analyze c removed None = Some (Inr l) \<and> matrix_instruction_count l = length (code c) \<and>
    matrix_word_count l = liveness_word_count c \<and>
    length (matrix_live_in l) = length (code c) * liveness_word_count c \<and>
    (\<forall>i<length (code c). \<forall>k<unat (register_count c).
       k \<in> matrix_rows (liveness_word_count c) (matrix_live_in l) i \<longleftrightarrow> live c removed (of_nat k) i)"
proof -
  let ?n = "length (code c)" and ?w = "liveness_word_count c" and ?sol = "\<lambda>i. {k. live c removed (of_nat k) i}"
  have least: "\<forall>i<?n. dense_step c removed i ?sol \<subseteq> ?sol i"
    using row_step_live [OF assms(1), of _ removed ?sol] by (auto simp: dense_step_def)
  have good: "dense_good (xxh3, c, removed)" using assms by (simp add: dense_good_def)
  from dense.loop_least [OF good, of ?sol, unfolded prod.case, OF least]
  obtain bits where bits: "dense_loop c removed (code c) ?w (replicate (?n * ?w) 0) = Some (Inr bits)"
    "length bits = ?n * ?w"
    "\<forall>i<?n. matrix_rows ?w bits i = dense_step c removed i (matrix_rows ?w bits) \<and>
       matrix_rows ?w bits i \<subseteq> {..<unat (register_count c)} \<inter> ?sol i"
    by blast
  have below: "matrix_rows ?w bits i \<subseteq> ?sol i" if "i < ?n" for i using bits(3) that by blast
  have fixed: "\<And>i. i < ?n \<Longrightarrow> matrix_rows ?w bits i = {k. k < unat (register_count c) \<and> row_step c removed i (matrix_rows ?w bits) k}"
    using bits(3) by (simp add: dense_step_def)
  have "k \<in> matrix_rows ?w bits i \<longleftrightarrow> live c removed (of_nat k) i"
    if "i < ?n" "k < unat (register_count c)" for i k
    using fixed_point_live [OF fixed that(2)] live_finds [OF verified_dead_step [OF assms(1)]] below [OF that(1)] by blast
  with bits show ?thesis by (auto simp: analyze_def Let_def)
qed

lemma dead_after_row:
  assumes "matrix_instruction_count l = n" "matrix_word_count l = liveness_word_count c"
    and "length (matrix_live_in l) = n * liveness_word_count c" "start < n" "r < register_count c"
  shows "liveness_is_dead_after l r start = Inr (unat r \<notin> matrix_rows (liveness_word_count c) (matrix_live_in l) start)"
proof -
  let ?w = "liveness_word_count c"
  have r: "unat r div 64 < ?w"
    using register_words [of "unat r" c] assms(5) by (simp add: word_less_nat_alt div_less_iff_less_mult mult.commute)
  have "(start + 1) * ?w \<le> n * ?w" using assms(4) by (intro mult_right_mono) auto
  then have "start * ?w + unat r div 64 < n * ?w" using r by simp
  then show ?thesis
    using assms r nth_row_at [OF assms(3,4) r] words_at_row(2) [OF assms(3,4)]
    by (simp add: liveness_is_dead_after_def matrix_rows_def row_set_def and_exp_eq_0_iff_not_bit)
qed

lemma dense_dead_after:
  assumes "verify xxh3 c = Inr ()" "no_empty_tuple_patterns c"
  shows "\<exists>l. analyze c removed None = Some (Inr l) \<and>
    (\<forall>r start. r < register_count c \<longrightarrow> liveness_is_dead_after l r start = Inr (\<not> live c removed r start))"
proof -
  obtain l where l: "analyze c removed None = Some (Inr l)" "matrix_instruction_count l = length (code c)"
    "matrix_word_count l = liveness_word_count c"
    "length (matrix_live_in l) = length (code c) * liveness_word_count c"
    "\<And>i k. i < length (code c) \<Longrightarrow> k < unat (register_count c) \<Longrightarrow>
       k \<in> matrix_rows (liveness_word_count c) (matrix_live_in l) i \<longleftrightarrow> live c removed (of_nat k) i"
    using analyze_exact [OF assms] by blast
  have "liveness_is_dead_after l r start = Inr (\<not> live c removed r start)" if "r < register_count c" for r start
  proof (cases "start < length (code c)")
    case True
    then show ?thesis
      using dead_after_row [OF l(2-4) True that] l(5) [OF True, of "unat r"] that by (simp add: word_less_nat_alt)
  next
    case False
    then show ?thesis using l(2) live_inside [of c removed r start] by (auto simp: liveness_is_dead_after_def)
  qed
  with l(1) show ?thesis by blast
qed

lemma scratch_default_valid: "scratch_valid scratch_default"
  by (simp add: scratch_valid_def scratch_default_def)

lemma targeted_dead_after:
  assumes "verify xxh3 c = Inr ()" "start \<le> length (code c)"
  shows "register_is_dead_after c r start = Inr (\<not> live c [] r start)"
  using search_exact [OF verified_dead_step [OF assms(1)] scratch_default_valid assms(2), of r "[]"]
  by (auto simp: register_is_dead_after_def register_is_dead_after_removals_def)

lemma queries_sound:
  assumes "verify xxh3 c = Inr ()" "no_empty_tuple_patterns c"
  shows "\<exists>q. for_chunk c query_count = Some (Inr q) \<and>
    (\<forall>r start. r < register_count c \<and> start \<le> length (code c) \<longrightarrow>
       queries_dead_after q c r start \<in> {Inr False, Inr (\<not> live c [] r start)})"
proof -
  obtain l where "analyze c [] None = Some (Inr l)"
    "\<And>r start. r < register_count c \<Longrightarrow> liveness_is_dead_after l r start = Inr (\<not> live c [] r start)"
    using dense_dead_after [OF assms] by blast
  with targeted_dead_after [OF assms(1)] show ?thesis
    by (auto simp: for_chunk_def build_queries_def dense_queries_def queries_dead_after_def Let_def)
qed

section \<open>Properties\<close>

lemma copy_chunk_plain: "no_empty_tuple_patterns copy_chunk"
  by (simp add: no_empty_tuple_patterns_def empty_tuple_pattern_def)

lemma copy_chunk_live: "live copy_chunk [] 1 1"
  by (rule live.read [where e = ReadEffect])
    (simp_all add: removed_at_def list_get_def clears_def effect_on_def read_only_def)

text \<open>C7. The targeted search is exact on a verified chunk: it returns without a panic, and calls the
  register dead exactly when no path from the start reads it before overwriting it. The scratch
  memory may be left over from any earlier searches, and stays usable.\<close>

theorem register_dead_search_exact:
  assumes "verify xxh3 c = Inr ()" "start \<le> length (code c)" "scratch_valid s"
  shows "\<exists>s'. register_is_dead_after_removals_with_scratch c r start removed s =
      Inr (\<not> live c removed r start, s') \<and> scratch_valid s'"
  by (rule search_exact [OF verified_dead_step [OF assms(1)] assms(3,2)])

theorem register_dead_search_exact_witness:
  "\<exists>s'. register_is_dead_after_removals_with_scratch copy_chunk 1 1 [] scratch_default = Inr (False, s')"
  using register_dead_search_exact [OF copy_chunk_verified _ scratch_default_valid, of 1 1 "[]"]
    copy_chunk_live by auto

text \<open>C6. The dense analysis ends on a verified chunk without empty tuple patterns, although its loop
  has no bound, and for every register of the frame and every start it gives the answer of the
  targeted search.\<close>

theorem dense_analysis_exact:
  assumes "verify xxh3 c = Inr ()" "no_empty_tuple_patterns c"
  shows "\<exists>l. analyze c [] None = Some (Inr l) \<and> (\<forall>r start. r < register_count c \<and> start \<le> length (code c) \<longrightarrow>
    liveness_is_dead_after l r start = register_is_dead_after c r start)"
  using dense_dead_after [OF assms, of "[]"] targeted_dead_after [OF assms(1)] by auto

theorem dense_analysis_exact_witness:
  "\<exists>l. analyze copy_chunk [] None = Some (Inr l) \<and>
     liveness_is_dead_after l 1 1 = register_is_dead_after copy_chunk 1 1"
  using dense_analysis_exact [OF copy_chunk_verified copy_chunk_plain] by force

text \<open>An empty tuple pattern whose first element would be the register behind a frame of 64.\<close>

definition empty_pattern_chunk :: chunk where
  "empty_pattern_chunk = new_chunk\<lparr>code := [Switch (SwitchTuplePattern 64 0 0), ReturnOp (Return 0)],
     switch_tables := [PatternTable [] [] 1], spans := replicate 2 span_zero, register_count := 64\<rparr>"

lemma empty_pattern_chunk_fields [simp]:
  "code empty_pattern_chunk = [Switch (SwitchTuplePattern 64 0 0), ReturnOp (Return 0)]"
  "switch_tables empty_pattern_chunk = [PatternTable [] [] 1]"
  "spans empty_pattern_chunk = replicate 2 span_zero" "register_count empty_pattern_chunk = 64"
  "local_register_count empty_pattern_chunk = 0" "parameter_register_start empty_pattern_chunk = 0"
  "parameter_register_count empty_pattern_chunk = 0" "trace_argument_registers empty_pattern_chunk = []"
  "catch_table empty_pattern_chunk = []"
  by (simp_all add: empty_pattern_chunk_def new_chunk_def)

lemma empty_pattern_chunk_verified: "verify xxh3 empty_pattern_chunk = Inr ()"
  by (simp add: verify_eval check_window_def verify_switch_def switch_table_of_def
      check_switch_table_def valid_kind_def verify_table_def valid_descriptors_def check_targets_def)
    blast

lemma empty_pattern_chunk_flow:
  "successors empty_pattern_chunk 0 = Inr [1]" "successors empty_pattern_chunk 1 = Inr []"
  by (simp_all add: flow_eval table_entry_def)

lemma empty_pattern_visits:
  "for_each_write_register (Switch (SwitchTuplePattern 64 0 0)) = Some []"
  "for_each_read_register (Switch (SwitchTuplePattern 64 0 0)) = Some [64]"
  "for_each_write_register (ReturnOp (Return 0)) = Some []" "for_each_read_register (ReturnOp (Return 0)) = Some [0]"
  by (simp_all add: visit_eval)

lemma single_word: "replicate 1 w = [w]"
  by simp

lemma empty_pattern_chunk_rows:
  "dense_row empty_pattern_chunk [] (code empty_pattern_chunk) 1 [0, 0] 1 = Inr [1]"
  "dense_row empty_pattern_chunk [] (code empty_pattern_chunk) 1 [0, 1] 0 = Inl IndexOutOfBounds"
  by (simp_all add: dense_row_def removed_at_def list_get_def index_of_def empty_pattern_chunk_flow
      empty_pattern_visits handlers_at_def live_set_register_def words_at_def single_word del: One_nat_def)

text \<open>C38. Verification accepts an empty tuple pattern whose first element lies behind the frame. The
  operand table lists that element as read, so the dense analysis sets the bit of a register that has no
  word in its rows: it panics on a verified chunk, where the targeted search answers.\<close>

theorem empty_pattern_stops_dense_analysis:
  "verify xxh3 empty_pattern_chunk = Inr () \<and>
   analyze empty_pattern_chunk [] None = Some (Inl IndexOutOfBounds) \<and>
   (\<exists>dead. register_is_dead_after empty_pattern_chunk 0 0 = Inr dead)"
proof -
  have "analyze empty_pattern_chunk [] None = Some (Inl IndexOutOfBounds)"
    using empty_pattern_chunk_rows
    by (simp add: analyze_def liveness_word_count_def dense_loop.simps upt_rec words_at_def write_words_def)
  moreover have "register_is_dead_after empty_pattern_chunk 0 0 = Inr (\<not> live empty_pattern_chunk [] 0 0)"
    by (rule targeted_dead_after [OF empty_pattern_chunk_verified]) simp
  ultimately show ?thesis using empty_pattern_chunk_verified by blast
qed

text \<open>Whatever analysis is chosen for a verified chunk and a number of queries, building it returns,
  and a register it calls dead is not live.\<close>

theorem liveness_queries_sound:
  assumes "verify xxh3 c = Inr ()" "no_empty_tuple_patterns c"
  shows "\<exists>q. for_chunk c query_count = Some (Inr q) \<and>
    (\<forall>r start. r < register_count c \<and> start \<le> length (code c) \<longrightarrow>
       queries_dead_after q c r start \<in> {Inr False, Inr (\<not> live c [] r start)})"
  by (rule queries_sound [OF assms])

theorem liveness_queries_sound_witness:
  "\<exists>q. for_chunk copy_chunk 600 = Some (Inr q) \<and> queries_dead_after q copy_chunk 1 1 = Inr False"
  using liveness_queries_sound [OF copy_chunk_verified copy_chunk_plain, of 600] copy_chunk_live by force

end
