(* ===== verification/Whim_Dominators.thy ===== *)
theory Whim_Dominators
  imports Whim_Cfg
begin

text \<open>
  The dominator tree of a chunk (\<^verbatim>\<open>Dominators\<close> in \<^verbatim>\<open>crates/optimizer/src/cfg.rs\<close>): the leaders that split
  the code into blocks, the edges between blocks, the reverse postorder of a depth-first search, and
  the iteration of Cooper, Harvey and Kennedy over immediate dominators, with the queries the passes
  ask. \<open>dominated\<close> is the specification: every path from the entry passes the candidate.
\<close>

section \<open>Blocks\<close>

fun mark_leaders :: "chunk \<Rightarrow> (nat \<times> instruction) list \<Rightarrow> bool list \<Rightarrow> panic + bool list" where
  "mark_leaders c [] leaders = Inr leaders"
| "mark_leaders c ((index, ins) # rest) leaders =
     (if \<not> branches_or_terminates ins then mark_leaders c rest leaders
      else
        let leaders = (if index + 1 < length (code c) then leaders[index + 1 := True] else leaders)
        in result_bind (successors c index) (\<lambda>edges.
             mark_leaders c rest
               (fold (\<lambda>edge leaders. if edge < length leaders then leaders[edge := True] else leaders)
                  edges leaders)))"

definition block_leaders :: "chunk \<Rightarrow> panic + bool list" where
  "block_leaders c =
     (if code c = [] then Inl IndexOutOfBounds
      else mark_leaders c (enumerate_from 0 (code c)) ((replicate (length (code c)) False)[0 := True]))"

definition block_starts :: "bool list \<Rightarrow> nat list" where
  "block_starts leaders = map fst (filter snd (enumerate_from 0 leaders))"

text \<open>The end of a block: the start of the next one, or the end of the code.\<close>

definition block_end :: "nat \<Rightarrow> nat list \<Rightarrow> nat \<Rightarrow> nat" where
  "block_end n starts block =
     (case list_get starts (block + 1) of Some start \<Rightarrow> start | None \<Rightarrow> n)"

definition fill_range :: "'a list \<Rightarrow> nat \<Rightarrow> nat \<Rightarrow> 'a \<Rightarrow> panic + 'a list" where
  "fill_range xs first limit x =
     (if first \<le> limit \<and> limit \<le> length xs
      then Inr (take first xs @ replicate (limit - first) x @ drop limit xs)
      else Inl IndexOutOfBounds)"

fun fill_blocks :: "nat \<Rightarrow> nat list \<Rightarrow> (nat \<times> nat) list \<Rightarrow> nat list \<Rightarrow> panic + nat list" where
  "fill_blocks n starts [] blocks = Inr blocks"
| "fill_blocks n starts ((block, start) # rest) blocks =
     result_bind (fill_range blocks start (block_end n starts block) block)
       (fill_blocks n starts rest)"

section \<open>Edges between blocks\<close>

type_synonym block_edges = "nat list list \<times> nat list list"

definition push_at :: "nat \<Rightarrow> 'a \<Rightarrow> 'a list list \<Rightarrow> panic + 'a list list" where
  "push_at i x xs = (if i < length xs then Inr (xs[i := xs ! i @ [x]]) else Inl IndexOutOfBounds)"

fun connect_edges :: "nat \<Rightarrow> nat list \<Rightarrow> nat \<Rightarrow> nat list \<Rightarrow> block_edges \<Rightarrow> panic + block_edges" where
  "connect_edges n blocks block [] g = Inr g"
| "connect_edges n blocks block (edge # edges) (outgoing, incoming) =
     (if n \<le> edge then connect_edges n blocks block edges (outgoing, incoming)
      else result_bind (index_of blocks edge) (\<lambda>target.
        result_bind (index_of outgoing block) (\<lambda>known.
          if target \<in> set known then connect_edges n blocks block edges (outgoing, incoming)
          else result_bind (push_at block target outgoing) (\<lambda>outgoing.
            result_bind (push_at target block incoming) (\<lambda>incoming.
              connect_edges n blocks block edges (outgoing, incoming))))))"

fun connect_blocks ::
  "chunk \<Rightarrow> nat list \<Rightarrow> nat list \<Rightarrow> nat list \<Rightarrow> block_edges \<Rightarrow> panic + block_edges" where
  "connect_blocks c starts blocks [] g = Inr g"
| "connect_blocks c starts blocks (block # rest) g =
     (let limit = block_end (length (code c)) starts block
      in if limit = 0 then Inl IndexOutOfBounds
         else result_bind (successors c (limit - 1)) (\<lambda>edges.
           result_bind (connect_edges (length (code c)) blocks block edges g)
             (connect_blocks c starts blocks rest)))"

section \<open>Reverse postorder\<close>

text \<open>
  The work list of the depth-first search is a stack, its top first; an entry whose flag is set is
  the exit of its block.
\<close>

fun unvisited_blocks :: "bool list \<Rightarrow> nat list \<Rightarrow> panic + nat list" where
  "unvisited_blocks visited [] = Inr []"
| "unvisited_blocks visited (b # bs) =
     result_bind (index_of visited b) (\<lambda>seen.
       result_map (\<lambda>bs. if seen then bs else b # bs) (unvisited_blocks visited bs))"

function block_postorder ::
  "nat list list \<Rightarrow> bool list \<Rightarrow> nat list \<Rightarrow> (nat \<times> bool) list \<Rightarrow> panic + nat list" where
  "block_postorder outgoing visited postorder [] = Inr postorder"
| "block_postorder outgoing visited postorder ((block, exiting) # work) =
     (if exiting then block_postorder outgoing visited (postorder @ [block]) work
      else if length visited \<le> block then Inl IndexOutOfBounds
      else if visited ! block then block_postorder outgoing visited postorder work
      else if length outgoing \<le> block then Inl IndexOutOfBounds
      else case unvisited_blocks (visited[block := True]) (outgoing ! block) of
        Inl p \<Rightarrow> Inl p
      | Inr pushed \<Rightarrow>
          block_postorder outgoing (visited[block := True]) postorder
            (map (\<lambda>b. (b, False)) pushed @ (block, True) # work))"
  by pat_completeness auto

termination block_postorder
  by (relation "measures [\<lambda>(_, visited, _, _). length (filter Not visited),
      \<lambda>(_, _, _, work). length work]")
    (auto simp: not_le intro: filter_update_less)

definition USIZE_MAX :: nat where
  "USIZE_MAX = 2 ^ 64 - 1"

fun assign_ranks :: "(nat \<times> nat) list \<Rightarrow> nat list \<Rightarrow> panic + nat list" where
  "assign_ranks [] rank = Inr rank"
| "assign_ranks ((position, block) # rest) rank =
     (if block < length rank then assign_ranks rest (rank[block := position]) else Inl IndexOutOfBounds)"

section \<open>Immediate dominators\<close>

text \<open>
  The inner loops of \<^verbatim>\<open>intersect_dominators\<close> climb one side while its rank is greater than that of the
  other. None of the loops below has a bound in the source, so not returning is the value \<open>None\<close>.
\<close>

partial_function (option) climb ::
  "nat option list \<Rightarrow> nat list \<Rightarrow> nat \<Rightarrow> nat \<Rightarrow> (panic + nat) option" where
  "climb immediate rank bound block =
     (case list_get rank block of
        None \<Rightarrow> Some (Inl IndexOutOfBounds)
      | Some r \<Rightarrow>
          if r > bound then
            (case list_get immediate block of
               None \<Rightarrow> Some (Inl IndexOutOfBounds)
             | Some None \<Rightarrow> Some (Inl RankedBlockWithoutDominator)
             | Some (Some parent) \<Rightarrow> climb immediate rank bound parent)
          else Some (Inr block))"

partial_function (option) intersect_dominators ::
  "nat option list \<Rightarrow> nat list \<Rightarrow> nat \<Rightarrow> nat \<Rightarrow> (panic + nat) option" where
  "intersect_dominators immediate rank left right =
     (if left = right then Some (Inr left)
      else case list_get rank right of
        None \<Rightarrow> Some (Inl IndexOutOfBounds)
      | Some r \<Rightarrow>
          (case climb immediate rank r left of
             None \<Rightarrow> None
           | Some (Inl p) \<Rightarrow> Some (Inl p)
           | Some (Inr left) \<Rightarrow>
               (case list_get rank left of
                  None \<Rightarrow> Some (Inl IndexOutOfBounds)
                | Some l \<Rightarrow>
                    (case climb immediate rank l right of
                       None \<Rightarrow> None
                     | Some (Inl p) \<Rightarrow> Some (Inl p)
                     | Some (Inr right) \<Rightarrow> intersect_dominators immediate rank left right))))"

fun fold_intersect ::
  "nat option list \<Rightarrow> nat list \<Rightarrow> nat \<Rightarrow> nat list \<Rightarrow> (panic + nat) option" where
  "fold_intersect immediate rank dominator [] = Some (Inr dominator)"
| "fold_intersect immediate rank dominator (predecessor # rest) =
     (case intersect_dominators immediate rank dominator predecessor of
        None \<Rightarrow> None
      | Some (Inl p) \<Rightarrow> Some (Inl p)
      | Some (Inr dominator) \<Rightarrow> fold_intersect immediate rank dominator rest)"

fun ranked_blocks :: "nat option list \<Rightarrow> nat list \<Rightarrow> panic + nat list" where
  "ranked_blocks immediate [] = Inr []"
| "ranked_blocks immediate (b # bs) =
     result_bind (index_of immediate b) (\<lambda>d.
       result_map (\<lambda>bs. if d = None then bs else b # bs) (ranked_blocks immediate bs))"

fun dominator_pass ::
  "nat list list \<Rightarrow> nat list \<Rightarrow> nat list \<Rightarrow> nat option list \<times> bool \<Rightarrow>
     (panic + nat option list \<times> bool) option" where
  "dominator_pass incoming rank [] s = Some (Inr s)"
| "dominator_pass incoming rank (block # rest) (immediate, changed) =
     (case result_bind (index_of incoming block) (ranked_blocks immediate) of
        Inl p \<Rightarrow> Some (Inl p)
      | Inr [] \<Rightarrow> dominator_pass incoming rank rest (immediate, changed)
      | Inr (first # predecessors) \<Rightarrow>
          (case fold_intersect immediate rank first predecessors of
             None \<Rightarrow> None
           | Some (Inl p) \<Rightarrow> Some (Inl p)
           | Some (Inr dominator) \<Rightarrow>
               (case list_get immediate block of
                  None \<Rightarrow> Some (Inl IndexOutOfBounds)
                | Some d \<Rightarrow>
                    if d \<noteq> Some dominator
                    then dominator_pass incoming rank rest (immediate[block := Some dominator], True)
                    else dominator_pass incoming rank rest (immediate, changed))))"

partial_function (option) dominator_loop ::
  "nat list list \<Rightarrow> nat list \<Rightarrow> nat list \<Rightarrow> nat option list \<Rightarrow> (panic + nat option list) option" where
  "dominator_loop incoming rank order immediate =
     (case dominator_pass incoming rank (drop 1 order) (immediate, False) of
        None \<Rightarrow> None
      | Some (Inl p) \<Rightarrow> Some (Inl p)
      | Some (Inr (immediate, changed)) \<Rightarrow>
          if changed then dominator_loop incoming rank order immediate else Some (Inr immediate))"

record dominators =
  block_of :: "nat list"
  immediate_of :: "nat option list"

text \<open>The block structure: the block of every instruction, the edges both ways and the order.\<close>

record block_graph =
  graph_blocks :: "nat list"
  graph_incoming :: "nat list list"
  graph_order :: "nat list"
  graph_rank :: "nat list"

definition block_graph_of :: "chunk \<Rightarrow> panic + block_graph" where
  "block_graph_of c =
     result_bind (block_leaders c) (\<lambda>leaders.
       let starts = block_starts leaders in
       result_bind (fill_blocks (length (code c)) starts (enumerate_from 0 starts)
           (replicate (length (code c)) 0)) (\<lambda>blocks.
       result_bind (connect_blocks c starts blocks [0..<length starts]
           (replicate (length starts) [], replicate (length starts) [])) (\<lambda>(outgoing, incoming).
       result_bind (block_postorder outgoing (replicate (length starts) False) [] [(0, False)]) (\<lambda>postorder.
         let order = rev postorder in
         result_map (\<lambda>rank. \<lparr>graph_blocks = blocks, graph_incoming = incoming, graph_order = order,
             graph_rank = rank\<rparr>)
           (assign_ranks (enumerate_from 0 order) (replicate (length starts) USIZE_MAX))))))"

definition dominators_new :: "chunk \<Rightarrow> (panic + dominators) option" where
  "dominators_new c =
     (case block_graph_of c of
        Inl p \<Rightarrow> Some (Inl p)
      | Inr g \<Rightarrow>
          map_option (result_map (\<lambda>immediate. \<lparr>block_of = graph_blocks g, immediate_of = immediate\<rparr>))
            (dominator_loop (graph_incoming g) (graph_rank g) (graph_order g)
               ((replicate (length (graph_rank g)) None)[0 := Some 0])))"

definition is_reachable :: "dominators \<Rightarrow> nat \<Rightarrow> panic + bool" where
  "is_reachable d instruction =
     result_bind (index_of (block_of d) instruction) (\<lambda>block.
       result_map (\<lambda>i. i \<noteq> None) (index_of (immediate_of d) block))"

partial_function (option) climb_to ::
  "nat option list \<Rightarrow> nat \<Rightarrow> nat \<Rightarrow> (panic + bool) option" where
  "climb_to immediate candidate_block target_block =
     (case list_get immediate target_block of
        None \<Rightarrow> Some (Inl IndexOutOfBounds)
      | Some None \<Rightarrow> Some (Inr False)
      | Some (Some parent) \<Rightarrow>
          if parent = target_block then Some (Inr False)
          else if parent = candidate_block then Some (Inr True)
          else climb_to immediate candidate_block parent)"

definition dominates :: "dominators \<Rightarrow> nat \<Rightarrow> nat \<Rightarrow> (panic + bool) option" where
  "dominates d candidate target =
     (case result_bind (index_of (block_of d) candidate) (\<lambda>b.
        result_map (Pair b) (index_of (block_of d) target)) of
        Inl p \<Rightarrow> Some (Inl p)
      | Inr (candidate_block, target_block) \<Rightarrow>
          if candidate_block = target_block then Some (Inr (candidate \<le> target))
          else climb_to (immediate_of d) candidate_block target_block)"

section \<open>Domination in a graph\<close>

text \<open>
  \<open>avoid_set E d n\<close> are the nodes a path of at most \<open>n\<close> edges reaches from the entry \<open>0\<close> without
  touching \<open>d\<close>; a node is dominated by \<open>d\<close> when no such path reaches it.
\<close>

primrec avoid_set :: "(nat \<times> nat) set \<Rightarrow> nat \<Rightarrow> nat \<Rightarrow> nat set" where
  "avoid_set E d 0 = {0} - {d}"
| "avoid_set E d (Suc n) = avoid_set E d n \<union> (E `` avoid_set E d n - {d})"

definition avoids :: "(nat \<times> nat) set \<Rightarrow> nat \<Rightarrow> nat \<Rightarrow> bool" where
  "avoids E d b \<longleftrightarrow> (\<exists>n. b \<in> avoid_set E d n)"

lemma avoid_set_mono: "m \<le> n \<Longrightarrow> avoid_set E d m \<subseteq> avoid_set E d n"
  by (rule lift_Suc_mono_le [of "avoid_set E d"]) auto

lemma avoid_set_self [simp]: "d \<notin> avoid_set E d n"
  by (induction n) auto

lemma avoid_set_last:
  assumes "b \<in> avoid_set E d (Suc n)" "b \<noteq> 0"
  shows "\<exists>p\<in>avoid_set E d n. (p, b) \<in> E"
  using assms(1)
proof (induction n)
  case (Suc n)
  then show ?case using avoid_set_mono [of n "Suc n" E d] by auto
qed (use assms(2) in auto)

text \<open>A path that avoids \<open>d\<close> and meets \<open>y\<close> shows that \<open>y\<close> can be reached without \<open>d\<close>.\<close>

lemma avoid_set_through:
  assumes "b \<in> avoid_set E d n" "b \<notin> avoid_set E y n"
  shows "y \<in> avoid_set E d n"
  using assms by (induction n arbitrary: b) auto

lemma avoids_0 [simp]: "avoids E d 0 \<longleftrightarrow> d \<noteq> 0"
proof
  assume "d \<noteq> 0"
  then have "0 \<in> avoid_set E d 0" by simp
  then show "avoids E d 0" unfolding avoids_def by blast
next
  assume "avoids E d 0"
  then show "d \<noteq> 0" by (metis avoid_set_self avoids_def)
qed

lemma avoids_self [simp]: "\<not> avoids E d d"
  by (simp add: avoids_def)

lemma avoids_step: "avoids E d a \<Longrightarrow> (a, b) \<in> E \<Longrightarrow> b \<noteq> d \<Longrightarrow> avoids E d b"
proof -
  assume *: "avoids E d a" "(a, b) \<in> E" "b \<noteq> d"
  then obtain n where "a \<in> avoid_set E d n" unfolding avoids_def by blast
  with * have "b \<in> avoid_set E d (Suc n)" by auto
  then show ?thesis unfolding avoids_def by blast
qed

lemma avoids_star:
  assumes "(a, b) \<in> {(u, v). (u, v) \<in> E \<and> v \<noteq> d}\<^sup>*" "avoids E d a"
  shows "avoids E d b"
  using assms by (induction rule: rtrancl_induct) (auto intro: avoids_step)

section \<open>The iteration over immediate dominators\<close>

text \<open>
  What the block structure provides: an order of the blocks a path can reach with the entry first,
  the position of each as its rank, the incoming edges, and for every block but the entry an edge
  from a block of smaller rank.
\<close>

definition ranked_graph ::
  "(nat \<times> nat) set \<Rightarrow> nat list list \<Rightarrow> nat list \<Rightarrow> nat list \<Rightarrow> bool" where
  "ranked_graph E incoming order rank \<longleftrightarrow>
     length incoming = length rank \<and> distinct order \<and> set order \<subseteq> {..<length rank} \<and>
     order \<noteq> [] \<and> hd order = 0 \<and> (\<forall>i<length order. rank ! (order ! i) = i) \<and>
     (\<forall>b\<in>set order. E `` {b} \<subseteq> set order) \<and>
     (\<forall>b<length rank. set (incoming ! b) = {a. (a, b) \<in> E} \<and> set (incoming ! b) \<subseteq> {..<length rank}) \<and>
     (\<forall>b\<in>set order. b \<noteq> 0 \<longrightarrow> (\<exists>p\<in>set order. (p, b) \<in> E \<and> rank ! p < rank ! b))"

text \<open>The parent relation of the tree under construction, and the chain from a block to the entry.\<close>

definition parent_rel :: "nat option list \<Rightarrow> (nat \<times> nat) set" where
  "parent_rel im = {(b, a). b < length im \<and> im ! b = Some a}"

definition tree_chain :: "nat option list \<Rightarrow> nat \<Rightarrow> nat set" where
  "tree_chain im b = (parent_rel im)\<^sup>* `` {b}"

text \<open>The edges that lead to a rank above a bound.\<close>

definition edges_above :: "(nat \<times> nat) set \<Rightarrow> nat list \<Rightarrow> nat \<Rightarrow> (nat \<times> nat) set" where
  "edges_above E rank k = {(u, v). (u, v) \<in> E \<and> k < rank ! v}"

text \<open>
  The invariant of the iteration: parents have smaller ranks, a parent reaches its child through
  greater ranks only, and every dominator of a block is on its chain.
\<close>

definition tree_inv ::
  "(nat \<times> nat) set \<Rightarrow> nat list \<Rightarrow> nat list \<Rightarrow> nat option list \<Rightarrow> bool" where
  "tree_inv E order rank im \<longleftrightarrow>
     length im = length rank \<and> im ! 0 = Some 0 \<and>
     (\<forall>b a. b < length rank \<longrightarrow> im ! b = Some a \<longrightarrow>
        b \<in> set order \<and> a \<in> set order \<and> im ! a \<noteq> None \<and> (b \<noteq> 0 \<longrightarrow> rank ! a < rank ! b) \<and>
        (a, b) \<in> (edges_above E rank (rank ! a))\<^sup>*) \<and>
     (\<forall>b d. b < length rank \<longrightarrow> im ! b \<noteq> None \<longrightarrow> \<not> avoids E d b \<longrightarrow> d \<in> tree_chain im b)"

text \<open>The progress after a number of passes: a chain only holds nodes that short paths cannot avoid.\<close>

definition tree_progress ::
  "(nat \<times> nat) set \<Rightarrow> nat option list \<Rightarrow> (nat \<Rightarrow> nat) \<Rightarrow> bool" where
  "tree_progress E im k \<longleftrightarrow>
     (\<forall>b d. b < length im \<longrightarrow> im ! b \<noteq> None \<longrightarrow> d \<in> tree_chain im b \<longrightarrow> b \<notin> avoid_set E d (k b))"

lemma chain_self [simp]: "b \<in> tree_chain im b"
  by (simp add: tree_chain_def)

lemma chain_trans: "a \<in> tree_chain im b \<Longrightarrow> d \<in> tree_chain im a \<Longrightarrow> d \<in> tree_chain im b"
  by (auto simp: tree_chain_def)

lemma chain_parent:
  assumes "b < length im" "im ! b = Some a"
  shows "tree_chain im b = insert b (tree_chain im a)"
proof -
  have step: "(b, x) \<in> parent_rel im \<longleftrightarrow> x = a" for x
    using assms by (auto simp: parent_rel_def)
  have "(parent_rel im)\<^sup>* `` {b} = insert b ((parent_rel im)\<^sup>* `` (parent_rel im `` {b}))"
    by (blast elim: converse_rtranclE intro: converse_rtrancl_into_rtrancl)
  moreover have "parent_rel im `` {b} = {a}" using step by blast
  ultimately show ?thesis by (simp add: tree_chain_def)
qed

lemma chain_induct [consumes 1, case_names self parent]:
  assumes mem: "d \<in> tree_chain im b" and self: "P b"
    and parent: "\<And>a a'. a \<in> tree_chain im b \<Longrightarrow> P a \<Longrightarrow> a < length im \<Longrightarrow> im ! a = Some a' \<Longrightarrow> P a'"
  shows "P d"
proof -
  have "(b, d) \<in> (parent_rel im)\<^sup>*" using mem by (simp add: tree_chain_def)
  then show ?thesis
  proof (induction rule: rtrancl_induct)
    case (step a a')
    then show ?case using parent [of a a'] by (simp add: tree_chain_def parent_rel_def)
  qed (rule self)
qed

lemma chain_update:
  assumes "d \<in> tree_chain (im[y := v]) x"
  shows "d \<in> tree_chain im x \<or> y \<in> tree_chain im x \<and> d \<in> tree_chain (im[y := v]) y"
  using assms
proof (induction rule: chain_induct)
  case (parent a a')
  show ?case
  proof (cases "a = y")
    case True
    with parent have "a' \<in> tree_chain (im[y := v]) y" by (auto simp: chain_parent)
    with True parent.IH show ?thesis by auto
  next
    case False
    with parent have "(a, a') \<in> parent_rel im" "(a, a') \<in> parent_rel (im[y := v])"
      by (auto simp: parent_rel_def)
    with parent.IH show ?thesis by (auto simp: tree_chain_def intro: rtrancl_into_rtrancl)
  qed
qed simp

lemma chain_update_rev:
  assumes "d \<in> tree_chain im x" "y < length im"
  shows "d \<in> tree_chain (im[y := v]) x \<or> y \<in> tree_chain (im[y := v]) x \<and> d \<in> tree_chain im y"
  using chain_update [of d "im[y := v]" y "im ! y" x] assms by simp

lemma chain_update_other:
  assumes "y \<notin> tree_chain im x" "y < length im"
  shows "tree_chain (im[y := v]) x = tree_chain im x"
  using assms chain_update [of _ im y v x] chain_update_rev [of _ im x y v] by blast

lemma ranked_graphD:
  assumes "ranked_graph E incoming order rank"
  shows "length incoming = length rank" "distinct order" "set order \<subseteq> {..<length rank}"
    "0 \<in> set order" "rank ! 0 = 0"
    "a \<in> set order \<Longrightarrow> (a, b) \<in> E \<Longrightarrow> b \<in> set order"
    "b < length rank \<Longrightarrow> set (incoming ! b) = {a. (a, b) \<in> E}"
    "b < length rank \<Longrightarrow> set (incoming ! b) \<subseteq> {..<length rank}"
    "b \<in> set order \<Longrightarrow> b \<noteq> 0 \<Longrightarrow> \<exists>p\<in>set order. (p, b) \<in> E \<and> rank ! p < rank ! b"
    "a \<in> set order \<Longrightarrow> b \<in> set order \<Longrightarrow> rank ! a = rank ! b \<Longrightarrow> a = b"
proof -
  note * = assms [unfolded ranked_graph_def]
  have hd: "order ! 0 = 0" "order \<noteq> []" using * by (auto simp: hd_conv_nth)
  then show "0 \<in> set order" by (metis length_greater_0_conv nth_mem)
  from hd * show "rank ! 0 = 0" by (metis length_greater_0_conv)
  show "a \<in> set order \<Longrightarrow> b \<in> set order \<Longrightarrow> rank ! a = rank ! b \<Longrightarrow> a = b"
    using * by (auto simp: in_set_conv_nth)
qed (use assms [unfolded ranked_graph_def] in blast)+

lemma tree_invD:
  assumes "tree_inv E order rank im"
  shows "length im = length rank" "im ! 0 = Some 0"
    "b < length rank \<Longrightarrow> im ! b = Some a \<Longrightarrow> b \<in> set order"
    "b < length rank \<Longrightarrow> im ! b = Some a \<Longrightarrow> a \<in> set order"
    "b < length rank \<Longrightarrow> im ! b = Some a \<Longrightarrow> im ! a \<noteq> None"
    "b < length rank \<Longrightarrow> im ! b = Some a \<Longrightarrow> b \<noteq> 0 \<Longrightarrow> rank ! a < rank ! b"
    "b < length rank \<Longrightarrow> im ! b = Some a \<Longrightarrow> (a, b) \<in> (edges_above E rank (rank ! a))\<^sup>*"
    "b < length rank \<Longrightarrow> im ! b \<noteq> None \<Longrightarrow> \<not> avoids E d b \<Longrightarrow> d \<in> tree_chain im b"
  using assms unfolding tree_inv_def by blast+

lemma edges_above_mono: "k \<le> l \<Longrightarrow> (edges_above E rank l)\<^sup>* \<subseteq> (edges_above E rank k)\<^sup>*"
  by (rule rtrancl_mono) (auto simp: edges_above_def)

text \<open>Along a chain everything is in the order and in the tree, and ranks fall.\<close>

lemma chain_in_tree:
  assumes "ranked_graph E incoming order rank" "tree_inv E order rank im"
    and "b < length rank" "im ! b \<noteq> None" "d \<in> tree_chain im b"
  shows "d \<in> set order" "im ! d \<noteq> None" "d = b \<or> rank ! d < rank ! b"
    "(d, b) \<in> (edges_above E rank (rank ! d))\<^sup>*"
proof -
  note G = ranked_graphD [OF assms(1)] and I = tree_invD [OF assms(2)]
  have b: "b \<in> set order" using I(3) assms(3,4) by blast
  have "d \<in> set order \<and> im ! d \<noteq> None \<and> (d = b \<or> rank ! d < rank ! b) \<and>
      (d, b) \<in> (edges_above E rank (rank ! d))\<^sup>*"
    using assms(5)
  proof (induction rule: chain_induct)
    case (parent a a')
    then have a: "a < length rank" using I(1) by simp
    have le: "rank ! a' \<le> rank ! a"
      using I(6) [OF a parent(3)] I(2) parent(3) by (cases "a = 0") auto
    have "(a', b) \<in> (edges_above E rank (rank ! a'))\<^sup>*"
      using I(7) [OF a parent(3)] edges_above_mono [OF le, of E rank] parent.IH by (meson rtrancl_trans subsetD)
    moreover have "a' = b \<or> rank ! a' < rank ! b"
      using I(6) [OF a parent(3)] I(2) parent(3) parent.IH by (cases "a = 0") auto
    ultimately show ?case using I(4,5) [OF a parent(3)] by blast
  qed (use b assms(4) in simp)
  then show "d \<in> set order" "im ! d \<noteq> None" "d = b \<or> rank ! d < rank ! b"
    "(d, b) \<in> (edges_above E rank (rank ! d))\<^sup>*" by blast+
qed

lemma chain_0:
  assumes "ranked_graph E incoming order rank" "tree_inv E order rank im"
  shows "tree_chain im 0 = {0}"
proof -
  have "0 < length rank" using ranked_graphD(3,4) [OF assms(1)] by auto
  then have "d = 0" if "d \<in> tree_chain im 0" for d
    using chain_in_tree(3) [OF assms _ _ that] ranked_graphD(5) [OF assms(1)] tree_invD(2) [OF assms(2)]
    by auto
  then show ?thesis by auto
qed

text \<open>Meeting of two chains.\<close>

lemma climb_meets:
  assumes "ranked_graph E incoming order rank" "tree_inv E order rank im"
    and "b < length rank" "im ! b \<noteq> None" "\<And>x. x \<in> M \<Longrightarrow> rank ! x \<le> bound"
  shows "\<exists>b'. climb im rank bound b = Some (Inr b') \<and> b' \<in> tree_chain im b \<and> rank ! b' \<le> bound \<and>
    tree_chain im b \<inter> M = tree_chain im b' \<inter> M"
  using assms(3,4)
proof (induction "rank ! b" arbitrary: b rule: less_induct)
  case less
  note I = tree_invD [OF assms(2)] and G = ranked_graphD [OF assms(1)]
  show ?case
  proof (cases "bound < rank ! b")
    case True
    obtain a where a: "im ! b = Some a" using less.prems by auto
    have "b \<noteq> 0" using True G(5) by (cases b) auto
    then have lt: "rank ! a < rank ! b" using I(6) less.prems(1) a by blast
    have "a < length rank" using I(4) [OF less.prems(1) a] G(3) by auto
    from less.hyps [OF lt this I(5) [OF less.prems(1) a]]
    obtain b' where b': "climb im rank bound a = Some (Inr b')" "b' \<in> tree_chain im a" "rank ! b' \<le> bound"
      "tree_chain im a \<inter> M = tree_chain im b' \<inter> M" by blast
    have ch: "tree_chain im b = insert b (tree_chain im a)" using chain_parent a less.prems(1) I(1) by simp
    have "climb im rank bound b = climb im rank bound a"
      using True a less.prems(1) I(1) by (subst climb.simps) (simp add: list_get_def)
    moreover have "b \<notin> M" using True assms(5) by force
    ultimately show ?thesis using b' ch by auto
  next
    case False
    then have "climb im rank bound b = Some (Inr b)"
      using less.prems(1) by (subst climb.simps) (simp add: list_get_def)
    with False show ?thesis by auto
  qed
qed

lemma intersect_meets:
  assumes "ranked_graph E incoming order rank" "tree_inv E order rank im"
    and "l < length rank" "im ! l \<noteq> None" "r < length rank" "im ! r \<noteq> None"
  shows "\<exists>n. intersect_dominators im rank l r = Some (Inr n) \<and> tree_chain im n = tree_chain im l \<inter> tree_chain im r"
  using assms(3-6)
proof (induction "rank ! l + rank ! r" arbitrary: l r rule: less_induct)
  case less
  note chain = chain_in_tree [OF assms(1,2)] and G = ranked_graphD [OF assms(1)]
  show ?case
  proof (cases "l = r")
    case True
    then show ?thesis by (subst intersect_dominators.simps) simp
  next
    case False
    obtain l' where l': "climb im rank (rank ! r) l = Some (Inr l')" "l' \<in> tree_chain im l"
      "rank ! l' \<le> rank ! r" "tree_chain im l \<inter> tree_chain im r = tree_chain im l' \<inter> tree_chain im r"
      using climb_meets [OF assms(1,2) less.prems(1,2), of "tree_chain im r" "rank ! r"]
        chain(3) [OF less.prems(3,4)] by fastforce
    have L: "l' < length rank" "im ! l' \<noteq> None" "l' = l \<or> rank ! l' < rank ! l" "l' \<in> set order"
      using chain(1-3) [OF less.prems(1,2) l'(2)] G(3) by auto
    obtain r' where r': "climb im rank (rank ! l') r = Some (Inr r')" "r' \<in> tree_chain im r"
      "rank ! r' \<le> rank ! l'" "tree_chain im r \<inter> tree_chain im l' = tree_chain im r' \<inter> tree_chain im l'"
      using climb_meets [OF assms(1,2) less.prems(3,4), of "tree_chain im l'" "rank ! l'"]
        chain(3) [OF L(1,2)] by fastforce
    have R: "r' < length rank" "im ! r' \<noteq> None" "r' = r \<or> rank ! r' < rank ! r" "r' \<in> set order"
      using chain(1-3) [OF less.prems(3,4) r'(2)] G(3) by auto
    have "\<not> (l' = l \<and> r' = r)" using False l'(3) r'(3) L(4) R(4) G(10) by (metis le_antisym)
    then have "rank ! l' + rank ! r' < rank ! l + rank ! r" using L(3) R(3) by auto
    from less.hyps [OF this L(1,2) R(1,2)]
    obtain n where n: "intersect_dominators im rank l' r' = Some (Inr n)"
      "tree_chain im n = tree_chain im l' \<inter> tree_chain im r'" by blast
    have "intersect_dominators im rank l r = intersect_dominators im rank l' r'"
      using False l'(1) r'(1) less.prems L(1)
      by (subst intersect_dominators.simps) (simp add: list_get_def)
    with n l'(4) r'(4) show ?thesis by auto
  qed
qed

lemma fold_intersect_meets:
  assumes "ranked_graph E incoming order rank" "tree_inv E order rank im"
    and "d < length rank" "im ! d \<noteq> None" "\<And>p. p \<in> set ps \<Longrightarrow> p < length rank \<and> im ! p \<noteq> None"
  shows "\<exists>n. fold_intersect im rank d ps = Some (Inr n) \<and> tree_chain im n = (\<Inter>p\<in>insert d (set ps). tree_chain im p)"
  using assms(3-5)
proof (induction ps arbitrary: d)
  case (Cons p ps)
  then obtain n where n: "intersect_dominators im rank d p = Some (Inr n)"
    "tree_chain im n = tree_chain im d \<inter> tree_chain im p"
    using intersect_meets [OF assms(1,2), of d p] by auto
  have "n \<in> tree_chain im d" using n(2) chain_self by blast
  then have "n < length rank" "im ! n \<noteq> None"
    using chain_in_tree(1,2) [OF assms(1,2) Cons.prems(1,2)] ranked_graphD(3) [OF assms(1)] by auto
  from Cons.IH [OF this Cons.prems(3)] n show ?case by auto
qed auto

lemma ranked_blocks_filter:
  "set bs \<subseteq> {..<length im} \<Longrightarrow> ranked_blocks im bs = Inr (filter (\<lambda>b. im ! b \<noteq> None) bs)"
  by (induction bs) (auto simp: index_of_def)

text \<open>
  One update of the tree. \<open>n\<close> is where the chains of the predecessors that are in the tree meet, one
  of which has a smaller rank.
\<close>

definition meets_at ::
  "(nat \<times> nat) set \<Rightarrow> nat option list \<Rightarrow> nat \<Rightarrow> nat \<Rightarrow> bool" where
  "meets_at E im y n \<longleftrightarrow> tree_chain im n = (\<Inter>p\<in>{p. (p, y) \<in> E \<and> p < length im \<and> im ! p \<noteq> None}. tree_chain im p)"

lemma meets_at_chain:
  assumes "meets_at E im y n" "(p, y) \<in> E" "p < length im" "im ! p \<noteq> None"
  shows "tree_chain im n \<subseteq> tree_chain im p" "n \<in> tree_chain im p"
proof -
  show "tree_chain im n \<subseteq> tree_chain im p" using assms by (auto simp: meets_at_def)
  then show "n \<in> tree_chain im p" by auto
qed

lemma updated_chain:
  assumes G: "ranked_graph E incoming order rank" and I: "tree_inv E order rank im"
    and y: "y \<in> set order" "y \<noteq> 0" and n: "meets_at E im y n"
    and p: "(p, y) \<in> E" "p \<in> set order" "rank ! p < rank ! y" "im ! p \<noteq> None"
  shows "n \<in> set order" "im ! n \<noteq> None" "rank ! n < rank ! y" "tree_chain (im[y := Some n]) y = insert y (tree_chain im n)"
    "(n, y) \<in> (edges_above E rank (rank ! n))\<^sup>*"
proof -
  note len = tree_invD(1) [OF I] and sub = ranked_graphD(3) [OF G]
  have pl: "p < length im" using p(2) sub len by auto
  have np: "n \<in> tree_chain im p" using meets_at_chain(2) [OF n p(1) pl p(4)] .
  note T = chain_in_tree [OF G I pl [unfolded len] p(4) np]
  show n: "n \<in> set order" "im ! n \<noteq> None" "rank ! n < rank ! y" using T p(3) by auto
  then have nl: "n < length rank" using sub by auto
  have "y \<notin> tree_chain im n" using chain_in_tree(3) [OF G I nl n(2)] n(3) by force
  then have "tree_chain (im[y := Some n]) n = tree_chain im n"
    using chain_update_other sub y(1) len by auto
  then show "tree_chain (im[y := Some n]) y = insert y (tree_chain im n)"
    using chain_parent [of y "im[y := Some n]" n] y(1) sub len by auto
  have "(p, y) \<in> edges_above E rank (rank ! n)" using p(1) n(3) by (simp add: edges_above_def)
  with T(4) show "(n, y) \<in> (edges_above E rank (rank ! n))\<^sup>*" by (rule rtrancl_into_rtrancl)
qed

lemma updated_dominator:
  assumes G: "ranked_graph E incoming order rank" and I: "tree_inv E order rank im"
    and y: "y \<in> set order" "y \<noteq> 0" and n: "meets_at E im y n"
    and p: "(p, y) \<in> E" "p \<in> set order" "rank ! p < rank ! y" "im ! p \<noteq> None"
    and d: "\<not> avoids E d y"
  shows "d \<in> tree_chain (im[y := Some n]) y"
proof (cases "d = y")
  case False
  have "d \<in> tree_chain im q" if "(q, y) \<in> E" "q < length im" "im ! q \<noteq> None" for q
  proof -
    have "\<not> avoids E d q" using avoids_step [of E d q y] that(1) d False by blast
    then show ?thesis using tree_invD(1,8) [OF I] that by simp
  qed
  then have "d \<in> tree_chain im n" using n by (auto simp: meets_at_def)
  then show ?thesis using updated_chain(4) [OF G I y n p] by simp
qed simp

lemma tree_inv_update:
  assumes G: "ranked_graph E incoming order rank" and I: "tree_inv E order rank im"
    and y: "y \<in> set order" "y \<noteq> 0" and n: "meets_at E im y n"
    and p: "(p, y) \<in> E" "p \<in> set order" "rank ! p < rank ! y" "im ! p \<noteq> None"
  shows "tree_inv E order rank (im[y := Some n])"
proof -
  note len = tree_invD(1) [OF I] and sub = ranked_graphD(3) [OF G]
  note U = updated_chain [OF G I y n p]
  have "d \<in> tree_chain (im[y := Some n]) x"
    if x: "x < length rank" "im[y := Some n] ! x \<noteq> None" and d: "\<not> avoids E d x" for x d
  proof (cases "x = y")
    case True
    then show ?thesis using updated_dominator [OF G I y n p] d by simp
  next
    case False
    then have ix: "im ! x \<noteq> None" using x by simp
    have "d \<in> tree_chain im x" using tree_invD(8) [OF I x(1) ix d] .
    then consider "d \<in> tree_chain (im[y := Some n]) x" | "y \<in> tree_chain (im[y := Some n]) x" "d \<in> tree_chain im y"
      using chain_update_rev [of d im x y] y(1) sub len by auto
    then show ?thesis
    proof cases
      case 2
      have yx: "y \<in> tree_chain im x" using chain_update [OF 2(1)] by blast
      note yt = chain_in_tree [OF G I x(1) ix yx]
      have "d = y \<or> rank ! d < rank ! y"
        using chain_in_tree(3) [OF G I _ yt(2) 2(2)] y(1) sub by auto
      moreover have "\<not> avoids E d y" if "rank ! d < rank ! y"
      proof
        assume "avoids E d y"
        moreover have "(y, x) \<in> {(u, v). (u, v) \<in> E \<and> v \<noteq> d}\<^sup>*"
          by (rule rtrancl_mono [THEN subsetD, OF _ yt(4)]) (use that in \<open>auto simp: edges_above_def\<close>)
        ultimately show False using avoids_star d by blast
      qed
      ultimately have "d \<in> tree_chain (im[y := Some n]) y"
        using updated_dominator [OF G I y n p, of d] by auto
      then show ?thesis using chain_trans [OF 2(1)] by blast
    qed
  qed
  then show ?thesis
    using tree_invD(1-7) [OF I] U y sub unfolding tree_inv_def
    by (auto simp: nth_list_update split: if_splits)
qed

lemma tree_progress_update:
  assumes G: "ranked_graph E incoming order rank" and I: "tree_inv E order rank im"
    and y: "y \<in> set order" "y \<noteq> 0" and n: "meets_at E im y n"
    and p: "(p, y) \<in> E" "p \<in> set order" "rank ! p < rank ! y" "im ! p \<noteq> None"
    and T: "tree_progress E im k" and k: "\<And>b. k b = m \<or> k b = Suc m" "k y = m"
    and reached: "\<And>q d. q \<in> avoid_set E d m \<Longrightarrow> (q, y) \<in> E \<Longrightarrow> q < length im \<and> im ! q \<noteq> None"
  shows "tree_progress E (im[y := Some n]) (k(y := Suc m))"
proof -
  note U = updated_chain [OF G I y n p]
  have *: "y \<notin> avoid_set E d (Suc m)" if d: "d \<in> tree_chain (im[y := Some n]) y" for d
  proof (cases "d = y")
    case False
    show ?thesis
    proof
      assume "y \<in> avoid_set E d (Suc m)"
      then obtain q where q: "q \<in> avoid_set E d m" "(q, y) \<in> E" using avoid_set_last y(2) by blast
      note r = reached [OF q]
      have "d \<in> tree_chain im q"
        using d False U(4) meets_at_chain(1) [OF n q(2)] r by auto
      then have "q \<notin> avoid_set E d (k q)" using T r by (auto simp: tree_progress_def)
      with q(1) k(1) [of q] avoid_set_mono [of m "k q" E d] show False by auto
    qed
  qed simp
  have "x \<notin> avoid_set E d (k x)"
    if x: "x \<noteq> y" "x < length im" "im ! x \<noteq> None" and d: "d \<in> tree_chain (im[y := Some n]) x" for x d
    using chain_update [OF d]
  proof
    assume "d \<in> tree_chain im x"
    then show ?thesis using T x by (auto simp: tree_progress_def)
  next
    assume yx: "y \<in> tree_chain im x \<and> d \<in> tree_chain (im[y := Some n]) y"
    then have "x \<notin> avoid_set E y (k x)" using T x by (auto simp: tree_progress_def)
    moreover have "k x \<le> Suc m" using k(1) [of x] by auto
    then have "y \<notin> avoid_set E d (k x)" using * yx avoid_set_mono by blast
    ultimately show ?thesis using avoid_set_through by blast
  qed
  with * show ?thesis by (auto simp: tree_progress_def nth_list_update split: if_splits)
qed

lemma pass_meets:
  assumes G: "ranked_graph E incoming order rank" and I: "tree_inv E order rank im"
    and y: "y \<in> set order" and p: "(p, y) \<in> E" "p \<in> set order" "im ! p \<noteq> None"
  shows "\<exists>f ps n. result_bind (index_of incoming y) (ranked_blocks im) = Inr (f # ps) \<and>
    fold_intersect im rank f ps = Some (Inr n) \<and> meets_at E im y n"
proof -
  note len = tree_invD(1) [OF I] and sub = ranked_graphD(3) [OF G]
  have yl: "y < length rank" using y sub by auto
  note inc = ranked_graphD(7) [OF G yl] ranked_graphD(8) [OF G yl] ranked_graphD(1) [OF G]
  define qs where "qs = filter (\<lambda>b. im ! b \<noteq> None) (incoming ! y)"
  have r: "result_bind (index_of incoming y) (ranked_blocks im) = Inr qs"
    using inc yl len by (simp add: index_of_def qs_def ranked_blocks_filter)
  have qs: "set qs = {p. (p, y) \<in> E \<and> p < length im \<and> im ! p \<noteq> None}"
    using inc len by (auto simp: qs_def)
  have "p \<in> set qs" using p sub len qs by auto
  then obtain f ps where fps: "qs = f # ps" by (cases qs) auto
  have "\<exists>n. fold_intersect im rank f ps = Some (Inr n) \<and> tree_chain im n = (\<Inter>p\<in>insert f (set ps). tree_chain im p)"
    by (rule fold_intersect_meets [OF G I]) (use qs len fps in auto)
  moreover have "insert f (set ps) = set qs" using fps by simp
  ultimately show ?thesis using r fps qs unfolding meets_at_def by metis
qed

lemma avoid_set_in_order:
  assumes "ranked_graph E incoming order rank"
  shows "avoid_set E d n \<subseteq> set order"
  using ranked_graphD(4,6) [OF assms] by (induction n) auto

text \<open>A pass over the rest of the order.\<close>

lemma dominator_pass_inv:
  assumes G: "ranked_graph E incoming order rank"
    and "order = pre @ ys" "pre \<noteq> []" "tree_inv E order rank im"
    "\<forall>b\<in>set pre. im ! b \<noteq> None" "0 < m \<Longrightarrow> \<forall>b\<in>set order. im ! b \<noteq> None"
    "tree_progress E im (\<lambda>b. if b \<in> set ys then m else Suc m)"
  shows "\<exists>im' changed'. dominator_pass incoming rank ys (im, changed) = Some (Inr (im', changed')) \<and>
    tree_inv E order rank im' \<and> (\<forall>b\<in>set order. im' ! b \<noteq> None) \<and> tree_progress E im' (\<lambda>_. Suc m) \<and>
    (\<forall>z. z \<notin> set ys \<longrightarrow> im' ! z = im ! z) \<and> (changed' \<longleftrightarrow> changed \<or> im' \<noteq> im)"
  using assms(2-)
proof (induction ys arbitrary: pre im changed)
  case (Cons y ys)
  note I = Cons.prems(3) and sub = ranked_graphD(3) [OF G]
  note len = tree_invD(1) [OF I]
  have dist: "distinct (pre @ y # ys)" using ranked_graphD(2) [OF G] Cons.prems(1) by simp
  have y: "y \<in> set order" using Cons.prems(1) by simp
  have hd: "hd pre = 0" using G Cons.prems(1,2) by (auto simp: ranked_graph_def)
  then have "0 \<in> set pre" using Cons.prems(2) by (metis hd_in_set)
  then have y0: "y \<noteq> 0" using dist by auto
  obtain p where p: "p \<in> set order" "(p, y) \<in> E" "rank ! p < rank ! y"
    using ranked_graphD(9) [OF G y y0] by blast
  have pos: "rank ! (order ! i) = i" if "i < length order" for i
    using G that by (auto simp: ranked_graph_def)
  obtain i where i: "i < length order" "order ! i = p" using p(1) by (auto simp: in_set_conv_nth)
  have "rank ! y = length pre" using pos [of "length pre"] Cons.prems(1) by simp
  with p(3) pos [OF i(1)] i(2) have "i < length pre" by simp
  then have "p \<in> set pre" using i(2) Cons.prems(1) by (auto simp: nth_append)
  then have pi: "im ! p \<noteq> None" using Cons.prems(4) by blast
  note P = p(2,1,3) pi
  obtain f ps n where n: "result_bind (index_of incoming y) (ranked_blocks im) = Inr (f # ps)"
    "fold_intersect im rank f ps = Some (Inr n)" "meets_at E im y n"
    using pass_meets [OF G I y p(2,1) pi] by blast
  let ?im = "im[y := Some n]" and ?k = "\<lambda>b. if b \<in> set (y # ys) then m else Suc m"
  have yl: "y < length im" using y sub len by auto
  have "tree_progress E ?im (?k(y := Suc m))"
  proof (rule tree_progress_update [OF G I y y0 n(3) P Cons.prems(6)])
    show "q < length im \<and> im ! q \<noteq> None" if "q \<in> avoid_set E d m" "(q, y) \<in> E" for q d
      using that avoid_set_in_order [OF G, of d m] sub len Cons.prems(5) tree_invD(2) [OF I]
      by (cases "m = 0") (auto split: if_splits)
  qed auto
  moreover have "?k(y := Suc m) = (\<lambda>b. if b \<in> set ys then m else Suc m)" using dist by auto
  ultimately have T: "tree_progress E ?im (\<lambda>b. if b \<in> set ys then m else Suc m)" by simp
  note I' = tree_inv_update [OF G I y y0 n(3) P]
  have "\<forall>b\<in>set (pre @ [y]). ?im ! b \<noteq> None"
    using Cons.prems(4) yl by (auto simp: nth_list_update)
  moreover have "\<forall>b\<in>set order. ?im ! b \<noteq> None" if "0 < m"
    using Cons.prems(5) that yl by (auto simp: nth_list_update)
  ultimately obtain im' changed' where im':
    "dominator_pass incoming rank ys (?im, changed \<or> im ! y \<noteq> Some n) = Some (Inr (im', changed'))"
    "tree_inv E order rank im'" "\<forall>b\<in>set order. im' ! b \<noteq> None" "tree_progress E im' (\<lambda>_. Suc m)"
    "\<forall>z. z \<notin> set ys \<longrightarrow> im' ! z = ?im ! z"
    "changed' \<longleftrightarrow> (changed \<or> im ! y \<noteq> Some n) \<or> im' \<noteq> ?im"
    using Cons.IH [of "pre @ [y]" ?im "changed \<or> im ! y \<noteq> Some n"] Cons.prems(1) I' T by auto
  have "dominator_pass incoming rank (y # ys) (im, changed) = Some (Inr (im', changed'))"
  proof (cases "im ! y = Some n")
    case True
    then have "?im = im" by (metis list_update_id)
    with True im'(1) n(1,2) yl show ?thesis by (auto simp: list_get_def)
  next
    case False
    then show ?thesis using im'(1) n(1,2) yl by (auto simp: list_get_def)
  qed
  moreover have "im' ! y = Some n" using im'(5) dist yl by simp
  then have "changed' \<longleftrightarrow> changed \<or> im' \<noteq> im" using im'(6) by (metis list_update_id)
  moreover have "\<forall>z. z \<notin> set (y # ys) \<longrightarrow> im' ! z = im ! z" using im'(5) by simp
  ultimately show ?case using im'(2-4) by blast
qed auto

text \<open>A whole pass, and the chains when short paths are all the paths there are.\<close>

definition tree_dominators :: "(nat \<times> nat) set \<Rightarrow> nat list \<Rightarrow> nat option list \<Rightarrow> bool" where
  "tree_dominators E order im \<longleftrightarrow>
     (\<forall>b<length im. im ! b \<noteq> None \<longleftrightarrow> b \<in> set order) \<and>
     (\<forall>b\<in>set order. tree_chain im b = {d. \<not> avoids E d b})"

lemma dominator_pass_full:
  assumes G: "ranked_graph E incoming order rank" and I: "tree_inv E order rank im"
    and T: "tree_progress E im (\<lambda>_. m)" and all: "0 < m \<Longrightarrow> \<forall>b\<in>set order. im ! b \<noteq> None"
  shows "\<exists>im'. dominator_pass incoming rank (drop 1 order) (im, False) = Some (Inr (im', im' \<noteq> im)) \<and>
    tree_inv E order rank im' \<and> (\<forall>b\<in>set order. im' ! b \<noteq> None) \<and> tree_progress E im' (\<lambda>_. Suc m)"
proof -
  have order: "order = [0] @ drop 1 order" using G by (cases order) (auto simp: ranked_graph_def)
  have "x = 0" if "x < length im" "im ! x \<noteq> None" "x \<notin> set (drop 1 order)" for x
  proof -
    have "x \<in> set order" using tree_invD(1,3) [OF I] that(1,2) by auto
    then have "x \<in> set ([0] @ drop 1 order)" using order by simp
    with that(3) show ?thesis by simp
  qed
  then have "tree_progress E im (\<lambda>b. if b \<in> set (drop 1 order) then m else Suc m)"
    using T chain_0 [OF G I] avoid_set_self unfolding tree_progress_def by (metis singletonD)
  moreover have "\<forall>b\<in>set [0]. im ! b \<noteq> None" using tree_invD(2) [OF I] by simp
  ultimately obtain im' changed' where "dominator_pass incoming rank (drop 1 order) (im, False) = Some (Inr (im', changed'))"
    "tree_inv E order rank im'" "\<forall>b\<in>set order. im' ! b \<noteq> None" "tree_progress E im' (\<lambda>_. Suc m)"
    "changed' \<longleftrightarrow> im' \<noteq> im"
    using dominator_pass_inv [OF G order _ I _ all, where changed = False] by blast
  then show ?thesis by blast
qed

lemma avoids_bounded:
  assumes "finite S"
  shows "\<exists>N. \<forall>b\<in>S. \<forall>d\<in>S. avoids E d b \<longrightarrow> b \<in> avoid_set E d N"
proof -
  let ?P = "{(b, d). b \<in> S \<and> d \<in> S \<and> avoids E d b}"
  have "\<forall>q\<in>?P. \<exists>n. fst q \<in> avoid_set E (snd q) n" by (auto simp: avoids_def)
  then obtain f where f: "\<forall>q\<in>?P. fst q \<in> avoid_set E (snd q) (f q)" by (rule bchoice [elim_format]) blast
  have fin: "finite ?P" by (rule finite_subset [of _ "S \<times> S"]) (use assms in auto)
  have "b \<in> avoid_set E d (Max (insert 0 (f ` ?P)))" if "(b, d) \<in> ?P" for b d
    using f that avoid_set_mono [of "f (b, d)" "Max (insert 0 (f ` ?P))" E d] Max_ge [of "insert 0 (f ` ?P)" "f (b, d)"] fin
    by force
  then show ?thesis by blast
qed

lemma progress_exact:
  assumes G: "ranked_graph E incoming order rank" and I: "tree_inv E order rank im"
    and T: "tree_progress E im (\<lambda>_. N)" and all: "\<forall>b\<in>set order. im ! b \<noteq> None"
    and N: "\<forall>b\<in>set order. \<forall>d\<in>set order. avoids E d b \<longrightarrow> b \<in> avoid_set E d N"
  shows "tree_dominators E order im"
proof -
  note len = tree_invD(1) [OF I] and sub = ranked_graphD(3) [OF G]
  have "tree_chain im b = {d. \<not> avoids E d b}" if b: "b \<in> set order" for b
  proof -
    have bl: "b < length rank" "im ! b \<noteq> None" using b sub all by auto
    have "\<not> avoids E d b" if "d \<in> tree_chain im b" for d
      using T N chain_in_tree(1) [OF G I bl that] b bl that len by (auto simp: tree_progress_def)
    then show ?thesis using tree_invD(8) [OF I bl] by blast
  qed
  then show ?thesis using all tree_invD(3) [OF I] len by (auto simp: tree_dominators_def)
qed

lemma tree_determined:
  assumes G: "ranked_graph E incoming order rank" and I: "tree_inv E order rank im" "tree_inv E order rank im'"
    and D: "tree_dominators E order im" "tree_dominators E order im'"
  shows "im' = im"
proof (rule nth_equalityI)
  note len = tree_invD(1) [OF I(1)] tree_invD(1) [OF I(2)] and sub = ranked_graphD(3) [OF G]
  show "length im' = length im" using len by simp
  have le: "rank ! a \<le> rank ! a'"
    if I: "tree_inv E order rank im" "tree_inv E order rank im'" and "tree_chain im b = tree_chain im' b"
      "im ! b = Some a" "im' ! b = Some a'" "b < length rank" "b \<noteq> 0" for im im' a a' b
  proof -
    note len = tree_invD(1) [OF I(1)] tree_invD(1) [OF I(2)]
    have "tree_chain im b = insert b (tree_chain im a)" "tree_chain im' b = insert b (tree_chain im' a')"
      using that len by (simp_all add: chain_parent)
    then have "a \<in> insert b (tree_chain im' a')" using that(3) chain_self [of a im] by blast
    moreover have "a \<noteq> b" using tree_invD(6) [OF I(1) that(6,4)] that(7) by auto
    moreover have "a' < length rank" using tree_invD(4) [OF I(2) that(6,5)] sub by auto
    ultimately show ?thesis
      using chain_in_tree(3) [OF G I(2) _ tree_invD(5) [OF I(2) that(6,5)], of a] by auto
  qed
  fix b assume "b < length im'"
  then have b: "b < length rank" using len by simp
  show "im' ! b = im ! b"
  proof (cases "b \<in> set order \<and> b \<noteq> 0")
    case True
    then have "im ! b \<noteq> None" "im' ! b \<noteq> None" using D len b by (auto simp: tree_dominators_def)
    then obtain a a' where a: "im ! b = Some a" "im' ! b = Some a'" by blast
    have "tree_chain im b = tree_chain im' b" using D True by (auto simp: tree_dominators_def)
    then have "rank ! a = rank ! a'"
      using le [OF I _ a b] le [OF I(2,1) _ a(2,1) b] True by fastforce
    then have "a = a'"
      using ranked_graphD(10) [OF G] tree_invD(4) [OF I(1) b a(1)] tree_invD(4) [OF I(2) b a(2)] by blast
    with a show ?thesis by simp
  next
    case False
    then have "b = 0 \<or> im ! b = None \<and> im' ! b = None"
      using D len b unfolding tree_dominators_def by metis
    then show ?thesis using tree_invD(2) [OF I(1)] tree_invD(2) [OF I(2)] by auto
  qed
qed

text \<open>
  The iteration ends: after enough passes the tree is the dominator tree, which is determined, so
  the next pass changes nothing. A pass without a change could be repeated any number of times, so
  the tree it leaves is exact as well.
\<close>

lemma unchanged_exact:
  assumes G: "ranked_graph E incoming order rank" and I: "tree_inv E order rank im"
    and T: "tree_progress E im (\<lambda>_. Suc m)" and all: "\<forall>b\<in>set order. im ! b \<noteq> None"
    and fixed: "dominator_pass incoming rank (drop 1 order) (im, False) = Some (Inr (im, False))"
  shows "tree_dominators E order im"
proof -
  have "tree_progress E im (\<lambda>_. Suc m + j)" for j
  proof (induction j)
    case (Suc j)
    from dominator_pass_full [OF G I Suc.IH all] fixed show ?case by auto
  qed (use T in simp)
  moreover obtain N where N: "\<forall>b\<in>set order. \<forall>d\<in>set order. avoids E d b \<longrightarrow> b \<in> avoid_set E d N"
    using avoids_bounded [of "set order" E] by auto
  moreover have "avoid_set E d N \<subseteq> avoid_set E d (Suc m + N)" for d by (rule avoid_set_mono) simp
  ultimately show ?thesis by (intro progress_exact [OF G I _ all, of "Suc m + N"]) blast+
qed

lemma dominator_loop_exact:
  assumes G: "ranked_graph E incoming order rank" and I: "tree_inv E order rank im"
    and T: "tree_progress E im (\<lambda>_. m)" and all: "0 < m \<Longrightarrow> \<forall>b\<in>set order. im ! b \<noteq> None"
  shows "\<exists>im'. dominator_loop incoming rank order im = Some (Inr im') \<and> tree_inv E order rank im' \<and>
    tree_dominators E order im'"
proof -
  obtain N0 where "\<forall>b\<in>set order. \<forall>d\<in>set order. avoids E d b \<longrightarrow> b \<in> avoid_set E d N0"
    using avoids_bounded [of "set order" E] by auto
  then have N: "\<forall>b\<in>set order. \<forall>d\<in>set order. avoids E d b \<longrightarrow> b \<in> avoid_set E d k" if "N0 \<le> k" for k
    using avoid_set_mono [OF that, of E] by blast
  show ?thesis
    using I T all
  proof (induction "Suc N0 - m" arbitrary: im m rule: less_induct)
    case less
    obtain im' where im': "dominator_pass incoming rank (drop 1 order) (im, False) = Some (Inr (im', im' \<noteq> im))"
      "tree_inv E order rank im'" "\<forall>b\<in>set order. im' ! b \<noteq> None" "tree_progress E im' (\<lambda>_. Suc m)"
      using dominator_pass_full [OF G less.prems] by blast
    have unfold: "dominator_loop incoming rank order im =
        (if im' \<noteq> im then dominator_loop incoming rank order im' else Some (Inr im'))"
      using im'(1) by (subst dominator_loop.simps) simp
    show ?case
    proof (cases "im' = im")
      case True
      then have "tree_dominators E order im"
        using unchanged_exact [OF G less.prems(1), of m] im' by simp
      with True unfold im'(2) show ?thesis by simp
    next
      case False
      have "m \<le> N0"
      proof (rule ccontr)
        assume "\<not> m \<le> N0"
        then have "tree_dominators E order im" "tree_dominators E order im'"
          using progress_exact [OF G less.prems(1,2) less.prems(3) N] progress_exact [OF G im'(2,4,3) N] by simp_all
        then show False using tree_determined [OF G less.prems(1) im'(2)] False by blast
      qed
      then have "Suc N0 - Suc m < Suc N0 - m" by simp
      from less.hyps [OF this im'(2,4)] im'(3) unfold False show ?thesis by simp
    qed
  qed
qed

text \<open>The tree the iteration starts with, and the walk of a query.\<close>

lemma initial_tree:
  assumes G: "ranked_graph E incoming order rank"
  defines "im \<equiv> (replicate (length rank) None)[0 := Some 0]"
  shows "tree_inv E order rank im" "tree_progress E im (\<lambda>_. 0)"
proof -
  have 0: "0 < length rank" using ranked_graphD(3,4) [OF G] by auto
  have nth: "im ! b = (if b = 0 then Some 0 else None)" if "b < length rank" for b
    using that 0 by (simp add: im_def nth_list_update)
  have "d = 0" if "d \<in> tree_chain im 0" for d
    using that by (induction rule: chain_induct) (auto simp: im_def nth)
  then have ch: "tree_chain im 0 = {0}" by auto
  show "tree_inv E order rank im"
    unfolding tree_inv_def using nth 0 ch ranked_graphD(4) [OF G]
    by (auto simp: im_def split: if_splits)
  show "tree_progress E im (\<lambda>_. 0)"
    unfolding tree_progress_def using nth ch by (auto simp: im_def split: if_splits)
qed

lemma climb_to_chain:
  assumes G: "ranked_graph E incoming order rank" and I: "tree_inv E order rank im"
    and "b < length rank" "im ! b \<noteq> None" "a \<noteq> b"
  shows "climb_to im a b = Some (Inr (a \<in> tree_chain im b))"
  using assms(3-5)
proof (induction "rank ! b" arbitrary: b rule: less_induct)
  case less
  note len = tree_invD(1) [OF I]
  obtain p where p: "im ! b = Some p" using less.prems by auto
  show ?case
  proof (cases "b = 0")
    case True
    then show ?thesis
      using p tree_invD(2) [OF I] less.prems chain_0 [OF G I] len
      by (subst climb_to.simps) (simp add: list_get_def)
  next
    case False
    have lt: "rank ! p < rank ! b" using tree_invD(6) [OF I less.prems(1) p False] .
    have pl: "p < length rank" using tree_invD(4) [OF I less.prems(1) p] ranked_graphD(3) [OF G] by auto
    have ch: "tree_chain im b = insert b (tree_chain im p)" using p less.prems(1) len by (simp add: chain_parent)
    have "climb_to im a p = Some (Inr (a \<in> tree_chain im p))" if "a \<noteq> p"
      using less.hyps [OF lt pl tree_invD(5) [OF I less.prems(1) p] that] .
    moreover have "climb_to im a b = (if p = a then Some (Inr True) else climb_to im a p)"
      using p lt less.prems(1) len by (subst climb_to.simps) (auto simp: list_get_def)
    ultimately show ?thesis using ch less.prems(3) by auto
  qed
qed

section \<open>The order of the depth-first search\<close>

definition exits :: "(nat \<times> bool) list \<Rightarrow> nat list" where
  "exits work = map fst (filter snd work)"

text \<open>
  The blocks of a search in the order they leave it: those that left, then the exits on the stack.
  Every block but the entry has a predecessor that leaves after it. What a block on the stack leads
  to is visited or waits above the block's exit.
\<close>

fun parents_later :: "nat list list \<Rightarrow> nat list \<Rightarrow> bool" where
  "parents_later outgoing [] = True"
| "parents_later outgoing (b # bs) \<longleftrightarrow>
     (b \<noteq> 0 \<longrightarrow> (\<exists>p\<in>set bs. b \<in> set (outgoing ! p))) \<and> parents_later outgoing bs"

fun edges_pending :: "nat list list \<Rightarrow> nat set \<Rightarrow> (nat \<times> bool) list \<Rightarrow> bool" where
  "edges_pending outgoing A [] = True"
| "edges_pending outgoing A ((b, exiting) # work) \<longleftrightarrow>
     (exiting \<longrightarrow> set (outgoing ! b) \<subseteq> A) \<and> edges_pending outgoing (insert b A) work"

fun entries_have_parent :: "nat list list \<Rightarrow> (nat \<times> bool) list \<Rightarrow> bool" where
  "entries_have_parent outgoing [] = True"
| "entries_have_parent outgoing ((b, exiting) # work) \<longleftrightarrow>
     (\<not> exiting \<longrightarrow> b = 0 \<or> (\<exists>p\<in>set (exits work). b \<in> set (outgoing ! p))) \<and>
     entries_have_parent outgoing work"

definition block_edge_set :: "nat list list \<Rightarrow> (nat \<times> nat) set" where
  "block_edge_set outgoing = {(a, b). a < length outgoing \<and> b \<in> set (outgoing ! a)}"

definition search_inv :: "nat list list \<Rightarrow> bool list \<Rightarrow> nat list \<Rightarrow> (nat \<times> bool) list \<Rightarrow> bool" where
  "search_inv outgoing visited post work \<longleftrightarrow>
     length visited = length outgoing \<and> fst ` set work \<subseteq> {..<length outgoing} \<and>
     distinct (post @ exits work) \<and>
     set (post @ exits work) = {b. b < length visited \<and> visited ! b} \<and>
     (\<forall>b\<in>set post. set (outgoing ! b) \<subseteq> set (post @ exits work)) \<and>
     edges_pending outgoing (set (post @ exits work)) work \<and>
     parents_later outgoing (post @ exits work) \<and> entries_have_parent outgoing work \<and>
     set (post @ exits work) \<union> fst ` set work \<subseteq> (block_edge_set outgoing)\<^sup>* `` {0} \<and>
     (if post @ exits work = [] then work = [(0, False)] else last (post @ exits work) = 0)"

lemma exits_simps [simp]:
  "exits [] = []" "exits ((b, True) # work) = b # exits work" "exits ((b, False) # work) = exits work"
  "exits (map (\<lambda>b. (b, False)) bs @ work) = exits work"
  by (auto simp: exits_def filter_map o_def)

lemma unvisited_blocks_filter:
  "set bs \<subseteq> {..<length visited} \<Longrightarrow> unvisited_blocks visited bs = Inr (filter (\<lambda>b. \<not> visited ! b) bs)"
  by (induction bs) (auto simp: index_of_def)

lemma parents_later_insert:
  assumes "parents_later outgoing (xs @ ys)" "s \<noteq> 0 \<longrightarrow> (\<exists>p\<in>set ys. s \<in> set (outgoing ! p))"
  shows "parents_later outgoing (xs @ s # ys)"
  using assms by (induction xs) auto

lemma edges_pending_mono:
  "edges_pending outgoing A work \<Longrightarrow> A \<subseteq> B \<Longrightarrow> edges_pending outgoing B work"
proof (induction outgoing A work arbitrary: B rule: edges_pending.induct)
  case (2 outgoing A b exiting work)
  have "edges_pending outgoing (insert b B) work" using 2 by (auto intro: 2(1))
  with 2 show ?case by auto
qed simp

lemma edges_pending_entries [simp]:
  "edges_pending outgoing A (map (\<lambda>b. (b, False)) bs @ work) = edges_pending outgoing (set bs \<union> A) work"
  by (induction bs arbitrary: A) auto

lemma entries_have_parent_entries [simp]:
  "entries_have_parent outgoing (map (\<lambda>b. (b, False)) bs @ work) \<longleftrightarrow>
     (\<forall>b\<in>set bs. b = 0 \<or> (\<exists>p\<in>set (exits work). b \<in> set (outgoing ! p))) \<and>
     entries_have_parent outgoing work"
  by (induction bs) auto

lemma search_invD:
  assumes "search_inv outgoing visited post work"
  shows "length visited = length outgoing" "fst ` set work \<subseteq> {..<length outgoing}"
    "distinct (post @ exits work)" "set (post @ exits work) = {b. b < length visited \<and> visited ! b}"
    "\<forall>b\<in>set post. set (outgoing ! b) \<subseteq> set (post @ exits work)"
    "edges_pending outgoing (set (post @ exits work)) work"
    "parents_later outgoing (post @ exits work)" "entries_have_parent outgoing work"
    "set (post @ exits work) \<union> fst ` set work \<subseteq> (block_edge_set outgoing)\<^sup>* `` {0}"
    "if post @ exits work = [] then work = [(0, False)] else last (post @ exits work) = 0"
  using assms unfolding search_inv_def by blast+

lemma search_inv_exit:
  assumes "search_inv outgoing visited post ((b, True) # work)"
  shows "search_inv outgoing visited (post @ [b]) work"
proof -
  note I = search_invD [OF assms]
  have "edges_pending outgoing (set ((post @ [b]) @ exits work)) work"
    using I(6) by (auto elim: edges_pending_mono)
  moreover have "\<forall>x\<in>set (post @ [b]). set (outgoing ! x) \<subseteq> set ((post @ [b]) @ exits work)"
    using I(5,6) by simp
  ultimately show ?thesis
    unfolding search_inv_def using I(1-4,7-10) by simp
qed

lemma search_inv_skip:
  assumes "search_inv outgoing visited post ((b, False) # work)" "visited ! b"
  shows "search_inv outgoing visited post work"
proof -
  note I = search_invD [OF assms(1)]
  have b: "b \<in> set (post @ exits work)" using I(1,2,4) assms(2) by auto
  then have ne: "post @ exits work \<noteq> []" by auto
  have "edges_pending outgoing (set (post @ exits work)) work"
    using I(6) b by (simp add: insert_absorb)
  moreover have "last (post @ exits work) = 0" using I(10) ne by (auto split: if_splits)
  ultimately show ?thesis
    unfolding search_inv_def using I(1-5,7-9) ne by auto
qed

lemma search_inv_enter:
  assumes "search_inv outgoing visited post ((b, False) # work)" "\<not> visited ! b"
    and "\<forall>b<length outgoing. set (outgoing ! b) \<subseteq> {..<length outgoing}"
  shows "search_inv outgoing (visited[b := True]) post
    (map (\<lambda>b. (b, False)) (filter (\<lambda>s. \<not> visited[b := True] ! s) (outgoing ! b)) @ (b, True) # work)"
    (is "search_inv _ ?visited _ (?entries @ _)")
proof -
  let ?pushed = "filter (\<lambda>s. \<not> ?visited ! s) (outgoing ! b)" and ?left = "set (post @ exits work)"
  note I = search_invD [OF assms(1)]
  have b: "b < length outgoing" "length visited = length outgoing" using I(1,2) by auto
  have set: "{x. x < length ?visited \<and> ?visited ! x} = insert b ?left"
    using I(4) b by (auto simp: nth_list_update)
  have new: "b \<notin> ?left" using I(4) assms(2) by auto
  have out: "set (outgoing ! b) \<subseteq> set ?pushed \<union> insert b ?left"
    using set assms(3) b by (auto simp del: set_append)
  have reach: "(0, s) \<in> (block_edge_set outgoing)\<^sup>*" if "s \<in> set (outgoing ! b)" for s
    using I(9) that b(1) by (auto simp: block_edge_set_def intro: rtrancl_into_rtrancl [of 0 b])
  have parent: "b \<noteq> 0 \<longrightarrow> (\<exists>p\<in>set (exits work). b \<in> set (outgoing ! p))" using I(8) by auto
  have last: "last (post @ b # exits work) = 0"
  proof (cases "post @ exits work = []")
    case False
    with I(10) have "0 \<in> ?left" by (metis exits_simps(3) last_in_set)
    with new parent have "exits work \<noteq> []" by (metis empty_iff list.set(1))
    with False I(10) show ?thesis by simp
  qed (use I(10) in auto)
  have "edges_pending outgoing (insert b ?left) work" using I(6) by (auto elim: edges_pending_mono)
  then have "edges_pending outgoing (set (post @ exits (?entries @ (b, True) # work))) (?entries @ (b, True) # work)"
    using out by (auto elim: edges_pending_mono)
  moreover have "set (post @ exits (?entries @ (b, True) # work)) \<union> fst ` set (?entries @ (b, True) # work)
      \<subseteq> (block_edge_set outgoing)\<^sup>* `` {0}"
    using I(9) reach by auto
  moreover have "fst ` set (?entries @ (b, True) # work) \<subseteq> {..<length outgoing}"
    using I(2) subsetD [OF assms(3) [rule_format, OF b(1)]] by auto
  moreover have "\<forall>x\<in>set post. set (outgoing ! x) \<subseteq> set (post @ exits (?entries @ (b, True) # work))"
    using I(5) by auto
  moreover have "set (post @ exits (?entries @ (b, True) # work)) = {x. x < length ?visited \<and> ?visited ! x}"
    using set by auto
  moreover have "parents_later outgoing (post @ exits (?entries @ (b, True) # work))"
    using parents_later_insert [OF _ parent, of post] I(7) by simp
  moreover have "entries_have_parent outgoing (?entries @ (b, True) # work)" using I(8) by simp
  moreover have "distinct (post @ exits (?entries @ (b, True) # work))" using I(3) new by simp
  moreover have "if post @ exits (?entries @ (b, True) # work) = [] then ?entries @ (b, True) # work = [(0, False)]
      else last (post @ exits (?entries @ (b, True) # work)) = 0" using last by simp
  moreover have "length ?visited = length outgoing" using b(2) by simp
  ultimately show ?thesis unfolding search_inv_def by blast
qed

lemma block_postorder_correct:
  assumes "search_inv outgoing visited post work"
    and "\<forall>b<length outgoing. set (outgoing ! b) \<subseteq> {..<length outgoing}"
  shows "\<exists>post' visited'. block_postorder outgoing visited post work = Inr post' \<and>
    search_inv outgoing visited' post' []"
  using assms
proof (induction outgoing visited post work rule: block_postorder.induct)
  case (2 outgoing visited post block exiting work)
  note I = search_invD(1,2) [OF "2.prems"(1)]
  show ?case
  proof (cases exiting)
    case True
    then show ?thesis using 2(1) search_inv_exit "2.prems" by simp
  next
    case False
    then have P: "search_inv outgoing visited post ((block, False) # work)" using "2.prems"(1) by simp
    have b: "block < length visited" "block < length outgoing" using I by auto
    show ?thesis
    proof (cases "visited ! block")
      case True
      then show ?thesis using 2(2) [OF False _ True] search_inv_skip [OF P True] "2.prems"(2) False b by simp
    next
      case new: False
      have "unvisited_blocks (visited[block := True]) (outgoing ! block) =
          Inr (filter (\<lambda>s. \<not> visited[block := True] ! s) (outgoing ! block))"
        using "2.prems"(2) I(1) b by (intro unvisited_blocks_filter) simp
      with 2(3) [OF False _ new _ this] search_inv_enter [OF P new "2.prems"(2)] "2.prems"(2) False new b
      show ?thesis by simp
    qed
  qed
qed auto

text \<open>What the finished search says of its order.\<close>

lemma parents_later_split:
  "parents_later outgoing (xs @ b # ys) \<Longrightarrow> b \<noteq> 0 \<Longrightarrow> \<exists>p\<in>set ys. b \<in> set (outgoing ! p)"
  by (induction xs) auto

lemma assign_ranks_correct:
  assumes "distinct (map snd ps)" "snd ` set ps \<subseteq> {..<length rank}"
  shows "\<exists>rank'. assign_ranks ps rank = Inr rank' \<and> length rank' = length rank \<and>
    (\<forall>(i, b)\<in>set ps. rank' ! b = i) \<and> (\<forall>b. b \<notin> snd ` set ps \<longrightarrow> rank' ! b = rank ! b)"
  using assms
proof (induction ps rank rule: assign_ranks.induct)
  case (2 i b ps rank)
  then obtain rank' where r: "assign_ranks ps (rank[b := i]) = Inr rank'" "length rank' = length rank"
    "\<forall>(i, b)\<in>set ps. rank' ! b = i" "\<forall>x. x \<notin> snd ` set ps \<longrightarrow> rank' ! x = rank[b := i] ! x"
    by auto
  moreover have "b \<notin> snd ` set ps" using "2.prems"(1) by auto
  ultimately show ?case using "2.prems"(2) by auto
qed auto

lemma search_order:
  assumes I: "search_inv outgoing visited post []"
    and inc: "length incoming = length outgoing"
      "\<forall>b<length outgoing. set (incoming ! b) = {a. (a, b) \<in> block_edge_set outgoing}"
    and ne: "post \<noteq> []"
  shows "\<exists>rank. assign_ranks (enumerate_from 0 (rev post)) (replicate (length outgoing) USIZE_MAX) = Inr rank \<and>
    length rank = length outgoing \<and> ranked_graph (block_edge_set outgoing) incoming (rev post) rank"
proof -
  note I = search_invD [OF I, simplified]
  have sub: "set post \<subseteq> {..<length outgoing}" using I(1,4) by auto
  have snd: "map snd (enumerate_from 0 (rev post)) = rev post" by simp
  have snds: "snd ` set (enumerate_from 0 (rev post)) = set post" by (metis snd set_map set_rev)
  have "\<exists>rank. assign_ranks (enumerate_from 0 (rev post)) (replicate (length outgoing) USIZE_MAX) = Inr rank \<and>
      length rank = length (replicate (length outgoing) USIZE_MAX) \<and> (\<forall>(i, b)\<in>set (enumerate_from 0 (rev post)). rank ! b = i) \<and>
      (\<forall>b. b \<notin> snd ` set (enumerate_from 0 (rev post)) \<longrightarrow> rank ! b = replicate (length outgoing) USIZE_MAX ! b)"
    using I(3) sub by (intro assign_ranks_correct) (simp_all add: snds)
  then obtain rank where rank: "assign_ranks (enumerate_from 0 (rev post)) (replicate (length outgoing) USIZE_MAX) = Inr rank"
    "length rank = length outgoing" "\<forall>(i, b)\<in>set (enumerate_from 0 (rev post)). rank ! b = i"
    by auto
  have pos: "rank ! (rev post ! i) = i" if "i < length post" for i
    using rank(3) that by (auto simp: set_enumerate_from)
  have "\<exists>p\<in>set post. (p, b) \<in> block_edge_set outgoing \<and> rank ! p < rank ! b" if b: "b \<in> set post" "b \<noteq> 0" for b
  proof -
    obtain xs ys where xy: "post = xs @ b # ys" using b(1) by (auto simp: in_set_conv_decomp)
    then obtain p where p: "p \<in> set ys" "b \<in> set (outgoing ! p)" using parents_later_split I(7) b(2) by blast
    then obtain us vs where uv: "ys = us @ p # vs" by (auto simp: in_set_conv_decomp)
    have "rank ! p = length vs" using pos [of "length vs"] xy uv by (simp add: nth_append)
    moreover have "rank ! b = length ys" using pos [of "length ys"] xy by (simp add: nth_append)
    ultimately show ?thesis using p xy uv sub by (auto simp: block_edge_set_def)
  qed
  then show ?thesis
    using rank pos I(3,5,10) sub inc ne unfolding ranked_graph_def
    by (auto simp: hd_rev block_edge_set_def)
qed

section \<open>The blocks of a chunk\<close>

lemma index_of_nth: "i < length xs \<Longrightarrow> index_of xs i = Inr (xs ! i)"
  by (simp add: index_of_def)

lemma index_of_Inr [simp]: "index_of xs i = Inr x \<longleftrightarrow> i < length xs \<and> xs ! i = x"
  by (auto simp: index_of_def)

lemma fold_mark_leaders:
  "length (fold (\<lambda>e l. if e < length l then l[e := True] else l) es l) = length l"
  "i < length l \<Longrightarrow>
     fold (\<lambda>e l. if e < length l then l[e := True] else l) es l ! i \<longleftrightarrow> l ! i \<or> i \<in> set es"
  by (induction es arbitrary: l) (auto simp: nth_list_update)

text \<open>The leaders that a chunk's instructions demand.\<close>

definition demands_leader :: "chunk \<Rightarrow> nat \<Rightarrow> nat \<Rightarrow> bool" where
  "demands_leader c i s \<longleftrightarrow>
     branches_or_terminates (code c ! i) \<and>
     (s = i + 1 \<or> (\<exists>ss. successors c i = Inr ss \<and> s \<in> set ss))"

lemma mark_leaders_correct:
  assumes "\<forall>(i, ins)\<in>set ps. i < length (code c) \<and> ins = code c ! i \<and> (\<exists>ss. successors c i = Inr ss)"
    and "length leaders = length (code c)"
  shows "\<exists>leaders'. mark_leaders c ps leaders = Inr leaders' \<and> length leaders' = length leaders \<and>
    (\<forall>s<length (code c). leaders' ! s \<longleftrightarrow> leaders ! s \<or> (\<exists>(i, ins)\<in>set ps. demands_leader c i s))"
  using assms
proof (induction c ps leaders rule: mark_leaders.induct)
  case (2 c i ins ps leaders)
  show ?case
  proof (cases "branches_or_terminates ins")
    case False
    then show ?thesis using 2(1) "2.prems" by (auto simp: demands_leader_def)
  next
    case True
    obtain ss where ss: "successors c i = Inr ss" using "2.prems"(1) by auto
    let ?l = "fold (\<lambda>e l. if e < length l then l[e := True] else l) ss
      (if i + 1 < length (code c) then leaders[i + 1 := True] else leaders)"
    have "length ?l = length (code c)" using "2.prems"(2) by (simp add: fold_mark_leaders(1))
    moreover have "?l ! s \<longleftrightarrow> leaders ! s \<or> demands_leader c i s" if "s < length (code c)" for s
      using that "2.prems" True ss fold_mark_leaders(2) [of s] by (auto simp: demands_leader_def nth_list_update)
    ultimately show ?thesis using 2(2) [of _ ss] "2.prems" True ss by auto
  qed
qed auto

lemma block_leaders_correct:
  assumes "verify xxh3 c = Inr ()"
  shows "\<exists>leaders. block_leaders c = Inr leaders \<and> length leaders = length (code c) \<and>
    (\<forall>s<length (code c). leaders ! s \<longleftrightarrow> s = 0 \<or> (\<exists>i<length (code c). demands_leader c i s))"
proof -
  have n: "0 < length (code c)" using verified_length [OF assms] by simp
  have "\<exists>l. mark_leaders c (enumerate_from 0 (code c)) ((replicate (length (code c)) False)[0 := True]) = Inr l \<and>
      length l = length ((replicate (length (code c)) False)[0 := True]) \<and>
      (\<forall>s<length (code c). l ! s \<longleftrightarrow> (replicate (length (code c)) False)[0 := True] ! s \<or>
        (\<exists>(i, ins)\<in>set (enumerate_from 0 (code c)). demands_leader c i s))"
    using verified_successors [OF assms] by (intro mark_leaders_correct) (fastforce simp: set_enumerate_from)+
  then show ?thesis using n by (auto simp: block_leaders_def set_enumerate_from nth_list_update)
qed

lemma block_starts_correct:
  "sorted_wrt (<) (block_starts l)" "set (block_starts l) = {i. i < length l \<and> l ! i}"
proof -
  have "map fst (enumerate_from 0 l) = [0..<length l]" by (simp add: enumerate_from_zip)
  then have "sorted_wrt (\<lambda>p q. fst p < fst q) (enumerate_from 0 l)"
    by (metis sorted_wrt_map sorted_wrt_upt)
  then show "sorted_wrt (<) (block_starts l)"
    by (simp add: block_starts_def sorted_wrt_map sorted_wrt_filter)
  show "set (block_starts l) = {i. i < length l \<and> l ! i}"
    by (force simp: block_starts_def set_enumerate_from)
qed

text \<open>The starts of the blocks: strictly increasing from \<open>0\<close>, so every instruction is in one block.\<close>

definition starts_ok :: "nat \<Rightarrow> nat list \<Rightarrow> bool" where
  "starts_ok n S \<longleftrightarrow> S \<noteq> [] \<and> sorted_wrt (<) S \<and> S ! 0 = 0 \<and> (\<forall>s\<in>set S. s < n)"

lemma block_end_nth:
  "b < length S \<Longrightarrow> block_end n S b = (if b + 1 < length S then S ! (b + 1) else n)"
  by (simp add: block_end_def list_get_def)

lemma block_end_bounds:
  assumes "starts_ok n S" "b < length S"
  shows "S ! b < block_end n S b" "block_end n S b \<le> n"
  using assms by (auto simp: block_end_nth starts_ok_def sorted_wrt_iff_nth_less less_imp_le)

lemma block_end_le:
  assumes "starts_ok n S" "a < b" "b < length S"
  shows "block_end n S a \<le> S ! b"
proof (cases "a + 1 = b")
  case False
  with assms have "S ! (a + 1) < S ! b" by (auto simp: starts_ok_def sorted_wrt_iff_nth_less)
  with assms show ?thesis by (simp add: block_end_nth)
qed (use assms in \<open>auto simp: block_end_nth\<close>)

lemma block_exists:
  assumes "starts_ok n S" "i < n"
  shows "\<exists>b<length S. S ! b \<le> i \<and> i < block_end n S b"
proof -
  let ?A = "{b. b < length S \<and> S ! b \<le> i}"
  have fin: "finite ?A" by simp
  have "0 \<in> ?A" using assms(1) by (auto simp: starts_ok_def)
  then have b: "Max ?A \<in> ?A" using fin by (intro Max_in) auto
  have "\<not> S ! (Max ?A + 1) \<le> i" if "Max ?A + 1 < length S"
  proof
    assume "S ! (Max ?A + 1) \<le> i"
    with that have "Max ?A + 1 \<le> Max ?A" using fin by (intro Max_ge) auto
    then show False by simp
  qed
  with b assms(2) show ?thesis by (intro exI [of _ "Max ?A"]) (auto simp: block_end_nth)
qed

lemma block_unique:
  assumes "starts_ok n S" "a < length S" "b < length S" "S ! a \<le> i" "i < block_end n S a"
    "S ! b \<le> i" "i < block_end n S b"
  shows "a = b"
  using assms block_end_le [of n S a b] block_end_le [of n S b a] by (cases a b rule: linorder_cases) auto

lemma fill_range_nth:
  assumes "first \<le> limit" "limit \<le> length xs"
  shows "\<exists>ys. fill_range xs first limit x = Inr ys \<and> length ys = length xs \<and>
    (\<forall>i<length xs. ys ! i = (if first \<le> i \<and> i < limit then x else xs ! i))"
  using assms by (auto simp: fill_range_def nth_append)

lemma fill_blocks_correct:
  assumes ok: "starts_ok n S" and "k \<le> length S" "length blocks = n"
  shows "\<exists>blocks'. fill_blocks n S (enumerate_from k (drop k S)) blocks = Inr blocks' \<and> length blocks' = n \<and>
    (\<forall>b i. k \<le> b \<longrightarrow> b < length S \<longrightarrow> S ! b \<le> i \<longrightarrow> i < block_end n S b \<longrightarrow> blocks' ! i = b) \<and>
    (\<forall>i<n. (\<forall>b. k \<le> b \<longrightarrow> b < length S \<longrightarrow> i < S ! b) \<longrightarrow> blocks' ! i = blocks ! i)"
  using assms(2,3)
proof (induction "length S - k" arbitrary: k blocks)
  case (Suc m)
  then have k: "k < length S" and m: "m = length S - Suc k" by simp_all
  note e = block_end_bounds [OF ok k]
  obtain ys where ys: "fill_range blocks (S ! k) (block_end n S k) k = Inr ys" "length ys = n"
    "\<forall>i<n. ys ! i = (if S ! k \<le> i \<and> i < block_end n S k then k else blocks ! i)"
    using fill_range_nth [of "S ! k" "block_end n S k" blocks k] e Suc.prems(2) by auto
  obtain blocks' where r: "fill_blocks n S (enumerate_from (Suc k) (drop (Suc k) S)) ys = Inr blocks'"
    "length blocks' = n"
    "\<forall>b i. Suc k \<le> b \<longrightarrow> b < length S \<longrightarrow> S ! b \<le> i \<longrightarrow> i < block_end n S b \<longrightarrow> blocks' ! i = b"
    "\<forall>i<n. (\<forall>b. Suc k \<le> b \<longrightarrow> b < length S \<longrightarrow> i < S ! b) \<longrightarrow> blocks' ! i = ys ! i"
    using Suc.hyps(1) [OF m _ ys(2)] k by auto
  have mine: "blocks' ! i = k" if "S ! k \<le> i" "i < block_end n S k" for i
  proof -
    have "i < S ! b" if "Suc k \<le> b" "b < length S" for b
      using block_end_le [OF ok _ that(2), of k] that(1) \<open>i < block_end n S k\<close> by simp
    then show ?thesis using r(4) ys(3) that e(2) by auto
  qed
  have "blocks' ! i = b" if "k \<le> b" "b < length S" "S ! b \<le> i" "i < block_end n S b" for b i
    using that mine r(3) by (cases "b = k") auto
  moreover have "blocks' ! i = blocks ! i" if "i < n" "\<forall>b. k \<le> b \<longrightarrow> b < length S \<longrightarrow> i < S ! b" for i
  proof -
    have "i < S ! k" using that(2) k by blast
    then show ?thesis using r(4) ys(3) that Suc_leD by (metis not_le)
  qed
  moreover have "enumerate_from k (drop k S) = (k, S ! k) # enumerate_from (Suc k) (drop (Suc k) S)"
    using k by (simp add: Cons_nth_drop_Suc [symmetric])
  ultimately show ?case using ys(1) r(1,2) by auto
qed simp

lemma fill_blocks_all:
  assumes "starts_ok n S"
  shows "\<exists>blocks. fill_blocks n S (enumerate_from 0 S) (replicate n 0) = Inr blocks \<and> length blocks = n \<and>
    (\<forall>b<length S. \<forall>i. S ! b \<le> i \<longrightarrow> i < block_end n S b \<longrightarrow> blocks ! i = b)"
  using fill_blocks_correct [OF assms, of 0 "replicate n 0"] by auto

section \<open>The edges between the blocks\<close>

definition edges_agree :: "nat \<Rightarrow> block_edges \<Rightarrow> bool" where
  "edges_agree B g \<longleftrightarrow>
     length (fst g) = B \<and> length (snd g) = B \<and>
     (\<forall>a<B. set (fst g ! a) \<subseteq> {..<B} \<and> set (snd g ! a) \<subseteq> {..<B} \<and>
        (\<forall>b<B. b \<in> set (fst g ! a) \<longleftrightarrow> a \<in> set (snd g ! b)))"

lemma edges_agree_push:
  assumes "edges_agree B (outgoing, incoming)" "a < B" "b < B"
  shows "edges_agree B (outgoing[a := outgoing ! a @ [b]], incoming[b := incoming ! b @ [a]])"
  using assms by (auto simp: edges_agree_def nth_list_update)

lemma connect_edges_correct:
  assumes "edges_agree B g" "block < B" "n = length blocks" "set blocks \<subseteq> {..<B}"
  shows "\<exists>g'. connect_edges n blocks block edges g = Inr g' \<and> edges_agree B g' \<and>
    (\<forall>a<B. set (fst g' ! a) = set (fst g ! a) \<union> (if a = block then {blocks ! e |e. e \<in> set edges \<and> e < n} else {}))"
  using assms(1)
proof (induction edges arbitrary: g)
  case (Cons e es)
  obtain outgoing incoming where gg: "g = (outgoing, incoming)" by (cases g)
  show ?case
  proof (cases "n \<le> e")
    case True
    then show ?thesis using Cons.IH [OF Cons.prems] gg by (auto simp: not_less)
  next
    case False
    define t where "t = blocks ! e"
    have e: "e < length blocks" using False assms(3) by simp
    then have t: "index_of blocks e = Inr t" "t < B"
      using subsetD [OF assms(4) nth_mem [OF e]] by (simp_all add: t_def)
    have o: "index_of outgoing block = Inr (outgoing ! block)" "block < length outgoing" "length incoming = B"
      using Cons.prems assms(2) gg by (auto simp: edges_agree_def)
    show ?thesis
    proof (cases "t \<in> set (outgoing ! block)")
      case True
      then show ?thesis
        using Cons.IH [OF Cons.prems] gg False t o by (auto simp: t_def)
    next
      case new: False
      let ?g = "(outgoing[block := outgoing ! block @ [t]], incoming[t := incoming ! t @ [block]])"
      have "edges_agree B ?g" using edges_agree_push Cons.prems assms(2) t(2) gg by blast
      then obtain g' where g': "connect_edges n blocks block es ?g = Inr g'" "edges_agree B g'"
        "\<forall>a<B. set (fst g' ! a) = set (fst ?g ! a) \<union> (if a = block then {blocks ! e |e. e \<in> set es \<and> e < n} else {})"
        using Cons.IH by blast
      have "connect_edges n blocks block (e # es) (outgoing, incoming) = Inr g'"
        using g'(1) False t o new by (simp add: push_at_def)
      moreover have "set (fst ?g ! a) = set (outgoing ! a) \<union> (if a = block then {t} else {})" if "a < B" for a
        using o(2) by (auto simp: nth_list_update)
      ultimately show ?thesis using g'(2,3) False gg by (auto simp: t_def)
    qed
  qed
qed auto

text \<open>The blocks a block leads to.\<close>

definition block_targets :: "chunk \<Rightarrow> nat list \<Rightarrow> nat list \<Rightarrow> nat \<Rightarrow> nat set" where
  "block_targets c S blocks a =
     {blocks ! e |e ss. successors c (block_end (length (code c)) S a - 1) = Inr ss \<and> e \<in> set ss \<and>
        e < length (code c)}"

lemma connect_blocks_correct:
  assumes "verify xxh3 c = Inr ()" "starts_ok (length (code c)) S" "length blocks = length (code c)"
    and "set blocks \<subseteq> {..<length S}" "edges_agree (length S) g" "set bs \<subseteq> {..<length S}"
  shows "\<exists>g'. connect_blocks c S blocks bs g = Inr g' \<and> edges_agree (length S) g' \<and>
    (\<forall>a<length S. set (fst g' ! a) = set (fst g ! a) \<union> (if a \<in> set bs then block_targets c S blocks a else {}))"
  using assms(5,6)
proof (induction bs arbitrary: g)
  case (Cons b bs)
  have e: "0 < block_end (length (code c)) S b" "block_end (length (code c)) S b \<le> length (code c)"
    using block_end_bounds [OF assms(2), of b] Cons.prems(2) by auto
  then have "block_end (length (code c)) S b - 1 < length (code c)" by linarith
  then obtain ss where ss: "successors c (block_end (length (code c)) S b - 1) = Inr ss"
    using verified_successors [OF assms(1)] by blast
  obtain g1 where g1: "connect_edges (length (code c)) blocks b ss g = Inr g1" "edges_agree (length S) g1"
    "\<forall>a<length S. set (fst g1 ! a) = set (fst g ! a) \<union>
       (if a = b then {blocks ! e |e. e \<in> set ss \<and> e < length (code c)} else {})"
    using connect_edges_correct [OF Cons.prems(1), of b "length (code c)" blocks ss] Cons.prems(2) assms(3,4) by auto
  have t: "{blocks ! e |e. e \<in> set ss \<and> e < length (code c)} = block_targets c S blocks b"
    using ss by (auto simp: block_targets_def)
  from Cons.IH [OF g1(2)] Cons.prems(2) obtain g' where "connect_blocks c S blocks bs g1 = Inr g'"
    "edges_agree (length S) g'"
    "\<forall>a<length S. set (fst g' ! a) = set (fst g1 ! a) \<union> (if a \<in> set bs then block_targets c S blocks a else {})"
    by auto
  with g1 e ss t show ?case by (auto simp: Let_def)
qed auto

text \<open>The block structure of a verified chunk.\<close>

definition block_structure :: "chunk \<Rightarrow> nat list \<Rightarrow> nat list \<Rightarrow> bool" where
  "block_structure c S blocks \<longleftrightarrow>
     starts_ok (length (code c)) S \<and>
     (\<forall>s<length (code c). s \<in> set S \<longleftrightarrow> s = 0 \<or> (\<exists>i<length (code c). demands_leader c i s)) \<and>
     length blocks = length (code c) \<and>
     (\<forall>b<length S. \<forall>i. S ! b \<le> i \<longrightarrow> i < block_end (length (code c)) S b \<longrightarrow> blocks ! i = b)"

definition block_flow :: "chunk \<Rightarrow> nat list \<Rightarrow> nat list \<Rightarrow> (nat \<times> nat) set" where
  "block_flow c S blocks = {(a, b). a < length S \<and> b \<in> block_targets c S blocks a}"

lemma block_of_bounds:
  assumes "block_structure c S blocks" "i < length (code c)"
  shows "blocks ! i < length S" "S ! (blocks ! i) \<le> i" "i < block_end (length (code c)) S (blocks ! i)"
proof -
  obtain b where b: "b < length S" "S ! b \<le> i" "i < block_end (length (code c)) S b"
    using block_exists [of "length (code c)" S i] assms by (auto simp: block_structure_def)
  then have "blocks ! i = b" using assms(1) by (auto simp: block_structure_def)
  with b show "blocks ! i < length S" "S ! (blocks ! i) \<le> i"
    "i < block_end (length (code c)) S (blocks ! i)" by simp_all
qed

lemma block_of_start:
  assumes "block_structure c S blocks" "s \<in> set S"
  shows "S ! (blocks ! s) = s"
proof -
  obtain b where b: "b < length S" "S ! b = s" using assms(2) by (auto simp: in_set_conv_nth)
  then have "blocks ! s = b"
    using assms(1) block_end_bounds(1) [of "length (code c)" S b] by (auto simp: block_structure_def)
  with b show ?thesis by simp
qed

lemma search_start:
  assumes "outgoing \<noteq> []"
  shows "search_inv outgoing (replicate (length outgoing) False) [] [(0, False)]"
  using assms by (simp add: search_inv_def)

lemma block_graph_correct:
  assumes V: "verify xxh3 c = Inr ()"
  shows "\<exists>g S. block_graph_of c = Inr g \<and> block_structure c S (graph_blocks g) \<and>
    length (graph_rank g) = length S \<and>
    ranked_graph (block_flow c S (graph_blocks g)) (graph_incoming g) (graph_order g) (graph_rank g) \<and>
    set (graph_order g) = (block_flow c S (graph_blocks g))\<^sup>* `` {0}"
proof -
  let ?n = "length (code c)"
  obtain leaders where l: "block_leaders c = Inr leaders" "length leaders = ?n"
    "\<forall>s<?n. leaders ! s \<longleftrightarrow> s = 0 \<or> (\<exists>i<?n. demands_leader c i s)"
    using block_leaders_correct [OF V] by blast
  define S where "S = block_starts leaders"
  note st = block_starts_correct [of leaders, folded S_def]
  have n: "0 < ?n" using verified_length [OF V] by simp
  then have 0: "0 \<in> set S" using st(2) l by simp
  then have "S ! 0 = 0" using st(1) by (cases S) auto
  moreover have "S \<noteq> []" using 0 by force
  moreover have "\<forall>s\<in>set S. s < ?n" using st(2) l(2) by simp
  ultimately have ok: "starts_ok ?n S" using st(1) by (simp add: starts_ok_def)
  obtain blocks where b: "fill_blocks ?n S (enumerate_from 0 S) (replicate ?n 0) = Inr blocks" "length blocks = ?n"
    "\<forall>b<length S. \<forall>i. S ! b \<le> i \<longrightarrow> i < block_end ?n S b \<longrightarrow> blocks ! i = b"
    using fill_blocks_all [OF ok] by blast
  have B: "block_structure c S blocks" using ok st(2) l b by (auto simp: block_structure_def)
  have sub: "set blocks \<subseteq> {..<length S}"
    using block_of_bounds(1) [OF B] b(2) by (auto simp: in_set_conv_nth)
  have "edges_agree (length S) (replicate (length S) [], replicate (length S) [])"
    by (simp add: edges_agree_def)
  then obtain outgoing incoming where g: "connect_blocks c S blocks [0..<length S]
      (replicate (length S) [], replicate (length S) []) = Inr (outgoing, incoming)"
    "edges_agree (length S) (outgoing, incoming)"
    "\<forall>a<length S. set (outgoing ! a) = block_targets c S blocks a"
    using connect_blocks_correct [OF V ok b(2) sub, of "(replicate (length S) [], replicate (length S) [])"
        "[0..<length S]"] by (auto simp: atLeast0LessThan)
  have len: "length outgoing = length S" "length incoming = length S" "outgoing \<noteq> []"
    using g(2) 0 by (auto simp: edges_agree_def)
  have E: "block_edge_set outgoing = block_flow c S blocks"
    using g(3) len(1) by (auto simp: block_edge_set_def block_flow_def)
  have in_range: "\<forall>a<length outgoing. set (outgoing ! a) \<subseteq> {..<length outgoing}"
    using g(2) len by (simp add: edges_agree_def)
  obtain post visited where p: "block_postorder outgoing (replicate (length S) False) [] [(0, False)] = Inr post"
    "search_inv outgoing visited post []"
    using block_postorder_correct [OF search_start [OF len(3)] in_range] len by auto
  have ne: "post \<noteq> []" using search_invD(10) [OF p(2)] by auto
  have inc: "\<forall>b<length outgoing. set (incoming ! b) = {a. (a, b) \<in> block_edge_set outgoing}"
    using g(2) len by (auto simp: edges_agree_def block_edge_set_def)
  obtain rank where r: "assign_ranks (enumerate_from 0 (rev post)) (replicate (length S) USIZE_MAX) = Inr rank"
    "length rank = length S" "ranked_graph (block_flow c S blocks) incoming (rev post) rank"
    using search_order [OF p(2) _ inc ne] len E by auto
  have "set post \<subseteq> (block_flow c S blocks)\<^sup>* `` {0}" using search_invD(9) [OF p(2)] E by simp
  moreover have "x \<in> set post" if "(0, x) \<in> (block_flow c S blocks)\<^sup>*" for x
    using that ranked_graphD(4,6) [OF r(3)] by (induction rule: rtrancl_induct) auto
  ultimately have order: "set (rev post) = (block_flow c S blocks)\<^sup>* `` {0}" by auto
  have "block_graph_of c =
      Inr \<lparr>graph_blocks = blocks, graph_incoming = incoming, graph_order = rev post, graph_rank = rank\<rparr>"
    using l(1) b(1) g(1) p(1) r(1) by (simp add: block_graph_of_def S_def Let_def)
  with B r(2,3) order show ?thesis by auto
qed

section \<open>From blocks to instructions\<close>

text \<open>
  The specification. A path starts at the entry and follows successors inside the code. Exception
  edges are not part of it, as they are not part of the graph the code builds.
\<close>

definition flow_edges :: "chunk \<Rightarrow> (nat \<times> nat) set" where
  "flow_edges c = {(i, s). i < length (code c) \<and> s < length (code c) \<and>
     (\<exists>ss. successors c i = Inr ss \<and> s \<in> set ss)}"

inductive flow_path :: "chunk \<Rightarrow> nat list \<Rightarrow> nat \<Rightarrow> bool" for c where
  entry: "flow_path c [0] 0"
| step: "flow_path c path i \<Longrightarrow> (i, s) \<in> flow_edges c \<Longrightarrow> flow_path c (path @ [s]) s"

definition dominated :: "chunk \<Rightarrow> nat \<Rightarrow> nat \<Rightarrow> bool" where
  "dominated c candidate target \<longleftrightarrow> (\<forall>path. flow_path c path target \<longrightarrow> candidate \<in> set path)"

lemma avoids_flow_path: "avoids (flow_edges c) d i \<longleftrightarrow> (\<exists>path. flow_path c path i \<and> d \<notin> set path)"
proof
  assume "avoids (flow_edges c) d i"
  then obtain n where "i \<in> avoid_set (flow_edges c) d n" by (auto simp: avoids_def)
  then show "\<exists>path. flow_path c path i \<and> d \<notin> set path"
  proof (induction n arbitrary: i)
    case 0
    then show ?case using flow_path.entry [of c] by (intro exI [of _ "[0]"]) auto
  next
    case (Suc n)
    show ?case
    proof (cases "i \<in> avoid_set (flow_edges c) d n")
      case False
      then obtain p where p: "p \<in> avoid_set (flow_edges c) d n" "(p, i) \<in> flow_edges c" "i \<noteq> d"
        using Suc.prems by auto
      then obtain path where "flow_path c path p" "d \<notin> set path" using Suc.IH by blast
      with p show ?thesis by (intro exI [of _ "path @ [i]"]) (auto intro: flow_path.step)
    qed (rule Suc.IH)
  qed
next
  assume "\<exists>path. flow_path c path i \<and> d \<notin> set path"
  then obtain path where "flow_path c path i" "d \<notin> set path" by blast
  then show "avoids (flow_edges c) d i"
    by (induction rule: flow_path.induct) (auto intro: avoids_step)
qed

lemma dominated_avoids: "dominated c d i \<longleftrightarrow> \<not> avoids (flow_edges c) d i"
  by (auto simp: dominated_def avoids_flow_path)

lemma inner_successor:
  assumes "block_structure c S blocks" "i < length (code c)" "i + 1 < block_end (length (code c)) S (blocks ! i)"
  shows "successors c i = Inr [i + 1]" "i + 1 < length (code c)" "blocks ! (i + 1) = blocks ! i"
proof -
  note b = block_of_bounds [OF assms(1,2)]
  have ok: "starts_ok (length (code c)) S" using assms(1) by (simp add: block_structure_def)
  show n: "i + 1 < length (code c)" using assms(3) block_end_bounds(2) [OF ok b(1)] by simp
  show blk: "blocks ! (i + 1) = blocks ! i"
    using assms(1,3) b(1,2) unfolding block_structure_def by (metis le_add1 le_trans)
  have "i + 1 \<notin> set S" using block_of_start [OF assms(1), of "i + 1"] blk b(2) by auto
  then have "\<not> demands_leader c i (i + 1)" using assms(1,2) n by (auto simp: block_structure_def)
  then show "successors c i = Inr [i + 1]"
    using successors_straight assms(2) by (auto simp: demands_leader_def)
qed

lemma final_successor:
  assumes "block_structure c S blocks" "i < length (code c)" "i + 1 = block_end (length (code c)) S (blocks ! i)"
    and "(i, s) \<in> flow_edges c"
  shows "s \<in> set S" "(blocks ! i, blocks ! s) \<in> block_flow c S blocks"
proof -
  note b = block_of_bounds [OF assms(1,2)]
  obtain ss where ss: "successors c i = Inr ss" "s \<in> set ss" "s < length (code c)"
    using assms(4) by (auto simp: flow_edges_def)
  show "s \<in> set S"
  proof (cases "branches_or_terminates (code c ! i)")
    case True
    then have "demands_leader c i s" using ss by (auto simp: demands_leader_def)
    then show ?thesis using assms(1,2) ss(3) by (auto simp: block_structure_def)
  next
    case False
    then have "s = block_end (length (code c)) S (blocks ! i)"
      using successors_straight [OF assms(2)] ss assms(3) by simp
    with ss(3) b(1) show ?thesis by (auto simp: block_end_nth split: if_splits)
  qed
  have "successors c (block_end (length (code c)) S (blocks ! i) - 1) = Inr ss"
    using assms(3) ss(1) by (metis add_diff_cancel_right')
  then show "(blocks ! i, blocks ! s) \<in> block_flow c S blocks"
    using b(1) ss unfolding block_flow_def block_targets_def by blast
qed

text \<open>The block of an index, and one more than the last block for what is no index of the code.\<close>

definition block_or_none :: "chunk \<Rightarrow> nat list \<Rightarrow> nat list \<Rightarrow> nat \<Rightarrow> nat" where
  "block_or_none c S blocks i = (if i < length (code c) then blocks ! i else length S)"

lemma avoids_to_blocks:
  assumes "block_structure c S blocks" "0 < length (code c)" "x \<in> avoid_set (flow_edges c) i n"
  shows "x < length (code c) \<and>
    (if i < length (code c) \<and> blocks ! x = blocks ! i then x < i
     else avoids (block_flow c S blocks) (block_or_none c S blocks i) (blocks ! x))"
  using assms(3)
proof (induction n arbitrary: x)
  case 0
  have "0 \<in> set S" using assms(1) by (auto simp: block_structure_def starts_ok_def in_set_conv_nth)
  then have "blocks ! 0 = 0" using assms(1) block_end_bounds(1) [of "length (code c)" S 0]
    by (auto simp: block_structure_def starts_ok_def)
  moreover have "0 < length S" using assms(1) by (auto simp: block_structure_def starts_ok_def)
  ultimately show ?case using 0 assms(2) by (auto simp: block_or_none_def)
next
  case (Suc n)
  show ?case
  proof (cases "x \<in> avoid_set (flow_edges c) i n")
    case False
    then obtain p where p: "p \<in> avoid_set (flow_edges c) i n" "(p, x) \<in> flow_edges c" "x \<noteq> i"
      using Suc.prems by auto
    note IH = Suc.IH [OF p(1)]
    then have pn: "p < length (code c)" by simp
    note b = block_of_bounds [OF assms(1) pn]
    have x: "x < length (code c)" using p(2) by (simp add: flow_edges_def)
    show ?thesis
    proof (cases "p + 1 < block_end (length (code c)) S (blocks ! p)")
      case True
      note s = inner_successor [OF assms(1) pn True]
      then have "x = p + 1" using p(2) by (auto simp: flow_edges_def)
      then show ?thesis using IH s p(3) by (auto split: if_splits)
    next
      case False
      then have last: "p + 1 = block_end (length (code c)) S (blocks ! p)" using b(3) by simp
      note f = final_successor [OF assms(1) pn last p(2)]
      have "\<not> (i < length (code c) \<and> blocks ! p = blocks ! i)"
        using IH block_of_bounds(3) [OF assms(1), of i] last by auto
      then have a: "avoids (block_flow c S blocks) (block_or_none c S blocks i) (blocks ! p)"
        using IH by auto
      have "x < i" if "i < length (code c)" "blocks ! x = blocks ! i"
        using block_of_start [OF assms(1) f(1)] block_of_bounds(2) [OF assms(1) that(1)] that(2) p(3) by simp
      moreover have "blocks ! x \<noteq> block_or_none c S blocks i" if "\<not> (i < length (code c) \<and> blocks ! x = blocks ! i)"
        using that block_of_bounds(1) [OF assms(1) x] by (auto simp: block_or_none_def)
      ultimately show ?thesis using x avoids_step [OF a f(2)] by auto
    qed
  qed (rule Suc.IH)
qed

lemma avoids_in_block:
  assumes "block_structure c S blocks" "b < length S" "avoids (flow_edges c) i (S ! b)"
    and "S ! b \<le> x" "x < block_end (length (code c)) S b" "\<not> (S ! b \<le> i \<and> i \<le> x)"
  shows "avoids (flow_edges c) i x"
  using assms(4-6)
proof (induction x rule: dec_induct)
  case base
  then show ?case using assms(3) by simp
next
  case (step x)
  have ok: "starts_ok (length (code c)) S" using assms(1) by (simp add: block_structure_def)
  have x: "x < length (code c)" "blocks ! x = b"
    using step block_end_bounds(2) [OF ok assms(2)] assms(1,2) by (auto simp: block_structure_def)
  note s = inner_successor [OF assms(1) x(1)]
  have "(x, Suc x) \<in> flow_edges c" using s step.prems x by (simp add: flow_edges_def)
  moreover have "avoids (flow_edges c) i x" using step by auto
  ultimately show ?case using step by (auto intro: avoids_step)
qed

lemma block_edge_enters:
  assumes "block_structure c S blocks" "(a, b) \<in> block_flow c S blocks"
  shows "b < length S \<and> (block_end (length (code c)) S a - 1, S ! b) \<in> flow_edges c"
proof -
  let ?l = "block_end (length (code c)) S a - 1"
  have ok: "starts_ok (length (code c)) S" using assms(1) by (simp add: block_structure_def)
  obtain e ss where e: "a < length S" "successors c ?l = Inr ss" "e \<in> set ss" "e < length (code c)" "b = blocks ! e"
    using assms(2) by (auto simp: block_flow_def block_targets_def)
  note bounds = block_end_bounds [OF ok e(1)]
  have l: "?l < length (code c)" "?l + 1 = block_end (length (code c)) S a" "S ! a \<le> ?l" using bounds by auto
  then have "blocks ! ?l = a" using assms(1) e(1) by (simp add: block_structure_def)
  moreover have edge: "(?l, e) \<in> flow_edges c" using e l(1) by (auto simp: flow_edges_def)
  ultimately have "e \<in> set S" using final_successor(1) [OF assms(1) l(1)] l(2) by simp
  then have "S ! b = e" using block_of_start [OF assms(1)] e(5) by simp
  with edge block_of_bounds(1) [OF assms(1) e(4)] e(5) show ?thesis by simp
qed

lemma block_0:
  assumes "block_structure c S blocks"
  shows "S ! 0 = 0" "0 < length S"
  using assms by (auto simp: block_structure_def starts_ok_def)

lemma blocks_to_avoids:
  assumes "block_structure c S blocks"
    and "b \<in> avoid_set (block_flow c S blocks) (block_or_none c S blocks i) n"
    and "S ! b \<le> x" "x < block_end (length (code c)) S b"
  shows "b < length S \<and> avoids (flow_edges c) i x"
  using assms(2-4)
proof (induction n arbitrary: b x)
  note other = block_of_bounds [OF assms(1), of i]
  have outside: "\<not> (S ! b \<le> i \<and> i \<le> x)"
    if "b < length S" "b \<noteq> block_or_none c S blocks i" "x < block_end (length (code c)) S b" for b x
    using that assms(1) block_end_bounds(2) [of "length (code c)" S b]
    by (auto simp: block_or_none_def block_structure_def split: if_splits)
  {
    case 0
    then have "i \<noteq> 0" using outside [of 0 0] block_0 [OF assms(1)] by auto
    then show ?case
      using 0 avoids_in_block [OF assms(1) block_0(2) [OF assms(1)], of i x] outside [of 0 x] block_0 [OF assms(1)]
      by auto
  next
    case (Suc n)
    show ?case
    proof (cases "b \<in> avoid_set (block_flow c S blocks) (block_or_none c S blocks i) n")
      case False
      then obtain a where a: "a \<in> avoid_set (block_flow c S blocks) (block_or_none c S blocks i) n"
        "(a, b) \<in> block_flow c S blocks" "b \<noteq> block_or_none c S blocks i" using Suc.prems(1) by auto
      note e = block_edge_enters [OF assms(1) a(2)]
      have ok: "starts_ok (length (code c)) S" using assms(1) by (simp add: block_structure_def)
      have "a < length S" using a(2) by (simp add: block_flow_def)
      note bounds = block_end_bounds [OF ok this]
      have "avoids (flow_edges c) i (block_end (length (code c)) S a - 1)"
        using Suc.IH [OF a(1), of "block_end (length (code c)) S a - 1"] bounds by simp
      moreover have "S ! b \<noteq> i"
        using outside [of b "S ! b"] e a(3) block_end_bounds(1) [OF ok, of b] by auto
      ultimately have "avoids (flow_edges c) i (S ! b)" using e by (auto intro: avoids_step)
      then show ?thesis
        using avoids_in_block [OF assms(1) _ _ Suc.prems(2,3)] outside [of b x] e a(3) Suc.prems(3) by auto
    qed (use Suc in blast)
  }
qed

lemma first_entry:
  assumes "(0, b) \<in> E\<^sup>*" "b \<noteq> 0"
  shows "\<exists>a. avoids E b a \<and> (a, b) \<in> E"
proof -
  have "(0, x) \<in> E\<^sup>* \<Longrightarrow> avoids E b x \<or> (\<exists>a. avoids E b a \<and> (a, b) \<in> E)" for x
    by (induction rule: rtrancl_induct) (use assms(2) in \<open>auto intro: avoids_step\<close>)
  from this [OF assms(1)] show ?thesis by auto
qed

lemma reaches_avoids: 
  assumes "d \<notin> snd ` E" "d \<noteq> 0"
  shows "(0, b) \<in> E\<^sup>* \<longleftrightarrow> avoids E d b"
proof
  show "avoids E d b" if "(0, b) \<in> E\<^sup>*"
    using that
  proof (induction rule: rtrancl_induct)
    case (step a b)
    then have "b \<noteq> d" using assms(1) by force
    with step show ?case by (blast intro: avoids_step)
  qed (use assms(2) in simp)
  assume "avoids E d b"
  then obtain n where "b \<in> avoid_set E d n" by (auto simp: avoids_def)
  then show "(0, b) \<in> E\<^sup>*" by (induction n arbitrary: b) (auto intro: rtrancl_into_rtrancl)
qed

text \<open>Domination and reachability of instructions, read off the blocks.\<close>

lemma dominated_other_block:
  assumes "block_structure c S blocks" "0 < length (code c)" "j < length (code c)"
    "block_or_none c S blocks i \<noteq> blocks ! j"
  shows "avoids (flow_edges c) i j \<longleftrightarrow> avoids (block_flow c S blocks) (block_or_none c S blocks i) (blocks ! j)"
proof
  assume "avoids (flow_edges c) i j"
  then obtain n where "j \<in> avoid_set (flow_edges c) i n" by (auto simp: avoids_def)
  moreover have "\<not> (i < length (code c) \<and> blocks ! j = blocks ! i)" using assms(4) by (auto simp: block_or_none_def)
  ultimately show "avoids (block_flow c S blocks) (block_or_none c S blocks i) (blocks ! j)"
    using avoids_to_blocks [OF assms(1,2), of j i] by (meson if_False)
next
  assume "avoids (block_flow c S blocks) (block_or_none c S blocks i) (blocks ! j)"
  then show "avoids (flow_edges c) i j"
    using blocks_to_avoids [OF assms(1) _ block_of_bounds(2,3) [OF assms(1,3)]]
    by (auto simp: avoids_def [of "block_flow c S blocks"])
qed

lemma dominated_same_block:
  assumes "block_structure c S blocks" "0 < length (code c)" "i < length (code c)" "j < length (code c)"
    and "blocks ! i = blocks ! j" "(0, blocks ! j) \<in> (block_flow c S blocks)\<^sup>*"
  shows "avoids (flow_edges c) i j \<longleftrightarrow> j < i"
proof
  assume "avoids (flow_edges c) i j"
  then show "j < i" using avoids_to_blocks [OF assms(1,2), of j i] assms(3,5) by (auto simp: avoids_def)
next
  assume "j < i"
  let ?b = "blocks ! j"
  note b = block_of_bounds [OF assms(1,4)]
  have "avoids (flow_edges c) i (S ! ?b)"
  proof (cases "?b = 0")
    case True
    then show ?thesis using block_0 [OF assms(1)] \<open>j < i\<close> by simp
  next
    case False
    obtain a where a: "avoids (block_flow c S blocks) ?b a" "(a, ?b) \<in> block_flow c S blocks"
      using first_entry [OF assms(6) False] by blast
    have ok: "starts_ok (length (code c)) S" using assms(1) by (simp add: block_structure_def)
    have "a < length S" using a(2) by (simp add: block_flow_def)
    note bounds = block_end_bounds [OF ok this]
    have "avoids (flow_edges c) i (block_end (length (code c)) S a - 1)"
      using a(1) blocks_to_avoids [OF assms(1), of a i _ "block_end (length (code c)) S a - 1"] bounds assms(3,5)
      by (auto simp: avoids_def [of "block_flow c S blocks"] block_or_none_def)
    then show ?thesis
      using block_edge_enters [OF assms(1) a(2)] b(2) \<open>j < i\<close> by (auto intro: avoids_step)
  qed
  then show "avoids (flow_edges c) i j"
    using avoids_in_block [OF assms(1) b(1) _ b(2,3), of i] \<open>j < i\<close> by simp
qed

lemma block_reached:
  assumes "block_structure c S blocks" "0 < length (code c)" "j < length (code c)"
  shows "(\<exists>path. flow_path c path j) \<longleftrightarrow> (0, blocks ! j) \<in> (block_flow c S blocks)\<^sup>*"
proof -
  let ?n = "length (code c)"
  have path: "?n \<notin> set path" if "flow_path c path i" for path i
    using that assms(2) by (induction rule: flow_path.induct) (auto simp: flow_edges_def)
  have "(\<exists>path. flow_path c path j) \<longleftrightarrow> avoids (flow_edges c) ?n j"
    using path by (auto simp: avoids_flow_path)
  also have "\<dots> \<longleftrightarrow> avoids (block_flow c S blocks) (length S) (blocks ! j)"
    using dominated_other_block [OF assms, of ?n] block_of_bounds(1) [OF assms(1,3)] by (simp add: block_or_none_def)
  also have "\<dots> \<longleftrightarrow> (0, blocks ! j) \<in> (block_flow c S blocks)\<^sup>*"
    using reaches_avoids [of "length S" "block_flow c S blocks"] block_edge_enters [OF assms(1)] block_0(2) [OF assms(1)]
    by fastforce
  finally show ?thesis .
qed

section \<open>Properties\<close>

lemma dominators_new_correct:
  assumes "verify xxh3 c = Inr ()"
  shows "\<exists>d (g :: block_graph) S. dominators_new c = Some (Inr d) \<and> block_of d = graph_blocks g \<and>
    block_structure c S (graph_blocks g) \<and> length (graph_rank g) = length S \<and>
    ranked_graph (block_flow c S (graph_blocks g)) (graph_incoming g) (graph_order g) (graph_rank g) \<and>
    set (graph_order g) = (block_flow c S (graph_blocks g))\<^sup>* `` {0} \<and>
    tree_inv (block_flow c S (graph_blocks g)) (graph_order g) (graph_rank g) (immediate_of d) \<and>
    tree_dominators (block_flow c S (graph_blocks g)) (graph_order g) (immediate_of d)"
proof -
  obtain g S where g: "block_graph_of c = Inr g" "block_structure c S (graph_blocks g)"
    "length (graph_rank g) = length S"
    "ranked_graph (block_flow c S (graph_blocks g)) (graph_incoming g) (graph_order g) (graph_rank g)"
    "set (graph_order g) = (block_flow c S (graph_blocks g))\<^sup>* `` {0}"
    using block_graph_correct [OF assms] by blast
  from dominator_loop_exact [OF g(4) initial_tree [OF g(4)]]
  obtain im where im: "dominator_loop (graph_incoming g) (graph_rank g) (graph_order g)
      ((replicate (length (graph_rank g)) None)[0 := Some 0]) = Some (Inr im)"
    "tree_inv (block_flow c S (graph_blocks g)) (graph_order g) (graph_rank g) im"
    "tree_dominators (block_flow c S (graph_blocks g)) (graph_order g) im" by blast
  define d where "d = \<lparr>block_of = graph_blocks g, immediate_of = im\<rparr>"
  have "dominators_new c = Some (Inr d)" "block_of d = graph_blocks g" "tree_inv (block_flow c S (graph_blocks g)) (graph_order g) (graph_rank g) (immediate_of d)"
    "tree_dominators (block_flow c S (graph_blocks g)) (graph_order g) (immediate_of d)"
    using g(1) im by (simp_all add: dominators_new_def d_def)
  with g(2-5) show ?thesis by blast
qed

text \<open>C8. The dominator tree of a verified chunk. Its construction returns without a panic although
  none of its loops has a bound; an instruction counts as reachable exactly when a path from the entry
  reaches it; and for a reachable target the query answers whether every path from the entry to it
  passes the candidate.\<close>

theorem dominators_exact:
  assumes "verify xxh3 c = Inr ()"
  shows "\<exists>d. dominators_new c = Some (Inr d) \<and>
    (\<forall>i<length (code c). is_reachable d i = Inr (\<exists>path. flow_path c path i)) \<and>
    (\<forall>i<length (code c). \<forall>j<length (code c). (\<exists>path. flow_path c path j) \<longrightarrow>
       dominates d i j = Some (Inr (dominated c i j)))"
proof -
  obtain d and g :: block_graph and S where d: "dominators_new c = Some (Inr d)" "block_of d = graph_blocks g"
    and B: "block_structure c S (graph_blocks g)" and len: "length (graph_rank g) = length S"
    and G: "ranked_graph (block_flow c S (graph_blocks g)) (graph_incoming g) (graph_order g) (graph_rank g)"
    and order: "set (graph_order g) = (block_flow c S (graph_blocks g))\<^sup>* `` {0}"
    and I: "tree_inv (block_flow c S (graph_blocks g)) (graph_order g) (graph_rank g) (immediate_of d)"
    and T: "tree_dominators (block_flow c S (graph_blocks g)) (graph_order g) (immediate_of d)"
    using dominators_new_correct [OF assms] by blast
  let ?blk = "\<lambda>i. graph_blocks g ! i" and ?im = "immediate_of d"
  have n: "0 < length (code c)" using verified_length [OF assms] by simp
  have bl: "length (graph_blocks g) = length (code c)" using B by (simp add: block_structure_def)
  have il: "length ?im = length S" using tree_invD(1) [OF I] len by simp
  have blk: "?blk i < length ?im" if "i < length (code c)" for i
    using block_of_bounds(1) [OF B that] il by simp
  have reached: "?im ! ?blk i \<noteq> None \<longleftrightarrow> (\<exists>path. flow_path c path i)" if "i < length (code c)" for i
    using T blk [OF that] order block_reached [OF B n that] by (simp add: tree_dominators_def)
  have "is_reachable d i = Inr (\<exists>path. flow_path c path i)" if "i < length (code c)" for i
    using reached [OF that] that blk [OF that] bl d(2) by (simp add: is_reachable_def index_of_nth)
  moreover have "dominates d i j = Some (Inr (dominated c i j))"
    if ij: "i < length (code c)" "j < length (code c)" and path: "\<exists>path. flow_path c path j" for i j
  proof -
    have r: "(0, ?blk j) \<in> (block_flow c S (graph_blocks g))\<^sup>*" using path block_reached [OF B n ij(2)] by simp
    show ?thesis
    proof (cases "?blk i = ?blk j")
      case True
      then show ?thesis
        using dominated_same_block [OF B n ij True r] ij bl d(2)
        by (auto simp: dominates_def dominated_avoids index_of_nth)
    next
      case False
      have "climb_to ?im (?blk i) (?blk j) = Some (Inr (?blk i \<in> tree_chain ?im (?blk j)))"
        by (rule climb_to_chain [OF G I _ _ False]) (use blk [OF ij(2)] len il reached [OF ij(2)] path in simp_all)
      moreover have "?blk i \<in> tree_chain ?im (?blk j) \<longleftrightarrow> dominated c i j"
        using T order r dominated_other_block [OF B n ij(2), of i] False ij(1)
        by (auto simp: tree_dominators_def dominated_avoids block_or_none_def)
      ultimately show ?thesis using False ij bl d(2) by (simp add: dominates_def index_of_nth)
    qed
  qed
  ultimately show ?thesis using d(1) by blast
qed

lemma sample_chunk_edges: "(0, 2) \<in> flow_edges sample_chunk" "(2, 3) \<in> flow_edges sample_chunk"
  by (simp_all add: flow_edges_def successors_def index_of_def jumps_always_def instruction_targets_def
      branch_offsets_def branch_of_def relative_target_def)

theorem dominators_exact_witness:
  "\<exists>d. dominators_new sample_chunk = Some (Inr d) \<and> dominates d 0 3 = Some (Inr True) \<and>
     is_reachable d 2 = Inr True"
proof -
  note p = flow_path.entry flow_path.step [OF flow_path.entry sample_chunk_edges(1)]
  have p3: "flow_path sample_chunk (([0] @ [2]) @ [3]) 3"
    by (rule flow_path.step [OF p(2) sample_chunk_edges(2)])
  moreover have "0 \<in> set path" if "flow_path sample_chunk path i" for path i
    using that by induction auto
  then have "dominated sample_chunk 0 3" by (simp add: dominated_def)
  moreover obtain d where d: "dominators_new sample_chunk = Some (Inr d)"
    "\<forall>i<4. is_reachable d i = Inr (\<exists>path. flow_path sample_chunk path i)"
    "\<forall>i<4. \<forall>j<4. (\<exists>path. flow_path sample_chunk path j) \<longrightarrow>
       dominates d i j = Some (Inr (dominated sample_chunk i j))"
    using dominators_exact [OF sample_chunk_verified] by auto
  moreover have "dominates d 0 3 = Some (Inr (dominated sample_chunk 0 3))"
    by (rule d(3) [rule_format]) (use p3 in auto)
  ultimately show ?thesis using p(2) by (intro exI [of _ d]) auto
qed
end
