(* ===== verification/Whim_Passes.thy ===== *)
theory Whim_Passes
  imports Whim_Liveness Whim_Prune Whim_Registers
begin

unbundle bit_operations_syntax

text \<open>
  Passes of the optimizer that rest on liveness, effects and control flow
  (\<^verbatim>\<open>crates/optimizer/src/passes/\<close>): the removal of clears, straight-line copy propagation, the fusion of
  an increment with its jump, the duplication of returns and the elision of iteration keys. A pass
  takes its switch of the configuration as a boolean and returns the chunk with what it adds to the
  statistics.
\<close>

section \<open>Shared steps\<close>

definition compact_removed_instructions :: "bool list \<Rightarrow> chunk \<Rightarrow> panic + chunk \<times> nat" where
  "compact_removed_instructions remove c =
     (let removed = length (filter id remove)
      in if removed \<noteq> 0 then result_map (\<lambda>c. (c, removed)) (compact remove c) else Inr (c, removed))"

definition in_mask :: "chunk \<Rightarrow> register \<Rightarrow> panic + bool" where
  "in_mask c r = result_map (\<lambda>b. reference_register_mask c AND b \<noteq> 0) (register_bit r)"

section \<open>Removal of clears\<close>

definition cleared :: "instruction \<Rightarrow> register option" where
  "cleared ins = (case ins of Load (Clear target) \<Rightarrow> Some target | _ \<Rightarrow> None)"

definition clear_is_redundant ::
  "chunk \<Rightarrow> nat set \<Rightarrow> liveness_queries \<Rightarrow> nat \<Rightarrow> panic + bool" where
  "clear_is_redundant c targets q index =
     (case cleared (code c ! index) of
        None \<Rightarrow> Inr False
      | Some target \<Rightarrow>
          if target \<in> set (trace_argument_registers c) then Inr False
          else if index \<noteq> 0 \<and> index \<notin> targets \<and> cleared (code c ! (index - 1)) = Some target then Inr True
          else if target \<ge> REFERENCE_REGISTER_LIMIT then Inr False
          else result_bind (in_mask c target) (\<lambda>may_own.
            if may_own then Inr False else queries_dead_after q c target (index + 1)))"

definition prune_clears :: "chunk \<Rightarrow> (panic + chunk \<times> nat) option" where
  "prune_clears c =
     (let clear_count = length (filter (\<lambda>ins. cleared ins \<noteq> None) (code c))
      in if clear_count = 0 then Some (Inr (c, 0))
         else case control_flow_targets c of
           Inl p \<Rightarrow> Some (Inl p)
         | Inr targets \<Rightarrow>
             map_option (\<lambda>queries. result_bind queries (\<lambda>q.
               result_bind (traverse (clear_is_redundant c targets q) [0..<length (code c)])
                 (\<lambda>remove. compact_removed_instructions remove c)))
               (for_chunk c clear_count))"

section \<open>Copy propagation\<close>

definition passes_many_arguments :: "instruction \<Rightarrow> bool" where
  "passes_many_arguments ins \<longleftrightarrow>
     (case ins of
        CallOp (CallNamedUnchecked argument_count _ _ _) \<Rightarrow> unat argument_count > 1
      | CallOp (CallSelfUnchecked argument_count _ _) \<Rightarrow> unat argument_count > 1
      | _ \<Rightarrow> False)"

text \<open>The scan behind a copy: reads of the destination become reads of the source.\<close>

fun propagate_copy ::
  "nat set \<Rightarrow> register \<Rightarrow> register \<Rightarrow> nat \<Rightarrow> nat list \<Rightarrow> chunk \<Rightarrow> panic + chunk" where
  "propagate_copy targets destination source index [] c = Inr c"
| "propagate_copy targets destination source index (cursor # cursors) c =
     (if cursor \<noteq> index + 1 \<and> cursor \<in> targets then Inr c
      else
        let ins = code c ! cursor;
            go_on = (\<lambda>c. result_bind (effect_on c ins destination) (\<lambda>d.
              result_bind (effect_on c ins source) (\<lambda>s.
                if writes d \<or> writes s \<or> branches_or_terminates ins then Inr c
                else propagate_copy targets destination source index cursors c)))
        in case replace_read_register ins destination source of
             Some replacement \<Rightarrow> go_on (c\<lparr>code := (code c)[cursor := replacement]\<rparr>)
           | None \<Rightarrow> result_bind (effect_on c ins destination) (\<lambda>e. if reads e then Inr c else go_on c))"

definition copied :: "instruction \<Rightarrow> (register \<times> register) option" where
  "copied ins = (case ins of Load (Move destination source) \<Rightarrow> Some (destination, source) | _ \<Rightarrow> None)"

text \<open>A copy into a local that may own a reference stays.\<close>

definition owning_local :: "chunk \<Rightarrow> register \<Rightarrow> panic + bool" where
  "owning_local c r =
     (if r < local_register_count c
      then (if register_count c > REFERENCE_REGISTER_LIMIT then Inr True else in_mask c r)
      else Inr False)"

fun propagate_copies :: "nat set \<Rightarrow> nat list \<Rightarrow> chunk \<Rightarrow> bool list \<Rightarrow> panic + chunk \<times> bool list" where
  "propagate_copies targets [] c remove = Inr (c, remove)"
| "propagate_copies targets (index # indices) c remove =
     (case copied (code c ! index) of
        None \<Rightarrow> propagate_copies targets indices c remove
      | Some (destination, source) \<Rightarrow>
          if destination = source then propagate_copies targets indices c remove
          else result_bind (owning_local c destination) (\<lambda>owning.
            if owning \<or> index + 1 \<in> targets then propagate_copies targets indices c remove
            else result_bind (propagate_copy targets destination source index [index + 1..<length (code c)] c) (\<lambda>c.
              result_bind (register_is_dead_after c destination (index + 1)) (\<lambda>dead.
                propagate_copies targets indices c (if dead then remove[index := True] else remove)))))"

definition copy_propagation :: "bool \<Rightarrow> chunk \<Rightarrow> panic + chunk \<times> nat" where
  "copy_propagation enabled c =
     (if \<not> enabled \<or> length (code c) < 2 \<or> list_ex passes_many_arguments (code c) then Inr (c, 0)
      else result_bind (control_flow_targets c) (\<lambda>targets.
        result_bind (propagate_copies targets [0..<length (code c) - 1] c (replicate (length (code c)) False))
          (\<lambda>(c, remove). compact_removed_instructions remove c)))"

section \<open>Fusion of an increment with its jump\<close>

definition increment_of :: "instruction \<Rightarrow> (register \<times> register \<times> immediate_int) option" where
  "increment_of ins =
     (case ins of
        Arithmetic (Step destination source immediate _) \<Rightarrow> Some (destination, source, immediate)
      | Arithmetic (AddImmediate destination source immediate (Some I64)) \<Rightarrow> Some (destination, source, immediate)
      | _ \<Rightarrow> None)"

fun fuse_increments :: "nat set \<Rightarrow> nat list \<Rightarrow> chunk \<Rightarrow> bool list \<Rightarrow> chunk \<times> bool list" where
  "fuse_increments targets [] c remove = (c, remove)"
| "fuse_increments targets (index # indices) c remove =
     (case (increment_of (code c ! index), jump_of (code c ! (index + 1))) of
        (Some (destination, source, immediate), Some rel) \<Rightarrow>
          let relative = int index + 1 + sint rel - int index
          in if destination \<noteq> source \<or> sint immediate < 0 \<or> index + 1 \<in> targets \<or>
                relative < - (2 ^ 15) \<or> 2 ^ 15 \<le> relative
             then fuse_increments targets indices c remove
             else fuse_increments targets indices
               (c\<lparr>code := (code c)[index := LoopOp (IncrementJump destination immediate (of_int relative))]\<rparr>)
               (remove[index + 1 := True])
      | _ \<Rightarrow> fuse_increments targets indices c remove)"

definition fuse_increment_jump :: "bool \<Rightarrow> chunk \<Rightarrow> panic + chunk \<times> nat" where
  "fuse_increment_jump enabled c =
     (if \<not> enabled \<or> length (code c) < 2 then Inr (c, 0)
      else result_bind (control_flow_targets c) (\<lambda>targets.
        let (c, remove) =
          fuse_increments targets [0..<length (code c) - 1] c (replicate (length (code c)) False)
        in compact_removed_instructions remove c))"

section \<open>Duplication of returns\<close>

definition follows_foreach :: "chunk \<Rightarrow> nat \<Rightarrow> bool" where
  "follows_foreach c index \<longleftrightarrow>
     1 \<le> index \<and> is_foreach_next (code c ! (index - 1)) \<or>
     2 \<le> index \<and> is_foreach_next (code c ! (index - 2)) \<and> is_drain_finalizers (code c ! (index - 1))"

definition is_return :: "instruction \<Rightarrow> bool" where
  "is_return ins \<longleftrightarrow> (case ins of ReturnOp _ \<Rightarrow> True | _ \<Rightarrow> False)"

definition returning_target :: "chunk \<Rightarrow> nat \<Rightarrow> nat option" where
  "returning_target c index =
     (case jump_of (code c ! index) of
        None \<Rightarrow> None
      | Some rel \<Rightarrow>
          let target = int index + sint rel
          in if follows_foreach c index \<or> target < 0 then None
             else case list_get (code c) (nat target) of
               None \<Rightarrow> None
             | Some ins \<Rightarrow> if is_return ins then Some (nat target) else None)"

fun duplicate_from :: "nat list \<Rightarrow> chunk \<Rightarrow> bool \<Rightarrow> panic + chunk \<times> bool" where
  "duplicate_from [] c changed = Inr (c, changed)"
| "duplicate_from (index # indices) c changed =
     (case returning_target c index of
        None \<Rightarrow> duplicate_from indices c changed
      | Some target \<Rightarrow>
          if length (spans c) \<le> index \<or> length (spans c) \<le> target then Inl IndexOutOfBounds
          else duplicate_from indices
            (c\<lparr>code := (code c)[index := code c ! target], spans := (spans c)[index := spans c ! target]\<rparr>) True)"

definition duplicate_returns :: "chunk \<Rightarrow> panic + chunk \<times> bool" where
  "duplicate_returns c = duplicate_from [0..<length (code c)] c False"

definition is_unhandled_match :: "instruction \<Rightarrow> bool" where
  "is_unhandled_match ins \<longleftrightarrow> (case ins of CheckOp (ThrowUnhandledMatch _) \<Rightarrow> True | _ \<Rightarrow> False)"

definition duplicate_and_prune :: "chunk \<Rightarrow> panic + chunk" where
  "duplicate_and_prune c =
     result_bind (duplicate_returns c) (\<lambda>(c, changed).
       if changed \<or> list_ex is_unhandled_match (code c) then prune_unreachable c else Inr c)"

section \<open>Elision of iteration keys\<close>

definition foreach_key :: "instruction \<Rightarrow> register option" where
  "foreach_key ins =
     (case ins of
        ArrayUpdate (VecForeachNext _ key_destination _ _) \<Rightarrow>
          if key_destination \<noteq> register_NONE then Some key_destination else None
      | ArrayUpdate (DictForeachNext _ key_destination _ _) \<Rightarrow>
          if key_destination \<noteq> register_NONE then Some key_destination else None
      | _ \<Rightarrow> None)"

definition without_key :: "instruction \<Rightarrow> instruction" where
  "without_key ins =
     (case ins of
        ArrayUpdate (VecForeachNext it _ v m) \<Rightarrow> ArrayUpdate (VecForeachNext it register_NONE v m)
      | ArrayUpdate (DictForeachNext it _ v m) \<Rightarrow> ArrayUpdate (DictForeachNext it register_NONE v m)
      | _ \<Rightarrow> ins)"

fun elide_keys :: "nat list \<Rightarrow> chunk \<Rightarrow> nat \<Rightarrow> panic + chunk \<times> nat" where
  "elide_keys [] c elided = Inr (c, elided)"
| "elide_keys (index # indices) c elided =
     (case foreach_key (code c ! index) of
        None \<Rightarrow> elide_keys indices c elided
      | Some key_destination \<Rightarrow>
          result_bind (register_is_dead_after c key_destination (index + 2)) (\<lambda>dead.
            if \<not> dead then elide_keys indices c elided
            else elide_keys indices (c\<lparr>code := (code c)[index := without_key (code c ! index)]\<rparr>) (elided + 1)))"

definition elide_foreach_key :: "bool \<Rightarrow> chunk \<Rightarrow> panic + chunk \<times> nat" where
  "elide_foreach_key elide_foreach_keys c =
     (if \<not> elide_foreach_keys then Inr (c, 0) else elide_keys [0..<length (code c)] c 0)"

section \<open>Returns at the end of a chain of jumps\<close>

text \<open>
  What the duplication keeps: every instruction is the old one, or a jump became a copy of the
  return its chain of jumps lands on, with that return's span.
\<close>

definition returns_duplicated :: "chunk \<Rightarrow> chunk \<Rightarrow> nat \<Rightarrow> bool" where
  "returns_duplicated c c' i \<longleftrightarrow>
     code c' ! i = code c ! i \<and> spans c' ! i = spans c ! i \<or>
     jump_of (code c ! i) \<noteq> None \<and> \<not> follows_foreach c i \<and>
     (\<exists>t. lands c i t \<and> is_return (code c ! t) \<and> code c' ! i = code c ! t \<and> spans c' ! i = spans c ! t)"

definition duplication_of :: "chunk \<Rightarrow> chunk \<Rightarrow> bool \<Rightarrow> bool" where
  "duplication_of c c' changed \<longleftrightarrow>
     (\<exists>code' spans'. c' = c\<lparr>code := code', spans := spans'\<rparr> \<and> length code' = length (code c) \<and>
        length spans' = length (spans c)) \<and>
     (\<forall>i<length (code c). returns_duplicated c c' i) \<and> (changed \<longleftrightarrow> code c' \<noteq> code c)"

lemma is_return_flags:
  assumes "is_return ins"
  shows "jump_of ins = None" "\<not> is_foreach_next ins" "\<not> is_drain_finalizers ins"
  using assms by (auto simp: is_return_def jump_of_def is_foreach_next_def is_drain_finalizers_def
      split: instruction.splits)

lemma jump_flags:
  assumes "jump_of ins \<noteq> None"
  shows "\<not> is_foreach_next ins" "\<not> is_drain_finalizers ins"
  using assms by (auto simp: jump_of_def is_foreach_next_def is_drain_finalizers_def
      split: instruction.splits)

lemma duplicated_flags:
  assumes "returns_duplicated c c' i"
  shows "is_foreach_next (code c' ! i) = is_foreach_next (code c ! i)"
    "is_drain_finalizers (code c' ! i) = is_drain_finalizers (code c ! i)"
    "jump_of (code c' ! i) \<noteq> None \<Longrightarrow> code c' ! i = code c ! i"
  using assms is_return_flags jump_flags by (auto simp: returns_duplicated_def)

lemma duplicated_follows_foreach:
  assumes "duplication_of c c' changed" "i < length (code c)"
  shows "follows_foreach c' i = follows_foreach c i"
proof -
  have "returns_duplicated c c' (i - 1)" "returns_duplicated c c' (i - 2)"
    using assms by (auto simp: duplication_of_def)
  then show ?thesis by (simp add: follows_foreach_def duplicated_flags)
qed

lemma duplication_step:
  assumes "duplication_of c c' changed" "i < length (code c)" "length (code c) < 2 ^ 32"
    "length (spans c) = length (code c)" "returning_target c' i = Some t"
  shows "t < length (code c)"
    "duplication_of c (c'\<lparr>code := (code c')[i := code c' ! t], spans := (spans c')[i := spans c' ! t]\<rparr>) True"
proof -
  obtain rel where rel: "jump_of (code c' ! i) = Some rel" "\<not> follows_foreach c' i"
    "0 \<le> int i + sint rel" "t = nat (int i + sint rel)" "t < length (code c')" "is_return (code c' ! t)"
    using assms(5) by (auto simp: returning_target_def Let_def list_get_def split: option.splits if_splits)
  have len: "length (code c') = length (code c)" "length (spans c') = length (spans c)"
    using assms(1) by (auto simp: duplication_of_def)
  then show t: "t < length (code c)" using rel(5) by simp
  have di: "returns_duplicated c c' i" and dt: "returns_duplicated c c' t"
    using assms(1,2) t by (auto simp: duplication_of_def)
  have same: "code c' ! i = code c ! i" using duplicated_flags(3) [OF di] rel(1) by simp
  have "relative_target i (sint rel) = Inr t"
    using rel(3,4) assms(2,3) by (simp add: relative_target_def)
  then have jump: "jump_target c i = Some t" using rel(1) same assms(2) by (simp add: jump_target_def)
  have "\<exists>u. lands c t u \<and> is_return (code c ! u) \<and> code c' ! t = code c ! u \<and> spans c' ! t = spans c ! u"
  proof -
    from dt consider "code c' ! t = code c ! t" "spans c' ! t = spans c ! t"
      | u where "lands c t u" "is_return (code c ! u)" "code c' ! t = code c ! u" "spans c' ! t = spans c ! u"
      unfolding returns_duplicated_def by blast
    then show ?thesis
    proof cases
      case 1
      then show ?thesis using rel(6) t is_return_flags(1) by (intro exI [of _ t]) (auto intro: lands.stop)
    qed blast
  qed
  then obtain u where u: "lands c t u" "is_return (code c ! u)" "code c' ! t = code c ! u"
    "spans c' ! t = spans c ! u" by blast
  let ?c = "c'\<lparr>code := (code c')[i := code c' ! t], spans := (spans c')[i := spans c' ! t]\<rparr>"
  have "returns_duplicated c ?c i"
    using u lands.jump [OF jump u(1)] rel(1) same len assms(2,4) duplicated_follows_foreach [OF assms(1,2)] rel(2)
    by (auto simp: returns_duplicated_def)
  moreover have "returns_duplicated c ?c k" if "k < length (code c)" "k \<noteq> i" for k
    using assms(1) that by (auto simp: duplication_of_def returns_duplicated_def)
  ultimately have all: "\<forall>k<length (code c). returns_duplicated c ?c k" by blast
  have "is_return (code ?c ! i)" using rel(6) len assms(2) by simp
  then have "code ?c \<noteq> code c" using is_return_flags(1) rel(1) same by (metis option.distinct(1))
  moreover obtain code' spans' where c': "c' = c\<lparr>code := code', spans := spans'\<rparr>"
    using assms(1) by (auto simp: duplication_of_def)
  have "?c = c\<lparr>code := code ?c, spans := spans ?c\<rparr>" unfolding c' by simp
  moreover have "length (code ?c) = length (code c)" "length (spans ?c) = length (spans c)" using len by simp_all
  ultimately show "duplication_of c ?c True"
    unfolding duplication_of_def using all by blast
qed

lemma duplicate_from_spec:
  assumes "duplication_of c c' changed" "set indices \<subseteq> {..<length (code c)}" "length (code c) < 2 ^ 32"
    "length (spans c) = length (code c)"
  shows "\<exists>c'' changed'. duplicate_from indices c' changed = Inr (c'', changed') \<and> duplication_of c c'' changed'"
  using assms(1,2)
proof (induction indices arbitrary: c' changed)
  case (Cons i indices)
  then have i: "i < length (code c)" by simp
  show ?case
  proof (cases "returning_target c' i")
    case (Some t)
    note s = duplication_step [OF Cons.prems(1) i assms(3,4) Some]
    have "length (spans c') = length (code c)" using Cons.prems(1) assms(4) by (auto simp: duplication_of_def)
    with Some s Cons.IH [OF s(2)] Cons.prems(2) i show ?thesis by simp
  qed (use Cons in simp)
qed auto

section \<open>Increments fused with their jumps\<close>

text \<open>
  An increment in place that became one with the jump behind it: the register and the step stay, and
  the new offset, taken from the increment, leads where the jump led.
\<close>

definition fused_at :: "chunk \<Rightarrow> instruction list \<Rightarrow> nat \<Rightarrow> bool" where
  "fused_at c code' i \<longleftrightarrow>
     (\<exists>r immediate rel offset. increment_of (code c ! i) = Some (r, r, immediate) \<and> 0 \<le> sint immediate \<and>
        jump_of (code c ! (i + 1)) = Some rel \<and> code' ! i = LoopOp (IncrementJump r immediate offset) \<and>
        int i + sint offset = int (i + 1) + sint rel)"

definition fusion_of :: "chunk \<Rightarrow> nat set \<Rightarrow> nat \<Rightarrow> instruction list \<Rightarrow> bool list \<Rightarrow> bool" where
  "fusion_of c targets k code' remove \<longleftrightarrow>
     length code' = length (code c) \<and> length remove = length (code c) \<and>
     (\<forall>i<length (code c). code' ! i = code c ! i \<or> i < k \<and> fused_at c code' i) \<and>
     (\<forall>i<length (code c). remove ! i \<longleftrightarrow> 0 < i \<and> i \<le> k \<and> code' ! (i - 1) \<noteq> code c ! (i - 1)) \<and>
     (\<forall>i<length (code c). remove ! i \<longrightarrow> i \<notin> targets)"

lemma fuse_increments_spec:
  assumes "m + 1 = length (code c)" "k \<le> m" "fusion_of c targets k code' remove"
  shows "\<exists>code'' remove'. fuse_increments targets [k..<m] (c\<lparr>code := code'\<rparr>) remove = (c\<lparr>code := code''\<rparr>, remove') \<and>
    fusion_of c targets m code'' remove'"
  using assms(2,3)
proof (induction "m - k" arbitrary: k code' remove)
  case (Suc d)
  then have k: "k < m" and d: "d = m - Suc k" by simp_all
  have len: "length code' = length (code c)" "length remove = length (code c)"
    using Suc.prems(2) by (auto simp: fusion_of_def)
  have old: "code' ! i = code c ! i" if "k \<le> i" "i < length (code c)" for i
    using Suc.prems(2) that by (auto simp: fusion_of_def)
  have here: "code' ! k = code c ! k" "code' ! (k + 1) = code c ! (k + 1)" using old k assms(1) by auto
  have stay: "fusion_of c targets (Suc k) code' remove"
    using Suc.prems(2) here(1) unfolding fusion_of_def by (auto simp: le_Suc_eq)
  have upt: "[k..<m] = k # [Suc k..<m]" using k by (simp add: upt_conv_Cons)
  note keep = Suc.hyps(1) [OF d _ stay]
  show ?case
  proof (cases "\<exists>r immediate rel. increment_of (code c ! k) = Some (r, r, immediate) \<and> 0 \<le> sint immediate \<and>
      jump_of (code c ! (k + 1)) = Some rel \<and> k + 1 \<notin> targets \<and> - (2 ^ 15) \<le> 1 + sint rel \<and> 1 + sint rel < 2 ^ 15")
    case True
    then obtain r immediate rel where f: "increment_of (code c ! k) = Some (r, r, immediate)" "0 \<le> sint immediate"
      "jump_of (code c ! (k + 1)) = Some rel" "k + 1 \<notin> targets" "- (2 ^ 15) \<le> 1 + sint rel" "1 + sint rel < 2 ^ 15"
      by blast
    let ?ins = "LoopOp (IncrementJump r immediate (of_int (1 + sint rel)))"
    let ?code = "code'[k := ?ins]" and ?remove = "remove[k + 1 := True]"
    have "sint (of_int (1 + sint rel) :: u16) = 1 + sint rel"
      by (rule sint_of_int_word) (use f(5,6) in auto)
    then have at: "fused_at c ?code k" using f k assms(1) len by (auto simp: fused_at_def)
    have other: "fused_at c ?code i = fused_at c code' i" if "i \<noteq> k" for i using that by (simp add: fused_at_def)
    have "?ins \<noteq> code c ! k" using f(1) by (auto simp: increment_of_def split: instruction.splits)
    then have "fusion_of c targets (Suc k) ?code ?remove"
      using Suc.prems(2) at other f(4) k assms(1) len here(1)
      unfolding fusion_of_def by (auto simp: nth_list_update le_Suc_eq)
    from Suc.hyps(1) [OF d _ this] k show ?thesis
      using f here by (simp add: upt)
  next
    case False
    then have "fuse_increments targets [k..<m] (c\<lparr>code := code'\<rparr>) remove =
        fuse_increments targets [Suc k..<m] (c\<lparr>code := code'\<rparr>) remove"
      unfolding upt using here by (auto simp: Let_def not_less split: option.splits prod.splits)
    then show ?thesis using keep k by simp
  qed
qed auto

section \<open>Clears that are removed\<close>

lemma in_mask_bit:
  assumes "r < REFERENCE_REGISTER_LIMIT"
  shows "in_mask c r = Inr (bit (reference_register_mask c) (unat r))"
  using assms and_push_one [of r "reference_register_mask c"]
  by (simp add: in_mask_def register_bit_def REFERENCE_REGISTER_LIMIT_def word_less_nat_alt)

text \<open>Why a clear may go: it repeats the clear before it, or its register owns nothing and is dead.\<close>

definition clear_removable :: "chunk \<Rightarrow> nat set \<Rightarrow> nat \<Rightarrow> register \<Rightarrow> bool" where
  "clear_removable c targets i r \<longleftrightarrow>
     r \<notin> set (trace_argument_registers c) \<and>
     (0 < i \<and> i \<notin> targets \<and> code c ! (i - 1) = Load (Clear r) \<or>
      r < REFERENCE_REGISTER_LIMIT \<and> \<not> bit (reference_register_mask c) (unat r) \<and> \<not> live c [] r (i + 1))"

lemma cleared_Some [simp]: "cleared ins = Some r \<longleftrightarrow> ins = Load (Clear r)"
  by (auto simp: cleared_def split: instruction.splits load_instruction.splits)

lemma cleared_Clear [simp]: "cleared (Load (Clear r)) = Some r"
  by simp

lemma verified_clear:
  assumes "verify xxh3 c = Inr ()" "i < length (code c)" "code c ! i = Load (Clear r)"
  shows "r < register_count c" "i + 1 \<le> length (code c)"
  using verified_registers [OF assms(1,2)] assms(2,3)
  by (auto simp: instruction_registers_def word_less_nat_alt)

lemma clear_is_redundant_sound:
  assumes "verify xxh3 c = Inr ()" "i < length (code c)"
    and "\<forall>r start. r < register_count c \<and> start \<le> length (code c) \<longrightarrow>
       queries_dead_after q c r start \<in> {Inr False, Inr (\<not> live c [] r start)}"
  shows "\<exists>removed. clear_is_redundant c targets q i = Inr removed \<and>
    (removed \<longrightarrow> (\<exists>r. code c ! i = Load (Clear r) \<and> clear_removable c targets i r))"
proof (cases "cleared (code c ! i)")
  case (Some r)
  then have r: "code c ! i = Load (Clear r)" by simp
  note v = verified_clear [OF assms(1,2) r]
  have "queries_dead_after q c r (i + 1) \<in> {Inr False, Inr (\<not> live c [] r (i + 1))}" using assms(3) v by blast
  moreover have "clear_is_redundant c targets q i =
      (if r \<in> set (trace_argument_registers c) then Inr False
       else if 0 < i \<and> i \<notin> targets \<and> code c ! (i - 1) = Load (Clear r) then Inr True
       else if r \<ge> REFERENCE_REGISTER_LIMIT \<or> bit (reference_register_mask c) (unat r) then Inr False
       else queries_dead_after q c r (i + 1))"
    using r in_mask_bit [of r c] by (auto simp: clear_is_redundant_def not_le)
  ultimately show ?thesis
    using r by (auto simp: clear_removable_def not_le)
qed (auto simp: clear_is_redundant_def)

lemma traverse_returns:
  assumes "\<And>x. x \<in> set xs \<Longrightarrow> \<exists>y. f x = Inr y \<and> P x y"
  shows "\<exists>ys. traverse f xs = Inr ys \<and> list_all2 P xs ys"
  using assms
proof (induction xs)
  case (Cons x xs)
  then obtain y ys where "f x = Inr y" "P x y" "traverse f xs = Inr ys" "list_all2 P xs ys"
    by (metis list.set_intros)
  then show ?case by auto
qed simp

section \<open>Properties\<close>

text \<open>C14. Removing clears from a verified chunk without empty tuple patterns: the mask is computed
  without a panic, and every instruction it removes is a clear that repeats the clear before it, where
  no control flow enters, or whose register is below the limit of the ownership mask, is not in the
  mask and is not read before it is overwritten. Trace arguments keep their clears.\<close>

theorem prune_clears_sound:
  assumes "verify xxh3 c = Inr ()" "no_empty_tuple_patterns c"
  shows "\<exists>remove targets. control_flow_targets c = Inr targets \<and> length remove = length (code c) \<and>
    prune_clears c = Some (compact_removed_instructions remove c) \<and>
    (\<forall>i<length (code c). remove ! i \<longrightarrow>
       (\<exists>r. code c ! i = Load (Clear r) \<and> clear_removable c targets i r))"
proof -
  let ?n = "length (code c)" and ?count = "length (filter (\<lambda>ins. cleared ins \<noteq> None) (code c))"
  obtain targets where t: "control_flow_targets c = Inr targets"
    using verified_targets_computed [OF assms(1)] by blast
  show ?thesis
  proof (cases "?count = 0")
    case True
    then show ?thesis using t
      by (intro exI [of _ "replicate ?n False"] exI [of _ targets])
        (simp add: prune_clears_def compact_removed_instructions_def)
  next
    case False
    obtain q where q: "for_chunk c ?count = Some (Inr q)"
      "\<forall>r start. r < register_count c \<and> start \<le> ?n \<longrightarrow>
        queries_dead_after q c r start \<in> {Inr False, Inr (\<not> live c [] r start)}"
      using queries_sound [OF assms] by blast
    obtain remove where r: "traverse (clear_is_redundant c targets q) [0..<?n] = Inr remove"
      "list_all2 (\<lambda>i removed. removed \<longrightarrow> (\<exists>r. code c ! i = Load (Clear r) \<and> clear_removable c targets i r))
         [0..<?n] remove"
      using traverse_returns [of "[0..<?n]" "clear_is_redundant c targets q"
          "\<lambda>i removed. removed \<longrightarrow> (\<exists>r. code c ! i = Load (Clear r) \<and> clear_removable c targets i r)"]
        clear_is_redundant_sound [OF assms(1) _ q(2)] by auto
    then show ?thesis
      using False q(1) t
      by (intro exI [of _ remove] exI [of _ targets])
        (auto simp: prune_clears_def list_all2_conv_all_nth)
  qed
qed

text \<open>A chunk that clears a register it does not use again.\<close>

definition clearing_chunk :: chunk where
  "clearing_chunk = new_chunk\<lparr>code := [Load (Clear 0), ReturnOp ReturnNull],
     spans := replicate 2 span_zero, register_count := 1\<rparr>"

lemma clearing_chunk_fields [simp]:
  "code clearing_chunk = [Load (Clear 0), ReturnOp ReturnNull]" "spans clearing_chunk = replicate 2 span_zero"
  "register_count clearing_chunk = 1" "local_register_count clearing_chunk = 0"
  "parameter_register_start clearing_chunk = 0" "parameter_register_count clearing_chunk = 0"
  "trace_argument_registers clearing_chunk = []" "catch_table clearing_chunk = []"
  by (simp_all add: clearing_chunk_def new_chunk_def)

theorem prune_clears_sound_witness:
  "\<exists>remove. length remove = length (code clearing_chunk) \<and> prune_clears clearing_chunk = Some (compact_removed_instructions remove clearing_chunk)"
proof -
  have "verify (\<lambda>_. 0) clearing_chunk = Inr ()" by (simp add: verify_eval)
  moreover have "no_empty_tuple_patterns clearing_chunk"
    by (simp add: no_empty_tuple_patterns_def empty_tuple_pattern_def)
  ultimately show ?thesis using prune_clears_sound [of "\<lambda>_. 0" clearing_chunk] by blast
qed

text \<open>C15. Duplicating returns in a verified chunk returns without a panic and changes only the code and
  the spans: every instruction stays, or a jump that does not end an iteration step becomes a copy of
  the return its chain of jumps ends at, with the span of that return. The pass reports a change
  exactly when the code changed.\<close>

theorem duplicate_returns_exact:
  assumes "verify xxh3 c = Inr ()"
  shows "\<exists>c' changed. duplicate_returns c = Inr (c', changed) \<and> duplication_of c c' changed"
proof -
  have "duplication_of c c False" by (auto simp: duplication_of_def returns_duplicated_def
      intro!: exI [of _ "code c"] exI [of _ "spans c"])
  moreover have "length (spans c) = length (code c)" using assms by (simp add: verify_Inr)
  ultimately show ?thesis
    unfolding duplicate_returns_def using duplicate_from_spec [of c c False "[0..<length (code c)]"] verified_length [OF assms]
    by (auto simp: atLeast0LessThan)
qed

theorem duplicate_returns_exact_witness:
  "\<exists>c' changed. duplicate_returns sample_chunk = Inr (c', changed) \<and> duplication_of sample_chunk c' changed"
  by (rule duplicate_returns_exact [OF sample_chunk_verified])

text \<open>A jump inside a try block to a checked return outside of it.\<close>

definition try_return_chunk :: chunk where
  "try_return_chunk = new_chunk\<lparr>code := [Branch (Jump 2), ReturnOp ReturnNull, ReturnOp (Return 0)],
     spans := replicate 3 span_zero, register_count := 1, type_descriptors := [MixedT],
     catch_table := [\<lparr>catch_start = 0, catch_end = 1, handler = 1, catch_type_descriptor = 0,
       temporary_floor = 0, binding = None\<rparr>]\<rparr>"

lemma try_return_chunk_fields [simp]:
  "code try_return_chunk = [Branch (Jump 2), ReturnOp ReturnNull, ReturnOp (Return 0)]"
  "spans try_return_chunk = replicate 3 span_zero" "register_count try_return_chunk = 1"
  "type_descriptors try_return_chunk = [MixedT]" "local_register_count try_return_chunk = 0"
  "parameter_register_start try_return_chunk = 0" "parameter_register_count try_return_chunk = 0"
  "trace_argument_registers try_return_chunk = []"
  "catch_table try_return_chunk = [\<lparr>catch_start = 0, catch_end = 1, handler = 1, catch_type_descriptor = 0,
     temporary_floor = 0, binding = None\<rparr>]"
  by (simp_all add: try_return_chunk_def new_chunk_def)

text \<open>C35. A return that checks its value can be copied into a try block it is not in: in this verified
  chunk the return is covered by no handler, its copy is, so an error of the check is caught.\<close>

theorem duplicated_return_gains_handler:
  "verify xxh3 try_return_chunk = Inr () \<and>
   (\<exists>c'. duplicate_returns try_return_chunk = Inr (c', True) \<and> code c' ! 0 = ReturnOp (Return 0) \<and>
      handlers_at try_return_chunk 2 = [] \<and> handlers_at c' 0 = [1])"
proof
  show "verify xxh3 try_return_chunk = Inr ()"
    by (simp add: verify_eval verify_catch_entry_def u32_index_def)
  show "\<exists>c'. duplicate_returns try_return_chunk = Inr (c', True) \<and> code c' ! 0 = ReturnOp (Return 0) \<and>
      handlers_at try_return_chunk 2 = [] \<and> handlers_at c' 0 = [1]"
    by (simp add: duplicate_returns_def upt_rec returning_target_def jump_of_def follows_foreach_def
        list_get_def is_return_def handlers_at_def)
qed

text \<open>A loop whose key is read behind it.\<close>

definition key_loop_code :: "register \<Rightarrow> instruction list" where
  "key_loop_code key =
     [ArrayUpdate (VecForeachNext 0 key 2 GenericValue), Branch (Jump 2), Branch (Jump (- 2)),
      ReturnOp (Return 1)]"

definition key_loop_chunk :: chunk where
  "key_loop_chunk = new_chunk\<lparr>code := key_loop_code 1, spans := replicate 4 span_zero, register_count := 3\<rparr>"

lemma key_loop_chunk_fields [simp]:
  "code key_loop_chunk = key_loop_code 1" "spans key_loop_chunk = replicate 4 span_zero"
  "register_count key_loop_chunk = 3" "local_register_count key_loop_chunk = 0"
  "parameter_register_start key_loop_chunk = 0" "parameter_register_count key_loop_chunk = 0"
  "trace_argument_registers key_loop_chunk = []" "catch_table key_loop_chunk = []"
  by (simp_all add: key_loop_chunk_def new_chunk_def)

lemma key_loop_verified: "verify xxh3 key_loop_chunk = Inr ()"
  by (simp add: verify_eval key_loop_code_def verify_update_def verify_foreach_next_def list_get_def
      is_jump_def is_drain_finalizers_def register_NONE_def)

lemma key_loop_successors:
  "successors key_loop_chunk 0 = Inr [1, 2]" "successors key_loop_chunk 1 = Inr [3]"
  "successors key_loop_chunk 2 = Inr [0]"
  by (simp_all add: flow_eval key_loop_code_def)

lemmas live_eval = removed_at_def list_get_def clears_def handlers_at_def effect_on_def

lemma key_loop_dead: "\<not> live key_loop_chunk [] 1 2"
proof
  assume "live key_loop_chunk [] 1 2"
  then have "live key_loop_chunk [] 1 0"
    by (rule live_elim) (auto simp: live_eval key_loop_successors key_loop_code_def)
  then show False
    by (rule live_elim) (auto simp: live_eval key_loop_code_def)
qed

lemma key_loop_live: "live key_loop_chunk [] 1 1"
proof (rule live.passed [where s = 3 and e = NoEffect, OF _ _ _ _ _ _ key_loop_successors(2)])
  show "live key_loop_chunk [] 1 3"
    by (rule live.read [where e = ReadEffect]) (simp_all add: live_eval key_loop_code_def read_only_def)
qed (simp_all add: live_eval key_loop_code_def)

text \<open>C34. The elision of an iteration key asks for liveness where the body starts only. In this verified
  chunk the key is read behind the loop, so it is live where the step leaves the loop, and still the
  step stops writing it: the loop's own step counts as overwriting the key on both of its ways out.\<close>

theorem elided_key_read_after_loop:
  "verify xxh3 key_loop_chunk = Inr () \<and> successors key_loop_chunk 0 = Inr [1, 2] \<and>
   live key_loop_chunk [] 1 1 \<and>
   elide_foreach_key True key_loop_chunk = Inr (key_loop_chunk\<lparr>code := key_loop_code register_NONE\<rparr>, 1)"
proof (intro conjI)
  have "register_is_dead_after key_loop_chunk 1 (Suc (Suc 0)) = Inr True"
    using targeted_dead_after [OF key_loop_verified, of 2 1] key_loop_dead
    by (simp add: key_loop_code_def numeral_2_eq_2)
  then show "elide_foreach_key True key_loop_chunk = Inr (key_loop_chunk\<lparr>code := key_loop_code register_NONE\<rparr>, 1)"
    by (simp add: elide_foreach_key_def key_loop_code_def upt_rec foreach_key_def without_key_def register_NONE_def)
qed (rule key_loop_verified key_loop_successors key_loop_live)+

text \<open>A copy whose target is updated in place.\<close>

definition update_chunk :: "register \<Rightarrow> chunk" where
  "update_chunk target = new_chunk\<lparr>code := [Load (Move 1 0), Arithmetic (IntegerAddAssign target 2 I64),
       ReturnOp (Return 1)],
     spans := replicate 3 span_zero, register_count := 3, local_register_count := 3\<rparr>"

lemma update_chunk_fields [simp]:
  "code (update_chunk t) = [Load (Move 1 0), Arithmetic (IntegerAddAssign t 2 I64), ReturnOp (Return 1)]"
  "spans (update_chunk t) = replicate 3 span_zero" "register_count (update_chunk t) = 3"
  "local_register_count (update_chunk t) = 3" "parameter_register_start (update_chunk t) = 0"
  "parameter_register_count (update_chunk t) = 0" "trace_argument_registers (update_chunk t) = []"
  "catch_table (update_chunk t) = []" "reference_register_mask (update_chunk t) = 0"
  by (simp_all add: update_chunk_def new_chunk_def)

lemma update_chunk_verified: "t < 3 \<Longrightarrow> verify xxh3 (update_chunk t) = Inr ()"
  by (simp add: verify_eval)

lemma update_chunk_live: "live (update_chunk 0) [] 1 1"
proof (rule live.passed [where s = 2 and e = NoEffect and edges = "[2]"])
  show "live (update_chunk 0) [] 1 2" by (rule live.read [where e = ReadEffect]) (simp_all add: live_eval read_only_def)
qed (simp_all add: live_eval flow_eval)

text \<open>C33. Copy propagation renames a register that an instruction updates in place: in this verified
  chunk the copy is incremented and returned, and after the pass the original is incremented instead.\<close>

theorem copy_propagation_moves_update:
  "verify xxh3 (update_chunk 1) = Inr () \<and> copy_propagation True (update_chunk 1) = Inr (update_chunk 0, 0)"
proof
  have replaced: "replace_read_register (Arithmetic (IntegerAddAssign 1 2 I64)) 1 0 =
      Some (Arithmetic (IntegerAddAssign 0 2 I64))"
    by (simp add: replace_read_register_def replace_single_output_def in_fixed_window_def visit_eval
        write_register_def map_registers_def del: One_nat_def)
  have "register_is_dead_after (update_chunk 0) 1 1 = Inr False"
    using targeted_dead_after [OF update_chunk_verified, of 0 1 1] update_chunk_live by simp
  moreover have "control_flow_targets (update_chunk 1) = Inr {}"
    by (simp add: control_flow_targets_def for_each_control_flow_target_def flow_eval)
  moreover have "(update_chunk 1)\<lparr>code := [Load (Move 1 0), Arithmetic (IntegerAddAssign 0 2 I64), ReturnOp (Return 1)]\<rparr>
      = update_chunk 0" by (simp add: update_chunk_def)
  ultimately show "copy_propagation True (update_chunk 1) = Inr (update_chunk 0, 0)"
    using replaced
    by (simp add: copy_propagation_def passes_many_arguments_def upt_rec copied_def owning_local_def in_mask_def
        register_bit_def REFERENCE_REGISTER_LIMIT_def effect_on_def compact_removed_instructions_def)
qed (rule update_chunk_verified, simp)

text \<open>C16. Fusing increments with jumps in a verified chunk returns the compaction of a chunk in which
  each instruction is the old one or an increment in place fused with the jump behind it, whose new
  offset leads where the jump led; the removed instructions are exactly those jumps, and control flow
  enters none of them.\<close>

theorem fuse_increment_jump_exact:
  assumes "verify xxh3 c = Inr ()"
  shows "\<exists>targets code' remove. control_flow_targets c = Inr targets \<and>
    length code' = length (code c) \<and> length remove = length (code c) \<and>
    fuse_increment_jump True c = compact_removed_instructions remove (c\<lparr>code := code'\<rparr>) \<and>
    (\<forall>i<length (code c). code' ! i = code c ! i \<or> fused_at c code' i) \<and>
    (\<forall>i<length (code c). remove ! i \<longleftrightarrow> 0 < i \<and> code' ! (i - 1) \<noteq> code c ! (i - 1)) \<and>
    (\<forall>i<length (code c). remove ! i \<longrightarrow> i \<notin> targets)"
proof -
  let ?n = "length (code c)"
  obtain targets where t: "control_flow_targets c = Inr targets"
    using verified_targets_computed [OF assms] by blast
  have start: "fusion_of c targets 0 (code c) (replicate ?n False)" by (simp add: fusion_of_def)
  show ?thesis
  proof (cases "?n < 2")
    case True
    then show ?thesis using t
      by (intro exI [of _ targets] exI [of _ "code c"] exI [of _ "replicate ?n False"])
        (simp add: fuse_increment_jump_def compact_removed_instructions_def)
  next
    case False
    then have "?n - 1 + 1 = ?n" by simp
    from fuse_increments_spec [OF this _ start]
    obtain code' remove where f: "fuse_increments targets [0..<?n - 1] c (replicate ?n False) = (c\<lparr>code := code'\<rparr>, remove)"
      "fusion_of c targets (?n - 1) code' remove" by auto
    then show ?thesis
      using False t
      by (intro exI [of _ targets] exI [of _ code'] exI [of _ remove])
        (auto simp: fuse_increment_jump_def fusion_of_def)
  qed
qed

theorem fuse_increment_jump_exact_witness:
  "\<exists>code' remove. length remove = length (code sample_chunk) \<and>
     fuse_increment_jump True sample_chunk = compact_removed_instructions remove (sample_chunk\<lparr>code := code'\<rparr>)"
  using fuse_increment_jump_exact [OF sample_chunk_verified] by blast

end
