(* ===== verification/Whim_Renaming.thy ===== *)
theory Whim_Renaming
  imports Whim_Liveness
begin

text \<open>
  Renaming the registers of a chunk, as the register allocators of the optimizer end
  (\<^verbatim>\<open>crates/optimizer/src/passes/reuse_temporaries/mod.rs\<close>): the windows whose registers keep
  their place, the renaming of the code through a table and the smaller frame. A run of the code is
  the sequence of the instructions executed, each with the values it reads; it is shown that renamed code
  has the runs of the original code where no write destroys a register that is still needed.
\<close>

section \<open>Pinned windows\<close>

text \<open>
  The encoded windows. A window is its first register and its length; the range of its registers is
  computed at 16 bits.
\<close>

definition call_window :: "call_instruction \<Rightarrow> (register \<times> nat) option" where
  "call_window i =
     (case i of
        CallNamed n _ first_argument _ \<Rightarrow> Some (first_argument, unat n)
      | CallNamedDiscarded n _ first_argument _ \<Rightarrow> Some (first_argument, unat n)
      | CallMethod n _ first_argument _ \<Rightarrow> Some (first_argument, unat n)
      | CallMethodDiscarded n _ first_argument _ \<Rightarrow> Some (first_argument, unat n)
      | CallMethodUnchecked n _ first_argument _ \<Rightarrow> Some (first_argument, unat n)
      | CallNamedDirect n _ first_argument _ \<Rightarrow> Some (first_argument, unat n)
      | CallMethodDirect n _ first_argument _ \<Rightarrow> Some (first_argument, unat n)
      | CallStatic n _ first_argument _ \<Rightarrow> Some (first_argument, unat n)
      | CallStaticDiscarded n _ first_argument _ \<Rightarrow> Some (first_argument, unat n)
      | CallValue n _ _ first_argument \<Rightarrow> Some (first_argument, unat n)
      | CallValueUnchecked n _ _ first_argument \<Rightarrow> Some (first_argument, unat n)
      | CallValueDiscarded n _ _ first_argument \<Rightarrow> Some (first_argument, unat n)
      | CallNamedUnchecked n _ first_argument _ \<Rightarrow>
          if n \<noteq> 1 then Some (first_argument, unat n) else None
      | CallSelfUnchecked n _ first_argument \<Rightarrow>
          if n \<noteq> 1 then Some (first_argument, unat n) else None
      | MakeClosure n _ _ first_capture \<Rightarrow> Some (first_capture, unat n)
      | _ \<Rightarrow> None)"

definition encoded_window :: "instruction \<Rightarrow> (register \<times> nat) option" where
  "encoded_window ins =
     (case ins of
        ArrayUpdate (IndexUpdatePath index_count _ _ operand) \<Rightarrow> Some (operand, unat index_count + 1)
      | ArrayUpdate (IndexSetPath index_count _ first_index _) \<Rightarrow> Some (first_index, unat index_count)
      | ArrayOp (IndexGetPath index_count _ _ first_index) \<Rightarrow> Some (first_index, unat index_count)
      | CheckOp (Assert n first_value _ _) \<Rightarrow> Some (first_value, unat n + 1)
      | CallOp i \<Rightarrow> call_window i
      | ArrayOp (NewArray n _ first_element kind) \<Rightarrow>
          Some (first_element, unat (array_register_count kind n))
      | CheckOp (Write n first_value _ _) \<Rightarrow> Some (first_value, unat n)
      | CheckOp (Debug n first_value) \<Rightarrow> Some (first_value, unat n)
      | ObjectOp (PropertyIndexSet _ first_operand _) \<Rightarrow> Some (first_operand, 2)
      | ObjectOp (PropertyIndexSetUnchecked _ first_operand _) \<Rightarrow> Some (first_operand, 2)
      | ObjectOp (PropertyRemove _ destination _ mode) \<Rightarrow>
          if uses_operand mode then Some (destination, 2) else None
      | ObjectOp (PropertyRemoveUnchecked _ destination _ mode) \<Rightarrow>
          if uses_operand mode then Some (destination, 2) else None
      | _ \<Rightarrow> None)"

definition is_output :: "instruction \<Rightarrow> bool" where
  "is_output ins \<longleftrightarrow> (case ins of CheckOp (Write _ _ _ _) \<Rightarrow> True | CheckOp (Debug _ _) \<Rightarrow> True | _ \<Rightarrow> False)"

definition register_range :: "register \<Rightarrow> nat \<Rightarrow> register list" where
  "register_range first n = map of_nat [unat first..<unat (first + of_nat n)]"

definition pinned_by :: "instruction \<Rightarrow> register list" where
  "pinned_by ins =
     (case encoded_window ins of
        None \<Rightarrow> []
      | Some (first, n) \<Rightarrow> if n = 1 \<and> is_output ins then [] else register_range first n)"

definition pinned_window_registers :: "chunk \<Rightarrow> register list" where
  "pinned_window_registers c = concat (map pinned_by (code c))"

definition pinned_high_water :: "register list \<Rightarrow> u16 \<Rightarrow> u16" where
  "pinned_high_water pinned local_count =
     max (if pinned = [] then local_count else fold max pinned 0 + 1) local_count"

section \<open>Renaming the code\<close>

text \<open>
  An output of one value is no operand of the table, so its register is renamed beside the operands.
\<close>

definition remap_instruction :: "register list \<Rightarrow> instruction \<Rightarrow> (panic + instruction) option" where
  "remap_instruction mapping ins =
     map_option (\<lambda>result. result_bind result (\<lambda>remapped.
       case remapped of
         CheckOp (Write n r new_line stderr) \<Rightarrow>
           if n = 1 then result_map (\<lambda>r. CheckOp (Write n r new_line stderr)) (index_of mapping (unat r))
           else Inr remapped
       | CheckOp (Debug n r) \<Rightarrow>
           if n = 1 then result_map (\<lambda>r. CheckOp (Debug n r)) (index_of mapping (unat r)) else Inr remapped
       | _ \<Rightarrow> Inr remapped)) (remap_registers ins mapping)"

text \<open>A window without registers is moved to the last register of the smaller frame.\<close>

definition normalize_call_start :: "register \<Rightarrow> call_instruction \<Rightarrow> call_instruction" where
  "normalize_call_start p i =
     (case i of
        MakeClosure n a b first_capture \<Rightarrow> if n = 0 then MakeClosure n a b p else i
      | CallNamed n a first_argument b \<Rightarrow> if n = 0 then CallNamed n a p b else i
      | CallNamedDiscarded n a first_argument b \<Rightarrow> if n = 0 then CallNamedDiscarded n a p b else i
      | CallMethod n a first_argument b \<Rightarrow> if n = 0 then CallMethod n a p b else i
      | CallMethodDiscarded n a first_argument b \<Rightarrow> if n = 0 then CallMethodDiscarded n a p b else i
      | CallMethodUnchecked n a first_argument b \<Rightarrow> if n = 0 then CallMethodUnchecked n a p b else i
      | CallNamedDirect n a first_argument b \<Rightarrow> if n = 0 then CallNamedDirect n a p b else i
      | CallMethodDirect n a first_argument b \<Rightarrow> if n = 0 then CallMethodDirect n a p b else i
      | CallStatic n a first_argument b \<Rightarrow> if n = 0 then CallStatic n a p b else i
      | CallStaticDiscarded n a first_argument b \<Rightarrow> if n = 0 then CallStaticDiscarded n a p b else i
      | CallNamedUnchecked n a first_argument b \<Rightarrow> if n = 0 then CallNamedUnchecked n a p b else i
      | CallSelfUnchecked n a first_argument \<Rightarrow> if n = 0 then CallSelfUnchecked n a p else i
      | CallValue n a b first_argument \<Rightarrow> if n = 0 then CallValue n a b p else i
      | CallValueUnchecked n a b first_argument \<Rightarrow> if n = 0 then CallValueUnchecked n a b p else i
      | CallValueDiscarded n a b first_argument \<Rightarrow> if n = 0 then CallValueDiscarded n a b p else i
      | _ \<Rightarrow> i)"

definition normalize_window_start :: "register \<Rightarrow> instruction \<Rightarrow> instruction" where
  "normalize_window_start p ins =
     (case ins of
        ArrayOp (NewArray n a first_element kind) \<Rightarrow> if n = 0 then ArrayOp (NewArray n a p kind) else ins
      | CallOp i \<Rightarrow> CallOp (normalize_call_start p i)
      | CheckOp (Write n first_value new_line stderr) \<Rightarrow>
          if n = 0 then CheckOp (Write n p new_line stderr) else ins
      | CheckOp (Debug n first_value) \<Rightarrow> if n = 0 then CheckOp (Debug n p) else ins
      | _ \<Rightarrow> ins)"

definition normalize_empty_window_starts :: "chunk \<Rightarrow> chunk" where
  "normalize_empty_window_starts c =
     (let placeholder = (if register_count c = 0 then 0 else register_count c - 1)
      in c\<lparr>code := map (normalize_window_start placeholder) (code c)\<rparr>)"

text \<open>
  Renaming all instructions and shrinking the frame, as both register allocators end. The number of
  registers removed is counted. An instruction without a table row would be undefined behaviour; both
  allocators give up before they come here, so the model gives up too.
\<close>

fun remap_code :: "register list \<Rightarrow> instruction list \<Rightarrow> (panic + instruction list) option" where
  "remap_code mapping [] = Some (Inr [])"
| "remap_code mapping (ins # rest) =
     (case remap_instruction mapping ins of
        None \<Rightarrow> None
      | Some (Inl p) \<Rightarrow> Some (Inl p)
      | Some (Inr ins) \<Rightarrow> map_option (result_map ((#) ins)) (remap_code mapping rest))"

definition apply_mapping :: "register list \<Rightarrow> u16 \<Rightarrow> chunk \<Rightarrow> (panic + chunk \<times> nat) option" where
  "apply_mapping mapping high_water c =
     map_option (result_map (\<lambda>code'.
       (normalize_empty_window_starts (c\<lparr>code := code', register_count := high_water\<rparr>),
        unat (register_count c - high_water)))) (remap_code mapping (code c))"

section \<open>Windows\<close>

definition implicit_range :: "instruction \<Rightarrow> register list" where
  "implicit_range ins = (case implicit_reads ins of None \<Rightarrow> [] | Some (first, n) \<Rightarrow> register_range first n)"

lemma register_range_window:
  assumes "window first n \<subseteq> {..<0xFFFF}"
  shows "r \<in> set (register_range first n) \<longleftrightarrow> unat r \<in> window first n"
proof -
  have "n = 0 \<or> unat first + n \<le> 0xFFFF" by (rule window_below [OF assms])
  then have "unat (first + of_nat n) = unat first + n"
    using unat_offset [of first n] by (cases "n = 0") auto
  moreover have "r \<in> of_nat ` A \<longleftrightarrow> unat r \<in> A" if "A \<subseteq> {..<0xFFFF}" for A :: "nat set"
  proof
    assume "r \<in> of_nat ` A"
    then obtain a where "a \<in> A" "r = of_nat a" by blast
    moreover from this have "a < 2 ^ 16" using that by auto
    ultimately show "unat r \<in> A" by simp
  next
    assume "unat r \<in> A"
    then show "r \<in> of_nat ` A" by (intro image_eqI [of _ _ "unat r"]) simp_all
  qed
  ultimately show ?thesis using assms by (auto simp: register_range_def window_def)
qed

lemma implicit_range_window:
  assumes "instruction_registers c ins \<subseteq> {..<0xFFFF}"
  shows "r \<in> set (implicit_range ins) \<longleftrightarrow> r \<in> set (implicit_registers ins)"
proof (cases "implicit_reads ins")
  case (Some p)
  obtain first n where p: "p = (first, n)" by (cases p)
  have "window first n \<subseteq> {..<0xFFFF}"
    using implicit_reads_window [OF assms _ Some [unfolded p]] assms by auto
  then show ?thesis
    using implicit_registers_iff [OF assms, of r] Some p register_range_window [of first n r]
    by (simp add: implicit_range_def in_window_iff window_def)
qed (simp add: implicit_range_def implicit_registers_def)

lemma encoded_window_registers:
  assumes "encoded_window ins = Some (first, n)"
  shows "window first n \<subseteq> instruction_registers c ins"
proof (cases ins)
  case (CallOp i)
  then show ?thesis using assms
    by (auto simp: encoded_window_def call_window_def instruction_registers_def call_registers_of_def
        split: call_instruction.splits if_splits)
next
  case (ArrayOp i)
  then show ?thesis using assms
    by (auto simp: encoded_window_def instruction_registers_def array_registers_of_def
        array_register_count_value window_def split: array_instruction.splits)
next
  case (ArrayUpdate i)
  then show ?thesis using assms
    by (auto simp: encoded_window_def instruction_registers_def update_registers_of_def
        split: update_instruction.splits)
next
  case (ObjectOp i)
  then show ?thesis using assms
    by (auto simp: encoded_window_def instruction_registers_def object_registers_of_def
        split: object_instruction.splits if_splits)
next
  case (CheckOp i)
  then show ?thesis using assms
    by (auto simp: encoded_window_def instruction_registers_def check_registers_of_def
        split: check_instruction.splits)
qed (use assms in \<open>simp_all add: encoded_window_def\<close>)

lemma verified_pinned:
  assumes "verify xxh3 c = Inr ()" "r \<in> set (pinned_window_registers c)"
  shows "unat r < unat (register_count c)"
proof -
  obtain i where i: "i < length (code c)" "r \<in> set (pinned_by (code c ! i))"
    using assms(2) by (fastforce simp: pinned_window_registers_def in_set_conv_nth [of _ "code c"])
  then obtain first n where w: "encoded_window (code c ! i) = Some (first, n)" "r \<in> set (register_range first n)"
    by (cases "encoded_window (code c ! i)") (auto simp: pinned_by_def split: if_splits)
  have sub: "window first n \<subseteq> {..<unat (register_count c)}"
    using encoded_window_registers [OF w(1)] verified_registers [OF assms(1) i(1)] by blast
  then have "window first n \<subseteq> {..<0xFFFF}" using register_count_bound [of c] by fastforce
  with w(2) sub show ?thesis using register_range_window [of first n r] by blast
qed

section \<open>What the renaming does\<close>

text \<open>The register of an operand, and the registers of the operands of one access in the order of the table.\<close>

definition operand_register :: "instruction \<Rightarrow> nat \<Rightarrow> register option" where
  "operand_register ins n =
     (if n = 4 \<and> calls_without_arguments ins then None
      else case register_at ins n of
        None \<Rightarrow> None
      | Some r \<Rightarrow> if r = register_NONE then None else Some r)"

definition access_registers :: "access \<Rightarrow> instruction \<Rightarrow> register list" where
  "access_registers a ins =
     (case operands ins of
        None \<Rightarrow> []
      | Some ops \<Rightarrow> List.map_filter (\<lambda>(n, a'). if a' = a then operand_register ins n else None) ops)"

definition read_list :: "instruction \<Rightarrow> register list" where
  "read_list ins = access_registers ReadAccess ins @ implicit_range ins"

definition write_list :: "instruction \<Rightarrow> register list" where
  "write_list ins = access_registers WriteAccess ins"

lemma operand_register_Some [simp]:
  "operand_register ins n = Some r \<longleftrightarrow>
     \<not> (n = 4 \<and> calls_without_arguments ins) \<and> register_at ins n = Some r \<and> r \<noteq> register_NONE"
  by (auto simp: operand_register_def split: option.splits)

lemma set_map_filter: "r \<in> set (List.map_filter f xs) \<longleftrightarrow> (\<exists>x\<in>set xs. f x = Some r)"
  by (induction xs) (auto simp: List.map_filter_simps split: option.splits)

lemma access_registers_iff:
  "r \<in> set (access_registers a ins) \<longleftrightarrow> (\<exists>ops. operands ins = Some ops \<and> (\<exists>n. (n, a) \<in> set ops \<and> operand_register ins n = Some r))"
  by (cases "operands ins") (force simp: access_registers_def set_map_filter split: if_splits)+

text \<open>The indices of all registers of an instruction.\<close>

definition touched :: "instruction \<Rightarrow> nat set" where
  "touched ins = unat ` (set (read_list ins) \<union> set (write_list ins))"

lemma read_list_iff:
  assumes "plain c ins" "for_each_read_register ins = Some rs"
  shows "set (read_list ins) = set rs"
proof -
  have p: "instruction_registers c ins \<subseteq> {..<0xFFFF}" using assms(1) by (simp add: plain_def)
  obtain ops where ops: "operands ins = Some ops"
    using assms(2) by (auto simp: for_each_read_register_def for_each_explicit_register_def)
  have "set (implicit_range ins) = set (implicit_registers ins)"
    using implicit_range_window [OF p] by blast
  moreover have "set (access_registers ReadAccess ins) =
      {r. r \<noteq> register_NONE \<and> (\<exists>n. listed ins ReadAccess n \<and> register_at ins n = Some r)}"
    using ops by (auto simp: access_registers_iff listed_def)
  ultimately show ?thesis using for_each_read_registerD [OF assms(2)] by (simp add: read_list_def)
qed

lemma touched_in_frame:
  assumes "plain c ins" "k \<in> touched ins"
  shows "k \<in> instruction_registers c ins"
proof -
  have p: "instruction_registers c ins \<subseteq> {..<0xFFFF}" "\<not> empty_tuple_pattern ins"
    using assms(1) by (auto simp: plain_def)
  obtain r where r: "r \<in> set (read_list ins) \<union> set (write_list ins)" "k = unat r"
    using assms(2) by (auto simp: touched_def)
  consider ops n a where "operands ins = Some ops" "(n, a) \<in> set ops" "operand_register ins n = Some r"
    | "r \<in> set (implicit_range ins)"
    using r(1) by (auto simp: read_list_def write_list_def access_registers_iff)
  then show ?thesis
  proof cases
    case 1
    then show ?thesis using listed_register [OF 1(1,2)] p(2) r(2) by simp
  next
    case 2
    then obtain first n where "implicit_reads ins = Some (first, n)" "in_window r first n"
      using implicit_range_window [OF p(1)] implicit_registers_iff [OF p(1)] by auto
    then show ?thesis
      using implicit_reads_window [OF p(1)] r(2) by (auto simp: in_window_iff window_def)
  qed
qed

lemma touched_register:
  assumes "plain c ins" "r \<in> set (read_list ins) \<union> set (write_list ins)"
  shows "unat r < 0xFFFF \<and> r \<noteq> register_NONE"
proof -
  have "unat r \<in> instruction_registers c ins"
    using touched_in_frame [OF assms(1)] assms(2) by (simp add: touched_def)
  then have "unat r < 0xFFFF" using assms(1) by (auto simp: plain_def)
  then show ?thesis by (auto simp: register_NONE_def)
qed

text \<open>A pattern over a tuple of two or more registers, whose window is not pinned.\<close>

definition tuple_window :: "instruction \<Rightarrow> bool" where
  "tuple_window ins \<longleftrightarrow> (case ins of Switch (SwitchTuplePattern _ n _) \<Rightarrow> n \<noteq> 0 \<and> n \<noteq> 1 | _ \<Rightarrow> False)"

definition single_output :: "instruction \<Rightarrow> bool" where
  "single_output ins \<longleftrightarrow> (case ins of CheckOp (Write n _ _ _) \<Rightarrow> n = 1 | CheckOp (Debug n _) \<Rightarrow> n = 1 | _ \<Rightarrow> False)"

definition single_tuple :: "instruction \<Rightarrow> bool" where
  "single_tuple ins \<longleftrightarrow> (case ins of Switch (SwitchTuplePattern _ n _) \<Rightarrow> n = 1 | _ \<Rightarrow> False)"


text \<open>Renaming the operands renames both lists of registers, as far as no implicit window is concerned.\<close>

lemma map_filter_map:
  "(\<And>x. x \<in> set xs \<Longrightarrow> f x = map_option h (g x)) \<Longrightarrow> List.map_filter f xs = map h (List.map_filter g xs)"
  by (induction xs) (auto simp: List.map_filter_simps split: option.splits)

lemma access_registers_renamed:
  assumes "operands ins = Some ops"
    and "\<And>n r. n \<in> fst ` set ops \<Longrightarrow> operand_register ins n = Some r \<Longrightarrow> mapping ! unat r \<noteq> register_NONE"
  shows "access_registers a (map_registers (renamed ins (fst ` set ops) mapping) ins) =
    map (\<lambda>r. mapping ! unat r) (access_registers a ins)"
proof -
  have "operand_register (map_registers (renamed ins (fst ` set ops) mapping) ins) n =
      map_option (\<lambda>r. mapping ! unat r) (operand_register ins n)" if n: "n \<in> fst ` set ops" for n
    using assms(2) [OF n] n
    by (cases "register_at ins n") (auto simp: operand_register_def renamed_def)
  then show ?thesis
    unfolding access_registers_def using assms(1) by (force intro!: map_filter_map)
qed

lemma register_range_kept: "(0 < k \<Longrightarrow> r' = r) \<Longrightarrow> register_range r' k = register_range r k"
  by (cases "k = 0") (auto simp: register_range_def)

text \<open>
  A window keeps its registers where its first register is not moved.
\<close>

lemma implicit_reads_kept:
  assumes "\<And>first k n. encoded_window ins = Some (first, k) \<Longrightarrow> 0 < k \<Longrightarrow> g n first = first"
    and "\<not> single_output ins" "\<not> tuple_window ins" "\<not> single_tuple ins"
  shows "implicit_range (map_registers g ins) = implicit_range ins"
proof (cases ins)
  case (ArrayOp i)
  then show ?thesis using assms(1)
    by (cases i) (auto simp: implicit_range_def implicit_reads_def array_implicit_reads_def map_registers_def
        encoded_window_def array_register_count_value intro!: register_range_kept)
next
  case (ArrayUpdate i)
  then show ?thesis using assms(1)
    by (cases i) (auto simp: implicit_range_def implicit_reads_def update_implicit_reads_def map_registers_def
        encoded_window_def intro!: register_range_kept)
next
  case (Switch i)
  then show ?thesis using assms(3,4)
    by (cases i) (auto simp: implicit_range_def implicit_reads_def map_registers_def tuple_window_def single_tuple_def)
next
  case (ObjectOp i)
  then show ?thesis using assms(1)
    by (cases i) (auto simp: implicit_range_def implicit_reads_def object_implicit_reads_def map_registers_def
        encoded_window_def)
next
  case (CallOp i)
  have one: "k \<noteq> 1 \<and> 0 < unat k" if "1 < k" for k :: u8 using that by auto
  show ?thesis using assms(1) CallOp
    by (cases i) (auto simp: implicit_range_def implicit_reads_def call_implicit_reads_def map_registers_def
        encoded_window_def call_window_def Let_def dest: one)
next
  case (CheckOp i)
  then show ?thesis using assms(1,2)
    by (cases i) (auto simp: implicit_range_def implicit_reads_def check_implicit_reads_def map_registers_def
        encoded_window_def single_output_def)
qed (simp_all add: implicit_range_def implicit_reads_def map_registers_def)

text \<open>The rest of a window after its first register.\<close>

lemma window_rest:
  fixes r :: register
  assumes "window r (Suc k) \<subseteq> {..<0xFFFF}" "0 < k"
  shows "window (r + 1) k \<subseteq> window r (Suc k)"
proof -
  have "unat r + 1 < 2 ^ 16" using window_below [OF assms(1)] assms(2) by simp
  then show ?thesis using unat_plus_one [of r] by (auto simp: window_def)
qed

text \<open>Every register of an implicit window is pinned, except in the three cases of one register.\<close>

lemma implicit_range_pinned:
  assumes "plain c ins" "\<not> single_output ins" "\<not> tuple_window ins" "\<not> single_tuple ins"
  shows "set (implicit_range ins) \<subseteq> set (pinned_by ins)"
proof
  fix r assume "r \<in> set (implicit_range ins)"
  then obtain first n where w: "implicit_reads ins = Some (first, n)" "r \<in> set (register_range first n)"
    by (cases "implicit_reads ins") (auto simp: implicit_range_def)
  have p: "instruction_registers c ins \<subseteq> {..<0xFFFF}" using assms(1) by (simp add: plain_def)
  have reads: "window first n \<subseteq> {..<0xFFFF}"
    using implicit_reads_window [OF p _ w(1)] p by auto
  then have r: "unat r \<in> window first n" using register_range_window w(2) by blast
  have "\<exists>start k. encoded_window ins = Some (start, k) \<and> unat r \<in> window start k \<and> \<not> (k = 1 \<and> is_output ins)"
  proof (cases ins)
    case (ArrayOp i)
    then show ?thesis using w(1) r
      by (cases i) (auto simp: implicit_reads_def array_implicit_reads_def encoded_window_def is_output_def
          array_register_count_value split: if_splits)
  next
    case (ArrayUpdate i)
    then show ?thesis using w(1) r
      by (cases i) (auto simp: implicit_reads_def update_implicit_reads_def encoded_window_def is_output_def)
  next
    case (Switch i)
    then show ?thesis using w(1) assms(3,4)
      by (cases i) (auto simp: implicit_reads_def tuple_window_def single_tuple_def split: if_splits)
  next
    case (ObjectOp i)
    have "unat r \<in> window f 2" if "unat r \<in> window (f + 1) 1" "window f 2 \<subseteq> {..<0xFFFF}" for f :: register
      using that window_rest [of f 1] by (auto simp: numeral_2_eq_2)
    then show ?thesis using ObjectOp w(1) r p
      by (cases i) (auto simp: implicit_reads_def object_implicit_reads_def encoded_window_def is_output_def
          instruction_registers_def object_registers_of_def split: if_splits)
  next
    case (CallOp i)
    have rest: "unat r \<in> window f (unat k) \<and> k \<noteq> 1"
      if "unat r \<in> window (f + 1) (unat (k - 1))" "1 < k" "window f (unat k) \<subseteq> {..<0xFFFF}" for f :: register and k :: u8
    proof -
      have "Suc (unat (k - 1)) = unat k" "0 < unat (k - 1)"
        using that(2) unat_sub [of 1 k] by (auto simp: word_less_nat_alt word_le_nat_alt)
      then show ?thesis using that window_rest [of f "unat (k - 1)"] by auto
    qed
    show ?thesis using CallOp w(1) r p
      by (cases i) (auto simp: implicit_reads_def call_implicit_reads_def encoded_window_def call_window_def
          is_output_def instruction_registers_def call_registers_of_def Let_def split: if_splits dest: rest)
  next
    case (CheckOp i)
    have "unat r \<in> window f (Suc (unat k))"
      if "unat r \<in> window (f + 1) (unat k)" "k \<noteq> 0" "window f (Suc (unat k)) \<subseteq> {..<0xFFFF}" for f :: register and k :: u8
      using that window_rest [of f "unat k"] by auto
    moreover have "unat k = 1 \<longleftrightarrow> k = 1" for k :: u8
      by (metis unat_1 word_unat_eq_iff)
    ultimately show ?thesis using CheckOp w(1) r p assms(2)
      by (cases i) (auto simp: implicit_reads_def check_implicit_reads_def encoded_window_def is_output_def
          instruction_registers_def check_registers_of_def single_output_def split: if_splits)
  qed (use w(1) in \<open>simp_all add: implicit_reads_def\<close>)
  then obtain start k where start: "encoded_window ins = Some (start, k)" "unat r \<in> window start k"
    "\<not> (k = 1 \<and> is_output ins)" by blast
  have "window start k \<subseteq> {..<0xFFFF}" using encoded_window_registers [OF start(1)] p by blast
  with start show "r \<in> set (pinned_by ins)" using register_range_window [of start k r] by (auto simp: pinned_by_def)
qed
lemma register_range_one: "r \<noteq> register_NONE \<Longrightarrow> register_range r (Suc 0) = [r]"
proof -
  assume "r \<noteq> register_NONE"
  then have "unat r \<noteq> 0xFFFF" by (auto simp: register_NONE_def word_unat_eq_iff)
  then have "unat r + 1 < 2 ^ 16" using unsigned_less [of r, where 'a = nat] by simp
  then show ?thesis using unat_plus_one [of r] by (simp add: register_range_def)
qed

lemma implicit_range_single:
  assumes "single_output ins \<or> single_tuple ins" "implicit_reads ins = Some (r, n)" "r \<noteq> register_NONE"
  shows "implicit_range ins = [r]"
  using assms
  by (auto simp: implicit_range_def register_range_one implicit_reads_def single_output_def single_tuple_def
      check_implicit_reads_def split: instruction.splits check_instruction.splits switch_instruction.splits)

text \<open>An instruction without its registers: its kind and its other fields.\<close>

definition erase :: "instruction \<Rightarrow> instruction" where
  "erase = map_registers (\<lambda>_ _. 0)"

lemma erase_map_registers [simp]: "erase (map_registers g ins) = erase ins"
  by (simp add: erase_def)

definition renames :: "register list \<Rightarrow> instruction \<Rightarrow> instruction \<Rightarrow> bool" where
  "renames mapping ins ins' \<longleftrightarrow> erase ins' = erase ins \<and> operands ins' = operands ins \<and>
     read_list ins' = map (\<lambda>r. mapping ! unat r) (read_list ins) \<and>
     write_list ins' = map (\<lambda>r. mapping ! unat r) (write_list ins)"

lemma remap_single_output:
  assumes "single_output ins" "\<forall>r\<in>set (read_list ins). r \<noteq> register_NONE \<and> unat r < length mapping \<and> mapping ! unat r \<noteq> register_NONE"
    and "plain c ins"
  shows "\<exists>ins'. remap_instruction mapping ins = Some (Inr ins') \<and> renames mapping ins ins'"
proof -
  from assms(1) obtain i where i: "ins = CheckOp i" by (cases ins) (auto simp: single_output_def)
  have "unat r \<in> instruction_registers c ins \<longrightarrow> r \<noteq> register_NONE" for r
    using assms(3) by (auto simp: plain_def register_NONE_def)
  then show ?thesis
    using assms(1,2) i
    by (cases i) (auto simp: single_output_def remap_instruction_def remap_registers_def operands_def renames_def
        read_list_def write_list_def access_registers_def implicit_range_def implicit_reads_def
        check_implicit_reads_def register_range_one instruction_registers_def check_registers_of_def window_def
        List.map_filter_simps erase_def map_registers_def)
qed

lemma remap_instruction_renames:
  assumes "plain c ins" "operands ins = Some ops" "\<not> tuple_window ins"
    and "\<forall>k\<in>touched ins. k < length mapping \<and> mapping ! k \<noteq> register_NONE"
    and "\<forall>r\<in>set (pinned_by ins). mapping ! unat r = r"
  shows "\<exists>ins'. remap_instruction mapping ins = Some (Inr ins') \<and> renames mapping ins ins'"
proof (cases "single_output ins")
  case True
  have "r \<noteq> register_NONE \<and> unat r < length mapping \<and> mapping ! unat r \<noteq> register_NONE" if "r \<in> set (read_list ins)" for r
  proof -
    have "unat r \<in> touched ins" using that by (simp add: touched_def)
    then show ?thesis using assms(4) touched_register [OF assms(1)] that by blast
  qed
  with remap_single_output [OF True _ assms(1)] show ?thesis by blast
next
  case False
  let ?g = "renamed ins (fst ` set ops) mapping"
  have occurs: "unat r \<in> touched ins" if n: "n \<in> fst ` set ops" "operand_register ins n = Some r" for n r
  proof -
    obtain a where "(n, a) \<in> set ops" using n(1) by auto
    then have "r \<in> set (access_registers a ins)" using n(2) assms(2) unfolding access_registers_iff by blast
    then show ?thesis by (cases a) (simp_all add: touched_def read_list_def write_list_def)
  qed
  have remap: "remap_registers ins mapping = Some (Inr (map_registers ?g ins))"
    using remap_operands_map [of ops "[]" ins mapping] occurs assms(2,4)
    by (force simp: remap_registers_def)
  have "\<not> single_output (map_registers ?g ins)"
    using False by (cases ins) (auto simp: single_output_def map_registers_def split: check_instruction.splits)
  then have here: "remap_instruction mapping ins = Some (Inr (map_registers ?g ins))"
    using remap by (auto simp: remap_instruction_def single_output_def split: instruction.splits check_instruction.splits)
  have access: "access_registers a (map_registers ?g ins) = map (\<lambda>r. mapping ! unat r) (access_registers a ins)" for a
    using occurs assms(4) by (intro access_registers_renamed [OF assms(2)]) blast
  have "implicit_range (map_registers ?g ins) = map (\<lambda>r. mapping ! unat r) (implicit_range ins)"
  proof (cases "single_tuple ins")
    case True
    then obtain first t where ins: "ins = Switch (SwitchTuplePattern first 1 t)"
      by (auto simp: single_tuple_def split: instruction.splits switch_instruction.splits)
    have "unat first \<in> instruction_registers c ins"
      by (simp add: ins instruction_registers_def switch_registers_of_def window_def)
    then have none: "first \<noteq> register_NONE" using assms(1) by (auto simp: plain_def register_NONE_def)
    then have "unat first \<in> touched ins"
      using assms(2) by (intro occurs [of 1])
        (auto simp: ins operands_def register_at_def instruction_layout_def calls_without_arguments_def)
    then have "mapping ! unat first \<noteq> register_NONE" using assms(4) by blast
    with none assms(2) show ?thesis
      by (auto simp: ins implicit_range_def implicit_reads_def register_range_one map_registers_def renamed_def
          operands_def calls_without_arguments_def)
  next
    case single: False
    have "?g n first = first" if "encoded_window ins = Some (first, k)" "0 < k" for first k n
    proof -
      have w: "window first k \<subseteq> {..<0xFFFF}" using encoded_window_registers [OF that(1)] assms(1) by (auto simp: plain_def)
      have "first \<in> set (register_range first k)" using register_range_window [OF w] that(2) by (simp add: window_def)
      moreover have "\<not> (k = 1 \<and> is_output ins)"
      proof
        assume "k = 1 \<and> is_output ins"
        then show False
          using that(1) False
          by (auto simp: encoded_window_def is_output_def single_output_def word_unat_eq_iff
              split: instruction.splits check_instruction.splits)
      qed
      ultimately have "first \<in> set (pinned_by ins)" using that(1) by (auto simp: pinned_by_def)
      then show ?thesis using assms(5) by (simp add: renamed_def)
    qed
    then have "implicit_range (map_registers ?g ins) = implicit_range ins"
      by (intro implicit_reads_kept False assms(3) single) auto
    moreover have "map (\<lambda>r. mapping ! unat r) (implicit_range ins) = implicit_range ins"
      using implicit_range_pinned [OF assms(1) False assms(3) single] assms(5) by (intro map_idI) blast
    ultimately show ?thesis by simp
  qed
  with here access show ?thesis by (simp add: renames_def read_list_def write_list_def)
qed

text \<open>Moving the start of an empty window changes no register of the instruction.\<close>

lemma normalize_window_start_lists:
  "operands (normalize_window_start p ins) = operands ins"
  "read_list (normalize_window_start p ins) = read_list ins"
  "write_list (normalize_window_start p ins) = write_list ins"
  "erase (normalize_window_start p ins) = erase ins"
proof -
  note defs = normalize_window_start_def operands_def read_list_def write_list_def access_registers_def
    operand_register_def register_at_def instruction_layout_def calls_without_arguments_def implicit_range_def
    implicit_reads_def List.map_filter_simps erase_def map_registers_def
  have "operands (normalize_window_start p ins) = operands ins \<and>
      read_list (normalize_window_start p ins) = read_list ins \<and>
      write_list (normalize_window_start p ins) = write_list ins \<and>
      erase (normalize_window_start p ins) = erase ins"
  proof (cases ins)
    case (ArrayOp i)
    then show ?thesis by (cases i) (simp_all add: defs array_implicit_reads_def)
  next
    case (CallOp i)
    then show ?thesis by (cases i) (simp_all add: defs normalize_call_start_def call_implicit_reads_def)
  next
    case (CheckOp i)
    then show ?thesis by (cases i) (simp_all add: defs check_implicit_reads_def)
  qed (simp_all add: defs)
  then show "operands (normalize_window_start p ins) = operands ins"
    "read_list (normalize_window_start p ins) = read_list ins"
    "write_list (normalize_window_start p ins) = write_list ins"
    "erase (normalize_window_start p ins) = erase ins" by auto
qed

lemma renames_normalize: "renames mapping ins (normalize_window_start p ins') = renames mapping ins ins'"
  by (simp add: renames_def normalize_window_start_lists)

lemma remap_code_renames:
  assumes "\<forall>ins\<in>set cs. \<exists>ins'. remap_instruction mapping ins = Some (Inr ins') \<and> renames mapping ins ins'"
  shows "\<exists>cs'. remap_code mapping cs = Some (Inr cs') \<and> list_all2 (renames mapping) cs cs'"
  using assms
proof (induction cs)
  case (Cons ins cs)
  then show ?case by (auto; fastforce)
qed simp

text \<open>What is asked of a mapping, and what applying it gives.\<close>

definition mapping_fits :: "chunk \<Rightarrow> register list \<Rightarrow> bool" where
  "mapping_fits c mapping \<longleftrightarrow>
     (\<forall>ins\<in>set (code c). operands ins \<noteq> None \<and> \<not> tuple_window ins \<and>
        (\<forall>k\<in>touched ins. k < length mapping \<and> mapping ! k \<noteq> register_NONE) \<and>
        (\<forall>r\<in>set (pinned_by ins). mapping ! unat r = r))"

definition code_renamed :: "register list \<Rightarrow> chunk \<Rightarrow> chunk \<Rightarrow> bool" where
  "code_renamed mapping c c' \<longleftrightarrow> list_all2 (renames mapping) (code c) (code c')"

lemma verified_plain_code:
  assumes "verify xxh3 c = Inr ()" "no_empty_tuple_patterns c" "ins \<in> set (code c)"
  shows "plain c ins"
proof -
  obtain i where "i < length (code c)" "code c ! i = ins" using assms(3) by (auto simp: in_set_conv_nth)
  then show ?thesis
    using verified_plain [OF assms(1)] assms(2) by (auto simp: no_empty_tuple_patterns_def list_all_length)
qed

lemma apply_mapping_renames:
  assumes "verify xxh3 c = Inr ()" "no_empty_tuple_patterns c" "mapping_fits c mapping"
  shows "\<exists>c'. apply_mapping mapping high c = Some (Inr (c', unat (register_count c - high))) \<and>
    code_renamed mapping c c' \<and> register_count c' = high"
proof -
  have "\<forall>ins\<in>set (code c). \<exists>ins'. remap_instruction mapping ins = Some (Inr ins') \<and> renames mapping ins ins'"
    using assms(3) remap_instruction_renames [OF verified_plain_code [OF assms(1,2)]]
    unfolding mapping_fits_def by (metis not_None_eq)
  from remap_code_renames [OF this] obtain cs' where cs': "remap_code mapping (code c) = Some (Inr cs')"
    "list_all2 (renames mapping) (code c) cs'" by blast
  then show ?thesis
    by (auto simp: apply_mapping_def normalize_empty_window_starts_def code_renamed_def Let_def
        list.rel_map renames_normalize)
qed

lemma code_renamed_identity:
  assumes "\<And>r :: register. mapping ! unat r = r"
  shows "code_renamed mapping c c"
  using assms by (simp add: code_renamed_def renames_def list.rel_refl)

text \<open>The renamed code stays in the smaller frame.\<close>

lemma renamed_in_frame:
  assumes "code_renamed mapping c c'" "\<forall>ins\<in>set (code c). \<forall>k\<in>touched ins. mapping ! k < high"
  shows "\<forall>ins\<in>set (code c'). touched ins \<subseteq> {..<unat high}"
proof
  fix ins' assume "ins' \<in> set (code c')"
  then obtain ins where ins: "ins \<in> set (code c)" "renames mapping ins ins'"
    using assms(1) unfolding code_renamed_def by (metis list_all2_conv_all_nth in_set_conv_nth)
  then have "touched ins' = (\<lambda>k. unat (mapping ! k)) ` touched ins"
    by (auto simp: touched_def renames_def)
  then show "touched ins' \<subseteq> {..<unat high}" using assms(2) ins(1) by (auto simp: word_less_nat_alt)
qed

section \<open>Runs of renamed code\<close>

text \<open>
  What the instructions do is a parameter: a behaviour gives, for an index, the instruction there
  without its registers and the values it reads, the values it writes and where execution
  continues, or that it leaves the chunk. The values are written in the order of the table, so a
  later one may replace an earlier one. A run is what was executed: the indices with the values read.
\<close>

type_synonym 'v behaviour = "nat \<Rightarrow> instruction \<Rightarrow> 'v list \<Rightarrow> 'v list \<times> nat option"

definition write_values :: "register list \<Rightarrow> 'v list \<Rightarrow> (register \<Rightarrow> 'v) \<Rightarrow> register \<Rightarrow> 'v" where
  "write_values rs vs regs = fold (\<lambda>(r, v) regs. regs(r := v)) (zip rs vs) regs"

fun run_of :: "'v behaviour \<Rightarrow> instruction list \<Rightarrow> nat \<Rightarrow> nat \<Rightarrow> (register \<Rightarrow> 'v) \<Rightarrow> (nat \<times> 'v list) list" where
  "run_of b cs 0 i regs = []"
| "run_of b cs (Suc n) i regs =
     (if i < length cs
      then let vs = map regs (read_list (cs ! i)); (outs, next) = b i (erase (cs ! i)) vs
           in (i, vs) # (case next of
                None \<Rightarrow> []
              | Some j \<Rightarrow> run_of b cs n j (write_values (write_list (cs ! i)) outs regs))
      else [])"

text \<open>
  A behaviour fits a chunk: every written register gets a value, and execution continues at a
  successor.
\<close>

definition behaves :: "'v behaviour \<Rightarrow> chunk \<Rightarrow> bool" where
  "behaves b c \<longleftrightarrow>
     (\<forall>i<length (code c). \<forall>vs outs next. b i (erase (code c ! i)) vs = (outs, next) \<longrightarrow>
        length outs = length (write_list (code c ! i)) \<and>
        (\<forall>j. next = Some j \<longrightarrow> (\<exists>edges. successors c i = Inr edges \<and> j \<in> set edges)))"

lemma write_values_other: "r \<notin> set rs \<Longrightarrow> write_values rs vs regs r = regs r"
  unfolding write_values_def
proof (induction rs arbitrary: vs regs)
  case (Cons x rs)
  then show ?case by (cases vs) auto
qed simp

lemma write_values_last:
  assumes "rs = xs @ r # ys" "r \<notin> set ys" "length vs = length rs"
  shows "write_values rs vs regs r = vs ! length xs"
proof -
  have "write_values (xs @ r # ys) vs regs r = vs ! length xs" if "length vs = length (xs @ r # ys)" for vs regs
    using that
  proof (induction xs arbitrary: vs regs)
    case Nil
    then obtain v vs' where vs: "vs = v # vs'" by (cases vs) auto
    with assms(2) show ?case using write_values_other [of r ys vs' "regs(r := v)"] by (simp add: write_values_def)
  next
    case (Cons x xs)
    then obtain v vs' where vs: "vs = v # vs'" by (cases vs) auto
    with Cons show ?case using Cons.IH [of vs' "regs(x := v)"] by (simp add: write_values_def)
  qed
  with assms show ?thesis by blast
qed

text \<open>
  What a renaming must respect: \<open>needed r i\<close> says that the value of \<open>r\<close> matters when execution comes to
  \<open>i\<close>. A register needed after an instruction is not hit by the renamed write of another register,
  except by one that it is itself written after.
\<close>

definition needs_hold :: "chunk \<Rightarrow> (register \<Rightarrow> nat \<Rightarrow> bool) \<Rightarrow> bool" where
  "needs_hold c needed \<longleftrightarrow>
     (\<forall>i<length (code c). (\<forall>r\<in>set (read_list (code c ! i)). needed r i) \<and>
        (\<forall>edges. successors c i = Inr edges \<longrightarrow> (\<forall>j\<in>set edges. \<forall>r. needed r j \<longrightarrow>
           r \<notin> set (write_list (code c ! i)) \<longrightarrow> needed r i)))"

definition writes_apart :: "chunk \<Rightarrow> (register \<Rightarrow> nat \<Rightarrow> bool) \<Rightarrow> register list \<Rightarrow> bool" where
  "writes_apart c needed mapping \<longleftrightarrow>
     (\<forall>i<length (code c). \<forall>edges. successors c i = Inr edges \<longrightarrow> (\<forall>j\<in>set edges. \<forall>r. needed r j \<longrightarrow>
        (\<forall>xs ys. write_list (code c ! i) = xs @ ys \<longrightarrow> r \<notin> set ys \<longrightarrow> xs = [] \<or> last xs = r \<longrightarrow>
           (\<forall>d\<in>set ys. mapping ! unat d \<noteq> mapping ! unat r))))"

lemma write_values_renamed:
  assumes "\<And>xs ys. ws = xs @ ys \<Longrightarrow> r \<notin> set ys \<Longrightarrow> xs = [] \<or> last xs = r \<Longrightarrow> \<forall>d\<in>set ys. f d \<noteq> f r"
    and "length outs = length ws" "r \<notin> set ws \<Longrightarrow> regs' (f r) = regs r"
  shows "write_values (map f ws) outs regs' (f r) = write_values ws outs regs r"
proof (cases "r \<in> set ws")
  case False
  have "\<forall>d\<in>set ws. f d \<noteq> f r" using assms(1) [of "[]" ws] False by simp
  then have "f r \<notin> set (map f ws)" by auto
  with False assms(3) show ?thesis by (simp add: write_values_other)
next
  case True
  then obtain xs ys where ws: "ws = xs @ r # ys" "r \<notin> set ys" by (meson split_list_last)
  then have "\<forall>d\<in>set ys. f d \<noteq> f r" using assms(1) [of "xs @ [r]" ys] by simp
  then have "f r \<notin> set (map f ys)" by auto
  with ws assms(2) show ?thesis
    using write_values_last [of "map f ws" "map f xs" "f r" "map f ys" outs regs']
      write_values_last [of ws xs r ys outs regs] by simp
qed

lemma write_values_same:
  assumes "length outs = length ws" "r \<notin> set ws \<Longrightarrow> regs' r = regs r"
  shows "write_values ws outs regs' r = write_values ws outs regs r"
  using write_values_renamed [of ws r "\<lambda>r. r" outs regs' regs] assms by auto

lemma run_renamed:
  assumes "code_renamed mapping c c'" "needs_hold c needed" "writes_apart c needed mapping" "behaves b c"
    and "\<forall>r. needed r i \<longrightarrow> regs' (mapping ! unat r) = regs r"
  shows "run_of b (code c') n i regs' = run_of b (code c) n i regs"
  using assms(5)
proof (induction n arbitrary: i regs regs')
  case (Suc n)
  have len: "length (code c') = length (code c)" using assms(1) by (auto simp: code_renamed_def list_all2_lengthD)
  show ?case
  proof (cases "i < length (code c)")
    case False
    then show ?thesis using len by simp
  next
    case True
    let ?f = "\<lambda>r. mapping ! unat r" and ?ins = "code c ! i" and ?ins' = "code c' ! i"
    have ren: "renames mapping ?ins ?ins'" using assms(1) True by (simp add: code_renamed_def list_all2_nthD)
    have reads: "map regs' (read_list ?ins') = map regs (read_list ?ins)"
      using ren Suc.prems assms(2) True by (auto simp: renames_def needs_hold_def)
    obtain outs "next" where b: "b i (erase ?ins) (map regs (read_list ?ins)) = (outs, next)" by fastforce
    have tail: "run_of b (code c') n j (write_values (write_list ?ins') outs regs') =
        run_of b (code c) n j (write_values (write_list ?ins) outs regs)" if j: "next = Some j" for j
    proof (rule Suc.IH, intro allI impI)
      fix r assume r: "needed r j"
      obtain edges where edges: "successors c i = Inr edges" "j \<in> set edges"
        and outs: "length outs = length (write_list ?ins)"
        using assms(4) True b j unfolding behaves_def by blast
      have old: "regs' (?f r) = regs r" if "r \<notin> set (write_list ?ins)"
        using Suc.prems assms(2) True edges r that unfolding needs_hold_def by blast
      have apart: "\<forall>d\<in>set ys. ?f d \<noteq> ?f r"
        if "write_list ?ins = xs @ ys" "r \<notin> set ys" "xs = [] \<or> last xs = r" for xs ys
        using assms(3) True edges r that unfolding writes_apart_def by blast
      have "write_list ?ins' = map ?f (write_list ?ins)" using ren by (simp add: renames_def)
      with write_values_renamed [of "write_list ?ins" r ?f outs regs' regs, OF apart outs old]
      show "write_values (write_list ?ins') outs regs' (?f r) = write_values (write_list ?ins) outs regs r"
        by simp
    qed
    have "b i (erase ?ins') (map regs' (read_list ?ins')) = (outs, next)"
      unfolding reads using b ren by (simp add: renames_def)
    with b reads tail True len show ?thesis by (cases "next") simp_all
  qed
qed simp

section \<open>Live registers are what is needed\<close>

definition classified :: "chunk \<Rightarrow> bool" where
  "classified c \<longleftrightarrow> list_all (\<lambda>ins. operands ins \<noteq> None) (code c)"

lemma classified_visits:
  assumes "classified c" "i < length (code c)"
  obtains rs ws where "for_each_read_register (code c ! i) = Some rs" "for_each_write_register (code c ! i) = Some ws"
    "set ws \<subseteq> set (write_list (code c ! i))"
proof -
  obtain ops where ops: "operands (code c ! i) = Some ops"
    using assms by (fastforce simp: classified_def list_all_length)
  let ?rs = "visit_operands (code c ! i) (Some ReadAccess) [] ops @ implicit_registers (code c ! i)"
  let ?ws = "visit_operands (code c ! i) (Some WriteAccess) [] ops"
  have "for_each_read_register (code c ! i) = Some ?rs" "for_each_write_register (code c ! i) = Some ?ws"
    using ops by (simp_all add: for_each_read_register_def for_each_write_register_def for_each_explicit_register_def)
  moreover have "set ?ws \<subseteq> set (write_list (code c ! i))"
  proof
    fix r assume "r \<in> set ?ws"
    then obtain k n where "k < length ops" "ops ! k = (n, WriteAccess)" "operand_register (code c ! i) n = Some r"
      by (auto simp: visit_operands_set)
    then have "(n, WriteAccess) \<in> set ops \<and> operand_register (code c ! i) n = Some r" by (metis nth_mem)
    then show "r \<in> set (write_list (code c ! i))" using ops unfolding write_list_def access_registers_iff by blast
  qed
  ultimately show thesis by (rule that)
qed

lemma live_in_frame:
  assumes "verify xxh3 c = Inr ()" "no_empty_tuple_patterns c" "classified c" "live c [] r i" "r \<noteq> register_NONE"
  shows "unat r < unat (register_count c)"
  using assms(4)
proof induction
  case (read i e)
  have plain: "plain c (code c ! i)" using verified_plain_code [OF assms(1,2)] read(1) by simp
  obtain rs ws where v: "for_each_read_register (code c ! i) = Some rs" "for_each_write_register (code c ! i) = Some ws"
    using classified_visits [OF assms(3) read(1)] by metis
  have "r \<in> set rs" using visitors_agree(1) [OF plain assms(5) read(4) v read(3)] read(5) by simp
  then have "unat r \<in> instruction_registers c (code c ! i)" by (rule read_registers_visited [OF v(1) plain])
  then show ?case using verified_registers [OF assms(1) read(1)] by auto
qed

lemma live_needs_hold:
  assumes "verify xxh3 c = Inr ()" "no_empty_tuple_patterns c" "classified c"
  shows "needs_hold c (\<lambda>r i. live c [] r i \<and> r \<noteq> register_NONE)"
  unfolding needs_hold_def
proof (intro allI impI conjI ballI)
  fix i assume i: "i < length (code c)"
  have plain: "plain c (code c ! i)" using verified_plain_code [OF assms(1,2)] i by simp
  obtain rs ws where v: "for_each_read_register (code c ! i) = Some rs" "for_each_write_register (code c ! i) = Some ws"
    "set ws \<subseteq> set (write_list (code c ! i))"
    by (rule classified_visits [OF assms(3) i])
  have here: "\<not> removed_at [] i" by (simp add: removed_at_def list_get_def)
  { fix r assume r: "r \<in> set (read_list (code c ! i))"
    show none: "r \<noteq> register_NONE" using touched_register [OF plain] r by blast
    have rs: "r \<in> set rs" using r read_list_iff [OF plain v(1)] by simp
    obtain e where e: "effect_on c (code c ! i) r = Inr e" using verified_effect [OF assms(1) i] by blast
    have "\<not> clears (code c ! i) r" using clears_visits(2) [OF _ none] rs v(1) by auto
    with e visitors_agree(1) [OF plain none e v(1,2)] rs show "live c [] r i"
      by (auto intro: live.read [OF i here]) }
  { fix edges j r
    assume edges: "successors c i = Inr edges" "j \<in> set edges" and r: "live c [] r j \<and> r \<noteq> register_NONE"
      and w: "r \<notin> set (write_list (code c ! i))"
    obtain e where e: "effect_on c (code c ! i) r = Inr e" using verified_effect [OF assms(1) i] by blast
    have "\<not> clears (code c ! i) r" using clears_visits(1) [of "code c ! i" r] r w v(2,3) by auto
    with e visitors_agree(2) [OF plain _ e v(1,2)] r w v(3) edges show "live c [] r i"
      by (cases "reads e") (auto intro: live.read [OF i here] live.passed [OF i here])
    show "r \<noteq> register_NONE" using r by simp }
qed

end
