(* ===== verification/Whim_Reuse.thy ===== *)
theory Whim_Reuse
  imports Whim_Renaming "HOL-Library.Multiset"
begin

text \<open>
  Reuse of temporary registers (\<^verbatim>\<open>crates/optimizer/src/passes/reuse_temporaries/mod.rs\<close>): the range
  of every temporary from its first to its last occurrence, stretched over the loops it lives
  through, and the linear scan that packs the ranges into fewer registers; and the release of locals
  that no path uses. The ranges are sorted by an unstable sort, whose order among equal keys is not
  specified: the sort is a parameter of the pass, of which only \<open>sorts_intervals\<close> is assumed.
\<close>

section \<open>Ranges of the temporaries\<close>

text \<open>
  What the pass records of every register: its first and its last occurrence, whether the first is a
  write, and whether that write may share a register with an input of its instruction. \<open>None\<close> is the
  sentinel \<open>usize::MAX\<close> of a register without an occurrence, which is below no index.
\<close>

record occurrences =
  first_at :: "nat option list"
  last_at :: "nat list"
  write_first :: "bool list"
  alias_first :: "bool list"

definition no_occurrences :: "nat \<Rightarrow> occurrences" where
  "no_occurrences n = \<lparr>first_at = replicate n None, last_at = replicate n 0,
     write_first = replicate n False, alias_first = replicate n False\<rparr>"

text \<open>
  An occurrence at an index: of an operand, with its two flags, or in an implicit window, which leaves
  the flags as they are.
\<close>

definition touch :: "nat \<Rightarrow> register \<times> (bool \<times> bool) option \<Rightarrow> occurrences \<Rightarrow> panic + occurrences" where
  "touch index event occ =
     (let r = unat (fst event)
      in if length (first_at occ) \<le> r then Inl IndexOutOfBounds
         else let occ = (if first_at occ ! r = None
                  then case snd event of
                      Some (written, alias) \<Rightarrow> occ\<lparr>first_at := (first_at occ)[r := Some index],
                        write_first := (write_first occ)[r := written],
                        alias_first := (alias_first occ)[r := alias]\<rparr>
                    | None \<Rightarrow> occ\<lparr>first_at := (first_at occ)[r := Some index]\<rparr>
                  else occ)
              in Inr (occ\<lparr>last_at := (last_at occ)[r := index]\<rparr>))"

fun touch_all ::
  "nat \<Rightarrow> (register \<times> (bool \<times> bool) option) list \<Rightarrow> occurrences \<Rightarrow> panic + occurrences" where
  "touch_all index [] occ = Inr occ"
| "touch_all index (event # events) occ = result_bind (touch index event occ) (touch_all index events)"

definition operand_event :: "instruction \<Rightarrow> operand \<Rightarrow> (register \<times> (bool \<times> bool) option) list" where
  "operand_event ins operand =
     (if fst operand = 4 \<and> calls_without_arguments ins then []
      else case register_at ins (fst operand) of
        None \<Rightarrow> []
      | Some r \<Rightarrow>
          if r = register_NONE then []
          else [(r, Some (snd operand = WriteAccess,
            snd operand = WriteAccess \<and> write_may_alias_inputs ins))])"

definition instruction_events :: "instruction \<Rightarrow> operand list \<Rightarrow> (register \<times> (bool \<times> bool) option) list" where
  "instruction_events ins ops =
     concat (map (operand_event ins) ops) @ map (\<lambda>r. (r, None)) (implicit_range ins)"

fun find_occurrences ::
  "nat \<Rightarrow> instruction list \<Rightarrow> occurrences \<Rightarrow> panic + occurrences option" where
  "find_occurrences index [] occ = Inr (Some occ)"
| "find_occurrences index (ins # rest) occ =
     (case operands ins of
        None \<Rightarrow> Inr None
      | Some ops \<Rightarrow> result_bind (touch_all index (instruction_events ins ops) occ)
          (find_occurrences (index + 1) rest))"

text \<open>
  A backward edge stretches every range that begins before its target and reaches it, up to its
  source. The edges are taken in the order of their sources, each once.
\<close>

definition stretch_register :: "nat option list \<Rightarrow> nat \<Rightarrow> nat \<Rightarrow> nat \<Rightarrow> nat list \<Rightarrow> nat list" where
  "stretch_register firsts source target r lasts =
     (case firsts ! r of
        Some first \<Rightarrow>
          if first < target \<and> lasts ! r \<ge> target then lasts[r := max (lasts ! r) source] else lasts
      | None \<Rightarrow> lasts)"

definition stretch_edge :: "nat option list \<Rightarrow> nat list \<Rightarrow> nat \<Rightarrow> nat \<Rightarrow> nat list \<Rightarrow> nat list" where
  "stretch_edge firsts registers source target lasts =
     (if target > source then lasts else fold (stretch_register firsts source target) registers lasts)"

fun stretch_ranges :: "chunk \<Rightarrow> nat option list \<Rightarrow> nat list \<Rightarrow> nat list \<Rightarrow> nat list \<Rightarrow> panic + nat list" where
  "stretch_ranges c firsts registers [] lasts = Inr lasts"
| "stretch_ranges c firsts registers (source # sources) lasts =
     result_bind (successors c source) (\<lambda>edges.
       stretch_ranges c firsts registers sources
         (fold (stretch_edge firsts registers source) edges lasts))"

section \<open>The linear scan\<close>

record interval =
  interval_register :: nat
  interval_start :: nat
  interval_end :: nat
  interval_starts_with_write :: bool
  interval_may_alias_inputs :: bool

record active =
  active_end :: nat
  active_physical :: u16

text \<open>One temporary whose first occurrence is no write ends the pass.\<close>

fun collect_intervals :: "occurrences \<Rightarrow> nat list \<Rightarrow> interval list option" where
  "collect_intervals occ [] = Some []"
| "collect_intervals occ (r # rs) =
     (case first_at occ ! r of
        None \<Rightarrow> collect_intervals occ rs
      | Some first \<Rightarrow>
          if \<not> write_first occ ! r then None
          else map_option ((#) \<lparr>interval_register = r, interval_start = first,
              interval_end = last_at occ ! r, interval_starts_with_write = write_first occ ! r,
              interval_may_alias_inputs = alias_first occ ! r\<rparr>) (collect_intervals occ rs))"

definition swap_remove :: "nat \<Rightarrow> 'a list \<Rightarrow> 'a list" where
  "swap_remove i xs = butlast (xs[i := last xs])"

definition reusable :: "interval \<Rightarrow> active \<Rightarrow> bool" where
  "reusable interval a \<longleftrightarrow>
     (if interval_may_alias_inputs interval then active_end a \<le> interval_start interval
      else active_end a < interval_start interval)"

function release :: "interval \<Rightarrow> nat \<Rightarrow> active list \<Rightarrow> u16 list \<Rightarrow> active list \<times> u16 list" where
  "release interval index active free =
     (if index < length active
      then if reusable interval (active ! index)
           then release interval index (swap_remove index active) (free @ [active_physical (active ! index)])
           else release interval (index + 1) active free
      else (active, free))"
  by pat_completeness auto

termination release
  by (relation "measure (\<lambda>(_, index, active, _). length active - index)") (auto simp: swap_remove_def)

declare release.simps [simp del]

text \<open>The position of the first smallest element.\<close>

fun least_position :: "u16 list \<Rightarrow> nat option" where
  "least_position [] = None"
| "least_position (x # xs) =
     (case least_position xs of
        None \<Rightarrow> Some 0
      | Some p \<Rightarrow> if xs ! p < x then Some (p + 1) else Some 0)"

record scan =
  scan_mapping :: "register list"
  scan_active :: "active list"
  scan_free :: "u16 list"
  scan_next :: u16
  scan_high_water :: u16

text \<open>The next register is counted at 16 bits.\<close>

definition allocate :: "register list \<Rightarrow> interval \<Rightarrow> scan \<Rightarrow> scan" where
  "allocate pinned interval s =
     (if of_nat (interval_register interval) \<in> set pinned then s
      else let (active, free) = release interval 0 (scan_active s) (scan_free s);
               (physical, free, next, high_water) = (case least_position free of
                  Some p \<Rightarrow> (free ! p, swap_remove p free, scan_next s, scan_high_water s)
                | None \<Rightarrow> (scan_next s, free, scan_next s + 1, max (scan_high_water s) (scan_next s + 1)))
           in \<lparr>scan_mapping = (scan_mapping s)[interval_register interval := physical],
               scan_active = active @ [\<lparr>active_end = interval_end interval, active_physical = physical\<rparr>],
               scan_free = free, scan_next = next, scan_high_water = high_water\<rparr>)"

text \<open>The order of the key \<open>(start, starts_with_write)\<close>, and what is relied on of the sort.\<close>

definition interval_le :: "interval \<Rightarrow> interval \<Rightarrow> bool" where
  "interval_le a b \<longleftrightarrow> interval_start a < interval_start b \<or>
     interval_start a = interval_start b \<and> interval_starts_with_write a \<le> interval_starts_with_write b"

definition sorts_intervals :: "(interval list \<Rightarrow> interval list) \<Rightarrow> bool" where
  "sorts_intervals sort_intervals \<longleftrightarrow>
     (\<forall>xs. mset (sort_intervals xs) = mset xs \<and> sorted_wrt interval_le (sort_intervals xs))"

text \<open>The mapping starts with the locals and the pinned registers at their place.\<close>

fun place_pinned :: "register list \<Rightarrow> register list \<Rightarrow> panic + register list" where
  "place_pinned [] mapping = Inr mapping"
| "place_pinned (r # rs) mapping =
     (if unat r < length mapping then place_pinned rs (mapping[unat r := r]) else Inl IndexOutOfBounds)"

definition fixed_mapping :: "chunk \<Rightarrow> register list \<Rightarrow> panic + register list" where
  "fixed_mapping c pinned =
     place_pinned pinned (map of_nat [0..<unat (local_register_count c)] @
       replicate (unat (register_count c) - unat (local_register_count c)) register_NONE)"

definition temporaries :: "chunk \<Rightarrow> nat list" where
  "temporaries c = [unat (local_register_count c)..<unat (register_count c)]"

definition live_ranges :: "chunk \<Rightarrow> panic + occurrences option" where
  "live_ranges c =
     result_bind (find_occurrences 0 (code c) (no_occurrences (unat (register_count c)))) (\<lambda>found.
       case found of
         None \<Rightarrow> Inr None
       | Some occ \<Rightarrow>
           result_map (\<lambda>last. Some (occ\<lparr>last_at := last\<rparr>))
             (stretch_ranges c (first_at occ) (temporaries c) [0..<length (code c)] (last_at occ)))"

definition scan_temporaries ::
  "(interval list \<Rightarrow> interval list) \<Rightarrow> chunk \<Rightarrow> panic + scan option" where
  "scan_temporaries sort_intervals c =
     (let pinned = pinned_window_registers c; high_water = pinned_high_water pinned (local_register_count c)
      in result_bind (live_ranges c) (\<lambda>ranges.
           case ranges of
             None \<Rightarrow> Inr None
           | Some occ \<Rightarrow>
               (case collect_intervals occ (temporaries c) of
                  None \<Rightarrow> Inr None
                | Some intervals \<Rightarrow>
                    result_map (\<lambda>mapping. Some (fold (allocate pinned) (sort_intervals intervals)
                      \<lparr>scan_mapping = mapping, scan_active = [], scan_free = [],
                       scan_next = high_water, scan_high_water = high_water\<rparr>)) (fixed_mapping c pinned))))"

definition reuse_temporaries ::
  "(interval list \<Rightarrow> interval list) \<Rightarrow> bool \<Rightarrow> chunk \<Rightarrow> (panic + chunk \<times> nat) option" where
  "reuse_temporaries sort_intervals enabled c =
     (if \<not> enabled \<or> register_count c \<le> local_register_count c \<or> catch_table c \<noteq> [] \<or>
         register_count c \<le> pinned_high_water (pinned_window_registers c) (local_register_count c)
      then Some (Inr (c, 0))
      else case scan_temporaries sort_intervals c of
        Inl p \<Rightarrow> Some (Inl p)
      | Inr None \<Rightarrow> Some (Inr (c, 0))
      | Inr (Some s) \<Rightarrow>
          if scan_high_water s < register_count c then apply_mapping (scan_mapping s) (scan_high_water s) c
          else Some (Inr (c, 0)))"

section \<open>Unused locals\<close>

text \<open>
  The locals at the end of the frame that no path from the entry uses become temporaries. The
  registers of incoming values and of traced arguments stay.
\<close>

definition trace_minimum :: "chunk \<Rightarrow> u16" where
  "trace_minimum c =
     fold max (map (\<lambda>r. if r = 0xFFFF then r else r + 1)
       (filter (\<lambda>r. r \<noteq> register_NONE) (trace_argument_registers c))) 0"

function trim_locals :: "chunk \<Rightarrow> u16 \<Rightarrow> u16 \<Rightarrow> panic + u16" where
  "trim_locals c minimum local_count =
     (if local_count > minimum
      then result_bind (register_is_unused_after c (local_count - 1) 0) (\<lambda>unused.
        if unused then trim_locals c minimum (local_count - 1) else Inr local_count)
      else Inr local_count)"
  by pat_completeness auto

termination trim_locals
proof (relation "measure (\<lambda>(_, _, local_count). unat local_count)", simp)
  fix c :: chunk and minimum local_count :: u16 and x :: bool
  assume "local_count > minimum"
  then have "local_count \<noteq> 0" by auto
  then have "unat (local_count - 1) < unat local_count"
    using measure_unat by blast
  then show "((c, minimum, local_count - 1), c, minimum, local_count) \<in>
      measure (\<lambda>(_, _, local_count). unat local_count)" by simp
qed

declare trim_locals.simps [simp del]

definition trim_unused_local_tail :: "chunk \<Rightarrow> u16 \<Rightarrow> panic + chunk" where
  "trim_unused_local_tail c incoming =
     (if local_register_count c \<le> incoming \<or> catch_table c \<noteq> [] then Inr c
      else result_map (\<lambda>local_count.
        if local_count = local_register_count c then c
        else c\<lparr>local_register_count := local_count,
               uninitialized_registers := filter (\<lambda>r. r < local_count) (uninitialized_registers c)\<rparr>)
        (trim_locals c (max incoming (trace_minimum c)) (local_register_count c)))"

section \<open>Ranges that share a register do not overlap\<close>

lemma mset_swap_remove: "i < length xs \<Longrightarrow> mset (swap_remove i xs) = mset xs - {#xs ! i#}"
proof -
  assume i: "i < length xs"
  then have ne: "xs \<noteq> []" by auto
  have "mset xs = add_mset (last xs) (mset (butlast xs))" if "xs \<noteq> []" for xs :: "'a list"
    by (metis append_butlast_last_id mset_append mset.simps add_mset_add_single that)
  from this [of "xs[i := last xs]"] this [OF ne] i ne
  show ?thesis by (simp add: swap_remove_def last_list_update mset_update)
qed

lemma release_split:
  assumes "release iv i act free = (act', free')" "\<forall>k<i. k < length act \<longrightarrow> \<not> reusable iv (act ! k)"
  shows "mset act' = filter_mset (\<lambda>a. \<not> reusable iv a) (mset act) \<and>
    mset free' = mset free + image_mset active_physical (filter_mset (reusable iv) (mset act))"
  using assms
proof (induction iv i act free rule: release.induct)
  case (1 iv i act free)
  show ?case
  proof (cases "i < length act")
    case False
    with "1.prems" have "act' = act" "free' = free" "\<forall>a\<in>set act. \<not> reusable iv a"
      by (auto simp: in_set_conv_nth release.simps)
    then show ?thesis by (simp flip: mset_filter)
  next
    case i: True
    show ?thesis
    proof (cases "reusable iv (act ! i)")
      case True
      have "swap_remove i act ! k = act ! k" if "k < i" "k < length (swap_remove i act)" for k
        using that by (simp add: swap_remove_def nth_butlast)
      then have "\<forall>k<i. k < length (swap_remove i act) \<longrightarrow> \<not> reusable iv (swap_remove i act ! k)"
        using "1.prems"(2) i by simp
      moreover have "release iv i (swap_remove i act) (free @ [active_physical (act ! i)]) = (act', free')"
        using "1.prems"(1) i True by (subst (asm) release.simps) simp
      ultimately have ih: "mset act' = filter_mset (\<lambda>a. \<not> reusable iv a) (mset (swap_remove i act))"
        "mset free' = mset free + {#active_physical (act ! i)#} +
           image_mset active_physical (filter_mset (reusable iv) (mset (swap_remove i act)))"
        using "1.IH"(1) [OF i True] by simp_all
      have "mset act = add_mset (act ! i) (mset (swap_remove i act))"
        using mset_swap_remove [OF i] i by simp
      with ih True show ?thesis by simp
    next
      case False
      moreover have "\<forall>k<i + 1. k < length act \<longrightarrow> \<not> reusable iv (act ! k)"
        using "1.prems"(2) False by (metis Suc_eq_plus1 less_antisym)
      moreover have "release iv (i + 1) act free = (act', free')"
        using "1.prems"(1) i False by (subst (asm) release.simps) simp
      ultimately show ?thesis using "1.IH"(2) [OF i] by blast
    qed
  qed
qed

lemma least_position_inside: "least_position xs = Some p \<Longrightarrow> p < length xs"
  by (induction xs arbitrary: p) (auto split: option.splits if_splits)

lemma least_position_None [simp]: "least_position xs = None \<longleftrightarrow> xs = []"
  by (cases xs) (auto split: option.splits)

text \<open>
  The range \<open>a\<close> is over when \<open>b\<close> begins: before the first instruction of \<open>b\<close>, or at it where that
  instruction may write over its inputs.
\<close>

definition precedes :: "interval \<Rightarrow> interval \<Rightarrow> bool" where
  "precedes a b \<longleftrightarrow> interval_end a < interval_start b \<or>
     interval_end a = interval_start b \<and> interval_may_alias_inputs b"

lemma reusable_precedes: "reusable b \<lparr>active_end = interval_end a, active_physical = p\<rparr> \<longleftrightarrow> precedes a b"
  by (auto simp: reusable_def precedes_def)

definition unpinned :: "register list \<Rightarrow> interval \<Rightarrow> bool" where
  "unpinned pinned iv \<longleftrightarrow> of_nat (interval_register iv) \<notin> set pinned"

definition as_active :: "register list \<Rightarrow> interval \<Rightarrow> active" where
  "as_active mapping iv =
     \<lparr>active_end = interval_end iv, active_physical = mapping ! interval_register iv\<rparr>"

text \<open>
  While the scan has placed the ranges \<open>placed\<close> and its counter has not wrapped: the registers handed out are
  those from the base up to the counter, each held by one active range or free; every placed range
  is active or over at the start of whatever comes next; and placed ranges that share a register
  follow each other.
\<close>

definition scan_inv :: "u16 \<Rightarrow> interval list \<Rightarrow> (interval \<Rightarrow> bool) \<Rightarrow> scan \<Rightarrow> bool" where
  "scan_inv base placed later s \<longleftrightarrow>
     base \<le> scan_next s \<and> scan_next s = scan_high_water s \<and>
     distinct (map active_physical (scan_active s) @ scan_free s) \<and>
     (\<forall>p\<in>set (map active_physical (scan_active s) @ scan_free s). base \<le> p \<and> p < scan_next s) \<and>
     (\<forall>iv\<in>set placed. base \<le> scan_mapping s ! interval_register iv \<and>
        scan_mapping s ! interval_register iv < scan_next s \<and>
        (as_active (scan_mapping s) iv \<in> set (scan_active s) \<or> (\<forall>x. later x \<longrightarrow> precedes iv x))) \<and>
     (\<forall>a\<in>set placed. \<forall>b\<in>set placed. interval_register a \<noteq> interval_register b \<longrightarrow>
        scan_mapping s ! interval_register a = scan_mapping s ! interval_register b \<longrightarrow>
        precedes a b \<or> precedes b a)"

definition later :: "(nat \<Rightarrow> bool) \<Rightarrow> nat \<Rightarrow> interval \<Rightarrow> bool" where
  "later may_alias t x \<longleftrightarrow> t \<le> interval_start x \<and> interval_may_alias_inputs x = may_alias (interval_start x)"

lemma precedes_later:
  "precedes iv x \<Longrightarrow> interval_may_alias_inputs x = may_alias (interval_start x) \<Longrightarrow>
   later may_alias (interval_start x) y \<Longrightarrow> precedes iv y"
  by (auto simp: precedes_def later_def)

lemma high_water_mono: "scan_high_water s \<le> scan_high_water (allocate pinned iv s)"
  by (cases "release iv 0 (scan_active s) (scan_free s)")
    (simp add: allocate_def Let_def case_prod_beta split: option.split)

lemma high_water_fold: "scan_high_water s \<le> scan_high_water (fold (allocate pinned) ivs s)"
  by (induction ivs arbitrary: s) (auto intro: order_trans high_water_mono)

text \<open>The registers in use after the ranges that are over have been released.\<close>

lemma release_inv:
  assumes "scan_inv base placed (later may_alias t) s" "later may_alias t iv"
    and "release iv 0 (scan_active s) (scan_free s) = (act, free)"
  shows "distinct (map active_physical act @ free)"
    "\<forall>p\<in>set (map active_physical act @ free). base \<le> p \<and> p < scan_next s"
    "\<forall>a\<in>set placed. as_active (scan_mapping s) a \<in> set act \<or>
       (\<forall>x. later may_alias (interval_start iv) x \<longrightarrow> precedes a x)"
proof -
  let ?m = "mset (scan_active s)"
  note split = release_split [OF assms(3)]
  have eq: "mset (map active_physical act @ free) = mset (map active_physical (scan_active s) @ scan_free s)"
    using split multiset_partition [of ?m "reusable iv"] by (simp flip: image_mset_union)
  show "distinct (map active_physical act @ free)"
    unfolding mset_eq_imp_distinct_iff [OF eq] using assms(1) by (simp add: scan_inv_def)
  show "\<forall>p\<in>set (map active_physical act @ free). base \<le> p \<and> p < scan_next s"
    unfolding mset_eq_setD [OF eq] using assms(1) unfolding scan_inv_def by blast
  have kept: "a \<in> set act" if "a \<in> set (scan_active s)" "\<not> reusable iv a" for a
  proof -
    have "a \<in># filter_mset (\<lambda>a. \<not> reusable iv a) ?m" using that by simp
    then have "a \<in># mset act" using split by simp
    then show ?thesis by simp
  qed
  show "\<forall>a\<in>set placed. as_active (scan_mapping s) a \<in> set act \<or>
       (\<forall>x. later may_alias (interval_start iv) x \<longrightarrow> precedes a x)"
  proof
    fix a assume a: "a \<in> set placed"
    have mono: "later may_alias t x" if "later may_alias (interval_start iv) x" for x
      using that assms(2) by (simp add: later_def)
    consider "\<forall>x. later may_alias t x \<longrightarrow> precedes a x" | "as_active (scan_mapping s) a \<in> set (scan_active s)"
      using assms(1) a unfolding scan_inv_def by blast
    then show "as_active (scan_mapping s) a \<in> set act \<or> (\<forall>x. later may_alias (interval_start iv) x \<longrightarrow> precedes a x)"
    proof cases
      case 1
      with mono show ?thesis by blast
    next
      case 2
      then show ?thesis
        using kept [OF 2] precedes_later [of a iv may_alias] assms(2)
        by (auto simp: as_active_def reusable_precedes later_def)
    qed
  qed
qed

text \<open>What the choice of a register keeps.\<close>

lemma place_inv:
  assumes "distinct (map active_physical act @ free)" "\<forall>q\<in>set (map active_physical act @ free). base \<le> q \<and> q < nxt"
    and "base \<le> nxt" "unat nxt < 0xFFFF"
    and "(p, free', nxt', high') = (case least_position free of
        Some k \<Rightarrow> (free ! k, swap_remove k free, nxt, nxt)
      | None \<Rightarrow> (nxt, free, nxt + 1, max nxt (nxt + 1)))"
  shows "distinct (p # map active_physical act @ free')" "p \<notin> set (map active_physical act)"
    "\<forall>q\<in>set (p # map active_physical act @ free'). base \<le> q \<and> q < nxt'" "nxt \<le> nxt'" "nxt' = high'"
    "free \<noteq> [] \<or> p = nxt"
proof -
  have up: "nxt < nxt + 1"
    using assms(4) by (simp add: word_less_nat_alt unat_plus_one)
  have "distinct (p # map active_physical act @ free') \<and>
      (\<forall>q\<in>set (p # map active_physical act @ free'). base \<le> q \<and> q < nxt') \<and> nxt \<le> nxt' \<and> nxt' = high' \<and>
      (free \<noteq> [] \<or> p = nxt)"
  proof (cases "least_position free")
    case None
    with assms up show ?thesis by (auto simp: max_def intro: less_trans)
  next
    case (Some k)
    then have k: "k < length free" by (rule least_position_inside)
    have m: "mset free = add_mset (free ! k) (mset (swap_remove k free))" using mset_swap_remove [OF k] k by simp
    have "mset (map active_physical act @ free) = mset (free ! k # map active_physical act @ swap_remove k free)"
      using m by simp
    then have "distinct (free ! k # map active_physical act @ swap_remove k free) \<and>
        set (free ! k # map active_physical act @ swap_remove k free) = set (map active_physical act @ free)"
      using assms(1) by (metis mset_eq_imp_distinct_iff mset_eq_setD)
    with assms(2,3,5) Some k show ?thesis by auto
  qed
  then show "distinct (p # map active_physical act @ free')" "p \<notin> set (map active_physical act)"
    "\<forall>q\<in>set (p # map active_physical act @ free'). base \<le> q \<and> q < nxt'" "nxt \<le> nxt'" "nxt' = high'"
    "free \<noteq> [] \<or> p = nxt" by auto
qed

lemma allocate_inv:
  assumes "scan_inv base placed (later may_alias t) s" "later may_alias t iv" "unpinned pinned iv"
    and "unat (scan_high_water s) < 0xFFFF" "interval_register iv < length (scan_mapping s)"
    and "\<forall>a\<in>set placed. interval_register a \<noteq> interval_register iv"
  shows "scan_inv base (placed @ [iv]) (later may_alias (interval_start iv)) (allocate pinned iv s)"
proof -
  let ?r = "interval_register iv" and ?m = "scan_mapping s"
  obtain act free where rel: "release iv 0 (scan_active s) (scan_free s) = (act, free)" by fastforce
  note after = release_inv [OF assms(1,2) rel]
  have same: "scan_high_water s = scan_next s" and base: "base \<le> scan_next s"
    using assms(1) unfolding scan_inv_def by (metis, blast)
  obtain p free' nxt' high' where choice: "(p, free', nxt', high') = (case least_position free of
        Some k \<Rightarrow> (free ! k, swap_remove k free, scan_next s, scan_next s)
      | None \<Rightarrow> (scan_next s, free, scan_next s + 1, max (scan_next s) (scan_next s + 1)))"
    by (cases "case least_position free of
        Some k \<Rightarrow> (free ! k, swap_remove k free, scan_next s, scan_next s)
      | None \<Rightarrow> (scan_next s, free, scan_next s + 1, max (scan_next s) (scan_next s + 1))") metis
  note chosen = place_inv [OF after(1,2) base assms(4) [unfolded same] choice]
  let ?s = "\<lparr>scan_mapping = ?m[?r := p],
      scan_active = act @ [\<lparr>active_end = interval_end iv, active_physical = p\<rparr>],
      scan_free = free', scan_next = nxt', scan_high_water = high'\<rparr>"
  have s': "allocate pinned iv s = ?s"
    using choice rel assms(3) same by (cases "least_position free") (auto simp: allocate_def unpinned_def)
  have other: "?m[?r := p] ! interval_register a = ?m ! interval_register a" if "a \<in> set placed" for a
    using assms(6) that by (metis nth_list_update_neq)
  have inside: "base \<le> ?m ! interval_register a \<and> ?m ! interval_register a < scan_next s" if "a \<in> set placed" for a
    using assms(1) that unfolding scan_inv_def by blast
  have over: "precedes a iv" if a: "a \<in> set placed" "?m ! interval_register a = p" for a
  proof -
    have "as_active ?m a \<notin> set act" using chosen(2) a(2) by (force simp: as_active_def)
    then show ?thesis using after(3) a(1) assms(2) by (auto simp: later_def)
  qed
  have pair: "precedes a b \<or> precedes b a" if ab: "a \<in> set (placed @ [iv])" "b \<in> set (placed @ [iv])"
    "interval_register a \<noteq> interval_register b"
    "?m[?r := p] ! interval_register a = ?m[?r := p] ! interval_register b" for a b
  proof -
    consider "a \<in> set placed" "b \<in> set placed" | "a \<in> set placed" "b = iv" | "a = iv" "b \<in> set placed"
      using ab by auto
    then show ?thesis
    proof cases
      case 1
      then have "?m ! interval_register a = ?m ! interval_register b" using ab(4) other by metis
      with 1 ab(3) assms(1) show ?thesis unfolding scan_inv_def by blast
    next
      case 2
      then show ?thesis using ab(4) other [OF 2(1)] over [OF 2(1)] assms(5) by simp
    next
      case 3
      then show ?thesis using ab(4) other [OF 3(2)] over [OF 3(2)] assms(5) by simp
    qed
  qed
  have place: "base \<le> ?m[?r := p] ! interval_register a \<and> ?m[?r := p] ! interval_register a < nxt' \<and>
      (as_active (?m[?r := p]) a \<in> set (scan_active ?s) \<or>
       (\<forall>x. later may_alias (interval_start iv) x \<longrightarrow> precedes a x))" if "a \<in> set (placed @ [iv])" for a
  proof (cases "a = iv")
    case True
    then show ?thesis using chosen(3) assms(5) by (simp add: as_active_def)
  next
    case False
    then have a: "a \<in> set placed" using that by simp
    show ?thesis
      using other [OF a] inside [OF a] after(3) a chosen(4) by (auto simp: as_active_def)
  qed
  have held: "distinct (map active_physical (scan_active ?s) @ scan_free ?s)"
    "\<forall>q\<in>set (map active_physical (scan_active ?s) @ scan_free ?s). base \<le> q \<and> q < nxt'"
    using chosen(1,3) by auto
  have "base \<le> nxt'" using base chosen(4) by (rule order_trans)
  with held place pair chosen(5) show ?thesis
    unfolding s' scan_inv_def by (simp del: set_append)
qed

lemma allocate_mapping:
  "length (scan_mapping (allocate pinned iv s)) = length (scan_mapping s)"
  "r \<noteq> interval_register iv \<or> \<not> unpinned pinned iv \<Longrightarrow> scan_mapping (allocate pinned iv s) ! r = scan_mapping s ! r"
  by (auto simp: allocate_def unpinned_def Let_def case_prod_beta split: option.split)

lemma fold_mapping:
  "length (scan_mapping (fold (allocate pinned) ivs s)) = length (scan_mapping s)"
  "\<forall>iv\<in>set ivs. unpinned pinned iv \<longrightarrow> r \<noteq> interval_register iv \<Longrightarrow>
   scan_mapping (fold (allocate pinned) ivs s) ! r = scan_mapping s ! r"
  by (induction ivs arbitrary: s) (auto simp: allocate_mapping)

lemma scan_fold:
  assumes "scan_active s = []" "scan_free s = []" "scan_next s = base" "scan_high_water s = base"
    and "sorted_wrt interval_le ivs" "distinct (map interval_register ivs)"
    and "\<forall>iv\<in>set ivs. interval_register iv < length (scan_mapping s) \<and>
      interval_may_alias_inputs iv = may_alias (interval_start iv)"
    and "unat (scan_high_water (fold (allocate pinned) ivs s)) < 0xFFFF"
  shows "\<exists>t. (t = 0 \<or> (\<exists>iv\<in>set ivs. t = interval_start iv)) \<and>
    scan_inv base (filter (unpinned pinned) ivs) (later may_alias t) (fold (allocate pinned) ivs s)"
  using assms(5-8)
proof (induction ivs rule: rev_induct)
  case Nil
  then show ?case using assms(1-4) by (auto simp: scan_inv_def)
next
  case (snoc iv ivs)
  let ?s = "fold (allocate pinned) ivs s"
  have "unat (scan_high_water ?s) \<le> unat (scan_high_water (fold (allocate pinned) (ivs @ [iv]) s))"
    using high_water_mono [of ?s pinned iv] by (simp add: word_le_nat_alt)
  then have small: "unat (scan_high_water ?s) < 0xFFFF" using snoc.prems(4) by linarith
  obtain t where t: "t = 0 \<or> (\<exists>iv\<in>set ivs. t = interval_start iv)"
    "scan_inv base (filter (unpinned pinned) ivs) (later may_alias t) ?s"
    using snoc.IH small snoc.prems by (auto simp: sorted_wrt_append)
  have le: "t \<le> interval_start iv"
    using t(1) snoc.prems(1) by (auto simp: sorted_wrt_append interval_le_def)
  show ?case
  proof (cases "unpinned pinned iv")
    case False
    then have "allocate pinned iv ?s = ?s" by (simp add: allocate_def unpinned_def)
    with t False show ?thesis by auto
  next
    case True
    have "scan_inv base (filter (unpinned pinned) ivs @ [iv]) (later may_alias (interval_start iv))
        (allocate pinned iv ?s)"
      using snoc.prems(2,3) le
      by (intro allocate_inv [OF t(2) _ True small]) (force simp: later_def fold_mapping image_iff)+
    then show ?thesis using True by auto
  qed
qed

section \<open>The ranges of a chunk\<close>

text \<open>
  What the records say when the occurrences \<open>E\<close>, pairs of an index and a register, have been seen: a
  register has a range exactly when it occurs, the range begins and ends with an occurrence and holds
  them all, and where it begins with a write the flag tells whether that instruction may write over
  its inputs.
\<close>

definition range_shape :: "nat \<Rightarrow> occurrences \<Rightarrow> bool" where
  "range_shape n occ \<longleftrightarrow> length (first_at occ) = n \<and> length (last_at occ) = n \<and>
     length (write_first occ) = n \<and> length (alias_first occ) = n"

definition register_range_of :: "(nat \<times> nat) set \<Rightarrow> (nat \<Rightarrow> bool) \<Rightarrow> occurrences \<Rightarrow> nat \<Rightarrow> bool" where
  "register_range_of E may_alias occ r \<longleftrightarrow>
     (case first_at occ ! r of
        None \<Rightarrow> (\<forall>i. (i, r) \<notin> E) \<and> \<not> write_first occ ! r
      | Some f \<Rightarrow> (f, r) \<in> E \<and> (last_at occ ! r, r) \<in> E \<and>
          (write_first occ ! r \<longrightarrow> alias_first occ ! r = may_alias f) \<and>
          (\<forall>i. (i, r) \<in> E \<longrightarrow> f \<le> i \<and> i \<le> last_at occ ! r))"

definition occurrence_inv :: "nat \<Rightarrow> (nat \<times> nat) set \<Rightarrow> (nat \<Rightarrow> bool) \<Rightarrow> occurrences \<Rightarrow> bool" where
  "occurrence_inv n E may_alias occ \<longleftrightarrow> range_shape n occ \<and> (\<forall>r<n. register_range_of E may_alias occ r)"

definition event_flags :: "bool \<Rightarrow> register \<times> (bool \<times> bool) option \<Rightarrow> bool" where
  "event_flags alias event \<longleftrightarrow> (\<forall>written a. snd event = Some (written, a) \<longrightarrow> written \<longrightarrow> a = alias)"

lemma touch_inv:
  assumes "touch index event occ = Inr occ'" "occurrence_inv n E may_alias occ"
    and "\<forall>(i, r)\<in>E. i \<le> index" "event_flags (may_alias index) event"
  shows "unat (fst event) < n \<and> occurrence_inv n (insert (index, unat (fst event)) E) may_alias occ'"
proof -
  let ?r = "unat (fst event)"
  have shape: "range_shape n occ" using assms(2) by (simp add: occurrence_inv_def)
  have r: "?r < n" and shape': "range_shape n occ'"
    using assms(1) shape by (auto simp: touch_def Let_def range_shape_def split: if_splits option.splits)
  have "register_range_of (insert (index, ?r) E) may_alias occ' k" if k: "k < n" for k
  proof (cases "k = ?r")
    case False
    then have "first_at occ' ! k = first_at occ ! k" "last_at occ' ! k = last_at occ ! k"
      "write_first occ' ! k = write_first occ ! k" "alias_first occ' ! k = alias_first occ ! k"
      using assms(1) by (auto simp: touch_def Let_def split: if_splits option.splits)
    then show ?thesis
      using assms(2) k False by (auto simp: occurrence_inv_def register_range_of_def split: option.splits)
  next
    case True
    have old: "register_range_of E may_alias occ ?r" using assms(2) r by (simp add: occurrence_inv_def)
    have last: "last_at occ' ! ?r = index"
      using assms(1) shape r by (auto simp: touch_def Let_def range_shape_def split: if_splits option.splits)
    show ?thesis
    proof (cases "first_at occ ! ?r")
      case None
      have off: "\<not> write_first occ ! ?r" using old None by (simp add: register_range_of_def)
      have "first_at occ' ! ?r = Some index \<and> (write_first occ' ! ?r \<longrightarrow> alias_first occ' ! ?r = may_alias index)"
      proof (cases "snd event")
        case noflags: None
        then have "occ' = occ\<lparr>first_at := (first_at occ)[?r := Some index], last_at := (last_at occ)[?r := index]\<rparr>"
          using assms(1) shape r None by (auto simp: touch_def range_shape_def Let_def)
        then show ?thesis using off shape r by (simp add: range_shape_def)
      next
        case (Some flags)
        then have "occ' = occ\<lparr>first_at := (first_at occ)[?r := Some index], write_first := (write_first occ)[?r := fst flags],
            alias_first := (alias_first occ)[?r := snd flags], last_at := (last_at occ)[?r := index]\<rparr>"
          using assms(1) shape r None by (auto simp: touch_def range_shape_def Let_def split: prod.splits)
        moreover have "fst flags \<longrightarrow> snd flags = may_alias index"
          using assms(4) Some by (cases flags) (simp add: event_flags_def)
        ultimately show ?thesis using shape r by (simp add: range_shape_def)
      qed
      with None old last True show ?thesis by (auto simp: register_range_of_def)
    next
      case (Some f)
      then have "first_at occ' ! ?r = Some f" "write_first occ' = write_first occ" "alias_first occ' = alias_first occ"
        using assms(1) by (auto simp: touch_def Let_def split: if_splits option.splits)
      with Some old last True assms(3) show ?thesis by (fastforce simp: register_range_of_def)
    qed
  qed
  with r shape' show ?thesis by (simp add: occurrence_inv_def)
qed

lemma touch_all_inv:
  assumes "touch_all index events occ = Inr occ'" "occurrence_inv n E may_alias occ"
    and "\<forall>(i, r)\<in>E. i \<le> index" "\<forall>event\<in>set events. event_flags (may_alias index) event"
  shows "occurrence_inv n (E \<union> (\<lambda>event. (index, unat (fst event))) ` set events) may_alias occ'"
  using assms
proof (induction events arbitrary: occ E)
  case (Cons event events)
  obtain occ1 where occ1: "touch index event occ = Inr occ1" "touch_all index events occ1 = Inr occ'"
    using Cons.prems(1) by auto
  have inv: "occurrence_inv n (insert (index, unat (fst event)) E) may_alias occ1"
    using touch_inv [OF occ1(1) Cons.prems(2,3)] Cons.prems(4) by auto
  from Cons.IH [OF occ1(2) inv] Cons.prems(3,4) show ?case by simp
qed simp

definition events_of :: "instruction \<Rightarrow> nat set" where
  "events_of ins = (case operands ins of None \<Rightarrow> {} | Some ops \<Rightarrow> (unat \<circ> fst) ` set (instruction_events ins ops))"

lemma instruction_event_flags:
  "event \<in> set (instruction_events ins ops) \<Longrightarrow> event_flags (write_may_alias_inputs ins) event"
  by (auto simp: instruction_events_def operand_event_def event_flags_def split: if_splits option.splits)

lemma find_occurrences_inv:
  assumes "find_occurrences (length before) ins occ = Inr (Some occ')"
    and "occurrence_inv n {(i, r). i < length before \<and> r \<in> events_of (before ! i)} may_alias occ"
    and "\<forall>i<length (before @ ins). may_alias i = write_may_alias_inputs ((before @ ins) ! i)"
  shows "occurrence_inv n {(i, r). i < length (before @ ins) \<and> r \<in> events_of ((before @ ins) ! i)} may_alias occ' \<and>
    (\<forall>x\<in>set ins. operands x \<noteq> None)"
  using assms
proof (induction ins arbitrary: before occ)
  case (Cons x ins)
  obtain ops occ1 where ops: "operands x = Some ops"
    and occ1: "touch_all (length before) (instruction_events x ops) occ = Inr occ1"
      "find_occurrences (length before + 1) ins occ1 = Inr (Some occ')"
    using Cons.prems(1) by (auto split: option.splits)
  have x: "events_of x = (\<lambda>event. unat (fst event)) ` set (instruction_events x ops)"
    using ops by (simp add: events_of_def comp_def)
  have E: "{(i, r). i < length (before @ [x]) \<and> r \<in> events_of ((before @ [x]) ! i)} =
      {(i, r). i < length before \<and> r \<in> events_of (before ! i)} \<union>
      (\<lambda>event. (length before, unat (fst event))) ` set (instruction_events x ops)"
    using x by (force simp: nth_append less_Suc_eq)
  have "occurrence_inv n {(i, r). i < length (before @ [x]) \<and> r \<in> events_of ((before @ [x]) ! i)} may_alias occ1"
    unfolding E using instruction_event_flags Cons.prems(3)
    by (intro touch_all_inv [OF occ1(1) Cons.prems(2)]) (auto simp: nth_append)
  with Cons.IH [of "before @ [x]" occ1] occ1(2) Cons.prems(3) ops show ?case by simp
qed simp

subsection \<open>Stretching over backward edges\<close>

definition reaches_back :: "nat option list \<Rightarrow> nat \<Rightarrow> nat \<Rightarrow> nat list \<Rightarrow> nat \<Rightarrow> bool" where
  "reaches_back firsts source target lasts r \<longleftrightarrow>
     target \<le> source \<and> (\<exists>f. firsts ! r = Some f \<and> f < target) \<and> target \<le> lasts ! r"

lemma stretch_register_nth:
  "length (stretch_register firsts source target r lasts) = length lasts"
  "target \<le> source \<Longrightarrow> k < length lasts \<Longrightarrow> stretch_register firsts source target r lasts ! k =
     (if k = r \<and> reaches_back firsts source target lasts k then max (lasts ! k) source else lasts ! k)"
  by (auto simp: stretch_register_def reaches_back_def split: option.split)

lemma stretch_registers_nth:
  assumes "target \<le> source" "k < length lasts"
  shows "length (fold (stretch_register firsts source target) rs lasts) = length lasts \<and>
    fold (stretch_register firsts source target) rs lasts ! k =
     (if k \<in> set rs \<and> reaches_back firsts source target lasts k then max (lasts ! k) source else lasts ! k)"
  using assms
proof (induction rs arbitrary: lasts)
  case (Cons r rs)
  then show ?case
    by (auto simp: stretch_register_nth reaches_back_def)
qed simp

lemma stretch_edge_nth:
  "length (stretch_edge firsts rs source target lasts) = length lasts"
  "k < length lasts \<Longrightarrow> k \<in> set rs \<Longrightarrow> stretch_edge firsts rs source target lasts ! k =
     (if reaches_back firsts source target lasts k then max (lasts ! k) source else lasts ! k)"
proof -
  have "length (fold (stretch_register firsts source target) rs lasts) = length lasts" for rs
    by (induction rs arbitrary: lasts) (auto simp: stretch_register_nth)
  then show "length (stretch_edge firsts rs source target lasts) = length lasts"
    by (simp add: stretch_edge_def)
  show "k < length lasts \<Longrightarrow> k \<in> set rs \<Longrightarrow> stretch_edge firsts rs source target lasts ! k =
     (if reaches_back firsts source target lasts k then max (lasts ! k) source else lasts ! k)"
    using stretch_registers_nth [of target source k lasts firsts rs]
    by (auto simp: stretch_edge_def reaches_back_def)
qed

lemma stretch_edges_nth:
  assumes "k < length lasts" "k \<in> set rs"
  shows "length (fold (stretch_edge firsts rs source) edges lasts) = length lasts \<and>
    fold (stretch_edge firsts rs source) edges lasts ! k =
      (if \<exists>s\<in>set edges. reaches_back firsts source s lasts k then max (lasts ! k) source else lasts ! k)"
  using assms
proof (induction edges arbitrary: lasts)
  case (Cons e edges)
  then show ?case
    by (auto simp: stretch_edge_nth reaches_back_def)
qed simp

text \<open>
  Taking the sources in ascending order once is enough: a range that comes to reach the target of an
  earlier edge only later has been stretched beyond the source of that edge.
\<close>

lemma stretch_ranges_closed:
  assumes "stretch_ranges c firsts rs [m..<n] lasts = Inr lasts'" "m \<le> n" "k < length lasts" "k \<in> set rs"
    and "\<forall>i<m. \<forall>edges. successors c i = Inr edges \<longrightarrow> (\<forall>s\<in>set edges. reaches_back firsts i s lasts k \<longrightarrow> i \<le> lasts ! k)"
  shows "length lasts' = length lasts \<and> lasts ! k \<le> lasts' ! k \<and> lasts' ! k \<le> max (lasts ! k) (n - 1) \<and>
    (\<forall>i<n. \<forall>edges. successors c i = Inr edges \<longrightarrow>
       (\<forall>s\<in>set edges. reaches_back firsts i s lasts' k \<longrightarrow> i \<le> lasts' ! k))"
  using assms
proof (induction "n - m" arbitrary: m lasts)
  case 0
  then show ?case by simp
next
  case (Suc d)
  then have m: "m < n" and upt: "[m..<n] = m # [Suc m..<n]" by (simp_all add: upt_conv_Cons)
  obtain edges where edges: "successors c m = Inr edges"
    "stretch_ranges c firsts rs [Suc m..<n] (fold (stretch_edge firsts rs m) edges lasts) = Inr lasts'"
    using Suc.prems(1) upt by auto
  let ?lasts = "fold (stretch_edge firsts rs m) edges lasts"
  have len: "length ?lasts = length lasts" and nth: "?lasts ! k =
      (if \<exists>s\<in>set edges. reaches_back firsts m s lasts k then max (lasts ! k) m else lasts ! k)"
    using stretch_edges_nth [OF Suc.prems(3,4)] by blast+
  have closed: "i \<le> ?lasts ! k" if "i < Suc m" "successors c i = Inr es" "s \<in> set es"
    "reaches_back firsts i s ?lasts k" for i es s
  proof (cases "\<exists>s\<in>set edges. reaches_back firsts m s lasts k")
    case True
    then show ?thesis using nth that(1) by simp
  next
    case False
    then have same: "?lasts ! k = lasts ! k" using nth by simp
    then have "reaches_back firsts i s lasts k" using that(4) by (simp add: reaches_back_def)
    then show ?thesis
      using False same that(1-3) edges(1) Suc.prems(5) by (cases "i = m") (auto simp: less_Suc_eq)
  qed
  have "length lasts' = length ?lasts \<and> ?lasts ! k \<le> lasts' ! k \<and> lasts' ! k \<le> max (?lasts ! k) (n - 1) \<and>
    (\<forall>i<n. \<forall>edges. successors c i = Inr edges \<longrightarrow>
       (\<forall>s\<in>set edges. reaches_back firsts i s lasts' k \<longrightarrow> i \<le> lasts' ! k))"
    using Suc.hyps(2) m closed len Suc.prems(3,4) by (intro Suc.hyps(1) [OF _ edges(2)]) auto
  with len nth m show ?case by (auto split: if_splits)
qed

subsection \<open>Occurrences and the registers of an instruction\<close>

lemma operand_event_register:
  "fst ` set (operand_event ins p) = set_option (operand_register ins (fst p))"
  by (cases "register_at ins (fst p)") (auto simp: operand_event_def operand_register_def)

lemma events_of_touched:
  assumes "operands ins \<noteq> None"
  shows "events_of ins = touched ins"
proof -
  obtain ops where ops: "operands ins = Some ops" using assms by auto
  have "fst ` set (instruction_events ins ops) =
      (\<Union>p\<in>set ops. set_option (operand_register ins (fst p))) \<union> set (implicit_range ins)"
    by (simp add: instruction_events_def image_Un image_UN operand_event_register image_comp comp_def)
  moreover have "(\<Union>p\<in>set ops. set_option (operand_register ins (fst p))) =
      set (access_registers ReadAccess ins) \<union> set (access_registers WriteAccess ins)"
  proof (intro set_eqI iffI)
    fix r assume "r \<in> (\<Union>p\<in>set ops. set_option (operand_register ins (fst p)))"
    then obtain n a where "(n, a) \<in> set ops" "operand_register ins n = Some r" by auto
    then show "r \<in> set (access_registers ReadAccess ins) \<union> set (access_registers WriteAccess ins)"
      using ops unfolding Un_iff access_registers_iff by (cases a) blast+
  next
    fix r assume "r \<in> set (access_registers ReadAccess ins) \<union> set (access_registers WriteAccess ins)"
    then obtain n a where "(n, a) \<in> set ops" "operand_register ins n = Some r"
      using ops unfolding Un_iff access_registers_iff by auto
    then show "r \<in> (\<Union>p\<in>set ops. set_option (operand_register ins (fst p)))" by force
  qed
  ultimately have "fst ` set (instruction_events ins ops) = set (read_list ins) \<union> set (write_list ins)"
    by (auto simp: read_list_def write_list_def)
  moreover have "events_of ins = unat ` fst ` set (instruction_events ins ops)"
    using ops by (simp add: events_of_def image_comp)
  ultimately show ?thesis by (simp add: touched_def)
qed

subsection \<open>Ranges cover liveness\<close>

lemma occurrence_inv_start: "occurrence_inv n {} may_alias (no_occurrences n)"
  by (simp add: occurrence_inv_def range_shape_def no_occurrences_def register_range_of_def)

lemma live_ranges_occurrences:
  assumes "live_ranges c = Inr (Some occ)" "r \<in> set (temporaries c)"
  shows "range_shape (unat (register_count c)) occ" "classified c"
    "first_at occ ! r = None \<Longrightarrow> \<forall>i<length (code c). r \<notin> touched (code c ! i)"
    "first_at occ ! r = Some f \<Longrightarrow> f < length (code c) \<and> r \<in> touched (code c ! f) \<and> f \<le> last_at occ ! r \<and>
       (write_first occ ! r \<longrightarrow> alias_first occ ! r = write_may_alias_inputs (code c ! f)) \<and>
       (\<forall>i<length (code c). r \<in> touched (code c ! i) \<longrightarrow> f \<le> i \<and> i \<le> last_at occ ! r) \<and>
       (\<forall>i<length (code c). \<forall>edges. successors c i = Inr edges \<longrightarrow> (\<forall>s\<in>set edges.
          s \<le> i \<longrightarrow> f < s \<longrightarrow> s \<le> last_at occ ! r \<longrightarrow> i \<le> last_at occ ! r))"
proof -
  let ?n = "unat (register_count c)" and ?E = "{(i, r). i < length (code c) \<and> r \<in> events_of (code c ! i)}"
  obtain occ0 lasts where occ0: "find_occurrences 0 (code c) (no_occurrences ?n) = Inr (Some occ0)"
    and lasts: "stretch_ranges c (first_at occ0) (temporaries c) [0..<length (code c)] (last_at occ0) = Inr lasts"
    and occ: "occ = occ0\<lparr>last_at := lasts\<rparr>"
    using assms(1) by (auto simp: live_ranges_def split: option.splits)
  have inv: "occurrence_inv ?n ?E (\<lambda>i. write_may_alias_inputs (code c ! i)) occ0"
    and classified: "\<forall>x\<in>set (code c). operands x \<noteq> None"
    using find_occurrences_inv [of "[]" "code c" _ occ0 ?n "\<lambda>i. write_may_alias_inputs (code c ! i)"]
      occ0 occurrence_inv_start by simp_all
  have r: "r < ?n" using assms(2) by (simp add: temporaries_def)
  have shape: "range_shape ?n occ0" and range: "register_range_of ?E (\<lambda>i. write_may_alias_inputs (code c ! i)) occ0 r"
    using inv r by (simp_all add: occurrence_inv_def)
  have closed: "length lasts = length (last_at occ0) \<and> last_at occ0 ! r \<le> lasts ! r \<and>
    (\<forall>i<length (code c). \<forall>edges. successors c i = Inr edges \<longrightarrow>
       (\<forall>s\<in>set edges. reaches_back (first_at occ0) i s lasts r \<longrightarrow> i \<le> lasts ! r))"
    using stretch_ranges_closed [OF lasts _ _ assms(2)] r shape by (simp add: range_shape_def)
  show "range_shape ?n occ" "classified c"
    using shape closed classified by (simp_all add: occ range_shape_def classified_def list_all_iff)
  have E: "?E = {(i, r). i < length (code c) \<and> r \<in> touched (code c ! i)}"
    using events_of_touched classified by force
  note range = range [unfolded E]
  show "\<forall>i<length (code c). r \<notin> touched (code c ! i)" if "first_at occ ! r = None"
    using range that by (simp add: occ register_range_of_def)
  show "f < length (code c) \<and> r \<in> touched (code c ! f) \<and> f \<le> last_at occ ! r \<and>
       (write_first occ ! r \<longrightarrow> alias_first occ ! r = write_may_alias_inputs (code c ! f)) \<and>
       (\<forall>i<length (code c). r \<in> touched (code c ! i) \<longrightarrow> f \<le> i \<and> i \<le> last_at occ ! r) \<and>
       (\<forall>i<length (code c). \<forall>edges. successors c i = Inr edges \<longrightarrow> (\<forall>s\<in>set edges.
          s \<le> i \<longrightarrow> f < s \<longrightarrow> s \<le> last_at occ ! r \<longrightarrow> i \<le> last_at occ ! r))"
    if "first_at occ ! r = Some f"
    using range that closed by (fastforce simp: occ register_range_of_def reaches_back_def)
qed

text \<open>
  Where no temporary is live up to its first occurrence, its range holds every index where it is
  live.
\<close>

definition born_at_first :: "chunk \<Rightarrow> occurrences \<Rightarrow> bool" where
  "born_at_first c occ \<longleftrightarrow>
     (\<forall>r\<in>set (temporaries c). \<forall>f. first_at occ ! r = Some f \<longrightarrow> (\<forall>i\<le>f. \<not> live c [] (of_nat r) i))"

lemma temporary_register:
  assumes "r \<in> set (temporaries c)"
  shows "unat (of_nat r :: register) = r" "of_nat r \<noteq> register_NONE" "r < unat (register_count c)"
  using assms unat_register [of r c] frame_register_not_NONE [of r c] by (auto simp: temporaries_def)

lemma range_covers_live:
  assumes "verify xxh3 c = Inr ()" "no_empty_tuple_patterns c" "catch_table c = []"
    and "live_ranges c = Inr (Some occ)" "born_at_first c occ"
    and "r \<in> set (temporaries c)" "live c [] (of_nat r) i"
  shows "\<exists>f. first_at occ ! r = Some f \<and> f < i \<and> i \<le> last_at occ ! r"
  using assms(7)
proof induction
  case (skipped i)
  then show ?case by (simp add: removed_at_def list_get_def)
next
  case (thrown i h)
  then show ?case by (simp add: handlers_at_def assms(3))
next
  case (read i e)
  note t = temporary_register [OF assms(6)]
  have plain: "plain c (code c ! i)" using verified_plain_code [OF assms(1,2)] read(1) by simp
  obtain rs ws where v: "for_each_read_register (code c ! i) = Some rs" "for_each_write_register (code c ! i) = Some ws"
    using classified_visits [OF live_ranges_occurrences(2) [OF assms(4,6)] read(1)] by metis
  have "of_nat r \<in> set rs" using visitors_agree(1) [OF plain t(2) read(4) v read(3)] read(5) by simp
  then have occ: "r \<in> touched (code c ! i)"
    using read_list_iff [OF plain v(1)] t(1) by (auto simp: touched_def intro: image_eqI [where x = "of_nat r"])
  then obtain f where f: "first_at occ ! r = Some f"
    using live_ranges_occurrences(3) [OF assms(4,6)] read(1) by (cases "first_at occ ! r") auto
  moreover have "live c [] (of_nat r) i" using read by (auto intro: live.read)
  then have "f < i" using assms(5,6) f unfolding born_at_first_def by (metis not_less)
  ultimately show ?case using live_ranges_occurrences(4) [OF assms(4,6) f] occ read(1) by auto
next
  case (passed i e edges s)
  obtain f where f: "first_at occ ! r = Some f" "f < s" "s \<le> last_at occ ! r" using passed.IH by blast
  have "live c [] (of_nat r) i" using passed.hyps by (auto intro: live.passed)
  then have "f < i" using assms(5,6) f unfolding born_at_first_def by (metis not_less)
  moreover have "i \<le> last_at occ ! r"
    using live_ranges_occurrences(4) [OF assms(4,6) f(1)] passed.hyps(1,7,8) f(2,3)
    by (cases "s \<le> i") auto
  ultimately show ?case using f(1) by blast
qed

section \<open>The allocation of a chunk\<close>

definition interval_of :: "occurrences \<Rightarrow> nat \<Rightarrow> interval" where
  "interval_of occ r = \<lparr>interval_register = r, interval_start = the (first_at occ ! r),
     interval_end = last_at occ ! r, interval_starts_with_write = write_first occ ! r,
     interval_may_alias_inputs = alias_first occ ! r\<rparr>"

lemma interval_of_fields [simp]:
  "interval_register (interval_of occ r) = r" "interval_start (interval_of occ r) = the (first_at occ ! r)"
  "interval_end (interval_of occ r) = last_at occ ! r"
  "interval_may_alias_inputs (interval_of occ r) = alias_first occ ! r"
  by (simp_all add: interval_of_def)

lemma collect_intervals_spec:
  "collect_intervals occ rs = Some ivs \<Longrightarrow>
   ivs = map (interval_of occ) (filter (\<lambda>r. first_at occ ! r \<noteq> None) rs) \<and>
   (\<forall>r\<in>set rs. first_at occ ! r \<noteq> None \<longrightarrow> write_first occ ! r)"
  by (induction rs arbitrary: ivs) (auto simp: interval_of_def split: option.splits if_splits)

lemma place_pinned_spec:
  assumes "place_pinned rs mapping = Inr mapping'"
  shows "length mapping' = length mapping \<and> (\<forall>r\<in>set rs. unat r < length mapping) \<and>
    (\<forall>k<length mapping. mapping' ! k = (if of_nat k \<in> set rs \<and> k < 2 ^ 16 then of_nat k else mapping ! k))"
  using assms
proof (induction rs arbitrary: mapping)
  case (Cons r rs)
  have r: "unat r < length mapping" "place_pinned rs (mapping[unat r := r]) = Inr mapping'"
    using Cons.prems by (auto split: if_splits)
  have "of_nat k = r \<longleftrightarrow> k = unat r" if "k < 2 ^ 16" for k
    using that by (auto simp: unat_of_nat_u16)
  with r Cons.IH [OF r(2)] show ?case
    using unsigned_less [of r, where 'a = nat] by (auto simp: nth_list_update)
qed simp

lemma fold_max_least: "a \<le> fold max xs a"
  for a :: u16
proof (induction xs arbitrary: a)
  case (Cons y xs)
  have "a \<le> max y a" by simp
  also have "\<dots> \<le> fold max xs (max y a)" by (rule Cons.IH)
  finally show ?case by simp
qed simp

lemma fold_max_upper: "x \<in> set xs \<Longrightarrow> x \<le> fold max xs a"
  for a :: u16
proof (induction xs arbitrary: a)
  case (Cons y xs)
  then show ?case
    using fold_max_least [of "max y a" xs] by (auto intro: order_trans [OF max.cobounded1])
qed simp

lemma fold_max_mem: "fold max xs a \<in> insert a (set xs)"
  for a :: u16
proof (induction xs arbitrary: a)
  case (Cons y xs)
  then show ?case using Cons.IH [of "max y a"] by (auto simp: max_def)
qed simp

lemma pinned_high_water_above:
  assumes "\<forall>r\<in>set pinned. unat r < 0xFFFF"
  shows "local_count \<le> pinned_high_water pinned local_count"
    "r \<in> set pinned \<Longrightarrow> r < pinned_high_water pinned local_count"
proof -
  show "local_count \<le> pinned_high_water pinned local_count" by (simp add: pinned_high_water_def)
  assume r: "r \<in> set pinned"
  have "fold max pinned 0 \<in> insert 0 (set pinned)" by (rule fold_max_mem)
  then have "unat (fold max pinned 0) < 0xFFFF" using assms by auto
  then have "fold max pinned 0 < fold max pinned 0 + 1"
    by (simp add: word_less_nat_alt unat_plus_one)
  moreover have "r \<le> fold max pinned 0" using fold_max_upper r by blast
  ultimately show "r < pinned_high_water pinned local_count"
    using r by (auto simp: pinned_high_water_def less_max_iff_disj)
qed

lemma fixed_mapping_spec:
  assumes "fixed_mapping c pinned = Inr mapping" "local_register_count c \<le> register_count c"
  shows "length mapping = unat (register_count c)"
    "k < unat (local_register_count c) \<or> of_nat k \<in> set pinned \<Longrightarrow> k < unat (register_count c) \<Longrightarrow>
     mapping ! k = of_nat k"
proof -
  let ?l = "unat (local_register_count c)" and ?n = "unat (register_count c)"
  let ?start = "map of_nat [0..<?l] @ replicate (?n - ?l) register_NONE"
  have len: "length ?start = ?n" using assms(2) by (simp add: word_le_nat_alt)
  note spec = place_pinned_spec [OF assms(1) [unfolded fixed_mapping_def]]
  show "length mapping = ?n" using spec len by simp
  show "mapping ! k = of_nat k" if "k < ?l \<or> of_nat k \<in> set pinned" "k < ?n"
    using spec len that register_count_bound [of c] by (auto simp: nth_append)
qed

text \<open>
  What the scan establishes: the registers that keep their place do, the others get a register from
  the end of the pinned ones up to the new frame, and ranges that share one follow each other.
\<close>

definition keeps_place :: "chunk \<Rightarrow> nat \<Rightarrow> bool" where
  "keeps_place c r \<longleftrightarrow> r < unat (local_register_count c) \<or> of_nat r \<in> set (pinned_window_registers c)"

lemma scan_temporaries_sound:
  assumes "verify xxh3 c = Inr ()" "sorts_intervals sort_intervals"
    and "scan_temporaries sort_intervals c = Inr (Some s)" "scan_high_water s < register_count c"
    and "live_ranges c = Inr (Some occ)"
  shows "r < unat (register_count c) \<Longrightarrow> keeps_place c r \<Longrightarrow>
      scan_mapping s ! r = of_nat r \<and> (of_nat r :: u16) < pinned_high_water (pinned_window_registers c) (local_register_count c)"
    "r \<in> set (temporaries c) \<Longrightarrow> \<not> keeps_place c r \<Longrightarrow> first_at occ ! r \<noteq> None \<Longrightarrow>
      pinned_high_water (pinned_window_registers c) (local_register_count c) \<le> scan_mapping s ! r \<and>
      scan_mapping s ! r < scan_high_water s"
    "a \<in> set (temporaries c) \<Longrightarrow> b \<in> set (temporaries c) \<Longrightarrow> a \<noteq> b \<Longrightarrow>
      \<not> keeps_place c a \<Longrightarrow> \<not> keeps_place c b \<Longrightarrow> first_at occ ! a \<noteq> None \<Longrightarrow> first_at occ ! b \<noteq> None \<Longrightarrow>
      scan_mapping s ! a = scan_mapping s ! b \<Longrightarrow>
      precedes (interval_of occ a) (interval_of occ b) \<or> precedes (interval_of occ b) (interval_of occ a)"
    "pinned_high_water (pinned_window_registers c) (local_register_count c) \<le> scan_high_water s"
    "length (scan_mapping s) = unat (register_count c)"
proof -
  let ?pinned = "pinned_window_registers c" and ?n = "unat (register_count c)"
  let ?base = "pinned_high_water ?pinned (local_register_count c)"
  obtain ivs mapping where ivs: "collect_intervals occ (temporaries c) = Some ivs"
    and mapping: "fixed_mapping c ?pinned = Inr mapping"
    and s: "s = fold (allocate ?pinned) (sort_intervals ivs) \<lparr>scan_mapping = mapping, scan_active = [],
      scan_free = [], scan_next = ?base, scan_high_water = ?base\<rparr>"
    using assms(3,5) by (auto simp: scan_temporaries_def Let_def split: option.splits)
  let ?s0 = "\<lparr>scan_mapping = mapping, scan_active = [], scan_free = [], scan_next = ?base, scan_high_water = ?base\<rparr>"
  have local: "local_register_count c \<le> register_count c" using assms(1) by (simp add: verify_Inr)
  note fixed = fixed_mapping_spec [OF mapping local]
  note ivs' = collect_intervals_spec [OF ivs]
  have sorted: "mset (sort_intervals ivs) = mset ivs" "sorted_wrt interval_le (sort_intervals ivs)"
    using assms(2) by (simp_all add: sorts_intervals_def)
  have set_ivs: "set (sort_intervals ivs) = interval_of occ ` {r\<in>set (temporaries c). first_at occ ! r \<noteq> None}"
    using mset_eq_setD [OF sorted(1)] ivs' by auto
  have "distinct (map interval_register ivs)" using ivs' by (simp add: comp_def temporaries_def)
  then have distinct: "distinct (map interval_register (sort_intervals ivs))"
    using mset_eq_imp_distinct_iff [of "map interval_register (sort_intervals ivs)" "map interval_register ivs"]
      sorted(1) by simp
  have flags: "interval_register iv < length mapping \<and> interval_may_alias_inputs iv =
      write_may_alias_inputs (code c ! interval_start iv)" if iv: "iv \<in> set (sort_intervals ivs)" for iv
  proof -
    obtain r f where r: "iv = interval_of occ r" "r \<in> set (temporaries c)" "first_at occ ! r = Some f"
      using iv unfolding set_ivs by blast
    then have "write_first occ ! r" using ivs' by simp
    with live_ranges_occurrences(4) [OF assms(5) r(2,3)] r fixed(1) show ?thesis
      by (simp add: temporaries_def)
  qed
  have "unat (scan_high_water s) < 0xFFFF"
    using assms(4) register_count_bound [of c] by (simp add: word_less_nat_alt)
  then obtain t where inv: "scan_inv ?base (filter (unpinned ?pinned) (sort_intervals ivs))
      (later (\<lambda>i. write_may_alias_inputs (code c ! i)) t) s"
    using scan_fold [of ?s0 ?base "sort_intervals ivs" "\<lambda>i. write_may_alias_inputs (code c ! i)" ?pinned]
      sorted(2) distinct flags unfolding s by auto
  have placed: "interval_of occ r \<in> set (filter (unpinned ?pinned) (sort_intervals ivs))"
    if "r \<in> set (temporaries c)" "\<not> keeps_place c r" "first_at occ ! r \<noteq> None" for r
    using that set_ivs by (auto simp: unpinned_def keeps_place_def)
  show "length (scan_mapping s) = ?n" using fixed(1) by (simp add: s fold_mapping)
  show "?base \<le> scan_high_water s" using high_water_fold [of ?s0] by (simp add: s)
  show "scan_mapping s ! r = of_nat r \<and> (of_nat r :: u16) < ?base" if "r < ?n" "keeps_place c r"
  proof
    have "\<forall>iv\<in>set (sort_intervals ivs). unpinned ?pinned iv \<longrightarrow> r \<noteq> interval_register iv"
      using that set_ivs by (auto simp: unpinned_def keeps_place_def temporaries_def)
    then show "scan_mapping s ! r = of_nat r"
      using fixed(2) [of r] that by (simp add: s fold_mapping keeps_place_def)
    have "\<forall>r\<in>set ?pinned. unat r < 0xFFFF"
      using verified_pinned [OF assms(1)] register_count_bound [of c] by fastforce
    note above = pinned_high_water_above [OF this, where local_count = "local_register_count c"]
    show "(of_nat r :: u16) < ?base"
    proof (cases "of_nat r \<in> set ?pinned")
      case False
      then have "unat (of_nat r :: u16) < unat (local_register_count c)"
        using that unat_register [OF that(1)] by (simp add: keeps_place_def)
      then show ?thesis using above(1) by (simp add: word_less_nat_alt word_le_nat_alt)
    qed (rule above(2))
  qed
  show "?base \<le> scan_mapping s ! r \<and> scan_mapping s ! r < scan_high_water s"
    if "r \<in> set (temporaries c)" "\<not> keeps_place c r" "first_at occ ! r \<noteq> None"
    using inv placed [OF that] unfolding scan_inv_def by (metis interval_of_fields(1))
  show "precedes (interval_of occ a) (interval_of occ b) \<or> precedes (interval_of occ b) (interval_of occ a)"
    if "a \<in> set (temporaries c)" "b \<in> set (temporaries c)" "a \<noteq> b" "\<not> keeps_place c a" "\<not> keeps_place c b"
      "first_at occ ! a \<noteq> None" "first_at occ ! b \<noteq> None" "scan_mapping s ! a = scan_mapping s ! b"
    using inv placed [OF that(1,4,6)] placed [OF that(2,5,7)] that(3,8)
    unfolding scan_inv_def by (metis interval_of_fields(1))
qed

text \<open>
  Two registers with ranges neither of which is over when the other begins stay apart, whichever way
  each got its register.
\<close>

lemma overlapping_apart:
  assumes "verify xxh3 c = Inr ()" "sorts_intervals sort_intervals"
    and "scan_temporaries sort_intervals c = Inr (Some s)" "scan_high_water s < register_count c"
    and "live_ranges c = Inr (Some occ)"
    and "a < unat (register_count c)" "b < unat (register_count c)" "a \<noteq> b"
    and "\<not> keeps_place c a \<Longrightarrow> first_at occ ! a \<noteq> None" "\<not> keeps_place c b \<Longrightarrow> first_at occ ! b \<noteq> None"
    and "\<not> keeps_place c a \<Longrightarrow> \<not> keeps_place c b \<Longrightarrow>
      \<not> precedes (interval_of occ a) (interval_of occ b) \<and> \<not> precedes (interval_of occ b) (interval_of occ a)"
  shows "scan_mapping s ! a \<noteq> scan_mapping s ! b"
proof
  assume same: "scan_mapping s ! a = scan_mapping s ! b"
  note sound = scan_temporaries_sound [OF assms(1-5)]
  let ?base = "pinned_high_water (pinned_window_registers c) (local_register_count c)"
  have temp: "r \<in> set (temporaries c)" if "r < unat (register_count c)" "\<not> keeps_place c r" for r
    using that by (simp add: temporaries_def keeps_place_def)
  have placed: "?base \<le> scan_mapping s ! r" if "r < unat (register_count c)" "\<not> keeps_place c r" "first_at occ ! r \<noteq> None" for r
    using sound(2) [OF temp [OF that(1,2)] that(2,3)] by simp
  have kept: "scan_mapping s ! r < ?base \<and> unat (scan_mapping s ! r) = r" if "r < unat (register_count c)" "keeps_place c r" for r
    using sound(1) [OF that] unat_register [OF that(1)] by simp
  consider "keeps_place c a" "keeps_place c b" | "keeps_place c a" "\<not> keeps_place c b"
    | "\<not> keeps_place c a" "keeps_place c b" | "\<not> keeps_place c a" "\<not> keeps_place c b" by blast
  then show False
  proof cases
    case 1
    then show ?thesis using kept assms(6-8) same by metis
  next
    case 2
    then show ?thesis using kept [OF assms(6)] placed [OF assms(7)] assms(10) same by fastforce
  next
    case 3
    then show ?thesis using kept [OF assms(7)] placed [OF assms(6)] assms(9) same by fastforce
  next
    case 4
    then show ?thesis
      using sound(3) [OF temp [OF assms(6) 4(1)] temp [OF assms(7) 4(2)] assms(8) 4 _ _ same] assms(9-11) by blast
  qed
qed

section \<open>The renamed code runs as before\<close>

text \<open>Only a move that takes its source and a step of an iteration write two registers.\<close>

lemma write_count:
  assumes "operands ins = Some ops"
  shows "length (filter (\<lambda>p. snd p = WriteAccess) ops) \<le> 1 \<or> \<not> write_may_alias_inputs ins \<or>
    (\<exists>d s. ins = Load (MoveOwned d s))"
proof (cases ins)
  case (Load i)
  then show ?thesis using assms by (cases i) (auto simp: operands_def)
next
  case (Arithmetic i)
  then show ?thesis using assms by (cases i) (auto simp: operands_def)
next
  case (FloatOp i)
  then show ?thesis using assms by (cases i) (auto simp: operands_def)
next
  case (CompareOp i)
  then show ?thesis using assms by (cases i) (auto simp: operands_def)
next
  case (StringOp i)
  then show ?thesis using assms by (cases i) (auto simp: operands_def)
next
  case (Branch i)
  then show ?thesis using assms by (cases i) (auto simp: operands_def)
next
  case (Switch i)
  then show ?thesis using assms by (cases i) (auto simp: operands_def)
next
  case (LoopOp i)
  then show ?thesis using assms by (cases i) (auto simp: operands_def)
next
  case (ArrayOp i)
  then show ?thesis using assms by (cases i) (auto simp: operands_def)
next
  case (ArrayUpdate i)
  then show ?thesis using assms by (cases i) (auto simp: operands_def write_may_alias_inputs_def)
next
  case (ObjectOp i)
  then show ?thesis using assms by (cases i) (auto simp: operands_def)
next
  case (CallOp i)
  then show ?thesis using assms by (cases i) (auto simp: operands_def)
next
  case (ReturnOp i)
  then show ?thesis using assms by (cases i) (auto simp: operands_def)
next
  case (CheckOp i)
  then show ?thesis using assms by (cases i) (auto simp: operands_def)
qed

lemma length_map_filter: "(\<And>x. f x \<noteq> None \<Longrightarrow> P x) \<Longrightarrow> length (List.map_filter f xs) \<le> length (filter P xs)"
  by (induction xs) (auto simp: List.map_filter_simps split: option.splits)

lemma written_again:
  assumes "operands ins \<noteq> None" "write_list ins = xs @ ys" "xs \<noteq> []" "last xs = r" "d \<in> set ys" "d \<noteq> r"
  shows "r \<in> set (read_list ins) \<or> \<not> write_may_alias_inputs ins"
proof -
  obtain ops where ops: "operands ins = Some ops" using assms(1) by auto
  have "length (write_list ins) \<le> length (filter (\<lambda>p. snd p = WriteAccess) ops)"
    using ops by (auto simp: write_list_def access_registers_def intro!: length_map_filter split: if_splits)
  moreover have "1 < length (write_list ins)" using assms(2,3,5) by (cases xs; cases ys) auto
  ultimately consider "\<not> write_may_alias_inputs ins" | d' s where "ins = Load (MoveOwned d' s)"
    using write_count [OF ops] by fastforce
  then show ?thesis
  proof cases
    case 2
    then show ?thesis
      using assms(2-6)
      by (auto simp: read_list_def write_list_def access_registers_def operands_def operand_register_def
          register_at_def instruction_layout_def calls_without_arguments_def List.map_filter_simps
          Cons_eq_append_conv simp del: One_nat_def split: if_splits)
  qed simp
qed

text \<open>A backward edge does not leave from the first occurrence of a temporary it writes.\<close>

definition no_late_birth :: "chunk \<Rightarrow> occurrences \<Rightarrow> bool" where
  "no_late_birth c occ \<longleftrightarrow>
     (\<forall>i<length (code c). \<forall>edges. successors c i = Inr edges \<longrightarrow> (\<forall>j\<in>set edges. j \<le> i \<longrightarrow>
        (\<forall>d\<in>set (write_list (code c ! i)). first_at occ ! unat d \<noteq> Some i)))"

lemma touched_range:
  assumes "live_ranges c = Inr (Some occ)" "r \<in> set (temporaries c)" "i < length (code c)" "r \<in> touched (code c ! i)"
  shows "\<exists>f. first_at occ ! r = Some f \<and> f \<le> i \<and> i \<le> last_at occ ! r"
  using live_ranges_occurrences(3,4) [OF assms(1,2)] assms(3,4) by (cases "first_at occ ! r") auto

lemma scan_writes_apart:
  assumes "verify xxh3 c = Inr ()" "no_empty_tuple_patterns c" "catch_table c = []" "sorts_intervals sort_intervals"
    and "scan_temporaries sort_intervals c = Inr (Some s)" "scan_high_water s < register_count c"
    and "live_ranges c = Inr (Some occ)" "born_at_first c occ" "no_late_birth c occ" "classified c"
  shows "writes_apart c (\<lambda>r i. live c [] r i \<and> r \<noteq> register_NONE) (scan_mapping s)"
  unfolding writes_apart_def
proof (intro allI impI ballI)
  fix i edges j r xs ys d
  assume i: "i < length (code c)" and edges: "successors c i = Inr edges" "j \<in> set edges"
    and r: "live c [] r j \<and> r \<noteq> register_NONE" and ws: "write_list (code c ! i) = xs @ ys" "r \<notin> set ys"
      "xs = [] \<or> last xs = r" and d: "d \<in> set ys"
  let ?n = "unat (register_count c)"
  have plain: "plain c (code c ! i)" using verified_plain_code [OF assms(1,2)] i by simp
  have dt: "unat d \<in> touched (code c ! i)" using ws(1) d by (simp add: touched_def)
  have frame: "k < ?n" if "k \<in> touched (code c ! i)" for k
    using touched_in_frame [OF plain that] verified_registers [OF assms(1) i] by auto
  have rn: "unat r < ?n" using live_in_frame [OF assms(1,2,10)] r by blast
  have temp: "k \<in> set (temporaries c)" if "k < ?n" "\<not> keeps_place c k" for k
    using that by (simp add: temporaries_def keeps_place_def)
  have ne: "unat d \<noteq> unat r" using ws(2) d by (metis word_unat_eq_iff)
  have live_range: "\<exists>f. first_at occ ! unat r = Some f \<and> f < k \<and> k \<le> last_at occ ! unat r"
    if "\<not> keeps_place c (unat r)" "live c [] r k" for k
    using range_covers_live [OF assms(1-3,7,8) temp [OF rn that(1)], of k] that(2) by simp
  have d_range: "\<exists>f. first_at occ ! unat d = Some f \<and> f \<le> i \<and> i \<le> last_at occ ! unat d"
    if "\<not> keeps_place c (unat d)"
    by (rule touched_range [OF assms(7) temp [OF frame [OF dt] that] i dt])
  have "\<not> precedes (interval_of occ (unat d)) (interval_of occ (unat r)) \<and>
      \<not> precedes (interval_of occ (unat r)) (interval_of occ (unat d))"
    if free: "\<not> keeps_place c (unat d)" "\<not> keeps_place c (unat r)"
  proof -
    obtain f where f: "first_at occ ! unat d = Some f" "f \<le> i" "i \<le> last_at occ ! unat d"
      using d_range [OF free(1)] by blast
    show ?thesis
    proof (cases "live c [] r i")
      case True
      obtain g where g: "first_at occ ! unat r = Some g" "g < i" "i \<le> last_at occ ! unat r"
        using live_range [OF free(2) True] by blast
      moreover have "i < last_at occ ! unat r" if "i < j"
        using live_range [OF free(2)] r that by fastforce
      moreover have "f < i" if "j \<le> i"
        using assms(9) i edges that f ws(1) d unfolding no_late_birth_def by (fastforce simp: le_less)
      ultimately show ?thesis using f by (cases "i < j") (auto simp: precedes_def)
    next
      case False
      have holds: "needs_hold c (\<lambda>r i. live c [] r i \<and> r \<noteq> register_NONE)"
        by (rule live_needs_hold [OF assms(1,2,10)])
      have w: "r \<in> set (write_list (code c ! i))" and nr: "r \<notin> set (read_list (code c ! i))"
        using holds False r i edges unfolding needs_hold_def by blast+
      then have xs: "xs \<noteq> []" "last xs = r" using ws by auto
      have "operands (code c ! i) \<noteq> None" using assms(10) i by (simp add: classified_def list_all_length)
      from written_again [OF this ws(1) xs d] nr ne have strict: "\<not> write_may_alias_inputs (code c ! i)" by auto
      obtain g where g: "first_at occ ! unat r = Some g" "g \<le> i" "i \<le> last_at occ ! unat r"
        using touched_range [OF assms(7) temp [OF rn free(2)] i] w by (auto simp: touched_def)
      have "collect_intervals occ (temporaries c) \<noteq> None"
        using assms(5,7) by (auto simp: scan_temporaries_def Let_def split: option.splits)
      then have "write_first occ ! k" if "k \<in> set (temporaries c)" "first_at occ ! k \<noteq> None" for k
        using collect_intervals_spec that by blast
      then have "alias_first occ ! unat d = write_may_alias_inputs (code c ! f)"
        "alias_first occ ! unat r = write_may_alias_inputs (code c ! g)"
        using live_ranges_occurrences(4) [OF assms(7) temp [OF frame [OF dt] free(1)] f(1)] f(1)
          live_ranges_occurrences(4) [OF assms(7) temp [OF rn free(2)] g(1)] g(1)
          temp [OF frame [OF dt] free(1)] temp [OF rn free(2)] by auto
      with f g strict show ?thesis by (auto simp: precedes_def dest: le_antisym)
    qed
  qed
  moreover have "first_at occ ! unat r \<noteq> None" if "\<not> keeps_place c (unat r)"
    using live_range [OF that] r by fastforce
  moreover have "first_at occ ! unat d \<noteq> None" if "\<not> keeps_place c (unat d)"
    using d_range [OF that] by auto
  ultimately show "scan_mapping s ! unat d \<noteq> scan_mapping s ! unat r"
    by (intro overlapping_apart [OF assms(1,4-7) frame [OF dt] rn ne]) auto
qed

section \<open>The pass returns\<close>

lemma touch_all_returns:
  assumes "\<forall>event\<in>set events. unat (fst event) < length (first_at occ)"
  shows "\<exists>occ'. touch_all index events occ = Inr occ' \<and> length (first_at occ') = length (first_at occ)"
  using assms
proof (induction events arbitrary: occ)
  case (Cons event events)
  have "\<exists>occ1. touch index event occ = Inr occ1 \<and> length (first_at occ1) = length (first_at occ)"
    using Cons.prems by (auto simp: touch_def Let_def split: option.splits)
  then obtain occ1 where occ1: "touch index event occ = Inr occ1" "length (first_at occ1) = length (first_at occ)"
    by blast
  with Cons.IH [of occ1] Cons.prems show ?case by auto
qed simp

lemma find_occurrences_returns:
  assumes "\<forall>ins\<in>set cs. events_of ins \<subseteq> {..<length (first_at occ)}"
  shows "\<exists>found. find_occurrences index cs occ = Inr found"
  using assms
proof (induction cs arbitrary: occ index)
  case (Cons ins cs)
  show ?case
  proof (cases "operands ins")
    case (Some ops)
    then have "\<forall>event\<in>set (instruction_events ins ops). unat (fst event) < length (first_at occ)"
      using Cons.prems by (auto simp: events_of_def)
    from touch_all_returns [OF this] obtain occ' where occ':
      "touch_all index (instruction_events ins ops) occ = Inr occ'" "length (first_at occ') = length (first_at occ)"
      by blast
    from Cons.IH [of occ' "index + 1"] Cons.prems occ'(2)
    obtain found where "find_occurrences (index + 1) cs occ' = Inr found" by auto
    with occ'(1) Some show ?thesis by simp
  qed simp
qed simp

lemma stretch_ranges_returns:
  "\<forall>i\<in>set sources. \<exists>edges. successors c i = Inr edges \<Longrightarrow> \<exists>lasts'. stretch_ranges c firsts rs sources lasts = Inr lasts'"
  by (induction sources arbitrary: lasts) auto

lemma place_pinned_returns:
  "\<forall>r\<in>set rs. unat r < length mapping \<Longrightarrow> \<exists>mapping'. place_pinned rs mapping = Inr mapping'"
  by (induction rs arbitrary: mapping) auto

lemma live_ranges_returns:
  assumes "verify xxh3 c = Inr ()" "no_empty_tuple_patterns c"
  shows "\<exists>found. live_ranges c = Inr found"
proof -
  have "events_of ins \<subseteq> {..<unat (register_count c)}" if ins: "ins \<in> set (code c)" for ins
  proof (cases "operands ins = None")
    case False
    obtain i where "i < length (code c)" "code c ! i = ins" using ins by (auto simp: in_set_conv_nth)
    then have "instruction_registers c ins \<subseteq> {..<unat (register_count c)}"
      using verified_registers [OF assms(1)] by blast
    then show ?thesis
      using touched_in_frame [OF verified_plain_code [OF assms ins]] events_of_touched [OF False] by blast
  qed (simp add: events_of_def)
  then obtain found where found: "find_occurrences 0 (code c) (no_occurrences (unat (register_count c))) = Inr found"
    using find_occurrences_returns [of "code c" "no_occurrences (unat (register_count c))" 0]
    by (auto simp: no_occurrences_def)
  have "\<forall>i\<in>set [0..<length (code c)]. \<exists>edges. successors c i = Inr edges"
    using verified_edges [OF assms(1)] by fastforce
  from stretch_ranges_returns [OF this] found show ?thesis
    by (cases found) (force simp: live_ranges_def)+
qed

lemma scan_temporaries_returns:
  assumes "verify xxh3 c = Inr ()" "no_empty_tuple_patterns c"
  shows "\<exists>result. scan_temporaries sort_intervals c = Inr result"
proof -
  obtain found where found: "live_ranges c = Inr found" using live_ranges_returns [OF assms] by blast
  have "local_register_count c \<le> register_count c" using assms(1) by (simp add: verify_Inr)
  then obtain mapping where "fixed_mapping c (pinned_window_registers c) = Inr mapping"
    using place_pinned_returns [of "pinned_window_registers c"] verified_pinned [OF assms(1)]
    by (fastforce simp: fixed_mapping_def word_le_nat_alt)
  with found show ?thesis by (auto simp: scan_temporaries_def Let_def split: option.splits)
qed

text \<open>The mapping of the scan can be applied.\<close>

lemma scan_mapping_fits:
  assumes "verify xxh3 c = Inr ()" "no_empty_tuple_patterns c" "sorts_intervals sort_intervals"
    and "scan_temporaries sort_intervals c = Inr (Some s)" "scan_high_water s < register_count c"
    and "live_ranges c = Inr (Some occ)" "classified c" "list_all (\<lambda>ins. \<not> tuple_window ins) (code c)"
  shows "mapping_fits c (scan_mapping s)"
    "\<forall>ins\<in>set (code c). \<forall>k\<in>touched ins. scan_mapping s ! k < scan_high_water s"
proof -
  show below: "\<forall>ins\<in>set (code c). \<forall>k\<in>touched ins. scan_mapping s ! k < scan_high_water s"
  proof (intro ballI)
    fix ins k assume ins: "ins \<in> set (code c)" and k: "k \<in> touched ins"
    note sound = scan_temporaries_sound [OF assms(1,3-6)]
    obtain i where i: "i < length (code c)" "code c ! i = ins" using ins by (auto simp: in_set_conv_nth)
    have n: "k < unat (register_count c)"
      using touched_in_frame [OF verified_plain_code [OF assms(1,2) ins] k] verified_registers [OF assms(1) i(1)] i(2) by auto
    show "scan_mapping s ! k < scan_high_water s"
    proof (cases "keeps_place c k")
      case True
      then show ?thesis using sound(1) [OF n] less_le_trans [OF _ sound(4)] by simp
    next
      case False
      then have t: "k \<in> set (temporaries c)" using n by (simp add: temporaries_def keeps_place_def)
      then show ?thesis
        using sound(2) [OF t False] touched_range [OF assms(6) t i(1)] k i(2) by auto
    qed
  qed
  show "mapping_fits c (scan_mapping s)"
    unfolding mapping_fits_def
  proof (intro ballI conjI)
    fix ins assume ins: "ins \<in> set (code c)"
    note sound = scan_temporaries_sound [OF assms(1,3-6)]
    obtain i where i: "i < length (code c)" "code c ! i = ins" using ins by (auto simp: in_set_conv_nth)
    show "operands ins \<noteq> None" "\<not> tuple_window ins" using assms(7,8) ins by (auto simp: classified_def list_all_iff)
    { fix k assume k: "k \<in> touched ins"
      have n: "k < unat (register_count c)"
        using touched_in_frame [OF verified_plain_code [OF assms(1,2) ins] k] verified_registers [OF assms(1) i(1)] i(2) by auto
      then show "k < length (scan_mapping s)" using sound(5) by simp
      have "scan_mapping s ! k < register_count c" using less_trans [OF _ assms(5)] below ins k by blast
      then show "scan_mapping s ! k \<noteq> register_NONE"
        using register_count_bound [of c] by (auto simp: register_NONE_def word_less_nat_alt) }
    { fix r assume r: "r \<in> set (pinned_by ins)"
      then have p: "r \<in> set (pinned_window_registers c)" using ins by (auto simp: pinned_window_registers_def)
      then show "scan_mapping s ! unat r = r"
        using sound(1) [of "unat r"] verified_pinned [OF assms(1) p] by (simp add: keeps_place_def) }
  qed
qed

text \<open>
  The assumption on the ranges: a temporary is not live before it first occurs, and no backward edge
  leaves from where a temporary is first written.
\<close>

definition ranges_fit :: "chunk \<Rightarrow> bool" where
  "ranges_fit c \<longleftrightarrow>
     (\<forall>occ. live_ranges c = Inr (Some occ) \<longrightarrow> born_at_first c occ \<and> no_late_birth c occ)"

lemma live_ranges_classified:
  assumes "live_ranges c = Inr (Some occ)"
  shows "classified c"
proof -
  have "\<forall>x\<in>set cs. operands x \<noteq> None" if "find_occurrences index cs occ = Inr (Some occ')" for index cs occ occ'
    using that by (induction index cs occ rule: find_occurrences.induct) (auto split: option.splits)
  then show ?thesis using assms by (force simp: live_ranges_def classified_def list_all_iff split: option.splits)
qed

lemma scan_runs:
  assumes "verify xxh3 c = Inr ()" "no_empty_tuple_patterns c" "catch_table c = []" "sorts_intervals sort_intervals"
    and "scan_temporaries sort_intervals c = Inr (Some s)" "scan_high_water s < register_count c"
    and "list_all (\<lambda>ins. \<not> tuple_window ins) (code c)" "ranges_fit c" "behaves b c"
  shows "\<exists>c'. apply_mapping (scan_mapping s) (scan_high_water s) c =
      Some (Inr (c', unat (register_count c - scan_high_water s))) \<and> register_count c' = scan_high_water s \<and>
    (\<forall>ins\<in>set (code c'). touched ins \<subseteq> {..<unat (register_count c')}) \<and>
    run_of b (code c') n 0 regs = run_of b (code c) n 0 regs"
proof -
  obtain occ where occ: "live_ranges c = Inr (Some occ)"
    using assms(5) by (auto simp: scan_temporaries_def Let_def split: option.splits)
  have fit: "born_at_first c occ" "no_late_birth c occ" using assms(8) occ by (auto simp: ranges_fit_def)
  note sound = scan_temporaries_sound [OF assms(1,4-6) occ]
  have classified: "classified c" by (rule live_ranges_classified [OF occ])
  note fits = scan_mapping_fits [OF assms(1,2,4-6) occ classified assms(7)]
  obtain c' where c': "apply_mapping (scan_mapping s) (scan_high_water s) c =
      Some (Inr (c', unat (register_count c - scan_high_water s)))" "code_renamed (scan_mapping s) c c'"
      "register_count c' = scan_high_water s"
    using apply_mapping_renames [OF assms(1,2) fits(1)] by blast
  have "regs (scan_mapping s ! unat r) = regs r" if r: "live c [] r 0 \<and> r \<noteq> register_NONE" for r
  proof -
    have n: "unat r < unat (register_count c)" using live_in_frame [OF assms(1,2) classified] r by blast
    have "unat r \<notin> set (temporaries c)"
      using range_covers_live [OF assms(1-3) occ fit(1), of "unat r" 0] r by auto
    then have "keeps_place c (unat r)" using n by (simp add: temporaries_def keeps_place_def)
    then show ?thesis using sound(1) [OF n] by simp
  qed
  then have "run_of b (code c') n 0 regs = run_of b (code c) n 0 regs"
    using run_renamed [OF c'(2) live_needs_hold [OF assms(1,2) classified]
      scan_writes_apart [OF assms(1-6) occ fit classified] assms(9)] by blast
  with c' show ?thesis using renamed_in_frame [OF c'(2) fits(2)] by auto
qed

text \<open>An instruction of a verified chunk touches registers of the frame.\<close>

lemma verified_code_touched:
  assumes "verify xxh3 c = Inr ()" "no_empty_tuple_patterns c"
  shows "\<forall>ins\<in>set (code c). touched ins \<subseteq> {..<unat (register_count c)}"
  using touched_in_frame [OF verified_plain_code [OF assms]] verified_registers [OF assms(1)]
  by (fastforce simp: in_set_conv_nth)

section \<open>Properties\<close>

text \<open>A sort of the kind the pass uses.\<close>

definition sort_by_start :: "interval list \<Rightarrow> interval list" where
  "sort_by_start = sort_key (\<lambda>i. 2 * interval_start i + (if interval_starts_with_write i then 1 else 0))"

lemma sorts_by_start: "sorts_intervals sort_by_start"
proof -
  have "sorted_wrt interval_le (sort_key (\<lambda>i. 2 * interval_start i + (if interval_starts_with_write i then 1 else 0)) xs)" for xs
    using sorted_sort_key [of "\<lambda>i. 2 * interval_start i + (if interval_starts_with_write i then 1 else 0 :: nat)" xs]
    by (auto simp: sorted_map interval_le_def elim!: sorted_wrt_mono_rel [rotated] split: if_splits)
  then show ?thesis by (simp add: sorts_intervals_def sort_by_start_def)
qed

text \<open>A chunk with two temporaries that are never needed together.\<close>

definition spare_chunk :: chunk where
  "spare_chunk = new_chunk\<lparr>code := [Load (LoadTrue 0), CheckOp (Write 1 0 True False), Load (LoadTrue 1),
     ReturnOp (Return 1)], spans := replicate 4 span_zero, register_count := 2\<rparr>"

lemma spare_chunk_fields [simp]:
  "code spare_chunk = [Load (LoadTrue 0), CheckOp (Write 1 0 True False), Load (LoadTrue 1), ReturnOp (Return 1)]"
  "spans spare_chunk = replicate 4 span_zero" "register_count spare_chunk = 2"
  "local_register_count spare_chunk = 0" "parameter_register_start spare_chunk = 0"
  "parameter_register_count spare_chunk = 0" "trace_argument_registers spare_chunk = []"
  "catch_table spare_chunk = []"
  by (simp_all add: spare_chunk_def new_chunk_def)

lemma spare_chunk_verified: "verify xxh3 spare_chunk = Inr ()"
  by (simp add: verify_eval verify_check_def check_window_def)

lemma spare_chunk_plain: "no_empty_tuple_patterns spare_chunk" "list_all (\<lambda>ins. \<not> tuple_window ins) (code spare_chunk)"
  by (simp_all add: no_empty_tuple_patterns_def empty_tuple_pattern_def tuple_window_def)

lemma spare_chunk_ranges: "live_ranges spare_chunk = Inr (Some \<lparr>first_at = [Some 0, Some 2], last_at = [1, 3],
    write_first = [True, True], alias_first = [True, True]\<rparr>)"
  by code_simp

lemma spare_chunk_dead:
  "\<not> live spare_chunk [] 0 0" "\<not> live spare_chunk [] 1 0" "\<not> live spare_chunk [] 1 1" "\<not> live spare_chunk [] 1 2"
proof -
  have "register_is_dead_after spare_chunk 0 0 = Inr True" "register_is_dead_after spare_chunk 1 0 = Inr True"
    "register_is_dead_after spare_chunk 1 1 = Inr True" "register_is_dead_after spare_chunk 1 2 = Inr True"
    by code_simp+
  then show "\<not> live spare_chunk [] 0 0" "\<not> live spare_chunk [] 1 0" "\<not> live spare_chunk [] 1 1" "\<not> live spare_chunk [] 1 2"
    using targeted_dead_after [OF spare_chunk_verified] by simp_all
qed

lemma spare_chunk_successors:
  "successors spare_chunk 0 = Inr [1]" "successors spare_chunk 1 = Inr [2]" "successors spare_chunk 2 = Inr [3]"
  "successors spare_chunk 3 = Inr []"
  by code_simp+

lemma spare_chunk_fits: "ranges_fit spare_chunk"
proof -
  let ?occ = "\<lparr>first_at = [Some 0, Some 2], last_at = [1, 3], write_first = [True, True], alias_first = [True, True]\<rparr>"
  have "\<not> live spare_chunk [] 1 i" if "i \<le> 2" for i
    using that spare_chunk_dead by (auto simp: le_Suc_eq numeral_2_eq_2)
  moreover have "temporaries spare_chunk = [0, 1]" by (simp add: temporaries_def upt_rec)
  ultimately have born: "born_at_first spare_chunk ?occ"
    using spare_chunk_dead(1) by (auto simp: born_at_first_def)
  have "i < j" if "i < 4" "successors spare_chunk i = Inr edges" "j \<in> set edges" for i j edges
    using that spare_chunk_successors by (auto simp: less_Suc_eq numeral_eq_Suc)
  note forward = this
  have "no_late_birth spare_chunk ?occ"
    unfolding no_late_birth_def
  proof (intro allI impI ballI)
    fix i edges j d
    assume "i < length (code spare_chunk)" "successors spare_chunk i = Inr edges" "j \<in> set edges" "j \<le> i"
    then show "first_at ?occ ! unat d \<noteq> Some i" using forward [of i edges j] by simp
  qed
  with born show ?thesis by (simp add: ranges_fit_def spare_chunk_ranges)
qed

text \<open>A behaviour of that chunk: the two loads write a value, and the last instruction leaves.\<close>

definition spare_behaviour :: "bool behaviour" where
  "spare_behaviour i ins vs =
     (if i = 0 \<or> i = 2 then ([True], Some (i + 1)) else if i = 1 then ([], Some 2) else ([], None))"

lemma spare_chunk_behaves: "behaves spare_behaviour spare_chunk"
proof -
  have "write_list (code spare_chunk ! 0) = [0]" "write_list (code spare_chunk ! 1) = []"
    "write_list (code spare_chunk ! 2) = [1]" "write_list (code spare_chunk ! 3) = []" by code_simp+
  then show ?thesis
    using spare_chunk_successors
    by (auto simp: behaves_def spare_behaviour_def less_Suc_eq numeral_eq_Suc)
qed

text \<open>C9. Reusing temporaries keeps every run of a verified chunk. Whatever its instructions do with the
  values they read, the code after the pass executes the same instructions with the same values read;
  the pass returns, the frame shrinks by what the pass reports and still holds all registers. The assumptions: no pattern over
  a tuple of no or several registers, no temporary live before it first occurs, and no backward edge from
  the first write of a temporary.\<close>

theorem reuse_temporaries_keeps_runs:
  assumes "verify xxh3 c = Inr ()" "no_empty_tuple_patterns c" "list_all (\<lambda>ins. \<not> tuple_window ins) (code c)"
    and "sorts_intervals sort_intervals" "ranges_fit c" "behaves b c"
  shows "\<exists>c' removed. reuse_temporaries sort_intervals enabled c = Some (Inr (c', removed)) \<and>
    unat (register_count c') + removed = unat (register_count c) \<and>
    (\<forall>ins\<in>set (code c'). touched ins \<subseteq> {..<unat (register_count c')}) \<and>
    run_of b (code c') n 0 regs = run_of b (code c) n 0 regs"
proof -
  let ?high = "pinned_high_water (pinned_window_registers c) (local_register_count c)"
  obtain result where result: "scan_temporaries sort_intervals c = Inr result"
    using scan_temporaries_returns [OF assms(1,2)] by blast
  show ?thesis
  proof (cases "\<not> enabled \<or> register_count c \<le> local_register_count c \<or> catch_table c \<noteq> [] \<or> register_count c \<le> ?high \<or>
      (\<forall>s. result = Some s \<longrightarrow> register_count c \<le> scan_high_water s)")
    case True
    then have "reuse_temporaries sort_intervals enabled c = Some (Inr (c, 0))"
      using result by (cases result) (auto simp: reuse_temporaries_def)
    then show ?thesis using verified_code_touched [OF assms(1,2)] by simp
  next
    case False
    then obtain s where s: "result = Some s" "scan_high_water s < register_count c" by auto
    have "catch_table c = []" using False by simp
    note runs = scan_runs [OF assms(1,2) this assms(4) result [unfolded s(1)] s(2) assms(3,5,6)]
    have "unat (scan_high_water s) + unat (register_count c - scan_high_water s) = unat (register_count c)"
      using s(2) by (simp add: unat_sub word_less_nat_alt word_le_nat_alt)
    moreover have "reuse_temporaries sort_intervals enabled c = apply_mapping (scan_mapping s) (scan_high_water s) c"
      using False result s by (simp add: reuse_temporaries_def)
    ultimately show ?thesis using runs by fastforce
  qed
qed

theorem reuse_temporaries_keeps_runs_witness:
  "\<exists>c' removed. reuse_temporaries sort_by_start True spare_chunk = Some (Inr (c', removed)) \<and>
     unat (register_count c') + removed = 2 \<and>
     list_all (\<lambda>ins. touched ins \<subseteq> {..<unat (register_count c')}) (code c') \<and>
     run_of spare_behaviour (code c') 4 0 (\<lambda>_. False) = [(0, []), (1, [True]), (2, []), (3, [True])]"
proof -
  have "run_of spare_behaviour (code spare_chunk) 4 0 (\<lambda>_. False) = [(0, []), (1, [True]), (2, []), (3, [True])]"
    by code_simp
  with reuse_temporaries_keeps_runs [OF spare_chunk_verified spare_chunk_plain sorts_by_start spare_chunk_fits
    spare_chunk_behaves, of True 4 "\<lambda>_. False"] show ?thesis by (simp add: list_all_iff)
qed

text \<open>
  A match over two temporaries, after another temporary has become free between the one that is
  kept and the one that is new.
\<close>

definition match_chunk :: chunk where
  "match_chunk = new_chunk\<lparr>code := [Load (LoadTrue 0), Load (LoadTrue 1), CheckOp (Write 1 0 True False),
     Load (LoadTrue 2), Load (LoadFalse 3), Switch (SwitchTuplePattern 2 2 0), ReturnOp (Return 1)],
     switch_tables := [PatternTable [] [] 1],
     spans := replicate 7 span_zero, register_count := 4\<rparr>"

definition match_behaviour :: "bool behaviour" where
  "match_behaviour i ins vs =
     (if i = 0 \<or> i = 1 \<or> i = 3 then ([True], Some (i + 1)) else if i = 4 then ([False], Some 5)
      else if i = 2 then ([], Some 3) else if i = 5 then ([], Some 6) else ([], None))"

lemma match_chunk_fields [simp]:
  "code match_chunk = [Load (LoadTrue 0), Load (LoadTrue 1), CheckOp (Write 1 0 True False),
     Load (LoadTrue 2), Load (LoadFalse 3), Switch (SwitchTuplePattern 2 2 0), ReturnOp (Return 1)]"
  "spans match_chunk = replicate 7 span_zero" "register_count match_chunk = 4"
  "switch_tables match_chunk = [PatternTable [] [] 1]"
  "local_register_count match_chunk = 0" "parameter_register_start match_chunk = 0"
  "parameter_register_count match_chunk = 0" "trace_argument_registers match_chunk = []"
  "catch_table match_chunk = []"
  by (simp_all add: match_chunk_def new_chunk_def)

lemma match_chunk_verified: "verify xxh3 match_chunk = Inr ()"
  by (simp add: verify_eval verify_check_def check_window_def verify_switch_def switch_table_of_def
      check_switch_table_def valid_kind_def verify_table_def valid_descriptors_def check_targets_def)
    blast

lemma match_chunk_successors:
  "successors match_chunk 0 = Inr [1]" "successors match_chunk 1 = Inr [2]" "successors match_chunk 2 = Inr [3]"
  "successors match_chunk 3 = Inr [4]" "successors match_chunk 4 = Inr [5]" "successors match_chunk 5 = Inr [6]"
  "successors match_chunk 6 = Inr []"
  by (simp_all add: flow_eval table_entry_def)

lemma match_chunk_ranges: "live_ranges match_chunk = Inr (Some \<lparr>first_at = [Some 0, Some 1, Some 3, Some 4], last_at = [2, 6, 5, 5],
    write_first = [True, True, True, True], alias_first = [True, True, True, True]\<rparr>)"
proof -
  have "find_occurrences 0 (code match_chunk) (no_occurrences 4) = Inr (Some \<lparr>first_at = [Some 0, Some 1, Some 3, Some 4],
      last_at = [2, 6, 5, 5], write_first = [True, True, True, True], alias_first = [True, True, True, True]\<rparr>)"
    by code_simp
  moreover have "stretch_ranges match_chunk firsts (temporaries match_chunk) [0, 1, 2, 3, 4, 5, 6] lasts = Inr lasts"
    for firsts lasts
    by (simp add: match_chunk_successors stretch_edge_def del: One_nat_def)
  moreover have "[0..<length (code match_chunk)] = [0, 1, 2, 3, 4, 5, 6]" by (simp add: upt_rec)
  ultimately show ?thesis by (simp only: live_ranges_def match_chunk_fields) simp
qed

lemma match_chunk_scan: "scan_temporaries sort_by_start match_chunk = Inr (Some \<lparr>scan_mapping = [0, 1, 0, 2],
    scan_active = [\<lparr>active_end = 6, active_physical = 1\<rparr>, \<lparr>active_end = 5, active_physical = 0\<rparr>, \<lparr>active_end = 5, active_physical = 2\<rparr>],
    scan_free = [], scan_next = 3, scan_high_water = 3\<rparr>)"
  by (simp only: scan_temporaries_def match_chunk_ranges) code_simp

lemma match_chunk_reused:
  "reuse_temporaries sort_by_start True match_chunk = Some (Inr (match_chunk\<lparr>code := [Load (LoadTrue 0), Load (LoadTrue 1),
     CheckOp (Write 1 0 True False), Load (LoadTrue 0), Load (LoadFalse 2), Switch (SwitchTuplePattern 0 2 0),
     ReturnOp (Return 1)], register_count := 3\<rparr>, 1))"
proof -
  have "remap_code [0, 1, 0, 2] (code match_chunk) = Some (Inr [Load (LoadTrue 0), Load (LoadTrue 1),
     CheckOp (Write 1 0 True False), Load (LoadTrue 0), Load (LoadFalse 2), Switch (SwitchTuplePattern 0 2 0),
     ReturnOp (Return 1)])" by code_simp
  moreover have "pinned_window_registers match_chunk = []" by code_simp
  ultimately show ?thesis
    by (simp add: reuse_temporaries_def match_chunk_scan apply_mapping_def pinned_high_water_def
        normalize_empty_window_starts_def normalize_window_start_def)
qed

text \<open>C36. Reusing temporaries breaks a pattern over a tuple of registers, whose window is not among the
  pinned ones. Here the elements of the window are in the registers 2 and 3; the pass moves them to 0
  and 2, and the match then reads 0 and 1, where an unrelated value is: the original run matches true
  and false, the run after the pass true and true.\<close>

theorem reused_tuple_window_breaks:
  "verify xxh3 match_chunk = Inr () \<and>
   (\<exists>c'. reuse_temporaries sort_by_start True match_chunk = Some (Inr (c', 1)) \<and>
      code match_chunk ! 5 = Switch (SwitchTuplePattern 2 2 0) \<and> code c' ! 5 = Switch (SwitchTuplePattern 0 2 0) \<and>
      code match_chunk ! 4 = Load (LoadFalse 3) \<and> code c' ! 4 = Load (LoadFalse 2) \<and>
      run_of match_behaviour (code match_chunk) 6 0 (\<lambda>_. False) ! 5 = (5, [True, True, False]) \<and>
      run_of match_behaviour (code c') 6 0 (\<lambda>_. False) ! 5 = (5, [True, True, True]))"
proof -
  have "run_of match_behaviour (code match_chunk) 6 0 (\<lambda>_. False) ! 5 = (5, [True, True, False])" by code_simp
  moreover have "run_of match_behaviour [Load (LoadTrue 0), Load (LoadTrue 1), CheckOp (Write 1 0 True False),
      Load (LoadTrue 0), Load (LoadFalse 2), Switch (SwitchTuplePattern 0 2 0), ReturnOp (Return 1)] 6 0 (\<lambda>_. False) ! 5 =
      (5, [True, True, True])" by code_simp
  ultimately show ?thesis
    using match_chunk_verified by (simp add: match_chunk_reused)
qed

text \<open>
  Trimming: the locals given up are used by no instruction on a path from the entry.
\<close>

lemma unused_search:
  assumes "verify xxh3 c = Inr ()"
  shows "register_is_unused_after c r 0 = Inr (\<not> finds (length (code c)) (unused_step c r) 0)"
proof -
  have "explore_inv (length (code c)) True (unused_step c r) (replicate (length (code c)) False) [0]"
    by (rule explore_inv_start) auto
  from explore_exact [OF this verified_unused_step [OF assms]] show ?thesis
    by (auto simp: register_is_unused_after_def simp del: explore.simps)
qed

lemma reachable_unused:
  assumes "reachable c i" "verify xxh3 c = Inr ()" "catch_table c = []" "\<not> finds (length (code c)) (unused_step c r) 0"
    and "i < length (code c)"
  shows "effect_on c (code c ! i) r = Inr NoEffect"
proof -
  have none: "effect_on c (code c ! i) r = Inr NoEffect"
    if i: "i < length (code c)" and f: "\<not> finds (length (code c)) (unused_step c r) i" for i
  proof (rule ccontr)
    assume "effect_on c (code c ! i) r \<noteq> Inr NoEffect"
    moreover obtain e where e: "effect_on c (code c ! i) r = Inr e" using verified_effect [OF assms(2) i] by blast
    ultimately have "unused_step c r i = Inr None"
      using i by (cases e) (simp_all add: unused_step_def effect_is_none_def)
    with f finds.hit [OF i] show False by blast
  qed
  have "\<not> finds (length (code c)) (unused_step c r) i" using assms(1)
  proof induction
    case entry
    then show ?case using assms(4) by simp
  next
    case (handler e)
    then show ?case using assms(3) by simp
  next
    case (step i ss s)
    have i: "i < length (code c)" using step.hyps(2) by (auto simp: successors_def index_of_def)
    have "unused_step c r i = Inr (Some (handlers_at c i @ ss))"
      using none [OF i step.IH] step.hyps(2) i by (simp add: unused_step_def effect_is_none_def)
    with step.IH step.hyps(3) i show ?case by (auto intro: finds.onward)
  qed
  with none assms(5) show ?thesis by blast
qed

lemma trim_locals_spec:
  assumes "verify xxh3 c = Inr ()"
  shows "\<exists>n. trim_locals c minimum local_count = Inr n \<and> n \<le> local_count \<and> (n = local_count \<or> minimum \<le> n) \<and>
    (\<forall>r. n \<le> r \<and> r < local_count \<longrightarrow> \<not> finds (length (code c)) (unused_step c r) 0)"
  using assms
proof (induction c minimum local_count rule: trim_locals.induct)
  case (1 c minimum local_count)
  note search = unused_search [OF "1.prems", of "local_count - 1"]
  show ?case
  proof (cases "minimum < local_count \<and> \<not> finds (length (code c)) (unused_step c (local_count - 1)) 0")
    case False
    then have "trim_locals c minimum local_count = Inr local_count"
      using search by (subst trim_locals.simps) auto
    then show ?thesis by auto
  next
    case True
    then have pos: "local_count \<noteq> 0" by auto
    then have down: "unat (local_count - 1) = unat local_count - 1" "0 < unat local_count"
      using unat_minus_one [OF pos] by (simp_all add: unat_gt_0)
    obtain n where n: "trim_locals c minimum (local_count - 1) = Inr n" "n \<le> local_count - 1"
      "n = local_count - 1 \<or> minimum \<le> n"
      "\<And>r. n \<le> r \<Longrightarrow> r < local_count - 1 \<Longrightarrow> \<not> finds (length (code c)) (unused_step c r) 0"
      using "1.IH" [of True] True search "1.prems" by auto
    have "trim_locals c minimum local_count = Inr n"
      using True search n(1) by (subst trim_locals.simps) simp
    moreover have "n \<le> local_count" using n(2) down by (simp add: word_le_nat_alt)
    moreover have "minimum \<le> n"
      using n(3) True down by (auto simp: word_le_nat_alt word_less_nat_alt)
    moreover have "\<not> finds (length (code c)) (unused_step c r) 0" if "n \<le> r" "r < local_count" for r
    proof (cases "r = local_count - 1")
      case False
      then have "r < local_count - 1"
        using that(2) down by (auto simp: word_less_nat_alt word_unat_eq_iff)
      then show ?thesis by (rule n(4) [OF that(1)])
    qed (use True in simp)
    ultimately show ?thesis by blast
  qed
qed

definition wide_chunk :: chunk where
  "wide_chunk = spare_chunk\<lparr>register_count := 3, local_register_count := 3\<rparr>"

lemma wide_chunk_fields [simp]:
  "code wide_chunk = code spare_chunk" "register_count wide_chunk = 3" "local_register_count wide_chunk = 3"
  "spans wide_chunk = replicate 4 span_zero" "parameter_register_start wide_chunk = 0"
  "parameter_register_count wide_chunk = 0" "trace_argument_registers wide_chunk = []" "catch_table wide_chunk = []"
  by (simp_all add: wide_chunk_def spare_chunk_def new_chunk_def)

lemma wide_chunk_verified: "verify xxh3 wide_chunk = Inr ()"
  by (simp add: verify_eval verify_check_def check_window_def)

text \<open>C31. Trimming the locals of a verified chunk returns. It changes only how many registers count as
  locals and which of them are listed as uninitialised; a register that stops being a local is not
  touched by any instruction a run can reach, holds no incoming value and is no traced argument.\<close>

theorem trimmed_locals_unused:
  assumes "verify xxh3 c = Inr ()"
  shows "\<exists>c'. trim_unused_local_tail c incoming = Inr c' \<and> code c' = code c \<and> register_count c' = register_count c \<and>
    local_register_count c' \<le> local_register_count c \<and>
    (\<forall>r i. local_register_count c' \<le> r \<and> r < local_register_count c \<and> reachable c i \<and> i < length (code c) \<longrightarrow>
       incoming \<le> r \<and> r \<notin> set (trace_argument_registers c) \<and> effect_on c (code c ! i) r = Inr NoEffect)"
proof (cases "local_register_count c \<le> incoming \<or> catch_table c \<noteq> []")
  case True
  then show ?thesis by (auto simp: trim_unused_local_tail_def)
next
  case False
  let ?minimum = "max incoming (trace_minimum c)"
  obtain n where n: "trim_locals c ?minimum (local_register_count c) = Inr n" "n \<le> local_register_count c"
    "n = local_register_count c \<or> ?minimum \<le> n"
    "\<And>r. n \<le> r \<Longrightarrow> r < local_register_count c \<Longrightarrow> \<not> finds (length (code c)) (unused_step c r) 0"
    using trim_locals_spec [OF assms] by blast
  have traced: "r < trace_minimum c" if r: "r \<in> set (trace_argument_registers c)" "r < local_register_count c" for r
  proof -
    have "unat r < 0xFFFF" using r(2) unsigned_less [of "local_register_count c", where 'a = nat] by (simp add: word_less_nat_alt)
    then have up: "r \<noteq> 0xFFFF" "r < r + 1" by (auto simp: word_less_nat_alt unat_plus_one)
    have "r + 1 \<le> trace_minimum c"
      unfolding trace_minimum_def
      using r(1) up(1) by (intro fold_max_upper) (force simp: register_NONE_def image_iff)
    with up(2) show ?thesis by (rule less_le_trans)
  qed
  let ?c = "if n = local_register_count c then c else c\<lparr>local_register_count := n,
      uninitialized_registers := filter (\<lambda>r. r < n) (uninitialized_registers c)\<rparr>"
  have "trim_unused_local_tail c incoming = Inr ?c" using False n(1) by (simp add: trim_unused_local_tail_def)
  moreover have "incoming \<le> r \<and> r \<notin> set (trace_argument_registers c) \<and> effect_on c (code c ! i) r = Inr NoEffect"
    if r: "n \<le> r" "r < local_register_count c" and i: "reachable c i" "i < length (code c)" for r i
  proof -
    have "?minimum \<le> r" using n(3) r by auto
    then show ?thesis
      using traced [OF _ r(2)] reachable_unused [OF i(1) assms _ n(4) [OF r] i(2)] False by fastforce
  qed
  ultimately show ?thesis using n(2) by (intro exI [of _ ?c]) auto
qed

theorem trimmed_locals_unused_witness:
  "\<exists>c'. trim_unused_local_tail wide_chunk 0 = Inr c' \<and> local_register_count c' = 2 \<and>
     effect_on wide_chunk (code wide_chunk ! 0) 2 = Inr NoEffect"
proof -
  have "trim_locals wide_chunk 0 3 = Inr 2" by code_simp
  then obtain c' where "trim_unused_local_tail wide_chunk 0 = Inr c'" "local_register_count c' = 2"
    by (auto simp: trim_unused_local_tail_def trace_minimum_def)
  moreover obtain d where d: "trim_unused_local_tail wide_chunk 0 = Inr d"
    "\<And>r i. local_register_count d \<le> r \<Longrightarrow> r < local_register_count wide_chunk \<Longrightarrow> reachable wide_chunk i \<Longrightarrow>
       i < length (code wide_chunk) \<Longrightarrow> effect_on wide_chunk (code wide_chunk ! i) r = Inr NoEffect"
    using trimmed_locals_unused [OF wide_chunk_verified, of 0] by blast
  moreover have "(2::register) < local_register_count wide_chunk" "0 < length (code wide_chunk)" by (simp_all add: wide_chunk_def)
  ultimately show ?thesis using d(2) [of 2 0] reachable.entry [of wide_chunk] by simp
qed

end
