(* ===== verification/Whim_Recolor.thy ===== *)
theory Whim_Recolor
  imports Whim_Reuse
begin

text \<open>
  Recolouring of temporary registers (\<^verbatim>\<open>crates/optimizer/src/passes/reuse_temporaries/coloring.rs\<close>): the
  registers every instruction uses and defines, their liveness as a bit matrix, the interference graph
  as a second one, and the greedy colouring in the order of the degrees. The sort by degree is
  unstable and therefore a parameter, of which only \<open>sorts_registers\<close> is assumed. The result \<open>None\<close>
  stands for a loop that does not end and for the unchecked unwrap of a colour; it is shown below that
  neither happens.
\<close>

section \<open>Uses and definitions\<close>

definition push_new :: "'a \<Rightarrow> 'a list \<Rightarrow> 'a list" where
  "push_new x xs = (if x \<in> set xs then xs else xs @ [x])"

definition note_operand ::
  "instruction \<Rightarrow> operand \<Rightarrow> register list \<times> register list \<Rightarrow> register list \<times> register list" where
  "note_operand ins operand found =
     (case operand_register ins (fst operand) of
        None \<Rightarrow> found
      | Some r \<Rightarrow>
          (case snd operand of
             ReadAccess \<Rightarrow> (push_new r (fst found), snd found)
           | WriteAccess \<Rightarrow> (fst found, push_new r (snd found))))"

definition uses_and_definitions :: "instruction \<Rightarrow> operand list \<Rightarrow> register list \<times> register list" where
  "uses_and_definitions ins ops =
     (let found = fold (note_operand ins) ops ([], [])
      in (fold push_new (implicit_range ins) (fst found), snd found))"

fun code_accesses :: "instruction list \<Rightarrow> (register list \<times> register list) list option" where
  "code_accesses [] = Some []"
| "code_accesses (ins # rest) =
     (case operands ins of
        None \<Rightarrow> None
      | Some ops \<Rightarrow> map_option ((#) (uses_and_definitions ins ops)) (code_accesses rest))"

section \<open>Bits\<close>

text \<open>
  The rows of a matrix are those of the liveness analysis: \<^verbatim>\<open>bit_row\<close> is \<open>words_at\<close>, \<^verbatim>\<open>union_bits\<close> is
  \<open>union_words\<close>.
\<close>

definition contains_bit :: "u64 list \<Rightarrow> nat \<Rightarrow> panic + bool" where
  "contains_bit bits r =
     result_map (\<lambda>w. w AND push_bit (r mod 64) 1 \<noteq> 0) (index_of bits (r div 64))"

definition insert_bit :: "u64 list \<Rightarrow> nat \<Rightarrow> panic + u64 list" where
  "insert_bit bits r =
     result_map (\<lambda>w. bits[r div 64 := w OR push_bit (r mod 64) 1]) (index_of bits (r div 64))"

definition remove_bit :: "u64 list \<Rightarrow> nat \<Rightarrow> panic + u64 list" where
  "remove_bit bits r =
     result_map (\<lambda>w. bits[r div 64 := w AND NOT (push_bit (r mod 64) 1)]) (index_of bits (r div 64))"

text \<open>Setting a bit in a row of a matrix.\<close>

definition insert_at :: "u64 list \<Rightarrow> nat \<Rightarrow> nat \<Rightarrow> nat \<Rightarrow> panic + u64 list" where
  "insert_at bits word_count row r =
     result_bind (words_at bits word_count row) (\<lambda>words.
       result_map (write_words bits word_count row) (insert_bit words r))"

section \<open>Liveness\<close>

text \<open>What is live out of an instruction: the rows of its successors and of its handlers.\<close>

definition outgoing_row :: "chunk \<Rightarrow> nat \<Rightarrow> u64 list \<Rightarrow> nat \<Rightarrow> panic + u64 list" where
  "outgoing_row c word_count live_in index =
     result_bind (successors c index) (\<lambda>edges.
       union_rows live_in word_count (filter (\<lambda>s. s < length (code c)) (edges @ handlers_at c index))
         (replicate word_count 0))"

definition incoming_row ::
  "chunk \<Rightarrow> (register list \<times> register list) list \<Rightarrow> nat \<Rightarrow> u64 list \<Rightarrow> nat \<Rightarrow> panic + u64 list" where
  "incoming_row c accesses word_count live_in index =
     result_bind (outgoing_row c word_count live_in index) (\<lambda>incoming.
     result_bind (index_of accesses index) (\<lambda>(used, defined).
     result_bind (for_registers (\<lambda>bits r. remove_bit bits (unat r)) defined incoming)
       (for_registers (\<lambda>bits r. insert_bit bits (unat r)) used)))"

fun live_pass ::
  "chunk \<Rightarrow> (register list \<times> register list) list \<Rightarrow> nat \<Rightarrow> nat list \<Rightarrow> u64 list \<times> bool \<Rightarrow> panic + u64 list \<times> bool" where
  "live_pass c accesses word_count [] state = Inr state"
| "live_pass c accesses word_count (index # indices) (live_in, changed) =
     result_bind (incoming_row c accesses word_count live_in index) (\<lambda>incoming.
     result_bind (words_at live_in word_count index) (\<lambda>current.
       live_pass c accesses word_count indices
         (if current \<noteq> incoming then (write_words live_in word_count index incoming, True)
          else (live_in, changed))))"

partial_function (option) live_loop ::
  "chunk \<Rightarrow> (register list \<times> register list) list \<Rightarrow> nat \<Rightarrow> u64 list \<Rightarrow> (panic + u64 list) option" where
  "live_loop c accesses word_count live_in =
     (case live_pass c accesses word_count (rev [0..<length (code c)]) (live_in, False) of
        Inl p \<Rightarrow> Some (Inl p)
      | Inr (live_in, changed) \<Rightarrow>
          if changed then live_loop c accesses word_count live_in else Some (Inr live_in))"

declare live_loop.simps [code]

section \<open>The interference graph\<close>

definition add_interference :: "nat \<Rightarrow> nat \<Rightarrow> register \<Rightarrow> register \<Rightarrow> u64 list \<Rightarrow> panic + u64 list" where
  "add_interference word_count local_count left right bits =
     (if left = right \<or> unat right < local_count then Inr bits
      else result_bind (insert_at bits word_count (unat left) (unat right)) (\<lambda>bits.
        insert_at bits word_count (unat right) (unat left)))"

fun interfere_with :: "nat \<Rightarrow> nat \<Rightarrow> register \<Rightarrow> register list \<Rightarrow> u64 list \<Rightarrow> panic + u64 list" where
  "interfere_with word_count local_count d [] bits = Inr bits"
| "interfere_with word_count local_count d (r # rs) bits =
     result_bind (add_interference word_count local_count d r bits) (interfere_with word_count local_count d rs)"

fun interfere_live ::
  "nat \<Rightarrow> nat \<Rightarrow> register \<Rightarrow> u64 list \<Rightarrow> nat list \<Rightarrow> u64 list \<Rightarrow> panic + u64 list" where
  "interfere_live word_count local_count d live_out [] bits = Inr bits"
| "interfere_live word_count local_count d live_out (k # ks) bits =
     result_bind (contains_bit live_out k) (\<lambda>live.
     result_bind (if live then add_interference word_count local_count d (of_nat k) bits else Inr bits)
       (interfere_live word_count local_count d live_out ks))"

text \<open>One definition of an instruction, with what is live after it, its inputs and its other definitions.\<close>

definition interfere_definition ::
  "chunk \<Rightarrow> nat \<Rightarrow> instruction \<Rightarrow> u64 list \<Rightarrow> register list \<times> register list \<Rightarrow> register \<Rightarrow> u64 list \<Rightarrow> panic + u64 list" where
  "interfere_definition c word_count ins live_out accesses d bits =
     (let local_count = unat (local_register_count c)
      in if unat d < local_count then Inr bits
         else result_bind (interfere_live word_count local_count d live_out (temporaries c) bits) (\<lambda>bits.
           result_bind (if \<not> write_may_alias_inputs ins
               then interfere_with word_count local_count d (fst accesses) bits else Inr bits)
             (interfere_with word_count local_count d (snd accesses))))"

fun interfere_definitions ::
  "chunk \<Rightarrow> nat \<Rightarrow> instruction \<Rightarrow> u64 list \<Rightarrow> register list \<times> register list \<Rightarrow> register list \<Rightarrow> u64 list \<Rightarrow> panic + u64 list" where
  "interfere_definitions c word_count ins live_out accesses [] bits = Inr bits"
| "interfere_definitions c word_count ins live_out accesses (d # ds) bits =
     result_bind (interfere_definition c word_count ins live_out accesses d bits)
       (interfere_definitions c word_count ins live_out accesses ds)"

fun interferences ::
  "chunk \<Rightarrow> (register list \<times> register list) list \<Rightarrow> nat \<Rightarrow> u64 list \<Rightarrow> nat list \<Rightarrow> u64 list \<Rightarrow> panic + u64 list" where
  "interferences c accesses word_count live_in [] bits = Inr bits"
| "interferences c accesses word_count live_in (index # indices) bits =
     result_bind (outgoing_row c word_count live_in index) (\<lambda>live_out.
     result_bind (index_of accesses index) (\<lambda>access.
     result_bind (index_of (code c) index) (\<lambda>ins.
     result_bind (interfere_definitions c word_count ins live_out access (snd access) bits)
       (interferences c accesses word_count live_in indices))))"

section \<open>The colouring\<close>

definition count_ones :: "u64 \<Rightarrow> nat" where
  "count_ones w = length (filter (bit w) [0..<64])"

definition degree :: "u64 list \<Rightarrow> nat \<Rightarrow> nat \<Rightarrow> nat" where
  "degree bits word_count r = sum_list (map count_ones (row_at bits word_count r))"

text \<open>A sort of registers by a key, the largest first.\<close>

definition sorts_registers :: "((nat \<Rightarrow> nat) \<Rightarrow> nat list \<Rightarrow> nat list) \<Rightarrow> bool" where
  "sorts_registers sort_registers \<longleftrightarrow>
     (\<forall>key rs. mset (sort_registers key rs) = mset rs \<and>
        sorted_wrt (\<lambda>a b. key b \<le> key a) (sort_registers key rs))"

fun mark_occupied :: "register list \<Rightarrow> u64 list \<Rightarrow> nat list \<Rightarrow> bool list \<Rightarrow> panic + bool list" where
  "mark_occupied mapping neighbors [] occupied = Inr occupied"
| "mark_occupied mapping neighbors (k # ks) occupied =
     result_bind (contains_bit neighbors k) (\<lambda>neighbor.
       if \<not> neighbor \<or> mapping ! k = register_NONE then mark_occupied mapping neighbors ks occupied
       else if unat (mapping ! k) < length occupied
            then mark_occupied mapping neighbors ks (occupied[unat (mapping ! k) := True])
            else Inl IndexOutOfBounds)"

definition color_of :: "chunk \<Rightarrow> nat \<Rightarrow> u64 list \<Rightarrow> register list \<Rightarrow> nat \<Rightarrow> panic + nat option" where
  "color_of c word_count interference mapping r =
     result_bind (words_at interference word_count r) (\<lambda>neighbors.
     result_map (\<lambda>occupied. find (\<lambda>candidate. \<not> occupied ! candidate) (temporaries c))
       (mark_occupied mapping neighbors (temporaries c) (replicate (unat (register_count c)) False)))"

fun color_registers ::
  "chunk \<Rightarrow> nat \<Rightarrow> u64 list \<Rightarrow> nat list \<Rightarrow> register list \<Rightarrow> u16 \<Rightarrow> (panic + register list \<times> u16) option" where
  "color_registers c word_count interference [] mapping high_water = Some (Inr (mapping, high_water))"
| "color_registers c word_count interference (r # rs) mapping high_water =
     (case color_of c word_count interference mapping r of
        Inl p \<Rightarrow> Some (Inl p)
      | Inr None \<Rightarrow> None
      | Inr (Some physical) \<Rightarrow>
          color_registers c word_count interference rs (mapping[r := of_nat physical])
            (max high_water (of_nat physical + 1)))"

definition recolor_order ::
  "((nat \<Rightarrow> nat) \<Rightarrow> nat list \<Rightarrow> nat list) \<Rightarrow> chunk \<Rightarrow> register list \<Rightarrow> nat \<Rightarrow> u64 list \<Rightarrow> nat list" where
  "recolor_order sort_registers c pinned word_count interference =
     sort_registers (degree interference word_count)
       (filter (\<lambda>r. of_nat r \<notin> set pinned) (temporaries c))"

definition color_chunk ::
  "((nat \<Rightarrow> nat) \<Rightarrow> nat list \<Rightarrow> nat list) \<Rightarrow> chunk \<Rightarrow> (register list \<times> register list) list \<Rightarrow> u64 list \<Rightarrow>
   (panic + register list \<times> u16) option" where
  "color_chunk sort_registers c accesses live_in =
     (let words = liveness_word_count c; pinned = pinned_window_registers c
      in case result_bind (interferences c accesses words live_in [0..<length (code c)]
                (replicate (unat (register_count c) * words) 0)) (\<lambda>interference.
              result_map (Pair interference) (fixed_mapping c pinned)) of
           Inl p \<Rightarrow> Some (Inl p)
         | Inr (interference, mapping) \<Rightarrow>
             color_registers c words interference (recolor_order sort_registers c pinned words interference)
               mapping (pinned_high_water pinned (local_register_count c)))"

definition recolor_interference_graph ::
  "((nat \<Rightarrow> nat) \<Rightarrow> nat list \<Rightarrow> nat list) \<Rightarrow> chunk \<Rightarrow> (panic + chunk \<times> nat) option" where
  "recolor_interference_graph sort_registers c =
     (if register_count c \<le> local_register_count c \<or> catch_table c \<noteq> [] \<or>
         register_count c \<le> pinned_high_water (pinned_window_registers c) (local_register_count c)
      then Some (Inr (c, 0))
      else case code_accesses (code c) of
        None \<Rightarrow> Some (Inr (c, 0))
      | Some accesses \<Rightarrow>
          (case live_loop c accesses (liveness_word_count c)
              (replicate (length (code c) * liveness_word_count c) 0) of
             None \<Rightarrow> None
           | Some (Inl p) \<Rightarrow> Some (Inl p)
           | Some (Inr live_in) \<Rightarrow>
               (case color_chunk sort_registers c accesses live_in of
                  None \<Rightarrow> None
                | Some (Inl p) \<Rightarrow> Some (Inl p)
                | Some (Inr (mapping, high_water)) \<Rightarrow>
                    if high_water \<ge> register_count c then Some (Inr (c, 0))
                    else apply_mapping mapping high_water c)))"

section \<open>Accesses and bits as sets\<close>

lemma set_push_new [simp]: "set (push_new x xs) = insert x (set xs)"
  by (auto simp: push_new_def)

lemma set_fold_push_new [simp]: "set (fold push_new ys xs) = set xs \<union> set ys"
  by (induction ys arbitrary: xs) auto

lemma note_operand_sets:
  "set (fst (note_operand ins (n, a) found)) =
     set (fst found) \<union> (if a = ReadAccess then set_option (operand_register ins n) else {})"
  "set (snd (note_operand ins (n, a) found)) =
     set (snd found) \<union> (if a = WriteAccess then set_option (operand_register ins n) else {})"
  unfolding note_operand_def by (simp_all split: option.split access.split del: operand_register_Some)

lemma fold_note_operand:
  fixes ins and found :: "register list \<times> register list"
  defines "noted a ops \<equiv> set (List.map_filter (\<lambda>(n, a'). if a' = a then operand_register ins n else None) ops)"
  shows "set (fst (fold (note_operand ins) ops found)) = set (fst found) \<union> noted ReadAccess ops \<and>
    set (snd (fold (note_operand ins) ops found)) = set (snd found) \<union> noted WriteAccess ops"
proof (induction ops arbitrary: found)
  case (Cons op ops)
  obtain n a where op: "op = (n, a)" by (cases op)
  have "noted b (op # ops) = (if a = b then set_option (operand_register ins n) else {}) \<union> noted b ops" for b
    unfolding noted_def op by (simp add: List.map_filter_simps split: option.split del: operand_register_Some)
  then show ?case using Cons.IH [of "note_operand ins op found"] by (auto simp: op note_operand_sets)
qed (simp add: noted_def List.map_filter_simps)

lemma uses_and_definitions_sets:
  assumes "operands ins = Some ops"
  shows "set (fst (uses_and_definitions ins ops)) = set (read_list ins)"
    "set (snd (uses_and_definitions ins ops)) = set (write_list ins)"
  using fold_note_operand [of ins ops "([], [])"] assms
  by (simp_all add: uses_and_definitions_def Let_def read_list_def write_list_def access_registers_def)

lemma code_accesses_spec:
  assumes "code_accesses cs = Some accesses"
  shows "length accesses = length cs" "\<forall>ins\<in>set cs. operands ins \<noteq> None"
    "i < length cs \<Longrightarrow> set (fst (accesses ! i)) = set (read_list (cs ! i)) \<and>
      set (snd (accesses ! i)) = set (write_list (cs ! i))"
proof -
  have "length accesses = length cs \<and> (\<forall>ins\<in>set cs. operands ins \<noteq> None) \<and>
      (\<forall>i<length cs. set (fst (accesses ! i)) = set (read_list (cs ! i)) \<and>
        set (snd (accesses ! i)) = set (write_list (cs ! i)))"
    using assms
  proof (induction cs arbitrary: accesses)
    case (Cons ins cs)
    then obtain ops rest where "operands ins = Some ops" "code_accesses cs = Some rest"
      "accesses = uses_and_definitions ins ops # rest" by (auto split: option.splits)
    with Cons.IH [of rest] show ?case
      using uses_and_definitions_sets [of ins ops] by (auto simp: nth_Cons split: nat.splits)
  qed simp
  then show "length accesses = length cs" "\<forall>ins\<in>set cs. operands ins \<noteq> None"
    "i < length cs \<Longrightarrow> set (fst (accesses ! i)) = set (read_list (cs ! i)) \<and>
      set (snd (accesses ! i)) = set (write_list (cs ! i))" by auto
qed

lemma insert_bit_register: "insert_bit bits (unat r) = live_set_register bits r"
  by (simp add: insert_bit_def live_set_register_def)

lemma remove_bit_register: "remove_bit bits (unat r) = live_clear_register bits r"
  by (simp add: remove_bit_def live_clear_register_def)

lemma contains_bit_row:
  assumes "k < 64 * length bits"
  shows "contains_bit bits k = Inr (k \<in> row_set bits)"
proof -
  have "k div 64 < length bits" using assms by (simp add: div_less_iff_less_mult mult.commute)
  then show ?thesis by (simp add: contains_bit_def row_set_def and_exp_eq_0_iff_not_bit)
qed

lemma insert_bit_row:
  assumes "k < 64 * length bits" "k < 2 ^ 16"
  shows "\<exists>bits'. insert_bit bits k = Inr bits' \<and> length bits' = length bits \<and>
    row_set bits' = insert k (row_set bits)"
  using set_register_row [of "of_nat k" bits] insert_bit_register [of bits "of_nat k"] assms by simp

text \<open>A bit set in one row of a matrix.\<close>

lemma insert_at_rows:
  assumes "length bits = n * w" "i < n" "k < 64 * w" "k < 2 ^ 16"
  shows "\<exists>bits'. insert_at bits w i k = Inr bits' \<and> length bits' = n * w \<and>
    (\<forall>j<n. matrix_rows w bits' j = (if j = i then insert k (matrix_rows w bits i) else matrix_rows w bits j))"
proof -
  note row = words_at_row [OF assms(1,2)]
  obtain new where new: "insert_bit (row_at bits w i) k = Inr new" "length new = w"
    "row_set new = insert k (row_set (row_at bits w i))"
    using insert_bit_row [of k "row_at bits w i"] assms(3,4) row(2) by auto
  then show ?thesis
    using row(1) write_words_row(1) [OF assms(1,2) new(2) assms(2)] matrix_rows_written [OF assms(1,2) new(2)]
    by (simp add: insert_at_def matrix_rows_def)
qed

section \<open>The liveness is a solution\<close>

text \<open>The rows of a solution: what is used, and what is live after the instruction and not defined by it.\<close>

definition live_after :: "chunk \<Rightarrow> nat \<Rightarrow> (nat \<Rightarrow> nat set) \<Rightarrow> nat set" where
  "live_after c i rows = {k. \<exists>edges. successors c i = Inr edges \<and> (\<exists>s\<in>set edges. s < length (code c) \<and> k \<in> rows s)}"

definition live_before :: "chunk \<Rightarrow> nat \<Rightarrow> (nat \<Rightarrow> nat set) \<Rightarrow> nat set" where
  "live_before c i rows =
     (live_after c i rows - unat ` set (write_list (code c ! i))) \<union> unat ` set (read_list (code c ! i))"

definition live_good ::
  "(string \<Rightarrow> u64) \<times> chunk \<times> (register list \<times> register list) list \<Rightarrow> bool" where
  "live_good p \<longleftrightarrow> (case p of (xxh3, c, accesses) \<Rightarrow> verify xxh3 c = Inr () \<and> no_empty_tuple_patterns c \<and>
     catch_table c = [] \<and> code_accesses (code c) = Some accesses)"

lemma outgoing_row_spec:
  assumes "verify xxh3 c = Inr ()" "catch_table c = []" "i < length (code c)" "length bits = length (code c) * w"
  shows "\<exists>row. outgoing_row c w bits i = Inr row \<and> length row = w \<and>
    row_set row = live_after c i (matrix_rows w bits)"
proof -
  obtain edges where edges: "successors c i = Inr edges" using verified_edges [OF assms(1,3)] by blast
  then show ?thesis
    using union_edges [OF assms(4), of edges] assms(2)
    by (auto simp: outgoing_row_def handlers_at_def live_after_def matrix_rows_def)
qed

lemma verified_touched:
  assumes "verify xxh3 c = Inr ()" "no_empty_tuple_patterns c" "i < length (code c)"
    and "r \<in> set (read_list (code c ! i)) \<union> set (write_list (code c ! i))"
  shows "unat r < unat (register_count c)"
  using touched_in_frame [OF verified_plain_code [OF assms(1,2)], of "code c ! i" "unat r"]
    verified_registers [OF assms(1,3)] assms(3,4) by (auto simp: touched_def)

lemma incoming_row_spec:
  assumes "live_good (xxh3, c, accesses)" "i < length (code c)"
    and "length bits = length (code c) * liveness_word_count c"
    and "\<forall>s<length (code c). matrix_rows (liveness_word_count c) bits s \<subseteq> {..<unat (register_count c)}"
  shows "\<exists>new. incoming_row c accesses (liveness_word_count c) bits i = Inr new \<and>
    length new = liveness_word_count c \<and> row_set new \<subseteq> {..<unat (register_count c)} \<and>
    row_set new = live_before c i (matrix_rows (liveness_word_count c) bits)"
proof -
  let ?w = "liveness_word_count c" and ?n = "unat (register_count c)"
  have good: "verify xxh3 c = Inr ()" "no_empty_tuple_patterns c" "catch_table c = []"
    "code_accesses (code c) = Some accesses" using assms(1) by (simp_all add: live_good_def)
  obtain row where row: "outgoing_row c ?w bits i = Inr row" "length row = ?w"
    "row_set row = live_after c i (matrix_rows ?w bits)"
    using outgoing_row_spec [OF good(1,3) assms(2,3)] by blast
  note acc = code_accesses_spec(1,3) [OF good(4)]
  have frame: "unat r < ?n" if "r \<in> set (fst (accesses ! i)) \<union> set (snd (accesses ! i))" for r
    using verified_touched [OF good(1,2) assms(2)] acc(2) [OF assms(2)] that by simp
  have words: "\<forall>r\<in>set (fst (accesses ! i)). unat r < 64 * ?w" "\<forall>r\<in>set (snd (accesses ! i)). unat r < 64 * ?w"
    using frame register_words by blast+
  obtain removed where removed: "for_registers live_clear_register (snd (accesses ! i)) row = Inr removed"
    "length removed = ?w" "row_set removed = row_set row - unat ` set (snd (accesses ! i))"
    using clear_registers_row [of "snd (accesses ! i)" row] words(2) row(2) by auto
  obtain new where new: "for_registers live_set_register (fst (accesses ! i)) removed = Inr new"
    "length new = ?w" "row_set new = row_set removed \<union> unat ` set (fst (accesses ! i))"
    using set_registers_row [of "fst (accesses ! i)" removed] words(1) removed(2) by auto
  have "row_set new \<subseteq> {..<?n}"
    using new(3) removed(3) row(3) frame assms(4) by (fastforce simp: live_after_def)
  moreover have "row_set new = live_before c i (matrix_rows ?w bits)"
    using new(3) removed(3) row(3) acc(2) [OF assms(2)] by (simp add: live_before_def)
  moreover have "incoming_row c accesses ?w bits i = Inr new"
    using row(1) removed(1) new(1) acc(1) assms(2)
    by (simp add: incoming_row_def insert_bit_register remove_bit_register case_prod_unfold)
  ultimately show ?thesis using new(2) by blast
qed

lemma live_before_mono:
  assumes "\<And>s. s < length (code c) \<Longrightarrow> rows s \<subseteq> rows' s"
  shows "live_before c i rows \<subseteq> live_before c i rows'"
  using assms by (fastforce simp: live_before_def live_after_def)

interpretation recolor_live: row_iteration live_good "\<lambda>(_, c, _). length (code c)"
  "\<lambda>(_, c, _). liveness_word_count c" "\<lambda>(_, c, _). unat (register_count c)"
  "\<lambda>(_, c, accesses). incoming_row c accesses (liveness_word_count c)" "\<lambda>(_, c, _). live_before c"
  "\<lambda>(_, c, accesses). live_pass c accesses (liveness_word_count c)"
  "\<lambda>(_, c, accesses). live_loop c accesses (liveness_word_count c)"
proof unfold_locales
  fix p :: "(string \<Rightarrow> u64) \<times> chunk \<times> (register list \<times> register list) list" and i bits
  obtain xxh3 c accesses where p: "p = (xxh3, c, accesses)" by (cases p)
  show "\<exists>new. (case p of (_, c, accesses) \<Rightarrow> incoming_row c accesses (liveness_word_count c)) bits i = Inr new \<and>
      length new = (case p of (_, c, _) \<Rightarrow> liveness_word_count c) \<and>
      row_set new \<subseteq> {..<case p of (_, c, _) \<Rightarrow> unat (register_count c)} \<and>
      row_set new = (case p of (_, c, _) \<Rightarrow> live_before c) i
        (matrix_rows (case p of (_, c, _) \<Rightarrow> liveness_word_count c) bits)"
    if "live_good p" "i < (case p of (_, c, _) \<Rightarrow> length (code c))"
      "length bits = (case p of (_, c, _) \<Rightarrow> length (code c)) * (case p of (_, c, _) \<Rightarrow> liveness_word_count c)"
      "\<forall>s<case p of (_, c, _) \<Rightarrow> length (code c). matrix_rows (case p of (_, c, _) \<Rightarrow> liveness_word_count c) bits s \<subseteq>
         {..<case p of (_, c, _) \<Rightarrow> unat (register_count c)}"
    using incoming_row_spec [of xxh3 c accesses i bits] that by (simp add: p)
qed (simp_all add: live_before_mono split: prod.splits, subst live_loop.simps, simp)

text \<open>
  The rows the loop returns are closed under the equation and hold only what is live on some path.
\<close>

lemma live_loop_solution:
  assumes "verify xxh3 c = Inr ()" "no_empty_tuple_patterns c" "catch_table c = []"
    and "code_accesses (code c) = Some accesses"
  shows "\<exists>bits. live_loop c accesses (liveness_word_count c)
      (replicate (length (code c) * liveness_word_count c) 0) = Some (Inr bits) \<and>
    length bits = length (code c) * liveness_word_count c \<and>
    (\<forall>i<length (code c). matrix_rows (liveness_word_count c) bits i =
        live_before c i (matrix_rows (liveness_word_count c) bits) \<and>
      matrix_rows (liveness_word_count c) bits i \<subseteq> {k. k < unat (register_count c) \<and> live c [] (of_nat k) i})"
proof -
  let ?n = "unat (register_count c)"
  let ?sol = "\<lambda>i. {k. k < ?n \<and> live c [] (of_nat k) i}"
  have "classified c" using code_accesses_spec(2) [OF assms(4)] by (auto simp: classified_def list_all_iff)
  then have hold: "needs_hold c (\<lambda>r i. live c [] r i \<and> r \<noteq> register_NONE)"
    by (rule live_needs_hold [OF assms(1,2)])
  have sol: "\<forall>i<length (code c). live_before c i ?sol \<subseteq> ?sol i"
  proof (intro allI impI subsetI)
    fix i k assume i: "i < length (code c)" and k: "k \<in> live_before c i ?sol"
    show "k \<in> ?sol i"
    proof (cases "k \<in> unat ` set (read_list (code c ! i))")
      case True
      then obtain r where "r \<in> set (read_list (code c ! i))" "k = unat r" by blast
      then show ?thesis
        using hold i verified_touched [OF assms(1,2) i, of r] unfolding needs_hold_def by simp
    next
      case False
      then obtain edges s where s: "successors c i = Inr edges" "s \<in> set edges"
        "k < ?n" "live c [] (of_nat k) s" "k \<notin> unat ` set (write_list (code c ! i))"
        using k by (auto simp: live_before_def live_after_def)
      have "of_nat k \<notin> set (write_list (code c ! i))" using s(5) unat_register [OF s(3)] by (metis imageI)
      with s show ?thesis
        using hold i frame_register_not_NONE [OF s(3)] unfolding needs_hold_def by blast
    qed
  qed
  have good: "live_good (xxh3, c, accesses)" using assms by (simp add: live_good_def)
  from recolor_live.loop_least [OF good, of ?sol, unfolded prod.case, OF sol] show ?thesis by blast
qed

section \<open>The interference graph is symmetric and complete\<close>

text \<open>
  A graph over the temporaries from \<open>l\<close> to \<open>n\<close>: no loops, symmetric. Edges are only added.
\<close>

definition graph :: "nat \<Rightarrow> nat \<Rightarrow> nat \<Rightarrow> u64 list \<Rightarrow> bool" where
  "graph n w l bits \<longleftrightarrow> length bits = n * w \<and>
     (\<forall>a<n. \<forall>b\<in>matrix_rows w bits a. l \<le> b \<and> b < n \<and> b \<noteq> a \<and> a \<in> matrix_rows w bits b)"

text \<open>A computation that adds the edges \<open>E\<close>.\<close>

definition adds_edges :: "nat \<Rightarrow> nat \<Rightarrow> nat \<Rightarrow> (nat \<times> nat) set \<Rightarrow> u64 list \<Rightarrow> panic + u64 list \<Rightarrow> bool" where
  "adds_edges n w l E bits result \<longleftrightarrow>
     (\<exists>bits'. result = Inr bits' \<and> graph n w l bits' \<and>
        (\<forall>a<n. matrix_rows w bits a \<subseteq> matrix_rows w bits' a) \<and>
        (\<forall>a b. (a, b) \<in> E \<longrightarrow> a \<noteq> b \<longrightarrow> l \<le> a \<longrightarrow> l \<le> b \<longrightarrow> b \<in> matrix_rows w bits' a))"

lemma adds_nothing: "graph n w l bits \<Longrightarrow> (\<And>a b. (a, b) \<in> E \<Longrightarrow> a < l) \<Longrightarrow> adds_edges n w l E bits (Inr bits)"
  by (fastforce simp: adds_edges_def)

lemma adds_empty: "graph n w l bits \<Longrightarrow> adds_edges n w l {} bits (Inr bits)"
  by (simp add: adds_edges_def)

lemma adds_fewer: "adds_edges n w l E bits result \<Longrightarrow> E' \<subseteq> E \<Longrightarrow> adds_edges n w l E' bits result"
  unfolding adds_edges_def by blast

lemma adds_bind:
  assumes "adds_edges n w l E bits result" "E \<subseteq> {..<n} \<times> UNIV"
    and "\<And>bits'. graph n w l bits' \<Longrightarrow> adds_edges n w l E' bits' (f bits')"
  shows "adds_edges n w l (E \<union> E') bits (result_bind result f)"
proof -
  obtain bits1 where bits1: "result = Inr bits1" "graph n w l bits1"
    "\<And>a. a < n \<Longrightarrow> matrix_rows w bits a \<subseteq> matrix_rows w bits1 a"
    "\<And>a b. (a, b) \<in> E \<Longrightarrow> a \<noteq> b \<Longrightarrow> l \<le> a \<Longrightarrow> l \<le> b \<Longrightarrow> b \<in> matrix_rows w bits1 a"
    using assms(1) by (auto simp: adds_edges_def)
  obtain bits2 where bits2: "f bits1 = Inr bits2" "graph n w l bits2"
    "\<And>a. a < n \<Longrightarrow> matrix_rows w bits1 a \<subseteq> matrix_rows w bits2 a"
    "\<And>a b. (a, b) \<in> E' \<Longrightarrow> a \<noteq> b \<Longrightarrow> l \<le> a \<Longrightarrow> l \<le> b \<Longrightarrow> b \<in> matrix_rows w bits2 a"
    using assms(3) [OF bits1(2)] by (auto simp: adds_edges_def)
  have "\<forall>a b. (a, b) \<in> E \<union> E' \<longrightarrow> a \<noteq> b \<longrightarrow> l \<le> a \<longrightarrow> l \<le> b \<longrightarrow> b \<in> matrix_rows w bits2 a"
    using bits1(4) bits2(3,4) assms(2) by blast
  moreover have "matrix_rows w bits a \<subseteq> matrix_rows w bits2 a" if "a < n" for a
    using bits1(3) bits2(3) that by blast
  ultimately show ?thesis using bits1(1) bits2(1,2) unfolding adds_edges_def by auto
qed

lemma add_interference_adds:
  assumes "graph n w l bits" "n \<le> 64 * w" "unat d < n" "unat r < n" "l \<le> unat d"
  shows "adds_edges n w l {(unat d, unat r)} bits (add_interference w l d r bits)"
proof (cases "d = r \<or> unat r < l")
  case True
  then show ?thesis using assms(1) by (auto simp: add_interference_def adds_edges_def)
next
  case False
  let ?d = "unat d" and ?r = "unat r"
  have ne: "?d \<noteq> ?r" using False by (metis word_unat_eq_iff)
  have small: "k < 2 ^ 16" if "k = ?d \<or> k = ?r" for k
    using that unsigned_less [of d, where 'a = nat] unsigned_less [of r, where 'a = nat] by auto
  have len: "length bits = n * w" using assms(1) by (simp add: graph_def)
  obtain b1 where b1: "insert_at bits w ?d ?r = Inr b1" "length b1 = n * w"
    "\<And>j. j < n \<Longrightarrow> matrix_rows w b1 j = (if j = ?d then insert ?r (matrix_rows w bits ?d) else matrix_rows w bits j)"
    using insert_at_rows [OF len assms(3), of ?r] assms(2,4) small by auto
  obtain b2 where b2: "insert_at b1 w ?r ?d = Inr b2" "length b2 = n * w"
    "\<And>j. j < n \<Longrightarrow> matrix_rows w b2 j = (if j = ?r then insert ?d (matrix_rows w b1 ?r) else matrix_rows w b1 j)"
    using insert_at_rows [OF b1(2) assms(4), of ?d] assms(2,3) small by auto
  have rows: "matrix_rows w b2 j = (if j = ?d then insert ?r (matrix_rows w bits j)
      else if j = ?r then insert ?d (matrix_rows w bits j) else matrix_rows w bits j)" if "j < n" for j
    using b1(3) [OF that] b2(3) [OF that] b1(3) [OF assms(4)] ne by auto
  have old: "\<And>a b. a < n \<Longrightarrow> b \<in> matrix_rows w bits a \<Longrightarrow> l \<le> b \<and> b < n \<and> b \<noteq> a \<and> a \<in> matrix_rows w bits b"
    using assms(1) unfolding graph_def by blast
  have "l \<le> b \<and> b < n \<and> b \<noteq> a \<and> a \<in> matrix_rows w b2 b" if ab: "a < n" "b \<in> matrix_rows w b2 a" for a b
  proof (cases "b \<in> matrix_rows w bits a")
    case True
    with old [OF ab(1) True] rows show ?thesis by auto
  next
    case new: False
    with ab rows [OF ab(1)] have "a = ?d \<and> b = ?r \<or> a = ?r \<and> b = ?d" by (auto split: if_splits)
    then show ?thesis using rows assms(3-5) False ne by auto
  qed
  then have "graph n w l b2" using b2(2) unfolding graph_def by blast
  moreover have "?r \<in> matrix_rows w b2 ?d" using rows [OF assms(3)] by simp
  moreover have "matrix_rows w bits a \<subseteq> matrix_rows w b2 a" if "a < n" for a using rows [OF that] by auto
  ultimately show ?thesis using False b1(1) b2(1) by (auto simp: add_interference_def adds_edges_def)
qed

lemma interfere_with_adds:
  assumes "graph n w l bits" "n \<le> 64 * w" "unat d < n" "l \<le> unat d" "\<forall>r\<in>set rs. unat r < n"
  shows "adds_edges n w l ({unat d} \<times> unat ` set rs) bits (interfere_with w l d rs bits)"
  using assms(1,5)
proof (induction rs arbitrary: bits)
  case (Cons r rs)
  have "adds_edges n w l ({(unat d, unat r)} \<union> {unat d} \<times> unat ` set rs) bits
      (result_bind (add_interference w l d r bits) (interfere_with w l d rs))"
    using Cons assms(2-4) by (intro adds_bind add_interference_adds) auto
  then show ?case by (auto elim!: adds_fewer)
qed (simp add: adds_empty)

lemma interfere_live_adds:
  assumes "graph n w l bits" "n \<le> 64 * w" "unat d < n" "l \<le> unat d" "\<forall>k\<in>set ks. k < n"
    and "length live_out = w" "n \<le> 0xFFFF"
  shows "adds_edges n w l ({unat d} \<times> (set ks \<inter> row_set live_out)) bits (interfere_live w l d live_out ks bits)"
  using assms(1,5)
proof (induction ks arbitrary: bits)
  case (Cons k ks)
  have k: "k < n" "unat (of_nat k :: register) = k" using Cons.prems(2) assms(7) by (auto intro: unat_of_nat_u16)
  have bit: "contains_bit live_out k = Inr (k \<in> row_set live_out)"
    using contains_bit_row [of k live_out] k(1) assms(2,6) by simp
  have "adds_edges n w l ({unat d} \<times> ({k} \<inter> row_set live_out)) bits
      (if k \<in> row_set live_out then add_interference w l d (of_nat k) bits else Inr bits)"
    using add_interference_adds [OF Cons.prems(1) assms(2,3), of "of_nat k"] k assms(4) Cons.prems(1)
    by (auto simp: adds_empty)
  then have "adds_edges n w l ({unat d} \<times> ({k} \<inter> row_set live_out) \<union> {unat d} \<times> (set ks \<inter> row_set live_out)) bits
      (result_bind (if k \<in> row_set live_out then add_interference w l d (of_nat k) bits else Inr bits)
        (interfere_live w l d live_out ks))"
    using Cons assms(3) by (intro adds_bind) auto
  moreover have "{unat d} \<times> (set (k # ks) \<inter> row_set live_out) \<subseteq>
      {unat d} \<times> ({k} \<inter> row_set live_out) \<union> {unat d} \<times> (set ks \<inter> row_set live_out)" by auto
  ultimately show ?case using bit by (simp add: adds_fewer)
qed (simp add: adds_empty)

text \<open>What an instruction of a chunk adds: an edge from each of its definitions to what is live after it.\<close>

lemma interfere_definition_adds:
  assumes "graph (unat (register_count c)) (liveness_word_count c) (unat (local_register_count c)) bits"
    and "length live_out = liveness_word_count c" "unat d < unat (register_count c)"
    and "\<forall>r\<in>set (fst accesses) \<union> set (snd accesses). unat r < unat (register_count c)"
  shows "adds_edges (unat (register_count c)) (liveness_word_count c) (unat (local_register_count c))
    ({unat d} \<times> (set (temporaries c) \<inter> row_set live_out)) bits
    (interfere_definition c (liveness_word_count c) ins live_out accesses d bits)"
proof (cases "unat d < unat (local_register_count c)")
  case True
  then show ?thesis using assms(1) by (auto simp: interfere_definition_def intro: adds_nothing)
next
  case False
  let ?n = "unat (register_count c)" and ?w = "liveness_word_count c" and ?l = "unat (local_register_count c)"
  let ?E = "{unat d} \<times> (set (temporaries c) \<inter> row_set live_out)"
  have n: "?n \<le> 64 * ?w" "?n \<le> 0xFFFF" using register_count_bound [of c] by (simp_all add: liveness_word_count_def)
  have temps: "\<forall>k\<in>set (temporaries c). k < ?n" by (simp add: temporaries_def)
  note adds = interfere_with_adds [OF _ n(1) assms(3)]
  have l: "?l \<le> unat d" using False by simp
  have rest: "adds_edges ?n ?w ?l ({} \<union> {}) bits' (result_bind
      (if \<not> write_may_alias_inputs ins then interfere_with ?w ?l d (fst accesses) bits' else Inr bits')
      (interfere_with ?w ?l d (snd accesses)))" if g: "graph ?n ?w ?l bits'" for bits'
  proof (intro adds_bind)
    show "adds_edges ?n ?w ?l {} bits'
        (if \<not> write_may_alias_inputs ins then interfere_with ?w ?l d (fst accesses) bits' else Inr bits')"
      using adds [OF g l, of "fst accesses"] assms(4) g by (auto simp: adds_empty elim!: adds_fewer)
    show "adds_edges ?n ?w ?l {} b (interfere_with ?w ?l d (snd accesses) b)" if "graph ?n ?w ?l b" for b
      using adds [OF that l, of "snd accesses"] assms(4) by (auto elim!: adds_fewer)
  qed simp
  have "adds_edges ?n ?w ?l (?E \<union> ({} \<union> {})) bits (result_bind
      (interfere_live ?w ?l d live_out (temporaries c) bits) (\<lambda>bits. result_bind
        (if \<not> write_may_alias_inputs ins then interfere_with ?w ?l d (fst accesses) bits else Inr bits)
        (interfere_with ?w ?l d (snd accesses))))"
    using assms(3)
    by (intro adds_bind [OF interfere_live_adds [OF assms(1) n(1) assms(3) l temps assms(2) n(2)]] rest) auto
  then show ?thesis using False by (simp add: interfere_definition_def Let_def)
qed

lemma interfere_definitions_adds:
  assumes "graph (unat (register_count c)) (liveness_word_count c) (unat (local_register_count c)) bits"
    and "length live_out = liveness_word_count c" "\<forall>d\<in>set ds. unat d < unat (register_count c)"
    and "\<forall>r\<in>set (fst accesses) \<union> set (snd accesses). unat r < unat (register_count c)"
  shows "adds_edges (unat (register_count c)) (liveness_word_count c) (unat (local_register_count c))
    (unat ` set ds \<times> (set (temporaries c) \<inter> row_set live_out)) bits
    (interfere_definitions c (liveness_word_count c) ins live_out accesses ds bits)"
  using assms(1,3)
proof (induction ds arbitrary: bits)
  case (Cons d ds)
  let ?n = "unat (register_count c)" and ?w = "liveness_word_count c" and ?l = "unat (local_register_count c)"
  let ?K = "set (temporaries c) \<inter> row_set live_out"
  have "adds_edges ?n ?w ?l ({unat d} \<times> ?K \<union> unat ` set ds \<times> ?K) bits
      (result_bind (interfere_definition c ?w ins live_out accesses d bits)
        (interfere_definitions c ?w ins live_out accesses ds))"
    using Cons by (intro adds_bind interfere_definition_adds assms(2,4)) auto
  then show ?case by (auto elim!: adds_fewer)
qed (simp add: adds_empty)

text \<open>The edges of the whole graph.\<close>

definition conflicts :: "chunk \<Rightarrow> (nat \<Rightarrow> nat set) \<Rightarrow> nat list \<Rightarrow> (nat \<times> nat) set" where
  "conflicts c rows indices = {(unat d, k) | d k i. i \<in> set indices \<and> d \<in> set (write_list (code c ! i)) \<and>
     k \<in> set (temporaries c) \<and> k \<in> live_after c i rows}"

lemma interferences_adds:
  assumes "live_good (xxh3, c, accesses)" "length live_in = length (code c) * liveness_word_count c"
    and "graph (unat (register_count c)) (liveness_word_count c) (unat (local_register_count c)) bits"
    and "\<forall>i\<in>set indices. i < length (code c)"
  shows "adds_edges (unat (register_count c)) (liveness_word_count c) (unat (local_register_count c))
    (conflicts c (matrix_rows (liveness_word_count c) live_in) indices) bits
    (interferences c accesses (liveness_word_count c) live_in indices bits)"
  using assms(3,4)
proof (induction indices arbitrary: bits)
  case (Cons i indices)
  let ?n = "unat (register_count c)" and ?w = "liveness_word_count c" and ?l = "unat (local_register_count c)"
  let ?rows = "matrix_rows ?w live_in"
  have good: "verify xxh3 c = Inr ()" "no_empty_tuple_patterns c" "catch_table c = []"
    "code_accesses (code c) = Some accesses" using assms(1) by (simp_all add: live_good_def)
  have i: "i < length (code c)" using Cons.prems by simp
  obtain live_out where live_out: "outgoing_row c ?w live_in i = Inr live_out" "length live_out = ?w"
    "row_set live_out = live_after c i ?rows" using outgoing_row_spec [OF good(1,3) i assms(2)] by blast
  note acc = code_accesses_spec(1) [OF good(4)] code_accesses_spec(3) [OF good(4) i]
  have frame: "\<forall>r\<in>set (fst (accesses ! i)) \<union> set (snd (accesses ! i)). unat r < ?n"
    using verified_touched [OF good(1,2) i] acc(2) by blast
  have "adds_edges ?n ?w ?l (unat ` set (snd (accesses ! i)) \<times> (set (temporaries c) \<inter> row_set live_out) \<union>
      conflicts c ?rows indices) bits
    (result_bind (interfere_definitions c ?w (code c ! i) live_out (accesses ! i) (snd (accesses ! i)) bits)
      (interferences c accesses ?w live_in indices))"
    using Cons frame by (intro adds_bind interfere_definitions_adds live_out(2)) auto
  moreover have "conflicts c ?rows (i # indices) \<subseteq> unat ` set (snd (accesses ! i)) \<times>
      (set (temporaries c) \<inter> row_set live_out) \<union> conflicts c ?rows indices"
    using acc(2) live_out(3) by (auto simp: conflicts_def)
  ultimately show ?case using live_out(1) acc(1) i by (simp add: adds_fewer)
qed (auto simp: conflicts_def intro: adds_nothing)

lemma empty_graph: "graph n w l (replicate (n * w) 0)"
  by (auto simp: graph_def matrix_rows_def row_at_def row_set_def)

section \<open>The colouring is proper\<close>

lemma mark_occupied_spec:
  assumes "\<forall>k\<in>set ks. k < 64 * length neighbors \<and>
    (k \<in> row_set neighbors \<longrightarrow> mapping ! k \<noteq> register_NONE \<longrightarrow> unat (mapping ! k) < length occupied)"
  shows "\<exists>occupied'. mark_occupied mapping neighbors ks occupied = Inr occupied' \<and>
    (\<forall>p<length occupied. occupied' ! p \<longleftrightarrow> occupied ! p \<or>
       (\<exists>k\<in>set ks. k \<in> row_set neighbors \<and> mapping ! k \<noteq> register_NONE \<and> unat (mapping ! k) = p))"
  using assms
proof (induction ks arbitrary: occupied)
  case (Cons k ks)
  have bit: "contains_bit neighbors k = Inr (k \<in> row_set neighbors)" using Cons.prems by (simp add: contains_bit_row)
  show ?case
  proof (cases "k \<in> row_set neighbors \<and> mapping ! k \<noteq> register_NONE")
    case False
    then show ?thesis using Cons.IH [of occupied] Cons.prems bit by auto
  next
    case True
    then have "unat (mapping ! k) < length occupied" using Cons.prems by simp
    with True show ?thesis
      using Cons.IH [of "occupied[unat (mapping ! k) := True]"] Cons.prems bit
      by (fastforce simp: nth_list_update)
  qed
qed simp

text \<open>
  While registers are coloured: the ones that keep their place have it, every temporary that has a
  colour has one between the locals and the new frame, and neighbours have different colours.
\<close>

definition coloring :: "chunk \<Rightarrow> u64 list \<Rightarrow> nat set \<Rightarrow> register list \<Rightarrow> u16 \<Rightarrow> bool" where
  "coloring c bits colored mapping high_water \<longleftrightarrow>
     length mapping = unat (register_count c) \<and> high_water \<le> register_count c \<and>
     pinned_high_water (pinned_window_registers c) (local_register_count c) \<le> high_water \<and>
     (\<forall>k<unat (register_count c). keeps_place c k \<longrightarrow> mapping ! k = of_nat k) \<and>
     (\<forall>k\<in>set (temporaries c). mapping ! k \<noteq> register_NONE \<longrightarrow>
        local_register_count c \<le> mapping ! k \<and> mapping ! k < high_water) \<and>
     (\<forall>k\<in>colored. mapping ! k \<noteq> register_NONE) \<and>
     (\<forall>a\<in>set (temporaries c). \<forall>b\<in>matrix_rows (liveness_word_count c) bits a.
        mapping ! a \<noteq> register_NONE \<longrightarrow> mapping ! b \<noteq> register_NONE \<longrightarrow> mapping ! a \<noteq> mapping ! b)"

lemma color_of_spec:
  assumes "graph (unat (register_count c)) (liveness_word_count c) (unat (local_register_count c)) bits"
    and "coloring c bits colored mapping high_water" "r \<in> set (temporaries c)"
  shows "\<exists>p. color_of c (liveness_word_count c) bits mapping r = Inr (Some p) \<and> p \<in> set (temporaries c) \<and>
    (\<forall>b\<in>matrix_rows (liveness_word_count c) bits r. mapping ! b \<noteq> register_NONE \<longrightarrow> unat (mapping ! b) \<noteq> p)"
proof -
  let ?n = "unat (register_count c)" and ?w = "liveness_word_count c" and ?l = "unat (local_register_count c)"
  let ?row = "row_at bits ?w r" and ?T = "set (temporaries c)"
  have r: "r < ?n" using assms(3) by (simp add: temporaries_def)
  have len: "length bits = ?n * ?w" using assms(1) by (simp add: graph_def)
  note row = words_at_row [OF len r]
  have near: "b \<in> ?T - {r}" if "b \<in> row_set ?row" for b
  proof -
    have "?l \<le> b \<and> b < ?n \<and> b \<noteq> r" using assms(1) r that unfolding graph_def matrix_rows_def by blast
    then show ?thesis by (simp add: temporaries_def)
  qed
  have below: "unat (mapping ! k) < ?n" if "k \<in> ?T" "mapping ! k \<noteq> register_NONE" for k
  proof -
    have "mapping ! k < high_water" "high_water \<le> register_count c"
      using assms(2) that unfolding coloring_def by blast+
    then have "mapping ! k < register_count c" by (rule less_le_trans)
    then show ?thesis by (simp add: word_less_nat_alt)
  qed
  have "\<forall>k\<in>?T. k < 64 * length ?row \<and> (k \<in> row_set ?row \<longrightarrow> mapping ! k \<noteq> register_NONE \<longrightarrow>
      unat (mapping ! k) < length (replicate ?n False))"
    using below row(2) register_words [of _ c] by (auto simp: temporaries_def)
  from mark_occupied_spec [OF this] obtain occupied where occupied:
    "mark_occupied mapping ?row (temporaries c) (replicate ?n False) = Inr occupied"
    "\<And>p. p < ?n \<Longrightarrow> occupied ! p \<longleftrightarrow>
       (\<exists>k\<in>?T. k \<in> row_set ?row \<and> mapping ! k \<noteq> register_NONE \<and> unat (mapping ! k) = p)"
    by auto
  have "find (\<lambda>p. \<not> occupied ! p) (temporaries c) \<noteq> None"
  proof
    assume "find (\<lambda>p. \<not> occupied ! p) (temporaries c) = None"
    then have "\<forall>p\<in>?T. occupied ! p" by (simp add: find_None_iff)
    then have "?T \<subseteq> (\<lambda>k. unat (mapping ! k)) ` (?T - {r})"
      using occupied(2) near by (fastforce simp: temporaries_def)
    then have "card ?T \<le> card (?T - {r})" by (intro surj_card_le) auto
    moreover have "card (?T - {r}) < card ?T" using assms(3) by (intro card_Diff1_less) auto
    ultimately show False by simp
  qed
  then obtain p where p: "find (\<lambda>p. \<not> occupied ! p) (temporaries c) = Some p" by blast
  then have "p \<in> ?T" "\<not> occupied ! p" by (auto simp: find_Some_iff)
  moreover from this have "\<forall>b\<in>matrix_rows ?w bits r. mapping ! b \<noteq> register_NONE \<longrightarrow> unat (mapping ! b) \<noteq> p"
    using occupied(2) [of p] near by (auto simp: matrix_rows_def temporaries_def)
  ultimately show ?thesis using p row(1) occupied(1) by (simp add: color_of_def)
qed

lemma coloring_step:
  assumes "graph (unat (register_count c)) (liveness_word_count c) (unat (local_register_count c)) bits"
    and "coloring c bits colored mapping high_water" "r \<in> set (temporaries c)" "\<not> keeps_place c r"
    and "p \<in> set (temporaries c)"
    and "\<forall>b\<in>matrix_rows (liveness_word_count c) bits r. mapping ! b \<noteq> register_NONE \<longrightarrow> unat (mapping ! b) \<noteq> p"
  shows "coloring c bits (insert r colored) (mapping[r := of_nat p]) (max high_water (of_nat p + 1))"
proof -
  let ?n = "unat (register_count c)" and ?w = "liveness_word_count c" and ?l = "unat (local_register_count c)"
  let ?p = "of_nat p :: register"
  note t = temporary_register [OF assms(5)]
  have r: "r < ?n" using assms(3) by (simp add: temporaries_def)
  have p: "unat ?p = p" "?p \<noteq> register_NONE" "?l \<le> p" "p < ?n" using t assms(5) by (auto simp: temporaries_def)
  have len: "length mapping = ?n" using assms(2) by (simp add: coloring_def)
  have up: "unat (?p + 1) = p + 1" using p(1,4) register_count_bound [of c] by (simp add: unat_plus_one)
  have "?p < ?p + 1" using up p(1) by (simp add: word_less_nat_alt)
  then have high: "high_water \<le> max high_water (?p + 1)" "?p < max high_water (?p + 1)"
    by (simp_all add: less_max_iff_disj)
  have sym: "a \<in> matrix_rows ?w bits b" if "b \<in> matrix_rows ?w bits a" "a < ?n" for a b
    using assms(1) that unfolding graph_def by blast
  have new: "mapping[r := ?p] ! k = (if k = r then ?p else mapping ! k)" for k
    using r len by (cases "k = r") auto
  have free: "mapping ! b \<noteq> ?p" if "b \<in> matrix_rows ?w bits r" "mapping ! b \<noteq> register_NONE" for b
    using assms(6) that p(1) by auto
  have irrefl: "r \<notin> matrix_rows ?w bits r" using assms(1) r unfolding graph_def by blast
  have "mapping[r := ?p] ! a \<noteq> mapping[r := ?p] ! b"
    if "a \<in> set (temporaries c)" "b \<in> matrix_rows ?w bits a"
      "mapping[r := ?p] ! a \<noteq> register_NONE" "mapping[r := ?p] ! b \<noteq> register_NONE" for a b
  proof -
    have "a < ?n" using that(1) by (simp add: temporaries_def)
    from sym [OF that(2) this] show ?thesis
      using that free [of b] free [of a] irrefl assms(2) unfolding new coloring_def
      by (auto split: if_splits)
  qed
  moreover have "max high_water (?p + 1) \<le> register_count c"
    using assms(2) up p(4) by (simp add: coloring_def) (simp add: word_le_nat_alt)
  moreover have "local_register_count c \<le> mapping[r := ?p] ! k \<and> mapping[r := ?p] ! k < max high_water (?p + 1)"
    if "k \<in> set (temporaries c)" "mapping[r := ?p] ! k \<noteq> register_NONE" for k
    using assms(2) that high p(1,3) unfolding new coloring_def
    by (auto simp: word_le_nat_alt split: if_splits intro: less_le_trans)
  moreover have "pinned_high_water (pinned_window_registers c) (local_register_count c) \<le> max high_water (?p + 1)"
    using assms(2) high(1) unfolding coloring_def by (meson order_trans)
  moreover have "mapping[r := ?p] ! k = of_nat k" if "k < ?n" "keeps_place c k" for k
    using assms(2,4) that unfolding new coloring_def by auto
  moreover have "\<forall>k\<in>insert r colored. mapping[r := ?p] ! k \<noteq> register_NONE"
    using assms(2) p(2) unfolding new coloring_def by auto
  ultimately show ?thesis using len unfolding coloring_def by simp
qed

lemma color_registers_spec:
  assumes "graph (unat (register_count c)) (liveness_word_count c) (unat (local_register_count c)) bits"
    and "coloring c bits colored mapping high_water"
    and "\<forall>r\<in>set rs. r \<in> set (temporaries c) \<and> \<not> keeps_place c r"
  shows "\<exists>mapping' high_water'. color_registers c (liveness_word_count c) bits rs mapping high_water =
      Some (Inr (mapping', high_water')) \<and> coloring c bits (colored \<union> set rs) mapping' high_water'"
  using assms(2,3)
proof (induction rs arbitrary: colored mapping high_water)
  case (Cons r rs)
  obtain p where p: "color_of c (liveness_word_count c) bits mapping r = Inr (Some p)" "p \<in> set (temporaries c)"
    "\<forall>b\<in>matrix_rows (liveness_word_count c) bits r. mapping ! b \<noteq> register_NONE \<longrightarrow> unat (mapping ! b) \<noteq> p"
    using color_of_spec [OF assms(1) Cons.prems(1)] Cons.prems(2) by (metis list.set_intros(1))
  have "coloring c bits (insert r colored) (mapping[r := of_nat p]) (max high_water (of_nat p + 1))"
    using coloring_step [OF assms(1) Cons.prems(1) _ _ p(2,3)] Cons.prems(2) by simp
  from Cons.IH [OF this] Cons.prems(2) p(1) show ?case by auto
qed auto

lemma fixed_mapping_free:
  assumes "fixed_mapping c (pinned_window_registers c) = Inr mapping" "local_register_count c \<le> register_count c"
    and "k < unat (register_count c)" "\<not> keeps_place c k"
  shows "mapping ! k = register_NONE"
proof -
  have "k < length (map of_nat [0..<unat (local_register_count c)] @
      replicate (unat (register_count c) - unat (local_register_count c)) register_NONE)"
    using assms(2,3) by (simp add: word_le_nat_alt)
  with place_pinned_spec [OF assms(1) [unfolded fixed_mapping_def]] assms(3,4) show ?thesis
    by (auto simp: keeps_place_def nth_append)
qed

lemma kept_below_pinned:
  assumes "verify xxh3 c = Inr ()" "k \<in> set (temporaries c)" "keeps_place c k"
  shows "local_register_count c \<le> of_nat k"
    "of_nat k < pinned_high_water (pinned_window_registers c) (local_register_count c)"
proof -
  note t = temporary_register [OF assms(2)]
  show "local_register_count c \<le> of_nat k" using t(1) assms(2) by (simp add: word_le_nat_alt temporaries_def)
  have "\<forall>r\<in>set (pinned_window_registers c). unat r < 0xFFFF"
    using verified_pinned [OF assms(1)] register_count_bound [of c] by fastforce
  moreover have "of_nat k \<in> set (pinned_window_registers c)"
    using assms(2,3) by (simp add: keeps_place_def temporaries_def)
  ultimately show "of_nat k < pinned_high_water (pinned_window_registers c) (local_register_count c)"
    by (intro pinned_high_water_above(2))
qed

lemma coloring_start:
  assumes "verify xxh3 c = Inr ()" "fixed_mapping c (pinned_window_registers c) = Inr mapping"
    and "graph (unat (register_count c)) (liveness_word_count c) (unat (local_register_count c)) bits"
    and "pinned_high_water (pinned_window_registers c) (local_register_count c) \<le> register_count c"
  shows "coloring c bits {k \<in> set (temporaries c). keeps_place c k} mapping
    (pinned_high_water (pinned_window_registers c) (local_register_count c))"
proof -
  let ?n = "unat (register_count c)"
  have local: "local_register_count c \<le> register_count c" using assms(1) by (simp add: verify_Inr)
  note fixed = fixed_mapping_spec [OF assms(2) local]
  have place: "mapping ! k = of_nat k" if "k < ?n" "keeps_place c k" for k
    using fixed(2) that by (simp add: keeps_place_def)
  have kept: "keeps_place c k" if "k < ?n" "mapping ! k \<noteq> register_NONE" for k
    using fixed_mapping_free [OF assms(2) local] that by blast
  have temp: "k < ?n" if "k \<in> set (temporaries c)" for k using that by (simp add: temporaries_def)
  have "local_register_count c \<le> mapping ! k \<and>
      mapping ! k < pinned_high_water (pinned_window_registers c) (local_register_count c)"
    if k: "k \<in> set (temporaries c)" "mapping ! k \<noteq> register_NONE" for k
    using kept_below_pinned [OF assms(1) k(1)] kept [OF temp [OF k(1)] k(2)] place [OF temp [OF k(1)]] by simp
  moreover have "mapping ! a \<noteq> mapping ! b"
    if ab: "a \<in> set (temporaries c)" "b \<in> matrix_rows (liveness_word_count c) bits a"
      "mapping ! a \<noteq> register_NONE" "mapping ! b \<noteq> register_NONE" for a b
  proof -
    have "b < ?n \<and> b \<noteq> a" using assms(3) temp [OF ab(1)] ab(2) unfolding graph_def by blast
    then show ?thesis
      using place kept temp [OF ab(1)] ab(3,4) unat_register [of a c] unat_register [of b c] by metis
  qed
  moreover have "mapping ! k \<noteq> register_NONE" if "k \<in> set (temporaries c)" "keeps_place c k" for k
    using place [OF temp [OF that(1)] that(2)] temporary_register(2) [OF that(1)] by simp
  ultimately show ?thesis using fixed(1) place assms(4) unfolding coloring_def by auto
qed

text \<open>The colouring of a chunk, over any rows that were computed for it.\<close>

lemma color_chunk_spec:
  assumes "live_good (xxh3, c, accesses)" "length live_in = length (code c) * liveness_word_count c"
    and "sorts_registers sort_registers"
    and "pinned_high_water (pinned_window_registers c) (local_register_count c) \<le> register_count c"
  shows "\<exists>mapping high_water bits. color_chunk sort_registers c accesses live_in = Some (Inr (mapping, high_water)) \<and>
    coloring c bits (set (temporaries c)) mapping high_water \<and>
    (\<forall>(a, b)\<in>conflicts c (matrix_rows (liveness_word_count c) live_in) [0..<length (code c)].
       a \<noteq> b \<longrightarrow> a \<in> set (temporaries c) \<longrightarrow> b \<in> matrix_rows (liveness_word_count c) bits a)"
proof -
  let ?n = "unat (register_count c)" and ?w = "liveness_word_count c" and ?l = "unat (local_register_count c)"
  let ?pinned = "pinned_window_registers c"
  have verified: "verify xxh3 c = Inr ()" using assms(1) by (simp add: live_good_def)
  have local: "local_register_count c \<le> register_count c" using verified by (simp add: verify_Inr)
  have "adds_edges ?n ?w ?l (conflicts c (matrix_rows ?w live_in) [0..<length (code c)]) (replicate (?n * ?w) 0)
      (interferences c accesses ?w live_in [0..<length (code c)] (replicate (?n * ?w) 0))"
    by (rule interferences_adds [OF assms(1,2) empty_graph]) simp
  then obtain bits where bits: "interferences c accesses ?w live_in [0..<length (code c)] (replicate (?n * ?w) 0) = Inr bits"
    "graph ?n ?w ?l bits" "\<And>a b. (a, b) \<in> conflicts c (matrix_rows ?w live_in) [0..<length (code c)] \<Longrightarrow>
       a \<noteq> b \<Longrightarrow> ?l \<le> a \<Longrightarrow> ?l \<le> b \<Longrightarrow> b \<in> matrix_rows ?w bits a"
    unfolding adds_edges_def by blast
  obtain mapping where mapping: "fixed_mapping c ?pinned = Inr mapping"
    using place_pinned_returns [of ?pinned] verified_pinned [OF verified] local
    by (fastforce simp: fixed_mapping_def word_le_nat_alt)
  let ?order = "recolor_order sort_registers c ?pinned ?w bits"
  have "mset ?order = mset (filter (\<lambda>r. of_nat r \<notin> set ?pinned) (temporaries c))"
    using assms(3) by (simp add: recolor_order_def sorts_registers_def)
  then have order: "set ?order = {r \<in> set (temporaries c). \<not> keeps_place c r}"
    using mset_eq_setD by (fastforce simp: keeps_place_def temporaries_def)
  obtain mapping' high_water' where final: "color_registers c ?w bits ?order mapping
      (pinned_high_water ?pinned (local_register_count c)) = Some (Inr (mapping', high_water'))"
    "coloring c bits ({k \<in> set (temporaries c). keeps_place c k} \<union> set ?order) mapping' high_water'"
    using color_registers_spec [OF bits(2) coloring_start [OF verified mapping bits(2) assms(4)]] order by blast
  have "{k \<in> set (temporaries c). keeps_place c k} \<union> set ?order = set (temporaries c)" using order by blast
  moreover have "color_chunk sort_registers c accesses live_in = Some (Inr (mapping', high_water'))"
    using bits(1) mapping final(1) by (simp add: color_chunk_def Let_def)
  moreover have "b \<in> matrix_rows ?w bits a"
    if "(a, b) \<in> conflicts c (matrix_rows ?w live_in) [0..<length (code c)]" "a \<noteq> b" "a \<in> set (temporaries c)" for a b
    using bits(3) [OF that(1,2)] that by (auto simp: conflicts_def temporaries_def)
  ultimately show ?thesis using final(2) by (intro exI [of _ mapping'] exI [of _ high_water'] exI [of _ bits]) auto
qed

section \<open>The pass keeps every run\<close>

lemma colored_below:
  assumes "verify xxh3 c = Inr ()" "coloring c bits (set (temporaries c)) mapping high_water"
    and "k < unat (register_count c)"
  shows "mapping ! k < high_water" "k < unat (local_register_count c) \<Longrightarrow> mapping ! k = of_nat k"
    "k \<in> set (temporaries c) \<Longrightarrow> local_register_count c \<le> mapping ! k" "mapping ! k \<noteq> register_NONE"
proof -
  have high: "pinned_high_water (pinned_window_registers c) (local_register_count c) \<le> high_water"
    "high_water \<le> register_count c" using assms(2) by (auto simp: coloring_def)
  then have local: "local_register_count c \<le> high_water" by (auto simp: pinned_high_water_def)
  show place: "mapping ! k = of_nat k" if "k < unat (local_register_count c)"
    using assms(2,3) that by (auto simp: coloring_def keeps_place_def)
  have temp: "local_register_count c \<le> mapping ! k \<and> mapping ! k < high_water" if "k \<in> set (temporaries c)"
    using assms(2) that by (auto simp: coloring_def)
  show "local_register_count c \<le> mapping ! k" if "k \<in> set (temporaries c)" using temp [OF that] ..
  show below: "mapping ! k < high_water"
  proof (cases "k \<in> set (temporaries c)")
    case False
    then have "k < unat (local_register_count c)" using assms(3) by (simp add: temporaries_def)
    moreover from this have "of_nat k < local_register_count c"
      using unat_register [OF assms(3)] by (simp add: word_less_nat_alt)
    ultimately show ?thesis using place local by (metis less_le_trans)
  qed (use temp in blast)
  show "mapping ! k \<noteq> register_NONE"
    using below high(2) register_count_bound [of c] by (auto simp: register_NONE_def word_less_nat_alt word_le_nat_alt)
qed

text \<open>What the analysis finds is what a renaming has to respect.\<close>

lemma unat_image_iff [simp]: "unat r \<in> unat ` A \<longleftrightarrow> r \<in> A"
  for r :: "'a::len word"
  by (metis image_iff word_unat_eq_iff)

lemma solution_needs_hold:
  assumes "\<And>i. i < length (code c) \<Longrightarrow> rows i = live_before c i rows"
  shows "needs_hold c (\<lambda>r i. i < length (code c) \<and> unat r \<in> rows i)"
  unfolding needs_hold_def
proof (intro allI impI ballI conjI)
  fix i assume i: "i < length (code c)"
  show "i < length (code c)" "i < length (code c)" by (rule i)+
  note here = assms [OF i, unfolded live_before_def]
  show "unat r \<in> rows i" if "r \<in> set (read_list (code c ! i))" for r
    by (subst here) (use that in auto)
  show "unat r \<in> rows i" if "successors c i = Inr edges" "j \<in> set edges"
    "j < length (code c) \<and> unat r \<in> rows j" "r \<notin> set (write_list (code c ! i))" for edges j r
    by (subst here) (use that in \<open>auto simp: live_after_def\<close>)
qed

lemma colored_writes_apart:
  assumes "verify xxh3 c = Inr ()" "no_empty_tuple_patterns c"
    and "coloring c bits (set (temporaries c)) mapping high_water"
    and "\<forall>(a, b)\<in>conflicts c rows [0..<length (code c)].
       a \<noteq> b \<longrightarrow> a \<in> set (temporaries c) \<longrightarrow> b \<in> matrix_rows (liveness_word_count c) bits a"
    and "\<forall>i<length (code c). rows i \<subseteq> {..<unat (register_count c)}"
  shows "writes_apart c (\<lambda>r i. i < length (code c) \<and> unat r \<in> rows i) mapping"
  unfolding writes_apart_def
proof (intro allI impI ballI)
  fix i edges j r xs ys d
  assume i: "i < length (code c)" and edges: "successors c i = Inr edges" "j \<in> set edges"
    and r: "j < length (code c) \<and> unat r \<in> rows j" and ws: "write_list (code c ! i) = xs @ ys" "r \<notin> set ys"
    and d: "d \<in> set ys"
  let ?n = "unat (register_count c)" and ?l = "unat (local_register_count c)"
  have w: "d \<in> set (write_list (code c ! i))" using ws(1) d by simp
  have n: "unat d < ?n" "unat r < ?n" using verified_touched [OF assms(1,2) i] w r assms(5) by auto
  have ne: "unat d \<noteq> unat r" using ws(2) d by (metis word_unat_eq_iff)
  note below = colored_below [OF assms(1,3)]
  have temp: "k \<in> set (temporaries c)" if "k < ?n" "\<not> k < ?l" for k using that by (simp add: temporaries_def)
  have mixed: "mapping ! a \<noteq> mapping ! b" if "a < ?l" "\<not> b < ?l" "a < ?n" "b < ?n" for a b
  proof -
    have "unat (mapping ! a) < ?l" using below(2) [OF that(3,1)] that(1) unat_register [OF that(3)] by simp
    moreover have "?l \<le> unat (mapping ! b)"
      using below(3) [OF that(4) temp [OF that(4,2)]] by (simp add: word_le_nat_alt)
    ultimately show ?thesis by auto
  qed
  show "mapping ! unat d \<noteq> mapping ! unat r"
  proof (cases "unat d < ?l \<or> unat r < ?l")
    case True
    then show ?thesis
      using mixed [of "unat d" "unat r"] mixed [of "unat r" "unat d"] n below(2) [OF n(1)] below(2) [OF n(2)] ne
      by (cases "unat d < ?l"; cases "unat r < ?l") auto
  next
    case False
    then have t: "unat d \<in> set (temporaries c)" "unat r \<in> set (temporaries c)" using temp n by auto
    have "(unat d, unat r) \<in> conflicts c rows [0..<length (code c)]"
      unfolding conflicts_def
    proof (intro CollectI exI conjI)
      show "unat r \<in> live_after c i rows" using edges r unfolding live_after_def by blast
    qed (use i w t(2) in simp_all)
    then have near: "unat r \<in> matrix_rows (liveness_word_count c) bits (unat d)" using assms(4) ne t(1) by auto
    have "\<forall>a\<in>set (temporaries c). \<forall>b\<in>matrix_rows (liveness_word_count c) bits a.
        mapping ! a \<noteq> register_NONE \<longrightarrow> mapping ! b \<noteq> register_NONE \<longrightarrow> mapping ! a \<noteq> mapping ! b"
      using assms(3) by (simp add: coloring_def)
    with near t(1) below(4) [OF n(1)] below(4) [OF n(2)] show ?thesis by blast
  qed
qed

lemma colored_mapping_fits:
  assumes "verify xxh3 c = Inr ()" "no_empty_tuple_patterns c" "classified c"
    and "list_all (\<lambda>ins. \<not> tuple_window ins) (code c)" "coloring c bits (set (temporaries c)) mapping high_water"
  shows "mapping_fits c mapping" "\<forall>ins\<in>set (code c). \<forall>k\<in>touched ins. mapping ! k < high_water"
proof -
  note below = colored_below [OF assms(1,5)]
  have frame: "k < unat (register_count c)" if k: "ins \<in> set (code c)" "k \<in> touched ins" for ins k
  proof -
    obtain i where i: "i < length (code c)" "code c ! i = ins" using k(1) by (auto simp: in_set_conv_nth)
    then show ?thesis
      using touched_in_frame [OF verified_plain_code [OF assms(1,2) k(1)] k(2)] verified_registers [OF assms(1) i(1)]
      by auto
  qed
  show "\<forall>ins\<in>set (code c). \<forall>k\<in>touched ins. mapping ! k < high_water" using below(1) frame by blast
  have len: "length mapping = unat (register_count c)" using assms(5) by (simp add: coloring_def)
  have "mapping ! unat r = r" if "ins \<in> set (code c)" "r \<in> set (pinned_by ins)" for ins r
  proof -
    have p: "r \<in> set (pinned_window_registers c)" using that by (auto simp: pinned_window_registers_def)
    then show ?thesis
      using assms(5) verified_pinned [OF assms(1) p] by (auto simp: coloring_def keeps_place_def)
  qed
  moreover have "operands ins \<noteq> None \<and> \<not> tuple_window ins" if "ins \<in> set (code c)" for ins
    using assms(3,4) that by (auto simp: classified_def list_all_iff)
  ultimately show "mapping_fits c mapping" using frame len below(4) unfolding mapping_fits_def by auto
qed

text \<open>C10. Recolouring keeps every run of a verified chunk. The loop of the liveness analysis ends, a free
  register is found for every temporary, and the code after the pass executes the same instructions with
  the same values read, in a frame that holds all its registers and is smaller by what the pass reports. The
  assumptions: no pattern over a tuple of no or several registers, and no temporary live at the entry.\<close>

theorem recolor_keeps_runs:
  assumes "verify xxh3 c = Inr ()" "no_empty_tuple_patterns c" "list_all (\<lambda>ins. \<not> tuple_window ins) (code c)"
    and "sorts_registers sort_registers" "\<forall>k\<in>set (temporaries c). \<not> live c [] (of_nat k) 0" "behaves b c"
  shows "\<exists>c' removed. recolor_interference_graph sort_registers c = Some (Inr (c', removed)) \<and>
    unat (register_count c') + removed = unat (register_count c) \<and>
    (\<forall>ins\<in>set (code c'). touched ins \<subseteq> {..<unat (register_count c')}) \<and>
    run_of b (code c') n 0 regs = run_of b (code c) n 0 regs"
proof -
  let ?w = "liveness_word_count c" and ?high = "pinned_high_water (pinned_window_registers c) (local_register_count c)"
  have same: "\<forall>ins\<in>set (code c). touched ins \<subseteq> {..<unat (register_count c)}"
    by (rule verified_code_touched [OF assms(1,2)])
  show ?thesis
  proof (cases "register_count c \<le> local_register_count c \<or> catch_table c \<noteq> [] \<or> register_count c \<le> ?high \<or>
      code_accesses (code c) = None")
    case True
    then have "recolor_interference_graph sort_registers c = Some (Inr (c, 0))"
      by (auto simp: recolor_interference_graph_def)
    then show ?thesis using same by auto
  next
    case False
    then obtain accesses where accesses: "code_accesses (code c) = Some accesses" by blast
    have guard: "catch_table c = []" "?high \<le> register_count c" using False by auto
    have classified: "classified c" using code_accesses_spec(2) [OF accesses] by (auto simp: classified_def list_all_iff)
    obtain bits where bits: "live_loop c accesses ?w (replicate (length (code c) * ?w) 0) = Some (Inr bits)"
      "length bits = length (code c) * ?w"
      "\<And>i. i < length (code c) \<Longrightarrow> matrix_rows ?w bits i = live_before c i (matrix_rows ?w bits)"
      "\<And>i. i < length (code c) \<Longrightarrow> matrix_rows ?w bits i \<subseteq> {k. k < unat (register_count c) \<and> live c [] (of_nat k) i}"
      using live_loop_solution [OF assms(1,2) guard(1) accesses] by blast
    have good: "live_good (xxh3, c, accesses)" using assms(1,2) guard(1) accesses by (simp add: live_good_def)
    obtain mapping high_water graph_bits where coloring:
      "color_chunk sort_registers c accesses bits = Some (Inr (mapping, high_water))"
      "coloring c graph_bits (set (temporaries c)) mapping high_water"
      "\<forall>(a, b)\<in>conflicts c (matrix_rows ?w bits) [0..<length (code c)].
         a \<noteq> b \<longrightarrow> a \<in> set (temporaries c) \<longrightarrow> b \<in> matrix_rows ?w graph_bits a"
      using color_chunk_spec [OF good bits(2) assms(4) guard(2)] by blast
    note pass = False accesses bits(1) coloring(1)
    show ?thesis
    proof (cases "register_count c \<le> high_water")
      case True
      then have "recolor_interference_graph sort_registers c = Some (Inr (c, 0))"
        using pass by (auto simp: recolor_interference_graph_def)
      then show ?thesis using same by auto
    next
      case smaller: False
      note fits = colored_mapping_fits [OF assms(1,2) classified assms(3) coloring(2)]
      obtain c' where c': "apply_mapping mapping high_water c = Some (Inr (c', unat (register_count c - high_water)))"
        "code_renamed mapping c c'" "register_count c' = high_water"
        using apply_mapping_renames [OF assms(1,2) fits(1)] by blast
      have "regs (mapping ! unat r) = regs r" if r: "0 < length (code c) \<and> unat r \<in> matrix_rows ?w bits 0" for r
      proof -
        have k: "unat r < unat (register_count c)" "live c [] r 0" using subsetD [OF bits(4), of 0 "unat r"] r by auto
        then have "unat r \<notin> set (temporaries c)" using bspec [OF assms(5), of "unat r"] by auto
        then have "unat r < unat (local_register_count c)" using k(1) by (simp add: temporaries_def)
        then show ?thesis using colored_below(2) [OF assms(1) coloring(2) k(1)] by simp
      qed
      moreover have "writes_apart c (\<lambda>r i. i < length (code c) \<and> unat r \<in> matrix_rows ?w bits i) mapping"
        using bits(4) by (intro colored_writes_apart [OF assms(1,2) coloring(2,3)]) blast
      ultimately have "run_of b (code c') n 0 regs = run_of b (code c) n 0 regs"
        using run_renamed [OF c'(2) solution_needs_hold [OF bits(3)] _ assms(6)] by blast
      moreover have "recolor_interference_graph sort_registers c = Some (Inr (c', unat (register_count c - high_water)))"
        using pass smaller c'(1) by (auto simp: recolor_interference_graph_def)
      moreover have "unat high_water + unat (register_count c - high_water) = unat (register_count c)"
        using smaller by (simp add: unat_sub word_le_nat_alt)
      ultimately show ?thesis using renamed_in_frame [OF c'(2) fits(2)] c'(3) by auto
    qed
  qed
qed

definition sort_by_degree :: "(nat \<Rightarrow> nat) \<Rightarrow> nat list \<Rightarrow> nat list" where
  "sort_by_degree key rs = rev (sort_key key rs)"

lemma sorts_by_degree: "sorts_registers sort_by_degree"
proof -
  have "sorted_wrt (\<lambda>a b. key b \<le> key a) (rev (sort_key key rs))" for key :: "nat \<Rightarrow> nat" and rs
    using sorted_sort_key [of key rs] by (simp add: sorted_wrt_rev sorted_map)
  then show ?thesis by (simp add: sorts_registers_def sort_by_degree_def)
qed

theorem recolor_keeps_runs_witness:
  "\<exists>c'. recolor_interference_graph sort_by_degree spare_chunk = Some (Inr (c', 1)) \<and> register_count c' = 1 \<and>
     list_all (\<lambda>ins. touched ins \<subseteq> {..<1}) (code c') \<and>
     run_of spare_behaviour (code c') 4 0 (\<lambda>_. False) = [(0, []), (1, [True]), (2, []), (3, [True])]"
proof -
  have "temporaries spare_chunk = [0, 1]" by (simp add: temporaries_def upt_rec)
  then have "\<forall>k\<in>set (temporaries spare_chunk). \<not> live spare_chunk [] (of_nat k) 0"
    using spare_chunk_dead(1,2) by simp
  from recolor_keeps_runs [OF spare_chunk_verified spare_chunk_plain sorts_by_degree this spare_chunk_behaves,
    of 4 "\<lambda>_. False"]
  obtain c' removed where c': "recolor_interference_graph sort_by_degree spare_chunk = Some (Inr (c', removed))"
    "unat (register_count c') + removed = 2" "\<forall>ins\<in>set (code c'). touched ins \<subseteq> {..<unat (register_count c')}"
    "run_of spare_behaviour (code c') 4 0 (\<lambda>_. False) = run_of spare_behaviour (code spare_chunk) 4 0 (\<lambda>_. False)"
    by auto
  have "map_option (result_map snd) (recolor_interference_graph sort_by_degree spare_chunk) = Some (Inr 1)"
    by code_simp
  with c'(1) have removed: "removed = 1" by simp
  with c'(2) have one: "unat (register_count c') = 1" by simp
  then have "register_count c' = 1" by (simp add: word_unat_eq_iff)
  moreover have "run_of spare_behaviour (code spare_chunk) 4 0 (\<lambda>_. False) = [(0, []), (1, [True]), (2, []), (3, [True])]"
    by code_simp
  ultimately show ?thesis using c' one removed by (auto simp: list_all_iff)
qed

end
