(* ===== verification/Whim_Coalesce.thy ===== *)
theory Whim_Coalesce
  imports Whim_Reuse
begin

text \<open>
  Coalescing of call results (\<^verbatim>\<open>coalesce_single_argument_call_results\<close> in
  \<^verbatim>\<open>crates/optimizer/src/passes/reuse_temporaries/coloring.rs\<close>): a call with one argument returns into
  the register of that argument where the next instruction turns the result into a value of that register.
  The step over one call is shown to keep every run when the next instruction reads no window of registers
  and only falls through; a verified chunk shows what happens to a window.
\<close>

section \<open>The pass\<close>

definition single_argument_call :: "instruction \<Rightarrow> (register \<times> register) option" where
  "single_argument_call ins =
     (case ins of
        CallOp (CallNamedUnchecked argument_count destination first_argument _) \<Rightarrow>
          if argument_count = 1 then Some (destination, first_argument) else None
      | CallOp (CallSelfUnchecked argument_count destination first_argument) \<Rightarrow>
          if argument_count = 1 then Some (destination, first_argument) else None
      | _ \<Rightarrow> None)"

definition with_destination :: "register \<Rightarrow> instruction \<Rightarrow> instruction" where
  "with_destination argument ins =
     (case ins of
        CallOp (CallNamedUnchecked argument_count _ first_argument cache) \<Rightarrow>
          CallOp (CallNamedUnchecked argument_count argument first_argument cache)
      | CallOp (CallSelfUnchecked argument_count _ first_argument) \<Rightarrow>
          CallOp (CallSelfUnchecked argument_count argument first_argument)
      | _ \<Rightarrow> ins)"

definition has_operand :: "instruction \<Rightarrow> operand list \<Rightarrow> access \<Rightarrow> register \<Rightarrow> bool" where
  "has_operand ins ops a r \<longleftrightarrow> list_ex (\<lambda>(offset, a'). a' = a \<and> register_at ins offset = Some r) ops"

text \<open>Whether the next instruction can take the result from the register of the argument.\<close>

definition takes_result :: "instruction \<Rightarrow> register \<Rightarrow> register \<Rightarrow> operand list option" where
  "takes_result ins destination argument =
     (case operands ins of
        None \<Rightarrow> None
      | Some ops \<Rightarrow>
          if write_may_alias_inputs ins \<and> has_operand ins ops WriteAccess argument \<and>
             \<not> has_operand ins ops ReadAccess argument \<and> has_operand ins ops ReadAccess destination
          then Some ops else None)"

definition coalesce_call :: "nat set \<Rightarrow> nat \<Rightarrow> chunk \<Rightarrow> panic + chunk" where
  "coalesce_call targets index c =
     (if index + 1 \<in> targets then Inr c
      else case single_argument_call (code c ! index) of
        None \<Rightarrow> Inr c
      | Some (destination, argument) \<Rightarrow>
          if destination = argument then Inr c
          else result_bind (register_is_dead_after c destination (index + 2)) (\<lambda>dead.
            if \<not> dead then Inr c
            else result_bind (register_is_dead_after c argument (index + 1)) (\<lambda>dead.
              if \<not> dead then Inr c
              else case takes_result (code c ! (index + 1)) destination argument of
                None \<Rightarrow> Inr c
              | Some ops \<Rightarrow>
                  Inr (c\<lparr>code := (code c)[index := with_destination argument (code c ! index),
                    index + 1 := replace_reads ops destination argument (code c ! (index + 1))]\<rparr>))))"

fun coalesce_calls :: "nat set \<Rightarrow> nat list \<Rightarrow> chunk \<Rightarrow> panic + chunk" where
  "coalesce_calls targets [] c = Inr c"
| "coalesce_calls targets (index # indices) c =
     result_bind (coalesce_call targets index c) (coalesce_calls targets indices)"

definition coalesce_single_argument_call_results :: "chunk \<Rightarrow> panic + chunk" where
  "coalesce_single_argument_call_results c =
     (if length (code c) < 2 \<or> catch_table c \<noteq> [] then Inr c
      else result_bind (control_flow_targets c) (\<lambda>targets.
        coalesce_calls targets [0..<length (code c) - 1] c))"

section \<open>The two instructions\<close>

lemma single_argument_call_lists:
  assumes "single_argument_call ins = Some (d, a)" "d \<noteq> register_NONE" "a \<noteq> register_NONE"
  shows "read_list ins = [a]" "write_list ins = [d]" "\<not> branches_or_terminates ins"
    "read_list (with_destination a ins) = [a]" "write_list (with_destination a ins) = [a]"
    "erase (with_destination a ins) = erase ins"
  using assms
  by (auto simp: single_argument_call_def with_destination_def read_list_def write_list_def access_registers_def
      operands_def operand_register_def register_at_def instruction_layout_def calls_without_arguments_def
      implicit_range_def implicit_reads_def call_implicit_reads_def List.map_filter_simps erase_def map_registers_def
      branches_or_terminates_def Let_def split: instruction.splits call_instruction.splits if_splits)

lemma operand_register_map:
  assumes "\<And>r. operand_register ins n = Some r \<Longrightarrow> g n r \<noteq> register_NONE" "g n register_NONE = register_NONE"
  shows "operand_register (map_registers g ins) n = map_option (g n) (operand_register ins n)"
  using assms by (cases "register_at ins n") (auto simp: operand_register_def)

lemma implicit_reads_map_None:
  assumes "implicit_reads ins = None"
  shows "implicit_reads (map_registers g ins) = None"
proof (cases ins)
  case (ArrayOp i)
  then show ?thesis using assms
    by (cases i) (auto simp: implicit_reads_def array_implicit_reads_def map_registers_def split: if_splits)
next
  case (ArrayUpdate i)
  then show ?thesis using assms
    by (cases i) (auto simp: implicit_reads_def update_implicit_reads_def map_registers_def split: if_splits)
next
  case (Switch i)
  then show ?thesis using assms by (cases i) (auto simp: implicit_reads_def map_registers_def split: if_splits)
next
  case (ObjectOp i)
  then show ?thesis using assms
    by (cases i) (auto simp: implicit_reads_def object_implicit_reads_def map_registers_def split: if_splits)
next
  case (CallOp i)
  then show ?thesis using assms
    by (cases i) (auto simp: implicit_reads_def call_implicit_reads_def map_registers_def Let_def split: if_splits)
next
  case (CheckOp i)
  then show ?thesis using assms
    by (cases i) (auto simp: implicit_reads_def check_implicit_reads_def map_registers_def split: if_splits)
qed (simp_all add: implicit_reads_def map_registers_def)

text \<open>
  The instruction that takes the result: it reads the argument for the destination, and writes the argument
  last of all, whatever it does to the destination.
\<close>

lemma takes_resultD:
  assumes "takes_result ins d a = Some ops"
  shows "operands ins = Some ops" "write_may_alias_inputs ins"
    "\<exists>n. (n, WriteAccess) \<in> set ops \<and> register_at ins n = Some a"
    "(n, ReadAccess) \<in> set ops \<Longrightarrow> register_at ins n \<noteq> Some a"
    "\<exists>n. (n, ReadAccess) \<in> set ops \<and> register_at ins n = Some d"
  using assms
  by (auto simp: takes_result_def has_operand_def list_ex_iff split: option.splits if_splits)

lemma write_not_skipped:
  assumes "operands ins = Some ops" "(n, WriteAccess) \<in> set ops"
  shows "\<not> (n = 4 \<and> calls_without_arguments ins)"
  using assms by (auto simp: calls_without_arguments_def operands_def split: instruction.splits call_instruction.splits)

lemma takes_result_write:
  assumes "takes_result ins d a = Some ops" "a \<noteq> register_NONE"
  shows "write_list ins = [a] \<or> ins = Load (MoveOwned a d)"
proof -
  note D = takes_resultD [OF assms(1)]
  obtain n where "(n, WriteAccess) \<in> set ops" "operand_register ins n = Some a"
    using D(3) write_not_skipped [OF D(1)] assms(2) by auto
  then have mem: "a \<in> set (write_list ins)" using D(1) unfolding write_list_def access_registers_iff by blast
  consider "length (filter (\<lambda>p. snd p = WriteAccess) ops) \<le> 1" | x s where "ins = Load (MoveOwned x s)"
    using write_count [OF D(1)] D(2) by blast
  then show ?thesis
  proof cases
    case 1
    have "length (write_list ins) \<le> length (filter (\<lambda>p. snd p = WriteAccess) ops)"
      using D(1) by (auto simp: write_list_def access_registers_def intro!: length_map_filter split: if_splits)
    then have "length (write_list ins) \<le> 1" using 1 by simp
    with mem show ?thesis by (cases "write_list ins") auto
  next
    case 2
    then have ops: "ops = [R3, W3, W1]" using D(1) by (simp add: operands_def)
    have "s \<noteq> a" using D(4) [of 3] by (auto simp: ops 2 register_at_def instruction_layout_def)
    then show ?thesis
      using D(3,5) by (auto simp: ops 2 register_at_def instruction_layout_def simp del: One_nat_def)
  qed
qed

lemma replaced_lists:
  assumes "takes_result ins d a = Some ops" "d \<noteq> register_NONE" "a \<noteq> register_NONE" "implicit_reads ins = None"
  shows "read_list (replace_reads ops d a ins) = map (\<lambda>r. if r = d then a else r) (read_list ins)"
    "erase (replace_reads ops d a ins) = erase ins"
    "write_list ins = [a] \<Longrightarrow> d \<noteq> a \<Longrightarrow> write_list (replace_reads ops d a ins) = [a]"
proof -
  let ?g = "\<lambda>n r. if (n, ReadAccess) \<in> set ops \<and> r = d then a else r"
  note D = takes_resultD [OF assms(1)]
  have ins': "replace_reads ops d a ins = map_registers ?g ins" by (rule replace_reads_map)
  have ops: "operands (map_registers ?g ins) = Some ops" using D(1) by simp
  have reg: "operand_register (map_registers ?g ins) n = map_option (?g n) (operand_register ins n)" for n
    using assms(2,3) by (intro operand_register_map) auto
  have "implicit_range (map_registers ?g ins) = []" "implicit_range ins = []"
    using implicit_reads_map_None [OF assms(4)] assms(4) by (simp_all add: implicit_range_def)
  moreover have "access_registers ReadAccess (map_registers ?g ins) =
      map (\<lambda>r. if r = d then a else r) (access_registers ReadAccess ins)"
    unfolding access_registers_def using D(1) ops reg
    by (auto intro!: map_filter_map simp del: operand_register_Some cong: option.map_cong split: option.splits)
  ultimately show "read_list (replace_reads ops d a ins) = map (\<lambda>r. if r = d then a else r) (read_list ins)"
    by (simp add: ins' read_list_def)
  show "erase (replace_reads ops d a ins) = erase ins" by (simp add: ins')
  assume w: "write_list ins = [a]" "d \<noteq> a"
  have "operand_register (map_registers ?g ins) n = operand_register ins n" if n: "(n, WriteAccess) \<in> set ops" for n
  proof (cases "operand_register ins n")
    case (Some r)
    then have "r \<in> set (write_list ins)" using n D(1) unfolding write_list_def access_registers_iff by blast
    then show ?thesis using w unfolding reg Some by simp
  qed (simp add: reg)
  then have "write_list (map_registers ?g ins) = map (\<lambda>r. r) (write_list ins)"
    unfolding write_list_def access_registers_def option.case D(1) ops
    by (intro map_filter_map) (auto simp: option.map_ident simp del: operand_register_Some)
  then show "write_list (replace_reads ops d a ins) = [a]" using w by (simp add: ins')
qed

section \<open>One step keeps every run\<close>

text \<open>Control comes to the instruction behind a call only from the call, where no branch leads there.\<close>

lemma entered_from_call:
  assumes "verify xxh3 c = Inr ()" "control_flow_targets c = Inr targets" "index + 1 \<notin> targets"
    and "single_argument_call (code c ! index) = Some (d, a)" "index < length (code c)"
    and "i < length (code c)" "successors c i = Inr edges" "index + 1 \<in> set edges"
  shows "i = index"
proof -
  obtain ts where ts: "instruction_targets c i (code c ! i) = Inr ts" "set ts \<subseteq> targets"
    using verified_targets_computed [OF assms(1)] assms(2,6) by fastforce
  have "is_foreach_next (code c ! i) \<Longrightarrow> i + 1 = index \<Longrightarrow> False"
  proof -
    assume next_step: "is_foreach_next (code c ! i)" "i + 1 = index"
    have "\<not> is_jump (code c ! index)" "\<not> is_drain_finalizers (code c ! index)"
      using assms(4) by (auto simp: single_argument_call_def is_jump_def is_drain_finalizers_def split: instruction.splits)
    moreover have "verify_foreach_next c (of_nat i) = Inr ()"
      using verified_instruction(1) [OF assms(1,6)] next_step(1)
      by (auto simp: is_foreach_next_def verify_instruction_def verify_update_def split: instruction.splits update_instruction.splits)
    moreover have "unat (of_nat i :: u32) = i" using verified_instruction(2) [OF assms(1,6)] by (simp add: unat_of_nat take_bit_nat_eq_self)
    ultimately show False
      using next_step(2) assms(5) by (auto simp: verify_foreach_next_def list_get_def check_def split: if_splits)
  qed
  then show ?thesis
    using assms(3,6-8) ts by (auto simp: successors_def index_of_def split: if_splits)
qed

text \<open>
  The states of the two runs: what is live is the same, except that between the call and the next
  instruction the result is in the other register.
\<close>

definition coalesced_state ::
  "chunk \<Rightarrow> nat \<Rightarrow> register \<Rightarrow> register \<Rightarrow> nat \<Rightarrow> (register \<Rightarrow> 'v) \<Rightarrow> (register \<Rightarrow> 'v) \<Rightarrow> bool" where
  "coalesced_state c index d a i regs regs' \<longleftrightarrow>
     (\<forall>r. live c [] r i \<and> r \<noteq> register_NONE \<longrightarrow> \<not> (i = index + 1 \<and> r = d) \<longrightarrow> regs' r = regs r) \<and>
     (i = index + 1 \<longrightarrow> regs' a = regs d)"

text \<open>What the result is taken by: the values read, and the state behind it.\<close>

lemma taken_reads:
  assumes "takes_result ins d a = Some ops" "d \<noteq> register_NONE" "a \<noteq> register_NONE" "implicit_reads ins = None"
    and "regs' a = regs d" "\<forall>r\<in>set (read_list ins). r \<noteq> d \<longrightarrow> regs' r = regs r"
  shows "map regs' (read_list (replace_reads ops d a ins)) = map regs (read_list ins)"
  using replaced_lists(1) [OF assms(1-4)] assms(5,6) by auto

lemma move_owned_writes: "x \<noteq> register_NONE \<Longrightarrow> s \<noteq> register_NONE \<Longrightarrow> write_list (Load (MoveOwned x s)) = [s, x]"
  by (simp add: write_list_def access_registers_def operands_def operand_register_def register_at_def
      instruction_layout_def calls_without_arguments_def List.map_filter_simps del: One_nat_def)

lemma taken_write_set:
  assumes "takes_result ins d a = Some ops" "d \<noteq> register_NONE" "a \<noteq> register_NONE"
  shows "set (write_list ins) \<subseteq> {a, d}"
  using takes_result_write [OF assms(1,3)] move_owned_writes [OF assms(3,2)] by auto

lemma taken_writes:
  assumes "takes_result ins d a = Some ops" "d \<noteq> register_NONE" "a \<noteq> register_NONE" "implicit_reads ins = None" "d \<noteq> a"
    and "length outs = length (write_list ins)" "r \<noteq> d" "r \<noteq> a \<Longrightarrow> regs' r = regs r"
  shows "write_values (write_list (replace_reads ops d a ins)) outs regs' r = write_values (write_list ins) outs regs r"
proof (cases "write_list ins = [a]")
  case True
  then show ?thesis
    using replaced_lists(3) [OF assms(1-4) True assms(5)] assms(6,8) by (auto intro!: write_values_same)
next
  case False
  then have ins: "ins = Load (MoveOwned a d)" using takes_result_write [OF assms(1,3)] by blast
  have "ops = [R3, W3, W1]" using takes_resultD(1) [OF assms(1)] by (simp add: ins operands_def)
  then have "replace_reads ops d a ins = Load (MoveOwned a a)"
    using assms(5) by (simp add: replace_reads_map ins map_registers_def del: One_nat_def)
  then have "write_list ins = [d, a]" "write_list (replace_reads ops d a ins) = [a, a]"
    using assms(2,3) by (simp_all add: ins move_owned_writes)
  moreover from this obtain u v where "outs = [u, v]" using assms(6) by (auto simp: length_Suc_conv)
  ultimately show ?thesis using assms(7,8) by (simp add: write_values_def)
qed

text \<open>The situation in which the pass rewrites a call, and the code it makes.\<close>

definition coalesces :: "(string \<Rightarrow> u64) \<Rightarrow> chunk \<Rightarrow> nat \<Rightarrow> register \<Rightarrow> register \<Rightarrow> operand list \<Rightarrow> bool" where
  "coalesces xxh3 c index d a ops \<longleftrightarrow>
     verify xxh3 c = Inr () \<and> no_empty_tuple_patterns c \<and> classified c \<and>
     (\<exists>targets. control_flow_targets c = Inr targets \<and> index + 1 \<notin> targets) \<and> index + 1 < length (code c) \<and>
     single_argument_call (code c ! index) = Some (d, a) \<and> d \<noteq> a \<and> d \<noteq> register_NONE \<and> a \<noteq> register_NONE \<and>
     \<not> live c [] d (index + 2) \<and> \<not> live c [] a (index + 1) \<and>
     takes_result (code c ! (index + 1)) d a = Some ops \<and>
     implicit_reads (code c ! (index + 1)) = None \<and> \<not> branches_or_terminates (code c ! (index + 1))"

definition coalesced_code :: "chunk \<Rightarrow> nat \<Rightarrow> register \<Rightarrow> register \<Rightarrow> operand list \<Rightarrow> instruction list" where
  "coalesced_code c index d a ops = (code c)[index := with_destination a (code c ! index),
     index + 1 := replace_reads ops d a (code c ! (index + 1))]"

lemma coalescesD:
  assumes "coalesces xxh3 c index d a ops"
  shows "needs_hold c (\<lambda>r i. live c [] r i \<and> r \<noteq> register_NONE)"
    "takes_result (code c ! (index + 1)) d a = Some ops" "d \<noteq> register_NONE" "a \<noteq> register_NONE"
    "implicit_reads (code c ! (index + 1)) = None" "d \<noteq> a"
    "single_argument_call (code c ! index) = Some (d, a)"
    "\<not> branches_or_terminates (code c ! (index + 1))"
    "\<not> live c [] d (index + 2)" "\<not> live c [] a (index + 1)"
  using assms live_needs_hold unfolding coalesces_def by blast+

lemma coalesced_nth:
  assumes "coalesces xxh3 c index d a ops"
  shows "coalesced_code c index d a ops ! i =
    (if i = index then with_destination a (code c ! index)
     else if i = index + 1 then replace_reads ops d a (code c ! (index + 1)) else code c ! i)"
  using assms by (auto simp: coalesced_code_def coalesces_def nth_list_update)

lemma coalesced_reads:
  assumes "coalesces xxh3 c index d a ops" "i < length (code c)" "coalesced_state c index d a i regs regs'"
  shows "map regs' (read_list (coalesced_code c index d a ops ! i)) = map regs (read_list (code c ! i))"
    "erase (coalesced_code c index d a ops ! i) = erase (code c ! i)"
proof -
  note D = coalescesD [OF assms(1)]
  note call = single_argument_call_lists [OF D(7,3,4)]
  show "erase (coalesced_code c index d a ops ! i) = erase (code c ! i)"
    using call(6) replaced_lists(2) [OF D(2-5)] by (simp add: coalesced_nth [OF assms(1)])
  have same: "regs' r = regs r" if r: "r \<in> set (read_list (code c ! i))" "\<not> (i = index + 1 \<and> r = d)" for r
  proof -
    have "live c [] r i \<and> r \<noteq> register_NONE" using D(1) assms(2) r(1) unfolding needs_hold_def by blast
    then show ?thesis using assms(3) r(2) unfolding coalesced_state_def by blast
  qed
  show "map regs' (read_list (coalesced_code c index d a ops ! i)) = map regs (read_list (code c ! i))"
  proof (cases "i = index + 1")
    case True
    have "regs' a = regs d" using assms(3) True unfolding coalesced_state_def by blast
    moreover have "\<forall>r\<in>set (read_list (code c ! (index + 1))). r \<noteq> d \<longrightarrow> regs' r = regs r" using same True by blast
    ultimately show ?thesis using taken_reads [OF D(2-5), of regs' regs] True by (simp add: coalesced_nth [OF assms(1)])
  next
    case False
    then have "read_list (coalesced_code c index d a ops ! i) = read_list (code c ! i)"
      using call(1,4) by (simp add: coalesced_nth [OF assms(1)])
    then show ?thesis using same False by simp
  qed
qed

lemma coalesced_step:
  assumes "coalesces xxh3 c index d a ops" "i < length (code c)" "coalesced_state c index d a i regs regs'"
    and "successors c i = Inr edges" "j \<in> set edges" "length outs = length (write_list (code c ! i))"
  shows "coalesced_state c index d a j (write_values (write_list (code c ! i)) outs regs)
    (write_values (write_list (coalesced_code c index d a ops ! i)) outs regs')"
proof -
  note D = coalescesD [OF assms(1)]
  note call = single_argument_call_lists [OF D(7,3,4)]
  let ?needed = "\<lambda>r i. live c [] r i \<and> r \<noteq> register_NONE" and ?ins = "code c ! i"
  have same: "regs' r = regs r" if "?needed r j" "r \<notin> set (write_list ?ins)" "\<not> (i = index + 1 \<and> r = d)" for r
  proof -
    have "?needed r i" using D(1) assms(2,4,5) that(1,2) unfolding needs_hold_def by blast
    then show ?thesis using assms(3) that(3) unfolding coalesced_state_def by blast
  qed
  consider "i = index" | "i = index + 1" | "i \<noteq> index" "i \<noteq> index + 1" by blast
  then show ?thesis
  proof cases
    case 1
    then have "j = index + 1" using assms(4,5) successors_straight [OF assms(2)] call(3) by auto
    moreover obtain v where "outs = [v]" using assms(6) call(2) 1 by (auto simp: length_Suc_conv)
    ultimately show ?thesis
      using same D(10) 1 call(2,5) by (auto simp: coalesced_state_def write_values_def coalesced_nth [OF assms(1)])
  next
    case 2
    then have j: "j = index + 2" using assms(4,5) successors_straight [OF assms(2)] D(8) by auto
    have "write_values (write_list (replace_reads ops d a ?ins)) outs regs' r = write_values (write_list ?ins) outs regs r"
      if r: "?needed r j" for r
    proof -
      have "r \<noteq> d" using r D(9) j by auto
      moreover from this have "regs' r = regs r" if "r \<noteq> a"
        using same [OF r] taken_write_set [OF D(2-4)] that 2 by blast
      ultimately show ?thesis using taken_writes [OF D(2-6), of outs r regs' regs] assms(6) 2 by simp
    qed
    then show ?thesis using j 2 by (simp add: coalesced_state_def coalesced_nth [OF assms(1)])
  next
    case 3
    then have "j \<noteq> index + 1"
      using assms(1) entered_from_call [of xxh3 c _ index d a i edges] assms(2,4,5) unfolding coalesces_def by force
    moreover have "write_values (write_list ?ins) outs regs' r = write_values (write_list ?ins) outs regs r"
      if r: "?needed r j" for r
      using same [OF r] 3 by (intro write_values_same [OF assms(6)]) blast
    ultimately show ?thesis using 3 by (simp add: coalesced_state_def coalesced_nth [OF assms(1)])
  qed
qed

lemma coalesced_run:
  assumes "coalesces xxh3 c index d a ops" "behaves b c" "coalesced_state c index d a i regs regs'"
  shows "run_of b (coalesced_code c index d a ops) n i regs' = run_of b (code c) n i regs"
  using assms(3)
proof (induction n arbitrary: i regs regs')
  case (Suc n)
  show ?case
  proof (cases "i < length (code c)")
    case i: True
    note reads = coalesced_reads [OF assms(1) i Suc.prems]
    obtain outs "next" where b: "b i (erase (code c ! i)) (map regs (read_list (code c ! i))) = (outs, next)" by fastforce
    have state: "coalesced_state c index d a j (write_values (write_list (code c ! i)) outs regs)
        (write_values (write_list (coalesced_code c index d a ops ! i)) outs regs')" if "next = Some j" for j
      using coalesced_step [OF assms(1) i Suc.prems] assms(2) i b that unfolding behaves_def by blast
    have "length (coalesced_code c index d a ops) = length (code c)" by (simp add: coalesced_code_def)
    then show ?thesis using b reads i Suc.IH [OF state] by (cases "next") simp_all
  qed (simp add: coalesced_code_def)
qed simp

lemma call_registers_verified:
  assumes "verify xxh3 c = Inr ()" "i < length (code c)" "single_argument_call (code c ! i) = Some (d, a)"
  shows "d \<noteq> register_NONE" "a \<noteq> register_NONE"
proof -
  have "unat d \<in> instruction_registers c (code c ! i)" "unat a \<in> instruction_registers c (code c ! i)"
    using assms(3)
    by (auto simp: single_argument_call_def instruction_registers_def call_registers_of_def window_def split: instruction.splits call_instruction.splits if_splits)
  then have "unat d < unat (register_count c)" "unat a < unat (register_count c)"
    using verified_registers [OF assms(1,2)] by auto
  then show "d \<noteq> register_NONE" "a \<noteq> register_NONE"
    using register_count_bound [of c] by (auto simp: register_NONE_def)
qed

section \<open>Properties\<close>

text \<open>C11. The step of the pass over one call of a verified chunk returns, changes at most the call and the
  instruction behind it, and keeps every run, whatever the instructions do with the values they read. The
  instruction behind the call must read no window of registers and only fall through, and every
  instruction of the chunk must have its operands in the table; the chunk has no empty tuple pattern.\<close>

theorem coalesce_call_keeps_runs:
  assumes "verify xxh3 c = Inr ()" "no_empty_tuple_patterns c" "classified c" "behaves b c"
    and "control_flow_targets c = Inr targets" "index + 1 < length (code c)"
    and "implicit_reads (code c ! (index + 1)) = None" "\<not> branches_or_terminates (code c ! (index + 1))"
  shows "\<exists>c'. coalesce_call targets index c = Inr c' \<and>
    (\<forall>i. i \<noteq> index \<longrightarrow> i \<noteq> index + 1 \<longrightarrow> code c' ! i = code c ! i) \<and> register_count c' = register_count c \<and>
    run_of b (code c') n 0 regs = run_of b (code c) n 0 regs"
proof (cases "coalesce_call targets index c = Inr c")
  case False
  then obtain d a where call: "index + 1 \<notin> targets" "single_argument_call (code c ! index) = Some (d, a)" "d \<noteq> a"
    by (auto simp: coalesce_call_def split: option.splits if_splits)
  have dead: "register_is_dead_after c d (index + 2) = Inr (\<not> live c [] d (index + 2))"
    "register_is_dead_after c a (index + 1) = Inr (\<not> live c [] a (index + 1))"
    using assms(6) by (simp_all add: targeted_dead_after [OF assms(1)])
  obtain ops where ops: "\<not> live c [] d (index + 2)" "\<not> live c [] a (index + 1)"
    "takes_result (code c ! (index + 1)) d a = Some ops"
    using False call dead by (auto simp: coalesce_call_def split: option.splits if_splits)
  have "coalesces xxh3 c index d a ops"
    using assms(1-3,5-8) call ops call_registers_verified [OF assms(1) _ call(2)] by (simp add: coalesces_def)
  then have "run_of b (coalesced_code c index d a ops) n 0 regs = run_of b (code c) n 0 regs"
    by (rule coalesced_run [OF _ assms(4)]) (simp add: coalesced_state_def)
  moreover have "coalesce_call targets index c = Inr (c\<lparr>code := coalesced_code c index d a ops\<rparr>)"
    using call dead ops by (simp add: coalesce_call_def coalesced_code_def)
  ultimately show ?thesis by (intro exI [of _ "c\<lparr>code := coalesced_code c index d a ops\<rparr>"]) (simp add: coalesced_code_def)
qed simp

text \<open>A value passed through two calls.\<close>

definition nested_chunk :: chunk where
  "nested_chunk = new_chunk\<lparr>code := [Load (LoadTrue 0), CallOp (CallSelfUnchecked 1 1 0),
     CallOp (CallSelfUnchecked 1 0 1), ReturnOp (Return 0)], spans := replicate 4 span_zero, register_count := 2\<rparr>"

lemma nested_chunk_fields [simp]:
  "code nested_chunk = [Load (LoadTrue 0), CallOp (CallSelfUnchecked 1 1 0), CallOp (CallSelfUnchecked 1 0 1),
     ReturnOp (Return 0)]"
  "spans nested_chunk = replicate 4 span_zero" "register_count nested_chunk = 2"
  "local_register_count nested_chunk = 0" "parameter_register_start nested_chunk = 0"
  "parameter_register_count nested_chunk = 0" "trace_argument_registers nested_chunk = []"
  "catch_table nested_chunk = []"
  by (simp_all add: nested_chunk_def new_chunk_def)

lemma nested_chunk_verified: "verify xxh3 nested_chunk = Inr ()"
  by (simp add: verify_eval verify_call_def check_window_def)

definition negating_behaviour :: "bool behaviour" where
  "negating_behaviour i ins vs =
     (if i = 0 then ([True], Some 1) else if i < 3 then ([\<not> hd vs], Some (i + 1)) else ([], None))"

lemma nested_chunk_behaves: "behaves negating_behaviour nested_chunk"
proof -
  have "write_list (code nested_chunk ! 0) = [0]" "write_list (code nested_chunk ! 1) = [1]"
    "write_list (code nested_chunk ! 2) = [0]" "write_list (code nested_chunk ! 3) = []" by code_simp+
  moreover have "successors nested_chunk 0 = Inr [1]" "successors nested_chunk 1 = Inr [2]"
    "successors nested_chunk 2 = Inr [3]" "successors nested_chunk 3 = Inr []" by code_simp+
  ultimately show ?thesis by (auto simp: behaves_def negating_behaviour_def less_Suc_eq numeral_eq_Suc)
qed

theorem coalesce_call_keeps_runs_witness:
  "\<exists>c'. coalesce_call {} 1 nested_chunk = Inr c' \<and>
     code c' = [Load (LoadTrue 0), CallOp (CallSelfUnchecked 1 0 0), CallOp (CallSelfUnchecked 1 0 0), ReturnOp (Return 0)] \<and>
     run_of negating_behaviour (code c') 4 0 (\<lambda>_. False) = [(0, []), (1, [True]), (2, [False]), (3, [True])]"
proof -
  have "no_empty_tuple_patterns nested_chunk" "classified nested_chunk"
    by (simp_all add: no_empty_tuple_patterns_def empty_tuple_pattern_def classified_def operands_def)
  moreover have "control_flow_targets nested_chunk = Inr {}"
    by (simp add: control_flow_targets_def for_each_control_flow_target_def flow_eval)
  moreover have "implicit_reads (code nested_chunk ! (1 + 1)) = None" "\<not> branches_or_terminates (code nested_chunk ! (1 + 1))"
    by code_simp+
  ultimately obtain c' where c': "coalesce_call {} 1 nested_chunk = Inr c'"
    "run_of negating_behaviour (code c') 4 0 (\<lambda>_. False) = run_of negating_behaviour (code nested_chunk) 4 0 (\<lambda>_. False)"
    using coalesce_call_keeps_runs [OF nested_chunk_verified _ _ nested_chunk_behaves, of "{}" 1 4 "\<lambda>_. False"] by auto
  have "result_map code (coalesce_call {} 1 nested_chunk) = Inr [Load (LoadTrue 0), CallOp (CallSelfUnchecked 1 0 0),
      CallOp (CallSelfUnchecked 1 0 0), ReturnOp (Return 0)]" by code_simp
  moreover have "run_of negating_behaviour (code nested_chunk) 4 0 (\<lambda>_. False) = [(0, []), (1, [True]), (2, [False]), (3, [True])]"
    by code_simp
  ultimately show ?thesis using c' by simp
qed

text \<open>A call of two arguments, the second of which was computed before the first.\<close>

definition window_chunk :: chunk where
  "window_chunk = new_chunk\<lparr>code := [Load (LoadTrue 0), Load (LoadFalse 3), CallOp (CallSelfUnchecked 1 2 0),
     CallOp (CallSelfUnchecked 2 0 2), ReturnOp (Return 0)], spans := replicate 5 span_zero, register_count := 4\<rparr>"

lemma window_chunk_fields [simp]:
  "code window_chunk = [Load (LoadTrue 0), Load (LoadFalse 3), CallOp (CallSelfUnchecked 1 2 0),
     CallOp (CallSelfUnchecked 2 0 2), ReturnOp (Return 0)]"
  "spans window_chunk = replicate 5 span_zero" "register_count window_chunk = 4"
  "local_register_count window_chunk = 0" "parameter_register_start window_chunk = 0"
  "parameter_register_count window_chunk = 0" "trace_argument_registers window_chunk = []"
  "catch_table window_chunk = []"
  by (simp_all add: window_chunk_def new_chunk_def)

definition two_argument_behaviour :: "bool behaviour" where
  "two_argument_behaviour i ins vs = (if i = 1 then ([False], Some 2) else if i < 4 then ([True], Some (i + 1)) else ([], None))"

text \<open>C37. Coalescing a call result breaks the arguments of the next call when there are several: the first
  register of the window is an operand and is replaced, the others are where the window said. Here the
  second call takes its arguments from the registers 2 and 3, and from 0 and 1 after the pass, so it no
  longer reads the second one.\<close>

theorem coalesced_window_breaks:
  "verify xxh3 window_chunk = Inr () \<and>
   (\<exists>c'. coalesce_single_argument_call_results window_chunk = Inr c' \<and>
      code c' = [Load (LoadTrue 0), Load (LoadFalse 3), CallOp (CallSelfUnchecked 1 0 0),
        CallOp (CallSelfUnchecked 2 0 0), ReturnOp (Return 0)] \<and>
      run_of two_argument_behaviour (code window_chunk) 4 0 (\<lambda>_. True) ! 3 = (3, [True, False]) \<and>
      run_of two_argument_behaviour (code c') 4 0 (\<lambda>_. True) ! 3 = (3, [True, True]))"
proof -
  have "control_flow_targets window_chunk = Inr {}"
    by (simp add: control_flow_targets_def for_each_control_flow_target_def flow_eval)
  then have "coalesce_single_argument_call_results window_chunk = coalesce_calls {} [0..<4] window_chunk"
    by (simp add: coalesce_single_argument_call_results_def upt_rec [of _ "_ :: nat"])
  moreover have "result_map code (coalesce_calls {} [0..<4] window_chunk) = Inr [Load (LoadTrue 0), Load (LoadFalse 3),
      CallOp (CallSelfUnchecked 1 0 0), CallOp (CallSelfUnchecked 2 0 0), ReturnOp (Return 0)]" by code_simp
  ultimately obtain c' where "coalesce_single_argument_call_results window_chunk = Inr c'"
    "code c' = [Load (LoadTrue 0), Load (LoadFalse 3), CallOp (CallSelfUnchecked 1 0 0),
      CallOp (CallSelfUnchecked 2 0 0), ReturnOp (Return 0)]"
    by (cases "coalesce_calls {} [0..<4] window_chunk") auto
  moreover have "run_of two_argument_behaviour [Load (LoadTrue 0), Load (LoadFalse 3), CallOp (CallSelfUnchecked 1 0 0),
      CallOp (CallSelfUnchecked 2 0 0), ReturnOp (Return 0)] 4 0 (\<lambda>_. True) ! 3 = (3, [True, True])" by code_simp
  moreover have "run_of two_argument_behaviour (code window_chunk) 4 0 (\<lambda>_. True) ! 3 = (3, [True, False])" by code_simp
  moreover have "verify xxh3 window_chunk = Inr ()" by (simp add: verify_eval verify_call_def check_window_def)
  ultimately show ?thesis by auto
qed

end
