(* ===== verification/Whim_DeadStore.thy ===== *)
theory Whim_DeadStore
  imports Whim_Passes Whim_Renaming
begin

text \<open>
  Removal of dead stores (\<^verbatim>\<open>crates/optimizer/src/passes/dead_store.rs\<close>): an analysis of which register holds no
  reference when it is overwritten, by one scan over the code in segments of straight code, and the removal
  of loads, moves and clears whose register is not read again. The type flow is not modelled; it takes part
  as an optional function that says whether overwriting a register may release something observably.
\<close>

section \<open>Values that own nothing\<close>

type_synonym value_state = "(nat \<times> bool) option"

definition set_state :: "nat \<times> bool \<Rightarrow> nat \<Rightarrow> value_state list \<Rightarrow> panic + value_state list" where
  "set_state v r states =
     (if r < length states then Inr (states[r := Some v]) else Inl IndexOutOfBounds)"

fun set_states :: "nat \<times> bool \<Rightarrow> nat list \<Rightarrow> value_state list \<Rightarrow> panic + value_state list" where
  "set_states v [] states = Inr states"
| "set_states v (r # rs) states = result_bind (set_state v r states) (set_states v rs)"

definition value_is_safe_before ::
  "chunk \<Rightarrow> value_state list \<Rightarrow> nat \<Rightarrow> register \<Rightarrow> u16 \<Rightarrow> panic + bool" where
  "value_is_safe_before c states segment r first_fresh_local =
     (if r \<in> set (trace_argument_registers c) then Inr False
      else result_map (\<lambda>state.
        case state of
          None \<Rightarrow> r \<ge> first_fresh_local
        | Some (known_segment, safe) \<Rightarrow> known_segment = segment \<and> safe) (index_of states (unat r)))"

definition writes_non_owning_value :: "instruction \<Rightarrow> bool" where
  "writes_non_owning_value ins \<longleftrightarrow>
     (case ins of
        Load (LoadConstant _ _) \<Rightarrow> True
      | Load (LoadNull _) \<Rightarrow> True
      | Load (LoadTrue _) \<Rightarrow> True
      | Load (LoadFalse _) \<Rightarrow> True
      | Load (LoadInteger _ _ _) \<Rightarrow> True
      | ArrayOp (VecIndexGet _ _ _ value_mode) \<Rightarrow> value_mode = IntValue
      | ArrayOp (DictIndexGetIntKey _ _ _ value_mode) \<Rightarrow> value_mode = IntValue
      | _ \<Rightarrow> False)"

definition argument_window :: "chunk \<Rightarrow> instruction \<Rightarrow> panic + (register \<times> nat) option" where
  "argument_window c ins =
     (let plain = (\<lambda>first n. Inr (Some (first, unat (n :: count))));
          by_name = (\<lambda>callee_register descriptor.
            result_map (\<lambda>d. Some (callee_register + 1, unat (positional d) + length (named d)))
              (index_of (call_descriptors c) (unat descriptor)))
      in case ins of
        CallOp i \<Rightarrow>
          (case i of
             CallValue n _ _ first \<Rightarrow> plain first n
           | CallValueUnchecked n _ _ first \<Rightarrow> plain first n
           | CallValueDiscarded n _ _ first \<Rightarrow> plain first n
           | CallNamed n _ first _ \<Rightarrow> plain first n
           | CallNamedDiscarded n _ first _ \<Rightarrow> plain first n
           | CallNamedUnchecked n _ first _ \<Rightarrow> plain first n
           | CallMethod n _ first _ \<Rightarrow> plain first n
           | CallMethodDiscarded n _ first _ \<Rightarrow> plain first n
           | CallMethodUnchecked n _ first _ \<Rightarrow> plain first n
           | CallStatic n _ first _ \<Rightarrow> plain first n
           | CallStaticDiscarded n _ first _ \<Rightarrow> plain first n
           | CallSelfUnchecked n _ first \<Rightarrow> plain first n
           | CallWithNames _ callee_register descriptor \<Rightarrow> by_name callee_register descriptor
           | CallWithNamesDiscarded _ callee_register descriptor \<Rightarrow> by_name callee_register descriptor
           | _ \<Rightarrow> Inr None)
      | _ \<Rightarrow> Inr None)"

definition taken_source :: "instruction \<Rightarrow> register list" where
  "taken_source ins = (case ins of Load (MoveOwned _ source) \<Rightarrow> [source] | _ \<Rightarrow> [])"

definition emptied :: "instruction \<Rightarrow> register list" where
  "emptied ins =
     (case ins of
        Load (Clear target) \<Rightarrow> [target]
      | ObjectOp (PropertySetUnchecked _ value _ value_mode) \<Rightarrow> if moves value_mode then [value] else []
      | _ \<Rightarrow> [])"

definition window_indices :: "(register \<times> nat) option \<Rightarrow> nat list" where
  "window_indices w = (case w of None \<Rightarrow> [] | Some (first, n) \<Rightarrow> map (\<lambda>offset. unat first + offset) [0..<n])"

definition record_implicit_writes ::
  "chunk \<Rightarrow> instruction \<Rightarrow> nat \<Rightarrow> value_state list \<Rightarrow> panic + value_state list" where
  "record_implicit_writes c ins segment states =
     result_bind (argument_window c ins) (\<lambda>arguments.
     result_bind (set_states (segment, False) (window_indices arguments) states) (\<lambda>states.
     result_bind (set_states (segment, False) (map unat (taken_source ins)) states) (\<lambda>states.
       set_states (segment, True) (map unat (emptied ins)) states)))"

text \<open>The scan, from an index over the rest of the code.\<close>

fun previous_values ::
  "chunk \<Rightarrow> nat set \<Rightarrow> u16 \<Rightarrow> nat \<Rightarrow> instruction list \<Rightarrow> value_state list \<Rightarrow> nat \<Rightarrow> panic + register option list" where
  "previous_values c targets fresh index [] states segment = Inr []"
| "previous_values c targets fresh index (ins # rest) states segment =
     (let segment = (if index \<in> targets then segment + 1 else segment);
          written = for_each_write_register ins
      in result_bind (case written of
           Some [r] \<Rightarrow> result_map (\<lambda>safe. if safe then Some r else None)
             (value_is_safe_before c states segment r fresh)
         | _ \<Rightarrow> Inr None) (\<lambda>safe.
       result_bind (case written of
           Some ws \<Rightarrow> set_states (segment, writes_non_owning_value ins) (map unat ws) states
         | None \<Rightarrow> Inr states) (\<lambda>states.
       let segment = (case written of Some _ \<Rightarrow> segment | None \<Rightarrow> segment + 1)
       in result_bind (record_implicit_writes c ins segment states) (\<lambda>states.
       result_bind (successors c index) (\<lambda>edges.
         result_map ((#) safe) (previous_values c targets fresh (index + 1) rest states
           (if index + 1 < length (code c) \<and> index + 1 \<notin> set edges then segment + 1 else segment)))))))"

definition previous_value_safety :: "chunk \<Rightarrow> nat set \<Rightarrow> u16 \<Rightarrow> panic + register option list" where
  "previous_value_safety c targets fresh =
     previous_values c targets fresh 0 (code c) (replicate (unat (register_count c)) None) 0"

definition cannot_own_reference :: "register option list \<Rightarrow> nat \<Rightarrow> register \<Rightarrow> bool" where
  "cannot_own_reference safe_before index r \<longleftrightarrow> list_get safe_before index = Some (Some r)"

section \<open>The stores that go\<close>

type_synonym release_flow = "(nat \<Rightarrow> register \<Rightarrow> bool) option"

definition flow_allows :: "release_flow \<Rightarrow> nat \<Rightarrow> register \<Rightarrow> bool" where
  "flow_allows flow index r \<longleftrightarrow> (case flow of None \<Rightarrow> False | Some may_release \<Rightarrow> \<not> may_release index r)"

definition register_is_scalar_only :: "chunk \<Rightarrow> register \<Rightarrow> panic + bool" where
  "register_is_scalar_only c r =
     (if register_count c \<le> REFERENCE_REGISTER_LIMIT then result_map Not (in_mask c r) else Inr False)"

definition continuation_proves_boolean :: "chunk \<Rightarrow> nat set \<Rightarrow> nat \<Rightarrow> register \<Rightarrow> bool" where
  "continuation_proves_boolean c targets index r \<longleftrightarrow> index \<noteq> 0 \<and> index \<notin> targets \<and>
     (case code c ! (index - 1) of
        Branch (JumpIfFalse condition _) \<Rightarrow> condition = r
      | Branch (JumpIfTrue condition _) \<Rightarrow> condition = r
      | _ \<Rightarrow> False)"

definition scalar_write_is_unobservable ::
  "chunk \<Rightarrow> nat set \<Rightarrow> release_flow \<Rightarrow> register option list \<Rightarrow> nat \<Rightarrow> register \<Rightarrow> panic + bool" where
  "scalar_write_is_unobservable c targets flow safe_before index r =
     result_map (\<lambda>scalar. scalar \<or> flow_allows flow index r \<or> cannot_own_reference safe_before index r \<or>
       continuation_proves_boolean c targets index r) (register_is_scalar_only c r)"

definition source_is_unobservable :: "chunk \<Rightarrow> release_flow \<Rightarrow> nat \<Rightarrow> register \<Rightarrow> panic + bool" where
  "source_is_unobservable c flow index r =
     result_map (\<lambda>scalar. scalar \<or> flow_allows flow index r) (register_is_scalar_only c r)"

fun all_hold :: "(unit \<Rightarrow> panic + bool) list \<Rightarrow> panic + bool" where
  "all_hold [] = Inr True"
| "all_hold (test # tests) = result_bind (test ()) (\<lambda>holds. if holds then all_hold tests else Inr False)"

definition store_destination ::
  "chunk \<Rightarrow> nat set \<Rightarrow> release_flow \<Rightarrow> register option list \<Rightarrow> liveness_queries \<Rightarrow> nat \<Rightarrow> panic + register option" where
  "store_destination c targets flow safe_before q index =
     (let unobservable = (\<lambda>r _. scalar_write_is_unobservable c targets flow safe_before index r);
          source = (\<lambda>r _. source_is_unobservable c flow index r);
          dead = (\<lambda>r _. queries_dead_after q c r (index + 1));
          guarded = (\<lambda>r tests. result_map (\<lambda>ok. if ok then Some r else None) (all_hold tests))
      in case code c ! index of
           Load i \<Rightarrow>
             (case i of
                Move d s \<Rightarrow> guarded d [unobservable d, source s]
              | LoadConstant d _ \<Rightarrow> guarded d [unobservable d]
              | LoadNull d \<Rightarrow> guarded d [unobservable d]
              | LoadTrue d \<Rightarrow> guarded d [unobservable d]
              | LoadFalse d \<Rightarrow> guarded d [unobservable d]
              | LoadInteger d _ _ \<Rightarrow> guarded d [unobservable d]
              | MoveOwned d s \<Rightarrow> guarded d [dead s, unobservable d, source s]
              | Clear target \<Rightarrow>
                  guarded target [\<lambda>_. Inr (flow_allows flow index target \<or> cannot_own_reference safe_before index target)]
              | _ \<Rightarrow> Inr None)
         | _ \<Rightarrow> Inr None)"

definition removable_at ::
  "chunk \<Rightarrow> nat set \<Rightarrow> release_flow \<Rightarrow> register option list \<Rightarrow> liveness_queries \<Rightarrow> nat \<Rightarrow> panic + bool" where
  "removable_at c targets flow safe_before q index =
     result_bind (store_destination c targets flow safe_before q index) (\<lambda>destination.
       case destination of
         None \<Rightarrow> Inr False
       | Some r \<Rightarrow> queries_dead_after q c r (index + 1))"

definition dead_store_candidate :: "instruction \<Rightarrow> bool" where
  "dead_store_candidate ins \<longleftrightarrow>
     (case ins of
        Load (Move _ _) \<Rightarrow> True
      | Load (MoveOwned _ _) \<Rightarrow> True
      | Load (LoadConstant _ _) \<Rightarrow> True
      | Load (LoadNull _) \<Rightarrow> True
      | Load (LoadTrue _) \<Rightarrow> True
      | Load (LoadFalse _) \<Rightarrow> True
      | Load (LoadInteger _ _ _) \<Rightarrow> True
      | Load (Clear _) \<Rightarrow> True
      | _ \<Rightarrow> False)"

definition removable_stores_with_flow ::
  "chunk \<Rightarrow> release_flow \<Rightarrow> u16 \<Rightarrow> (panic + bool list) option" where
  "removable_stores_with_flow c flow first_fresh_local =
     (case result_bind (control_flow_targets c) (\<lambda>targets.
          result_map (Pair targets) (previous_value_safety c targets first_fresh_local)) of
        Inl p \<Rightarrow> Some (Inl p)
      | Inr (targets, safe_before) \<Rightarrow>
          map_option (\<lambda>queries. result_bind queries (\<lambda>q.
            traverse (removable_at c targets flow safe_before q) [0..<length (code c)]))
            (for_chunk c (length (filter dead_store_candidate (code c)) * 2)))"

definition optimize_chunk_without_flow :: "bool \<Rightarrow> chunk \<Rightarrow> (panic + chunk \<times> nat) option" where
  "optimize_chunk_without_flow enabled c =
     (if \<not> enabled \<or> length (code c) < 2 then Some (Inr (c, 0))
      else map_option (\<lambda>remove. result_bind remove (\<lambda>remove. compact_removed_instructions remove c))
        (removable_stores_with_flow c None (local_register_count c)))"

section \<open>The writes the scan notes\<close>

text \<open>The registers an instruction is recorded to write, and whether what it leaves there owns nothing.\<close>

definition visited_writes :: "instruction \<Rightarrow> nat set" where
  "visited_writes ins = (case for_each_write_register ins of None \<Rightarrow> {} | Some ws \<Rightarrow> unat ` set ws)"

definition noted_writes :: "chunk \<Rightarrow> instruction \<Rightarrow> nat set" where
  "noted_writes c ins = visited_writes ins \<union>
     set (window_indices (projr (argument_window c ins))) \<union> unat ` set (taken_source ins) \<union> unat ` set (emptied ins)"

definition leaves_nothing_owned :: "chunk \<Rightarrow> instruction \<Rightarrow> nat \<Rightarrow> bool" where
  "leaves_nothing_owned c ins k \<longleftrightarrow>
     (if k \<in> unat ` set (emptied ins) then True
      else if k \<in> unat ` set (taken_source ins) \<union> set (window_indices (projr (argument_window c ins))) then False
      else writes_non_owning_value ins)"

lemma set_states_spec:
  assumes "\<forall>r\<in>set rs. r < length states"
  shows "\<exists>states'. set_states v rs states = Inr states' \<and> length states' = length states \<and>
    (\<forall>k<length states. states' ! k = (if k \<in> set rs then Some v else states ! k))"
  using assms
proof (induction rs arbitrary: states)
  case (Cons r rs)
  then have "set_state v r states = Inr (states[r := Some v])" by (simp add: set_state_def)
  with Cons.IH [of "states[r := Some v]"] Cons.prems show ?case by (auto simp: nth_list_update)
qed simp

lemma set_window_indices: "set (window_indices (Some (first, n))) = window first n"
  by (simp add: window_indices_def window_def image_add_atLeastLessThan add.commute)

lemma window_indices_None [simp]: "window_indices None = []"
  by (simp add: window_indices_def)

lemma argument_window_verified:
  assumes "verify xxh3 c = Inr ()" "i < length (code c)"
  shows "\<exists>w. argument_window c (code c ! i) = Inr w \<and> set (window_indices w) \<subseteq> {..<unat (register_count c)}"
proof (cases "code c ! i")
  case (CallOp k)
  have frame: "instruction_registers c (CallOp k) \<subseteq> {..<unat (register_count c)}"
    using verified_registers [OF assms] CallOp by simp
  have named: "\<exists>w. result_map (\<lambda>d. Some (r + 1, unat (positional d) + length (named d)))
      (index_of (call_descriptors c) (unat d)) = Inr w \<and> set (window_indices w) \<subseteq> {..<unat (register_count c)}"
    if "CallDescriptorOperand d \<in> set (call_operands k)" "RegisterOperand r \<in> set (call_operands k)"
      "{unat r + 1..<unat r + 1 + unat (positional (call_descriptors c ! unat d)) + length (named (call_descriptors c ! unat d))}
        \<subseteq> {..<unat (register_count c)}" for r d
  proof -
    have "verify_operand c (of_nat i) (CallDescriptorOperand d) = Inr ()"
      using verified_operand [OF assms] that(1) CallOp by simp
    then have d: "unat d < length (call_descriptors c)"
      by (auto simp: verify_operand_def check_call_descriptor_def list_get_def split: if_splits)
    have "unat r \<in> instruction_registers c (CallOp k)" using that(2) by (auto simp: instruction_registers_def)
    then have "unat r < unat (register_count c)" using frame by blast
    then have "unat (r + 1) = unat r + 1" using register_count_bound [of c] by (simp add: unat_plus_one)
    then have "set (window_indices (Some (r + 1, unat (positional (call_descriptors c ! unat d)) +
        length (named (call_descriptors c ! unat d))))) \<subseteq> {..<unat (register_count c)}"
      unfolding set_window_indices window_def using that(3) by (simp add: add.assoc)
    with d show ?thesis by simp
  qed
  show ?thesis
  proof (cases "\<exists>d r e. k = CallWithNames d r e \<or> k = CallWithNamesDiscarded d r e")
    case True
    then obtain d r e where k: "k = CallWithNames d r e \<or> k = CallWithNamesDiscarded d r e" by blast
    have window: "{unat r + 1..<unat r + 1 + unat (positional (call_descriptors c ! unat e)) +
        length (named (call_descriptors c ! unat e))} \<subseteq> {..<unat (register_count c)}"
      using frame k by (auto simp: instruction_registers_def call_registers_of_def Let_def)
    have "CallDescriptorOperand e \<in> set (call_operands k)" "RegisterOperand r \<in> set (call_operands k)" using k by auto
    from named [OF this window] show ?thesis using k CallOp by (auto simp: argument_window_def Let_def)
  next
    case False
    have "window first n \<subseteq> {..<unat (register_count c)}" if "window first n \<subseteq> call_registers_of c k" for first n
      using that frame by (auto simp: instruction_registers_def)
    then show ?thesis using False CallOp
      by (cases k) (simp_all add: argument_window_def set_window_indices call_registers_of_def Let_def)
  qed
qed (auto simp: argument_window_def Let_def)

text \<open>One instruction of the scan.\<close>

lemma noted_in_frame:
  assumes "verify xxh3 c = Inr ()" "i < length (code c)" "no_empty_tuple_patterns c"
  shows "\<forall>ws r. for_each_write_register (code c ! i) = Some ws \<longrightarrow> r \<in> set ws \<longrightarrow> unat r < unat (register_count c)"
    "\<forall>r\<in>set (taken_source (code c ! i)) \<union> set (emptied (code c ! i)). unat r < unat (register_count c)"
proof -
  have frame: "instruction_registers c (code c ! i) \<subseteq> {..<unat (register_count c)}" by (rule verified_registers [OF assms(1,2)])
  have plain: "plain c (code c ! i)" using verified_plain_code [OF assms(1,3)] assms(2) by simp
  show "\<forall>ws r. for_each_write_register (code c ! i) = Some ws \<longrightarrow> r \<in> set ws \<longrightarrow> unat r < unat (register_count c)"
    using explicit_registers_visited plain frame by (fastforce simp: for_each_write_register_def plain_def)
  show "\<forall>r\<in>set (taken_source (code c ! i)) \<union> set (emptied (code c ! i)). unat r < unat (register_count c)"
  proof
    fix r assume "r \<in> set (taken_source (code c ! i)) \<union> set (emptied (code c ! i))"
    then have "RegisterOperand r \<in> set (instruction_operands (code c ! i))"
      by (auto simp: taken_source_def emptied_def split: instruction.splits load_instruction.splits
          object_instruction.splits if_splits)
    then have "unat r \<in> instruction_registers c (code c ! i)" unfolding instruction_registers_def by blast
    then show "unat r < unat (register_count c)" using frame by blast
  qed
qed

lemma record_implicit_writes_spec:
  assumes "verify xxh3 c = Inr ()" "no_empty_tuple_patterns c" "i < length (code c)"
    and "length states = unat (register_count c)"
    and "\<forall>k<length states. states ! k = (if k \<in> visited_writes (code c ! i) then Some (segment, writes_non_owning_value (code c ! i)) else old ! k)"
  shows "\<exists>states'. record_implicit_writes c (code c ! i) segment states = Inr states' \<and>
    length states' = length states \<and> (\<forall>k<length states. states' ! k =
      (if k \<in> noted_writes c (code c ! i) then Some (segment, leaves_nothing_owned c (code c ! i) k) else old ! k))"
proof -
  let ?ins = "code c ! i"
  obtain w where w: "argument_window c ?ins = Inr w" "set (window_indices w) \<subseteq> {..<unat (register_count c)}"
    using argument_window_verified [OF assms(1,3)] by blast
  note frame = noted_in_frame(2) [OF assms(1,3,2)]
  obtain s1 where s1: "set_states (segment, False) (window_indices w) states = Inr s1" "length s1 = length states"
    "\<And>k. k < length states \<Longrightarrow> s1 ! k = (if k \<in> set (window_indices w) then Some (segment, False) else states ! k)"
    using set_states_spec [of "window_indices w" states "(segment, False)"] w(2) assms(4) by auto
  obtain s2 where s2: "set_states (segment, False) (map unat (taken_source ?ins)) s1 = Inr s2" "length s2 = length states"
    "\<And>k. k < length states \<Longrightarrow> s2 ! k = (if k \<in> unat ` set (taken_source ?ins) then Some (segment, False) else s1 ! k)"
    using set_states_spec [of "map unat (taken_source ?ins)" s1 "(segment, False)"] frame assms(4) s1(2) by auto
  obtain s3 where s3: "set_states (segment, True) (map unat (emptied ?ins)) s2 = Inr s3" "length s3 = length states"
    "\<And>k. k < length states \<Longrightarrow> s3 ! k = (if k \<in> unat ` set (emptied ?ins) then Some (segment, True) else s2 ! k)"
    using set_states_spec [of "map unat (emptied ?ins)" s2 "(segment, True)"] frame assms(4) s2(2) by auto
  have "s3 ! k = (if k \<in> noted_writes c ?ins then Some (segment, leaves_nothing_owned c ?ins k) else old ! k)"
    if "k < length states" for k
    using s1(3) [OF that] s2(3) [OF that] s3(3) [OF that] assms(5) that w(1)
    by (simp add: noted_writes_def leaves_nothing_owned_def)
  then show ?thesis using w(1) s1(1) s2(1) s3 by (simp add: record_implicit_writes_def)
qed

section \<open>What the scan knows\<close>

text \<open>
  Straight code between two indices: nothing branches to what lies between, and every instruction falls
  through to the next.
\<close>

definition straight_between :: "chunk \<Rightarrow> nat set \<Rightarrow> nat \<Rightarrow> nat \<Rightarrow> bool" where
  "straight_between c targets j i \<longleftrightarrow>
     (\<forall>m. j \<le> m \<and> m < i \<longrightarrow> (j < m \<longrightarrow> m \<notin> targets) \<and>
        (m + 1 < length (code c) \<longrightarrow> (\<exists>edges. successors c m = Inr edges \<and> m + 1 \<in> set edges)))"

text \<open>The last noted write of a register before an index in the order of the code.\<close>

definition last_noted :: "chunk \<Rightarrow> nat \<Rightarrow> nat \<Rightarrow> nat \<Rightarrow> bool" where
  "last_noted c k i j \<longleftrightarrow> j < i \<and> k \<in> noted_writes c (code c ! j) \<and>
     (\<forall>m. j < m \<and> m < i \<longrightarrow> k \<notin> noted_writes c (code c ! m))"

definition scan_knows :: "chunk \<Rightarrow> nat set \<Rightarrow> nat \<Rightarrow> value_state list \<Rightarrow> nat \<Rightarrow> bool" where
  "scan_knows c targets i states segment \<longleftrightarrow> length states = unat (register_count c) \<and>
     (\<forall>k<length states.
        (states ! k = None \<longrightarrow> (\<forall>j<i. k \<notin> noted_writes c (code c ! j))) \<and>
        (\<forall>known safe. states ! k = Some (known, safe) \<longrightarrow> known \<le> segment \<and>
           (\<exists>j. last_noted c k i j \<and> safe = leaves_nothing_owned c (code c ! j) k \<and>
              (known = segment \<longrightarrow> straight_between c targets j i))))"

text \<open>Why the value of a register is taken to own nothing.\<close>

definition taken_as_plain :: "chunk \<Rightarrow> nat set \<Rightarrow> u16 \<Rightarrow> nat \<Rightarrow> register \<Rightarrow> bool" where
  "taken_as_plain c targets fresh i r \<longleftrightarrow>
     fresh \<le> r \<and> (\<forall>j<i. unat r \<notin> noted_writes c (code c ! j)) \<or>
     (\<exists>j. last_noted c (unat r) i j \<and> leaves_nothing_owned c (code c ! j) (unat r) \<and>
        straight_between c targets j i \<and> i \<notin> targets)"

lemma last_noted_step:
  "last_noted c k (Suc i) j \<longleftrightarrow>
     (if k \<in> noted_writes c (code c ! i) then j = i else last_noted c k i j)"
  by (auto simp: last_noted_def less_Suc_eq)

lemma straight_between_step:
  assumes "successors c i = Inr edges"
  shows "straight_between c targets j (i + 1) \<longleftrightarrow>
    (j \<le> i \<longrightarrow> straight_between c targets j i \<and> (j < i \<longrightarrow> i \<notin> targets) \<and> (i + 1 < length (code c) \<longrightarrow> i + 1 \<in> set edges)) \<and>
    (i < j \<longrightarrow> straight_between c targets j i)"
  using assms unfolding straight_between_def by (auto simp: less_Suc_eq)

lemma value_is_safe_before_sound:
  assumes "scan_knows c targets i states segment" "unat r < unat (register_count c)"
  shows "\<exists>safe. value_is_safe_before c states (if i \<in> targets then segment + 1 else segment) r fresh = Inr safe \<and>
    (safe \<longrightarrow> taken_as_plain c targets fresh i r)"
proof -
  have r: "unat r < length states" using assms by (simp add: scan_knows_def)
  have known: "states ! unat r = None \<Longrightarrow> \<forall>j<i. unat r \<notin> noted_writes c (code c ! j)"
    "\<And>known safe. states ! unat r = Some (known, safe) \<Longrightarrow> known \<le> segment \<and>
       (\<exists>j. last_noted c (unat r) i j \<and> safe = leaves_nothing_owned c (code c ! j) (unat r) \<and>
          (known = segment \<longrightarrow> straight_between c targets j i))"
    using assms(1) r unfolding scan_knows_def by blast+
  show ?thesis
  proof (cases "states ! unat r")
    case None
    then show ?thesis using known(1) r by (auto simp: value_is_safe_before_def taken_as_plain_def)
  next
    case (Some v)
    obtain kn safe where v: "v = (kn, safe)" by (cases v)
    obtain j where j: "kn \<le> segment" "last_noted c (unat r) i j" "safe = leaves_nothing_owned c (code c ! j) (unat r)"
      "kn = segment \<longrightarrow> straight_between c targets j i" using known(2) Some v by blast
    then have "taken_as_plain c targets fresh i r" if "kn = (if i \<in> targets then segment + 1 else segment)" safe
      using that unfolding taken_as_plain_def by (auto split: if_splits)
    then show ?thesis using Some v r by (auto simp: value_is_safe_before_def)
  qed
qed

text \<open>One instruction keeps what the scan knows.\<close>

lemma scan_knows_step:
  assumes "scan_knows c targets i states segment" "successors c i = Inr edges" "length states' = length states"
    and "\<forall>k<length states. states' ! k =
      (if k \<in> noted_writes c (code c ! i) then Some (middle, leaves_nothing_owned c (code c ! i) k) else states ! k)"
    and "segment \<le> middle" "i \<in> targets \<longrightarrow> segment < middle" "middle \<le> segment'"
    and "i + 1 < length (code c) \<and> i + 1 \<notin> set edges \<longrightarrow> middle < segment'"
  shows "scan_knows c targets (i + 1) states' segment'"
  unfolding scan_knows_def
proof (intro conjI allI impI)
  show "length states' = unat (register_count c)" using assms(1,3) by (simp add: scan_knows_def)
  fix k assume k: "k < length states'"
  have old: "states ! k = None \<Longrightarrow> \<forall>j<i. k \<notin> noted_writes c (code c ! j)"
    "\<And>known safe. states ! k = Some (known, safe) \<Longrightarrow> known \<le> segment \<and>
       (\<exists>j. last_noted c k i j \<and> safe = leaves_nothing_owned c (code c ! j) k \<and>
          (known = segment \<longrightarrow> straight_between c targets j i))"
    using assms(1,3) k unfolding scan_knows_def by auto
  have new: "states' ! k =
      (if k \<in> noted_writes c (code c ! i) then Some (middle, leaves_nothing_owned c (code c ! i) k) else states ! k)"
    using assms(3,4) k by simp
  { assume "states' ! k = None"
    with new have "k \<notin> noted_writes c (code c ! i)" "states ! k = None" by (auto split: if_splits)
    with old(1) show "k \<notin> noted_writes c (code c ! j)" if "j < i + 1" for j using that by (auto simp: less_Suc_eq) }
  fix known safe assume s: "states' ! k = Some (known, safe)"
  have "known \<le> segment' \<and> (\<exists>j. last_noted c k (i + 1) j \<and> safe = leaves_nothing_owned c (code c ! j) k \<and>
      (known = segment' \<longrightarrow> straight_between c targets j (i + 1)))"
  proof (cases "k \<in> noted_writes c (code c ! i)")
    case True
    have "straight_between c targets i (i + 1)" if "middle = segment'"
      using assms(2,8) that unfolding straight_between_step [OF assms(2)] by (auto simp: straight_between_def)
    moreover have "last_noted c k (i + 1) i" using True by (simp add: last_noted_step)
    moreover have "known = middle" "safe = leaves_nothing_owned c (code c ! i) k" using s new True by simp_all
    ultimately show ?thesis using assms(7) by blast
  next
    case False
    then have "states ! k = Some (known, safe)" using s new by simp
    from old(2) [OF this] obtain j where j: "known \<le> segment" "last_noted c k i j"
      "safe = leaves_nothing_owned c (code c ! j) k" "known = segment \<longrightarrow> straight_between c targets j i" by blast
    have "straight_between c targets j (i + 1)" if "known = segment'"
      using j that assms(5-8) unfolding straight_between_step [OF assms(2)] by (auto simp: last_noted_def)
    moreover have "last_noted c k (i + 1) j" using j(2) False by (simp add: last_noted_step)
    moreover have "known \<le> segment'" using j(1) assms(5,7) by simp
    ultimately show ?thesis using j(3) by blast
  qed
  then show "known \<le> segment'" "\<exists>j. last_noted c k (i + 1) j \<and> safe = leaves_nothing_owned c (code c ! j) k \<and>
      (known = segment' \<longrightarrow> straight_between c targets j (i + 1))" by auto
qed


text \<open>The scan of a verified chunk ends, and what it reports is what it knows.\<close>

lemma previous_values_spec:
  assumes "verify xxh3 c = Inr ()" "no_empty_tuple_patterns c"
    and "rest = drop i (code c)" "scan_knows c targets i states segment"
  shows "\<exists>safe. previous_values c targets fresh i rest states segment = Inr safe \<and> length safe = length rest \<and>
    (\<forall>m<length safe. \<forall>r. safe ! m = Some r \<longrightarrow>
       for_each_write_register (rest ! m) = Some [r] \<and> taken_as_plain c targets fresh (i + m) r)"
  using assms(3,4)
proof (induction rest arbitrary: i states segment)
  case (Cons ins rest)
  have i: "i < length (code c)" "code c ! i = ins" "rest = drop (i + 1) (code c)"
    using Cons.prems(1) by (metis drop_all list.distinct(1) not_less,
      metis Cons_nth_drop_Suc drop_all list.distinct(1) list.inject not_less,
      metis Suc_eq_plus1 drop_Suc list.sel(3) tl_drop)
  let ?w = "for_each_write_register ins"
  let ?s = "if i \<in> targets then segment + 1 else segment"
  let ?middle = "case ?w of Some _ \<Rightarrow> ?s | None \<Rightarrow> ?s + 1"
  note frame = noted_in_frame(1) [OF assms(1) i(1) assms(2), unfolded i(2)]
  have len: "length states = unat (register_count c)" using Cons.prems(2) by (simp add: scan_knows_def)
  obtain head where head: "(case ?w of
       Some [r] \<Rightarrow> result_map (\<lambda>safe. if safe then Some r else None) (value_is_safe_before c states ?s r fresh)
     | _ \<Rightarrow> Inr None) = Inr head"
    "\<And>r. head = Some r \<Longrightarrow> ?w = Some [r] \<and> taken_as_plain c targets fresh i r"
  proof (cases "\<exists>r. ?w = Some [r]")
    case True
    then obtain r where r: "?w = Some [r]" by blast
    then obtain safe where safe: "value_is_safe_before c states ?s r fresh = Inr safe" "safe \<longrightarrow> taken_as_plain c targets fresh i r"
      using value_is_safe_before_sound [OF Cons.prems(2), of r fresh] frame by auto
    show ?thesis by (rule that [of "if safe then Some r else None"]) (use r safe in \<open>auto split: if_splits\<close>)
  next
    case False
    then show ?thesis by (intro that [of None]) (auto split: option.splits list.splits)
  qed
  obtain s1 where s1: "(case ?w of
       Some ws \<Rightarrow> set_states (?s, writes_non_owning_value ins) (map unat ws) states | None \<Rightarrow> Inr states) = Inr s1"
    "length s1 = length states"
    "\<forall>k<length s1. s1 ! k = (if k \<in> visited_writes ins then Some (?middle, writes_non_owning_value ins) else states ! k)"
  proof (cases ?w)
    case (Some ws)
    then have "\<forall>r\<in>set (map unat ws). r < length states" using frame len by auto
    from set_states_spec [OF this, of "(?s, writes_non_owning_value ins)"] show ?thesis
      using that Some by (auto simp: visited_writes_def)
  qed (auto simp: visited_writes_def intro: that)
  obtain s2 where s2: "record_implicit_writes c ins ?middle s1 = Inr s2" "length s2 = length s1"
    "\<forall>k<length s1. s2 ! k = (if k \<in> noted_writes c ins then Some (?middle, leaves_nothing_owned c ins k) else states ! k)"
    using record_implicit_writes_spec [OF assms(1,2) i(1), of s1 ?middle states] s1(2,3) len unfolding i(2) by auto
  obtain edges where edges: "successors c i = Inr edges" using verified_successors [OF assms(1) i(1)] by blast
  let ?behind = "if i + 1 < length (code c) \<and> i + 1 \<notin> set edges then ?middle + 1 else ?middle"
  have "scan_knows c targets (i + 1) s2 ?behind"
    by (rule scan_knows_step [OF Cons.prems(2) edges, of _ ?middle])
      (use s1(2) s2(2,3) i(2) in \<open>auto split: option.splits\<close>)
  from Cons.IH [OF i(3) this] obtain tail where tail: "previous_values c targets fresh (i + 1) rest s2 ?behind = Inr tail"
    "length tail = length rest"
    "\<forall>m<length tail. \<forall>r. tail ! m = Some r \<longrightarrow>
       for_each_write_register (rest ! m) = Some [r] \<and> taken_as_plain c targets fresh (i + 1 + m) r" by blast
  have "previous_values c targets fresh i (ins # rest) states segment = Inr (head # tail)"
    using head(1) s1(1) s2(1) edges tail(1) by (simp only: previous_values.simps Let_def result_bind.simps result_map.simps)
  then show ?case using head(2) tail(2,3) by (auto simp: nth_Cons split: nat.splits)
qed simp

lemma previous_value_safety_spec:
  assumes "verify xxh3 c = Inr ()" "no_empty_tuple_patterns c"
  obtains safe where "previous_value_safety c targets fresh = Inr safe" "length safe = length (code c)"
    "\<And>i r. cannot_own_reference safe i r \<Longrightarrow>
       i < length (code c) \<and> for_each_write_register (code c ! i) = Some [r] \<and> taken_as_plain c targets fresh i r"
proof -
  have "scan_knows c targets 0 (replicate (unat (register_count c)) None) 0" by (simp add: scan_knows_def)
  from previous_values_spec [OF assms _ this, of "code c" fresh] show ?thesis
    using that unfolding previous_value_safety_def cannot_own_reference_def list_get_def by (fastforce split: if_splits)
qed

section \<open>The last writer on a path\<close>









section \<open>Runs without the removed stores\<close>

lemma source_is_unobservable_returns:
  assumes "unat r < unat (register_count c)"
  shows "\<exists>ok. source_is_unobservable c flow i r = Inr ok"
    "\<exists>ok. scalar_write_is_unobservable c targets flow safe_before i r = Inr ok"
proof -
  have "r < REFERENCE_REGISTER_LIMIT" if "register_count c \<le> REFERENCE_REGISTER_LIMIT"
    using assms that by (simp add: word_le_nat_alt word_less_nat_alt)
  then have "\<exists>scalar. register_is_scalar_only c r = Inr scalar"
    using in_mask_bit [of r c] by (auto simp: register_is_scalar_only_def)
  then show "\<exists>ok. source_is_unobservable c flow i r = Inr ok"
    "\<exists>ok. scalar_write_is_unobservable c targets flow safe_before i r = Inr ok"
    by (auto simp: source_is_unobservable_def scalar_write_is_unobservable_def)
qed

text \<open>The registers a store writes, and the only place it continues at.\<close>

lemma load_write_lists:
  "set (write_list (Load (Move d s))) \<subseteq> {d}" "set (write_list (Load (MoveOwned d s))) \<subseteq> {d, s}"
  "set (write_list (Load (Clear d))) \<subseteq> {d}" "set (write_list (Load (LoadConstant d k))) \<subseteq> {d}"
  "set (write_list (Load (LoadNull d))) \<subseteq> {d}" "set (write_list (Load (LoadTrue d))) \<subseteq> {d}"
  "set (write_list (Load (LoadFalse d))) \<subseteq> {d}" "set (write_list (Load (LoadInteger d n kind))) \<subseteq> {d}"
  by (auto simp: write_list_def access_registers_iff operands_def register_at_def instruction_layout_def)

lemma all_hold_returns:
  assumes "\<And>test. test \<in> set tests \<Longrightarrow> \<exists>ok. test () = Inr ok"
  shows "\<exists>ok. all_hold tests = Inr ok \<and> (ok \<longleftrightarrow> (\<forall>test\<in>set tests. test () = Inr True))"
  using assms
proof (induction tests)
  case (Cons test tests)
  then obtain ok where "test () = Inr ok" by (meson list.set_intros(1))
  with Cons show ?case by (cases ok) auto
qed auto

lemma removable_at_sound:
  assumes "verify xxh3 c = Inr ()" "i < length (code c)"
    and "\<forall>r start. r < register_count c \<and> start \<le> length (code c) \<longrightarrow>
       queries_dead_after q c r start \<in> {Inr False, Inr (\<not> live c [] r start)}"
  shows "\<exists>removed. removable_at c targets flow safe_before q i = Inr removed \<and>
    (removed \<longrightarrow> dead_store_candidate (code c ! i) \<and> (\<forall>r\<in>set (write_list (code c ! i)). \<not> live c [] r (i + 1)))"
proof (cases "dead_store_candidate (code c ! i)")
  case False
  then show ?thesis
  proof (cases "code c ! i")
    case (Load k)
    with False show ?thesis
      by (cases k) (auto simp: removable_at_def store_destination_def dead_store_candidate_def Let_def)
  qed (auto simp: removable_at_def store_destination_def Let_def)
next
  case True
  have frame: "unat r < unat (register_count c)" if "RegisterOperand r \<in> set (instruction_operands (code c ! i))" for r
  proof -
    have "unat r \<in> instruction_registers c (code c ! i)" using that unfolding instruction_registers_def by blast
    then show ?thesis using verified_registers [OF assms(1,2)] by blast
  qed
  have dead: "\<exists>gone. queries_dead_after q c r (i + 1) = Inr gone \<and> (gone \<longrightarrow> \<not> live c [] r (i + 1))"
    if "unat r < unat (register_count c)" for r
  proof -
    have "queries_dead_after q c r (i + 1) \<in> {Inr False, Inr (\<not> live c [] r (i + 1))}"
      using assms(2,3) that by (simp add: word_less_nat_alt)
    then show ?thesis by auto
  qed
  have store: ?thesis
    if t: "store_destination c targets flow safe_before q i =
        result_map (\<lambda>ok. if ok then Some d else None) (all_hold tests)"
      "RegisterOperand d \<in> set (instruction_operands (code c ! i))"
      "\<And>test. test \<in> set tests \<Longrightarrow> \<exists>ok. test () = Inr ok"
      "(\<forall>test\<in>set tests. test () = Inr True) \<Longrightarrow>
        \<forall>r\<in>set (write_list (code c ! i)). r = d \<or> \<not> live c [] r (i + 1)" for d tests
  proof -
    obtain gone where "queries_dead_after q c d (i + 1) = Inr gone" "gone \<longrightarrow> \<not> live c [] d (i + 1)"
      using dead [OF frame [OF t(2)]] by blast
    moreover obtain ok where "all_hold tests = Inr ok" "ok \<longleftrightarrow> (\<forall>test\<in>set tests. test () = Inr True)"
      using all_hold_returns [of tests] t(3) by blast
    ultimately show ?thesis using t(1,4) True by (auto simp: removable_at_def)
  qed
  let ?w = "\<lambda>r (_ :: unit). scalar_write_is_unobservable c targets flow safe_before i r"
  let ?s = "\<lambda>r (_ :: unit). source_is_unobservable c flow i r"
  note w = source_is_unobservable_returns(2) [OF frame] and src = source_is_unobservable_returns(1) [OF frame]
  consider (move) d s where "code c ! i = Load (Move d s)" | (owned) d s where "code c ! i = Load (MoveOwned d s)"
    | (clear) d where "code c ! i = Load (Clear d)"
    | (load) d where "RegisterOperand d \<in> set (instruction_operands (code c ! i))" "set (write_list (code c ! i)) \<subseteq> {d}"
        "store_destination c targets flow safe_before q i = result_map (\<lambda>ok. if ok then Some d else None) (all_hold [?w d])"
  proof (cases "code c ! i")
    case (Load k)
    then show ?thesis using that True load_write_lists
      by (cases k) (simp_all add: dead_store_candidate_def store_destination_def Let_def)
  qed (use True in \<open>simp_all add: dead_store_candidate_def\<close>)
  then show ?thesis
  proof cases
    case (move d s)
    show ?thesis
      by (rule store [of d "[?w d, ?s s]"])
        (use move w [of d] src [of s] load_write_lists(1) [of d s] in \<open>auto simp: store_destination_def Let_def\<close>)
  next
    case (owned d s)
    have "\<exists>gone. queries_dead_after q c s (i + 1) = Inr gone \<and> (gone \<longrightarrow> \<not> live c [] s (i + 1))"
      by (rule dead [OF frame]) (simp add: owned)
    then show ?thesis
      by (intro store [of d "[\<lambda>_. queries_dead_after q c s (i + 1), ?w d, ?s s]"])
        (use owned w [of d] src [of s] load_write_lists(2) [of d s] in \<open>auto simp: store_destination_def Let_def\<close>)
  next
    case (clear d)
    show ?thesis
      by (rule store [of d "[\<lambda>_. Inr (flow_allows flow i d \<or> cannot_own_reference safe_before i d)]"])
        (use clear load_write_lists(3) [of d] in \<open>auto simp: store_destination_def Let_def\<close>)
  next
    case (load d)
    show ?thesis by (rule store [OF load(3,1)]) (use load w [of d] in auto)
  qed
qed

text \<open>A run in which the marked instructions are skipped.\<close>

fun run_without ::
  "'v behaviour \<Rightarrow> instruction list \<Rightarrow> bool list \<Rightarrow> nat \<Rightarrow> nat \<Rightarrow> (register \<Rightarrow> 'v) \<Rightarrow> (nat \<times> 'v list) list" where
  "run_without b cs remove 0 i regs = []"
| "run_without b cs remove (Suc n) i regs =
     (if i < length cs
      then if remove ! i then run_without b cs remove n (i + 1) regs
           else let vs = map regs (read_list (cs ! i)); (outs, next) = b i (erase (cs ! i)) vs
                in (i, vs) # (case next of
                     None \<Rightarrow> []
                   | Some j \<Rightarrow> run_without b cs remove n j (write_values (write_list (cs ! i)) outs regs))
      else [])"

definition falls_through :: "'v behaviour \<Rightarrow> chunk \<Rightarrow> bool" where
  "falls_through b c \<longleftrightarrow> (\<forall>i<length (code c). dead_store_candidate (code c ! i) \<longrightarrow>
     (\<forall>vs. snd (b i (erase (code c ! i)) vs) = Some (i + 1)))"

definition dead_stores :: "chunk \<Rightarrow> bool list \<Rightarrow> bool" where
  "dead_stores c remove \<longleftrightarrow> length remove = length (code c) \<and>
     (\<forall>i<length (code c). remove ! i \<longrightarrow> dead_store_candidate (code c ! i) \<and>
        (\<forall>r\<in>set (write_list (code c ! i)). \<not> live c [] r (i + 1)))"

lemma run_without_dead_stores:
  assumes "needs_hold c (\<lambda>r i. live c [] r i \<and> r \<noteq> register_NONE)" "behaves b c" "falls_through b c" "dead_stores c remove"
    and "\<forall>r. live c [] r i \<and> r \<noteq> register_NONE \<longrightarrow> regs' r = regs r"
  shows "run_without b (code c) remove n i regs' = filter (\<lambda>(i, _). \<not> remove ! i) (run_of b (code c) n i regs)"
  using assms(5)
proof (induction n arbitrary: i regs regs')
  case (Suc n)
  show ?case
  proof (cases "i < length (code c)")
    case i: True
    let ?ins = "code c ! i" and ?needed = "\<lambda>r i. live c [] r i \<and> r \<noteq> register_NONE"
    have reads: "map regs' (read_list ?ins) = map regs (read_list ?ins)"
      using assms(1) i Suc.prems unfolding needs_hold_def by (auto intro!: map_cong)
    obtain outs "next" where b: "b i (erase ?ins) (map regs (read_list ?ins)) = (outs, next)" by fastforce
    have outs: "length outs = length (write_list ?ins)" using assms(2) i b unfolding behaves_def by blast
    have kept: "regs' r = regs r" if t: "next = Some j" "?needed r j" "r \<notin> set (write_list ?ins)" for r j
    proof -
      obtain edges where "successors c i = Inr edges" "j \<in> set edges"
        using assms(2) i b t(1) unfolding behaves_def by blast
      then have "?needed r i" using assms(1) i t(2,3) unfolding needs_hold_def by blast
      then show ?thesis using Suc.prems by blast
    qed
    show ?thesis
    proof (cases "remove ! i")
      case True
      then have "next = Some (i + 1)" "\<forall>r\<in>set (write_list ?ins). \<not> live c [] r (i + 1)"
        using assms(3,4) i b unfolding falls_through_def dead_stores_def by (metis snd_conv)+
      moreover from this have "regs' r = write_values (write_list ?ins) outs regs r" if "?needed r (i + 1)" for r
        using kept [of "i + 1" r] that by (metis write_values_other)
      ultimately show ?thesis using True i b Suc.IH [of "i + 1" regs' "write_values (write_list ?ins) outs regs"] by simp
    next
      case False
      have "run_without b (code c) remove n j (write_values (write_list ?ins) outs regs') =
          filter (\<lambda>(i, _). \<not> remove ! i) (run_of b (code c) n j (write_values (write_list ?ins) outs regs))"
        if "next = Some j" for j
        using kept [OF that] by (intro Suc.IH) (auto intro!: write_values_same [OF outs])
      then show ?thesis using False i b by (cases "next") (simp_all add: reads Let_def)
    qed
  qed simp
qed simp

text \<open>C13. The removal of dead stores computes its mask on a verified chunk without a panic. What it marks are
  loads, moves and clears all of whose written registers are dead, and a run that skips them executes the other
  instructions in the same order with the same values read, whatever the instructions do and whatever the type
  flow allows. Stores must fall through, every instruction must have its operands in the table, and the chunk
  has no empty tuple pattern.\<close>

theorem dead_store_keeps_runs:
  assumes "verify xxh3 c = Inr ()" "no_empty_tuple_patterns c" "classified c" "behaves b c" "falls_through b c"
  shows "\<exists>remove. removable_stores_with_flow c flow fresh = Some (Inr remove) \<and> dead_stores c remove \<and>
    run_without b (code c) remove n 0 regs = filter (\<lambda>(i, _). \<not> remove ! i) (run_of b (code c) n 0 regs)"
proof -
  obtain targets where targets: "control_flow_targets c = Inr targets"
    using verified_targets_computed [OF assms(1)] by blast
  obtain safe where safe: "previous_value_safety c targets fresh = Inr safe"
    using previous_value_safety_spec [OF assms(1,2)] by metis
  let ?count = "length (filter dead_store_candidate (code c)) * 2"
  obtain q where q: "for_chunk c ?count = Some (Inr q)"
    "\<forall>r start. r < register_count c \<and> start \<le> length (code c) \<longrightarrow>
       queries_dead_after q c r start \<in> {Inr False, Inr (\<not> live c [] r start)}"
    using queries_sound [OF assms(1,2)] by blast
  obtain remove where remove: "traverse (removable_at c targets flow safe q) [0..<length (code c)] = Inr remove"
    "dead_stores c remove"
    using traverse_returns [of "[0..<length (code c)]" "removable_at c targets flow safe q"
        "\<lambda>i removed. removed \<longrightarrow> dead_store_candidate (code c ! i) \<and> (\<forall>r\<in>set (write_list (code c ! i)). \<not> live c [] r (i + 1))"]
      removable_at_sound [OF assms(1) _ q(2)] by (auto simp: dead_stores_def list_all2_conv_all_nth)
  have "removable_stores_with_flow c flow fresh = Some (Inr remove)"
    using targets safe q(1) remove(1) by (simp add: removable_stores_with_flow_def)
  moreover have "run_without b (code c) remove n 0 regs = filter (\<lambda>(i, _). \<not> remove ! i) (run_of b (code c) n 0 regs)"
    by (rule run_without_dead_stores [OF live_needs_hold [OF assms(1-3)] assms(4,5) remove(2)]) simp
  ultimately show ?thesis using remove(2) by blast
qed

text \<open>A register that is loaded and cleared, and never read.\<close>

definition stored_chunk :: chunk where
  "stored_chunk = new_chunk\<lparr>code := [Load (LoadTrue 0), Load (Clear 0), Load (LoadTrue 1), ReturnOp (Return 1)],
     spans := replicate 4 span_zero, register_count := 2\<rparr>"

lemma stored_chunk_fields [simp]:
  "code stored_chunk = [Load (LoadTrue 0), Load (Clear 0), Load (LoadTrue 1), ReturnOp (Return 1)]"
  "spans stored_chunk = replicate 4 span_zero" "register_count stored_chunk = 2"
  "local_register_count stored_chunk = 0" "parameter_register_start stored_chunk = 0"
  "parameter_register_count stored_chunk = 0" "trace_argument_registers stored_chunk = []"
  "catch_table stored_chunk = []"
  by (simp_all add: stored_chunk_def new_chunk_def)

lemma stored_chunk_verified: "verify xxh3 stored_chunk = Inr ()"
  by (simp add: verify_eval)

lemma stored_chunk_plain: "no_empty_tuple_patterns stored_chunk" "classified stored_chunk"
  by (simp_all add: no_empty_tuple_patterns_def empty_tuple_pattern_def classified_def operands_def)

lemma stored_chunk_flow:
  "successors stored_chunk 0 = Inr [1]" "successors stored_chunk 1 = Inr [2]" "successors stored_chunk 2 = Inr [3]"
  "successors stored_chunk 3 = Inr []" "control_flow_targets stored_chunk = Inr {}"
  by code_simp+

lemma stored_chunk_next:
  assumes "i < 3"
  shows "successors stored_chunk i = Inr [i + 1]"
proof -
  consider "i = 0" | "i = 1" | "i = 2" using assms by linarith
  then show ?thesis by cases (simp_all add: stored_chunk_flow del: One_nat_def)
qed


definition storing_behaviour :: "bool behaviour" where
  "storing_behaviour i ins vs = (if i < 3 then ([i \<noteq> 1], Some (i + 1)) else ([], None))"

lemma stored_chunk_runs: "behaves storing_behaviour stored_chunk" "falls_through storing_behaviour stored_chunk"
proof -
  have lists: "write_list (Load (LoadTrue r)) = [r]" "write_list (Load (Clear r)) = [r]" "write_list (ReturnOp (Return r)) = []"
    if "r \<noteq> register_NONE" for r using that
    by (simp_all add: write_list_def access_registers_def operands_def operand_register_def register_at_def
        instruction_layout_def calls_without_arguments_def List.map_filter_simps)
  show "behaves storing_behaviour stored_chunk"
    by (auto simp: behaves_def storing_behaviour_def less_Suc_eq lists register_NONE_def
        stored_chunk_next split: if_splits)
  show "falls_through storing_behaviour stored_chunk"
    by (auto simp: falls_through_def storing_behaviour_def dead_store_candidate_def less_Suc_eq)
qed

theorem dead_store_keeps_runs_witness:
  "removable_stores_with_flow stored_chunk None 0 = Some (Inr [True, True, False, False]) \<and>
   run_without storing_behaviour (code stored_chunk) [True, True, False, False] 4 0 (\<lambda>_. False) = [(2, []), (3, [True])]"
proof -
  have queries: "for_chunk stored_chunk 6 = Some (Inr Targeted)"
    by (simp add: for_chunk_def build_queries_def dense_queries_def liveness_word_count_def DENSE_QUERY_THRESHOLD_def)
  have dead: "register_is_dead_after stored_chunk 0 1 = Inr True" "register_is_dead_after stored_chunk 0 2 = Inr True"
    "register_is_dead_after stored_chunk 1 3 = Inr False" by code_simp+
  have safe: "previous_value_safety stored_chunk {} 0 = Inr [Some 0, Some 0, Some 1, None]" by code_simp
  have "length (filter dead_store_candidate (code stored_chunk)) * 2 = 6" by (simp add: dead_store_candidate_def)
  then have mask: "removable_stores_with_flow stored_chunk None 0 = Some (Inr [True, True, False, False])"
    using queries dead safe
    by (simp add: removable_stores_with_flow_def stored_chunk_flow upt_rec removable_at_def store_destination_def
        scalar_write_is_unobservable_def register_is_scalar_only_def in_mask_def register_bit_def
        REFERENCE_REGISTER_LIMIT_def flow_allows_def cannot_own_reference_def list_get_def queries_dead_after_def
        del: One_nat_def)
  have "run_of storing_behaviour (code stored_chunk) 4 0 (\<lambda>_. False) = [(0, []), (1, []), (2, []), (3, [True])]"
    by code_simp
  with dead_store_keeps_runs [OF stored_chunk_verified stored_chunk_plain stored_chunk_runs, of None 0 4 "\<lambda>_. False"] mask
  show ?thesis by simp
qed

text \<open>A call with named arguments whose result is dropped at once.\<close>

definition dropped_result_chunk :: chunk where
  "dropped_result_chunk = new_chunk\<lparr>code := [Load (LoadNull 0), CallOp (CallWithNames 1 0 0), Load (Clear 1), ReturnOp (Return 0)],
     call_descriptors := [\<lparr>callee = ValueCallee, positional = 0, named = []\<rparr>],
     spans := replicate 4 span_zero, register_count := 2\<rparr>"

lemma dropped_result_chunk_fields [simp]:
  "code dropped_result_chunk = [Load (LoadNull 0), CallOp (CallWithNames 1 0 0), Load (Clear 1), ReturnOp (Return 0)]"
  "call_descriptors dropped_result_chunk = [\<lparr>callee = ValueCallee, positional = 0, named = []\<rparr>]"
  "spans dropped_result_chunk = replicate 4 span_zero" "register_count dropped_result_chunk = 2"
  "local_register_count dropped_result_chunk = 0" "parameter_register_start dropped_result_chunk = 0"
  "parameter_register_count dropped_result_chunk = 0" "trace_argument_registers dropped_result_chunk = []"
  "catch_table dropped_result_chunk = []"
  by (simp_all add: dropped_result_chunk_def new_chunk_def)

lemma dropped_result_chunk_verified: "verify xxh3 dropped_result_chunk = Inr ()"
  by (simp add: verify_eval verify_call_def verify_named_call_def check_window_def)

text \<open>
  The table of operands has no entry for a call with named arguments, so the scan does not see that the call
  writes its destination: it takes the register as fresh, and the clear that drops the result goes.
\<close>

theorem dropped_result_stays:
  "verify xxh3 dropped_result_chunk = Inr () \<and>
   for_each_write_register (CallOp (CallWithNames 1 0 0)) = None \<and>
   effect_on dropped_result_chunk (CallOp (CallWithNames 1 0 0)) 1 = Inr WriteEffect \<and>
   previous_value_safety dropped_result_chunk {} 0 = Inr [Some 0, None, Some 1, None]"
proof -
  have "effect_on dropped_result_chunk (CallOp (CallWithNames 1 0 0)) 1 = Inr WriteEffect" by code_simp
  moreover have "previous_value_safety dropped_result_chunk {} 0 = Inr [Some 0, None, Some 1, None]" by code_simp
  moreover have "for_each_write_register (CallOp (CallWithNames 1 0 0)) = None" by code_simp
  ultimately show ?thesis using dropped_result_chunk_verified by blast
qed
end
