(* ===== verification/Spec2Isabelle.thy ===== *)
theory Spec2Isabelle
  imports
    Whim_Prelude Whim_Operands Whim_Instruction Whim_Value Whim_Descriptors Whim_Trivial
    Whim_Tables Whim_Span Whim_Chunk Whim_Verify Whim_Rewrite Whim_Cfg Whim_JumpThreading
    Whim_Prune Whim_Unit Whim_Variance Whim_Registers Whim_Aliases Whim_OptOperands Whim_OptVisit
    Whim_Effect Whim_Liveness Whim_Dominators Whim_Passes Whim_Renaming Whim_Reuse
    Whim_Recolor Whim_Coalesce Whim_DeadStore
begin

text \<open>
  \<^bold>\<open>A verification development for the bytecode layer of Whim\<close>

  Whim compiles source files to units of bytecode chunks, verifies and optimises them, and runs them
  on a register machine that accesses registers, constants and side tables without bounds checks. The
  machine relies on the verifier and on the rewriting passes that run after it. This development
  models that layer: the crates \<^verbatim>\<open>bytecode\<close>, \<^verbatim>\<open>span\<close>, the observable part of \<^verbatim>\<open>value\<close> and the
  control-flow and liveness part of \<^verbatim>\<open>optimizer\<close>, all under \<^verbatim>\<open>src/crates/\<close>.

  \<^bold>\<open>Theories, in the order of the code\<close>

  \<^item> \<open>Whim_Prelude\<close>: results as sums (\<open>Inl\<close> is the error), panics as values of \<open>panic\<close>, sequences
    of checks, positions and enumerations of lists.
  \<^item> \<open>Whim_Operands\<close> (\<^verbatim>\<open>bytecode/src/instruction/operands.rs\<close>): operand encodings, comparison
    operators, modes. \<open>Whim_Instruction\<close> (\<^verbatim>\<open>instruction/mod.rs\<close>, \<^verbatim>\<open>word.rs\<close>): every instruction, in
    fourteen families, with its operand visit and its tag.
  \<^item> \<open>Whim_Value\<close> (\<^verbatim>\<open>value/src/lib.rs\<close>, \<^verbatim>\<open>dict/keys.rs\<close>): values and dictionary keys.
  \<^item> \<open>Whim_Descriptors\<close>, \<open>Whim_Trivial\<close>, \<open>Whim_Tables\<close> (\<^verbatim>\<open>chunk/descriptors.rs\<close>): type
    descriptors with their normalising constructors, the check of trivial descriptors, the entries
    of the side tables and the hash table of a string switch.
  \<^item> \<open>Whim_Span\<close> (\<^verbatim>\<open>span/src\<close>): positions, spans and lines.
  \<^item> \<open>Whim_Chunk\<close> (\<^verbatim>\<open>chunk/mod.rs\<close>): the record \<open>chunk\<close> and the operations that build it. The
    locale \<open>side_table\<close> states what a side table promises; it is interpreted for the eleven tables.
  \<^item> \<open>Whim_Verify\<close> (\<^verbatim>\<open>verify/\<close>): the verifier, check by check, and what an accepted chunk guarantees.
  \<^item> \<open>Whim_Rewrite\<close> (\<^verbatim>\<open>rewrite.rs\<close>): branch targets, compaction and the rebasing of offsets.
  \<^item> \<open>Whim_Cfg\<close> (\<^verbatim>\<open>optimizer/src/cfg.rs\<close>): successors, block ends, reachability of a chunk.
  \<^item> \<open>Whim_JumpThreading\<close>, \<open>Whim_Prune\<close> (\<^verbatim>\<open>optimizer/src/passes/\<close>): two passes.
  \<^item> \<open>Whim_Unit\<close> (\<^verbatim>\<open>unit.rs\<close>, \<^verbatim>\<open>verify/mod.rs\<close>): declarations of a unit and their verification.
  \<^item> \<open>Whim_Variance\<close> (\<^verbatim>\<open>variance.rs\<close>), \<open>Whim_Registers\<close> (\<^verbatim>\<open>reference_registers.rs\<close>),
    \<open>Whim_Aliases\<close> (\<^verbatim>\<open>aliases.rs\<close>, with the trait \<^verbatim>\<open>TypeAliasLookup\<close> as a locale).
  \<^item> \<open>Whim_OptOperands\<close>, \<open>Whim_OptVisit\<close> (\<^verbatim>\<open>optimizer/src/operands.rs\<close>): the registers each
    instruction reads and writes, by byte offset, the windows it reads implicitly, the visitors over
    both and the rewriting of register operands.
  \<^item> \<open>Whim_Effect\<close> (\<^verbatim>\<open>optimizer/src/liveness/effect.rs\<close>): what an instruction does to one register.
  \<^item> \<open>Whim_Liveness\<close> (\<^verbatim>\<open>optimizer/src/liveness/mod.rs\<close>): the search for one register, the analysis of
    all registers by bit rows, and the queries of the passes.
  \<^item> \<open>Whim_Dominators\<close> (\<^verbatim>\<open>Dominators\<close> in \<^verbatim>\<open>optimizer/src/cfg.rs\<close>): leaders, blocks, edges, the reverse
    postorder and the iteration over immediate dominators.
  \<^item> \<open>Whim_Passes\<close> (\<^verbatim>\<open>optimizer/src/passes/\<close>): the removal of clears, copy propagation, the fusion of an
    increment with its jump, the duplication of returns, the elision of iteration keys.
  \<^item> \<open>Whim_Renaming\<close>, \<open>Whim_Reuse\<close> (\<^verbatim>\<open>optimizer/src/passes/reuse_temporaries/mod.rs\<close>): the renaming of the
    registers of a chunk, with the windows it has to leave in place, and the linear scan that packs
    temporaries into fewer registers; the trimming of unused locals.
  \<^item> \<open>Whim_Recolor\<close> (\<^verbatim>\<open>reuse_temporaries/coloring.rs\<close>): the interference graph of the temporaries, their
    recolouring and the liveness rows it is built from. \<open>Whim_Coalesce\<close> (in the same file): the
    coalescing of the result of a call with its argument register.
  \<^item> \<open>Whim_DeadStore\<close> (\<^verbatim>\<open>optimizer/src/passes/dead_store.rs\<close>): the scan for registers that own nothing when they
    are overwritten, and the removal of dead stores. The type flow is the argument \<open>flow\<close>, about which nothing
    is assumed.
  \<^item> This theory: the bodies of a unit and what its verification means for the virtual machine.

  \<^bold>\<open>How the code is represented\<close>

  A function that can panic (an index out of bounds, a failed conversion, an explicit \<^verbatim>\<open>expect\<close>)
  returns a sum with \<open>panic\<close> on the left; one that returns \<^verbatim>\<open>Result\<close> has its error there; the verifier
  can do both and uses \<open>verify_stop\<close>. Integers of the source keep their width as words; \<^verbatim>\<open>i64\<close>,
  \<^verbatim>\<open>i32\<close>, \<^verbatim>\<open>i16\<close> and \<^verbatim>\<open>i8\<close> are words read by \<^const>\<open>sint\<close>; \<^verbatim>\<open>usize\<close> is a natural number where it only
  indexes memory that exists. Mutation is explicit state passing. The hash function of the string
  switch comes from another crate and is the argument \<open>xxh3\<close>; nothing is assumed about it. Loops are
  recursive functions with a termination proof, so none of them needs fuel: worklists by the entries
  still unmarked, the alias expansion by its depth limit, the mask by the bits still clear. The sweep
  of the liveness rows, the one of the recolouring, the iteration over dominators and the walks up the
  dominator tree are partial functions, as the source loops until nothing changes; that they return is part of the theorems
  about them.

  \<^bold>\<open>What is proved\<close>

  \<^item> The verifier: its operand checks are exact; an accepted chunk only names registers of its frame
    and entries of its tables; control flow of an accepted chunk never leaves the code, given that
    an iteration step has a continuation, which the verifier does not check.
  \<^item> Units: in an accepted unit every body that is verified stays inside its frame, tables and code; a
    rejected one has a body with the reported error. Parameter defaults are not verified.
  \<^item> The rewriting: compaction of a verified chunk returns and maps every target; pruning simulates
    the original chunk; jump threading keeps the end of every chain of jumps; the removed
    instructions are the unreachable ones and jumps over them.
  \<^item> The analyses: the ownership mask is a least fixed point, the variance worklist finds exactly the
    parameters used against their declaration, by rules that do not mention the walk, the memoised walk of jump threading detects exactly the cycles.
  \<^item> Liveness: the search for one register and the rows of all of them decide the same relation, that
    some path reads the register before an instruction overwrites it; the effect of an instruction on
    a register agrees with the operand visitors; rewriting registers changes exactly the operands it
    should.
  \<^item> Dominators: the construction returns on every verified chunk, and its queries decide reachability
    and domination along the paths of the control flow.
  \<^item> Passes: what each of them may remove or rewrite, and three verified chunks that a pass changes the
    meaning of: an update in place that copy propagation moves to another register, an iteration key
    that is read behind its loop, and a checked return that is copied into a try block.
  \<^item> Renaming: a simulation for any renaming that keeps apart what is needed at the same time, stated
    over runs of the code in which each instruction may compute anything from the values it reads
    (\<open>behaviour\<close>, \<open>run_of\<close>). The linear scan is an instance: it keeps every run of a verified chunk under
    three conditions on the chunk, and one of them is necessary, as a verified chunk with a pattern over a
    tuple of registers shows. The recolouring is a second instance: its rows reach their least fixed point
    (by the locale \<open>row_iteration\<close>, interpreted for both analyses over bit rows), a colour is found for every
    temporary, and the recoloured chunk has the runs of the original. The coalescing of call results keeps
    runs as well, with the condition on windows that a verified chunk shows to be necessary. A run that skips
    the dead stores reads the same values, and the scan behind them is sound for every path but one kind: a
    value that a backward jump brings to a register nothing above writes.
  \<^item> Empty tuple patterns are excluded where the dense liveness analysis is involved: a verified chunk with
    one makes it panic.
  \<^item> The data: interning of constants and its invariant, side tables that read back, patching of
    jumps, normalising constructors that change no check, the hash table of a string switch, alias
    bindings, operand encodings, lines.

  \<^bold>\<open>Not modelled\<close>

  The virtual machine and the runtime library, the compiler, the parser, the formatter, the linter,
  the event loop and the database drivers; the heap with its reference counts and collector (values
  are modelled by their contents); the optimizer passes that depend on the meaning of instructions
  rather than on control flow and liveness, and the type flow; the memory layout behind
  \<^verbatim>\<open>InstructionWord\<close>; text rendering of bytecode.

  \<^bold>\<open>Plan\<close>

  The remaining passes built on liveness and effects (move coalescing, loop invariants), preservation of
  verification by the passes.
\<close>

section \<open>The code of a unit\<close>

text \<open>
  Where a unit keeps code: its main chunk, functions and methods, and the thunks of constants, property
  defaults, enum cases and the arguments of file and class attributes. The thunks of parameter defaults and of
  the attributes of functions, methods, properties and constants are not among them.
\<close>

inductive body_of :: "compiled_unit \<Rightarrow> chunk \<Rightarrow> bool" for u where
  main_chunk: "body_of u (main u)"
| function_body: "f \<in> set (unit_functions u) \<Longrightarrow> body_of u (function_chunk f)"
| method_body: "k \<in> set (classes u) \<Longrightarrow> m \<in> set (methods k) \<Longrightarrow> body_of u (function_chunk (method_function m))"
| constant_thunk: "x \<in> set (unit_constants u) \<Longrightarrow> constant_initializer x = Thunk c \<Longrightarrow> body_of u c"
| class_constant_thunk: "k \<in> set (classes u) \<Longrightarrow> x \<in> set (class_constants k) \<Longrightarrow>
    class_constant_initializer x = Thunk c \<Longrightarrow> body_of u c"
| default_thunk: "k \<in> set (classes u) \<Longrightarrow> p \<in> set (properties k) \<Longrightarrow> property_default p = Some (Thunk c) \<Longrightarrow> body_of u c"
| case_thunk: "k \<in> set (classes u) \<Longrightarrow> e \<in> set (cases k) \<Longrightarrow> case_value e = Some (Thunk c) \<Longrightarrow> body_of u c"
| class_attribute_thunk: "k \<in> set (classes u) \<Longrightarrow> a \<in> set (class_attributes k) \<Longrightarrow>
    Thunk c \<in> set (attribute_arguments a) \<union> snd ` set (attribute_named_arguments a) \<Longrightarrow> body_of u c"
| file_attribute_thunk: "f \<in> set (files u) \<Longrightarrow> a \<in> set (file_attributes f) \<Longrightarrow>
    Thunk c \<in> set (attribute_arguments a) \<union> snd ` set (attribute_named_arguments a) \<Longrightarrow> body_of u c"

text \<open>
  What the virtual machine relies on when it runs a chunk: every instruction touches registers of the frame
  only, its operands name entries of the tables, and the next instruction is one of the chunk, the
  continuation of an iteration step excepted.
\<close>

definition runs_inside :: "chunk \<Rightarrow> bool" where
  "runs_inside c \<longleftrightarrow> code c \<noteq> [] \<and>
     (\<forall>i<length (code c). instruction_registers c (code c ! i) \<subseteq> {..<unat (register_count c)} \<and>
        list_all (operand_valid c i) (instruction_operands (code c ! i)) \<and>
        (\<exists>ss. successors c i = Inr ss \<and>
           (\<forall>s\<in>set ss. s < length (code c) \<or> is_foreach_next (code c ! i) \<and> s = i + 2)))"

lemma verified_runs_inside:
  assumes "verify xxh3 c = Inr ()"
  shows "runs_inside c"
  unfolding runs_inside_def
proof (intro conjI allI impI)
  show "code c \<noteq> []" using verified_length(1) [OF assms] by simp
  fix i assume i: "i < length (code c)"
  show "instruction_registers c (code c ! i) \<subseteq> {..<unat (register_count c)}" by (rule verified_registers [OF assms i])
  show "list_all (operand_valid c i) (instruction_operands (code c ! i))"
    using verified_operand [OF assms i] verified_instruction(2) [OF assms i] by (simp add: list_all_iff verify_operand_iff)
  show "\<exists>ss. successors c i = Inr ss \<and>
      (\<forall>s\<in>set ss. s < length (code c) \<or> is_foreach_next (code c ! i) \<and> s = i + 2)"
    by (rule verified_successors [OF assms i])
qed

text \<open>The first check that stops a sequence is one of it.\<close>

lemma run_checks_stop: "run_checks cs = Inl e \<Longrightarrow> Inl e \<in> set cs"
proof (induction cs)
  case (Cons r cs)
  then show ?case by (cases r) auto
qed simp

lemma initializer_stop: "verify_initializer xxh3 i = Inl e \<Longrightarrow> \<exists>c. i = Thunk c \<and> verify xxh3 c = Inl e"
  by (cases i) (simp_all add: verify_initializer_def)

lemma optional_stop: "verify_optional xxh3 i = Inl e \<Longrightarrow> \<exists>c. i = Some (Thunk c) \<and> verify xxh3 c = Inl e"
  by (cases i) (auto simp: verify_optional_def dest: initializer_stop)

lemma attribute_stop:
  assumes "verify_attribute xxh3 a = Inl e"
  shows "\<exists>c. Thunk c \<in> set (attribute_arguments a) \<union> snd ` set (attribute_named_arguments a) \<and> verify xxh3 c = Inl e"
proof -
  from run_checks_stop [OF assms [unfolded verify_attribute_def]]
  obtain i where "i \<in> set (attribute_arguments a) \<union> snd ` set (attribute_named_arguments a)"
    "verify_initializer xxh3 i = Inl e" by force
  then show ?thesis using initializer_stop by metis
qed

lemma class_stop:
  assumes "verify_class xxh3 k = Inl e" "k \<in> set (classes u)"
  shows "\<exists>c. body_of u c \<and> verify xxh3 c = Inl e"
proof -
  note bodies = body_of.method_body [OF assms(2)] body_of.class_constant_thunk [OF assms(2)]
    body_of.default_thunk [OF assms(2)] body_of.case_thunk [OF assms(2)] body_of.class_attribute_thunk [OF assms(2)]
  consider x where "x \<in> set (class_constants k)" "verify_initializer xxh3 (class_constant_initializer x) = Inl e"
    | p where "p \<in> set (properties k)" "verify_optional xxh3 (property_default p) = Inl e"
    | m where "m \<in> set (methods k)" "verify xxh3 (function_chunk (method_function m)) = Inl e"
    | x where "x \<in> set (cases k)" "verify_optional xxh3 (case_value x) = Inl e"
    | a where "a \<in> set (class_attributes k)" "verify_attribute xxh3 a = Inl e"
    using run_checks_stop [OF assms(1) [unfolded verify_class_def]] by (auto simp: verify_function_def)
  then show ?thesis
    by cases (metis bodies initializer_stop optional_stop attribute_stop)+
qed

text \<open>C20. Verification of a unit is what makes its code safe to run: in an accepted unit every body
  stays inside its frame, its tables and its code, and a rejected unit has a body with the reported error.
  Bodies are the main chunk, functions, methods and the thunks of constants, property defaults, enum cases and
  file and class attributes.\<close>

theorem accepted_unit_safe:
  "(verify_unit xxh3 u = Inr () \<longrightarrow> body_of u c \<longrightarrow> runs_inside c) \<and>
   (verify_unit xxh3 u = Inl e \<longrightarrow> (\<exists>c. body_of u c \<and> verify xxh3 c = Inl e))"
proof (intro conjI impI)
  assume "verify_unit xxh3 u = Inr ()" "body_of u c"
  from this(2,1) have "verify xxh3 c = Inr ()"
    by cases (auto simp: verify_unit_def verify_class_def verify_attribute_def verify_function_def verify_optional_def
        checks_of_parts split_beta; force simp: verify_initializer_def)+
  then show "runs_inside c" by (rule verified_runs_inside)
next
  assume "verify_unit xxh3 u = Inl e"
  from run_checks_stop [OF this [unfolded verify_unit_def]]
  consider f a where "f \<in> set (files u)" "a \<in> set (file_attributes f)" "verify_attribute xxh3 a = Inl e"
    | "verify xxh3 (main u) = Inl e"
    | f where "f \<in> set (unit_functions u)" "verify xxh3 (function_chunk f) = Inl e"
    | k where "k \<in> set (classes u)" "verify_class xxh3 k = Inl e"
    | x where "x \<in> set (unit_constants u)" "verify_initializer xxh3 (constant_initializer x) = Inl e"
    by (auto simp: verify_function_def)
  then show "\<exists>c. body_of u c \<and> verify xxh3 c = Inl e"
    by cases (metis body_of.intros(1,2,4,9) class_stop initializer_stop attribute_stop)+
qed

definition sample_unit :: compiled_unit where
  "sample_unit = \<lparr>unit_path = ''sample'', files = [], main = sample_chunk, unit_functions = [], classes = [],
     unit_constants = [], type_aliases = [], newtypes = []\<rparr>"

theorem accepted_unit_safe_witness: "runs_inside sample_chunk"
proof -
  have "verify_unit (\<lambda>_. 0) sample_unit = Inr ()"
    by (simp add: verify_unit_def sample_unit_def sample_chunk_verified)
  moreover have "body_of sample_unit sample_chunk"
    using body_of.main_chunk [of sample_unit] by (simp add: sample_unit_def)
  ultimately show ?thesis
    using accepted_unit_safe [of "\<lambda>_. 0" sample_unit sample_chunk] by blast
qed

end
